(* ===== verification/Mos_Prelude.thy ===== *)
theory Mos_Prelude
  imports Main "HOL-Library.Word" "HOL-Library.Multiset"
begin

text \<open>
  What every component shares: the C integer types as words, the byte-order conversions,
  the pointer-valued options, the development's theorem collections, and the list and
  word lemmas the component proofs use.

  C's \<open>int\<close> and \<open>long\<close> counters that never come near their bounds are modelled as
  \<open>int\<close>; every field whose wrap-around the code relies on (sequence numbers,
  timestamps, queue indices, windows, bit-fields) is a word of the field's width.
\<close>

unbundle bit_operations_syntax

section \<open>Machine types\<close>

type_synonym u8 = "8 word"
type_synonym u16 = "16 word"
type_synonym u32 = "32 word"
type_synonym u64 = "64 word"

text \<open>A stream, socket, buffer or timer is named by the number of its object.\<close>

type_synonym ref = nat

section \<open>Collections\<close>

named_theorems ring_simps \<open>index arithmetic of the circular queues\<close>
named_theorems frag_simps \<open>facts about fragment lists\<close>
named_theorems frame_simps \<open>what an operation leaves unchanged\<close>

section \<open>Byte order\<close>

text \<open>
  \<open>ntohl\<close>/\<open>htonl\<close> and \<open>ntohs\<close>/\<open>htons\<close> on the little-endian hosts the code is
  built for (\<open>-m64\<close>): both directions reverse the bytes.
\<close>

definition bswap32 :: "u32 \<Rightarrow> u32" where
  "bswap32 w = push_bit 24 (w AND 0xFF) OR push_bit 8 (w AND 0xFF00)
     OR (drop_bit 8 w AND 0xFF00) OR (drop_bit 24 w AND 0xFF)"

definition bswap16 :: "u16 \<Rightarrow> u16" where
  "bswap16 w = push_bit 8 (w AND 0xFF) OR (drop_bit 8 w AND 0xFF)"

abbreviation ntohl :: "u32 \<Rightarrow> u32" where "ntohl \<equiv> bswap32"
abbreviation htonl :: "u32 \<Rightarrow> u32" where "htonl \<equiv> bswap32"
abbreviation ntohs :: "u16 \<Rightarrow> u16" where "ntohs \<equiv> bswap16"
abbreviation htons :: "u16 \<Rightarrow> u16" where "htons \<equiv> bswap16"

text \<open>Bit by bit: the \<open>k\<close>-th byte of the result is the \<open>3 - k\<close>-th byte of the argument.\<close>

lemma bit_bswap32:
  "bit (bswap32 w) n \<longleftrightarrow>
     (if n < 8 then bit w (24 + n) else if n < 16 then bit w (n + 8)
      else if n < 24 then bit w (n - 8) else n < 32 \<and> bit w (n - 24))"
proof -
  have m1: "(0xFF :: u32) = mask 8" by (simp add: mask_eq_exp_minus_1)
  have m2: "(0xFF00 :: u32) = push_bit 8 (mask 8)" by (simp add: mask_eq_exp_minus_1)
  have lim: "bit w k \<Longrightarrow> k < 32" for k
    using bit_imp_le_length[of w k] by simp
  show ?thesis
    unfolding bswap32_def m1 m2
    by (auto simp: bit_simps add.commute possible_bit_def dest: lim)
qed

lemma bswap32_bswap32 [simp]: "bswap32 (bswap32 w) = w"
  by (rule bit_word_eqI) (auto simp: bit_bswap32)

lemma bswap32_eq_iff [simp]: "bswap32 v = bswap32 w \<longleftrightarrow> v = w"
  by (metis bswap32_bswap32)

lemma bit_bswap16:
  "bit (bswap16 w) n \<longleftrightarrow> (if n < 8 then bit w (8 + n) else n < 16 \<and> bit w (n - 8))"
proof -
  have m1: "(0xFF :: u16) = mask 8" by (simp add: mask_eq_exp_minus_1)
  have lim: "bit w k \<Longrightarrow> k < 16" for k
    using bit_imp_le_length[of w k] by simp
  show ?thesis
    unfolding bswap16_def m1
    by (auto simp: bit_simps add.commute possible_bit_def dest: lim)
qed

lemma bswap16_bswap16 [simp]: "bswap16 (bswap16 w) = w"
  by (rule bit_word_eqI) (auto simp: bit_bswap16)

lemma bswap16_eq_iff [simp]: "bswap16 v = bswap16 w \<longleftrightarrow> v = w"
  by (metis bswap16_bswap16)

section \<open>Words\<close>

lemma unat_word_succ [ring_simps]:
  fixes i c :: "'a::len word"
  assumes "i < c"
  shows "unat (i + 1) = unat i + 1"
proof -
  have "Suc (unat i) \<le> unat c" using assms by (simp add: word_less_nat_alt)
  also have "unat c < 2 ^ LENGTH('a)" by (rule unsigned_less)
  finally have "unat i + unat (1 :: 'a word) < 2 ^ LENGTH('a)" by simp
  then show ?thesis by (metis unat_add_lem unat_1)
qed

lemma unat_ucast_u64 [simp]: "unat (ucast (x :: u32) :: u64) = unat x"
  by (simp add: unsigned_ucast_eq take_bit_nat_eq_self unsigned_less[of x, THEN order.strict_trans2])

lemma unat_ucast_u32:
  fixes n :: u64
  assumes "unat n < 2 ^ 32"
  shows "unat (ucast n :: u32) = unat n"
  using assms by (simp add: unsigned_ucast_eq take_bit_nat_eq_self)

lemma word_of_nat_unat: "unat (w :: 'a::len word) = n \<Longrightarrow> w = of_nat n"
  by (auto simp: word_unat_eq_iff)

lemma unat_add_small:
  fixes a b :: "'a::len word"
  assumes "unat a + unat b < 2 ^ LENGTH('a)"
  shows "unat (a + b) = unat a + unat b"
  using assms by (simp add: unat_add_lem)

section \<open>Lists\<close>

lemma mod_Suc_wrap [ring_simps]:
  fixes i n :: nat
  assumes "i < n"
  shows "Suc i mod n = (if Suc i = n then 0 else Suc i)"
  using assms by auto

lemma map_nth_update_other:
  assumes "i \<notin> f ` set js"
  shows "map (\<lambda>j. xs[i := x] ! f j) js = map (\<lambda>j. xs ! f j) js"
  using assms by (auto simp: image_iff intro!: map_cong nth_list_update_neq)

lemma removeAll_remove1 [simp]:
  "distinct xs \<Longrightarrow> removeAll x xs = remove1 x xs"
  by (simp add: distinct_remove1_removeAll)

lemma mset_concat_update:
  assumes "i < length t"
  shows "mset (concat (t[i := y])) + mset (t ! i) = mset (concat t) + mset y"
proof -
  have "t = take i t @ t ! i # drop (Suc i) t" using assms by (rule id_take_nth_drop)
  then have "mset (concat t) = mset (concat (take i t)) + mset (t ! i) + mset (concat (drop (Suc i) t))"
    by (metis concat.simps(2) concat_append mset_append union_assoc)
  then show ?thesis using assms by (simp add: upd_conv_take_nth_drop ac_simps)
qed

lemma find_Some_iff_mem:
  "find P xs = None \<longleftrightarrow> (\<forall>x \<in> set xs. \<not> P x)"
  by (auto simp: find_None_iff)

lemma find_SomeD: "find P xs = Some x \<Longrightarrow> x \<in> set xs \<and> P x"
  by (auto simp: find_Some_iff in_set_conv_nth)

section \<open>Byte arrays\<close>

text \<open>\<open>memcpy(dst + off, src, n)\<close> on a byte list, with \<open>src\<close> already cut to \<open>n\<close> bytes.\<close>

definition blit :: "nat \<Rightarrow> 'a list \<Rightarrow> 'a list \<Rightarrow> 'a list" where
  "blit off src dst = take off dst @ src @ drop (off + length src) dst"

lemma length_blit [simp]: "off + length src \<le> length dst \<Longrightarrow> length (blit off src dst) = length dst"
  by (simp add: blit_def)

lemma nth_blit:
  "off + length src \<le> length dst \<Longrightarrow> i < length dst \<Longrightarrow>
   blit off src dst ! i = (if off \<le> i \<and> i < off + length src then src ! (i - off) else dst ! i)"
  by (auto simp: blit_def nth_append min_def)

lemma take_drop_blit_same [simp]:
  "off + length src \<le> length dst \<Longrightarrow> take (length src) (drop off (blit off src dst)) = src"
  by (simp add: blit_def)

lemma take_drop_blit_before:
  "o' + n \<le> off \<Longrightarrow> off + length src \<le> length dst \<Longrightarrow>
   take n (drop o' (blit off src dst)) = take n (drop o' dst)"
  by (rule nth_equalityI) (auto simp: nth_blit)

end
