(* ===== verification/Ring_Queues.thy ===== *)
theory Ring_Queues
  imports Mos_Prelude
begin

text \<open>
  The circular pointer queues: \<open>tcp_sb_queue.c\<close> (free send buffers),
  \<open>tcp_rb_frag_queue.c\<close> (free fragment contexts) and \<open>tcp_stream_queue.c\<close> (the
  stream queues shared with the application threads, and the internal stream queues).

  The first three share one representation (\<open>_capacity\<close>, \<open>_head\<close>, \<open>_tail\<close> of
  type \<open>uint32_t\<close> and an array of \<open>capacity + 1\<close> pointers), so one record models the
  struct; each file has its own operations, translated one by one.  The locale
  \<open>bounded_fifo\<close> is the contract the rest of the stack relies on; it is interpreted on
  all four queues.
\<close>

section \<open>The contract: a bounded FIFO queue\<close>

datatype 'a qop = Enq 'a | Deq
datatype 'a qres = Code int | Val "'a option"

text \<open>A client's run: its operations in order, and the value each of them returned.\<close>

fun run_queue ::
  "('q \<Rightarrow> 'a \<Rightarrow> int \<times> 'q) \<Rightarrow> ('q \<Rightarrow> 'a option \<times> 'q) \<Rightarrow> 'a qop list \<Rightarrow> 'q \<Rightarrow> 'a qres list \<times> 'q"
where
  "run_queue enq deq [] q = ([], q)"
| "run_queue enq deq (Enq x # ops) q =
     (let (c, q') = enq q x; (rs, q'') = run_queue enq deq ops q' in (Code c # rs, q''))"
| "run_queue enq deq (Deq # ops) q =
     (let (v, q') = deq q; (rs, q'') = run_queue enq deq ops q' in (Val v # rs, q''))"

text \<open>The same run on the specification: a list of at most \<open>n\<close> elements.\<close>

fun spec_queue :: "nat \<Rightarrow> 'a qop list \<Rightarrow> 'a list \<Rightarrow> 'a qres list \<times> 'a list" where
  "spec_queue n [] xs = ([], xs)"
| "spec_queue n (Enq x # ops) xs =
     (if length xs < n
      then (let (rs, ys) = spec_queue n ops (xs @ [x]) in (Code 0 # rs, ys))
      else (let (rs, ys) = spec_queue n ops xs in (Code (-1) # rs, ys)))"
| "spec_queue n (Deq # ops) xs =
     (case xs of
        [] \<Rightarrow> (let (rs, ys) = spec_queue n ops [] in (Val None # rs, ys))
      | x # xs' \<Rightarrow> (let (rs, ys) = spec_queue n ops xs' in (Val (Some x) # rs, ys)))"

locale bounded_fifo =
  fixes capacity :: "'q \<Rightarrow> nat"
    and contents :: "'q \<Rightarrow> 'a list"
    and inv :: "'q \<Rightarrow> bool"
    and enq :: "'q \<Rightarrow> 'a \<Rightarrow> int \<times> 'q"
    and deq :: "'q \<Rightarrow> 'a option \<times> 'q"
  assumes contents_bound: "inv q \<Longrightarrow> length (contents q) \<le> capacity q"
    and enq_inv: "inv q \<Longrightarrow> inv (snd (enq q x)) \<and> capacity (snd (enq q x)) = capacity q"
    and enq_space: "inv q \<Longrightarrow> length (contents q) < capacity q \<Longrightarrow>
          fst (enq q x) = 0 \<and> contents (snd (enq q x)) = contents q @ [x]"
    and enq_full: "inv q \<Longrightarrow> length (contents q) = capacity q \<Longrightarrow> enq q x = (-1, q)"
    and deq_inv: "inv q \<Longrightarrow> inv (snd (deq q)) \<and> capacity (snd (deq q)) = capacity q"
    and deq_empty: "inv q \<Longrightarrow> contents q = [] \<Longrightarrow> deq q = (None, q)"
    and deq_cons: "inv q \<Longrightarrow> contents q = x # xs \<Longrightarrow>
          fst (deq q) = Some x \<and> contents (snd (deq q)) = xs"
begin

lemma run_refines:
  assumes "inv q"
  shows "fst (run_queue enq deq ops q) = fst (spec_queue (capacity q) ops (contents q))
       \<and> contents (snd (run_queue enq deq ops q)) = snd (spec_queue (capacity q) ops (contents q))
       \<and> inv (snd (run_queue enq deq ops q))"
  using assms
proof (induction ops arbitrary: q)
  case (Cons op ops)
  show ?case
  proof (cases op)
    case (Enq x)
    obtain c q' where e: "enq q x = (c, q')" by fastforce
    have i: "inv q'" "capacity q' = capacity q" using enq_inv[OF Cons.prems, of x] e by auto
    show ?thesis
    proof (cases "length (contents q) < capacity q")
      case True
      then show ?thesis
        using Enq e i Cons.IH[OF i(1)] enq_space[OF Cons.prems True, of x]
        by (auto simp: split_beta Let_def)
    next
      case False
      then have "length (contents q) = capacity q" using contents_bound[OF Cons.prems] by simp
      then show ?thesis
        using Enq e i Cons.IH[OF i(1)] enq_full[OF Cons.prems, of x] False
        by (auto simp: split_beta Let_def)
    qed
  next
    case Deq
    obtain v q' where d: "deq q = (v, q')" by fastforce
    have i: "inv q'" "capacity q' = capacity q" using deq_inv[OF Cons.prems] d by auto
    show ?thesis
    proof (cases "contents q")
      case Nil
      then show ?thesis
        using Deq d i Cons.IH[OF i(1)] deq_empty[OF Cons.prems Nil]
        by (auto simp: split_beta Let_def)
    next
      case (Cons y ys)
      then show ?thesis
        using Deq d i Cons.IH[OF i(1)] deq_cons[OF Cons.prems Cons]
        by (auto simp: split_beta Let_def)
    qed
  qed
qed simp

end

section \<open>The pointer ring\<close>

text \<open>
  \<open>struct sb_queue\<close>, \<open>struct rb_frag_queue\<close> and \<open>struct stream_queue\<close>: a null
  slot is \<open>None\<close>.
\<close>

record 'a ring =
  rq_capacity :: u32
  rq_head :: u32
  rq_tail :: u32
  rq_q :: "'a option list"

definition ring_dist :: "nat \<Rightarrow> nat \<Rightarrow> nat \<Rightarrow> nat" where
  "ring_dist N h t = (if h \<le> t then t - h else t + N - h)"

definition ring_contents :: "'a ring \<Rightarrow> 'a list" where
  "ring_contents q = (let N = length (rq_q q); h = unat (rq_head q) in
     map (\<lambda>i. the (rq_q q ! ((h + i) mod N))) [0..<ring_dist N h (unat (rq_tail q))])"

definition ring_inv :: "'a ring \<Rightarrow> bool" where
  "ring_inv q \<longleftrightarrow> length (rq_q q) = Suc (unat (rq_capacity q))
     \<and> rq_head q \<le> rq_capacity q \<and> rq_tail q \<le> rq_capacity q
     \<and> (\<forall>i < ring_dist (length (rq_q q)) (unat (rq_head q)) (unat (rq_tail q)).
          rq_q q ! ((unat (rq_head q) + i) mod length (rq_q q)) \<noteq> None)"

abbreviation ring_capacity :: "'a ring \<Rightarrow> nat" where
  "ring_capacity q \<equiv> unat (rq_capacity q)"

subsection \<open>\<open>tcp_sb_queue.c\<close>\<close>

type_synonym sb_queue = "ref ring"

definition SB_NextIndex :: "'a ring \<Rightarrow> u32 \<Rightarrow> u32" where
  "SB_NextIndex sq i = (if i \<noteq> rq_capacity sq then i + 1 else 0)"

definition SB_PrevIndex :: "'a ring \<Rightarrow> u32 \<Rightarrow> u32" where
  "SB_PrevIndex sq i = (if i \<noteq> 0 then i - 1 else rq_capacity sq)"

text \<open>The two booleans say whether the two \<open>calloc\<close> calls succeed.\<close>

definition CreateSBQueue :: "bool \<Rightarrow> bool \<Rightarrow> int \<Rightarrow> 'a ring option" where
  "CreateSBQueue alloc_sq alloc_q capacity =
     (if \<not> alloc_sq then None
      else if \<not> alloc_q then None
      else Some \<lparr> rq_capacity = word_of_int capacity, rq_head = 0, rq_tail = 0,
                  rq_q = replicate (nat (capacity + 1)) None \<rparr>)"

definition SBEnqueue :: "'a ring \<Rightarrow> 'a \<Rightarrow> int \<times> 'a ring" where
  "SBEnqueue sq buf =
     (let h = rq_head sq; t = rq_tail sq; nt = SB_NextIndex sq t in
      if nt \<noteq> h then (0, sq\<lparr> rq_q := (rq_q sq)[unat t := Some buf], rq_tail := nt \<rparr>)
      else (-1, sq))"

definition SBDequeue :: "'a ring \<Rightarrow> 'a option \<times> 'a ring" where
  "SBDequeue sq =
     (let h = rq_head sq; t = rq_tail sq in
      if h \<noteq> t then (rq_q sq ! unat h, sq\<lparr> rq_head := SB_NextIndex sq h \<rparr>)
      else (None, sq))"

subsection \<open>\<open>tcp_rb_frag_queue.c\<close>\<close>

type_synonym rb_frag_queue = "ref ring"

definition RBF_NextIndex :: "'a ring \<Rightarrow> u32 \<Rightarrow> u32" where
  "RBF_NextIndex rb_fragq i = (if i \<noteq> rq_capacity rb_fragq then i + 1 else 0)"

definition RBF_PrevIndex :: "'a ring \<Rightarrow> u32 \<Rightarrow> u32" where
  "RBF_PrevIndex rb_fragq i = (if i \<noteq> 0 then i - 1 else rq_capacity rb_fragq)"

definition CreateRBFragQueue :: "bool \<Rightarrow> bool \<Rightarrow> int \<Rightarrow> 'a ring option" where
  "CreateRBFragQueue alloc_rb alloc_q capacity =
     (if \<not> alloc_rb then None
      else if \<not> alloc_q then None
      else Some \<lparr> rq_capacity = word_of_int capacity, rq_head = 0, rq_tail = 0,
                  rq_q = replicate (nat (capacity + 1)) None \<rparr>)"

definition RBFragEnqueue :: "'a ring \<Rightarrow> 'a \<Rightarrow> int \<times> 'a ring" where
  "RBFragEnqueue rb_fragq frag =
     (let h = rq_head rb_fragq; t = rq_tail rb_fragq; nt = RBF_NextIndex rb_fragq t in
      if nt \<noteq> h
      then (0, rb_fragq\<lparr> rq_q := (rq_q rb_fragq)[unat t := Some frag], rq_tail := nt \<rparr>)
      else (-1, rb_fragq))"

definition RBFragDequeue :: "'a ring \<Rightarrow> 'a option \<times> 'a ring" where
  "RBFragDequeue rb_fragq =
     (let h = rq_head rb_fragq; t = rq_tail rb_fragq in
      if h \<noteq> t
      then (rq_q rb_fragq ! unat h, rb_fragq\<lparr> rq_head := RBF_NextIndex rb_fragq h \<rparr>)
      else (None, rb_fragq))"

subsection \<open>\<open>tcp_stream_queue.c\<close>: the shared queue\<close>

type_synonym stream_queue = "ref ring"

definition STR_NextIndex :: "'a ring \<Rightarrow> u32 \<Rightarrow> u32" where
  "STR_NextIndex sq i = (if i \<noteq> rq_capacity sq then i + 1 else 0)"

definition STR_PrevIndex :: "'a ring \<Rightarrow> u32 \<Rightarrow> u32" where
  "STR_PrevIndex sq i = (if i \<noteq> 0 then i - 1 else rq_capacity sq)"

definition StreamQueueIsEmpty :: "'a ring \<Rightarrow> bool" where
  "StreamQueueIsEmpty sq \<longleftrightarrow> rq_head sq = rq_tail sq"

definition CreateStreamQueue :: "bool \<Rightarrow> bool \<Rightarrow> int \<Rightarrow> 'a ring option" where
  "CreateStreamQueue alloc_sq alloc_q capacity =
     (if \<not> alloc_sq then None
      else if \<not> alloc_q then None
      else Some \<lparr> rq_capacity = word_of_int capacity, rq_head = 0, rq_tail = 0,
                  rq_q = replicate (nat (capacity + 1)) None \<rparr>)"

definition StreamEnqueue :: "'a ring \<Rightarrow> 'a \<Rightarrow> int \<times> 'a ring" where
  "StreamEnqueue sq stream =
     (let h = rq_head sq; t = rq_tail sq; nt = STR_NextIndex sq t in
      if nt \<noteq> h then (0, sq\<lparr> rq_q := (rq_q sq)[unat t := Some stream], rq_tail := nt \<rparr>)
      else (-1, sq))"

definition StreamDequeue :: "'a ring \<Rightarrow> 'a option \<times> 'a ring" where
  "StreamDequeue sq =
     (let h = rq_head sq; t = rq_tail sq in
      if h \<noteq> t then (rq_q sq ! unat h, sq\<lparr> rq_head := STR_NextIndex sq h \<rparr>)
      else (None, sq))"

section \<open>The pointer ring is a bounded FIFO queue\<close>

lemma ring_dist_self [simp]: "ring_dist N h h = 0"
  by (simp add: ring_dist_def)

lemma ring_dist_less: "h < N \<Longrightarrow> t < N \<Longrightarrow> ring_dist N h t < N"
  by (auto simp: ring_dist_def)

lemma ring_dist_0_iff: "h < N \<Longrightarrow> t < N \<Longrightarrow> ring_dist N h t = 0 \<longleftrightarrow> h = t"
  by (auto simp: ring_dist_def)

lemma ring_dist_at: "h < N \<Longrightarrow> t < N \<Longrightarrow> (h + ring_dist N h t) mod N = t"
  by (auto simp: ring_dist_def)

lemma ring_mod:
  fixes h i N :: nat
  assumes "h < N" "i < N"
  shows "(h + i) mod N = (if h + i < N then h + i else h + i - N)"
  using assms by (simp add: le_mod_geq)

lemma ring_index_other:
  assumes "h < N" "t < N" "i < ring_dist N h t"
  shows "(h + i) mod N \<noteq> t"
proof -
  have "i < N" using assms ring_dist_less[of h N t] by simp
  then show ?thesis using assms by (auto simp: ring_mod ring_dist_def split: if_splits)
qed

lemma ring_dist_tail_step:
  "h < N \<Longrightarrow> t < N \<Longrightarrow> (if Suc t = N then 0 else Suc t) \<noteq> h \<Longrightarrow>
   ring_dist N h (if Suc t = N then 0 else Suc t) = Suc (ring_dist N h t)"
  by (auto simp: ring_dist_def)

lemma ring_dist_full:
  "h < N \<Longrightarrow> t < N \<Longrightarrow> (if Suc t = N then 0 else Suc t) = h \<longleftrightarrow> Suc (ring_dist N h t) = N"
  by (auto simp: ring_dist_def)

lemma ring_dist_head_step:
  "h < N \<Longrightarrow> t < N \<Longrightarrow> h \<noteq> t \<Longrightarrow>
   Suc (ring_dist N (if Suc h = N then 0 else Suc h) t) = ring_dist N h t"
  by (auto simp: ring_dist_def)

lemma ring_head_shift:
  assumes "h < N"
  shows "((if Suc h = N then 0 else Suc h) + i) mod N = (h + Suc i) mod N"
proof (cases "Suc h = N")
  case True
  then have "h + Suc i = i + N" by linarith
  then have "(h + Suc i) mod N = i mod N" by (metis mod_add_self2)
  then show ?thesis using True by simp
qed simp

lemma unat_SB_NextIndex:
  assumes "i \<le> rq_capacity q"
  shows "unat (SB_NextIndex q i) = (if Suc (unat i) = Suc (unat (rq_capacity q)) then 0 else Suc (unat i))"
proof (cases "i = rq_capacity q")
  case False
  then have lt: "i < rq_capacity q" using assms by simp
  then have "unat i \<noteq> unat (rq_capacity q)" by (simp add: word_less_nat_alt)
  then show ?thesis using False unat_word_succ[OF lt] by (simp add: SB_NextIndex_def)
qed (simp add: SB_NextIndex_def)

lemma ring_inv_nat:
  "ring_inv q \<Longrightarrow> unat (rq_head q) < Suc (ring_capacity q) \<and> unat (rq_tail q) < Suc (ring_capacity q)"
  by (simp add: ring_inv_def word_le_nat_alt)

lemma length_ring_contents:
  "length (ring_contents q) = ring_dist (length (rq_q q)) (unat (rq_head q)) (unat (rq_tail q))"
  by (simp add: ring_contents_def Let_def)

lemma ring_contents_bound: "ring_inv q \<Longrightarrow> length (ring_contents q) \<le> ring_capacity q"
proof -
  assume i: "ring_inv q"
  then have "length (rq_q q) = Suc (ring_capacity q)" by (simp add: ring_inv_def)
  then show ?thesis
    using ring_inv_nat[OF i] ring_dist_less[of "unat (rq_head q)" "length (rq_q q)" "unat (rq_tail q)"]
    by (simp add: length_ring_contents)
qed

text \<open>What one enqueue does, on every branch.\<close>

lemma SBEnqueue_full_iff:
  assumes "ring_inv q"
  shows "SB_NextIndex q (rq_tail q) = rq_head q \<longleftrightarrow> length (ring_contents q) = ring_capacity q"
proof -
  let ?N = "Suc (ring_capacity q)"
  have len: "length (rq_q q) = ?N" and le: "rq_tail q \<le> rq_capacity q"
    using assms by (auto simp: ring_inv_def)
  have "SB_NextIndex q (rq_tail q) = rq_head q \<longleftrightarrow>
      unat (SB_NextIndex q (rq_tail q)) = unat (rq_head q)" by (metis word_unat_eq_iff)
  also have "\<dots> \<longleftrightarrow> Suc (ring_dist ?N (unat (rq_head q)) (unat (rq_tail q))) = ?N"
    unfolding unat_SB_NextIndex[OF le] using ring_inv_nat[OF assms] by (intro ring_dist_full) auto
  finally show ?thesis by (simp add: length_ring_contents len)
qed

lemma SBEnqueue_space:
  assumes i: "ring_inv q" and sp: "length (ring_contents q) < ring_capacity q"
  shows "fst (SBEnqueue q x) = 0 \<and> ring_contents (snd (SBEnqueue q x)) = ring_contents q @ [x]
    \<and> ring_inv (snd (SBEnqueue q x)) \<and> rq_capacity (snd (SBEnqueue q x)) = rq_capacity q"
proof -
  let ?N = "Suc (ring_capacity q)"
  let ?h = "unat (rq_head q)" and ?t = "unat (rq_tail q)" and ?nt = "SB_NextIndex q (rq_tail q)"
  let ?d = "ring_dist ?N ?h ?t"
  have len: "length (rq_q q) = ?N" and le: "rq_tail q \<le> rq_capacity q"
    and hle: "rq_head q \<le> rq_capacity q"
    using i by (auto simp: ring_inv_def)
  have ht: "?h < ?N" "?t < ?N" using ring_inv_nat[OF i] by auto
  have ne: "?nt \<noteq> rq_head q" using SBEnqueue_full_iff[OF i] sp by simp
  then have nen: "unat ?nt \<noteq> ?h" by (metis word_unat_eq_iff)
  have d': "ring_dist ?N ?h (unat ?nt) = Suc ?d"
    using nen ht unfolding unat_SB_NextIndex[OF le] by (intro ring_dist_tail_step) auto
  have e: "SBEnqueue q x = (0, q\<lparr> rq_q := (rq_q q)[?t := Some x], rq_tail := ?nt \<rparr>)"
    using ne by (simp add: SBEnqueue_def Let_def)
  have old: "j < ?d \<Longrightarrow> (?h + j) mod ?N \<noteq> ?t" for j using ring_index_other ht by blast
  have keep: "j < ?d \<Longrightarrow> (rq_q q)[?t := Some x] ! ((?h + j) mod ?N) = rq_q q ! ((?h + j) mod ?N)" for j
    using old by (metis nth_list_update_neq)
  have new: "(?h + ?d) mod ?N = ?t" using ring_dist_at ht by blast
  have ntle: "?nt \<le> rq_capacity q"
    using le unat_SB_NextIndex[OF le] by (auto simp: word_le_nat_alt)
  have c: "ring_contents (snd (SBEnqueue q x)) = ring_contents q @ [x]"
    using new ht by (simp add: e ring_contents_def Let_def len d' keep)
  have slots: "\<forall>j < ?d. rq_q q ! ((?h + j) mod ?N) \<noteq> None"
    using i by (simp add: ring_inv_def len)
  have "ring_inv (snd (SBEnqueue q x))"
    unfolding ring_inv_def
    using slots new ht ntle hle
    by (auto simp: e len d' less_Suc_eq keep)
  then show ?thesis using c by (simp add: e)
qed

lemma SBDequeue_step:
  assumes i: "ring_inv q" and ne: "ring_contents q = x # xs"
  shows "fst (SBDequeue q) = Some x \<and> ring_contents (snd (SBDequeue q)) = xs
    \<and> ring_inv (snd (SBDequeue q)) \<and> rq_capacity (snd (SBDequeue q)) = rq_capacity q"
proof -
  let ?N = "Suc (ring_capacity q)"
  let ?h = "unat (rq_head q)" and ?t = "unat (rq_tail q)" and ?nh = "SB_NextIndex q (rq_head q)"
  have len: "length (rq_q q) = ?N" and tle: "rq_tail q \<le> rq_capacity q"
    and le: "rq_head q \<le> rq_capacity q"
    using i by (auto simp: ring_inv_def)
  have ht: "?h < ?N" "?t < ?N" using ring_inv_nat[OF i] by auto
  have "?h \<noteq> ?t" using ne length_ring_contents[of q] by (auto simp: len)
  then have d: "Suc (ring_dist ?N (unat ?nh) ?t) = ring_dist ?N ?h ?t"
    using ht unfolding unat_SB_NextIndex[OF le] by (intro ring_dist_head_step) auto
  have shift: "(unat ?nh + j) mod ?N = (?h + Suc j) mod ?N" for j
    using ht unfolding unat_SB_NextIndex[OF le] by (intro ring_head_shift) auto
  have hn: "rq_head q \<noteq> rq_tail q" using \<open>?h \<noteq> ?t\<close> by auto
  have e: "SBDequeue q = (rq_q q ! ?h, q\<lparr> rq_head := ?nh \<rparr>)"
    using hn by (simp add: SBDequeue_def Let_def)
  have slots: "\<forall>j < ring_dist ?N ?h ?t. rq_q q ! ((?h + j) mod ?N) \<noteq> None"
    using i by (simp add: ring_inv_def len)
  have c0: "ring_contents q = the (rq_q q ! ?h) #
      map (\<lambda>j. the (rq_q q ! ((?h + Suc j) mod ?N))) [0..<ring_dist ?N (unat ?nh) ?t]"
    using ht by (simp add: ring_contents_def Let_def len d[symmetric] map_upt_Suc del: upt_Suc)
  have sx: "rq_q q ! ?h = Some x"
    using slots[rule_format, of 0] ht c0 ne d by auto
  have cs: "ring_contents (snd (SBDequeue q)) = xs"
    using c0 ne by (simp add: e ring_contents_def Let_def len shift)
  have nhle: "?nh \<le> rq_capacity q"
    using le unat_SB_NextIndex[OF le] by (auto simp: word_le_nat_alt)
  have "ring_inv (snd (SBDequeue q))"
    unfolding ring_inv_def using tle nhle
    by (simp add: e len shift slots[rule_format] flip: d del: add_Suc_right)
  then show ?thesis using cs sx by (simp add: e)
qed

lemma SBDequeue_empty:
  assumes i: "ring_inv q" and "ring_contents q = []"
  shows "SBDequeue q = (None, q)"
proof -
  have "ring_dist (length (rq_q q)) (unat (rq_head q)) (unat (rq_tail q)) = 0"
    using assms length_ring_contents[of q] by simp
  then have "unat (rq_head q) = unat (rq_tail q)"
    using ring_inv_nat[OF i] i ring_dist_0_iff
    by (metis ring_inv_def)
  then have "rq_head q = rq_tail q" by (simp add: word_unat_eq_iff)
  then show ?thesis by (simp add: SBDequeue_def Let_def)
qed

lemma ring_dequeue_total:
  assumes "ring_inv q"
  shows "ring_inv (snd (SBDequeue q)) \<and> rq_capacity (snd (SBDequeue q)) = rq_capacity q"
  using assms SBDequeue_empty[OF assms] SBDequeue_step[OF assms]
  by (cases "ring_contents q") auto

lemma ring_enqueue_total:
  assumes i: "ring_inv q"
  shows "ring_inv (snd (SBEnqueue q x)) \<and> rq_capacity (snd (SBEnqueue q x)) = rq_capacity q"
proof (cases "length (ring_contents q) = ring_capacity q")
  case True
  then show ?thesis using SBEnqueue_full_iff[OF i] i by (simp add: SBEnqueue_def Let_def)
next
  case False
  then show ?thesis using SBEnqueue_space[OF i] ring_contents_bound[OF i] by simp
qed

interpretation sbq: bounded_fifo ring_capacity ring_contents ring_inv SBEnqueue SBDequeue
proof (unfold_locales, goal_cases)
  case (1 q) then show ?case by (rule ring_contents_bound)
next
  case (2 q x) then show ?case by (simp add: ring_enqueue_total)
next
  case (3 q x) then show ?case by (simp add: SBEnqueue_space)
next
  case (4 q x) then show ?case using SBEnqueue_full_iff[of q] by (simp add: SBEnqueue_def Let_def)
next
  case (5 q) then show ?case by (simp add: ring_dequeue_total)
next
  case (6 q) then show ?case by (simp add: SBDequeue_empty)
next
  case (7 q x xs) then show ?case by (simp add: SBDequeue_step)
qed

text \<open>The two other files hold the same operations on their own queues.\<close>

lemma RBFrag_ops:
  "RBFragEnqueue = SBEnqueue" "RBFragDequeue = SBDequeue"
  by (simp_all add: fun_eq_iff RBFragEnqueue_def SBEnqueue_def RBFragDequeue_def SBDequeue_def
      RBF_NextIndex_def SB_NextIndex_def Let_def)

lemma Stream_ops:
  "StreamEnqueue = SBEnqueue" "StreamDequeue = SBDequeue"
  by (simp_all add: fun_eq_iff StreamEnqueue_def SBEnqueue_def StreamDequeue_def SBDequeue_def
      STR_NextIndex_def SB_NextIndex_def Let_def)

interpretation rbfq: bounded_fifo ring_capacity ring_contents ring_inv RBFragEnqueue RBFragDequeue
  unfolding RBFrag_ops by (rule sbq.bounded_fifo_axioms)

interpretation strq: bounded_fifo ring_capacity ring_contents ring_inv StreamEnqueue StreamDequeue
  unfolding Stream_ops by (rule sbq.bounded_fifo_axioms)

section \<open>The internal stream queue\<close>

text \<open>
  \<open>stream_queue_int\<close> (\<open>tcp_stream_queue.h\<close>): its indices and its count are \<open>int\<close>.
\<close>

record 'a stream_queue_int =
  si_array :: "'a option list"
  si_size :: int
  si_first :: int
  si_last :: int
  si_count :: int

definition CreateInternalStreamQueue :: "bool \<Rightarrow> bool \<Rightarrow> int \<Rightarrow> 'a stream_queue_int option" where
  "CreateInternalStreamQueue alloc_sq alloc_array sz =
     (if \<not> alloc_sq then None
      else if \<not> alloc_array then None
      else Some \<lparr> si_array = replicate (nat sz) None, si_size = sz,
                  si_first = 0, si_last = 0, si_count = 0 \<rparr>)"

definition StreamInternalEnqueue ::
  "'a stream_queue_int \<Rightarrow> 'a \<Rightarrow> int \<times> 'a stream_queue_int" where
  "StreamInternalEnqueue sq stream =
     (if si_count sq \<ge> si_size sq then (-1, sq)
      else let array = (si_array sq)[nat (si_last sq) := Some stream];
               last = si_last sq + 1
           in (0, sq\<lparr> si_array := array, si_count := si_count sq + 1,
                      si_last := (if last \<ge> si_size sq then 0 else last) \<rparr>))"

definition StreamInternalDequeue ::
  "'a stream_queue_int \<Rightarrow> 'a option \<times> 'a stream_queue_int" where
  "StreamInternalDequeue sq =
     (if si_count sq \<le> 0 then (None, sq)
      else let stream = si_array sq ! nat (si_first sq);
               first = si_first sq + 1
           in (stream, sq\<lparr> si_first := (if first \<ge> si_size sq then 0 else first),
                           si_count := si_count sq - 1 \<rparr>))"

definition sint_contents :: "'a stream_queue_int \<Rightarrow> 'a list" where
  "sint_contents q = map (\<lambda>i. the (si_array q ! ((nat (si_first q) + i) mod length (si_array q))))
     [0..<nat (si_count q)]"

definition sint_inv :: "'a stream_queue_int \<Rightarrow> bool" where
  "sint_inv q \<longleftrightarrow> 0 < length (si_array q) \<and> si_size q = int (length (si_array q))
     \<and> 0 \<le> si_first q \<and> si_first q < si_size q
     \<and> 0 \<le> si_count q \<and> si_count q \<le> si_size q
     \<and> si_last q = int ((nat (si_first q) + nat (si_count q)) mod length (si_array q))
     \<and> (\<forall>i < nat (si_count q).
          si_array q ! ((nat (si_first q) + i) mod length (si_array q)) \<noteq> None)"

lemma sint_slot_neq:
  fixes h :: nat
  assumes "h < N" "c < N" "j < c"
  shows "(h + j) mod N \<noteq> (h + c) mod N"
  using assms by (auto simp: ring_mod split: if_splits)

lemma mod_succ_wrap_int:
  assumes "0 < N"
  shows "(if int (k mod N) + 1 \<ge> int N then 0 else int (k mod N) + 1) = int (Suc k mod N)"
proof -
  have "k mod N < N" using assms by simp
  then show ?thesis by (auto simp: mod_Suc)
qed

lemma StreamInternalEnqueue_space:
  assumes i: "sint_inv q" and sp: "si_count q < si_size q"
  shows "fst (StreamInternalEnqueue q x) = 0
    \<and> sint_contents (snd (StreamInternalEnqueue q x)) = sint_contents q @ [x]
    \<and> sint_inv (snd (StreamInternalEnqueue q x))
    \<and> si_size (snd (StreamInternalEnqueue q x)) = si_size q"
proof -
  let ?N = "length (si_array q)" and ?h = "nat (si_first q)" and ?c = "nat (si_count q)"
  let ?t = "(?h + ?c) mod ?N"
  have N: "0 < ?N" "si_size q = int ?N" "?h < ?N" "?c < ?N" "0 \<le> si_count q" "0 \<le> si_first q"
    and last: "si_last q = int ?t"
    and slots: "\<forall>j < ?c. si_array q ! ((?h + j) mod ?N) \<noteq> None"
    using i sp by (auto simp: sint_inv_def)
  have nc: "nat (si_count q + 1) = Suc ?c" using N by simp
  have keep: "j < ?c \<Longrightarrow> (si_array q)[?t := Some x] ! ((?h + j) mod ?N) = si_array q ! ((?h + j) mod ?N)" for j
    using sint_slot_neq N by (metis nth_list_update_neq)
  have tl: "?t < ?N" using N by simp
  have e: "StreamInternalEnqueue q x = (0, q\<lparr> si_array := (si_array q)[?t := Some x],
      si_count := si_count q + 1, si_last := int (Suc (?h + ?c) mod ?N) \<rparr>)"
    using sp mod_succ_wrap_int[OF N(1), of "?h + ?c"]
    by (simp add: StreamInternalEnqueue_def Let_def last N(2))
  have "sint_contents (snd (StreamInternalEnqueue q x)) = sint_contents q @ [x]"
    using tl by (simp add: e sint_contents_def nc keep)
  moreover have "sint_inv (snd (StreamInternalEnqueue q x))"
    using N slots tl i by (auto simp: e sint_inv_def nc less_Suc_eq keep)
  ultimately show ?thesis by (simp add: e)
qed

lemma StreamInternalDequeue_step:
  assumes i: "sint_inv q" and ne: "sint_contents q = x # xs"
  shows "fst (StreamInternalDequeue q) = Some x
    \<and> sint_contents (snd (StreamInternalDequeue q)) = xs
    \<and> sint_inv (snd (StreamInternalDequeue q))
    \<and> si_size (snd (StreamInternalDequeue q)) = si_size q"
proof -
  let ?N = "length (si_array q)" and ?h = "nat (si_first q)" and ?c = "nat (si_count q - 1)"
  have N: "0 < ?N" "si_size q = int ?N" "?h < ?N" "0 \<le> si_first q" "si_count q \<le> int ?N"
    and last: "si_last q = int ((?h + nat (si_count q)) mod ?N)"
    and slots: "\<forall>j < nat (si_count q). si_array q ! ((?h + j) mod ?N) \<noteq> None"
    using i by (auto simp: sint_inv_def)
  have pos: "0 < si_count q" using ne by (cases "nat (si_count q)") (auto simp: sint_contents_def)
  then have nc: "nat (si_count q) = Suc ?c" by simp
  have slots': "\<forall>j < ?c. si_array q ! (Suc (?h + j) mod ?N) \<noteq> None"
    using slots unfolding nc by (metis Suc_less_eq add_Suc_right)
  let ?h' = "if Suc ?h = ?N then 0 else Suc ?h"
  have shift: "(?h' + j) mod ?N = (?h + Suc j) mod ?N" for j using N by (intro ring_head_shift)
  have first: "(if si_first q + 1 \<ge> si_size q then 0 else si_first q + 1) = int ?h'"
    using N by auto
  have e: "StreamInternalDequeue q = (si_array q ! ?h, q\<lparr> si_first := int ?h', si_count := si_count q - 1 \<rparr>)"
    using pos by (simp add: StreamInternalDequeue_def Let_def first del: of_nat_Suc)
  have c0: "sint_contents q = the (si_array q ! ?h) #
      map (\<lambda>j. the (si_array q ! ((?h + Suc j) mod ?N))) [0..<?c]"
    using N by (simp add: sint_contents_def nc map_upt_Suc del: upt_Suc)
  have sx: "si_array q ! ?h = Some x" using slots[rule_format, of 0] N c0 ne pos by auto
  have cs: "sint_contents (snd (StreamInternalDequeue q)) = xs"
    using c0 ne by (simp add: e sint_contents_def shift nat_int del: of_nat_Suc)
  have "sint_inv (snd (StreamInternalDequeue q))"
    unfolding sint_inv_def using N pos slots'
    by (simp add: e shift nc last nat_int del: of_nat_Suc)
  then show ?thesis using cs sx by (simp add: e)
qed

lemma length_sint_contents [simp]: "length (sint_contents q) = nat (si_count q)"
  by (simp add: sint_contents_def)

interpretation sintq: bounded_fifo "\<lambda>q. nat (si_size q)" sint_contents sint_inv
  StreamInternalEnqueue StreamInternalDequeue
proof (unfold_locales, goal_cases)
  case (1 q) then show ?case by (auto simp: sint_inv_def nat_le_iff)
next
  case (2 q x)
  then show ?case using StreamInternalEnqueue_space[of q x]
    by (cases "si_count q < si_size q") (auto simp: StreamInternalEnqueue_def)
next
  case (3 q x) then show ?case by (simp add: StreamInternalEnqueue_space)
next
  case (4 q x) then show ?case by (auto simp: StreamInternalEnqueue_def sint_inv_def)
next
  case (5 q)
  show ?case
  proof (cases "sint_contents q")
    case Nil
    then have "nat (si_count q) = 0" by (metis length_sint_contents list.size(3))
    then show ?thesis using 5 by (simp add: StreamInternalDequeue_def)
  next
    case (Cons x xs) then show ?thesis using StreamInternalDequeue_step[OF 5] by simp
  qed
next
  case (6 q)
  then have "nat (si_count q) = 0" by (metis length_sint_contents list.size(3))
  then show ?case by (simp add: StreamInternalDequeue_def)
next
  case (7 q x xs) then show ?case by (simp add: StreamInternalDequeue_step)
qed

section \<open>Created queues and the property\<close>

lemma created_ring:
  assumes "q = \<lparr> rq_capacity = word_of_int c, rq_head = 0, rq_tail = 0,
                  rq_q = replicate (nat (c + 1)) None \<rparr>"
    and "0 \<le> c" "c < 2 ^ 31 - 1"
  shows "ring_inv q \<and> ring_contents q = [] \<and> ring_capacity q = nat c"
proof -
  have "unat (word_of_int c :: u32) = nat c"
    using assms by (simp add: unat_eq_nat_uint uint_word_of_int_eq take_bit_int_eq_self)
  then show ?thesis
    using assms by (simp add: ring_inv_def ring_contents_def Let_def nat_add_distrib)
qed

lemma created_sint:
  assumes "q = \<lparr> si_array = replicate (nat c) None, si_size = c,
                  si_first = 0, si_last = 0, si_count = 0 \<rparr>" and "0 < c"
  shows "sint_inv q \<and> sint_contents q = [] \<and> si_size q = c"
  using assms by (simp add: sint_inv_def sint_contents_def)

text \<open>
  C9.  The four pointer queues are bounded FIFO queues.  On a queue created with room for
  \<open>c\<close> elements, any sequence of enqueue and dequeue calls returns what the list
  specification returns: an enqueue returns 0 and appends while fewer than \<open>c\<close> elements
  are queued and returns -1 without effect otherwise; a dequeue returns the oldest
  element, or null when there is none.
\<close>

theorem queues_refine_fifo:
  assumes "0 < c" "c < 2 ^ 31 - 1"
  shows "(\<forall>q. CreateSBQueue True True c = Some q \<longrightarrow>
            fst (run_queue SBEnqueue SBDequeue ops q) = fst (spec_queue (nat c) ops []))
       \<and> (\<forall>q. CreateRBFragQueue True True c = Some q \<longrightarrow>
            fst (run_queue RBFragEnqueue RBFragDequeue ops q) = fst (spec_queue (nat c) ops []))
       \<and> (\<forall>q. CreateStreamQueue True True c = Some q \<longrightarrow>
            fst (run_queue StreamEnqueue StreamDequeue ops q) = fst (spec_queue (nat c) ops []))
       \<and> (\<forall>q. CreateInternalStreamQueue True True c = Some q \<longrightarrow>
            fst (run_queue StreamInternalEnqueue StreamInternalDequeue ops q)
              = fst (spec_queue (nat c) ops []))"
proof -
  have r: "ring_inv q \<and> ring_contents q = [] \<and> ring_capacity q = nat c"
    if "CreateSBQueue True True c = Some q \<or> CreateRBFragQueue True True c = Some q
      \<or> CreateStreamQueue True True c = Some q" for q :: "'c ring"
    using that assms
    by (intro created_ring) (auto simp: CreateSBQueue_def CreateRBFragQueue_def CreateStreamQueue_def)
  have t: "sint_inv q \<and> sint_contents q = [] \<and> si_size q = c"
    if "CreateInternalStreamQueue True True c = Some q" for q :: "'c stream_queue_int"
    using that assms by (intro created_sint) (auto simp: CreateInternalStreamQueue_def)
  show ?thesis
    using r t sbq.run_refines rbfq.run_refines strq.run_refines sintq.run_refines by metis
qed

theorem queues_refine_fifo_witness:
  "fst (run_queue StreamEnqueue StreamDequeue [Enq (5::nat), Enq 6, Deq, Deq]
     \<lparr> rq_capacity = 1, rq_head = 0, rq_tail = 0, rq_q = [None, None] \<rparr>)
   = [Code 0, Code (-1), Val (Some 5), Val None]"
  using queues_refine_fifo[of 1 "[Enq (5::nat), Enq 6, Deq, Deq]"]
  by (simp add: CreateStreamQueue_def numeral_2_eq_2)

end
