(* ===== verification/Stream_Queue_Spsc.thy ===== *)
theory Stream_Queue_Spsc
  imports Ring_Queues
begin

text \<open>
  \<open>StreamEnqueue\<close> and \<open>StreamDequeue\<close> run without a common lock: one thread (the
  application, holding the producer-side lock) enqueues while the mTCP thread dequeues.
  Here the two functions of \<open>tcp_stream_queue.c\<close> are cut into their individual loads
  and stores, in program order, and interleaved arbitrarily.  Stores become visible in
  program order, as on the x86 machines the compiler barrier \<open>StreamMemoryBarrier\<close> is
  written for.
\<close>

section \<open>The two threads\<close>

text \<open>Where each thread is inside its function, with its local variables.\<close>

datatype 'a ppc = PIdle | PHead 'a u32 | PBoth 'a u32 u32 | PStored 'a u32 u32
datatype 'a cpc = CIdle | CHead u32 | CBoth u32 u32 | CSlot u32 "'a option"

record 'a spsc =
  sp_q :: "'a ring"
  sp_p :: "'a ppc"
  sp_c :: "'a cpc"
  sp_sent :: "'a list"
  sp_got :: "'a list"

text \<open>\<open>sp_sent\<close> records the values whose enqueue has returned 0, \<open>sp_got\<close> those dequeued.\<close>

definition spsc_init :: "'a ring \<Rightarrow> 'a spsc" where
  "spsc_init q = \<lparr> sp_q = q, sp_p = PIdle, sp_c = CIdle, sp_sent = [], sp_got = [] \<rparr>"

inductive spsc_step :: "'a spsc \<Rightarrow> 'a spsc \<Rightarrow> bool" where
  p_head: "sp_p s = PIdle \<Longrightarrow> spsc_step s (s\<lparr> sp_p := PHead x (rq_head (sp_q s)) \<rparr>)"
| p_tail: "sp_p s = PHead x h \<Longrightarrow> spsc_step s (s\<lparr> sp_p := PBoth x h (rq_tail (sp_q s)) \<rparr>)"
| p_full: "sp_p s = PBoth x h t \<Longrightarrow> STR_NextIndex (sp_q s) t = h \<Longrightarrow>
    spsc_step s (s\<lparr> sp_p := PIdle \<rparr>)"
| p_store: "sp_p s = PBoth x h t \<Longrightarrow> STR_NextIndex (sp_q s) t \<noteq> h \<Longrightarrow>
    spsc_step s (s\<lparr> sp_q := (sp_q s)\<lparr> rq_q := (rq_q (sp_q s))[unat t := Some x] \<rparr>,
                   sp_p := PStored x h (STR_NextIndex (sp_q s) t) \<rparr>)"
| p_publish: "sp_p s = PStored x h nt \<Longrightarrow>
    spsc_step s (s\<lparr> sp_q := (sp_q s)\<lparr> rq_tail := nt \<rparr>, sp_p := PIdle,
                   sp_sent := sp_sent s @ [x] \<rparr>)"
| c_head: "sp_c s = CIdle \<Longrightarrow> spsc_step s (s\<lparr> sp_c := CHead (rq_head (sp_q s)) \<rparr>)"
| c_tail: "sp_c s = CHead h \<Longrightarrow> spsc_step s (s\<lparr> sp_c := CBoth h (rq_tail (sp_q s)) \<rparr>)"
| c_empty: "sp_c s = CBoth h h \<Longrightarrow> spsc_step s (s\<lparr> sp_c := CIdle \<rparr>)"
| c_load: "sp_c s = CBoth h t \<Longrightarrow> h \<noteq> t \<Longrightarrow>
    spsc_step s (s\<lparr> sp_c := CSlot h (rq_q (sp_q s) ! unat h) \<rparr>)"
| c_advance: "sp_c s = CSlot h v \<Longrightarrow>
    spsc_step s (s\<lparr> sp_q := (sp_q s)\<lparr> rq_head := STR_NextIndex (sp_q s) h \<rparr>, sp_c := CIdle,
                   sp_got := sp_got s @ [the v] \<rparr>)"

inductive spsc_reach :: "'a ring \<Rightarrow> 'a spsc \<Rightarrow> bool" for q where
  init: "spsc_reach q (spsc_init q)"
| step: "spsc_reach q s \<Longrightarrow> spsc_step s s' \<Longrightarrow> spsc_reach q s'"

section \<open>The invariant\<close>

text \<open>
  The elements between a position \<open>h\<close> and the tail.  A head the producer has read may be
  stale, but then more elements lie between it and the tail, so the producer errs on the
  side of reporting a full queue; a tail the consumer has read may be stale, but then
  fewer elements lie before it.
\<close>

definition ring_size :: "'a ring \<Rightarrow> u32 \<Rightarrow> u32 \<Rightarrow> nat" where
  "ring_size q h t = ring_dist (Suc (ring_capacity q)) (unat h) (unat t)"

definition stale_head :: "'a ring \<Rightarrow> u32 \<Rightarrow> bool" where
  "stale_head q h \<longleftrightarrow> h \<le> rq_capacity q \<and> ring_size q (rq_head q) (rq_tail q) \<le> ring_size q h (rq_tail q)"

definition p_inv :: "'a ring \<Rightarrow> 'a ppc \<Rightarrow> bool" where
  "p_inv q p = (case p of
      PIdle \<Rightarrow> True
    | PHead x h \<Rightarrow> stale_head q h
    | PBoth x h t \<Rightarrow> stale_head q h \<and> t = rq_tail q
    | PStored x h nt \<Rightarrow> stale_head q h \<and> nt = STR_NextIndex q (rq_tail q) \<and> nt \<noteq> h
        \<and> rq_q q ! unat (rq_tail q) = Some x)"

definition c_inv :: "'a ring \<Rightarrow> 'a cpc \<Rightarrow> bool" where
  "c_inv q c = (case c of
      CIdle \<Rightarrow> True
    | CHead h \<Rightarrow> h = rq_head q
    | CBoth h t \<Rightarrow> h = rq_head q \<and> t \<le> rq_capacity q
        \<and> ring_size q h t \<le> ring_size q h (rq_tail q)
    | CSlot h v \<Rightarrow> h = rq_head q \<and> ring_contents q \<noteq> [] \<and> v = Some (hd (ring_contents q)))"

definition spsc_inv :: "'a spsc \<Rightarrow> bool" where
  "spsc_inv s \<longleftrightarrow> ring_inv (sp_q s) \<and> p_inv (sp_q s) (sp_p s) \<and> c_inv (sp_q s) (sp_c s)
     \<and> sp_sent s = sp_got s @ ring_contents (sp_q s)"

text \<open>Storing into the slot at the tail of a ring that is not full changes no element.\<close>

lemma store_at_tail:
  fixes x
  defines "q' \<equiv> \<lambda>q. q\<lparr> rq_q := (rq_q q)[unat (rq_tail q) := Some x] \<rparr>"
  assumes i: "ring_inv q"
  shows "ring_inv (q' q) \<and> ring_contents (q' q) = ring_contents q"
proof -
  let ?N = "Suc (ring_capacity q)" and ?h = "unat (rq_head q)" and ?t = "unat (rq_tail q)"
  have len: "length (rq_q q) = ?N" using i by (simp add: ring_inv_def)
  have ht: "?h < ?N" "?t < ?N" using ring_inv_nat[OF i] by auto
  have keep: "j < ring_dist ?N ?h ?t \<Longrightarrow>
      (rq_q q)[?t := Some x] ! ((?h + j) mod ?N) = rq_q q ! ((?h + j) mod ?N)" for j
    using ring_index_other[OF ht] by (metis nth_list_update_neq)
  have "ring_contents (q' q) = ring_contents q"
    by (simp add: q'_def ring_contents_def Let_def len keep)
  moreover have "ring_inv (q' q)"
    using i by (simp add: q'_def ring_inv_def keep len)
  ultimately show ?thesis by simp
qed

lemma STR_SB_NextIndex: "STR_NextIndex = SB_NextIndex"
  by (simp add: fun_eq_iff STR_NextIndex_def SB_NextIndex_def)

lemma ring_inv_le: "ring_inv q \<Longrightarrow> rq_head q \<le> rq_capacity q \<and> rq_tail q \<le> rq_capacity q"
  by (simp add: ring_inv_def)

lemma length_contents_size: "ring_inv q \<Longrightarrow> length (ring_contents q) = ring_size q (rq_head q) (rq_tail q)"
  by (simp add: length_ring_contents ring_size_def ring_inv_def)

text \<open>A producer that found room relative to a stale head has room.\<close>

lemma stale_head_room:
  assumes i: "ring_inv q" and h: "stale_head q h" and ne: "STR_NextIndex q (rq_tail q) \<noteq> h"
  shows "length (ring_contents q) < ring_capacity q"
proof -
  let ?N = "Suc (ring_capacity q)"
  have le: "rq_tail q \<le> rq_capacity q" using i by (simp add: ring_inv_def)
  have hN: "unat h < ?N" "unat (rq_tail q) < ?N"
    using h ring_inv_nat[OF i] by (auto simp: stale_head_def word_le_nat_alt)
  have "unat (SB_NextIndex q (rq_tail q)) \<noteq> unat h"
    using ne by (simp add: STR_SB_NextIndex word_unat_eq_iff)
  then have "Suc (ring_dist ?N (unat h) (unat (rq_tail q))) \<noteq> ?N"
    unfolding unat_SB_NextIndex[OF le] using ring_dist_full[OF hN] by simp
  then have "ring_size q h (rq_tail q) < ring_capacity q"
    using ring_dist_less[OF hN] by (simp add: ring_size_def)
  then show ?thesis using h length_contents_size[OF i] by (simp add: stale_head_def)
qed

lemma publish_step:
  assumes i: "ring_inv q" and h: "stale_head q h" and ne: "STR_NextIndex q (rq_tail q) \<noteq> h"
    and st: "rq_q q ! unat (rq_tail q) = Some x"
  defines "q' \<equiv> q\<lparr> rq_tail := STR_NextIndex q (rq_tail q) \<rparr>"
  shows "ring_inv q' \<and> ring_contents q' = ring_contents q @ [x]
    \<and> ring_size q' (rq_head q') (rq_tail q') = Suc (ring_size q (rq_head q) (rq_tail q))"
proof -
  have room: "length (ring_contents q) < ring_capacity q" by (rule stale_head_room[OF i h ne])
  then have "SB_NextIndex q (rq_tail q) \<noteq> rq_head q" using SBEnqueue_full_iff[OF i] by simp
  moreover have "(rq_q q)[unat (rq_tail q) := Some x] = rq_q q" using st by (metis list_update_id)
  ultimately have "snd (SBEnqueue q x) = q'"
    by (simp add: SBEnqueue_def Let_def q'_def STR_SB_NextIndex)
  then have r: "ring_inv q' \<and> ring_contents q' = ring_contents q @ [x]"
    using SBEnqueue_space[OF i room, of x] by simp
  then show ?thesis
    using length_contents_size[OF i] length_contents_size[of q'] by simp
qed

lemma advance_step:
  assumes i: "ring_inv q" and ne: "ring_contents q \<noteq> []"
  defines "q' \<equiv> q\<lparr> rq_head := STR_NextIndex q (rq_head q) \<rparr>"
  shows "ring_inv q' \<and> ring_contents q = hd (ring_contents q) # ring_contents q'
    \<and> rq_q q ! unat (rq_head q) = Some (hd (ring_contents q))
    \<and> ring_size q' (rq_head q') (rq_tail q') \<le> ring_size q (rq_head q) (rq_tail q)"
proof -
  obtain x xs where c: "ring_contents q = x # xs" using ne by (cases "ring_contents q") auto
  have "rq_head q \<noteq> rq_tail q"
    using c length_contents_size[OF i] by (auto simp: ring_size_def)
  then have d: "SBDequeue q = (rq_q q ! unat (rq_head q), q')"
    by (simp add: SBDequeue_def Let_def q'_def STR_SB_NextIndex)
  have r: "rq_q q ! unat (rq_head q) = Some x \<and> ring_contents q' = xs \<and> ring_inv q'"
    using SBDequeue_step[OF i c] by (simp add: d)
  then show ?thesis
    using c length_contents_size[OF i] length_contents_size[of q'] by simp
qed

inductive_cases spsc_stepE: "spsc_step s s'"

lemma nonempty_if_ahead:
  assumes i: "ring_inv q" and t: "t \<le> rq_capacity q" and ne: "rq_head q \<noteq> t"
    and le: "ring_size q (rq_head q) t \<le> ring_size q (rq_head q) (rq_tail q)"
  shows "ring_contents q \<noteq> []"
proof -
  have "unat (rq_head q) \<noteq> unat t" using ne by (simp add: word_unat_eq_iff)
  then have "ring_size q (rq_head q) t \<noteq> 0"
    using ring_inv_nat[OF i] t ring_dist_0_iff[of "unat (rq_head q)" _ "unat t"]
    by (auto simp: ring_size_def word_le_nat_alt)
  then show ?thesis using le length_contents_size[OF i] by auto
qed

lemma spsc_step_inv:
  assumes st: "spsc_step s s'" and inv: "spsc_inv s"
  shows "spsc_inv s'"
proof -
  let ?q = "sp_q s"
  have i: "ring_inv ?q" and p: "p_inv ?q (sp_p s)" and c: "c_inv ?q (sp_c s)"
    and h: "sp_sent s = sp_got s @ ring_contents ?q"
    using inv by (auto simp: spsc_inv_def)
  show ?thesis
    using st
  proof (cases rule: spsc_step.cases)
    case (p_head x)
    then show ?thesis using i c h ring_inv_le[OF i]
      by (simp add: spsc_inv_def p_inv_def stale_head_def)
  next
    case (p_tail x h')
    then show ?thesis using i c h p by (simp add: spsc_inv_def p_inv_def)
  next
    case (p_full x h' t)
    then show ?thesis using i c h by (simp add: spsc_inv_def p_inv_def)
  next
    case (p_store x h' t)
    have q': "ring_inv (?q\<lparr> rq_q := (rq_q ?q)[unat (rq_tail ?q) := Some x] \<rparr>)"
      "ring_contents (?q\<lparr> rq_q := (rq_q ?q)[unat (rq_tail ?q) := Some x] \<rparr>) = ring_contents ?q"
      using store_at_tail[OF i, of x] by auto
    have "unat (rq_tail ?q) < length (rq_q ?q)"
      using i ring_inv_nat[OF i] by (simp add: ring_inv_def)
    then show ?thesis using p_store p q' c h
      by (auto simp: spsc_inv_def p_inv_def c_inv_def stale_head_def ring_size_def
          STR_NextIndex_def split: cpc.splits)
  next
    case (p_publish x h' nt)
    then have "stale_head ?q h'" "STR_NextIndex ?q (rq_tail ?q) \<noteq> h'"
      "rq_q ?q ! unat (rq_tail ?q) = Some x" "nt = STR_NextIndex ?q (rq_tail ?q)"
      using p by (auto simp: p_inv_def)
    then show ?thesis using p_publish publish_step[OF i, of h' x] c h
      by (auto simp: spsc_inv_def p_inv_def c_inv_def ring_size_def split: cpc.splits)
  next
    case c_head
    then show ?thesis using i p h by (simp add: spsc_inv_def c_inv_def)
  next
    case (c_tail h')
    then show ?thesis using i p c h ring_inv_le[OF i] by (simp add: spsc_inv_def c_inv_def)
  next
    case (c_empty h')
    then show ?thesis using i p h by (simp add: spsc_inv_def c_inv_def)
  next
    case (c_load h' t)
    then have "ring_contents ?q \<noteq> []"
      using c nonempty_if_ahead[OF i, of t] by (auto simp: c_inv_def)
    then show ?thesis using c_load i p c h advance_step[OF i]
      by (simp add: spsc_inv_def c_inv_def)
  next
    case (c_advance h' v)
    then have v: "ring_contents ?q \<noteq> []" "v = Some (hd (ring_contents ?q))" "h' = rq_head ?q"
      using c by (auto simp: c_inv_def)
    then show ?thesis using c_advance advance_step[OF i v(1)] p h
      by (auto simp: spsc_inv_def p_inv_def c_inv_def stale_head_def ring_size_def
          STR_NextIndex_def split: ppc.splits)
  qed
qed

lemma spsc_reach_inv:
  assumes "spsc_reach q s" "ring_inv q" "ring_contents q = []"
  shows "spsc_inv s"
  using assms
proof (induction rule: spsc_reach.induct)
  case init
  then show ?case by (simp add: spsc_inv_def spsc_init_def p_inv_def c_inv_def)
next
  case (step s s')
  then show ?case by (blast intro: spsc_step_inv)
qed

section \<open>The property\<close>

text \<open>The dequeue has loaded a null slot, which its \<open>assert(stream)\<close> excludes.\<close>

definition takes_null :: "'a cpc \<Rightarrow> bool" where
  "takes_null c = (case c of CSlot h None \<Rightarrow> True | _ \<Rightarrow> False)"

text \<open>
  C10.  The stream queue shared by an application thread and the mTCP thread is correct
  under every interleaving of the individual loads and stores of one \<open>StreamEnqueue\<close>
  caller and one \<open>StreamDequeue\<close> caller: what has been dequeued so far, followed by what
  the ring holds, is exactly what has been enqueued successfully, in order; the ring
  never holds more than its capacity; and the consumer never takes a null slot.
\<close>

theorem stream_queue_spsc:
  assumes "CreateStreamQueue True True c = Some q" "0 \<le> c" "c < 2 ^ 31 - 1"
    and "spsc_reach q s"
  shows "sp_sent s = sp_got s @ ring_contents (sp_q s)
    \<and> length (ring_contents (sp_q s)) \<le> ring_capacity (sp_q s)
    \<and> \<not> takes_null (sp_c s)"
proof -
  have "ring_inv q \<and> ring_contents q = [] \<and> ring_capacity q = nat c"
    using assms(1,2,3) by (intro created_ring) (auto simp: CreateStreamQueue_def)
  then have "spsc_inv s" using spsc_reach_inv[OF assms(4)] by simp
  then show ?thesis using ring_contents_bound[of "sp_q s"]
    by (auto simp: spsc_inv_def c_inv_def takes_null_def split: cpc.splits)
qed

text \<open>A queue of one slot, one element stored and published.\<close>

definition spsc_demo :: "nat spsc" where
  "spsc_demo = \<lparr> sp_q = \<lparr> rq_capacity = 1, rq_head = 0, rq_tail = 1, rq_q = [Some 7, None] \<rparr>,
     sp_p = PIdle, sp_c = CIdle, sp_sent = [7], sp_got = [] \<rparr>"

lemma spsc_demo_reach:
  "spsc_reach \<lparr> rq_capacity = 1, rq_head = 0, rq_tail = 0, rq_q = [None, None] \<rparr> spsc_demo"
  (is "spsc_reach ?q _")
proof -
  let ?s = "spsc_init ?q"
  let ?s1 = "?s\<lparr> sp_p := PHead 7 0 \<rparr>" and ?s2 = "?s\<lparr> sp_p := PBoth 7 0 0 \<rparr>"
  let ?s3 = "?s\<lparr> sp_q := ?q\<lparr> rq_q := [Some 7, None] \<rparr>, sp_p := PStored 7 0 1 \<rparr>"
  have 1: "spsc_step ?s ?s1" using p_head[of ?s 7] by (simp add: spsc_init_def)
  have 2: "spsc_step ?s1 ?s2" using p_tail[of ?s1 7 0] by (simp add: spsc_init_def)
  have 3: "spsc_step ?s2 ?s3"
    using p_store[of ?s2 7 0 0] by (simp add: spsc_init_def STR_NextIndex_def)
  have 4: "spsc_step ?s3 spsc_demo"
    using p_publish[of ?s3 7 0 1] by (simp add: spsc_init_def spsc_demo_def)
  show ?thesis
    by (rule spsc_reach.step[OF spsc_reach.step[OF spsc_reach.step[OF spsc_reach.step[OF
        spsc_reach.init 1] 2] 3] 4])
qed

theorem stream_queue_spsc_witness:
  "sp_sent spsc_demo = sp_got spsc_demo @ ring_contents (sp_q spsc_demo)
    \<and> length (ring_contents (sp_q spsc_demo)) \<le> ring_capacity (sp_q spsc_demo)
    \<and> \<not> takes_null (sp_c spsc_demo)"
proof -
  have "CreateStreamQueue True True 1
      = Some \<lparr> rq_capacity = 1, rq_head = 0, rq_tail = 0, rq_q = [None, None :: nat option] \<rparr>"
    by (simp add: CreateStreamQueue_def eval_nat_numeral)
  from stream_queue_spsc[OF this _ _ spsc_demo_reach] show ?thesis by simp
qed

end
