(* ===== verification/Mem_Pool.thy ===== *)
theory Mem_Pool
  imports Mos_Prelude
begin

text \<open>
  The chunk allocator \<open>memory_mgt.c\<close> (the build without \<open>SYS_MALLOC\<close> and
  \<open>HUGETABLE\<close>).  A chunk is named by its index from \<open>mp_startptr\<close>; the list
  structure lives inside the free chunks, so the header words of every chunk are part of
  the state, and a client that owns a chunk may overwrite them.
\<close>

section \<open>State\<close>

record mem_chunk =
  mc_free_chunks :: int
  mc_next :: "nat option"

record mem_pool =
  mp_mem :: "nat \<Rightarrow> mem_chunk"
  mp_freeptr :: "nat option"
  mp_free_chunks :: int
  mp_total_chunks :: int
  mp_chunk_size :: int
  mp_type :: int

section \<open>Operations\<close>

text \<open>
  \<open>sizeof(mem_chunk)\<close> is 16 on the 64-bit targets.  \<open>aligned_ok\<close> is the outcome of
  \<open>posix_memalign\<close> and \<open>garbage\<close> what the fresh memory holds.  A negative
  \<open>chunk_size\<close> is converted to a huge unsigned number in the first comparison, so it is
  not refused there.
\<close>

definition MPCreate :: "bool \<Rightarrow> (nat \<Rightarrow> mem_chunk) \<Rightarrow> int \<Rightarrow> u64 \<Rightarrow> int \<Rightarrow> mem_pool option" where
  "MPCreate aligned_ok garbage chunk_size total_size is_hugepage =
     (if 0 \<le> chunk_size \<and> chunk_size < 16 then None
      else if chunk_size mod 4 \<noteq> 0 then None
      else let free = sint (ucast ((total_size + (word_of_int chunk_size - 1)) div word_of_int chunk_size) :: u32) in
        if \<not> aligned_ok then None
        else Some \<lparr> mp_mem = garbage(0 := \<lparr> mc_free_chunks = free, mc_next = None \<rparr>),
               mp_freeptr = Some 0, mp_free_chunks = free, mp_total_chunks = free,
               mp_chunk_size = chunk_size, mp_type = is_hugepage \<rparr>)"

definition MPAllocateChunk :: "mem_pool \<Rightarrow> nat option \<times> mem_pool" where
  "MPAllocateChunk mp =
     (if mp_free_chunks mp = 0 then (None, mp)
      else let p = the (mp_freeptr mp);
               c = mp_mem mp p;
               left = mc_free_chunks c - 1;
               mem = (mp_mem mp)(p := c\<lparr> mc_free_chunks := left \<rparr>);
               mp1 = mp\<lparr> mp_free_chunks := mp_free_chunks mp - 1 \<rparr>
        in if left \<noteq> 0
           then (Some p, mp1\<lparr> mp_freeptr := Some (p + 1),
                   mp_mem := mem(p + 1 := \<lparr> mc_free_chunks = left, mc_next = mc_next c \<rparr>) \<rparr>)
           else (Some p, mp1\<lparr> mp_freeptr := mc_next c, mp_mem := mem \<rparr>))"

definition MPFreeChunk :: "mem_pool \<Rightarrow> nat \<Rightarrow> mem_pool" where
  "MPFreeChunk mp p =
     mp\<lparr> mp_mem := (mp_mem mp)(p := \<lparr> mc_free_chunks = 1, mc_next = mp_freeptr mp \<rparr>),
         mp_freeptr := Some p, mp_free_chunks := mp_free_chunks mp + 1 \<rparr>"

definition MPGetFreeChunks :: "mem_pool \<Rightarrow> int" where
  "MPGetFreeChunks mp = mp_free_chunks mp"

text \<open>The owner of a chunk writes into it: anything may be in its header words.\<close>

definition chunk_write :: "nat \<Rightarrow> mem_chunk \<Rightarrow> mem_pool \<Rightarrow> mem_pool" where
  "chunk_write p c mp = mp\<lparr> mp_mem := (mp_mem mp)(p := c) \<rparr>"

section \<open>Representation\<close>

text \<open>
  The free list is a chain of runs: a run at \<open>s\<close> of \<open>l\<close> chunks has its length and the
  next run's start in its first chunk's header.
\<close>

fun chain :: "(nat \<Rightarrow> mem_chunk) \<Rightarrow> nat option \<Rightarrow> (nat \<times> nat) list \<Rightarrow> bool" where
  "chain mem ptr [] \<longleftrightarrow> ptr = None"
| "chain mem ptr ((s, l) # rs) \<longleftrightarrow>
     ptr = Some s \<and> 0 < l \<and> mc_free_chunks (mem s) = int l \<and> chain mem (mc_next (mem s)) rs"

fun run_set :: "(nat \<times> nat) list \<Rightarrow> nat set" where
  "run_set [] = {}"
| "run_set ((s, l) # rs) = {s..<s + l} \<union> run_set rs"

fun runs_disjoint :: "(nat \<times> nat) list \<Rightarrow> bool" where
  "runs_disjoint [] \<longleftrightarrow> True"
| "runs_disjoint ((s, l) # rs) \<longleftrightarrow> {s..<s + l} \<inter> run_set rs = {} \<and> runs_disjoint rs"

text \<open>\<open>mp_ok mp F\<close>: the pool is well formed and \<open>F\<close> is the set of its free chunks.\<close>

definition mp_ok :: "mem_pool \<Rightarrow> nat set \<Rightarrow> bool" where
  "mp_ok mp F \<longleftrightarrow> (\<exists>rs. runs_disjoint rs \<and> run_set rs = F
     \<and> mp_free_chunks mp = int (card F) \<and> (\<forall>i \<in> F. int i < mp_total_chunks mp)
     \<and> (chain (mp_mem mp) (mp_freeptr mp) rs \<or> mp_total_chunks mp = 0))"

lemma finite_run_set [simp]: "finite (run_set rs)"
  by (induction rs rule: run_set.induct) auto

lemma chain_cong:
  "(\<And>i. i \<in> run_set rs \<Longrightarrow> mem i = mem' i) \<Longrightarrow> chain mem ptr rs = chain mem' ptr rs"
  by (induction mem ptr rs rule: chain.induct) auto

lemma chain_upd [simp]: "i \<notin> run_set rs \<Longrightarrow> chain (mem(i := c)) ptr rs = chain mem ptr rs"
  by (rule chain_cong) auto

lemma mp_okI:
  assumes "chain (mp_mem mp) (mp_freeptr mp) rs" "run_set rs = F" "runs_disjoint rs"
    and "mp_free_chunks mp = int (card F)" "\<forall>i \<in> F. int i < mp_total_chunks mp"
  shows "mp_ok mp F"
  using assms unfolding mp_ok_def by blast

lemma mp_ok_free_chunks: "mp_ok mp F \<Longrightarrow> finite F \<and> mp_free_chunks mp = int (card F)"
  unfolding mp_ok_def by (metis finite_run_set)

lemma mp_ok_bound: "mp_ok mp F \<Longrightarrow> i \<in> F \<Longrightarrow> int i < mp_total_chunks mp"
  unfolding mp_ok_def by blast

lemma MPAllocateChunk_empty: "mp_ok mp {} \<Longrightarrow> MPAllocateChunk mp = (None, mp)"
  by (simp add: MPAllocateChunk_def mp_ok_free_chunks)

lemma MPAllocateChunk_step:
  assumes ok: "mp_ok mp F" and ne: "F \<noteq> {}"
  shows "\<exists>p \<in> F. fst (MPAllocateChunk mp) = Some p \<and> mp_ok (snd (MPAllocateChunk mp)) (F - {p})
    \<and> mp_total_chunks (snd (MPAllocateChunk mp)) = mp_total_chunks mp"
proof -
  obtain rs where rs: "runs_disjoint rs" "run_set rs = F" "chain (mp_mem mp) (mp_freeptr mp) rs"
    using ok ne unfolding mp_ok_def by (metis all_not_in_conv less_le_not_le of_nat_0_le_iff)
  have fc: "mp_free_chunks mp = int (card F)" "finite F" using mp_ok_free_chunks[OF ok] by auto
  have bnd: "\<forall>i \<in> F. int i < mp_total_chunks mp" using mp_ok_bound[OF ok] by blast
  obtain s l rs' where rs': "rs = (s, l) # rs'" using rs ne by (cases rs) auto
  define c where "c = mp_mem mp s"
  have c: "mp_freeptr mp = Some s" "0 < l" "mc_free_chunks c = int l" "chain (mp_mem mp) (mc_next c) rs'"
    using rs(3) by (auto simp: rs' c_def)
  have F: "F = {s..<s + l} \<union> run_set rs'" and dis: "{s..<s + l} \<inter> run_set rs' = {}"
    using rs by (auto simp: rs')
  have s: "s \<in> F" "s \<notin> run_set rs'" using F dis c(2) by (auto simp: disjoint_iff)
  have nz: "mp_free_chunks mp \<noteq> 0" using fc ne by simp
  have card: "int (card (F - {s})) = mp_free_chunks mp - 1"
    using fc s(1) ne by (simp add: card_Diff_singleton card_gt_0_iff Suc_leI of_nat_diff)
  let ?m = "(mp_mem mp)(s := c\<lparr> mc_free_chunks := int l - 1 \<rparr>)"
  show ?thesis
  proof (cases "l = 1")
    case True
    then have a: "MPAllocateChunk mp = (Some s, mp\<lparr> mp_free_chunks := mp_free_chunks mp - 1,
        mp_freeptr := mc_next c, mp_mem := ?m \<rparr>)"
      using nz c by (simp add: MPAllocateChunk_def Let_def c_def)
    have "chain ?m (mc_next c) rs'" using c(4) s(2) by simp
    moreover have "run_set rs' = F - {s}" using F True s(2) by auto
    ultimately have "mp_ok (snd (MPAllocateChunk mp)) (F - {s})"
      using rs(1) card bnd by (intro mp_okI[of _ rs']) (simp_all add: rs' a)
    then show ?thesis using s(1) a by auto
  next
    case False
    let ?m' = "?m(s + 1 := \<lparr> mc_free_chunks = int l - 1, mc_next = mc_next c \<rparr>)"
    have a: "MPAllocateChunk mp = (Some s, mp\<lparr> mp_free_chunks := mp_free_chunks mp - 1,
        mp_freeptr := Some (s + 1), mp_mem := ?m' \<rparr>)"
      using nz c False by (simp add: MPAllocateChunk_def Let_def c_def)
    have s1: "s + 1 \<notin> run_set rs'" using dis c(2) False by (auto simp: disjoint_iff)
    have "chain ?m' (mc_next c) rs'" using c(4) s(2) s1 by simp
    then have ch: "chain ?m' (Some (s + 1)) ((s + 1, l - 1) # rs')"
      using c(2) False by (simp add: of_nat_diff)
    have rset: "run_set ((s + 1, l - 1) # rs') = F - {s}" using F c(2) s(2) by auto
    have dj: "runs_disjoint ((s + 1, l - 1) # rs')"
      using rs(1) c(2) by (auto simp: rs' disjoint_iff)
    have "mp_ok (snd (MPAllocateChunk mp)) (F - {s})"
      unfolding a snd_conv
    proof (rule mp_okI[OF _ rset dj], goal_cases)
      case 1 then show ?case using ch by (simp del: chain.simps fun_upd_apply)
    next
      case 2 then show ?case using card by simp
    next
      case 3 then show ?case using bnd by simp
    qed
    then show ?thesis using s(1) a by auto
  qed
qed

lemma MPFreeChunk_step:
  assumes ok: "mp_ok mp F" and p: "p \<notin> F" "int p < mp_total_chunks mp"
  shows "mp_ok (MPFreeChunk mp p) (insert p F)"
proof -
  obtain rs where rs: "runs_disjoint rs" "run_set rs = F" "chain (mp_mem mp) (mp_freeptr mp) rs"
    using ok p(2) unfolding mp_ok_def by (metis less_le_not_le of_nat_0_le_iff)
  let ?m = "(mp_mem mp)(p := \<lparr> mc_free_chunks = 1, mc_next = mp_freeptr mp \<rparr>)"
  have "chain ?m (mp_freeptr mp) rs" using rs p(1) by simp
  then show ?thesis
    unfolding mp_ok_def MPFreeChunk_def
    using rs p mp_ok_free_chunks[OF ok] mp_ok_bound[OF ok]
    by (intro exI[of _ "(p, 1) # rs"]) auto
qed

lemma chunk_write_ok:
  assumes ok: "mp_ok mp F" and p: "p \<notin> F"
  shows "mp_ok (chunk_write p c mp) F"
  using ok p unfolding mp_ok_def chunk_write_def by auto

lemma MPCreate_ok:
  assumes c: "MPCreate ok g cs ts h = Some mp" and nn: "0 \<le> mp_total_chunks mp"
  shows "mp_ok mp {0..<nat (mp_total_chunks mp)} \<and> mp_free_chunks mp = mp_total_chunks mp"
proof -
  let ?n = "nat (mp_total_chunks mp)"
  have f: "mp_free_chunks mp = mp_total_chunks mp" "mp_freeptr mp = Some 0"
    "mp_mem mp 0 = \<lparr> mc_free_chunks = mp_total_chunks mp, mc_next = None \<rparr>"
    using c by (auto simp: MPCreate_def Let_def split: if_splits)
  show ?thesis
  proof (cases "?n = 0")
    case True
    then have "mp_total_chunks mp = 0" using nn by simp
    then show ?thesis using f unfolding mp_ok_def by (intro conjI exI[of _ "[]"]) auto
  next
    case False
    then show ?thesis using f unfolding mp_ok_def
      by (intro conjI exI[of _ "[(0, ?n)]"]) auto
  qed
qed

section \<open>The property\<close>

text \<open>
  The states a pool can be in, with the set of chunks its clients hold: chunks come from
  \<open>MPAllocateChunk\<close>, are written by their owner, and go back through \<open>MPFreeChunk\<close>.
\<close>

inductive mp_reach :: "mem_pool \<Rightarrow> nat set \<Rightarrow> bool" where
  mp_created: "MPCreate ok g cs ts h = Some mp \<Longrightarrow> 0 \<le> mp_total_chunks mp \<Longrightarrow> mp_reach mp {}"
| mp_alloc: "mp_reach mp U \<Longrightarrow> MPAllocateChunk mp = (Some p, mp') \<Longrightarrow> mp_reach mp' (insert p U)"
| mp_write: "mp_reach mp U \<Longrightarrow> p \<in> U \<Longrightarrow> mp_reach (chunk_write p c mp) U"
| mp_free: "mp_reach mp U \<Longrightarrow> p \<in> U \<Longrightarrow> mp_reach (MPFreeChunk mp p) (U - {p})"

lemma mp_reach_ok:
  assumes "mp_reach mp U"
  shows "0 \<le> mp_total_chunks mp \<and> U \<subseteq> {0..<nat (mp_total_chunks mp)}
    \<and> mp_ok mp ({0..<nat (mp_total_chunks mp)} - U)"
  using assms
proof (induction rule: mp_reach.induct)
  case (mp_created ok g cs ts h mp)
  then show ?case using MPCreate_ok by simp
next
  case (mp_alloc mp U p mp')
  let ?F = "{0..<nat (mp_total_chunks mp)} - U"
  have ok: "mp_ok mp ?F" using mp_alloc.IH by simp
  then have "?F \<noteq> {}" using MPAllocateChunk_empty[of mp] mp_alloc.hyps(2) by fastforce
  from MPAllocateChunk_step[OF ok this] have p: "p \<in> ?F" "mp_ok mp' (?F - {p})"
    "mp_total_chunks mp' = mp_total_chunks mp" by (simp_all add: mp_alloc.hyps(2))
  then show ?case using mp_alloc.IH unfolding p(3) Diff_insert[symmetric] by blast
next
  case (mp_write mp U p c)
  then have "mp_ok (chunk_write p c mp) ({0..<nat (mp_total_chunks mp)} - U)"
    by (intro chunk_write_ok) auto
  then show ?case using mp_write by (simp add: chunk_write_def)
next
  case (mp_free mp U p)
  have "mp_ok (MPFreeChunk mp p) (insert p ({0..<nat (mp_total_chunks mp)} - U))"
    using mp_free by (intro MPFreeChunk_step) auto
  moreover have "insert p ({0..<nat (mp_total_chunks mp)} - U) = {0..<nat (mp_total_chunks mp)} - (U - {p})"
    using mp_free by auto
  ultimately show ?case using mp_free by (auto simp: MPFreeChunk_def)
qed

text \<open>
  C11.  The chunk pool never hands out a chunk that is in use.  In every state reached from
  a created pool by allocating, writing to owned chunks and freeing owned chunks, the
  free counter is exact, the next allocation fails exactly when all chunks are held, and
  otherwise returns a chunk inside the pool that nobody holds.
\<close>

theorem mem_pool_safe:
  assumes "mp_reach mp U"
  shows "MPGetFreeChunks mp = mp_total_chunks mp - int (card U)
    \<and> (fst (MPAllocateChunk mp) = None \<longleftrightarrow> int (card U) = mp_total_chunks mp)
    \<and> fst (MPAllocateChunk mp) \<notin> Some ` U
    \<and> fst (MPAllocateChunk mp) \<in> insert None (Some ` {0..<nat (mp_total_chunks mp)})"
proof -
  let ?A = "{0..<nat (mp_total_chunks mp)}"
  have r: "0 \<le> mp_total_chunks mp" "U \<subseteq> ?A" and ok: "mp_ok mp (?A - U)"
    using mp_reach_ok[OF assms] by auto
  have fin: "finite U" using r(2) by (rule finite_subset) simp
  have le: "card U \<le> nat (mp_total_chunks mp)" using card_mono[OF _ r(2)] by simp
  have cd: "card (?A - U) = nat (mp_total_chunks mp) - card U"
    using r(2) fin by (simp add: card_Diff_subset)
  have free: "mp_free_chunks mp = mp_total_chunks mp - int (card U)"
    using mp_ok_free_chunks[OF ok] cd r(1) le by (simp add: of_nat_diff)
  have al: "if ?A - U = {} then fst (MPAllocateChunk mp) = None
      else \<exists>p \<in> ?A - U. fst (MPAllocateChunk mp) = Some p"
    using ok MPAllocateChunk_empty[of mp] MPAllocateChunk_step[OF ok] by (cases "?A - U = {}") auto
  have "?A - U = {} \<longleftrightarrow> int (card U) = mp_total_chunks mp"
    using cd r(1) le by (metis card_0_eq diff_is_0_eq finite_Diff finite_atLeastLessThan le_antisym
        nat_int int_nat_eq order_refl)
  then show ?thesis using al free by (auto simp: MPGetFreeChunks_def split: if_splits)
qed

text \<open>A pool of two chunks of which the first is in use and overwritten.\<close>

definition mp_demo :: mem_pool where
  "mp_demo = chunk_write 0 \<lparr> mc_free_chunks = 99, mc_next = Some 0 \<rparr> (snd (MPAllocateChunk
     (the (MPCreate True (\<lambda>_. \<lparr> mc_free_chunks = 0, mc_next = None \<rparr>) 16 32 0))))"

lemma mp_demo_reach: "mp_reach mp_demo {0}"
proof -
  let ?m = "the (MPCreate True (\<lambda>_. \<lparr> mc_free_chunks = 0, mc_next = None \<rparr>) 16 32 0)"
  have "mp_reach ?m {}"
    by (rule mp_reach.mp_created[of True "\<lambda>_. \<lparr> mc_free_chunks = 0, mc_next = None \<rparr>" 16 32 0])
      (auto simp: MPCreate_def Let_def)
  then have "mp_reach (snd (MPAllocateChunk ?m)) (insert 0 {})"
    by (rule mp_reach.mp_alloc) (simp add: MPCreate_def MPAllocateChunk_def Let_def)
  then show ?thesis unfolding mp_demo_def by (intro mp_reach.mp_write) auto
qed

theorem mem_pool_safe_witness:
  "MPGetFreeChunks mp_demo = 1 \<and> fst (MPAllocateChunk mp_demo) = Some 1"
proof -
  have "mp_total_chunks mp_demo = 2"
    by (simp add: mp_demo_def chunk_write_def MPCreate_def MPAllocateChunk_def Let_def)
  then show ?thesis
    using mem_pool_safe[OF mp_demo_reach] by (auto simp: less_Suc_eq eval_nat_numeral)
qed

end
