(* ===== verification/Kv_Store.thy ===== *)
theory Kv_Store
  imports Mos_Prelude
begin

text \<open>
  The key-value store \<open>key_value_store.c\<close>: a table of buckets over a fixed array of
  entries, with a list of the free entries.  The contract of a lookup table, which the
  flow hash table shares, is the locale \<open>lookup_table\<close>; \<open>bounded_table\<close> extends it by
  what a table of limited size that refuses duplicate keys promises.
\<close>

section \<open>The contract\<close>

locale lookup_table =
  fixes inv :: "'t \<Rightarrow> bool"
    and search :: "'t \<Rightarrow> 'k \<Rightarrow> 'v option"
    and room :: "'t \<Rightarrow> bool"
    and fits :: "'k \<Rightarrow> 'v \<Rightarrow> bool"
    and ins :: "'t \<Rightarrow> 'k \<Rightarrow> 'v \<Rightarrow> int \<times> 't"
    and del :: "'t \<Rightarrow> 'k \<Rightarrow> 'v option \<times> 't"
  assumes ins_new: "inv t \<Longrightarrow> search t k = None \<Longrightarrow> room t \<Longrightarrow> fits k v \<Longrightarrow>
        inv (snd (ins t k v)) \<and> search (snd (ins t k v)) = (search t)(k \<mapsto> v) \<and> fst (ins t k v) = 0"
    and del_present: "inv t \<Longrightarrow> search t k = Some v \<Longrightarrow>
        inv (snd (del t k)) \<and> search (snd (del t k)) = (search t)(k := None) \<and> fst (del t k) = Some v"
begin

lemma search_after_ins:
  "inv t \<Longrightarrow> search t k = None \<Longrightarrow> room t \<Longrightarrow> fits k v \<Longrightarrow>
   search (snd (ins t k v)) k' = (if k' = k then Some v else search t k')"
  using ins_new by simp

lemma del_undoes_ins:
  assumes "inv t" "search t k = None" "room t" "fits k v"
  shows "fst (del (snd (ins t k v)) k) = Some v
    \<and> search (snd (del (snd (ins t k v)) k)) = search t"
proof -
  have i: "inv (snd (ins t k v))" "search (snd (ins t k v)) = (search t)(k \<mapsto> v)"
    using ins_new[OF assms] by auto
  have "search (snd (ins t k v)) k = Some v" using i by simp
  from del_present[OF i(1) this] show ?thesis using i(2) assms(2) by auto
qed

end

datatype ('k, 'v) top = Ins 'k 'v | Del 'k | Find 'k
datatype 'v tres = TCode int | TVal "'v option"

fun run_table ::
  "('t \<Rightarrow> 'k \<Rightarrow> 'v \<Rightarrow> int \<times> 't) \<Rightarrow> ('t \<Rightarrow> 'k \<Rightarrow> 'v option \<times> 't) \<Rightarrow> ('t \<Rightarrow> 'k \<Rightarrow> 'v option)
    \<Rightarrow> ('k, 'v) top list \<Rightarrow> 't \<Rightarrow> 'v tres list"
where
  "run_table ins del srch [] t = []"
| "run_table ins del srch (Ins k v # ops) t =
     (let (c, t') = ins t k v in TCode c # run_table ins del srch ops t')"
| "run_table ins del srch (Del k # ops) t =
     (let (v, t') = del t k in TVal v # run_table ins del srch ops t')"
| "run_table ins del srch (Find k # ops) t = TVal (srch t k) # run_table ins del srch ops t"

text \<open>The specification: a finite map of at most \<open>n\<close> keys.\<close>

fun spec_table :: "nat \<Rightarrow> ('k, 'v) top list \<Rightarrow> ('k \<times> 'v) list \<Rightarrow> 'v tres list" where
  "spec_table n [] m = []"
| "spec_table n (Ins k v # ops) m =
     (if map_of m k = None \<and> length m < n then TCode 0 # spec_table n ops ((k, v) # m)
      else TCode (-1) # spec_table n ops m)"
| "spec_table n (Del k # ops) m =
     TVal (map_of m k) # spec_table n ops (filter (\<lambda>p. fst p \<noteq> k) m)"
| "spec_table n (Find k # ops) m = TVal (map_of m k) # spec_table n ops m"

lemma map_of_filter_neq: "map_of (filter (\<lambda>p. fst p \<noteq> k) m) = (map_of m)(k := None)"
  by (induction m) (auto simp: fun_eq_iff)

lemma distinct_filter_fst: "distinct (map fst m) \<Longrightarrow> distinct (map fst (filter P m))"
  by (induction m) auto

locale bounded_table = lookup_table inv search room "\<lambda>k v. True" ins del
  for inv :: "'t \<Rightarrow> bool" and search :: "'t \<Rightarrow> 'k \<Rightarrow> 'v option" and room ins del +
  fixes cap :: "'t \<Rightarrow> nat"
  assumes room_iff: "inv t \<Longrightarrow> finite (dom (search t)) \<and> (room t \<longleftrightarrow> card (dom (search t)) < cap t)"
    and ins_dup: "inv t \<Longrightarrow> search t k \<noteq> None \<Longrightarrow> ins t k v = (-1, t)"
    and ins_full: "inv t \<Longrightarrow> \<not> room t \<Longrightarrow> ins t k v = (-1, t)"
    and del_absent: "inv t \<Longrightarrow> search t k = None \<Longrightarrow> del t k = (None, t)"
    and cap_const: "inv t \<Longrightarrow> cap (snd (ins t k v)) = cap t \<and> cap (snd (del t k)) = cap t"
begin

lemma run_table_refines:
  assumes "inv t" "search t = map_of m" "distinct (map fst m)"
  shows "run_table ins del search ops t = spec_table (cap t) ops m"
  using assms
proof (induction ops arbitrary: t m)
  case (Cons op ops)
  have "card (dom (search t)) = length m"
    using Cons.prems by (simp add: dom_map_of_conv_image_fst distinct_card flip: set_map)
  then have room: "room t \<longleftrightarrow> length m < cap t" using room_iff[OF Cons.prems(1)] by simp
  show ?case
  proof (cases op)
    case (Ins k v)
    show ?thesis
    proof (cases "map_of m k = None \<and> length m < cap t")
      case True
      then have s: "search t k = None" "room t" using Cons.prems room by auto
      have n: "inv (snd (ins t k v))" "search (snd (ins t k v)) = map_of ((k, v) # m)"
        "fst (ins t k v) = 0" using ins_new[OF Cons.prems(1) s] Cons.prems(2) by auto
      have d: "distinct (map fst ((k, v) # m))"
        using True Cons.prems(3) by (simp add: map_of_eq_None_iff)
      show ?thesis
        using Cons.IH[OF n(1,2) d] n(3) True Ins cap_const[OF Cons.prems(1)]
        by (simp add: split_beta Let_def)
    next
      case False
      then have "ins t k v = (-1, t)"
        using Cons.prems room ins_dup[of t k v] ins_full[of t k v] by auto
      then show ?thesis using Cons.IH[OF Cons.prems] False Ins by auto
    qed
  next
    case (Del k)
    show ?thesis
    proof (cases "map_of m k")
      case None
      then have "del t k = (None, t)" using Cons.prems del_absent by simp
      moreover have "filter (\<lambda>p. fst p \<noteq> k) m = m"
        using None by (auto simp: map_of_eq_None_iff intro!: filter_True)
      ultimately show ?thesis using Cons.IH[OF Cons.prems] Del None by simp
    next
      case (Some v)
      then have s: "search t k = Some v" using Cons.prems by simp
      have n: "inv (snd (del t k))" "fst (del t k) = Some v"
        "search (snd (del t k)) = map_of (filter (\<lambda>p. fst p \<noteq> k) m)"
        using del_present[OF Cons.prems(1) s] Cons.prems(2) by (auto simp: map_of_filter_neq)
      show ?thesis
        using Cons.IH[OF n(1,3) distinct_filter_fst[OF Cons.prems(3)]] n(2) Del Some
          cap_const[OF Cons.prems(1)] by (simp add: split_beta Let_def)
    qed
  next
    case (Find k)
    then show ?thesis using Cons.IH[OF Cons.prems] Cons.prems by simp
  qed
qed simp

end

section \<open>State and operations\<close>

record 'v kvs_entry =
  ent_key :: u64
  ent_value :: "'v option"

text \<open>Buckets and the free list hold indices into \<open>kvs_cont\<close>.\<close>

record 'v kvs =
  kvs_count :: int
  kvs_num_buckets :: int
  kvs_num_entries :: int
  kvs_table :: "nat list list"
  kvs_free :: "nat list"
  kvs_cont :: "'v kvs_entry list"

definition kvs_create :: "bool \<Rightarrow> bool \<Rightarrow> bool \<Rightarrow> int \<Rightarrow> int \<Rightarrow> 'v kvs option" where
  "kvs_create alloc_ht alloc_table alloc_cont num_buckets num_entries =
     (if \<not> alloc_ht then None
      else if \<not> alloc_table then None
      else if \<not> alloc_cont then None
      else Some \<lparr> kvs_count = 0, kvs_num_buckets = num_buckets, kvs_num_entries = num_entries,
             kvs_table = replicate (nat num_buckets) [],
             kvs_free = [0..<nat num_entries],
             kvs_cont = replicate (nat num_entries) \<lparr> ent_key = 0, ent_value = None \<rparr> \<rparr>)"

definition kvs_idx :: "'v kvs \<Rightarrow> u64 \<Rightarrow> nat" where
  "kvs_idx ht key = unat (key mod word_of_int (kvs_num_buckets ht))"

definition kvs_walk :: "'v kvs \<Rightarrow> u64 \<Rightarrow> nat option" where
  "kvs_walk ht key = find (\<lambda>e. key = ent_key (kvs_cont ht ! e)) (kvs_table ht ! kvs_idx ht key)"

definition kvs_search :: "'v kvs \<Rightarrow> u64 \<Rightarrow> 'v option" where
  "kvs_search ht key = (case kvs_walk ht key of
      Some e \<Rightarrow> ent_value (kvs_cont ht ! e)
    | None \<Rightarrow> None)"

definition kvs_insert :: "'v kvs \<Rightarrow> u64 \<Rightarrow> 'v \<Rightarrow> int \<times> 'v kvs" where
  "kvs_insert ht key v =
     (if kvs_search ht key \<noteq> None then (-1, ht)
      else let idx = kvs_idx ht key in
        case kvs_free ht of
          [] \<Rightarrow> (-1, ht)
        | ent # rest \<Rightarrow>
            (0, ht\<lparr> kvs_free := rest,
                   kvs_cont := (kvs_cont ht)[ent := \<lparr> ent_key = key, ent_value = Some v \<rparr>],
                   kvs_table := (kvs_table ht)[idx := kvs_table ht ! idx @ [ent]],
                   kvs_count := kvs_count ht + 1 \<rparr>))"

definition kvs_remove :: "'v kvs \<Rightarrow> u64 \<Rightarrow> 'v option \<times> 'v kvs" where
  "kvs_remove ht key =
     (let idx = kvs_idx ht key in
      case kvs_walk ht key of
        None \<Rightarrow> (None, ht)
      | Some walk \<Rightarrow>
          (ent_value (kvs_cont ht ! walk),
           ht\<lparr> kvs_table := (kvs_table ht)[idx := remove1 walk (kvs_table ht ! idx)],
               kvs_free := kvs_free ht @ [walk],
               kvs_count := kvs_count ht - 1 \<rparr>))"

section \<open>Correctness\<close>

definition kvs_inv :: "'v kvs \<Rightarrow> bool" where
  "kvs_inv ht \<longleftrightarrow> 0 < kvs_num_buckets ht \<and> kvs_num_buckets ht < 2 ^ 31
     \<and> length (kvs_table ht) = nat (kvs_num_buckets ht)
     \<and> length (kvs_cont ht) = nat (kvs_num_entries ht)
     \<and> distinct (concat (kvs_table ht) @ kvs_free ht)
     \<and> set (concat (kvs_table ht)) \<union> set (kvs_free ht) = {0..<length (kvs_cont ht)}
     \<and> kvs_count ht = int (length (concat (kvs_table ht)))
     \<and> (\<forall>i < length (kvs_table ht). \<forall>e \<in> set (kvs_table ht ! i).
          kvs_idx ht (ent_key (kvs_cont ht ! e)) = i \<and> ent_value (kvs_cont ht ! e) \<noteq> None)
     \<and> inj_on (\<lambda>e. ent_key (kvs_cont ht ! e)) (set (concat (kvs_table ht)))"

lemma kvs_idx_less: "kvs_inv ht \<Longrightarrow> kvs_idx ht k < length (kvs_table ht)"
proof -
  assume i: "kvs_inv ht"
  then have n: "0 < kvs_num_buckets ht" "kvs_num_buckets ht < 2 ^ 31" by (auto simp: kvs_inv_def)
  have u: "unat (word_of_int (kvs_num_buckets ht) :: u64) = nat (kvs_num_buckets ht)"
    using n by (simp add: unat_eq_nat_uint uint_word_of_int_eq take_bit_int_eq_self)
  have "kvs_idx ht k < nat (kvs_num_buckets ht)"
    unfolding kvs_idx_def unat_mod_distrib u using n by (intro mod_less_divisor) simp
  then show ?thesis using i by (simp add: kvs_inv_def)
qed

lemma kvs_idx_cong:
  "kvs_num_buckets ht' = kvs_num_buckets ht \<Longrightarrow> kvs_idx ht' k = kvs_idx ht k"
  by (simp add: kvs_idx_def)

definition kvs_occ :: "'v kvs \<Rightarrow> nat set" where
  "kvs_occ ht = set (concat (kvs_table ht))"

definition kvs_holds :: "'v kvs \<Rightarrow> u64 \<Rightarrow> 'v \<Rightarrow> bool" where
  "kvs_holds ht k v \<longleftrightarrow> (\<exists>e \<in> kvs_occ ht. kvs_cont ht ! e = \<lparr> ent_key = k, ent_value = Some v \<rparr>)"

lemma mset_remove1_eq: "x \<in> set xs \<Longrightarrow> mset xs = mset (x # remove1 x xs)"
  by simp

lemma kvs_walk_Some:
  assumes i: "kvs_inv ht" and e: "e \<in> kvs_occ ht"
  shows "kvs_walk ht (ent_key (kvs_cont ht ! e)) = Some e
    \<and> e \<in> set (kvs_table ht ! kvs_idx ht (ent_key (kvs_cont ht ! e)))"
proof -
  let ?k = "ent_key (kvs_cont ht ! e)"
  obtain j where j: "j < length (kvs_table ht)" "e \<in> set (kvs_table ht ! j)"
    using e unfolding kvs_occ_def by (metis UN_E in_set_conv_nth set_concat)
  then have ij: "kvs_idx ht ?k = j" using i unfolding kvs_inv_def by blast
  then have mem: "e \<in> set (kvs_table ht ! kvs_idx ht ?k)" using j by simp
  have "find (\<lambda>e. ?k = ent_key (kvs_cont ht ! e)) (kvs_table ht ! kvs_idx ht ?k) \<noteq> None"
    using mem by (auto simp: find_Some_iff_mem)
  then obtain e' where f: "kvs_walk ht ?k = Some e'" by (auto simp: kvs_walk_def)
  then have "e' \<in> set (kvs_table ht ! j) \<and> ?k = ent_key (kvs_cont ht ! e')"
    unfolding kvs_walk_def ij by (rule find_SomeD)
  then have "e' \<in> kvs_occ ht" "?k = ent_key (kvs_cont ht ! e')"
    using j by (auto simp: kvs_occ_def)
  then have "e' = e" using i e unfolding kvs_inv_def kvs_occ_def inj_on_def by auto
  then show ?thesis using f mem by simp
qed

lemma kvs_walk_SomeD:
  assumes i: "kvs_inv ht" and w: "kvs_walk ht k = Some e"
  shows "e \<in> kvs_occ ht \<and> ent_key (kvs_cont ht ! e) = k \<and> e \<in> set (kvs_table ht ! kvs_idx ht k)"
proof -
  have "e \<in> set (kvs_table ht ! kvs_idx ht k) \<and> k = ent_key (kvs_cont ht ! e)"
    using w unfolding kvs_walk_def by (rule find_SomeD)
  then show ?thesis using kvs_idx_less[OF i, of k] by (auto simp: kvs_occ_def)
qed

lemma kvs_occ_value: "kvs_inv ht \<Longrightarrow> e \<in> kvs_occ ht \<Longrightarrow> \<exists>v. ent_value (kvs_cont ht ! e) = Some v"
proof -
  assume i: "kvs_inv ht" and "e \<in> kvs_occ ht"
  then obtain j where "j < length (kvs_table ht)" "e \<in> set (kvs_table ht ! j)"
    unfolding kvs_occ_def by (metis UN_E in_set_conv_nth set_concat)
  then show ?thesis using i unfolding kvs_inv_def by blast
qed

lemma kvs_search_iff:
  assumes i: "kvs_inv ht"
  shows "kvs_search ht k = Some v \<longleftrightarrow> kvs_holds ht k v"
proof
  assume "kvs_search ht k = Some v"
  then obtain e where "kvs_walk ht k = Some e" "ent_value (kvs_cont ht ! e) = Some v"
    by (auto simp: kvs_search_def split: option.splits)
  then show "kvs_holds ht k v"
    using kvs_walk_SomeD[OF i] unfolding kvs_holds_def by (metis kvs_entry.surjective old.unit.exhaust)
next
  assume "kvs_holds ht k v"
  then obtain e where e: "e \<in> kvs_occ ht" "kvs_cont ht ! e = \<lparr> ent_key = k, ent_value = Some v \<rparr>"
    by (auto simp: kvs_holds_def)
  then show "kvs_search ht k = Some v"
    using kvs_walk_Some[OF i e(1)] by (simp add: kvs_search_def)
qed

lemma kvs_search_None:
  assumes i: "kvs_inv ht"
  shows "kvs_search ht k = None \<longleftrightarrow> kvs_walk ht k = None"
  using kvs_walk_SomeD[OF i] kvs_occ_value[OF i]
  by (fastforce simp: kvs_search_def split: option.splits)

lemma kvs_search_eqI:
  assumes "kvs_inv ht" "\<And>k v. m k = Some v \<longleftrightarrow> kvs_holds ht k v"
  shows "kvs_search ht = m"
  using kvs_search_iff[OF assms(1)] assms(2) by (metis (no_types) ext option.exhaust)

lemma kvs_insert_step:
  assumes i: "kvs_inv ht" and nk: "kvs_search ht k = None" and fr: "kvs_free ht = e # rest"
  shows "fst (kvs_insert ht k v) = 0 \<and> kvs_inv (snd (kvs_insert ht k v))
    \<and> kvs_search (snd (kvs_insert ht k v)) = (kvs_search ht)(k \<mapsto> v)"
proof -
  let ?j = "kvs_idx ht k"
  have j: "?j < length (kvs_table ht)" by (rule kvs_idx_less[OF i])
  obtain h' where ht': "kvs_insert ht k v = (0, h')"
    "kvs_free h' = rest" "kvs_cont h' = (kvs_cont ht)[e := \<lparr> ent_key = k, ent_value = Some v \<rparr>]"
    "kvs_table h' = (kvs_table ht)[?j := kvs_table ht ! ?j @ [e]]"
    "kvs_count h' = kvs_count ht + 1" "kvs_num_buckets h' = kvs_num_buckets ht"
    "kvs_num_entries h' = kvs_num_entries ht"
    using that[of "snd (kvs_insert ht k v)"] nk fr by (simp add: kvs_insert_def Let_def)
  have idx: "kvs_idx h' k' = kvs_idx ht k'" for k' by (rule kvs_idx_cong[OF ht'(6)])
  have "mset (concat (kvs_table h')) + mset (kvs_table ht ! ?j)
      = mset (concat (kvs_table ht)) + mset (kvs_table ht ! ?j @ [e])"
    unfolding ht'(4) by (rule mset_concat_update[OF j])
  then have ms: "mset (concat (kvs_table h')) = mset (e # concat (kvs_table ht))" by simp
  then have occ': "kvs_occ h' = insert e (kvs_occ ht)"
    unfolding kvs_occ_def by (metis list.simps(15) mset_eq_setD)
  have d: "distinct (concat (kvs_table ht) @ e # rest)"
    and cov: "kvs_occ ht \<union> set (e # rest) = {0..<length (kvs_cont ht)}"
    using i fr by (auto simp: kvs_inv_def kvs_occ_def)
  have en: "e \<notin> kvs_occ ht" "e < length (kvs_cont ht)" using d cov by (auto simp: kvs_occ_def)
  have old: "e' \<in> kvs_occ ht \<Longrightarrow> kvs_cont h' ! e' = kvs_cont ht ! e'" for e'
    using en by (auto simp: ht'(3) nth_list_update)
  have new: "kvs_cont h' ! e = \<lparr> ent_key = k, ent_value = Some v \<rparr>" using en by (simp add: ht'(3))
  have fresh: "e' \<in> kvs_occ ht \<Longrightarrow> ent_key (kvs_cont ht ! e') \<noteq> k" for e'
    using nk kvs_search_None[OF i] kvs_walk_Some[OF i] by (metis option.distinct(1))
  have fresh': "e' \<in> kvs_occ ht \<Longrightarrow> kvs_cont ht ! e' \<noteq> \<lparr> ent_key = k, ent_value = x \<rparr>" for e' x
    using fresh by (metis kvs_entry.select_convs(1))
  have bucket: "kvs_idx ht (ent_key (kvs_cont h' ! e')) = b \<and> ent_value (kvs_cont h' ! e') \<noteq> None"
    if "b < length (kvs_table h')" "e' \<in> set (kvs_table h' ! b)" for b e'
  proof (cases "e' = e")
    case True
    have "b = ?j"
    proof (rule ccontr)
      assume "b \<noteq> ?j"
      then have "e \<in> kvs_occ ht" using that True by (auto simp: ht'(4) kvs_occ_def)
      then show False using en by simp
    qed
    then show ?thesis using True new by simp
  next
    case False
    then have "e' \<in> set (kvs_table ht ! b)" "b < length (kvs_table ht)"
      using that j by (cases "b = ?j"; simp add: ht'(4))+
    moreover from this have "e' \<in> kvs_occ ht" by (auto simp: kvs_occ_def)
    ultimately show ?thesis using i old unfolding kvs_inv_def by simp
  qed
  have "inj_on (\<lambda>e'. ent_key (kvs_cont h' ! e')) (kvs_occ h')"
    using i fresh new old unfolding occ' inj_on_def kvs_inv_def kvs_occ_def[symmetric]
    by (metis insertE kvs_entry.select_convs(1))
  moreover have "distinct (concat (kvs_table h') @ kvs_free h')"
    using d ms mset_eq_imp_distinct_iff[of "concat (kvs_table h') @ rest" "concat (kvs_table ht) @ e # rest"]
    by (simp add: ht'(2))
  moreover have "length (concat (kvs_table h')) = Suc (length (concat (kvs_table ht)))"
    using mset_eq_length[OF ms] by simp
  moreover have "kvs_occ h' \<union> set rest = {0..<length (kvs_cont h')}"
    using cov by (simp add: occ' ht'(3))
  ultimately have inv': "kvs_inv h'"
    using i bucket unfolding kvs_inv_def kvs_occ_def[symmetric] idx
    by (simp add: ht')
  have "kvs_search h' = (kvs_search ht)(k \<mapsto> v)"
  proof (rule kvs_search_eqI[OF inv'])
    fix k' v'
    show "((kvs_search ht)(k \<mapsto> v)) k' = Some v' \<longleftrightarrow> kvs_holds h' k' v'"
      using fresh' old new kvs_search_iff[OF i, of k' v'] unfolding kvs_holds_def occ'
      by (auto split: if_splits)
  qed
  then show ?thesis using inv' by (simp add: ht'(1))
qed

lemma kvs_remove_step:
  assumes i: "kvs_inv ht" and pk: "kvs_search ht k = Some v"
  shows "fst (kvs_remove ht k) = Some v \<and> kvs_inv (snd (kvs_remove ht k))
    \<and> kvs_search (snd (kvs_remove ht k)) = (kvs_search ht)(k := None)"
proof -
  let ?j = "kvs_idx ht k"
  obtain e where w: "kvs_walk ht k = Some e" and ev: "ent_value (kvs_cont ht ! e) = Some v"
    using pk by (auto simp: kvs_search_def split: option.splits)
  have j: "?j < length (kvs_table ht)" by (rule kvs_idx_less[OF i])
  have e: "e \<in> kvs_occ ht" "ent_key (kvs_cont ht ! e) = k" "e \<in> set (kvs_table ht ! ?j)"
    using kvs_walk_SomeD[OF i w] by auto
  obtain h' where ht': "kvs_remove ht k = (Some v, h')" "kvs_free h' = kvs_free ht @ [e]"
    "kvs_cont h' = kvs_cont ht"
    "kvs_table h' = (kvs_table ht)[?j := remove1 e (kvs_table ht ! ?j)]"
    "kvs_count h' = kvs_count ht - 1" "kvs_num_buckets h' = kvs_num_buckets ht"
    "kvs_num_entries h' = kvs_num_entries ht"
    using that[of "snd (kvs_remove ht k)"] w ev by (simp add: kvs_remove_def Let_def)
  have idx: "kvs_idx h' k' = kvs_idx ht k'" for k' by (rule kvs_idx_cong[OF ht'(6)])
  have "mset (concat (kvs_table h')) + mset (kvs_table ht ! ?j)
      = mset (concat (kvs_table ht)) + mset (remove1 e (kvs_table ht ! ?j))"
    unfolding ht'(4) by (rule mset_concat_update[OF j])
  then have "mset (concat (kvs_table h')) + mset (e # remove1 e (kvs_table ht ! ?j))
      = mset (concat (kvs_table ht)) + mset (remove1 e (kvs_table ht ! ?j))"
    using mset_remove1_eq[OF e(3)] by argo
  then have ms: "mset (concat (kvs_table ht)) = mset (e # concat (kvs_table h'))"
    unfolding mset.simps by (metis add_mset_add_single add_right_cancel union_assoc union_commute)
  have d: "distinct (concat (kvs_table ht) @ kvs_free ht)"
    and cov: "kvs_occ ht \<union> set (kvs_free ht) = {0..<length (kvs_cont ht)}"
    using i by (auto simp: kvs_inv_def kvs_occ_def)
  have d': "distinct (concat (kvs_table h') @ kvs_free h')"
    using d ms mset_eq_imp_distinct_iff[of "concat (kvs_table h') @ kvs_free ht @ [e]" "concat (kvs_table ht) @ kvs_free ht"]
    by (simp add: ht'(2))
  have occ: "kvs_occ ht = insert e (kvs_occ h')" and en: "e \<notin> kvs_occ h'"
    using mset_eq_setD[OF ms] d' by (auto simp: kvs_occ_def ht'(2))
  have bucket: "kvs_idx ht (ent_key (kvs_cont h' ! e')) = b \<and> ent_value (kvs_cont h' ! e') \<noteq> None"
    if "b < length (kvs_table h')" "e' \<in> set (kvs_table h' ! b)" for b e'
  proof -
    have "b < length (kvs_table ht)" "e' \<in> set (kvs_table ht ! b)"
      using that j set_remove1_subset[of e "kvs_table ht ! b"]
      by (cases "b = ?j"; auto simp: ht'(4))+
    then show ?thesis using i unfolding kvs_inv_def ht'(3) by blast
  qed
  have inj: "inj_on (\<lambda>e'. ent_key (kvs_cont ht ! e')) (insert e (kvs_occ h'))"
    using i unfolding kvs_inv_def kvs_occ_def[symmetric] occ by simp
  moreover have "length (concat (kvs_table ht)) = Suc (length (concat (kvs_table h')))"
    using mset_eq_length[OF ms] by simp
  moreover have "kvs_occ h' \<union> set (kvs_free ht @ [e]) = {0..<length (kvs_cont h')}"
    using cov by (auto simp: occ ht'(3))
  ultimately have inv': "kvs_inv h'"
    using i bucket d' inj_on_subset[OF inj, of "kvs_occ h'"]
    unfolding kvs_inv_def kvs_occ_def[symmetric] idx
    by (simp add: ht' subset_insertI)
  have fresh: "e' \<in> kvs_occ h' \<Longrightarrow> kvs_cont ht ! e' \<noteq> \<lparr> ent_key = k, ent_value = x \<rparr>" for e' x
    using inj en e(2) unfolding inj_on_def by (metis insertI1 insertI2 kvs_entry.select_convs(1))
  have mine: "k' \<noteq> k \<Longrightarrow> kvs_cont ht ! e \<noteq> \<lparr> ent_key = k', ent_value = x \<rparr>" for k' x
    using e(2) by (metis kvs_entry.select_convs(1))
  have "kvs_search h' = (kvs_search ht)(k := None)"
  proof (rule kvs_search_eqI[OF inv'])
    fix k' v'
    show "((kvs_search ht)(k := None)) k' = Some v' \<longleftrightarrow> kvs_holds h' k' v'"
      using fresh mine kvs_search_iff[OF i, of k' v'] unfolding kvs_holds_def ht'(3) occ
      by (cases "k' = k") auto
  qed
  then show ?thesis using inv' by (simp add: ht'(1))
qed

lemma kvs_dom:
  assumes i: "kvs_inv ht"
  shows "finite (dom (kvs_search ht))
    \<and> (kvs_free ht \<noteq> [] \<longleftrightarrow> card (dom (kvs_search ht)) < length (kvs_cont ht))"
proof -
  let ?key = "\<lambda>e. ent_key (kvs_cont ht ! e)"
  have "dom (kvs_search ht) = ?key ` kvs_occ ht"
  proof (intro equalityI subsetI)
    fix k assume "k \<in> dom (kvs_search ht)"
    then show "k \<in> ?key ` kvs_occ ht" using kvs_search_iff[OF i] by (force simp: kvs_holds_def)
  next
    fix k assume "k \<in> ?key ` kvs_occ ht"
    then show "k \<in> dom (kvs_search ht)"
      using kvs_walk_Some[OF i] kvs_occ_value[OF i] by (fastforce simp: kvs_search_def)
  qed
  moreover have "card (?key ` kvs_occ ht) = card (kvs_occ ht)"
    using i unfolding kvs_inv_def kvs_occ_def by (intro card_image) simp
  moreover have "distinct (concat (kvs_table ht) @ kvs_free ht)"
    and "kvs_occ ht \<union> set (kvs_free ht) = {0..<length (kvs_cont ht)}"
    using i by (auto simp: kvs_inv_def kvs_occ_def)
  then have "card (kvs_occ ht) + length (kvs_free ht) = length (kvs_cont ht)"
    by (metis card_Un_disjoint card_atLeastLessThan diff_zero distinct_append distinct_card
        finite_set kvs_occ_def)
  ultimately show ?thesis by (cases "kvs_free ht") (auto simp: kvs_occ_def)
qed

lemma kvs_cap_const:
  "length (kvs_cont (snd (kvs_insert ht k v))) = length (kvs_cont ht)
   \<and> length (kvs_cont (snd (kvs_remove ht k))) = length (kvs_cont ht)"
  by (simp add: kvs_insert_def kvs_remove_def Let_def split: list.split option.split)

interpretation kvst: bounded_table kvs_inv kvs_search "\<lambda>ht. kvs_free ht \<noteq> []" kvs_insert kvs_remove
  "\<lambda>ht. length (kvs_cont ht)"
proof (unfold_locales, goal_cases)
  case (1 t k v) then show ?case using kvs_insert_step by (metis list.exhaust)
next
  case (2 t k v) then show ?case using kvs_remove_step by metis
next
  case (3 t) then show ?case by (rule kvs_dom)
next
  case (4 t k v) then show ?case by (simp add: kvs_insert_def)
next
  case (5 t k v) then show ?case by (simp add: kvs_insert_def Let_def)
next
  case (6 t k) then show ?case by (simp add: kvs_remove_def Let_def kvs_search_None)
next
  case (7 t k v) show ?case by (rule kvs_cap_const)
qed

lemma kvs_create_ok:
  assumes "kvs_create True True True nb ne = Some ht" "0 < nb" "nb < 2 ^ 31" "0 \<le> ne"
  shows "kvs_inv ht \<and> kvs_search ht = map_of [] \<and> length (kvs_cont ht) = nat ne"
proof -
  have c: "concat (replicate (nat nb) []) = []" by simp
  have "kvs_inv ht" using assms by (auto simp: kvs_create_def kvs_inv_def c)
  moreover have "kvs_search ht k = None" for k
    using kvs_search_None[OF calculation] kvs_walk_SomeD[OF calculation] assms
    by (cases "kvs_walk ht k") (auto simp: kvs_create_def kvs_occ_def c)
  ultimately show ?thesis using assms by (auto simp: kvs_create_def fun_eq_iff)
qed

section \<open>The property\<close>

text \<open>
  C12.  A key-value store created with room for \<open>num_entries\<close> entries behaves, under any
  sequence of insertions, removals and searches, as a finite map of at most that many
  keys: an insertion returns 0 when the key is new and there is room and -1 without effect
  otherwise, and a removal or a search returns the value stored under the key, or null.
\<close>

theorem kvs_refines_map:
  assumes "kvs_create True True True num_buckets num_entries = Some ht"
    and "0 < num_buckets" "num_buckets < 2 ^ 31" "0 \<le> num_entries"
  shows "run_table kvs_insert kvs_remove kvs_search ops ht = spec_table (nat num_entries) ops []"
proof -
  have "kvs_inv ht" "kvs_search ht = map_of []" "length (kvs_cont ht) = nat num_entries"
    using kvs_create_ok[OF assms] by auto
  then show ?thesis using kvst.run_table_refines[of ht "[]"] by simp
qed

theorem kvs_refines_map_witness:
  "run_table kvs_insert kvs_remove kvs_search
     [Ins 5 ''a'', Ins 5 ''b'', Ins 6 ''c'', Find 6, Del 5, Ins 6 ''d'', Find 6, Find 5]
     (the (kvs_create True True True 2 1))
   = [TCode 0, TCode (-1), TCode (-1), TVal None, TVal (Some ''a''), TCode 0, TVal (Some ''d''), TVal None]"
  using kvs_refines_map[of 2 1 "the (kvs_create True True True 2 1)"
      "[Ins 5 ''a'', Ins 5 ''b'', Ins 6 ''c'', Find 6, Del 5, Ins 6 ''d'', Find 6, Find 5]"]
  by (simp add: kvs_create_def)

end
