(* ===== verification/Send_Buffer.thy ===== *)
theory Send_Buffer
  imports Ring_Queues Mem_Pool
begin

text \<open>
  The per-connection send buffer and its manager, \<open>tcp_send_buffer.c\<close>.  The pointer
  \<open>head\<close> is its offset from \<open>data\<close>; the bytes of the chunk are the list \<open>sb_data\<close>, and
  \<open>sb_chunk\<close> is the chunk's index in the manager's pool.
\<close>

section \<open>State\<close>

record tcp_send_buffer =
  sb_chunk :: nat
  sb_data :: "u8 list"
  sb_head :: nat
  sb_head_off :: u32
  sb_tail_off :: u32
  sb_len :: u32
  sb_cum_len :: u64
  sb_size :: u32
  sb_head_seq :: u32
  sb_init_seq :: u32

record sb_manager =
  sbm_chunk_size :: u64
  sbm_cur_num :: u32
  sbm_cnum :: u32
  sbm_mp :: mem_pool
  sbm_freeq :: "tcp_send_buffer ring"

section \<open>Operations\<close>

definition SBGetCurnum :: "sb_manager \<Rightarrow> u32" where
  "SBGetCurnum sbm = sbm_cur_num sbm"

text \<open>
  \<open>aligned_ok\<close> and \<open>garbage\<close> are those of \<open>MPCreate\<close>; the other booleans are the
  outcomes of \<open>calloc\<close>.  \<open>!disable_rings * concurrency\<close> is computed in \<open>uint32_t\<close>.
\<close>

definition SBManagerCreate ::
  "bool \<Rightarrow> bool \<Rightarrow> (nat \<Rightarrow> mem_chunk) \<Rightarrow> bool \<Rightarrow> bool \<Rightarrow> u64 \<Rightarrow> u8 \<Rightarrow> u32 \<Rightarrow> sb_manager option" where
  "SBManagerCreate alloc_sbm aligned_ok garbage alloc_sq alloc_q chunk_size disable_rings concurrency =
     (if \<not> alloc_sbm then None
      else case MPCreate aligned_ok garbage (sint (ucast chunk_size :: u32))
             (chunk_size * ucast ((if disable_rings = 0 then 1 else 0) * concurrency)) 0 of
        None \<Rightarrow> None
      | Some mp \<Rightarrow>
        (case CreateSBQueue alloc_sq alloc_q (sint concurrency) of
           None \<Rightarrow> None
         | Some freeq \<Rightarrow> Some \<lparr> sbm_chunk_size = chunk_size, sbm_cur_num = 0,
             sbm_cnum = concurrency, sbm_mp = mp, sbm_freeq = freeq \<rparr>))"

text \<open>The reset of a buffer at the end of \<open>SBInit\<close>.\<close>

definition SBReset :: "sb_manager \<Rightarrow> u32 \<Rightarrow> tcp_send_buffer \<Rightarrow> tcp_send_buffer" where
  "SBReset sbm init_seq buf =
     buf\<lparr> sb_head := 0, sb_head_off := 0, sb_tail_off := 0, sb_len := 0, sb_cum_len := 0,
          sb_size := ucast (sbm_chunk_size sbm), sb_init_seq := init_seq, sb_head_seq := init_seq \<rparr>"

text \<open>\<open>fresh\<close> is what \<open>malloc\<close> returns (an arbitrary struct, or null).\<close>

definition SBInit ::
  "tcp_send_buffer option \<Rightarrow> (nat \<Rightarrow> u8 list) \<Rightarrow> sb_manager \<Rightarrow> u32 \<Rightarrow> tcp_send_buffer option \<times> sb_manager" where
  "SBInit fresh chunk_bytes sbm init_seq =
     (case SBDequeue (sbm_freeq sbm) of
        (Some buf, freeq) \<Rightarrow> (Some (SBReset sbm init_seq buf), sbm\<lparr> sbm_freeq := freeq \<rparr>)
      | (None, _) \<Rightarrow>
         (case fresh of
            None \<Rightarrow> (None, sbm)
          | Some buf \<Rightarrow>
             (case MPAllocateChunk (sbm_mp sbm) of
                (None, mp) \<Rightarrow> (None, sbm\<lparr> sbm_mp := mp \<rparr>)
              | (Some c, mp) \<Rightarrow>
                 (Some (SBReset sbm init_seq (buf\<lparr> sb_chunk := c, sb_data := chunk_bytes c \<rparr>)),
                  sbm\<lparr> sbm_mp := mp, sbm_cur_num := sbm_cur_num sbm + 1 \<rparr>))))"

definition SBFree :: "sb_manager \<Rightarrow> tcp_send_buffer option \<Rightarrow> sb_manager" where
  "SBFree sbm b = (case b of
      None \<Rightarrow> sbm
    | Some buf \<Rightarrow> sbm\<lparr> sbm_freeq := snd (SBEnqueue (sbm_freeq sbm) buf) \<rparr>)"

definition SBPut :: "tcp_send_buffer \<Rightarrow> u8 list \<Rightarrow> u64 \<Rightarrow> u64 \<times> tcp_send_buffer" where
  "SBPut buf data len =
     (if len = 0 then (0, buf)
      else let to_put = (if len < ucast (sb_size buf - sb_len buf) then len
                         else ucast (sb_size buf - sb_len buf));
               bytes = take (unat to_put) data
      in if to_put = 0 then (-2, buf)
         else let buf1 =
             (if ucast (sb_tail_off buf) + to_put < ucast (sb_size buf)
              then buf\<lparr> sb_data := blit (unat (sb_tail_off buf)) bytes (sb_data buf),
                       sb_tail_off := sb_tail_off buf + ucast to_put \<rparr>
              else let moved = blit 0 (take (unat (sb_len buf)) (drop (sb_head buf) (sb_data buf))) (sb_data buf)
                   in buf\<lparr> sb_data := blit (unat (sb_len buf)) bytes moved,
                           sb_head := 0, sb_head_off := 0,
                           sb_tail_off := ucast (ucast (sb_len buf) + to_put) \<rparr>)
           in (to_put, buf1\<lparr> sb_len := sb_len buf + ucast to_put,
                             sb_cum_len := sb_cum_len buf + to_put \<rparr>))"

definition SBRemove :: "tcp_send_buffer \<Rightarrow> u64 \<Rightarrow> u64 \<times> tcp_send_buffer" where
  "SBRemove buf len =
     (if len = 0 then (0, buf)
      else let to_remove = (if len < ucast (sb_len buf) then len else ucast (sb_len buf))
      in if to_remove = 0 then (-2, buf)
         else let head_off = sb_head_off buf + ucast to_remove;
                  buf1 = buf\<lparr> sb_head_off := head_off, sb_head := unat head_off,
                              sb_head_seq := sb_head_seq buf + ucast to_remove,
                              sb_len := sb_len buf - ucast to_remove \<rparr>
              in (to_remove,
                  if sb_len buf1 = 0 \<and> sb_head_off buf1 > 0
                  then buf1\<lparr> sb_head := 0, sb_head_off := 0, sb_tail_off := 0 \<rparr>
                  else buf1))"

section \<open>Correctness\<close>

text \<open>The bytes in flight: those put and not yet removed.\<close>

definition sb_bytes :: "tcp_send_buffer \<Rightarrow> u8 list" where
  "sb_bytes buf = take (unat (sb_len buf)) (drop (sb_head buf) (sb_data buf))"

definition sb_inv :: "tcp_send_buffer \<Rightarrow> bool" where
  "sb_inv buf \<longleftrightarrow> length (sb_data buf) = unat (sb_size buf) \<and> unat (sb_size buf) < 2 ^ 31
     \<and> sb_head buf = unat (sb_head_off buf)
     \<and> unat (sb_head_off buf) + unat (sb_len buf) = unat (sb_tail_off buf)
     \<and> unat (sb_tail_off buf) \<le> unat (sb_size buf)"

lemma length_sb_bytes: "sb_inv buf \<Longrightarrow> length (sb_bytes buf) = unat (sb_len buf)"
  by (auto simp: sb_inv_def sb_bytes_def)

lemma sb_tail_bytes: "sb_inv buf \<Longrightarrow> length (drop (sb_head buf) (sb_data buf)) \<ge> unat (sb_len buf)"
  by (auto simp: sb_inv_def)

text \<open>The number of bytes one call takes, as the code computes it in 64 bits.\<close>

lemma unat_min_take:
  fixes len :: u64 and room :: u32
  shows "unat (if len < ucast room then len else ucast room) = min (unat len) (unat room)"
  by (auto simp: word_less_nat_alt)

lemma SBPut_step:
  assumes i: "sb_inv buf" and d: "unat len \<le> length data"
    and n: "n = min (unat len) (unat (sb_size buf) - unat (sb_len buf))"
  shows "if len = 0 then SBPut buf data len = (0, buf)
    else if n = 0 then SBPut buf data len = (-2, buf)
    else unat (fst (SBPut buf data len)) = n
      \<and> sb_inv (snd (SBPut buf data len))
      \<and> sb_bytes (snd (SBPut buf data len)) = sb_bytes buf @ take n data
      \<and> unat (sb_len (snd (SBPut buf data len))) = unat (sb_len buf) + n
      \<and> sb_head_seq (snd (SBPut buf data len)) = sb_head_seq buf
      \<and> sb_size (snd (SBPut buf data len)) = sb_size buf"
proof -
  have lens: "length (sb_data buf) = unat (sb_size buf)" "unat (sb_size buf) < 2 ^ 31"
    "sb_head buf = unat (sb_head_off buf)"
    "unat (sb_head_off buf) + unat (sb_len buf) = unat (sb_tail_off buf)"
    "unat (sb_tail_off buf) \<le> unat (sb_size buf)"
    using i by (auto simp: sb_inv_def)
  define p where "p = (if len < ucast (sb_size buf - sb_len buf) then len else ucast (sb_size buf - sb_len buf))"
  have "sb_len buf \<le> sb_size buf" using lens by (simp add: word_le_nat_alt)
  then have p: "unat p = n"
    using unat_min_take[of len "sb_size buf - sb_len buf"] by (simp add: p_def n unat_sub)
  have p0: "p = 0 \<longleftrightarrow> n = 0" using p by (metis unat_0 unat_eq_zero)
  have pn: "n < 2 ^ 31" "n \<le> length data" "unat (sb_len buf) + n \<le> unat (sb_size buf)"
    using lens d by (auto simp: n)
  have p32: "unat (ucast p :: u32) = n" using p pn unat_ucast_u32[of p] by simp
  have l': "unat (sb_len buf + ucast p) = unat (sb_len buf) + n"
    using lens pn by (subst unat_add_small) (simp_all add: p32)
  have fit: "ucast (sb_tail_off buf) + p < ucast (sb_size buf) \<longleftrightarrow> unat (sb_tail_off buf) + n < unat (sb_size buf)"
    using lens pn p by (simp add: word_less_nat_alt unat_add_small)
  consider "len = 0" | "len \<noteq> 0" "n = 0"
    | "len \<noteq> 0" "n \<noteq> 0" "unat (sb_tail_off buf) + n < unat (sb_size buf)"
    | "len \<noteq> 0" "n \<noteq> 0" "\<not> unat (sb_tail_off buf) + n < unat (sb_size buf)" by blast
  then show ?thesis
  proof cases
    case 3
    define b' where "b' = buf\<lparr> sb_data := blit (unat (sb_tail_off buf)) (take n data) (sb_data buf),
      sb_tail_off := sb_tail_off buf + ucast p, sb_len := sb_len buf + ucast p,
      sb_cum_len := sb_cum_len buf + p \<rparr>"
    have e: "SBPut buf data len = (p, b')"
      using 3 p0 fit by (simp add: SBPut_def p_def[symmetric] Let_def p b'_def)
    have t': "unat (sb_tail_off buf + ucast p) = unat (sb_tail_off buf) + n"
      using 3 lens pn by (subst unat_add_small) (simp_all add: p32)
    have "sb_inv b'" using lens 3 pn by (simp add: b'_def sb_inv_def l' t')
    moreover have "sb_bytes b' = sb_bytes buf @ take n data"
    proof (rule nth_equalityI)
      show "length (sb_bytes b') = length (sb_bytes buf @ take n data)"
        using length_sb_bytes[OF i] length_sb_bytes[OF calculation] pn by (simp add: b'_def l')
      fix j assume "j < length (sb_bytes b')"
      then have j: "j < unat (sb_len buf) + n" using length_sb_bytes[OF calculation] by (simp add: b'_def l')
      then show "sb_bytes b' ! j = (sb_bytes buf @ take n data) ! j"
        using lens(1,3,5) 3 pn length_sb_bytes[OF i]
        by (auto simp: sb_bytes_def b'_def l' nth_append nth_blit lens(4)[symmetric])
    qed
    ultimately show ?thesis using 3 by (simp add: e p l' b'_def)
  next
    case 4
    define m where "m = blit 0 (sb_bytes buf) (sb_data buf)"
    define b' where "b' = buf\<lparr> sb_data := blit (unat (sb_len buf)) (take n data) m,
      sb_head := 0, sb_head_off := 0,
      sb_tail_off := ucast (ucast (sb_len buf) + p), sb_len := sb_len buf + ucast p,
      sb_cum_len := sb_cum_len buf + p \<rparr>"
    have e: "SBPut buf data len = (p, b')"
      using 4 p0 fit by (simp add: SBPut_def p_def[symmetric] Let_def p b'_def m_def sb_bytes_def)
    have lb: "length (sb_bytes buf) = unat (sb_len buf)" by (rule length_sb_bytes[OF i])
    have lm: "length m = unat (sb_size buf)" using lens lb by (simp add: m_def)
    have u: "unat (ucast (sb_len buf) + p) = unat (sb_len buf) + n"
      using lens pn p by (simp add: unat_add_small)
    have t': "unat (ucast (ucast (sb_len buf) + p) :: u32) = unat (sb_len buf) + n"
      using lens pn by (subst unat_ucast_u32) (simp_all add: u)
    have "sb_inv b'" using lens 4 pn lm by (simp add: b'_def sb_inv_def l' t')
    moreover have "sb_bytes b' = sb_bytes buf @ take n data"
    proof (rule nth_equalityI)
      show "length (sb_bytes b') = length (sb_bytes buf @ take n data)"
        using lb length_sb_bytes[OF calculation] pn by (simp add: b'_def l')
      fix j assume "j < length (sb_bytes b')"
      then have j: "j < unat (sb_len buf) + n" using length_sb_bytes[OF calculation] by (simp add: b'_def l')
      have y: "sb_bytes b' = take (unat (sb_len buf) + n) (blit (unat (sb_len buf)) (take n data) m)"
        by (simp add: sb_bytes_def b'_def l')
      have "m ! j = sb_bytes buf ! j" if "j < unat (sb_len buf)"
        using that lb lens unfolding m_def by (subst nth_blit) auto
      then show "sb_bytes b' ! j = (sb_bytes buf @ take n data) ! j"
        using lens pn lb lm j by (simp add: y nth_append nth_blit)
    qed
    ultimately show ?thesis using 4 by (simp add: e p l' b'_def)
  qed (simp_all add: SBPut_def p_def[symmetric] Let_def p0)
qed

lemma SBRemove_step:
  assumes i: "sb_inv buf" and n: "n = min (unat len) (unat (sb_len buf))"
  shows "if len = 0 then SBRemove buf len = (0, buf)
    else if n = 0 then SBRemove buf len = (-2, buf)
    else unat (fst (SBRemove buf len)) = n
      \<and> sb_inv (snd (SBRemove buf len))
      \<and> sb_bytes (snd (SBRemove buf len)) = drop n (sb_bytes buf)
      \<and> unat (sb_len (snd (SBRemove buf len))) = unat (sb_len buf) - n
      \<and> sb_head_seq (snd (SBRemove buf len)) = sb_head_seq buf + of_nat n
      \<and> sb_size (snd (SBRemove buf len)) = sb_size buf"
proof -
  have lens: "length (sb_data buf) = unat (sb_size buf)" "unat (sb_size buf) < 2 ^ 31"
    "sb_head buf = unat (sb_head_off buf)"
    "unat (sb_head_off buf) + unat (sb_len buf) = unat (sb_tail_off buf)"
    "unat (sb_tail_off buf) \<le> unat (sb_size buf)"
    using i by (auto simp: sb_inv_def)
  define p where "p = (if len < ucast (sb_len buf) then len else ucast (sb_len buf))"
  have p: "unat p = n" using unat_min_take[of len "sb_len buf"] by (simp add: p_def n)
  have p0: "p = 0 \<longleftrightarrow> n = 0" using p by (metis unat_0 unat_eq_zero)
  have pn: "n \<le> unat (sb_len buf)" "n < 2 ^ 31" using lens by (auto simp: n)
  have p32: "unat (of_nat n :: u32) = n" using pn by (simp add: unat_of_nat take_bit_nat_eq_self)
  have "unat (ucast p :: u32) = n" using p pn unat_ucast_u32[of p] by simp
  then have pc: "(ucast p :: u32) = of_nat n" by (simp add: word_unat_eq_iff p32)
  have h': "unat (sb_head_off buf + of_nat n) = n + unat (sb_head_off buf)"
    using lens pn by (subst unat_add_small) (simp_all add: p32)
  have "of_nat n \<le> sb_len buf" using pn by (simp add: word_le_nat_alt p32)
  then have l': "unat (sb_len buf - of_nat n) = unat (sb_len buf) - n"
    by (simp add: unat_sub p32)
  consider "len = 0" | "len \<noteq> 0" "n = 0" | "len \<noteq> 0" "n \<noteq> 0" by blast
  then show ?thesis
  proof cases
    case 3
    define b1 where "b1 = buf\<lparr> sb_head_off := sb_head_off buf + of_nat n,
      sb_head := unat (sb_head_off buf + of_nat n), sb_head_seq := sb_head_seq buf + of_nat n,
      sb_len := sb_len buf - of_nat n \<rparr>"
    define b' where "b' = (if sb_len b1 = 0 \<and> sb_head_off b1 > 0
      then b1\<lparr> sb_head := 0, sb_head_off := 0, sb_tail_off := 0 \<rparr> else b1)"
    have e: "SBRemove buf len = (p, b')"
      using 3 p0 by (simp add: SBRemove_def p_def[symmetric] Let_def b'_def b1_def pc)
    have b1: "sb_inv b1" using lens pn by (simp add: b1_def sb_inv_def l' h')
    have y1: "sb_bytes b1 = drop n (sb_bytes buf)"
      using lens pn by (simp add: sb_bytes_def b1_def l' h' drop_take)
    have "sb_inv b'" using b1 by (auto simp: b'_def sb_inv_def)
    moreover have "sb_bytes b' = sb_bytes b1" by (simp add: b'_def sb_bytes_def)
    moreover have "sb_len b' = sb_len b1" "sb_head_seq b' = sb_head_seq b1" "sb_size b' = sb_size b1"
      by (simp_all add: b'_def)
    ultimately show ?thesis using 3 y1 by (simp add: e p) (simp add: b1_def l')
  qed (simp_all add: SBRemove_def p_def[symmetric] Let_def p0)
qed

lemma SBReset_inv:
  assumes "length (sb_data buf) = unat (ucast (sbm_chunk_size sbm) :: u32)"
    and "unat (ucast (sbm_chunk_size sbm) :: u32) < 2 ^ 31"
  shows "sb_inv (SBReset sbm s buf) \<and> sb_bytes (SBReset sbm s buf) = []
    \<and> sb_head_seq (SBReset sbm s buf) = s \<and> sb_len (SBReset sbm s buf) = 0"
  using assms by (simp add: SBReset_def sb_inv_def sb_bytes_def)

section \<open>The property\<close>

text \<open>
  A history of calls on one buffer, and the same history on the specification: the bytes
  in flight and the sequence number of the first of them, with a capacity.
\<close>

datatype sb_op = Put "u8 list" | Remove u64

fun sb_run :: "sb_op list \<Rightarrow> tcp_send_buffer \<Rightarrow> u64 list \<times> tcp_send_buffer" where
  "sb_run [] b = ([], b)"
| "sb_run (Put data # ops) b =
     (let (r, b') = SBPut b data (of_nat (length data)); (rs, b'') = sb_run ops b' in (r # rs, b''))"
| "sb_run (Remove n # ops) b =
     (let (r, b') = SBRemove b n; (rs, b'') = sb_run ops b' in (r # rs, b''))"

fun sb_spec :: "nat \<Rightarrow> sb_op list \<Rightarrow> u8 list \<Rightarrow> u32 \<Rightarrow> u64 list \<times> u8 list \<times> u32" where
  "sb_spec cap [] xs s = ([], xs, s)"
| "sb_spec cap (Put data # ops) xs s =
     (let n = min (length data) (cap - length xs);
          (rs, r) = sb_spec cap ops (xs @ take n data) s
      in ((if data = [] then 0 else if n = 0 then -2 else of_nat n) # rs, r))"
| "sb_spec cap (Remove len # ops) xs s =
     (let n = min (unat len) (length xs);
          (rs, r) = sb_spec cap ops (drop n xs) (s + of_nat n)
      in ((if len = 0 then 0 else if n = 0 then -2 else of_nat n) # rs, r))"

text \<open>The payloads are shorter than \<open>2 ^ 32\<close> bytes, as every caller's are.\<close>

definition put_small :: "sb_op list \<Rightarrow> bool" where
  "put_small ops \<longleftrightarrow> (\<forall>data. Put data \<in> set ops \<longrightarrow> length data < 2 ^ 32)"

lemma sb_run_refines:
  assumes "sb_inv b" "put_small ops"
  shows "fst (sb_run ops b) = fst (sb_spec (unat (sb_size b)) ops (sb_bytes b) (sb_head_seq b))
    \<and> sb_inv (snd (sb_run ops b))
    \<and> snd (sb_spec (unat (sb_size b)) ops (sb_bytes b) (sb_head_seq b))
        = (sb_bytes (snd (sb_run ops b)), sb_head_seq (snd (sb_run ops b)))"
  using assms
proof (induction ops arbitrary: b)
  case (Cons op ops)
  have sm: "put_small ops" using Cons.prems(2) by (auto simp: put_small_def)
  have lb: "length (sb_bytes b) = unat (sb_len b)" by (rule length_sb_bytes[OF Cons.prems(1)])
  show ?case
  proof (cases op)
    case (Put data)
    have u: "unat (of_nat (length data) :: u64) = length data"
    proof -
      have "length data < 2 ^ 32" using Cons.prems(2) Put by (simp add: put_small_def)
      then show ?thesis by (simp add: unat_of_nat take_bit_nat_eq_self)
    qed
    have z: "(of_nat (length data) :: u64) = 0 \<longleftrightarrow> data = []"
      unfolding word_unat_eq_iff u unat_0 by simp
    obtain r b' where e: "SBPut b data (of_nat (length data)) = (r, b')" by fastforce
    let ?n = "min (length data) (unat (sb_size b) - unat (sb_len b))"
    note step = SBPut_step[OF Cons.prems(1), of "of_nat (length data)" data, unfolded u e z fst_conv snd_conv, OF le_refl refl]
    note keep = Cons.IH[of b, OF Cons.prems(1) sm] and IH = Cons.IH[of b', OF _ sm]
    consider "data = []" | "data \<noteq> []" "?n = 0" | "data \<noteq> []" "?n \<noteq> 0" by blast
    then show ?thesis
    proof cases
      case 1
      then have "r = 0" "b' = b" using step by auto
      then show ?thesis using keep 1 e by (simp add: Put split_beta Let_def)
    next
      case 2
      then have "r = -2" "b' = b" using step by auto
      moreover have "take ?n data = []" "min (length data) (unat (sb_size b) - unat (sb_len b)) = 0"
        using 2 by simp_all
      ultimately show ?thesis using keep 2(1) e lb by (simp add: Put split_beta Let_def)
    next
      case 3
      then have s3: "unat r = ?n" "sb_inv b'" "sb_bytes b' = sb_bytes b @ take ?n data"
        "sb_head_seq b' = sb_head_seq b" "sb_size b' = sb_size b" using step by auto
      have "r = of_nat ?n" using s3(1) by (rule word_of_nat_unat)
      then show ?thesis using IH[OF s3(2)] s3(3-5) 3 e lb by (simp add: Put split_beta Let_def)
    qed
  next
    case (Remove len)
    obtain r b' where e: "SBRemove b len = (r, b')" by fastforce
    let ?n = "min (unat len) (unat (sb_len b))"
    note step = SBRemove_step[OF Cons.prems(1) refl, of len, unfolded e fst_conv snd_conv]
    note keep = Cons.IH[of b, OF Cons.prems(1) sm] and IH = Cons.IH[of b', OF _ sm]
    consider "len = 0" | "len \<noteq> 0" "?n = 0" | "len \<noteq> 0" "?n \<noteq> 0" by blast
    then show ?thesis
    proof cases
      case 1
      then have "r = 0" "b' = b" using step by auto
      then show ?thesis using keep 1 e by (simp add: Remove split_beta Let_def)
    next
      case 2
      then have "r = -2" "b' = b" using step by auto
      then show ?thesis using keep 2 e lb by (simp add: Remove split_beta Let_def)
    next
      case 3
      then have s3: "unat r = ?n" "sb_inv b'" "sb_bytes b' = drop ?n (sb_bytes b)"
        "sb_head_seq b' = sb_head_seq b + of_nat ?n" "sb_size b' = sb_size b" using step by auto
      have "r = of_nat ?n" using s3(1) by (rule word_of_nat_unat)
      then show ?thesis using IH[OF s3(2)] s3(3-5) 3 e lb by (simp add: Remove split_beta Let_def)
    qed
  qed
qed simp

text \<open>
  C13.  The send buffer is a bounded byte FIFO with a sequence number at its head.  From
  the state \<open>SBInit\<close> leaves, any sequence of \<open>SBPut\<close> and \<open>SBRemove\<close> calls returns
  what the specification returns (the number of bytes taken, 0 for an empty request, -2
  when nothing fits or nothing is there), holds exactly the specification's bytes, and
  \<open>head_seq\<close> is the initial sequence number advanced by the bytes removed.
\<close>

theorem send_buffer_refines:
  assumes "length (sb_data buf) = unat (ucast (sbm_chunk_size sbm) :: u32)"
    and "unat (ucast (sbm_chunk_size sbm) :: u32) < 2 ^ 31"
    and "put_small ops"
  shows "(let (rs, b) = sb_run ops (SBReset sbm s buf)
          in (rs, sb_bytes b, sb_head_seq b)) = sb_spec (unat (ucast (sbm_chunk_size sbm) :: u32)) ops [] s"
proof -
  let ?b = "SBReset sbm s buf"
  have b: "sb_inv ?b" "sb_bytes ?b = []" "sb_head_seq ?b = s"
    using SBReset_inv[OF assms(1,2)] by auto
  have sz: "sb_size ?b = ucast (sbm_chunk_size sbm)" by (simp add: SBReset_def)
  show ?thesis using sb_run_refines[OF b(1) assms(3)]
    by (simp add: b sz split_beta prod_eq_iff)
qed

definition sb_demo :: "sb_manager \<times> tcp_send_buffer" where
  "sb_demo = (\<lparr> sbm_chunk_size = 4, sbm_cur_num = 0, sbm_cnum = 1,
      sbm_mp = \<lparr> mp_mem = (\<lambda>_. \<lparr> mc_free_chunks = 0, mc_next = None \<rparr>), mp_freeptr = None,
        mp_free_chunks = 0, mp_total_chunks = 0, mp_chunk_size = 16, mp_type = 0 \<rparr>,
      sbm_freeq = \<lparr> rq_capacity = 1, rq_head = 0, rq_tail = 0, rq_q = [None, None] \<rparr> \<rparr>,
    \<lparr> sb_chunk = 0, sb_data = [0, 0, 0, 0], sb_head = 0, sb_head_off = 0, sb_tail_off = 0, sb_len = 0,
      sb_cum_len = 0, sb_size = 0, sb_head_seq = 0, sb_init_seq = 0 \<rparr>)"

theorem send_buffer_refines_witness:
  "(let (rs, b) = sb_run [Put [1, 2, 3], Remove 2, Put [4, 5, 6, 7]] (SBReset (fst sb_demo) 100 (snd sb_demo))
    in (rs, sb_bytes b, sb_head_seq b)) = ([3, 2, 3], [3, 4, 5, 6], 102)"
proof -
  have sp: "sb_spec 4 [Put [1, 2, 3], Remove 2, Put [4, 5, 6, 7]] [] 100 = ([3, 2, 3], [3, 4, 5, 6], 102)"
    by simp
  have sm: "put_small [Put [1, 2, 3], Remove 2, Put [4, 5, 6, 7]]" by (auto simp: put_small_def)
  have cs: "(ucast (sbm_chunk_size (fst sb_demo)) :: u32) = 4" "length (sb_data (snd sb_demo)) = 4"
    by (simp_all add: sb_demo_def)
  show ?thesis
    using send_buffer_refines[OF _ _ sm, of "snd sb_demo" "fst sb_demo" 100] unfolding cs
    by (simp del: sb_spec.simps sb_run.simps add: sp)
qed

end
