(* ===== verification/Recv_Data.thy ===== *)
theory Recv_Data
  imports Mem_Pool
begin

text \<open>
  The byte store of the TCP ring buffer \<open>tcp_rb.c\<close>: a chain of 1024-byte segments,
  allocated on demand from a chunk pool, addressed by logical offsets.  This theory holds
  the struct, the offset arithmetic, the segment walk and the macro-generated
  \<open>buf_read\<close> / \<open>buf_write\<close>; fragments and the public operations are in
  \<open>Recv_Buffer\<close>.

  Lengths and offsets (\<open>int\<close>, \<open>boff_t\<close>, \<open>loff_t\<close>) are integers here: buffer lengths
  are configured sizes far below \<open>2 ^ 31\<close> and logical offsets count bytes of one
  connection in 64 bits.  An access the C program has no right to (a null segment, an
  index outside a segment or outside the caller's buffer) is the value \<open>None\<close>.
\<close>

section \<open>State\<close>

definition UNITBUFSIZE :: int where "UNITBUFSIZE = 1024"

record tcpbufseg =
  seg_buf :: "u8 list"
  seg_id :: int
  seg_chunk :: nat

record tcpfrag =
  f_empty :: bool
  f_head :: int
  f_tail :: int

text \<open>
  \<open>tcprb_t\<close>.  The pool \<open>mp\<close> is shared by all streams and passed explicitly; segments
  are named by their position in \<open>bufsegs\<close>.
\<close>

record tcprb =
  rb_mode :: nat
  rb_buf_mgmt :: nat
  rb_overlap :: nat
  rb_corr :: int
  rb_metalen :: int
  rb_bufsegs :: "tcpbufseg list"
  rb_lbufsegs :: int
  rb_len :: int
  rb_head :: int
  rb_pile :: int
  rb_frags :: "tcpfrag list"

section \<open>Offsets\<close>

definition loff2boff :: "tcprb \<Rightarrow> int \<Rightarrow> int" where
  "loff2boff rb loff =
     (let woff = loff - rb_head rb in
      if woff < 0 \<or> woff > rb_len rb then -1
      else (loff + rb_corr rb) mod rb_len rb)"

function seq2loff_loop :: "int \<Rightarrow> int \<Rightarrow> int" where
  "seq2loff_loop head off = (if off < head then seq2loff_loop head (off + 0x100000000) else off)"
  by auto
termination by (relation "measure (\<lambda>(head, off). nat (head - off))") auto

declare seq2loff_loop.simps [simp del]

definition seq2loff :: "tcprb \<Rightarrow> u32 \<Rightarrow> u32 \<Rightarrow> int" where
  "seq2loff rb seq isn = seq2loff_loop (rb_head rb) (uint (seq - isn))"

section \<open>Segments\<close>

text \<open>\<open>g\<close> gives the bytes a freshly allocated chunk happens to hold.\<close>

definition bufseg_new :: "mem_pool \<Rightarrow> nat option \<times> mem_pool" where
  "bufseg_new mp = MPAllocateChunk mp"

definition bufseg_del :: "mem_pool \<Rightarrow> tcpbufseg \<Rightarrow> mem_pool" where
  "bufseg_del mp b = MPFreeChunk mp (seg_chunk b)"

definition buf_first ::
  "(nat \<Rightarrow> u8 list) \<Rightarrow> tcprb \<times> mem_pool \<Rightarrow> nat option \<times> tcprb \<times> mem_pool" where
  "buf_first g = (\<lambda>(rb, mp).
     if rb_bufsegs rb \<noteq> [] then (Some 0, rb, mp)
     else if rb_lbufsegs rb = 0 then (None, rb, mp)
     else case bufseg_new mp of
        (None, mp') \<Rightarrow> (None, rb, mp')
      | (Some c, mp') \<Rightarrow>
          (Some 0, rb\<lparr> rb_bufsegs := [\<lparr> seg_buf = g c, seg_id = 0, seg_chunk = c \<rparr>] \<rparr>, mp'))"

definition buf_next ::
  "(nat \<Rightarrow> u8 list) \<Rightarrow> nat \<Rightarrow> tcprb \<times> mem_pool \<Rightarrow> nat option \<times> tcprb \<times> mem_pool" where
  "buf_next g buf = (\<lambda>(rb, mp).
     if buf + 1 < length (rb_bufsegs rb) then (Some (buf + 1), rb, mp)
     else let id = seg_id (rb_bufsegs rb ! buf) in
       if rb_lbufsegs rb \<le> id + 1 then (None, rb, mp)
       else case bufseg_new mp of
          (None, mp') \<Rightarrow> (None, rb, mp')
        | (Some c, mp') \<Rightarrow>
            (Some (length (rb_bufsegs rb)),
             rb\<lparr> rb_bufsegs := rb_bufsegs rb @ [\<lparr> seg_buf = g c, seg_id = id + 1, seg_chunk = c \<rparr>] \<rparr>,
             mp'))"

text \<open>\<open>while (id--) buf = buf_next(rb, buf)\<close>: \<open>None\<close> is a null pointer that is dereferenced.\<close>

fun buf_skip ::
  "(nat \<Rightarrow> u8 list) \<Rightarrow> nat \<Rightarrow> nat option \<times> tcprb \<times> mem_pool \<Rightarrow> (nat \<times> tcprb \<times> mem_pool) option"
where
  "buf_skip g n (None, s) = None"
| "buf_skip g 0 (Some buf, s) = Some (buf, s)"
| "buf_skip g (Suc n) (Some buf, s) = buf_skip g n (buf_next g buf s)"

definition buf_getbuf ::
  "(nat \<Rightarrow> u8 list) \<Rightarrow> int \<Rightarrow> tcprb \<times> mem_pool \<Rightarrow> (nat \<times> tcprb \<times> mem_pool) option" where
  "buf_getbuf g off s = buf_skip g (nat (off div UNITBUFSIZE)) (buf_first g s)"

section \<open>Reading and writing\<close>

text \<open>
  \<open>FUNCDEF_BUF_RW\<close> generates \<open>buf_read\<close> and \<open>buf_write\<close> from one body, which differ
  only in the direction of each \<open>memcpy\<close>.  The body yields the list of the copies it
  makes: \<open>cp_boff\<close> is the offset into the caller's buffer, \<open>cp_seg\<close> and \<open>cp_soff\<close> the
  segment and the offset in it, \<open>cp_n\<close> the number of bytes.
\<close>

record copy =
  cp_boff :: int
  cp_seg :: nat
  cp_soff :: int
  cp_n :: int

text \<open>
  \<open>for (...; bufseg && (bufseg != bufseg_to); bufseg = buf_next(rb, bufseg))\<close>.  Each
  round moves to a later segment, so \<open>lbufsegs\<close> rounds are enough fuel.
\<close>

fun buf_walk ::
  "nat \<Rightarrow> (nat \<Rightarrow> u8 list) \<Rightarrow> nat \<Rightarrow> copy list \<Rightarrow> int \<Rightarrow> nat option \<times> tcprb \<times> mem_pool
    \<Rightarrow> (copy list \<times> int \<times> tcprb \<times> mem_pool) option"
where
  "buf_walk n g to cs off (None, s) = Some (cs, off, s)"
| "buf_walk 0 g to cs off (Some buf, s) = (if buf = to then Some (cs, off, s) else None)"
| "buf_walk (Suc n) g to cs off (Some buf, s) =
     (if buf = to then Some (cs, off, s)
      else buf_walk n g to
             (cs @ [\<lparr> cp_boff = off, cp_seg = buf, cp_soff = 0, cp_n = UNITBUFSIZE \<rparr>])
             (off + UNITBUFSIZE) (buf_next g buf s))"

definition buf_rw ::
  "(nat \<Rightarrow> u8 list) \<Rightarrow> tcprb \<times> mem_pool \<Rightarrow> int \<Rightarrow> int \<Rightarrow> (copy list \<times> tcprb \<times> mem_pool) option" where
  "buf_rw g s len off =
     (let from = loff2boff (fst s) off;
          to = loff2boff (fst s) (off + len);
          fuel = Suc (nat (rb_lbufsegs (fst s)))
      in if from < 0 \<or> to < 0 then None
         else case buf_getbuf g from s of None \<Rightarrow> None | Some (bufseg_from, s1) \<Rightarrow>
         (case buf_getbuf g to s1 of None \<Rightarrow> None | Some (bufseg_to, s2) \<Rightarrow>
           (let n0 = UNITBUFSIZE - from mod UNITBUFSIZE;
                c0 = \<lparr> cp_boff = 0, cp_seg = bufseg_from, cp_soff = from mod UNITBUFSIZE, cp_n = n0 \<rparr>
            in if from > to then
                 (case buf_walk fuel g bufseg_to [c0] n0 (buf_next g bufseg_from s2) of
                    None \<Rightarrow> None
                  | Some (cs, o1, s3) \<Rightarrow>
                     (case buf_walk fuel g bufseg_to cs o1 (buf_first g s3) of
                        None \<Rightarrow> None
                      | Some (cs', o2, s4) \<Rightarrow>
                         Some (cs' @ [\<lparr> cp_boff = o2, cp_seg = bufseg_to, cp_soff = 0,
                                        cp_n = to mod UNITBUFSIZE \<rparr>], s4)))
               else if bufseg_from = bufseg_to then
                 Some ([\<lparr> cp_boff = 0, cp_seg = bufseg_from, cp_soff = from mod UNITBUFSIZE,
                          cp_n = len \<rparr>], s2)
               else
                 (case buf_walk fuel g bufseg_to [c0] n0 (buf_next g bufseg_from s2) of
                    None \<Rightarrow> None
                  | Some (cs, o1, s3) \<Rightarrow>
                     Some (cs @ [\<lparr> cp_boff = o1, cp_seg = bufseg_to, cp_soff = 0,
                                   cp_n = to mod UNITBUFSIZE \<rparr>], s3)))))"

text \<open>One \<open>memcpy\<close> in each direction; it must stay inside the segment and the buffer.\<close>

definition copy_ok :: "u8 list \<Rightarrow> tcpbufseg list \<Rightarrow> copy \<Rightarrow> bool" where
  "copy_ok buf segs c \<longleftrightarrow> 0 \<le> cp_n c \<and> 0 \<le> cp_boff c \<and> 0 \<le> cp_soff c
     \<and> cp_seg c < length segs \<and> cp_boff c + cp_n c \<le> int (length buf)
     \<and> cp_soff c + cp_n c \<le> int (length (seg_buf (segs ! cp_seg c)))"

fun copies_write :: "u8 list \<Rightarrow> copy list \<Rightarrow> tcpbufseg list \<Rightarrow> tcpbufseg list option" where
  "copies_write buf [] segs = Some segs"
| "copies_write buf (c # cs) segs =
     (if \<not> copy_ok buf segs c then None
      else copies_write buf cs
        (segs[cp_seg c := (segs ! cp_seg c)\<lparr> seg_buf :=
           blit (nat (cp_soff c)) (take (nat (cp_n c)) (drop (nat (cp_boff c)) buf))
             (seg_buf (segs ! cp_seg c)) \<rparr>]))"

fun copies_read :: "tcpbufseg list \<Rightarrow> copy list \<Rightarrow> u8 list \<Rightarrow> u8 list option" where
  "copies_read segs [] buf = Some buf"
| "copies_read segs (c # cs) buf =
     (if \<not> copy_ok buf segs c then None
      else copies_read segs cs
        (blit (nat (cp_boff c))
          (take (nat (cp_n c)) (drop (nat (cp_soff c)) (seg_buf (segs ! cp_seg c)))) buf))"

definition buf_write ::
  "(nat \<Rightarrow> u8 list) \<Rightarrow> u8 list \<Rightarrow> int \<Rightarrow> int \<Rightarrow> tcprb \<times> mem_pool \<Rightarrow> (tcprb \<times> mem_pool) option" where
  "buf_write g buf len off s =
     (case buf_rw g s len off of None \<Rightarrow> None
      | Some (cs, rb, mp) \<Rightarrow>
         (case copies_write buf cs (rb_bufsegs rb) of None \<Rightarrow> None
          | Some segs \<Rightarrow> Some (rb\<lparr> rb_bufsegs := segs \<rparr>, mp)))"

definition buf_read ::
  "(nat \<Rightarrow> u8 list) \<Rightarrow> u8 list \<Rightarrow> int \<Rightarrow> int \<Rightarrow> tcprb \<times> mem_pool \<Rightarrow> (u8 list \<times> tcprb \<times> mem_pool) option" where
  "buf_read g buf len off s =
     (case buf_rw g s len off of None \<Rightarrow> None
      | Some (cs, rb, mp) \<Rightarrow>
         (case copies_read (rb_bufsegs rb) cs buf of None \<Rightarrow> None
          | Some buf' \<Rightarrow> Some (buf', rb, mp)))"

section \<open>What a list of copies does to the bytes\<close>

definition phys :: "tcpbufseg list \<Rightarrow> int \<Rightarrow> u8" where
  "phys segs q = seg_buf (segs ! nat (q div 1024)) ! nat (q mod 1024)"

definition segs_1k :: "tcpbufseg list \<Rightarrow> bool" where
  "segs_1k segs \<longleftrightarrow> (\<forall>s \<in> set segs. length (seg_buf s) = 1024)"

text \<open>Consecutive copies: each starts where the last one stopped, cyclically in the ring.\<close>

fun tiles :: "int \<Rightarrow> int \<Rightarrow> int \<Rightarrow> nat \<Rightarrow> copy list \<Rightarrow> bool" where
  "tiles L p b k [] \<longleftrightarrow> True"
| "tiles L p b k (c # cs) \<longleftrightarrow>
     cp_boff c = b \<and> 1024 * int (cp_seg c) + cp_soff c = p \<and> 0 \<le> cp_n c \<and> 0 \<le> cp_soff c
     \<and> cp_soff c + cp_n c \<le> 1024 \<and> p + cp_n c \<le> L \<and> cp_seg c < k
     \<and> tiles L ((p + cp_n c) mod L) (b + cp_n c) k cs"

definition total :: "copy list \<Rightarrow> int" where
  "total cs = sum_list (map cp_n cs)"

lemma total_simps [simp]: "total [] = 0" "total (c # cs) = cp_n c + total cs"
  "total (xs @ ys) = total xs + total ys"
  by (simp_all add: total_def)

lemma tiles_total_nonneg: "tiles L p b k cs \<Longrightarrow> 0 \<le> total cs"
  by (induction L p b k cs rule: tiles.induct) auto

lemma tiles_append:
  "tiles L p b k (xs @ ys) \<longleftrightarrow> tiles L p b k xs \<and>
     (if xs = [] then tiles L p b k ys else tiles L ((p + total xs) mod L) (b + total xs) k ys)"
  by (induction L p b k xs rule: tiles.induct) (auto simp: mod_simps ac_simps)

lemma cyclic_step:
  fixes q p n L t :: int
  assumes "0 \<le> q" "q < L" "0 \<le> p" "p < L" "0 \<le> n" "p + n \<le> L" "n + t \<le> L" "0 \<le> t"
  shows "(q - (p + n) mod L) mod L < t \<longleftrightarrow> n \<le> (q - p) mod L \<and> (q - p) mod L < n + t"
    and "n \<le> (q - p) mod L \<Longrightarrow> (q - (p + n) mod L) mod L = (q - p) mod L - n"
    and "(q - p) mod L < n \<longleftrightarrow> p \<le> q \<and> q < p + n"
    and "p \<le> q \<Longrightarrow> (q - p) mod L = q - p"
proof -
  have L: "0 < L" using assms by simp
  define d where "d = (q - p) mod L"
  have d: "0 \<le> d" "d < L" using L by (auto simp: d_def)
  have e: "(q - (p + n) mod L) mod L = (d - n) mod L"
    by (simp add: d_def mod_simps algebra_simps)
  have small: "n \<le> d \<Longrightarrow> (d - n) mod L = d - n" using d assms by simp
  have big: "d < n \<Longrightarrow> (d - n) mod L = d - n + L"
  proof -
    assume "d < n"
    then have "(d - n + L) mod L = d - n + L" using d assms by (intro mod_pos_pos_trivial) auto
    then show ?thesis by simp
  qed
  show "(q - (p + n) mod L) mod L < t \<longleftrightarrow> n \<le> (q - p) mod L \<and> (q - p) mod L < n + t"
    using small big d assms unfolding e d_def[symmetric] by (cases "n \<le> d") auto
  show "n \<le> (q - p) mod L \<Longrightarrow> (q - (p + n) mod L) mod L = (q - p) mod L - n"
    using small unfolding e d_def[symmetric] by simp
  have lt: "q < p \<Longrightarrow> d = q - p + L"
  proof -
    assume "q < p"
    then have "(q - p + L) mod L = q - p + L" using assms by (intro mod_pos_pos_trivial) auto
    then show ?thesis by (simp add: d_def)
  qed
  show ge: "p \<le> q \<Longrightarrow> (q - p) mod L = q - p" using assms by simp
  show "(q - p) mod L < n \<longleftrightarrow> p \<le> q \<and> q < p + n"
    using lt ge assms unfolding d_def by (cases "p \<le> q") auto
qed

lemma tiles_covers:
  assumes "tiles L p b k cs" "0 \<le> q" "q < L" "0 \<le> p" "p < L" "total cs \<le> L"
    and "(q - p) mod L < total cs"
  shows "\<exists>c \<in> set cs. \<exists>r. q = 1024 * int (cp_seg c) + r \<and> 0 \<le> r \<and> r < 1024 \<and> cp_seg c < k"
  using assms
proof (induction cs arbitrary: p b)
  case Nil
  have "0 \<le> (q - p) mod L" using Nil by (intro pos_mod_sign) simp
  then show ?case using Nil by (simp add: not_less[symmetric])
next
  case (Cons c cs)
  let ?n = "cp_n c"
  have t: "tiles L ((p + ?n) mod L) (b + ?n) k cs" and cn: "0 \<le> ?n" "p + ?n \<le> L" "0 \<le> cp_soff c"
    "cp_soff c + ?n \<le> 1024" "cp_seg c < k" "p = 1024 * int (cp_seg c) + cp_soff c"
    using Cons.prems(1) by auto
  have tn: "0 \<le> total cs" by (rule tiles_total_nonneg[OF t])
  have le: "?n + total cs \<le> L" using Cons.prems by simp
  note cy = cyclic_step[OF Cons.prems(2-5) cn(1,2) le tn]
  show ?case
  proof (cases "(q - p) mod L < ?n")
    case True
    then have "p \<le> q \<and> q < p + ?n" using cy(3) by simp
    then have "q = 1024 * int (cp_seg c) + (cp_soff c + (q - p))" "0 \<le> cp_soff c + (q - p)"
      "cp_soff c + (q - p) < 1024" using cn by auto
    then show ?thesis using cn(5) by (metis list.set_intros(1))
  next
    case False
    then have "(q - (p + ?n) mod L) mod L < total cs" using cy(1) Cons.prems(7) by simp
    then have "\<exists>c \<in> set cs. \<exists>r. q = 1024 * int (cp_seg c) + r \<and> 0 \<le> r \<and> r < 1024 \<and> cp_seg c < k"
      using Cons.IH[OF t Cons.prems(2,3)] le cn(1) Cons.prems(3,5) Cons.prems(2) by simp
    then show ?thesis by auto
  qed
qed

lemma tiles_copy_ok:
  assumes "tiles L p b k (c # cs)" "k \<le> length segs" "segs_1k segs" "0 \<le> b"
    and "b + total (c # cs) \<le> int (length buf)"
  shows "copy_ok buf segs c"
proof -
  have "0 \<le> total cs" using assms(1) tiles_total_nonneg[of L "(p + cp_n c) mod L" "b + cp_n c" k cs] by simp
  then show ?thesis using assms by (auto simp: copy_ok_def segs_1k_def)
qed

lemma div_mod_1024:
  fixes q :: int
  assumes "0 \<le> o'" "o' < 1024"
  shows "(1024 * int i + o') div 1024 = int i" "(1024 * int i + o') mod 1024 = o'"
  using assms by auto

text \<open>One copy into the segments.\<close>

lemma phys_put:
  assumes c: "0 \<le> cp_n c" "0 \<le> cp_soff c" "cp_soff c + cp_n c \<le> 1024" "cp_seg c < length segs"
    and s: "segs_1k segs" and q: "0 \<le> q" and n: "length bytes = nat (cp_n c)"
  defines "segs' \<equiv> segs[cp_seg c := (segs ! cp_seg c)\<lparr> seg_buf :=
           blit (nat (cp_soff c)) bytes (seg_buf (segs ! cp_seg c)) \<rparr>]"
    and "p \<equiv> 1024 * int (cp_seg c) + cp_soff c"
  shows "phys segs' q = (if p \<le> q \<and> q < p + cp_n c then bytes ! nat (q - p) else phys segs q)"
    and "segs_1k segs'"
proof -
  have l: "length (seg_buf (segs ! cp_seg c)) = 1024" using s c by (simp add: segs_1k_def)
  have fit: "nat (cp_soff c) + length bytes \<le> length (seg_buf (segs ! cp_seg c))" using c n l by simp
  show "segs_1k segs'"
    using s fit l by (auto simp: segs'_def segs_1k_def dest!: set_update_subset_insert[THEN subsetD])
  have m: "nat (q mod 1024) < 1024" by simp
  show "phys segs' q = (if p \<le> q \<and> q < p + cp_n c then bytes ! nat (q - p) else phys segs q)"
  proof (cases "nat (q div 1024) = cp_seg c")
    case True
    then have "q = 1024 * int (cp_seg c) + q mod 1024"
      using q by (metis int_nat_eq mult_div_mod_eq pos_imp_zdiv_nonneg_iff zero_less_numeral)
    then have qm: "q - p = q mod 1024 - cp_soff c" by (simp add: p_def)
    have rng: "p \<le> q \<and> q < p + cp_n c \<longleftrightarrow> nat (cp_soff c) \<le> nat (q mod 1024)
        \<and> nat (q mod 1024) < nat (cp_soff c) + length bytes"
      using qm c n by auto
    have ix: "nat (q mod 1024) - nat (cp_soff c) = nat (q - p)" using qm c by simp
    show ?thesis
      using True c(4) fit l m unfolding phys_def segs'_def rng
      by (simp add: nth_blit ix)
  next
    case False
    have "\<not> (p \<le> q \<and> q < p + cp_n c)"
    proof
      assume "p \<le> q \<and> q < p + cp_n c"
      then have "q = 1024 * int (cp_seg c) + (cp_soff c + (q - p))" "0 \<le> cp_soff c + (q - p)"
        "cp_soff c + (q - p) < 1024"
        using c by (auto simp: p_def)
      then have "q div 1024 = int (cp_seg c)" by (metis div_mod_1024(1))
      then show False using False by simp
    qed
    then show ?thesis using False unfolding phys_def segs'_def by auto
  qed
qed

lemma copies_write_effect:
  assumes "tiles L p b k cs" "k \<le> length segs" "segs_1k segs" "0 \<le> b" "0 \<le> p" "p < L"
    and "b + total cs \<le> int (length buf)" "total cs \<le> L"
  shows "\<exists>segs'. copies_write buf cs segs = Some segs' \<and> segs_1k segs' \<and> length segs' = length segs
    \<and> map seg_id segs' = map seg_id segs
    \<and> (\<forall>q. 0 \<le> q \<and> q < L \<longrightarrow> phys segs' q =
          (if (q - p) mod L < total cs then buf ! nat (b + (q - p) mod L) else phys segs q))"
  using assms
proof (induction cs arbitrary: p b segs)
  case Nil
  then have "0 < L" by simp
  then have "\<not> (q - p) mod L < 0" for q by (simp add: not_less)
  then show ?case using Nil by simp
next
  case (Cons c cs)
  let ?n = "cp_n c"
  define bytes where "bytes = take (nat ?n) (drop (nat (cp_boff c)) buf)"
  define s1 where "s1 = segs[cp_seg c := (segs ! cp_seg c)\<lparr> seg_buf :=
           blit (nat (cp_soff c)) bytes (seg_buf (segs ! cp_seg c)) \<rparr>]"
  have ok: "copy_ok buf segs c" using tiles_copy_ok Cons.prems by blast
  have t: "tiles L ((p + ?n) mod L) (b + ?n) k cs" and cb: "cp_boff c = b"
    and cp: "p = 1024 * int (cp_seg c) + cp_soff c"
    and cn: "0 \<le> ?n" "0 \<le> cp_soff c" "cp_soff c + ?n \<le> 1024" "p + ?n \<le> L" "cp_seg c < length segs"
    using Cons.prems by auto
  have tn: "0 \<le> total cs" by (rule tiles_total_nonneg[OF t])
  have lb: "length bytes = nat ?n" using Cons.prems tn cn by (simp add: bytes_def cb)
  have put: "phys s1 q = (if p \<le> q \<and> q < p + ?n then bytes ! nat (q - p) else phys segs q)"
    if "0 \<le> q" for q
    unfolding s1_def cp by (rule phys_put) (use cn Cons.prems lb that in auto)
  have s1: "segs_1k s1" unfolding s1_def by (rule phys_put(2)) (use cn Cons.prems lb in auto)
  have m: "0 \<le> (p + ?n) mod L" "(p + ?n) mod L < L" using Cons.prems by auto
  obtain s2 where s2: "copies_write buf cs s1 = Some s2" "segs_1k s2" "length s2 = length s1"
    "map seg_id s2 = map seg_id s1"
    and eff: "\<And>q. 0 \<le> q \<and> q < L \<Longrightarrow> phys s2 q =
      (if (q - (p + ?n) mod L) mod L < total cs then buf ! nat (b + ?n + (q - (p + ?n) mod L) mod L) else phys s1 q)"
    using Cons.IH[OF t _ s1 _ m] Cons.prems cn tn by (auto simp: s1_def)
  have ids: "map seg_id s1 = map seg_id segs"
    using cn by (simp add: s1_def map_update)
      (metis (no_types) list_update_id map_update nth_map)
  have "phys s2 q = (if (q - p) mod L < total (c # cs) then buf ! nat (b + (q - p) mod L) else phys segs q)"
    if q: "0 \<le> q" "q < L" for q
  proof -
    note cy = cyclic_step[OF q Cons.prems(5,6) cn(1,4), of "total cs"]
    have le: "?n + total cs \<le> L" using Cons.prems by simp
    have byte: "bytes ! nat (q - p) = buf ! nat (b + (q - p) mod L)" if "(q - p) mod L < ?n"
    proof -
      have "p \<le> q" "q < p + ?n" using cy(3)[OF le tn] that by auto
      then have e: "(q - p) mod L = q - p" "nat (q - p) < nat ?n" using cy(4)[OF le tn] by auto
      moreover have "nat b \<le> length buf" using Cons.prems tn cn by simp
      ultimately have "bytes ! nat (q - p) = buf ! (nat b + nat (q - p))"
        using lb by (simp add: bytes_def cb)
      also have "nat b + nat (q - p) = nat (b + (q - p) mod L)"
        using e \<open>p \<le> q\<close> Cons.prems by (simp add: nat_add_distrib)
      finally show ?thesis .
    qed
    show ?thesis
      using eff[of q] put[of q] byte cy(1)[OF le tn] cy(2)[OF le tn] cy(3)[OF le tn] q tn
      by (auto simp: algebra_simps)
  qed
  then show ?case using s2 ok ids by (auto simp: s1_def bytes_def)
qed

lemma copies_read_effect:
  assumes "tiles L p b k cs" "k \<le> length segs" "segs_1k segs" "0 \<le> b" "0 \<le> p" "p < L"
    and "b + total cs \<le> int (length buf)" "total cs \<le> L"
  shows "\<exists>buf'. copies_read segs cs buf = Some buf' \<and> length buf' = length buf
    \<and> (\<forall>i < length buf. buf' ! i =
          (if b \<le> int i \<and> int i < b + total cs then phys segs ((p + (int i - b)) mod L) else buf ! i))"
  using assms
proof (induction cs arbitrary: p b buf)
  case (Cons c cs)
  let ?n = "cp_n c"
  define bytes where "bytes = take (nat ?n) (drop (nat (cp_soff c)) (seg_buf (segs ! cp_seg c)))"
  define b1 where "b1 = blit (nat (cp_boff c)) bytes buf"
  have ok: "copy_ok buf segs c" using tiles_copy_ok Cons.prems by blast
  have t: "tiles L ((p + ?n) mod L) (b + ?n) k cs" and cb: "cp_boff c = b"
    and cp: "p = 1024 * int (cp_seg c) + cp_soff c"
    and cn: "0 \<le> ?n" "0 \<le> cp_soff c" "cp_soff c + ?n \<le> 1024" "p + ?n \<le> L" "cp_seg c < length segs"
    using Cons.prems by auto
  have tn: "0 \<le> total cs" by (rule tiles_total_nonneg[OF t])
  have ls: "length (seg_buf (segs ! cp_seg c)) = 1024" using Cons.prems cn by (simp add: segs_1k_def)
  have lb: "length bytes = nat ?n" using cn ls by (simp add: bytes_def)
  have fit: "nat b + length bytes \<le> length buf" using Cons.prems tn lb cn by simp
  have l1: "length b1 = length buf" using fit by (simp add: b1_def cb)
  have m: "0 \<le> (p + ?n) mod L" "(p + ?n) mod L < L" using Cons.prems by auto
  obtain b2 where b2: "copies_read segs cs b1 = Some b2" "length b2 = length b1"
    and eff: "\<And>i. i < length b1 \<Longrightarrow> b2 ! i = (if b + ?n \<le> int i \<and> int i < b + ?n + total cs
        then phys segs (((p + ?n) mod L + (int i - (b + ?n))) mod L) else b1 ! i)"
    using Cons.IH[OF t Cons.prems(2,3) _ m, of b1] Cons.prems cn tn l1 by auto
  have "b2 ! i = (if b \<le> int i \<and> int i < b + total (c # cs)
      then phys segs ((p + (int i - b)) mod L) else buf ! i)" if i: "i < length buf" for i
  proof -
    have w: "((p + ?n) mod L + (int i - (b + ?n))) mod L = (p + (int i - b)) mod L"
      by (simp add: mod_simps)
    have "b1 ! i = phys segs ((p + (int i - b)) mod L)" if r: "b \<le> int i" "int i < b + ?n"
    proof -
      let ?o = "cp_soff c + (int i - b)"
      have o: "0 \<le> ?o" "?o < 1024" using r cn by auto
      have "p + (int i - b) = 1024 * int (cp_seg c) + ?o" by (simp add: cp)
      moreover have "(p + (int i - b)) mod L = p + (int i - b)"
        using r cn Cons.prems by simp
      ultimately have "phys segs ((p + (int i - b)) mod L) = seg_buf (segs ! cp_seg c) ! nat ?o"
        unfolding phys_def by (simp only: div_mod_1024[OF o]) simp
      moreover have "b1 ! i = bytes ! (i - nat b)"
        unfolding b1_def cb by (subst nth_blit[OF fit i]) (use r lb Cons.prems in auto)
      moreover have "i - nat b < nat ?n" "nat (cp_soff c) + (i - nat b) = nat ?o"
        using r cn Cons.prems by auto
      moreover have "nat (cp_soff c) \<le> length (seg_buf (segs ! cp_seg c))" using ls cn by simp
      ultimately show ?thesis by (simp add: bytes_def nth_drop)
    qed
    moreover have "b1 ! i = buf ! i" if "\<not> (b \<le> int i \<and> int i < b + ?n)"
      unfolding b1_def cb by (subst nth_blit[OF fit i]) (use that lb Cons.prems cn in auto)
    ultimately show ?thesis using eff[of i] i l1 w cn tn by auto
  qed
  then show ?case using b2 l1 ok by (auto simp: b1_def bytes_def)
qed auto

section \<open>Growing the segment chain\<close>

text \<open>
  Every segment the walk needs exists or can be allocated: the pool has enough free
  chunks for the segments still missing, and fresh chunks are 1024 bytes long.
\<close>

definition chain_ok :: "(nat \<Rightarrow> u8 list) \<Rightarrow> tcprb \<times> mem_pool \<Rightarrow> bool" where
  "chain_ok g s \<longleftrightarrow> (let segs = rb_bufsegs (fst s); lb = nat (rb_lbufsegs (fst s)) in
     length segs \<le> lb \<and> 0 < lb \<and> segs_1k segs
     \<and> map seg_id segs = map int [0..<length segs]
     \<and> int (lb - length segs) \<le> mp_free_chunks (snd s)
     \<and> (\<forall>c. length (g c) = 1024))"

text \<open>The chain only got longer.\<close>

definition grown :: "tcprb \<times> mem_pool \<Rightarrow> tcprb \<times> mem_pool \<Rightarrow> bool" where
  "grown s s' \<longleftrightarrow> (\<exists>ext. fst s' = (fst s)\<lparr> rb_bufsegs := rb_bufsegs (fst s) @ ext \<rparr>)"

lemma grown_refl [simp]: "grown s s"
  by (auto simp: grown_def intro!: exI[of _ "[]"])

lemma grown_trans: "grown s s' \<Longrightarrow> grown s' s'' \<Longrightarrow> grown s s''"
  by (auto simp: grown_def)

lemma grown_same:
  "grown s s' \<Longrightarrow> rb_lbufsegs (fst s') = rb_lbufsegs (fst s) \<and> rb_len (fst s') = rb_len (fst s)
    \<and> rb_head (fst s') = rb_head (fst s) \<and> rb_corr (fst s') = rb_corr (fst s)
    \<and> length (rb_bufsegs (fst s)) \<le> length (rb_bufsegs (fst s'))
    \<and> fst s' = (fst s)\<lparr> rb_bufsegs := rb_bufsegs (fst s') \<rparr>"
  by (auto simp: grown_def)

lemma MPAllocateChunk_Some:
  assumes "mp_free_chunks mp \<noteq> 0"
  shows "\<exists>c. fst (MPAllocateChunk mp) = Some c
    \<and> mp_free_chunks (snd (MPAllocateChunk mp)) = mp_free_chunks mp - 1"
  using assms by (auto simp: MPAllocateChunk_def Let_def)

lemma buf_first_step:
  assumes ok: "chain_ok g s"
  shows "\<exists>s'. buf_first g s = (Some 0, s') \<and> chain_ok g s' \<and> grown s s'
    \<and> 0 < length (rb_bufsegs (fst s'))"
proof (cases "rb_bufsegs (fst s) = []")
  case False
  then show ?thesis using ok by (cases s) (auto simp: buf_first_def)
next
  case True
  obtain rb mp where s: "s = (rb, mp)" by fastforce
  have lb: "0 < nat (rb_lbufsegs rb)" "int (nat (rb_lbufsegs rb)) \<le> mp_free_chunks mp"
    using ok True by (auto simp: chain_ok_def Let_def s)
  then obtain c where c: "fst (MPAllocateChunk mp) = Some c"
    "mp_free_chunks (snd (MPAllocateChunk mp)) = mp_free_chunks mp - 1"
    using MPAllocateChunk_Some[of mp] by force
  let ?s' = "(rb\<lparr> rb_bufsegs := [\<lparr> seg_buf = g c, seg_id = 0, seg_chunk = c \<rparr>] \<rparr>, snd (MPAllocateChunk mp))"
  have "buf_first g s = (Some 0, ?s')"
    using True c lb by (cases "MPAllocateChunk mp") (auto simp: buf_first_def s bufseg_new_def)
  moreover have "chain_ok g ?s'"
    using ok True c lb by (auto simp: chain_ok_def Let_def s segs_1k_def)
  ultimately show ?thesis using True by (auto simp: grown_def s)
qed

lemma buf_next_step:
  assumes ok: "chain_ok g s" and i: "i < length (rb_bufsegs (fst s))"
  shows "if Suc i < nat (rb_lbufsegs (fst s))
    then \<exists>s'. buf_next g i s = (Some (Suc i), s') \<and> chain_ok g s' \<and> grown s s'
           \<and> Suc i < length (rb_bufsegs (fst s'))
    else buf_next g i s = (None, s)"
proof -
  obtain rb mp where s: "s = (rb, mp)" by fastforce
  have ids: "map seg_id (rb_bufsegs rb) = map int [0..<length (rb_bufsegs rb)]"
    and lb: "length (rb_bufsegs rb) \<le> nat (rb_lbufsegs rb)"
    using ok by (auto simp: chain_ok_def Let_def s)
  have id: "seg_id (rb_bufsegs rb ! i) = int i"
    using i ids by (metis add_0 diff_zero fst_conv length_upt nth_map nth_upt s)
  consider "Suc i < length (rb_bufsegs rb)" | "Suc i = length (rb_bufsegs rb)" "Suc i < nat (rb_lbufsegs rb)"
    | "Suc i = length (rb_bufsegs rb)" "Suc i = nat (rb_lbufsegs rb)"
    using i lb by (fastforce simp: s)
  then show ?thesis
  proof cases
    case 1
    then show ?thesis using ok lb by (simp add: buf_next_def s)
  next
    case 2
    have "mp_free_chunks mp \<noteq> 0" using ok 2 by (auto simp: chain_ok_def Let_def s)
    then obtain c where c: "fst (MPAllocateChunk mp) = Some c"
      "mp_free_chunks (snd (MPAllocateChunk mp)) = mp_free_chunks mp - 1"
      using MPAllocateChunk_Some[of mp] by blast
    let ?s' = "(rb\<lparr> rb_bufsegs := rb_bufsegs rb @ [\<lparr> seg_buf = g c, seg_id = int i + 1, seg_chunk = c \<rparr>] \<rparr>,
      snd (MPAllocateChunk mp))"
    have "buf_next g i s = (Some (Suc i), ?s')"
      using 2 c id by (cases "MPAllocateChunk mp") (auto simp: buf_next_def s bufseg_new_def Let_def)
    moreover have "chain_ok g ?s'"
      using ok 2 c ids by (auto simp: chain_ok_def Let_def s segs_1k_def)
    ultimately show ?thesis using 2 by (auto simp: grown_def s)
  next
    case 3
    then have "rb_lbufsegs rb = int (Suc i)" by linarith
    then show ?thesis using 3 id by (simp add: buf_next_def s Let_def)
  qed
qed

section \<open>The copies of one read or write\<close>

definition wcopy :: "int \<Rightarrow> nat \<Rightarrow> nat \<Rightarrow> copy" where
  "wcopy off i k = \<lparr> cp_boff = off + 1024 * (int k - int i), cp_seg = k, cp_soff = 0, cp_n = 1024 \<rparr>"

lemma wcopy_Suc: "wcopy (off + 1024) (Suc i) = wcopy off i"
  by (auto simp: wcopy_def fun_eq_iff)

lemma total_wcopy: "i \<le> e \<Longrightarrow> total (map (wcopy off i) [i..<e]) = 1024 * (int e - int i)"
  by (induction e) (auto simp: total_def wcopy_def le_Suc_eq)

lemma tiles_wcopy:
  assumes "i \<le> e" "1024 * int e \<le> L" "e \<le> k"
  shows "tiles L (1024 * int i) b k (map (wcopy b i) [i..<e])"
  using assms
proof (induction "e - i" arbitrary: i b)
  case (Suc n)
  then have up: "[i..<e] = i # [Suc i..<e]" by (simp add: upt_conv_Cons)
  have "tiles L (1024 * int (Suc i)) (b + 1024) k (map (wcopy (b + 1024) (Suc i)) [Suc i..<e])"
    using Suc by (intro Suc.hyps(1)) auto
  moreover have "[Suc i..<e] = [] \<or> 1024 * int (Suc i) < L" using Suc.prems by auto
  ultimately have "tiles L ((1024 * int i + 1024) mod L) (b + 1024) k (map (wcopy b i) [Suc i..<e])"
    unfolding wcopy_Suc by (auto simp: algebra_simps)
  moreover have "1024 * int i + 1024 \<le> L" "i < k" using Suc by auto
  ultimately show ?case by (simp add: up) (simp add: wcopy_def)
qed simp

lemma tiles_wcopy_mod:
  assumes "i \<le> e" "1024 * int e \<le> L" "e \<le> k"
  shows "tiles L ((1024 * int i) mod L) b k (map (wcopy b i) [i..<e])"
proof (cases "i = e")
  case False
  then have "1024 * int i < L" using assms by auto
  then show ?thesis using tiles_wcopy[OF assms] by simp
qed simp

lemma tiles_wcopies_last:
  assumes "i \<le> e" "e < k" "1024 * int e + n \<le> L" "0 \<le> n" "n < 1024" "1024 * int e < L"
    and "b' = b + 1024 * (int e - int i)"
  shows "tiles L ((1024 * int i) mod L) b k
      (map (wcopy b i) [i..<e] @ [\<lparr> cp_boff = b', cp_seg = e, cp_soff = 0, cp_n = n \<rparr>])"
  using assms tiles_wcopy_mod[of i e L k b]
  by (auto simp: tiles_append total_wcopy mod_simps algebra_simps)

lemma chain_ok_length: "chain_ok g s \<Longrightarrow> length (rb_bufsegs (fst s)) \<le> nat (rb_lbufsegs (fst s))"
  by (auto simp: chain_ok_def Let_def)

lemma buf_walk_spec:
  assumes "chain_ok g s" "to < length (rb_bufsegs (fst s))"
    and "i \<le> nat (rb_lbufsegs (fst s))"
    and "cur = (if i < nat (rb_lbufsegs (fst s)) then Some i else None)"
    and "i < nat (rb_lbufsegs (fst s)) \<longrightarrow> i < length (rb_bufsegs (fst s))"
    and "e = (if i \<le> to then to else nat (rb_lbufsegs (fst s)))"
    and "e - i \<le> n"
  shows "\<exists>s'. buf_walk n g to cs off (cur, s)
      = Some (cs @ map (wcopy off i) [i..<e], off + 1024 * (int e - int i), s')
    \<and> chain_ok g s' \<and> grown s s' \<and> (i < e \<longrightarrow> e \<le> length (rb_bufsegs (fst s')))"
  using assms
proof (induction n arbitrary: i cs off s cur)
  case 0
  have "length (rb_bufsegs (fst s)) \<le> nat (rb_lbufsegs (fst s))" by (rule chain_ok_length[OF 0(1)])
  then have "i = e" using 0 by (auto split: if_splits)
  moreover have "buf_walk 0 g to cs off (cur, s) = Some (cs, off, s)"
  proof (cases "i < nat (rb_lbufsegs (fst s))")
    case True
    then have "i = to" using 0(6) \<open>i = e\<close> by (metis less_irrefl)
    moreover have "cur = Some i" using 0(4) True by simp
    ultimately show ?thesis by simp
  next
    case False then show ?thesis using 0(4) by simp
  qed
  ultimately show ?case using 0(1) by auto
next
  case (Suc n)
  let ?lb = "nat (rb_lbufsegs (fst s))"
  have le: "length (rb_bufsegs (fst s)) \<le> ?lb" by (rule chain_ok_length[OF Suc.prems(1)])
  show ?case
  proof (cases "i = e")
    case True
    then have "buf_walk (Suc n) g to cs off (cur, s) = Some (cs, off, s)"
    proof (cases "i < ?lb")
      case T: True
      then have "i = to" using Suc.prems(6) True by (metis less_irrefl)
      moreover have "cur = Some i" using Suc.prems(4) T by simp
      ultimately show ?thesis by simp
    next
      case False then show ?thesis using Suc.prems(4) by simp
    qed
    then show ?thesis using True Suc.prems(1) by auto
  next
    case False
    then have i: "i < ?lb" "i \<noteq> to" "i < length (rb_bufsegs (fst s))" "i < e" "cur = Some i"
      using Suc.prems le by (auto split: if_splits)
    obtain cur' s1 where n1: "buf_next g i s = (cur', s1)" by (rule prod.exhaust)
    have s1: "chain_ok g s1" "grown s s1" "cur' = (if Suc i < ?lb then Some (Suc i) else None)"
      "Suc i < ?lb \<longrightarrow> Suc i < length (rb_bufsegs (fst s1))"
      using buf_next_step[OF Suc.prems(1) i(3)] n1 Suc.prems(1) by (auto split: if_splits)
    have lb1: "nat (rb_lbufsegs (fst s1)) = ?lb" and len1: "length (rb_bufsegs (fst s)) \<le> length (rb_bufsegs (fst s1))"
      using grown_same[OF s1(2)] by auto
    have "\<exists>s'. buf_walk n g to (cs @ [wcopy off i i]) (off + 1024) (cur', s1)
      = Some ((cs @ [wcopy off i i]) @ map (wcopy (off + 1024) (Suc i)) [Suc i..<e],
          off + 1024 + 1024 * (int e - int (Suc i)), s')
      \<and> chain_ok g s' \<and> grown s1 s' \<and> (Suc i < e \<longrightarrow> e \<le> length (rb_bufsegs (fst s')))"
      using s1 lb1 len1 Suc.prems i by (intro Suc.IH) auto
    then obtain s' where s': "buf_walk n g to (cs @ [wcopy off i i]) (off + 1024) (cur', s1)
      = Some ((cs @ [wcopy off i i]) @ map (wcopy off i) [Suc i..<e],
          off + 1024 + 1024 * (int e - int (Suc i)), s')"
      "chain_ok g s'" "grown s1 s'" "Suc i < e \<longrightarrow> e \<le> length (rb_bufsegs (fst s'))"
      unfolding wcopy_Suc by blast
    have el: "e \<le> length (rb_bufsegs (fst s'))"
      using s'(4) i len1 grown_same[OF s'(3)] by (cases "Suc i < e") auto
    have "buf_walk (Suc n) g to cs off (cur, s) = buf_walk n g to (cs @ [wcopy off i i]) (off + 1024) (cur', s1)"
      using i n1 by (simp add: wcopy_def UNITBUFSIZE_def)
    then show ?thesis
      using s'(1-3) el grown_trans[OF s1(2) s'(3)] i by (auto simp: upt_conv_Cons algebra_simps)
  qed
qed

lemma buf_skip_spec:
  assumes "chain_ok g s" "i < length (rb_bufsegs (fst s))" "i + n < nat (rb_lbufsegs (fst s))"
  shows "\<exists>s'. buf_skip g n (Some i, s) = Some (i + n, s') \<and> chain_ok g s' \<and> grown s s'
    \<and> i + n < length (rb_bufsegs (fst s'))"
  using assms
proof (induction n arbitrary: i s)
  case (Suc n)
  obtain s1 where s1: "buf_next g i s = (Some (Suc i), s1)" "chain_ok g s1" "grown s s1"
    "Suc i < length (rb_bufsegs (fst s1))"
    using buf_next_step[OF Suc.prems(1,2)] Suc.prems(3) by auto
  have "Suc i + n < nat (rb_lbufsegs (fst s1))" using Suc.prems(3) grown_same[OF s1(3)] by simp
  from Suc.IH[OF s1(2,4) this] show ?case using s1 grown_trans by (fastforce simp: s1(1))
qed auto

lemma buf_getbuf_spec:
  assumes "chain_ok g s" "0 \<le> off" "off < 1024 * rb_lbufsegs (fst s)"
  shows "\<exists>s'. buf_getbuf g off s = Some (nat (off div 1024), s') \<and> chain_ok g s' \<and> grown s s'
    \<and> nat (off div 1024) < length (rb_bufsegs (fst s'))"
proof -
  obtain s1 where s1: "buf_first g s = (Some 0, s1)" "chain_ok g s1" "grown s s1"
    "0 < length (rb_bufsegs (fst s1))"
    using buf_first_step[OF assms(1)] by auto
  have "nat (off div 1024) < nat (rb_lbufsegs (fst s1))"
    using assms grown_same[OF s1(3)] by simp
  then show ?thesis
    using buf_skip_spec[OF s1(2,4), of "nat (off div 1024)"] s1 grown_trans
    by (fastforce simp: buf_getbuf_def UNITBUFSIZE_def)
qed

text \<open>
  The window condition under which the offsets are translated, and the copies of one call:
  they tile the ring from the physical position of \<open>off\<close> and cover \<open>len\<close> bytes.
\<close>

definition window :: "tcprb \<Rightarrow> int \<Rightarrow> int \<Rightarrow> bool" where
  "window rb off len \<longleftrightarrow> rb_head rb \<le> off \<and> off + len \<le> rb_head rb + rb_len rb
     \<and> 0 \<le> rb_head rb \<and> rb_corr rb = 0 \<and> rb_len rb = 1024 * rb_lbufsegs rb"

lemma tiles_first:
  assumes "0 \<le> fr" "fr < L" "int i = fr div 1024" "i < k" "1024 * int (Suc i) \<le> L"
  shows "tiles L fr b k [\<lparr> cp_boff = b, cp_seg = i, cp_soff = fr mod 1024, cp_n = 1024 - fr mod 1024 \<rparr>]"
    and "fr + (1024 - fr mod 1024) = 1024 * int (Suc i)"
  using assms minus_mod_eq_mult_div[of fr 1024] by auto

lemma buf_rw_tiles:
  assumes ok: "chain_ok g s" and w: "window (fst s) off len" and len: "0 < len" "len < rb_len (fst s)"
  shows "\<exists>cs s'. buf_rw g s len off = Some (cs, s') \<and> chain_ok g s' \<and> grown s s'
    \<and> tiles (rb_len (fst s)) (off mod rb_len (fst s)) 0 (length (rb_bufsegs (fst s'))) cs \<and> total cs = len"
proof -
  let ?L = "rb_len (fst s)"
  define lb where "lb = nat (rb_lbufsegs (fst s))"
  define fr where "fr = off mod ?L"
  define tp where "tp = (off + len) mod ?L"
  have L: "0 < ?L" "?L = 1024 * int lb" using ok w by (auto simp: chain_ok_def Let_def window_def lb_def)
  have L3: "?L = 1024 * rb_lbufsegs (fst s)" using w by (simp add: window_def)
  have ft: "loff2boff (fst s) off = fr" "loff2boff (fst s) (off + len) = tp"
    using w len by (auto simp: loff2boff_def Let_def window_def fr_def tp_def)
  have bnd: "0 \<le> fr" "fr < ?L" "0 \<le> tp" "tp < ?L" using L by (auto simp: fr_def tp_def)
  have tp_eq: "tp = (if fr + len < ?L then fr + len else fr + len - ?L)"
  proof -
    have tp: "tp = (fr + len) mod ?L" unfolding tp_def fr_def by (rule mod_add_left_eq[symmetric])
    show ?thesis
    proof (cases "fr + len < ?L")
      case True
      then show ?thesis unfolding tp using bnd(1) len(1) by (simp add: mod_pos_pos_trivial)
    next
      case False
      have "(fr + len) mod ?L = (fr + len - ?L) mod ?L" by (rule minus_mod_self2[symmetric])
      also have "\<dots> = fr + len - ?L" using False bnd(2) len(2) by (intro mod_pos_pos_trivial) auto
      finally show ?thesis using False tp by simp
    qed
  qed
  define i where "i = nat (fr div 1024)"
  define t where "t = nat (tp div 1024)"
  obtain s1 where s1: "buf_getbuf g fr s = Some (i, s1)" "chain_ok g s1" "grown s s1"
    "i < length (rb_bufsegs (fst s1))"
    using buf_getbuf_spec[OF ok bnd(1)] bnd(2) L3 unfolding i_def by metis
  have lb1: "rb_lbufsegs (fst s1) = rb_lbufsegs (fst s)" using grown_same[OF s1(3)] by simp
  obtain s2 where s2: "buf_getbuf g tp s1 = Some (t, s2)" "chain_ok g s2" "grown s1 s2"
    "t < length (rb_bufsegs (fst s2))"
    using buf_getbuf_spec[OF s1(2) bnd(3)] bnd(4) L3 lb1 unfolding t_def by metis
  have lb2: "rb_lbufsegs (fst s2) = rb_lbufsegs (fst s)" and i2: "i < length (rb_bufsegs (fst s2))"
    using grown_same[OF s2(3)] lb1 s1(4) by auto
  have g2: "grown s s2" using grown_trans s1(3) s2(3) by blast
  have ii: "int i = fr div 1024" "int t = tp div 1024" using bnd by (auto simp: i_def t_def)
  have ilb: "i < lb" "t < lb" using i2 s2(4) chain_ok_length[OF s2(2)] lb2 by (auto simp: lb_def)
  have si: "1024 * int (Suc i) \<le> ?L" using ilb L by simp
  define c0 where "c0 = \<lparr> cp_boff = 0, cp_seg = i, cp_soff = fr mod 1024, cp_n = 1024 - fr mod 1024 \<rparr>"
  note first = tiles_first(1)[OF bnd(1,2) ii(1) _ si, where b = 0, folded c0_def]
  have tc0: "total [c0] = 1024 - fr mod 1024" by (simp add: c0_def)
  note step0 = tiles_first(2)[OF bnd(1,2) ii(1) i2 si]
  let ?n0 = "1024 - fr mod 1024"
  obtain cur s3 where nx: "buf_next g i s2 = (cur, s3)" by (rule prod.exhaust)
  have s3: "chain_ok g s3" "grown s2 s3" "cur = (if Suc i < lb then Some (Suc i) else None)"
    "Suc i < lb \<longrightarrow> Suc i < length (rb_bufsegs (fst s3))"
    using buf_next_step[OF s2(2) i2] nx s2(2) lb2 by (auto simp: lb_def split: if_splits)
  have lb3: "rb_lbufsegs (fst s3) = rb_lbufsegs (fst s)" and t3: "t < length (rb_bufsegs (fst s3))"
    and i3: "i < length (rb_bufsegs (fst s3))"
    using grown_same[OF s3(2)] lb2 s2(4) i2 by auto
  define e where "e = (if Suc i \<le> t then t else lb)"
  have e: "Suc i \<le> e" "e \<le> lb" using ilb by (auto simp: e_def)
  have "\<exists>s'. buf_walk (Suc lb) g t [c0] ?n0 (cur, s3)
      = Some ([c0] @ map (wcopy ?n0 (Suc i)) [Suc i..<e], ?n0 + 1024 * (int e - int (Suc i)), s')
      \<and> chain_ok g s' \<and> grown s3 s' \<and> (Suc i < e \<longrightarrow> e \<le> length (rb_bufsegs (fst s')))"
  proof (rule buf_walk_spec[OF s3(1) t3], unfold lb3 lb_def[symmetric], goal_cases)
    case 1 show ?case using ilb by simp
  next
    case 2 show ?case by (rule s3(3))
  next
    case 3 show ?case by (rule s3(4))
  next
    case 4 show ?case by (rule e_def)
  next
    case 5 show ?case using e by simp
  qed
  then obtain s4 where s4: "buf_walk (Suc lb) g t [c0] ?n0 (cur, s3)
      = Some ([c0] @ map (wcopy ?n0 (Suc i)) [Suc i..<e], ?n0 + 1024 * (int e - int (Suc i)), s4)"
    "chain_ok g s4" "grown s3 s4" "Suc i < e \<longrightarrow> e \<le> length (rb_bufsegs (fst s4))" by blast
  have g4: "grown s s4" using grown_trans g2 s3(2) s4(3) by blast
  have lt: "?L - fr \<le> len \<longleftrightarrow> tp < fr" and tpe: "tp < fr \<Longrightarrow> tp = fr + len - ?L" "fr \<le> tp \<Longrightarrow> tp = fr + len"
    using tp_eq bnd len by (auto split: if_splits)
  have tdm: "1024 * int t + tp mod 1024 = tp" using ii(2) by simp
  have fdm: "1024 * int i + fr mod 1024 = fr" using ii(1) by simp
  have pre: "buf_rw g s len off = (if tp < fr then
         (case buf_walk (Suc lb) g t [c0] ?n0 (cur, s3) of None \<Rightarrow> None
          | Some (cs, o1, s3) \<Rightarrow>
             (case buf_walk (Suc lb) g t cs o1 (buf_first g s3) of None \<Rightarrow> None
              | Some (cs', o2, s4) \<Rightarrow>
                 Some (cs' @ [\<lparr> cp_boff = o2, cp_seg = t, cp_soff = 0, cp_n = tp mod 1024 \<rparr>], s4)))
       else if i = t then
         Some ([\<lparr> cp_boff = 0, cp_seg = i, cp_soff = fr mod 1024, cp_n = len \<rparr>], s2)
       else (case buf_walk (Suc lb) g t [c0] ?n0 (cur, s3) of None \<Rightarrow> None
          | Some (cs, o1, s3) \<Rightarrow>
             Some (cs @ [\<lparr> cp_boff = o1, cp_seg = t, cp_soff = 0, cp_n = tp mod 1024 \<rparr>], s3)))"
    using bnd(1,3) unfolding buf_rw_def Let_def ft s1(1) s2(1) lb_def[symmetric] UNITBUFSIZE_def
    by (simp add: c0_def nx s2(1))
  consider "tp < fr" | "fr \<le> tp" "i = t" | "fr \<le> tp" "i < t"
    using ii zdiv_mono1[of fr tp 1024] by fastforce
  then show ?thesis
  proof cases
    case 1
    have ti: "t \<le> i" using 1 ii zdiv_mono1[of tp fr 1024] by simp
    then have e_lb: "e = lb" by (simp add: e_def)
    obtain s5 where s5: "buf_first g s4 = (Some 0, s5)" "chain_ok g s5" "grown s4 s5" "0 < length (rb_bufsegs (fst s5))"
      using buf_first_step[OF s4(2)] by blast
    have lb5: "rb_lbufsegs (fst s5) = rb_lbufsegs (fst s)" and t5: "t < length (rb_bufsegs (fst s5))"
      using grown_same[OF s5(3)] grown_same[OF s4(3)] lb3 t3 by auto
    define cs1 where "cs1 = c0 # map (wcopy ?n0 (Suc i)) [Suc i..<lb]"
    define o1 where "o1 = ?n0 + 1024 * (int lb - int (Suc i))"
    have "\<exists>s'. buf_walk (Suc lb) g t cs1 o1 (Some 0, s5)
        = Some (cs1 @ map (wcopy o1 0) [0..<t], o1 + 1024 * (int t - int 0), s')
        \<and> chain_ok g s' \<and> grown s5 s' \<and> (0 < t \<longrightarrow> t \<le> length (rb_bufsegs (fst s')))"
    proof (rule buf_walk_spec[OF s5(2) t5], unfold lb5 lb_def[symmetric], goal_cases)
      case 1 show ?case by simp
    next
      case 2 show ?case using ilb by simp
    next
      case 3 show ?case using s5(4) by simp
    next
      case 4 show ?case by simp
    next
      case 5 show ?case using ilb by simp
    qed
    then obtain s6 where s6: "buf_walk (Suc lb) g t cs1 o1 (Some 0, s5)
        = Some (cs1 @ map (wcopy o1 0) [0..<t], o1 + 1024 * int t, s6)"
      "chain_ok g s6" "grown s5 s6" by auto
    define k where "k = length (rb_bufsegs (fst s6))"
    have kt: "t < k" "i < k" "Suc i \<le> lb \<longrightarrow> Suc i < lb \<longrightarrow> lb \<le> k"
      using grown_same[OF s6(3)] grown_same[OF s5(3)] grown_same[OF s4(3)] t5 i3 s4(4) e_lb
      by (auto simp: k_def)
    have klb: "lb \<le> k" using kt ilb by (cases "Suc i < lb") auto
    have c1: "tiles ?L fr 0 k cs1"
    proof -
      have "tiles ?L ((1024 * int (Suc i)) mod ?L) ?n0 k (map (wcopy ?n0 (Suc i)) [Suc i..<lb])"
        using L ilb klb by (intro tiles_wcopy_mod) auto
      then have "tiles ?L fr 0 k ([c0] @ map (wcopy ?n0 (Suc i)) [Suc i..<lb])"
        unfolding tiles_append tc0 step0 using first[OF kt(2)] by simp
      then show ?thesis by (simp add: cs1_def)
    qed
    have tot1: "total cs1 = ?L - fr"
      using ilb L step0 by (simp add: cs1_def total_wcopy) (simp add: c0_def)
    have o1: "o1 = total cs1" using ilb by (simp add: o1_def cs1_def total_wcopy) (simp add: c0_def)
    let ?last = "\<lparr> cp_boff = o1 + 1024 * int t, cp_seg = t, cp_soff = 0, cp_n = tp mod 1024 \<rparr>"
    have "tiles ?L ((1024 * int 0) mod ?L) o1 k (map (wcopy o1 0) [0..<t] @ [?last])"
      using kt ilb bnd tdm by (intro tiles_wcopies_last) auto
    moreover have "(fr + total cs1) mod ?L = (1024 * int 0) mod ?L" using tot1 by simp
    moreover have "cs1 \<noteq> []" by (simp add: cs1_def)
    ultimately have "tiles ?L fr 0 k (cs1 @ map (wcopy o1 0) [0..<t] @ [?last])"
      unfolding tiles_append[of _ _ _ _ cs1] using c1 o1 by simp
    moreover have "total (cs1 @ map (wcopy o1 0) [0..<t] @ [?last]) = len"
      using tot1 tdm tpe(1)[OF 1] by (simp add: total_wcopy)
    moreover have "buf_rw g s len off = Some ((cs1 @ map (wcopy o1 0) [0..<t]) @ [?last], s6)"
      unfolding pre using 1 s4(1) s5(1) s6(1) by (simp add: e_lb cs1_def o1_def)
    ultimately show ?thesis
      using s6(2) grown_trans[OF g4 grown_trans[OF s5(3) s6(3)]] unfolding fr_def k_def by auto
  next
    case 2
    have "fr mod 1024 + len \<le> 1024"
    proof -
      have "tp mod 1024 < 1024" by simp
      moreover have "int i = int t" using 2(2) by simp
      ultimately show ?thesis using tdm fdm tpe(2)[OF 2(1)] by linarith
    qed
    then have "tiles ?L fr 0 (length (rb_bufsegs (fst s2)))
        [\<lparr> cp_boff = 0, cp_seg = i, cp_soff = fr mod 1024, cp_n = len \<rparr>]"
      using fdm len i2 tpe(2)[OF 2(1)] bnd by simp
    moreover have "buf_rw g s len off = Some ([\<lparr> cp_boff = 0, cp_seg = i, cp_soff = fr mod 1024, cp_n = len \<rparr>], s2)"
      unfolding pre using 2 by simp
    ultimately show ?thesis using s2(2) g2 unfolding fr_def by fastforce
  next
    case 3
    then have et: "e = t" by (simp add: e_def)
    define k where "k = length (rb_bufsegs (fst s4))"
    have k: "t < k" "i < k" using grown_same[OF s4(3)] t3 i3 by (auto simp: k_def)
    define o1 where "o1 = ?n0 + 1024 * (int t - int (Suc i))"
    let ?last = "\<lparr> cp_boff = o1, cp_seg = t, cp_soff = 0, cp_n = tp mod 1024 \<rparr>"
    let ?cs = "[c0] @ map (wcopy ?n0 (Suc i)) [Suc i..<t] @ [?last]"
    have "tiles ?L ((1024 * int (Suc i)) mod ?L) ?n0 k (map (wcopy ?n0 (Suc i)) [Suc i..<t] @ [?last])"
      using k 3 bnd tdm by (intro tiles_wcopies_last) (auto simp: o1_def)
    then have "tiles ?L fr 0 k ?cs"
      unfolding tiles_append[of _ _ _ _ "[c0]"] tc0 step0 using first[OF k(2)] by simp
    moreover have "total ?cs = len"
      using 3 step0 tdm tpe(2)[OF 3(1)] by (simp add: total_wcopy) (simp add: c0_def)
    moreover have "buf_rw g s len off = Some (?cs, s4)"
      unfolding pre using 3 s4(1) by (simp add: et o1_def)
    ultimately show ?thesis using s4(2) g4 unfolding fr_def k_def by blast
  qed
qed

section \<open>Reading back what was written\<close>

text \<open>The byte stored at a logical offset; null while its segment is not allocated.\<close>

definition stored :: "tcprb \<Rightarrow> int \<Rightarrow> u8 option" where
  "stored rb off = (let q = off mod rb_len rb in
     if nat (q div 1024) < length (rb_bufsegs rb) then Some (phys (rb_bufsegs rb) q) else None)"

lemma stored_grown:
  assumes "grown s s'" "stored (fst s) off = Some x"
  shows "stored (fst s') off = Some x"
  using assms by (auto simp: grown_def stored_def Let_def phys_def nth_append split: if_splits)

lemma window_mod:
  fixes off len h L o' :: int
  assumes "h \<le> off" "off + len \<le> h + L" "h \<le> o'" "o' < h + L" "0 < L" "0 \<le> len"
  shows "(o' mod L - off mod L) mod L < len \<longleftrightarrow> off \<le> o' \<and> o' < off + len"
    and "off \<le> o' \<Longrightarrow> o' < off + len \<Longrightarrow> (o' mod L - off mod L) mod L = o' - off"
proof -
  have e: "(o' mod L - off mod L) mod L = (o' - off) mod L" by (simp add: mod_simps)
  have ge: "off \<le> o' \<Longrightarrow> (o' - off) mod L = o' - off"
    using assms by (intro mod_pos_pos_trivial) auto
  have lt: "o' < off \<Longrightarrow> (o' - off) mod L = o' - off + L"
  proof -
    assume "o' < off"
    then have "(o' - off + L) mod L = o' - off + L"
      using assms by (intro mod_pos_pos_trivial) auto
    then show ?thesis by simp
  qed
  show "(o' mod L - off mod L) mod L < len \<longleftrightarrow> off \<le> o' \<and> o' < off + len"
    unfolding e using ge lt assms by (cases "off \<le> o'") auto
  show "off \<le> o' \<Longrightarrow> o' < off + len \<Longrightarrow> (o' mod L - off mod L) mod L = o' - off"
    unfolding e by (rule ge)
qed

lemma buf_write_spec:
  assumes ok: "chain_ok g s" and w: "window (fst s) off len" and len: "0 < len" "len < rb_len (fst s)"
    and b: "len \<le> int (length buf)"
  shows "\<exists>s'. buf_write g buf len off s = Some s' \<and> chain_ok g s'
    \<and> fst s' = (fst s)\<lparr> rb_bufsegs := rb_bufsegs (fst s') \<rparr>
    \<and> (\<forall>o'. rb_head (fst s) \<le> o' \<and> o' < rb_head (fst s) + rb_len (fst s) \<longrightarrow>
        (if off \<le> o' \<and> o' < off + len then stored (fst s') o' = Some (buf ! nat (o' - off))
         else \<forall>x. stored (fst s) o' = Some x \<longrightarrow> stored (fst s') o' = Some x))"
proof -
  let ?L = "rb_len (fst s)"
  have L: "0 < ?L" using len by simp
  obtain cs s1 where r: "buf_rw g s len off = Some (cs, s1)" "chain_ok g s1" "grown s s1"
    "tiles ?L (off mod ?L) 0 (length (rb_bufsegs (fst s1))) cs" "total cs = len"
    using buf_rw_tiles[OF ok w len] by blast
  have L1: "rb_len (fst s1) = ?L" using grown_same[OF r(3)] by simp
  have k1: "segs_1k (rb_bufsegs (fst s1))" using r(2) by (simp add: chain_ok_def Let_def)
  obtain segs where sg: "copies_write buf cs (rb_bufsegs (fst s1)) = Some segs" "segs_1k segs"
    "length segs = length (rb_bufsegs (fst s1))" "map seg_id segs = map seg_id (rb_bufsegs (fst s1))"
    and eff: "\<And>q. 0 \<le> q \<Longrightarrow> q < ?L \<Longrightarrow> phys segs q =
          (if (q - off mod ?L) mod ?L < len then buf ! nat ((q - off mod ?L) mod ?L)
           else phys (rb_bufsegs (fst s1)) q)"
    using copies_write_effect[OF r(4) le_refl k1, of buf] L b len r(5) by auto
  let ?s' = "((fst s1)\<lparr> rb_bufsegs := segs \<rparr>, snd s1)"
  have wr: "buf_write g buf len off s = Some ?s'"
    using r(1) sg(1) by (cases s1) (simp add: buf_write_def)
  have "chain_ok g ?s'" using r(2) sg unfolding chain_ok_def Let_def fst_conv snd_conv by auto
  moreover have "fst ?s' = (fst s)\<lparr> rb_bufsegs := rb_bufsegs (fst ?s') \<rparr>"
    using r(3) by (auto simp: grown_def)
  moreover have "if off \<le> o' \<and> o' < off + len then stored (fst ?s') o' = Some (buf ! nat (o' - off))
         else \<forall>x. stored (fst s) o' = Some x \<longrightarrow> stored (fst ?s') o' = Some x"
    if o': "rb_head (fst s) \<le> o'" "o' < rb_head (fst s) + ?L" for o'
  proof -
    let ?q = "o' mod ?L"
    have q: "0 \<le> ?q" "?q < ?L" using L by auto
    note wm = window_mod[of "rb_head (fst s)" off len ?L o', OF _ _ o' L]
    have w': "rb_head (fst s) \<le> off" "off + len \<le> rb_head (fst s) + ?L" using w by (auto simp: window_def)
    have in_range: "off \<le> o' \<and> o' < off + len \<Longrightarrow> nat (?q div 1024) < length segs"
    proof -
      assume "off \<le> o' \<and> o' < off + len"
      then have d: "(?q - off mod ?L) mod ?L < len" using wm(1) w' len by simp
      have "\<exists>c \<in> set cs. \<exists>r. ?q = 1024 * int (cp_seg c) + r \<and> 0 \<le> r \<and> r < 1024 \<and> cp_seg c < length segs"
        using tiles_covers[OF r(4) q, unfolded r(5)] d len L sg(3) by auto
      then show ?thesis using div_mod_1024(1) by fastforce
    qed
    show ?thesis
    proof (cases "off \<le> o' \<and> o' < off + len")
      case True
      then show ?thesis using in_range eff[OF q] wm w' len by (simp add: stored_def Let_def L1)
    next
      case False
      then have "\<not> (?q - off mod ?L) mod ?L < len" using wm(1) w' len by simp
      then have "phys segs ?q = phys (rb_bufsegs (fst s1)) ?q" using eff[OF q] by simp
      then have "stored (fst ?s') o' = stored (fst s1) o'" by (simp add: stored_def Let_def L1 sg(3))
      then show ?thesis unfolding if_not_P[OF False] using stored_grown[OF r(3), of o'] by simp
    qed
  qed
  ultimately show ?thesis using wr by blast
qed

lemma buf_read_spec:
  assumes ok: "chain_ok g s" and w: "window (fst s) off len" and len: "0 < len" "len < rb_len (fst s)"
    and b: "len \<le> int (length buf)"
    and have_bytes: "\<And>i. 0 \<le> i \<Longrightarrow> i < len \<Longrightarrow> stored (fst s) (off + i) = Some (bytes (off + i))"
  shows "\<exists>buf' s'. buf_read g buf len off s = Some (buf', s') \<and> chain_ok g s' \<and> grown s s'
    \<and> length buf' = length buf
    \<and> take (nat len) buf' = map (\<lambda>i. bytes (off + int i)) [0..<nat len]
    \<and> drop (nat len) buf' = drop (nat len) buf"
proof -
  let ?L = "rb_len (fst s)"
  have L: "0 < ?L" using len by simp
  obtain cs s1 where r: "buf_rw g s len off = Some (cs, s1)" "chain_ok g s1" "grown s s1"
    "tiles ?L (off mod ?L) 0 (length (rb_bufsegs (fst s1))) cs" "total cs = len"
    using buf_rw_tiles[OF ok w len] by blast
  have L1: "rb_len (fst s1) = ?L" using grown_same[OF r(3)] by simp
  have k1: "segs_1k (rb_bufsegs (fst s1))" using r(2) by (simp add: chain_ok_def Let_def)
  obtain buf' where rd: "copies_read (rb_bufsegs (fst s1)) cs buf = Some buf'" "length buf' = length buf"
    and eff: "\<And>i. i < length buf \<Longrightarrow> buf' ! i =
          (if int i < len then phys (rb_bufsegs (fst s1)) ((off mod ?L + int i) mod ?L) else buf ! i)"
    using copies_read_effect[OF r(4) le_refl k1, of buf] L b len r(5) by auto
  have "buf_read g buf len off s = Some (buf', s1)"
    using r(1) rd(1) by (cases s1) (simp add: buf_read_def)
  moreover have "take (nat len) buf' = map (\<lambda>i. bytes (off + int i)) [0..<nat len]"
  proof (rule nth_equalityI)
    show "length (take (nat len) buf') = length (map (\<lambda>i. bytes (off + int i)) [0..<nat len])"
      using b rd(2) by simp
    fix i assume "i < length (take (nat len) buf')"
    then have i: "int i < len" "i < length buf" using rd(2) len by auto
    have "stored (fst s1) (off + int i) = Some (bytes (off + int i))"
      using have_bytes[of "int i"] i stored_grown[OF r(3)] by simp
    then have "phys (rb_bufsegs (fst s1)) ((off + int i) mod ?L) = bytes (off + int i)"
      by (simp add: stored_def Let_def L1 split: if_splits)
    moreover have "(off mod ?L + int i) mod ?L = (off + int i) mod ?L" by (simp add: mod_simps)
    ultimately show "take (nat len) buf' ! i = map (\<lambda>i. bytes (off + int i)) [0..<nat len] ! i"
      using eff[OF i(2)] i len by (simp add: nth_upt)
  qed
  moreover have "drop (nat len) buf' = drop (nat len) buf"
    by (rule nth_equalityI) (use rd(2) eff in auto)
  ultimately show ?thesis using r(2,3) rd(2) by blast
qed

section \<open>The properties\<close>

text \<open>
  What is written into the ring at a logical offset is read back from it.  For a ring
  with enough chunks in its pool, a write of fewer bytes than the buffer's length inside
  the window succeeds (all copies stay inside the segments, allocated on demand), and a
  following read of the same range returns exactly the bytes written.
\<close>

theorem buf_write_read:
  assumes "chain_ok g s" "window (fst s) off len" "0 < len" "len < rb_len (fst s)"
    and "length data = nat len" "length out = nat len"
  shows "\<exists>s' s''. buf_write g data len off s = Some s' \<and> buf_read g out len off s' = Some (data, s'')"
proof -
  obtain s' where s': "buf_write g data len off s = Some s'" "chain_ok g s'"
    "fst s' = (fst s)\<lparr> rb_bufsegs := rb_bufsegs (fst s') \<rparr>"
    and st: "\<And>o'. rb_head (fst s) \<le> o' \<Longrightarrow> o' < rb_head (fst s) + rb_len (fst s) \<Longrightarrow>
      off \<le> o' \<Longrightarrow> o' < off + len \<Longrightarrow> stored (fst s') o' = Some (data ! nat (o' - off))"
    using buf_write_spec[OF assms(1-4), of data] assms(3,5) by (auto 4 0 split: if_splits)
  have L: "rb_len (fst s') = rb_len (fst s)" and h: "rb_head (fst s') = rb_head (fst s)"
    and w': "window (fst s') off len"
    using assms(2) by (subst s'(3), simp add: window_def)+
  have byt: "stored (fst s') (off + i) = Some (data ! nat (off + i - off))" if "0 \<le> i" "i < len" for i
    using st[of "off + i"] that assms(2) by (auto simp: window_def)
  obtain out' s'' where r: "buf_read g out len off s' = Some (out', s'')" "length out' = length out"
    "take (nat len) out' = map (\<lambda>i. data ! nat (off + int i - off)) [0..<nat len]"
    using buf_read_spec[OF s'(2) w', of out "\<lambda>o'. data ! nat (o' - off)"] assms L byt by auto
  have "out' = data"
    using r(2,3) assms(5,6) by (auto intro!: nth_equalityI simp: list_eq_iff_nth_eq)
  then show ?thesis using s'(1) r(1) by blast
qed

text \<open>A ring of two segments whose pool has two chunks; nothing is allocated yet.\<close>

definition rb_demo :: "tcprb \<times> mem_pool" where
  "rb_demo = (\<lparr> rb_mode = 0, rb_buf_mgmt = 2, rb_overlap = 0, rb_corr = 0, rb_metalen = 2048,
      rb_bufsegs = [], rb_lbufsegs = 2, rb_len = 2048, rb_head = 0, rb_pile = 0, rb_frags = [] \<rparr>,
    \<lparr> mp_mem = (\<lambda>_. \<lparr> mc_free_chunks = 2, mc_next = None \<rparr>), mp_freeptr = Some 0,
      mp_free_chunks = 2, mp_total_chunks = 2, mp_chunk_size = 1040, mp_type = 0 \<rparr>)"

theorem buf_write_read_witness:
  "\<exists>s' s''. buf_write (\<lambda>_. replicate 1024 0) [1, 2, 3] 3 1022 rb_demo = Some s'
     \<and> buf_read (\<lambda>_. replicate 1024 0) [0, 0, 0] 3 1022 s' = Some ([1, 2, 3], s'')"
proof (rule buf_write_read)
  show "chain_ok (\<lambda>_. replicate 1024 0) rb_demo"
    by (simp add: chain_ok_def Let_def rb_demo_def segs_1k_def)
  show "window (fst rb_demo) 1022 3" "(3 :: int) < rb_len (fst rb_demo)"
    by (simp_all add: window_def rb_demo_def)
qed simp_all

end
