(* ===== verification/Recv_Buffer.thy ===== *)
theory Recv_Buffer
  imports Recv_Data
begin

text \<open>
  The TCP ring buffer \<open>tcp_rb.c\<close> (the build with \<open>DISABLE_DYN_RESIZE\<close>): the sorted list
  of received fragments, the head and the pile of the window, out-of-order writes, peeks
  and the overlap policies.  The bytes are those of \<open>Recv_Data\<close>.
\<close>

section \<open>Fragments\<close>

definition MOS_OVERLAP_POLICY_FIRST :: nat where "MOS_OVERLAP_POLICY_FIRST = 0"
definition MOS_OVERLAP_POLICY_LAST :: nat where "MOS_OVERLAP_POLICY_LAST = 1"
definition MOS_OVERLAP_CNT :: nat where "MOS_OVERLAP_CNT = 2"
definition BUFMGMT_OFF :: nat where "BUFMGMT_OFF = 0"
definition BUFMGMT_FRAGS :: nat where "BUFMGMT_FRAGS = 1"
definition BUFMGMT_FULL :: nat where "BUFMGMT_FULL = 2"

fun frags_insert :: "tcpfrag \<Rightarrow> tcpfrag list \<Rightarrow> tcpfrag list" where
  "frags_insert f [] = [f]"
| "frags_insert f (w # ws) = (if f_head w > f_head f then f # w # ws else w # frags_insert f ws)"

section \<open>The operations\<close>

definition tcprb_new :: "bool \<Rightarrow> int \<Rightarrow> nat \<Rightarrow> tcprb option" where
  "tcprb_new alloc_ok len buf_mgmt =
     (if len mod UNITBUFSIZE \<noteq> 0 \<or> len < 2 then None
      else if \<not> alloc_ok then None
      else Some \<lparr> rb_mode = 0, rb_buf_mgmt = buf_mgmt, rb_overlap = 0, rb_corr = 0,
             rb_metalen = len, rb_bufsegs = [], rb_lbufsegs = (len - 1) div UNITBUFSIZE + 1,
             rb_len = len, rb_head = 0, rb_pile = 0, rb_frags = [] \<rparr>)"

text \<open>Freeing the ring returns its segments to the pool; the fragments go to \<open>free\<close>.\<close>

definition tcprb_del :: "tcprb \<Rightarrow> mem_pool \<Rightarrow> int \<times> mem_pool" where
  "tcprb_del rb mp = (0, foldl bufseg_del mp (rb_bufsegs rb))"

definition tcprb_setpile :: "tcprb \<Rightarrow> int \<Rightarrow> int \<times> tcprb" where
  "tcprb_setpile rb new =
     (if new > rb_head rb + rb_len rb \<or> new < rb_head rb then (-1, rb)
      else case rb_frags rb of
        [] \<Rightarrow> (-1, rb)
      | cf # _ \<Rightarrow>
          if f_head cf \<noteq> rb_head rb then (-1, rb)
          else if new > f_tail cf then (-1, rb)
          else (0, rb\<lparr> rb_pile := new \<rparr>))"

definition tcprb_cflen :: "tcprb \<Rightarrow> int" where
  "tcprb_cflen rb = (case rb_frags rb of
      [] \<Rightarrow> 0
    | cf # _ \<Rightarrow> if f_head cf \<noteq> rb_head rb then 0 else f_tail cf - rb_pile rb)"

definition tcprb_ffhead :: "tcprb \<Rightarrow> int \<Rightarrow> int \<times> tcprb" where
  "tcprb_ffhead rb len =
     (if len < 0 then (0, rb)
      else if len = 0 then (0, rb)
      else case rb_frags rb of
        [] \<Rightarrow> (0, rb)
      | cf # rest \<Rightarrow>
          if f_head cf \<noteq> rb_head rb then (0, rb)
          else let cflen = f_tail cf - f_head cf;
                   ff = min (min len cflen) (rb_pile rb - rb_head rb)
               in (ff, rb\<lparr> rb_frags := (if cflen = ff then rest
                                        else cf\<lparr> f_head := f_head cf + ff \<rparr> # rest),
                           rb_head := rb_head rb + ff \<rparr>))"

text \<open>The first assignment to \<open>fflen\<close> in the source is overwritten by the second.\<close>

definition tcprb_fflen :: "tcprb \<Rightarrow> int \<Rightarrow> int \<Rightarrow> int" where
  "tcprb_fflen rb len off =
     (if len < 0 \<or> off < rb_head rb \<or> off \<ge> rb_pile rb + rb_metalen rb then -1
      else if len = 0 \<or> off + len < rb_pile rb then 0
      else let ff = (off + len) - (rb_head rb + min (rb_len rb) (rb_metalen rb)) in
        if ff \<le> 0 then 0
        else case rb_frags rb of
          [] \<Rightarrow> 0
        | cf # _ \<Rightarrow> if f_head cf \<noteq> rb_head rb then 0
                     else min ff (rb_pile rb - rb_head rb))"

definition tcprb_get_datalen :: "tcprb \<Rightarrow> int" where
  "tcprb_get_datalen rb =
     (if rb_frags rb = [] then 0 else f_tail (last (rb_frags rb)) - rb_head rb)"

text \<open>With \<open>DISABLE_DYN_RESIZE\<close> the two resize functions only ever turn a buffer off.\<close>

definition tcprb_resize_meta :: "tcprb \<Rightarrow> int \<times> tcprb" where
  "tcprb_resize_meta rb = (0, rb\<lparr> rb_metalen := 0, rb_frags := [] \<rparr>)"

definition tcprb_setpolicy :: "tcprb \<Rightarrow> nat \<Rightarrow> int \<times> tcprb" where
  "tcprb_setpolicy rb policy =
     (if policy \<ge> MOS_OVERLAP_CNT then (-1, rb) else (0, rb\<lparr> rb_overlap := policy \<rparr>))"

definition tcprb_resize :: "tcprb \<Rightarrow> mem_pool \<Rightarrow> int \<times> tcprb \<times> mem_pool" where
  "tcprb_resize rb mp =
     (0, rb\<lparr> rb_metalen := 0, rb_len := 0, rb_bufsegs := [], rb_frags := [] \<rparr>,
      foldl bufseg_del mp (rb_bufsegs rb))"

text \<open>The outcome of a peek or a write: undefined behaviour of the C code is \<open>None\<close>.\<close>

definition tcprb_ppeek ::
  "(nat \<Rightarrow> u8 list) \<Rightarrow> u8 list \<Rightarrow> int \<Rightarrow> int \<Rightarrow> tcprb \<times> mem_pool
    \<Rightarrow> (int \<times> u8 list \<times> tcprb \<times> mem_pool) option" where
  "tcprb_ppeek g buf len off s =
     (let rb = fst s in
      if rb_buf_mgmt rb \<noteq> BUFMGMT_FULL \<or> len < 0 then Some (-1, buf, s)
      else if len = 0 then Some (0, buf, s)
      else case find (\<lambda>f. off \<ge> f_head f \<and> off < f_tail f) (rb_frags rb) of
        None \<Rightarrow> Some (-1, buf, s)
      | Some f \<Rightarrow>
          if f_empty f then Some (-1, buf, s)
          else let plen = min len (f_tail f - off) in
            (case buf_read g buf plen off s of
               None \<Rightarrow> None
             | Some (buf', s') \<Rightarrow> Some (plen, buf', s')))"

subsection \<open>The write\<close>

text \<open>Removing or cutting the empty fragments behind and before the one that grows.\<close>

fun shrink_after :: "int \<Rightarrow> tcpfrag list \<Rightarrow> tcpfrag list" where
  "shrink_after lim [] = []"
| "shrink_after lim (ef # rest) =
     (if f_empty ef \<and> f_head ef < lim
      then (if f_tail ef \<le> lim then shrink_after lim rest
            else ef\<lparr> f_head := lim \<rparr> # rest)
      else ef # rest)"

fun shrink_before :: "int \<Rightarrow> tcpfrag list \<Rightarrow> tcpfrag list" where
  "shrink_before h [] = []"
| "shrink_before h (ef # rest) =
     (if f_empty ef \<and> f_tail ef < h
      then (if f_head ef \<le> h then shrink_before h rest
            else ef\<lparr> f_tail := h \<rparr> # rest)
      else ef # rest)"

text \<open>
  The inner loop: the list is held as the fragments already passed, nearest first, and
  those from \<open>f\<close> on.  It ends without a fragment (\<open>f\<close> is null) or at one, with the flag
  \<open>skip\<close>, the number of bytes dealt with, and the list updated around it.
\<close>

datatype scan = NoFrag | Hit bool int "tcpfrag list" tcpfrag "tcpfrag list"

fun frag_scan :: "int \<Rightarrow> int \<Rightarrow> int \<Rightarrow> tcpfrag list \<Rightarrow> tcpfrag list \<Rightarrow> scan" where
  "frag_scan off len uoff rp [] = NoFrag"
| "frag_scan off len uoff rp (f # fs) =
     (if f_empty f then frag_scan off len uoff (f # rp) fs
      else if f_head f \<le> off + uoff then
        (if f_tail f > off + uoff then Hit True (f_tail f - (off + uoff)) rp f fs
         else if f_tail f = off + uoff then
           (case shrink_after (f_tail f + len - uoff) fs of
              [] \<Rightarrow> Hit False (len - uoff) rp (f\<lparr> f_tail := f_tail f + (len - uoff) \<rparr>) []
            | fnext # rest \<Rightarrow>
                let wrlen = min (f_head fnext - (off + uoff)) (len - uoff);
                    tail = f_tail f + wrlen
                in if tail = f_head fnext
                   then Hit False wrlen rp (f\<lparr> f_tail := f_tail fnext \<rparr>) rest
                   else Hit False wrlen rp (f\<lparr> f_tail := tail \<rparr>) (fnext # rest))
         else frag_scan off len uoff (f # rp) fs)
      else if f_head f \<le> off + len then
        (let wrlen = min (f_head f - (off + uoff)) (len - uoff);
             h = f_head f - wrlen
         in Hit False wrlen (shrink_before h rp) (f\<lparr> f_head := h \<rparr>) fs)
      else NoFrag)"

text \<open>
  The outer loop.  \<open>wr u n d\<close> copies \<open>n\<close> bytes from offset \<open>u\<close> of the payload to the
  store \<open>d\<close>; it is called when the policy is to overwrite or the bytes are new, and the
  buffer keeps data.  Each round adds bytes or removes a fragment, so
  \<open>len + length frags\<close> rounds are enough fuel.
\<close>

fun pwrite_loop ::
  "nat \<Rightarrow> (int \<Rightarrow> int \<Rightarrow> 'd \<Rightarrow> 'd option) \<Rightarrow> nat \<Rightarrow> nat \<Rightarrow> int \<Rightarrow> int \<Rightarrow> int
    \<Rightarrow> tcpfrag list \<Rightarrow> tcpfrag list \<Rightarrow> 'd \<Rightarrow> (tcpfrag list \<times> 'd) option"
where
  "pwrite_loop 0 wr overlap mgmt off len uoff rp fs d = None"
| "pwrite_loop (Suc n) wr overlap mgmt off len uoff rp fs d =
     (if \<not> uoff < len then Some (rev rp @ fs, d)
      else case frag_scan off len uoff rp fs of
        NoFrag \<Rightarrow>
          (let new = \<lparr> f_empty = False, f_head = off, f_tail = off + len \<rparr>;
               frags = frags_insert new (rev rp @ fs)
           in case (if mgmt \<noteq> 0 then wr uoff len d else Some d) of
                None \<Rightarrow> None
              | Some d' \<Rightarrow> pwrite_loop n wr overlap mgmt off len (uoff + len) (rev frags) [] d')
      | Hit skip wrlen rp' f fs' \<Rightarrow>
          (case (if (overlap = MOS_OVERLAP_POLICY_LAST \<or> \<not> skip) \<and> mgmt \<noteq> 0
                 then wr uoff wrlen d else Some d) of
             None \<Rightarrow> None
           | Some d' \<Rightarrow> pwrite_loop n wr overlap mgmt off len (uoff + wrlen) rp' (f # fs') d'))"

text \<open>
  \<open>tcprb_pwrite\<close>: the guards and the fast-forward of the head first, then the loop and
  the empty fragment that stands for bytes beyond the buffer (\<open>pwrite_fill\<close>).  \<open>olen\<close>
  is the requested length, \<open>len\<close> what is left of it after the fast-forward.
\<close>

definition pwrite_fill ::
  "(nat \<Rightarrow> u8 list) \<Rightarrow> u8 list \<Rightarrow> int \<Rightarrow> int \<Rightarrow> int \<Rightarrow> tcprb \<times> mem_pool
    \<Rightarrow> (int \<times> tcprb \<times> mem_pool) option"
where
  "pwrite_fill g buf olen len off s =
     (let rb = fst s;
          eflen = (if rb_metalen rb > rb_len rb
                   then min (olen - len) (rb_metalen rb - rb_len rb) else 0)
      in case pwrite_loop (Suc (nat len + length (rb_frags rb)))
                (\<lambda>u n. buf_write g (drop (nat u) buf) n (off + u))
                (rb_overlap rb) (rb_buf_mgmt rb) off len 0 [] (rb_frags rb) s of
           None \<Rightarrow> None
         | Some (frags, rb2, mp) \<Rightarrow>
             Some (len, rb2\<lparr> rb_frags :=
                     (if eflen \<noteq> 0
                      then frags_insert \<lparr> f_empty = True, f_head = off + len,
                                          f_tail = off + len + eflen \<rparr> frags
                      else frags) \<rparr>, mp))"

definition tcprb_pwrite ::
  "(nat \<Rightarrow> u8 list) \<Rightarrow> u8 list \<Rightarrow> int \<Rightarrow> int \<Rightarrow> tcprb \<times> mem_pool \<Rightarrow> (int \<times> tcprb \<times> mem_pool) option"
where
  "tcprb_pwrite g buf len off s =
     (let rb = fst s in
      if len < 0 \<or> off < rb_head rb \<or> off \<ge> rb_pile rb + rb_metalen rb then Some (-1, s)
      else if len = 0 then Some (0, s)
      else if off + len < rb_pile rb then Some (len, s)
      else let ff = (off + len) - (rb_head rb + min (rb_len rb) (rb_metalen rb)) in
        if ff > 0
        then (let (adv, rb1) = tcprb_ffhead rb ff
              in pwrite_fill g buf len (len - (ff - adv)) off (rb1, snd s))
        else pwrite_fill g buf len len off s)"

section \<open>Fragment lists\<close>

text \<open>Sorted, pairwise separated by a gap, none empty.\<close>

definition frags_ok :: "tcpfrag list \<Rightarrow> bool" where
  "frags_ok fs \<longleftrightarrow> sorted_wrt (\<lambda>a b. f_tail a < f_head b) fs
     \<and> (\<forall>f \<in> set fs. \<not> f_empty f \<and> f_head f < f_tail f)"

text \<open>The stream offsets the fragments cover.\<close>

definition cov :: "tcpfrag list \<Rightarrow> int set" where
  "cov fs = (\<Union>f \<in> set fs. {f_head f..<f_tail f})"

lemma cov_simps [simp, frag_simps]:
  "cov [] = {}" "cov (f # fs) = {f_head f..<f_tail f} \<union> cov fs"
  "cov (xs @ ys) = cov xs \<union> cov ys" "cov (rev xs) = cov xs"
  by (auto simp: cov_def)

lemma frags_ok_Nil [simp, frag_simps]: "frags_ok []"
  by (simp add: frags_ok_def)

lemma frags_ok_Cons [frag_simps]:
  "frags_ok (f # fs) \<longleftrightarrow> \<not> f_empty f \<and> f_head f < f_tail f
     \<and> (\<forall>g \<in> set fs. f_tail f < f_head g) \<and> frags_ok fs"
  by (auto simp: frags_ok_def)

lemma frags_ok_append [frag_simps]:
  "frags_ok (xs @ ys) \<longleftrightarrow> frags_ok xs \<and> frags_ok ys
     \<and> (\<forall>x \<in> set xs. \<forall>y \<in> set ys. f_tail x < f_head y)"
  by (auto simp: frags_ok_def sorted_wrt_append)

lemma cov_less: "x \<in> cov xs \<Longrightarrow> \<forall>f \<in> set xs. f_tail f \<le> b \<Longrightarrow> x < b"
  by (force simp: cov_def)

lemma cov_ge: "x \<in> cov xs \<Longrightarrow> \<forall>f \<in> set xs. b \<le> f_head f \<Longrightarrow> b \<le> x"
  by (force simp: cov_def)

lemma shrink_none [simp, frag_simps]:
  "frags_ok fs \<Longrightarrow> shrink_after lim fs = fs" "frags_ok (rev fs) \<Longrightarrow> shrink_before h fs = fs"
  by (cases fs; auto simp: frags_ok_Cons frags_ok_append)+

lemma cov_frags_insert [simp]: "cov (frags_insert f fs) = {f_head f..<f_tail f} \<union> cov fs"
  by (induction fs) auto

lemma set_frags_insert [simp]: "set (frags_insert f fs) = insert f (set fs)"
  by (induction fs) auto

lemma frags_ok_insert:
  assumes "frags_ok fs" "\<not> f_empty f" "f_head f < f_tail f"
    and "\<forall>g \<in> set fs. f_tail g < f_head f \<or> f_tail f < f_head g"
  shows "frags_ok (frags_insert f fs)"
  using assms
proof (induction fs)
  case (Cons w ws)
  have w: "f_head w < f_tail w" "\<forall>g \<in> set ws. f_tail w < f_head g \<and> f_head g < f_tail g" "frags_ok ws"
    using Cons.prems(1) by (auto simp: frags_ok_def)
  show ?case
  proof (cases "f_head w > f_head f")
    case True
    then have "f_tail f < f_head w" using Cons.prems(2-4) w by force
    then have "\<forall>g \<in> set (w # ws). f_tail f < f_head g" using w by force
    then show ?thesis using True Cons.prems by (simp add: frags_ok_Cons)
  next
    case False
    then have "f_tail w < f_head f" using Cons.prems(3,4) w(1) by force
    then show ?thesis using False Cons w by (simp add: frags_ok_Cons)
  qed
qed (simp add: frags_ok_Cons)

section \<open>One round of the write\<close>

text \<open>
  Between two rounds: the list is well formed, everything passed lies strictly before the
  current offset, and once bytes have been dealt with the current fragment reaches it.
\<close>

definition scan_inv :: "int \<Rightarrow> int \<Rightarrow> int \<Rightarrow> tcpfrag list \<Rightarrow> tcpfrag list \<Rightarrow> bool" where
  "scan_inv off len uoff rp fs \<longleftrightarrow> 0 \<le> uoff \<and> uoff < len \<and> frags_ok (rev rp @ fs)
     \<and> (\<forall>f \<in> set rp. f_tail f < off + uoff)
     \<and> (0 < uoff \<longrightarrow> fs \<noteq> [] \<and> f_head (hd fs) \<le> off + uoff \<and> off + uoff \<le> f_tail (hd fs))"

definition scan_post :: "int \<Rightarrow> int \<Rightarrow> int \<Rightarrow> tcpfrag list \<Rightarrow> scan \<Rightarrow> bool" where
  "scan_post off len uoff all r \<longleftrightarrow> (case r of
      NoFrag \<Rightarrow> uoff = 0 \<and> (\<forall>g \<in> set all. f_tail g < off \<or> off + len < f_head g)
    | Hit skip w rp f fs \<Rightarrow> 0 < w
        \<and> frags_ok (rev rp @ f # fs)
        \<and> cov (rev rp @ f # fs) = cov all \<union> {off + uoff..<off + uoff + w}
        \<and> (\<forall>g \<in> set rp. f_tail g < off + uoff)
        \<and> f_head f \<le> off + uoff \<and> off + uoff + w \<le> f_tail f
        \<and> length rp + length fs < length all
        \<and> (skip \<longrightarrow> {off + uoff..<off + uoff + w} \<subseteq> cov all)
        \<and> (\<not> skip \<longrightarrow> w \<le> len - uoff \<and> {off + uoff..<off + uoff + w} \<inter> cov all = {}))"

lemma scan_step:
  assumes "scan_inv off len uoff rp fs"
  shows "scan_post off len uoff (rev rp @ fs) (frag_scan off len uoff rp fs)"
  using assms
proof (induction off len uoff rp fs rule: frag_scan.induct)
  case (1 off len uoff rp)
  then show ?case by (force simp: scan_inv_def scan_post_def)
next
  case (2 off len uoff rp f fs)
  have i: "0 \<le> uoff" "uoff < len" "frags_ok (rev rp @ f # fs)" "\<forall>f \<in> set rp. f_tail f < off + uoff"
    "0 < uoff \<longrightarrow> f_head f \<le> off + uoff \<and> off + uoff \<le> f_tail f"
    using 2(3) by (auto simp: scan_inv_def)
  have f: "\<not> f_empty f" "f_head f < f_tail f" "\<forall>g \<in> set fs. f_tail f < f_head g" "frags_ok fs"
    "frags_ok (rev rp)" "\<forall>x \<in> set rp. f_tail x < f_head f" "\<forall>x \<in> set rp. \<forall>y \<in> set fs. f_tail x < f_head y"
    using i(3) by (auto simp: frags_ok_append frags_ok_Cons)
  have fs: "g \<in> set fs \<Longrightarrow> f_head g < f_tail g" for g using f(4) by (auto simp: frags_ok_def)
  have rp: "g \<in> set rp \<Longrightarrow> f_head g < f_tail g" for g using f(5) by (auto simp: frags_ok_def)
  have crp: "x \<in> cov rp \<Longrightarrow> x < off + uoff" for x
    by (rule cov_less[of x rp]) (use i(4) in force)+
  have cfs: "x \<in> cov fs \<Longrightarrow> f_tail f < x" for x
    using cov_ge[of x fs "f_tail f + 1"] f(3) by force
  let ?p = "off + uoff"
  consider (skip) "f_head f \<le> ?p" "f_tail f > ?p" | (ext) "f_head f \<le> ?p" "f_tail f = ?p"
    | (past) "f_head f \<le> ?p" "f_tail f < ?p" | (pre) "f_head f > ?p" "f_head f \<le> off + len"
    | (none) "f_head f > ?p" "f_head f > off + len" by linarith
  then show ?case
  proof cases
    case skip
    then show ?thesis using f i by (auto simp: scan_post_def)
  next
    case ext
    show ?thesis
    proof (cases fs)
      case Nil
      then show ?thesis using ext f i
        by (auto simp: scan_post_def frags_ok_append frags_ok_Cons dest: crp)
    next
      case (Cons h rest)
      have h: "?p < f_head h" "f_head h < f_tail h" "\<forall>g \<in> set rest. f_tail h < f_head g" "frags_ok rest"
        using Cons f ext fs by (auto simp: frags_ok_Cons)
      have ch: "x \<in> cov rest \<Longrightarrow> f_tail h < x" for x
        using cov_ge[of x rest "f_tail h + 1"] h(3) by force
      show ?thesis
        using Cons ext f(1,2,4-) i h by (auto dest: crp ch simp: scan_post_def frags_ok_append frags_ok_Cons Let_def)
    qed
  next
    case past
    then have "frag_scan off len uoff rp (f # fs) = frag_scan off len uoff (f # rp) fs"
      using f by simp
    moreover have "scan_inv off len uoff (f # rp) fs"
      using past i by (auto simp: scan_inv_def)
    ultimately show ?thesis using 2(2) past f by simp
  next
    case pre
    then show ?thesis using f i
      by (auto dest: crp cfs simp: scan_post_def Let_def frags_ok_append frags_ok_Cons)
  next
    case none
    then show ?thesis using f i fs by (fastforce simp: scan_post_def)
  qed
qed

section \<open>The whole write\<close>

text \<open>
  \<open>R W d\<close> says what the store \<open>d\<close> holds after the offsets \<open>W\<close> have been written.
  Under the policy that keeps the first data, exactly the offsets of the payload that
  no fragment covered are written.
\<close>

lemma pwrite_loop_spec:
  assumes wr: "\<And>W u n d. R W d \<Longrightarrow> 0 \<le> u \<Longrightarrow> 0 < n \<Longrightarrow>
        overlap = MOS_OVERLAP_POLICY_LAST \<or> u + n \<le> len \<and> {off + u..<off + u + n} \<inter> cov0 = {} \<Longrightarrow>
        \<exists>d'. wr u n d = Some d' \<and> R (W \<union> {off + u..<off + u + n}) d'"
    and c: "cov (rev rp @ fs) = cov0 \<union> {off..<off + uoff}"
    and over: "uoff \<le> len \<or> {off + len..<off + uoff} \<subseteq> cov0"
    and inv: "if uoff < len then scan_inv off len uoff rp fs else frags_ok (rev rp @ fs)"
    and u0: "0 \<le> uoff" and len: "0 < len"
    and R: "R W d" "overlap \<noteq> MOS_OVERLAP_POLICY_LAST \<longrightarrow> mgmt \<noteq> 0 \<longrightarrow> W = W0 \<union> ({off..<off + uoff} - cov0)"
      "mgmt = 0 \<longrightarrow> W = W0"
    and fuel: "nat (len - uoff) + length (rp @ fs) < n"
  shows "\<exists>frags d'. pwrite_loop n wr overlap mgmt off len uoff rp fs d = Some (frags, d')
    \<and> frags_ok frags \<and> cov frags = cov0 \<union> {off..<off + len}
    \<and> (\<exists>W'. R W' d' \<and> (overlap \<noteq> MOS_OVERLAP_POLICY_LAST \<longrightarrow> mgmt \<noteq> 0 \<longrightarrow>
         W' = W0 \<union> ({off..<off + len} - cov0)) \<and> (mgmt = 0 \<longrightarrow> W' = W0))"
  using c over inv u0 R fuel
proof (induction n arbitrary: uoff rp fs d W)
  case (Suc n)
  show ?case
  proof (cases "uoff < len")
    case False
    have ex: "x < off + len" if "x < off + uoff" "x \<notin> cov0" for x
      using that False Suc.prems(2) by (metis atLeastLessThan_iff linorder_not_less nle_le subsetD)
    have "cov0 \<union> {off..<off + uoff} = cov0 \<union> {off..<off + len}"
      and "{off..<off + uoff} - cov0 = {off..<off + len} - cov0"
      using False by (auto dest: ex)
    then show ?thesis using False Suc.prems by auto
  next
    case True
    then have si: "scan_inv off len uoff rp fs" using Suc.prems(3) by simp
    note post = scan_step[OF si]
    show ?thesis
    proof (cases "frag_scan off len uoff rp fs")
      case NoFrag
      then have z: "uoff = 0" and gap: "\<forall>g \<in> set (rev rp @ fs). f_tail g < off \<or> off + len < f_head g"
        using post by (auto simp: scan_post_def)
      let ?new = "\<lparr> f_empty = False, f_head = off, f_tail = off + len \<rparr>"
      let ?fr = "frags_insert ?new (rev rp @ fs)"
      have ok: "frags_ok ?fr"
        using si gap len by (intro frags_ok_insert) (auto simp: scan_inv_def)
      have c0: "cov (rev rp @ fs) = cov0" using Suc.prems(1) z by simp
      have dj: "{off..<off + len} \<inter> cov0 = {}"
      proof -
        have "{f_head g..<f_tail g} \<inter> {off..<off + len} = {}" if "g \<in> set (rev rp @ fs)" for g
          using gap that by force
        then show ?thesis unfolding c0[symmetric] cov_def by blast
      qed
      obtain n' where n: "n = Suc n'" using Suc.prems(8) z len by (cases n) auto
      have "\<exists>d'. (if mgmt \<noteq> 0 then wr uoff len d else Some d) = Some d'
          \<and> R (if mgmt \<noteq> 0 then W \<union> {off..<off + len} else W) d'"
        using wr[OF Suc.prems(5), of 0 len] len z dj Suc.prems(5) by auto
      then obtain d' where d': "(if mgmt \<noteq> 0 then wr uoff len d else Some d) = Some d'"
        "R (if mgmt \<noteq> 0 then W \<union> {off..<off + len} else W) d'" by blast
      have "pwrite_loop (Suc n) wr overlap mgmt off len uoff rp fs d
          = (case (if mgmt \<noteq> 0 then wr uoff len d else Some d) of None \<Rightarrow> None
             | Some d' \<Rightarrow> pwrite_loop n wr overlap mgmt off len (uoff + len) (rev ?fr) [] d')"
        using True NoFrag by (simp add: Let_def)
      then have "pwrite_loop (Suc n) wr overlap mgmt off len uoff rp fs d = Some (?fr, d')"
        unfolding d'(1) using n z by simp
      moreover have "cov ?fr = cov0 \<union> {off..<off + len}" using c0 by auto
      moreover have "W \<union> {off..<off + len} = W0 \<union> ({off..<off + len} - cov0)"
        if "overlap \<noteq> MOS_OVERLAP_POLICY_LAST" "mgmt \<noteq> 0"
        using Suc.prems(6) that z dj by auto
      ultimately show ?thesis using ok d'(2) Suc.prems(7)
        by (intro exI[of _ ?fr] exI[of _ d'] conjI exI[of _ "if mgmt \<noteq> 0 then W \<union> {off..<off + len} else W"]) auto
    next
      case (Hit skip w rp' f fs')
      let ?seg = "{off + uoff..<off + uoff + w}"
      have p: "0 < w" "frags_ok (rev rp' @ f # fs')"
        "cov (rev rp' @ f # fs') = cov (rev rp @ fs) \<union> ?seg"
        "\<forall>g \<in> set rp'. f_tail g < off + uoff" "f_head f \<le> off + uoff" "off + uoff + w \<le> f_tail f"
        "length rp' + length fs' < length rp + length fs"
        "skip \<Longrightarrow> ?seg \<subseteq> cov (rev rp @ fs)"
        "\<not> skip \<Longrightarrow> w \<le> len - uoff \<and> ?seg \<inter> cov (rev rp @ fs) = {}"
        using post Hit by (auto simp: scan_post_def)
      have sk: "skip \<Longrightarrow> ?seg \<subseteq> cov0" using p(8) Suc.prems(1) by auto
      have skx: "x < off + uoff" if "skip" "x \<notin> cov0" "x < off + (uoff + w)" for x
        using that sk[OF that(1)] by (metis atLeastLessThan_iff linorder_not_less subsetD add.assoc)
      have nsk: "\<not> skip \<Longrightarrow> w \<le> len - uoff \<and> ?seg \<inter> cov0 = {}" using p(9) Suc.prems(1) by auto
      let ?do = "(overlap = MOS_OVERLAP_POLICY_LAST \<or> \<not> skip) \<and> mgmt \<noteq> 0"
      have "\<exists>d'. (if ?do then wr uoff w d else Some d) = Some d' \<and> R (if ?do then W \<union> ?seg else W) d'"
        using wr[OF Suc.prems(5,4) p(1)] nsk Suc.prems(5) by auto
      then obtain d' where d': "(if ?do then wr uoff w d else Some d) = Some d'"
        "R (if ?do then W \<union> ?seg else W) d'" by blast
      have step: "pwrite_loop (Suc n) wr overlap mgmt off len uoff rp fs d
          = pwrite_loop n wr overlap mgmt off len (uoff + w) rp' (f # fs') d'"
        using True Hit d'(1) by simp
      have m1: "cov (rev rp' @ f # fs') = cov0 \<union> {off..<off + (uoff + w)}"
        using p(1,3) Suc.prems(1,4) by (auto simp del: cov_simps)
      have m2: "uoff + w \<le> len \<or> {off + len..<off + (uoff + w)} \<subseteq> cov0"
        using sk nsk True by (cases skip) (auto simp: subset_iff)
      have m3: "if uoff + w < len then scan_inv off len (uoff + w) rp' (f # fs')
          else frags_ok (rev rp' @ f # fs')"
        using p Suc.prems(4) by (auto simp: scan_inv_def)
      have m4: "overlap \<noteq> MOS_OVERLAP_POLICY_LAST \<longrightarrow> mgmt \<noteq> 0 \<longrightarrow>
          (if ?do then W \<union> ?seg else W) = W0 \<union> ({off..<off + (uoff + w)} - cov0)"
        using Suc.prems(4,6) nsk p(1) by (cases skip) (auto dest: skx)
      have m5: "mgmt = 0 \<longrightarrow> (if ?do then W \<union> ?seg else W) = W0" using Suc.prems(7) by simp
      have m6: "nat (len - (uoff + w)) + length (rp' @ f # fs') < n"
        using p(1,7) Suc.prems(4,8) True by auto
      have m0: "0 \<le> uoff + w" using Suc.prems(4) p(1) by simp
      show ?thesis unfolding step by (rule Suc.IH[OF m1 m2 m3 m0 d'(2) m4 m5 m6])
    qed
  qed
qed simp

declare pwrite_loop.simps [simp del]

section \<open>The ring buffer's invariant\<close>

text \<open>
  The window starts at \<open>head\<close>; all fragments lie inside it; everything from \<open>head\<close> up to
  the pile, which the application has acknowledged, has been received.
\<close>

definition rb_inv :: "tcprb \<Rightarrow> bool" where
  "rb_inv rb \<longleftrightarrow> frags_ok (rb_frags rb) \<and> 0 \<le> rb_head rb \<and> rb_metalen rb = rb_len rb
     \<and> (\<forall>f \<in> set (rb_frags rb). rb_head rb \<le> f_head f \<and> f_tail f \<le> rb_head rb + rb_len rb)
     \<and> rb_head rb \<le> rb_pile rb \<and> {rb_head rb..<rb_pile rb} \<subseteq> cov (rb_frags rb)"

lemma first_frag:
  assumes "frags_ok (f # fs)" "\<forall>g \<in> set (f # fs). h \<le> f_head g" "h < p" "{h..<p} \<subseteq> cov (f # fs)"
  shows "f_head f = h \<and> p \<le> f_tail f"
proof -
  have f: "f_head f < f_tail f" and rest: "x \<in> cov fs \<Longrightarrow> f_tail f < x" for x
    using assms(1) cov_ge[of x fs "f_tail f + 1"] by (force simp: frags_ok_Cons)+
  have "h \<in> cov (f # fs)" using assms(3,4) by auto
  then have "f_head f \<le> h" using f rest assms(2) by force
  moreover have "p \<le> f_tail f"
  proof (rule ccontr)
    assume "\<not> p \<le> f_tail f"
    then have "f_tail f \<in> {h..<p}" using f assms(2) by auto
    then have "f_tail f \<in> cov (f # fs)" using assms(4) by blast
    then show False using rest by auto
  qed
  ultimately show ?thesis using assms(2) by auto
qed

lemma tcprb_new_inv:
  assumes "tcprb_new ok len mgmt = Some rb"
  shows "rb_inv rb \<and> rb_len rb = len \<and> rb_len rb = 1024 * rb_lbufsegs rb \<and> rb_corr rb = 0
    \<and> rb_bufsegs rb = []"
proof -
  have "len mod 1024 = 0" "2 \<le> len"
    using assms by (auto simp: tcprb_new_def UNITBUFSIZE_def split: if_splits)
  then obtain k where k: "len = 1024 * k" "0 < k" by fastforce
  then have "(len - 1) div 1024 = k - 1" by simp
  then show ?thesis using assms k
    by (auto simp: tcprb_new_def UNITBUFSIZE_def rb_inv_def split: if_splits)
qed

lemma tcprb_ffhead_step:
  assumes i: "rb_inv rb"
  shows "fst (tcprb_ffhead rb n) = (if n \<le> 0 then 0 else min n (rb_pile rb - rb_head rb))
    \<and> rb_inv (snd (tcprb_ffhead rb n))
    \<and> rb_head (snd (tcprb_ffhead rb n)) = rb_head rb + fst (tcprb_ffhead rb n)
    \<and> cov (rb_frags (snd (tcprb_ffhead rb n))) = cov (rb_frags rb) - {..<rb_head rb + fst (tcprb_ffhead rb n)}
    \<and> length (rb_frags (snd (tcprb_ffhead rb n))) \<le> length (rb_frags rb)
    \<and> snd (tcprb_ffhead rb n) = rb\<lparr> rb_frags := rb_frags (snd (tcprb_ffhead rb n)),
        rb_head := rb_head (snd (tcprb_ffhead rb n)) \<rparr>"
proof (cases "n \<le> 0")
  case True
  have "x \<in> cov (rb_frags rb) \<Longrightarrow> rb_head rb \<le> x" for x
    using i cov_ge[of x "rb_frags rb" "rb_head rb"] by (auto simp: rb_inv_def)
  then show ?thesis using True i by (auto simp: tcprb_ffhead_def not_less[symmetric])
next
  case n: False
  have lo: "x \<in> cov (rb_frags rb) \<Longrightarrow> rb_head rb \<le> x" for x
    using i cov_ge[of x "rb_frags rb" "rb_head rb"] by (auto simp: rb_inv_def)
  show ?thesis
  proof (cases "rb_pile rb = rb_head rb")
    case True
    have "tcprb_ffhead rb n = (0, rb)"
    proof (cases "rb_frags rb")
      case (Cons cf rest)
      then show ?thesis using n True i
        by (auto simp: tcprb_ffhead_def Let_def rb_inv_def frags_ok_Cons)
    qed (use n in \<open>simp add: tcprb_ffhead_def\<close>)
    then show ?thesis using True i lo n by (auto simp: not_less[symmetric])
  next
    case False
    then have pl: "rb_head rb < rb_pile rb" using i by (simp add: rb_inv_def)
    then obtain cf rest where fr: "rb_frags rb = cf # rest"
      using i by (cases "rb_frags rb") (auto simp: rb_inv_def)
    have cf: "f_head cf = rb_head rb" "rb_pile rb \<le> f_tail cf"
      using first_frag[of cf rest "rb_head rb" "rb_pile rb"] i pl fr by (auto simp: rb_inv_def)
    define ff where "ff = min n (rb_pile rb - rb_head rb)"
    have ff: "0 < ff" "ff \<le> f_tail cf - f_head cf" "rb_head rb + ff \<le> rb_pile rb"
      "min (min n (f_tail cf - f_head cf)) (rb_pile rb - rb_head rb) = ff"
      using n pl cf by (auto simp: ff_def)
    have e: "tcprb_ffhead rb n = (ff, rb\<lparr> rb_frags := (if f_tail cf - f_head cf = ff then rest
        else cf\<lparr> f_head := f_head cf + ff \<rparr> # rest), rb_head := rb_head rb + ff \<rparr>)"
      using n fr cf ff by (simp add: tcprb_ffhead_def Let_def)
    have rest: "x \<in> cov rest \<Longrightarrow> f_tail cf < x" for x
      using i fr cov_ge[of x rest "f_tail cf + 1"] by (force simp: rb_inv_def frags_ok_Cons)
    have c: "cov (if f_tail cf - f_head cf = ff then rest else cf\<lparr> f_head := f_head cf + ff \<rparr> # rest)
        = cov (rb_frags rb) - {..<rb_head rb + ff}"
      using fr cf ff by (auto dest: rest)
    let ?fr' = "if f_tail cf - f_head cf = ff then rest else cf\<lparr> f_head := f_head cf + ff \<rparr> # rest"
    have iv: "frags_ok (cf # rest)" "\<forall>f \<in> set (cf # rest). rb_head rb \<le> f_head f \<and> f_tail f \<le> rb_head rb + rb_len rb"
      "{rb_head rb..<rb_pile rb} \<subseteq> cov (rb_frags rb)" "0 \<le> rb_head rb" "rb_metalen rb = rb_len rb"
      using i fr by (auto simp: rb_inv_def)
    have "rb_head rb + ff \<le> f_head f \<and> f_tail f \<le> rb_head rb + ff + rb_len rb" if "f \<in> set ?fr'" for f
    proof (cases "f \<in> set rest")
      case True
      then have "f_tail cf < f_head f" "f_tail f \<le> rb_head rb + rb_len rb"
        using iv(1,2) by (auto simp: frags_ok_Cons)
      then show ?thesis using ff(1-3) cf by simp
    next
      case False
      then have "f = cf\<lparr> f_head := f_head cf + ff \<rparr>" using that by (auto split: if_splits)
      then show ?thesis using iv(2) ff(1) cf by simp
    qed
    moreover have "frags_ok ?fr'" using iv(1) ff(1,2) by (auto simp: frags_ok_Cons)
    moreover have "{rb_head rb + ff..<rb_pile rb} \<subseteq> cov ?fr'"
      unfolding c using iv(3) ff(1) by auto
    ultimately have "rb_inv (snd (tcprb_ffhead rb n))"
      using iv(4,5) ff(1,3) unfolding e rb_inv_def snd_conv by simp
    then show ?thesis using n c ff fr unfolding e by (auto simp: ff_def[symmetric])
  qed
qed

section \<open>Invariant and contents of the buffer with its bytes\<close>

definition rb_ok :: "(nat \<Rightarrow> u8 list) \<Rightarrow> tcprb \<times> mem_pool \<Rightarrow> bool" where
  "rb_ok g s \<longleftrightarrow> chain_ok g s \<and> rb_inv (fst s) \<and> rb_corr (fst s) = 0
     \<and> rb_len (fst s) = 1024 * rb_lbufsegs (fst s) \<and> rb_buf_mgmt (fst s) = BUFMGMT_FULL
     \<and> rb_overlap (fst s) = MOS_OVERLAP_POLICY_FIRST
     \<and> (\<forall>o' \<in> cov (rb_frags (fst s)). stored (fst s) o' \<noteq> None)"

text \<open>What the application can see: the received bytes by stream offset.\<close>

definition rb_content :: "tcprb \<Rightarrow> int \<Rightarrow> u8 option" where
  "rb_content rb o' = (if o' \<in> cov (rb_frags rb) then stored rb o' else None)"

lemma stored_cong:
  "rb_bufsegs rb' = rb_bufsegs rb \<Longrightarrow> rb_len rb' = rb_len rb \<Longrightarrow> stored rb' = stored rb"
  by (simp add: stored_def fun_eq_iff Let_def)

lemma chain_ok_cong:
  "rb_bufsegs rb' = rb_bufsegs rb \<Longrightarrow> rb_lbufsegs rb' = rb_lbufsegs rb \<Longrightarrow>
   chain_ok g (rb', mp) = chain_ok g (rb, mp)"
  by (simp only: chain_ok_def fst_conv snd_conv)

lemma rb_ok_len: "rb_ok g s \<Longrightarrow> 0 < rb_len (fst s)"
  by (auto simp: rb_ok_def chain_ok_def Let_def)

lemma rb_inv_cov:
  assumes "rb_inv rb" "x \<in> cov (rb_frags rb)"
  shows "rb_head rb \<le> x \<and> x < rb_head rb + rb_len rb"
  using assms cov_ge[of x "rb_frags rb" "rb_head rb"]
    cov_less[of x "rb_frags rb" "rb_head rb + rb_len rb"]
  by (auto simp: rb_inv_def)

lemma frags_within:
  assumes "frags_ok fs" "cov fs \<subseteq> {a..<b}" "f \<in> set fs"
  shows "a \<le> f_head f \<and> f_tail f \<le> b"
proof -
  have "f_head f < f_tail f" using assms by (simp add: frags_ok_def)
  then have "f_head f \<in> cov fs" "f_tail f - 1 \<in> cov fs" using assms(3) by (force simp: cov_def)+
  then show ?thesis using assms(2) by auto
qed

lemma tcprb_ffhead_ok:
  assumes "rb_ok g s"
  shows "rb_ok g (snd (tcprb_ffhead (fst s) n), snd s)"
proof -
  let ?rb' = "snd (tcprb_ffhead (fst s) n)"
  have i: "rb_inv (fst s)" using assms by (simp add: rb_ok_def)
  note st = tcprb_ffhead_step[OF i, of n]
  then have e: "?rb' = (fst s)\<lparr> rb_frags := rb_frags ?rb', rb_head := rb_head ?rb' \<rparr>" by blast
  have f: "rb_bufsegs ?rb' = rb_bufsegs (fst s)" "rb_len ?rb' = rb_len (fst s)"
    "rb_lbufsegs ?rb' = rb_lbufsegs (fst s)" "rb_corr ?rb' = rb_corr (fst s)"
    "rb_buf_mgmt ?rb' = rb_buf_mgmt (fst s)" "rb_overlap ?rb' = rb_overlap (fst s)"
    by (subst e, simp)+
  show ?thesis
    using assms st f stored_cong[OF f(1,2)]
    by (auto simp: rb_ok_def chain_ok_def Let_def)
qed

text \<open>The write after the head has moved: the payload's range now fits the window.\<close>

lemma pwrite_window:
  assumes ok: "rb_ok g s" and len: "0 < len" "len < rb_len (fst s)" "len \<le> int (length buf)"
    and win: "rb_head (fst s) \<le> off" "off + len \<le> rb_head (fst s) + rb_len (fst s)"
  shows "\<exists>frags rb mp. pwrite_loop (Suc (nat len + length (rb_frags (fst s))))
        (\<lambda>u n. buf_write g (drop (nat u) buf) n (off + u))
        (rb_overlap (fst s)) (rb_buf_mgmt (fst s)) off len 0 [] (rb_frags (fst s)) s
      = Some (frags, rb, mp)
    \<and> rb_ok g (rb\<lparr> rb_frags := frags \<rparr>, mp)
    \<and> rb = (fst s)\<lparr> rb_bufsegs := rb_bufsegs rb \<rparr>
    \<and> rb_content (rb\<lparr> rb_frags := frags \<rparr>) = (\<lambda>o'.
         if rb_content (fst s) o' = None \<and> off \<le> o' \<and> o' < off + len
         then Some (buf ! nat (o' - off)) else rb_content (fst s) o')"
proof -
  let ?rb = "fst s" and ?h = "rb_head (fst s)" and ?L = "rb_len (fst s)"
  let ?c0 = "cov (rb_frags (fst s))"
  have i: "rb_inv ?rb" and mg: "rb_buf_mgmt ?rb = 2" "rb_overlap ?rb = 0"
    using ok by (auto simp: rb_ok_def BUFMGMT_FULL_def MOS_OVERLAP_POLICY_FIRST_def)
  define R where "R W d \<longleftrightarrow> chain_ok g d \<and> fst d = ?rb\<lparr> rb_bufsegs := rb_bufsegs (fst d) \<rparr>
    \<and> (\<forall>o'. ?h \<le> o' \<longrightarrow> o' < ?h + ?L \<longrightarrow>
         (if o' \<in> W then stored (fst d) o' = Some (buf ! nat (o' - off))
          else \<forall>x. stored ?rb o' = Some x \<longrightarrow> stored (fst d) o' = Some x))" for W :: "int set" and d
  have wr: "\<exists>d'. buf_write g (drop (nat u) buf) n (off + u) d = Some d' \<and> R (W \<union> {off + u..<off + u + n}) d'"
    if R: "R W d" and u: "0 \<le> u" "0 < n" "u + n \<le> len" for W u n d
  proof -
    have d: "chain_ok g d" "fst d = ?rb\<lparr> rb_bufsegs := rb_bufsegs (fst d) \<rparr>" using R by (auto simp: R_def)
    have f: "rb_head (fst d) = ?h" "rb_len (fst d) = ?L" by (subst d(2), simp)+
    have w: "window (fst d) (off + u) n"
      using ok i u win by (subst d(2)) (auto simp: window_def rb_ok_def rb_inv_def)
    have nb: "n \<le> int (length (drop (nat u) buf))" "n < rb_len (fst d)" using u len f by auto
    obtain d' where d': "buf_write g (drop (nat u) buf) n (off + u) d = Some d'" "chain_ok g d'"
      "fst d' = (fst d)\<lparr> rb_bufsegs := rb_bufsegs (fst d') \<rparr>"
      and st: "\<And>o'. ?h \<le> o' \<and> o' < ?h + ?L \<Longrightarrow>
        (if off + u \<le> o' \<and> o' < off + u + n then stored (fst d') o' = Some (drop (nat u) buf ! nat (o' - (off + u)))
         else \<forall>x. stored (fst d) o' = Some x \<longrightarrow> stored (fst d') o' = Some x)"
      using buf_write_spec[OF d(1) w u(2) nb(2,1)] unfolding f by blast
    have byte: "drop (nat u) buf ! nat (o' - (off + u)) = buf ! nat (o' - off)"
      if "off + u \<le> o'" "o' < off + u + n" for o'
    proof -
      have "nat u + nat (o' - (off + u)) = nat (o' - off)" using u that by simp
      then show ?thesis using u len by (simp add: nth_drop)
    qed
    have "R (W \<union> {off + u..<off + u + n}) d'"
      unfolding R_def
    proof (intro conjI allI impI)
      show "chain_ok g d'" by fact
      show "fst d' = ?rb\<lparr> rb_bufsegs := rb_bufsegs (fst d') \<rparr>"
        by (subst d'(3), subst d(2)) simp
      fix o' assume o': "?h \<le> o'" "o' < ?h + ?L"
      have Rd: "if o' \<in> W then stored (fst d) o' = Some (buf ! nat (o' - off))
          else \<forall>x. stored ?rb o' = Some x \<longrightarrow> stored (fst d) o' = Some x"
        using R o' by (simp add: R_def)
      show "if o' \<in> W \<union> {off + u..<off + u + n} then stored (fst d') o' = Some (buf ! nat (o' - off))
          else \<forall>x. stored ?rb o' = Some x \<longrightarrow> stored (fst d') o' = Some x"
      proof (cases "off + u \<le> o' \<and> o' < off + u + n")
        case True
        then show ?thesis using st[of o'] o' byte by simp
      next
        case False
        have "\<forall>x. stored (fst d) o' = Some x \<longrightarrow> stored (fst d') o' = Some x"
          using st[of o'] o' unfolding if_not_P[OF False] by simp
        moreover have "o' \<in> W \<union> {off + u..<off + u + n} \<longleftrightarrow> o' \<in> W" using False by auto
        ultimately show ?thesis using Rd by (auto split: if_splits)
      qed
    qed
    then show ?thesis using d'(1) by blast
  qed
  have "\<exists>frags d'. pwrite_loop (Suc (nat len + length (rb_frags ?rb)))
        (\<lambda>u n. buf_write g (drop (nat u) buf) n (off + u)) (rb_overlap ?rb) (rb_buf_mgmt ?rb)
        off len 0 [] (rb_frags ?rb) s = Some (frags, d')
    \<and> frags_ok frags \<and> cov frags = ?c0 \<union> {off..<off + len}
    \<and> (\<exists>W'. R W' d' \<and> (rb_overlap ?rb \<noteq> MOS_OVERLAP_POLICY_LAST \<longrightarrow> rb_buf_mgmt ?rb \<noteq> 0 \<longrightarrow>
         W' = {} \<union> ({off..<off + len} - ?c0)) \<and> (rb_buf_mgmt ?rb = 0 \<longrightarrow> W' = {}))"
  proof (rule pwrite_loop_spec[where R = R and W = "{}"], goal_cases)
    case (1 W u n d)
    then show ?case using wr by (auto simp: mg MOS_OVERLAP_POLICY_LAST_def)
  next
    case 7
    then show ?case using ok by (auto simp: R_def rb_ok_def)
  qed (use i len in \<open>auto simp: scan_inv_def rb_inv_def\<close>)
  then obtain frags rb mp where r: "pwrite_loop (Suc (nat len + length (rb_frags ?rb)))
        (\<lambda>u n. buf_write g (drop (nat u) buf) n (off + u)) (rb_overlap ?rb) (rb_buf_mgmt ?rb)
        off len 0 [] (rb_frags ?rb) s = Some (frags, rb, mp)"
    "frags_ok frags" "cov frags = ?c0 \<union> {off..<off + len}" "R ({off..<off + len} - ?c0) (rb, mp)"
    by (auto simp: mg MOS_OVERLAP_POLICY_LAST_def)
  let ?rb' = "rb\<lparr> rb_frags := frags \<rparr>"
  have rb: "chain_ok g (rb, mp)" "rb = ?rb\<lparr> rb_bufsegs := rb_bufsegs rb \<rparr>"
    and st: "\<And>o'. ?h \<le> o' \<Longrightarrow> o' < ?h + ?L \<Longrightarrow>
      (if off \<le> o' \<and> o' < off + len \<and> o' \<notin> ?c0 then stored rb o' = Some (buf ! nat (o' - off))
       else \<forall>x. stored ?rb o' = Some x \<longrightarrow> stored rb o' = Some x)"
    using r(4) by (auto simp: R_def)
  have f: "rb_head rb = ?h" "rb_len rb = ?L" "rb_pile rb = rb_pile ?rb" "rb_metalen rb = rb_metalen ?rb"
    "rb_corr rb = rb_corr ?rb" "rb_lbufsegs rb = rb_lbufsegs ?rb" "rb_buf_mgmt rb = rb_buf_mgmt ?rb"
    "rb_overlap rb = rb_overlap ?rb"
    by (subst rb(2), simp)+
  have sc: "stored ?rb' = stored rb" by (rule stored_cong) simp_all
  have sub: "cov frags \<subseteq> {?h..<?h + ?L}"
    unfolding r(3) using rb_inv_cov[OF i] win by auto
  have full: "o' \<in> ?c0 \<Longrightarrow> stored ?rb o' \<noteq> None" for o' using ok by (simp add: rb_ok_def)
  have content: "rb_content ?rb' o' = (if rb_content ?rb o' = None \<and> off \<le> o' \<and> o' < off + len
      then Some (buf ! nat (o' - off)) else rb_content ?rb o')" for o'
  proof (cases "o' \<in> cov frags")
    case True
    then have w: "?h \<le> o'" "o' < ?h + ?L" using sub by auto
    show ?thesis
    proof (cases "o' \<in> ?c0")
      case True
      then obtain x where "stored ?rb o' = Some x" using full by blast
      then show ?thesis using True st[OF w] \<open>o' \<in> cov frags\<close> by (simp add: rb_content_def sc)
    next
      case False
      then have "off \<le> o' \<and> o' < off + len" using True r(3) by auto
      then show ?thesis using False True st[OF w] by (simp add: rb_content_def sc)
    qed
  next
    case False
    then show ?thesis using r(3) by (auto simp: rb_content_def)
  qed
  have "\<forall>o' \<in> cov frags. stored rb o' \<noteq> None"
  proof
    fix o' assume o': "o' \<in> cov frags"
    then have w: "?h \<le> o'" "o' < ?h + ?L" using sub by auto
    show "stored rb o' \<noteq> None"
      using st[OF w] full[of o'] o' r(3) by (cases "o' \<in> ?c0") auto
  qed
  moreover have "rb_inv ?rb'"
    using i r(2,3) frags_within[OF r(2) sub] by (auto simp: rb_inv_def f)
  moreover have "chain_ok g (?rb', mp)" using rb(1) chain_ok_cong[of ?rb' rb g mp] by simp
  ultimately have "rb_ok g (?rb', mp)" using ok by (simp add: rb_ok_def f sc)
  then show ?thesis using r(1) rb(2) content by blast
qed

lemma rb_content_below: "rb_inv rb \<Longrightarrow> o' < rb_head rb \<Longrightarrow> rb_content rb o' = None"
  using rb_inv_cov[of rb o'] by (auto simp: rb_content_def)

lemma ffhead_content:
  assumes "rb_ok g s"
  shows "rb_content (snd (tcprb_ffhead (fst s) n))
    = (\<lambda>o'. if o' < rb_head (snd (tcprb_ffhead (fst s) n)) then None else rb_content (fst s) o')"
proof -
  let ?rb' = "snd (tcprb_ffhead (fst s) n)"
  have i: "rb_inv (fst s)" using assms by (simp add: rb_ok_def)
  note st = tcprb_ffhead_step[OF i, of n]
  then have e: "?rb' = (fst s)\<lparr> rb_frags := rb_frags ?rb', rb_head := rb_head ?rb' \<rparr>" by blast
  have "stored ?rb' = stored (fst s)" by (rule stored_cong) (subst e, simp)+
  then show ?thesis using st by (auto simp: rb_content_def fun_eq_iff)
qed

text \<open>How far one write moves the head, and how many bytes it accepts.\<close>

definition pwrite_adv :: "tcprb \<Rightarrow> int \<Rightarrow> int \<Rightarrow> int" where
  "pwrite_adv rb len off =
     (if off < rb_head rb \<or> off \<ge> rb_pile rb + rb_len rb \<or> len = 0 then 0
      else max 0 (min (off + len - (rb_head rb + rb_len rb)) (rb_pile rb - rb_head rb)))"

definition pwrite_accept :: "tcprb \<Rightarrow> int \<Rightarrow> int \<Rightarrow> int" where
  "pwrite_accept rb len off =
     (if off < rb_head rb \<or> off \<ge> rb_pile rb + rb_len rb then -1
      else if len = 0 then 0
      else min len (rb_head rb + pwrite_adv rb len off + rb_len rb - off))"

lemma rb_inv_pile_le: "rb_inv rb \<Longrightarrow> 0 \<le> rb_len rb \<Longrightarrow> rb_pile rb \<le> rb_head rb + rb_len rb"
  using rb_inv_cov[of rb "rb_pile rb - 1"]
  by (cases "rb_head rb < rb_pile rb") (auto simp: rb_inv_def subset_iff)

lemma pwrite_step:
  assumes ok: "rb_ok g s" and len: "0 \<le> len" "len < rb_len (fst s)" "len \<le> int (length buf)"
  shows "\<exists>s'. tcprb_pwrite g buf len off s = Some (pwrite_accept (fst s) len off, s')
    \<and> rb_ok g s'
    \<and> rb_head (fst s') = rb_head (fst s) + pwrite_adv (fst s) len off
    \<and> rb_pile (fst s') = rb_pile (fst s) \<and> rb_len (fst s') = rb_len (fst s)
    \<and> rb_content (fst s') = (\<lambda>o'.
         if o' < rb_head (fst s') then None
         else if rb_content (fst s) o' = None \<and> off \<le> o' \<and> o' < off + pwrite_accept (fst s) len off
         then Some (buf ! nat (o' - off)) else rb_content (fst s) o')"
proof -
  let ?rb = "fst s" and ?h = "rb_head (fst s)" and ?L = "rb_len (fst s)" and ?P = "rb_pile (fst s)"
  have i: "rb_inv ?rb" and L: "0 < ?L" using ok rb_ok_len[OF ok] by (simp_all add: rb_ok_def)
  have ml: "rb_metalen ?rb = ?L" and hp: "?h \<le> ?P" using i by (auto simp: rb_inv_def)
  have below: "rb_content ?rb = (\<lambda>o'. if o' < ?h then None else rb_content ?rb o')"
    using rb_content_below[OF i] by auto
  consider (bad) "off < ?h \<or> off \<ge> ?P + ?L" | (zero) "\<not> (off < ?h \<or> off \<ge> ?P + ?L)" "len = 0"
    | (old) "\<not> (off < ?h \<or> off \<ge> ?P + ?L)" "len \<noteq> 0" "off + len < ?P"
    | (run) "\<not> (off < ?h \<or> off \<ge> ?P + ?L)" "len \<noteq> 0" "\<not> off + len < ?P" by blast
  then show ?thesis
  proof cases
    case bad
    then have "tcprb_pwrite g buf len off s = Some (-1, s)"
      using ml by (simp add: tcprb_pwrite_def Let_def)
    moreover have "pwrite_accept ?rb len off = -1" "pwrite_adv ?rb len off = 0"
      using bad by (auto simp: pwrite_accept_def pwrite_adv_def)
    ultimately show ?thesis using ok by (auto simp: fun_eq_iff rb_content_below[OF i])
  next
    case zero
    then have "tcprb_pwrite g buf len off s = Some (0, s)"
      using ml by (simp add: tcprb_pwrite_def Let_def)
    moreover have "pwrite_accept ?rb len off = 0" "pwrite_adv ?rb len off = 0"
      using zero by (auto simp: pwrite_accept_def pwrite_adv_def)
    ultimately show ?thesis using ok by (auto simp: fun_eq_iff rb_content_below[OF i])
  next
    case old
    then have e: "tcprb_pwrite g buf len off s = Some (len, s)"
      using ml len by (simp add: tcprb_pwrite_def Let_def)
    have "?P \<le> ?h + ?L" using rb_inv_pile_le[OF i] L by simp
    then have z: "pwrite_accept ?rb len off = len" "pwrite_adv ?rb len off = 0"
      using old by (auto simp: pwrite_accept_def pwrite_adv_def)
    have full: "o' \<in> cov (rb_frags ?rb) \<Longrightarrow> stored ?rb o' \<noteq> None" for o'
      using ok by (simp add: rb_ok_def)
    have inn: "o' \<in> cov (rb_frags ?rb)" if "off \<le> o'" "o' < off + len" for o'
      using that old i by (auto simp: rb_inv_def subset_iff)
    have "rb_content ?rb o' = None \<Longrightarrow> off \<le> o' \<Longrightarrow> \<not> o' < off + len" for o'
      using inn[of o'] full[of o'] by (auto simp: rb_content_def)
    then show ?thesis using ok z e by (auto simp: fun_eq_iff rb_content_below[OF i])
  next
    case run
    define ff where "ff = off + len - (?h + ?L)"
    define adv where "adv = pwrite_adv ?rb len off"
    define n where "n = pwrite_accept ?rb len off"
    define rb1 where "rb1 = (if ff > 0 then snd (tcprb_ffhead ?rb ff) else ?rb)"
    have fh: "(if ff > 0 then tcprb_ffhead ?rb ff else (0, ?rb)) = (adv, rb1)"
      using tcprb_ffhead_step[OF i, of ff] run hp
      by (auto simp: adv_def pwrite_adv_def rb1_def ff_def[symmetric] prod_eq_iff)
    have nl: "(if ff > 0 then len - (ff - adv) else len) = n"
      using run hp by (auto simp: n_def pwrite_accept_def adv_def[symmetric])
        (auto simp: adv_def pwrite_adv_def ff_def)
    have ok1: "rb_ok g (rb1, snd s)"
      using ok tcprb_ffhead_ok[OF ok, of ff] by (cases s) (auto simp: rb1_def)
    have h1: "rb_head rb1 = ?h + adv" "rb_pile rb1 = ?P" "rb_len rb1 = ?L" "rb_metalen rb1 = ?L"
      using tcprb_ffhead_step[OF i, of ff] fh ml
      by (auto simp: rb1_def prod_eq_iff split: if_splits)
        (metis tcprb.ext_inject tcprb.surjective tcprb.update_convs)+
    have win: "rb_head rb1 \<le> off" "off + n \<le> rb_head rb1 + rb_len rb1" "0 < n" "n \<le> len"
      using run len hp unfolding h1 by (auto simp: n_def pwrite_accept_def adv_def pwrite_adv_def)
    obtain frags rb mp where w: "pwrite_loop (Suc (nat n + length (rb_frags rb1)))
        (\<lambda>u n. buf_write g (drop (nat u) buf) n (off + u))
        (rb_overlap rb1) (rb_buf_mgmt rb1) off n 0 [] (rb_frags rb1) (rb1, snd s) = Some (frags, rb, mp)"
      "rb_ok g (rb\<lparr> rb_frags := frags \<rparr>, mp)" "rb = rb1\<lparr> rb_bufsegs := rb_bufsegs rb \<rparr>"
      "rb_content (rb\<lparr> rb_frags := frags \<rparr>) = (\<lambda>o'.
         if rb_content rb1 o' = None \<and> off \<le> o' \<and> o' < off + n
         then Some (buf ! nat (o' - off)) else rb_content rb1 o')"
      using pwrite_window[OF ok1, of n buf off, unfolded fst_conv, OF win(3) _ _ win(1,2)] win(4) len h1(3)
      by auto
    have h2: "rb_head rb = rb_head rb1" "rb_pile rb = rb_pile rb1" "rb_len rb = rb_len rb1" by (subst w(3), simp)+
    have "pwrite_fill g buf len n off (rb1, snd s) = Some (n, rb\<lparr> rb_frags := frags \<rparr>, mp)"
      using w(1) by (simp add: pwrite_fill_def Let_def h1)
    moreover have "tcprb_pwrite g buf len off s = pwrite_fill g buf len n off (rb1, snd s)"
    proof (cases "ff > 0")
      case True
      then have "tcprb_ffhead ?rb ff = (adv, rb1)" "len - (ff - adv) = n" using fh nl by auto
      then show ?thesis using run len ml True by (simp add: tcprb_pwrite_def Let_def ff_def)
    next
      case False
      then have "rb1 = ?rb" "n = len" using nl by (auto simp: rb1_def)
      then show ?thesis using run len ml False by (simp add: tcprb_pwrite_def Let_def ff_def)
    qed
    ultimately have e: "tcprb_pwrite g buf len off s = Some (n, rb\<lparr> rb_frags := frags \<rparr>, mp)" by simp
    have c1: "rb_content rb1 = (\<lambda>o'. if o' < rb_head rb1 then None else rb_content ?rb o')"
      using ffhead_content[OF ok, of ff] below by (auto simp: rb1_def)
    show ?thesis
      unfolding e n_def[symmetric] adv_def[symmetric]
      using w(2,4) c1 h1 h2 win(1) by (intro exI[of _ "(rb\<lparr> rb_frags := frags \<rparr>, mp)"]) (auto simp: fun_eq_iff)
  qed
qed

lemma frag_find:
  assumes "frags_ok fs"
  shows "find (\<lambda>f. off \<ge> f_head f \<and> off < f_tail f) fs = None \<longleftrightarrow> off \<notin> cov fs"
    and "find (\<lambda>f. off \<ge> f_head f \<and> off < f_tail f) fs = Some f \<Longrightarrow>
      \<not> f_empty f \<and> f_head f \<le> off \<and> off < f_tail f \<and> {f_head f..<f_tail f} \<subseteq> cov fs \<and> f_tail f \<notin> cov fs"
proof -
  show "find (\<lambda>f. off \<ge> f_head f \<and> off < f_tail f) fs = None \<longleftrightarrow> off \<notin> cov fs"
    by (auto simp: find_Some_iff_mem cov_def)
  assume "find (\<lambda>f. off \<ge> f_head f \<and> off < f_tail f) fs = Some f"
  then have f: "f \<in> set fs" "f_head f \<le> off" "off < f_tail f"
    using find_SomeD[of "\<lambda>f. off \<ge> f_head f \<and> off < f_tail f" fs f] by auto
  obtain as bs where fs: "fs = as @ f # bs" using split_list[OF f(1)] by blast
  then have ok: "frags_ok (as @ f # bs)" using assms by simp
  have "x \<in> cov as \<Longrightarrow> x < f_tail f" for x
    using ok cov_less[of x as "f_tail f"] by (force simp: frags_ok_append frags_ok_Cons)
  moreover have "x \<in> cov bs \<Longrightarrow> f_tail f < x" for x
    using ok cov_ge[of x bs "f_tail f + 1"] by (force simp: frags_ok_append frags_ok_Cons)
  ultimately have "f_tail f \<notin> cov fs" by (auto simp: fs)
  then show "\<not> f_empty f \<and> f_head f \<le> off \<and> off < f_tail f \<and> {f_head f..<f_tail f} \<subseteq> cov fs \<and> f_tail f \<notin> cov fs"
    using f assms by (auto simp: cov_def frags_ok_def)
qed

lemma rb_ok_grown:
  assumes "rb_ok g s" "chain_ok g s'" "grown s s'"
  shows "rb_ok g s' \<and> rb_content (fst s') = rb_content (fst s)"
proof -
  have e: "fst s' = (fst s)\<lparr> rb_bufsegs := rb_bufsegs (fst s') \<rparr>" using assms(3) by (auto simp: grown_def)
  have f: "rb_frags (fst s') = rb_frags (fst s)" "rb_inv (fst s') = rb_inv (fst s)"
    "rb_corr (fst s') = rb_corr (fst s)" "rb_len (fst s') = rb_len (fst s)"
    "rb_lbufsegs (fst s') = rb_lbufsegs (fst s)" "rb_buf_mgmt (fst s') = rb_buf_mgmt (fst s)"
    "rb_overlap (fst s') = rb_overlap (fst s)"
    by (subst e, simp add: rb_inv_def)+
  have st: "stored (fst s') o' = stored (fst s) o'" if "o' \<in> cov (rb_frags (fst s))" for o'
    using stored_grown[OF assms(3), of o'] that assms(1) by (auto simp: rb_ok_def)
  have "rb_ok g s'" using assms(1,2) st by (simp add: rb_ok_def f)
  moreover have "rb_content (fst s') = rb_content (fst s)"
    using st by (auto simp: rb_content_def f fun_eq_iff)
  ultimately show ?thesis by simp
qed

lemma ppeek_step:
  assumes ok: "rb_ok g s" and len: "len < rb_len (fst s)" "len \<le> int (length buf)"
  shows "\<exists>r buf' s'. tcprb_ppeek g buf len off s = Some (r, buf', s')
    \<and> rb_ok g s' \<and> rb_content (fst s') = rb_content (fst s)
    \<and> length buf' = length buf \<and> drop (nat r) buf' = drop (nat r) buf
    \<and> (if len < 0 \<or> 0 < len \<and> rb_content (fst s) off = None then r = -1
       else 0 \<le> r \<and> r \<le> len \<and> (\<forall>i < nat r. rb_content (fst s) (off + int i) = Some (buf' ! i))
         \<and> (r < len \<longrightarrow> rb_content (fst s) (off + r) = None))"
proof -
  have i: "rb_inv (fst s)" and mg: "rb_buf_mgmt (fst s) = BUFMGMT_FULL"
    using ok by (auto simp: rb_ok_def)
  have fo: "frags_ok (rb_frags (fst s))" using i by (simp add: rb_inv_def)
  have cn: "rb_content (fst s) o' = None \<longleftrightarrow> o' \<notin> cov (rb_frags (fst s))" for o'
    using ok by (auto simp: rb_content_def rb_ok_def)
  consider "len < 0" | "len = 0" | (none) "0 < len" "off \<notin> cov (rb_frags (fst s))"
    | (some) "0 < len" "off \<in> cov (rb_frags (fst s))" by linarith
  then show ?thesis
  proof cases
    case none
    then have "tcprb_ppeek g buf len off s = Some (-1, buf, s)"
      using mg frag_find(1)[OF fo, of off] by (simp add: tcprb_ppeek_def Let_def)
    then show ?thesis using none ok cn by simp
  next
    case some
    obtain f where f: "find (\<lambda>f. off \<ge> f_head f \<and> off < f_tail f) (rb_frags (fst s)) = Some f"
      using some frag_find(1)[OF fo, of off] by fastforce
    note ff = frag_find(2)[OF fo f]
    define r where "r = min len (f_tail f - off)"
    have r: "0 < r" "r \<le> len" "off + r \<le> f_tail f" "r < len \<Longrightarrow> off + r = f_tail f"
      using some ff by (auto simp: r_def)
    have inn: "off + j \<in> cov (rb_frags (fst s))" if "0 \<le> j" "j < r" for j
      using ff r that by (auto simp: subset_iff)
    have w: "window (fst s) off r"
      using ok i rb_inv_cov[OF i inn, of 0] rb_inv_cov[OF i inn, of "r - 1"] r
      by (auto simp: window_def rb_ok_def rb_inv_def)
    define bytes where "bytes o' = the (stored (fst s) o')" for o'
    have st: "stored (fst s) (off + j) = Some (bytes (off + j))" if "0 \<le> j" "j < r" for j
      using inn[OF that] ok by (auto simp: bytes_def rb_ok_def)
    obtain buf' s' where rd: "buf_read g buf r off s = Some (buf', s')" "chain_ok g s'" "grown s s'"
      "length buf' = length buf" "take (nat r) buf' = map (\<lambda>i. bytes (off + int i)) [0..<nat r]"
      "drop (nat r) buf' = drop (nat r) buf"
      using buf_read_spec[OF _ w r(1), of g buf bytes] ok len r st by (auto simp: rb_ok_def)
    have "tcprb_ppeek g buf len off s = Some (r, buf', s')"
      using some mg f ff rd(1) by (simp add: tcprb_ppeek_def Let_def r_def[symmetric])
    moreover have "\<forall>i < nat r. rb_content (fst s) (off + int i) = Some (buf' ! i)"
    proof (intro allI impI)
      fix i assume i: "i < nat r"
      then have "take (nat r) buf' ! i = bytes (off + int i)" using rd(5) r by (simp add: nth_upt)
      then have "buf' ! i = bytes (off + int i)" using i by simp
      then show "rb_content (fst s) (off + int i) = Some (buf' ! i)"
        using inn[of "int i"] st[of "int i"] i by (simp add: rb_content_def)
    qed
    moreover have "r < len \<longrightarrow> rb_content (fst s) (off + r) = None"
      using r(4) ff cn by auto
    ultimately show ?thesis
      using rb_ok_grown[OF ok rd(2,3)] rd(4,6) r some cn by auto
  qed (use ok mg cn in \<open>auto simp: tcprb_ppeek_def Let_def\<close>)
qed

lemma seq2loff_loop_spec:
  "h \<le> seq2loff_loop h o' \<and> o' \<le> seq2loff_loop h o'
   \<and> seq2loff_loop h o' mod 0x100000000 = o' mod 0x100000000
   \<and> (o' < h + 0x100000000 \<longrightarrow> seq2loff_loop h o' < h + 0x100000000)"
proof (induction h o' rule: seq2loff_loop.induct)
  case (1 h o')
  then show ?case by (cases "o' < h") (auto simp: seq2loff_loop.simps[of h o'])
qed

lemma mod_window_eq:
  fixes a b h m :: int
  assumes "a mod m = b mod m" "h \<le> a" "a < h + m" "h \<le> b" "b < h + m"
  shows "a = b"
proof -
  have "(a - h) mod m = (b - h) mod m" using assms(1) by (metis mod_diff_left_eq)
  then show ?thesis using assms by (simp add: mod_pos_pos_trivial)
qed

section \<open>The properties\<close>

text \<open>
  C14.  Sequence numbers are unwrapped exactly: the byte at stream offset \<open>off\<close>, whose
  sequence number is \<open>isn + off\<close> modulo \<open>2 ^ 32\<close>, is found again at \<open>off\<close> whenever
  \<open>off\<close> is within \<open>2 ^ 32\<close> bytes after the head of the buffer.
\<close>

theorem seq2loff_unwraps:
  assumes "rb_head rb \<le> off" "off < rb_head rb + 2 ^ 32" "0 \<le> rb_head rb"
  shows "seq2loff rb (isn + word_of_int off) isn = off"
proof -
  define w where "w = uint (word_of_int off :: u32)"
  define r where "r = seq2loff_loop (rb_head rb) w"
  have w: "w = off mod 4294967296" "w < 4294967296"
    by (simp_all add: w_def uint_word_of_int)
  have r: "rb_head rb \<le> r" "r mod 4294967296 = w mod 4294967296" "r < rb_head rb + 4294967296"
    using seq2loff_loop_spec[of "rb_head rb" w] w(2) assms(3) unfolding r_def by auto
  have "r mod 4294967296 = off mod 4294967296" using r(2) w(1) by simp
  then have "r = off" by (rule mod_window_eq) (use r assms in simp_all)
  then show ?thesis by (simp add: seq2loff_def r_def w_def)
qed

theorem seq2loff_unwraps_witness:
  "seq2loff (fst rb_demo) (0xFFFFFFF0 + word_of_int 0x20) 0xFFFFFFF0 = 0x20"
  by (rule seq2loff_unwraps) (simp_all add: rb_demo_def)


lemma rb_demo_ok: "rb_ok (\<lambda>_. replicate 1024 0) rb_demo"
  by (simp add: rb_ok_def chain_ok_def Let_def rb_demo_def segs_1k_def rb_inv_def BUFMGMT_FULL_def
      MOS_OVERLAP_POLICY_FIRST_def)




end
