(* ===== verification/Rss_Hash.thy ===== *)
theory Rss_Hash
  imports Mos_Prelude
begin

text \<open>
  Receive-side scaling (\<open>util.c\<close>): the Toeplitz hash of a connection's four-tuple
  over the fixed repeating key, and the processor core the network card steers the
  connection to.  The card's driver decides the redirection layout
  (\<open>FetchEndianType\<close>, an argument here).
\<close>

section \<open>The key cache\<close>

definition rss_key :: "8 word list" where
  "rss_key = replicate 40 0x05"

text \<open>\<open>cache[i]\<close> holds the 32 key bits that start at bit \<open>i\<close>.\<close>

fun BuildKeyCache_loop :: "nat \<Rightarrow> nat \<Rightarrow> u32 \<Rightarrow> u32 list" where
  "BuildKeyCache_loop 0 idx result = []"
| "BuildKeyCache_loop (Suc n) idx result =
     (let shift = idx mod 8;
          bit = (if push_bit shift (rss_key ! (idx div 8)) AND 0x80 \<noteq> 0 then 1 else 0)
      in result # BuildKeyCache_loop n (Suc idx) (push_bit 1 result OR bit))"

definition BuildKeyCache :: "nat \<Rightarrow> u32 list" where
  "BuildKeyCache cache_len = BuildKeyCache_loop cache_len 32
     (push_bit 24 (ucast (rss_key ! 0)) OR push_bit 16 (ucast (rss_key ! 1))
      OR push_bit 8 (ucast (rss_key ! 2)) OR ucast (rss_key ! 3))"

section \<open>The hash\<close>

text \<open>One of the four loops: \<open>n\<close> bits of a field, most significant first.\<close>

fun rss_fold :: "u32 list \<Rightarrow> nat \<Rightarrow> nat \<Rightarrow> 'a::len word \<Rightarrow> 'a word \<Rightarrow> u32 \<Rightarrow> u32" where
  "rss_fold cache i 0 msb x res = res"
| "rss_fold cache i (Suc n) msb x res =
     rss_fold cache (Suc i) n msb (push_bit 1 x)
       (if x AND msb \<noteq> 0 then res XOR cache ! i else res)"

definition KEY_CACHE_LEN :: nat where "KEY_CACHE_LEN = 96"

definition GetRSSHash :: "u32 \<Rightarrow> u32 \<Rightarrow> u16 \<Rightarrow> u16 \<Rightarrow> u32" where
  "GetRSSHash sip dip sp dp =
     (let key_cache = BuildKeyCache KEY_CACHE_LEN;
          res = rss_fold key_cache 0 32 0x80000000 sip 0;
          res = rss_fold key_cache 32 32 0x80000000 dip res;
          res = rss_fold key_cache 64 16 0x8000 sp res
      in rss_fold key_cache 80 16 0x8000 dp res)"

text \<open>
  The core: the low bits of the hash, through the little-endian redirection table when
  the driver uses it.  The additions wrap at 32 bits as in C.
\<close>

definition rss_off :: "u32 list" where
  "rss_off = [3, 1, -1, -3]"

definition GetRSSCPUCore :: "bool \<Rightarrow> u32 \<Rightarrow> u32 \<Rightarrow> u16 \<Rightarrow> u16 \<Rightarrow> u32 \<Rightarrow> u32" where
  "GetRSSCPUCore endian_type sip dip sp dp num_queues =
     (let masked =
        (if endian_type then
           let m = GetRSSHash sip dip sp dp AND 0x1FF in m + rss_off ! unat (m AND 3)
         else GetRSSHash sip dip sp dp AND 0x7F)
      in masked mod num_queues)"

section \<open>The hash does not see the direction\<close>

text \<open>The key repeats every eight bits, so the cache does too.\<close>

lemma rss_key_bit:
  assumes "idx < 320"
  shows "rss_key ! (idx div 8) = 5"
  using assms by (simp add: rss_key_def)

lemma five_bit:
  "(if push_bit (idx mod 8) (5 :: 8 word) AND 0x80 \<noteq> 0 then 1 else 0 :: u32)
     = (if idx mod 8 = 5 \<or> idx mod 8 = 7 then 1 else 0)"
proof -
  have "idx mod 8 \<in> {0, 1, 2, 3, 4, 5, 6, 7}" by auto
  then show ?thesis by (auto simp: push_bit_eq_mult)
qed

lemma cache_step:
  assumes "idx < 320"
  shows "BuildKeyCache_loop (Suc n) idx r =
    r # BuildKeyCache_loop n (Suc idx) (push_bit 1 r OR (if idx mod 8 = 5 \<or> idx mod 8 = 7 then 1 else 0))"
  using assms five_bit[of idx] rss_key_bit[OF assms] by (simp add: Let_def)

definition key_period :: "u32 list" where
  "key_period = [0x05050505, 0x0A0A0A0A, 0x14141414, 0x28282828, 0x50505050, 0xA0A0A0A0, 0x41414141, 0x82828282]"

lemma cache_eight:
  assumes "idx mod 8 = 0" "idx + 8 \<le> 320"
  shows "BuildKeyCache_loop (n + 8) idx 0x05050505 = key_period @ BuildKeyCache_loop n (idx + 8) 0x05050505"
proof -
  have m: "Suc idx mod 8 = 1" "Suc (Suc idx) mod 8 = 2" "Suc (Suc (Suc idx)) mod 8 = 3"
    "Suc (Suc (Suc (Suc idx))) mod 8 = 4" "Suc (Suc (Suc (Suc (Suc idx)))) mod 8 = 5"
    "Suc (Suc (Suc (Suc (Suc (Suc idx))))) mod 8 = 6" "Suc (Suc (Suc (Suc (Suc (Suc (Suc idx)))))) mod 8 = 7"
    using assms(1) by presburger+
  have n8: "n + 8 = Suc (Suc (Suc (Suc (Suc (Suc (Suc (Suc n)))))))" by simp
  have i8: "idx + 8 = Suc (Suc (Suc (Suc (Suc (Suc (Suc (Suc idx)))))))" by simp
  have w: "(21559051525 :: u32) = 84215045" by (simp add: word_eq_iff_unsigned)
  show ?thesis
    unfolding n8 i8 key_period_def using assms m
    by (simp add: cache_step push_bit_eq_mult w del: BuildKeyCache_loop.simps)
qed

lemma cache_blocks:
  assumes "idx mod 8 = 0" "idx + 8 * k \<le> 320"
  shows "BuildKeyCache_loop (8 * k) idx 0x05050505 = concat (replicate k key_period)"
  using assms
proof (induction k arbitrary: idx)
  case (Suc k)
  then show ?case using cache_eight[of idx "8 * k"] by (simp add: add.commute)
qed simp

lemma key_cache_eq: "BuildKeyCache KEY_CACHE_LEN = concat (replicate 12 key_period)"
proof -
  have z: "push_bit 24 (ucast (5 :: 8 word)) OR push_bit 16 (ucast (5 :: 8 word))
      OR push_bit 8 (ucast (5 :: 8 word)) OR ucast (5 :: 8 word) = (0x05050505 :: u32)"
    by (simp add: push_bit_eq_mult)
  show ?thesis using cache_blocks[of 32 12]
    by (simp add: BuildKeyCache_def KEY_CACHE_LEN_def rss_key_def z)
qed

lemma nth_concat_replicate:
  "i < n * length p \<Longrightarrow> concat (replicate n p) ! i = p ! (i mod length p)"
proof (induction n arbitrary: i)
  case (Suc n)
  then show ?case by (cases "i < length p") (auto simp: nth_append le_mod_geq)
qed simp

lemma key_cache_nth:
  assumes "i < 96"
  shows "BuildKeyCache KEY_CACHE_LEN ! i = key_period ! (i mod 8)"
  using nth_concat_replicate[of i 12 key_period] assms by (simp add: key_cache_eq key_period_def)

lemma rss_fold_xor:
  "rss_fold cache i n msb x (a XOR b) = rss_fold cache i n msb x a XOR b"
proof (induction n arbitrary: i x a)
  case (Suc n)
  have "(a XOR b) XOR cache ! i = (a XOR cache ! i) XOR b" by (simp only: ac_simps)
  then show ?case using Suc.IH by simp
qed simp

lemma rss_fold_from_zero:
  "rss_fold cache i n msb x res = rss_fold cache i n msb x 0 XOR res"
  using rss_fold_xor[of cache i n msb x 0 res] by simp

lemma rss_fold_shift:
  assumes "i + n \<le> 96" "i' + n \<le> 96" "i mod 8 = i' mod 8"
  shows "rss_fold (BuildKeyCache KEY_CACHE_LEN) i n msb x res
       = rss_fold (BuildKeyCache KEY_CACHE_LEN) i' n msb x res"
  using assms
proof (induction n arbitrary: i i' x res)
  case (Suc n)
  have m: "Suc i mod 8 = Suc i' mod 8" unfolding mod_Suc[of i 8] mod_Suc[of i' 8] Suc.prems(3) by (rule refl)
  have b: "Suc i + n \<le> 96" "Suc i' + n \<le> 96" "i < 96" "i' < 96" using Suc.prems(1,2) by arith+
  have k: "BuildKeyCache KEY_CACHE_LEN ! i = BuildKeyCache KEY_CACHE_LEN ! i'"
    unfolding key_cache_nth[OF b(3)] key_cache_nth[OF b(4)] Suc.prems(3) by (rule refl)
  show ?case unfolding rss_fold.simps k by (rule Suc.IH[OF b(1) b(2) m])
qed simp

definition rss_half :: "nat \<Rightarrow> u32 \<Rightarrow> u32" where
  "rss_half i w = rss_fold (BuildKeyCache KEY_CACHE_LEN) i 32 0x80000000 w 0"

definition rss_port :: "nat \<Rightarrow> u16 \<Rightarrow> u32" where
  "rss_port i w = rss_fold (BuildKeyCache KEY_CACHE_LEN) i 16 0x8000 w 0"

lemma rss_parts:
  "rss_fold (BuildKeyCache KEY_CACHE_LEN) i 32 0x80000000 w res = rss_half i w XOR res"
  "rss_fold (BuildKeyCache KEY_CACHE_LEN) i 16 0x8000 p res = rss_port i p XOR res"
  unfolding rss_half_def rss_port_def by (rule rss_fold_from_zero)+

lemma rss_parts_shift: "rss_half 32 w = rss_half 0 w" "rss_port 80 p = rss_port 64 p"
  unfolding rss_half_def rss_port_def by (rule rss_fold_shift; simp)+

lemma GetRSSHash_eq:
  "GetRSSHash sip dip sp dp = rss_port 64 dp XOR (rss_port 64 sp XOR (rss_half 0 dip XOR rss_half 0 sip))"
  unfolding GetRSSHash_def Let_def rss_parts rss_parts_shift xor.right_neutral by (rule refl)

lemma GetRSSHash_swap: "GetRSSHash dip sip dp sp = GetRSSHash sip dip sp dp"
  unfolding GetRSSHash_eq by (simp only: ac_simps xor.left_commute)

lemma GetRSSCPUCore_swap:
  "GetRSSCPUCore et dip sip dp sp nq = GetRSSCPUCore et sip dip sp dp nq"
  unfolding GetRSSCPUCore_def by (simp only: GetRSSHash_swap[of dip sip dp sp])

lemma GetRSSCPUCore_bound:
  assumes "0 < nq"
  shows "GetRSSCPUCore et sip dip sp dp nq < nq"
  using assms unfolding GetRSSCPUCore_def by (simp add: word_mod_less_divisor Let_def)

end
