(* ===== verification/Addr_Pool.thy ===== *)
theory Addr_Pool
  imports Rss_Hash
begin

text \<open>
  The pool of local addresses for outgoing connections (\<open>addr_pool.c\<close>).  An entry is
  named by its index in the array \<open>ap->pool\<close>; the two \<open>TAILQ\<close>s are lists of such
  indices and the mapper is the two-dimensional pointer table, \<open>None\<close> for NULL.
  Allocation is taken to succeed; the mutex makes every operation one step.
  Removing an entry from a queue it is not on corrupts the queue in C, and is \<open>None\<close> here.
\<close>

section \<open>State\<close>

record sockaddr_in =
  sin_addr :: u32
  sin_port :: u16

record addr_pool =
  ap_pool :: "nat \<Rightarrow> sockaddr_in"
  mapper :: "(nat \<Rightarrow> nat \<Rightarrow> nat option) option"
  addr_base :: u32
  num_addr :: int
  num_entry :: int
  num_free :: int
  num_used :: int
  free_list :: "nat list"
  used_list :: "nat list"

definition MIN_PORT :: nat where "MIN_PORT = 1025"
definition MAX_PORT :: nat where "MAX_PORT = 65536"

definition empty_pool :: "u32 \<Rightarrow> int \<Rightarrow> addr_pool" where
  "empty_pool base n = \<lparr>ap_pool = (\<lambda>_. \<lparr>sin_addr = 0, sin_port = 0\<rparr>),
     mapper = Some (\<lambda>_ _. None), addr_base = ntohl base, num_addr = n,
     num_entry = 0, num_free = 0, num_used = 0, free_list = [], used_list = []\<rparr>"

section \<open>Creation\<close>

definition add_entry :: "nat \<Rightarrow> nat \<Rightarrow> u32 \<Rightarrow> nat \<Rightarrow> addr_pool \<Rightarrow> addr_pool" where
  "add_entry i j addr cnt ap =
     ap\<lparr>ap_pool := (ap_pool ap)(cnt := \<lparr>sin_addr = addr, sin_port = htons (of_nat j)\<rparr>),
        mapper := map_option (\<lambda>m. m(i := (m i)(j := Some cnt))) (mapper ap),
        free_list := free_list ap @ [cnt]\<rparr>"

fun create_ports :: "int \<Rightarrow> nat \<Rightarrow> u32 \<Rightarrow> nat list \<Rightarrow> nat \<times> addr_pool \<Rightarrow> nat \<times> addr_pool" where
  "create_ports ne i addr [] (cnt, ap) = (cnt, ap)"
| "create_ports ne i addr (j # js) (cnt, ap) =
     (let ap' = add_entry i j addr cnt ap in
      if int (cnt + 1) \<ge> ne then (cnt + 1, ap')
      else create_ports ne i addr js (cnt + 1, ap'))"

definition finish_pool :: "nat \<times> addr_pool \<Rightarrow> addr_pool" where
  "finish_pool r = (case r of (cnt, ap) \<Rightarrow>
     ap\<lparr>num_entry := int cnt, num_free := int cnt, num_used := 0\<rparr>)"

definition CreateAddressPool :: "u32 \<Rightarrow> int \<Rightarrow> addr_pool" where
  "CreateAddressPool base n =
     (let ne = n * int (MAX_PORT - MIN_PORT);
          ap = empty_pool base n
      in finish_pool (fold (\<lambda>i. create_ports ne i (htonl (addr_base ap + of_nat i)) [MIN_PORT..<MAX_PORT])
           [0..<nat n] (0, ap)))"

text \<open>The per-core pool keeps only addresses whose incoming packets reach the core.\<close>

fun create_ports_core :: "(nat \<Rightarrow> bool) \<Rightarrow> int \<Rightarrow> nat \<Rightarrow> u32 \<Rightarrow> nat list \<Rightarrow> nat \<times> addr_pool \<Rightarrow> nat \<times> addr_pool" where
  "create_ports_core on_core ne i addr [] (cnt, ap) = (cnt, ap)"
| "create_ports_core on_core ne i addr (j # js) (cnt, ap) =
     (if int cnt \<ge> ne then (cnt, ap)
      else if \<not> on_core j then create_ports_core on_core ne i addr js (cnt, ap)
      else create_ports_core on_core ne i addr js (cnt + 1, add_entry i j addr cnt ap))"

definition CreateAddressPoolPerCore :: "bool \<Rightarrow> u32 \<Rightarrow> u32 \<Rightarrow> u32 \<Rightarrow> int \<Rightarrow> u32 \<Rightarrow> u16 \<Rightarrow> addr_pool" where
  "CreateAddressPoolPerCore et core num_queues saddr_base n daddr dport =
     (let ne = (n * int (MAX_PORT - MIN_PORT)) div uint num_queues;
          ap = empty_pool saddr_base n;
          daddr_h = ntohl daddr;
          dport_h = ntohs dport
      in finish_pool (fold (\<lambda>i. let saddr_h = addr_base ap + of_nat i in
             create_ports_core
               (\<lambda>j. GetRSSCPUCore et daddr_h saddr_h dport_h (of_nat j) num_queues = core)
               ne i (htonl saddr_h) [MIN_PORT..<MAX_PORT])
           [0..<nat n] (0, ap)))"

section \<open>Fetching and freeing\<close>

definition TAILQ_take :: "nat \<Rightarrow> addr_pool \<Rightarrow> addr_pool" where
  "TAILQ_take walk ap = ap\<lparr>free_list := remove1 walk (free_list ap), used_list := used_list ap @ [walk],
     num_free := num_free ap - 1, num_used := num_used ap + 1\<rparr>"

definition fetch_match :: "bool \<Rightarrow> u32 \<Rightarrow> u32 \<Rightarrow> sockaddr_in \<Rightarrow> sockaddr_in \<Rightarrow> sockaddr_in \<Rightarrow> bool" where
  "fetch_match et core num_queues daddr saddr a \<longleftrightarrow>
     \<not> (sin_addr saddr \<noteq> 0 \<and> sin_addr a \<noteq> sin_addr saddr) \<and>
     \<not> (sin_port saddr \<noteq> 0 \<and> sin_port a \<noteq> sin_port saddr) \<and>
     core = GetRSSCPUCore et (ntohl (sin_addr a)) (ntohl (sin_addr daddr))
              (ntohs (sin_port a)) (ntohs (sin_port daddr)) num_queues"

definition FetchAddress ::
  "bool \<Rightarrow> addr_pool \<Rightarrow> u32 \<Rightarrow> u32 \<Rightarrow> sockaddr_in \<Rightarrow> sockaddr_in \<Rightarrow> int \<times> sockaddr_in \<times> addr_pool" where
  "FetchAddress et ap core num_queues daddr saddr =
     (case find (\<lambda>k. fetch_match et core num_queues daddr saddr (ap_pool ap k)) (free_list ap) of
        Some walk \<Rightarrow> (0, ap_pool ap walk, TAILQ_take walk ap)
      | None \<Rightarrow> (-1, saddr, ap))"

definition FetchAddressPerCore ::
  "addr_pool \<Rightarrow> sockaddr_in \<Rightarrow> int \<times> sockaddr_in \<times> addr_pool" where
  "FetchAddressPerCore ap saddr =
     (case free_list ap of
        walk # _ \<Rightarrow> (0, ap_pool ap walk, TAILQ_take walk ap)
      | [] \<Rightarrow> (-1, saddr, ap))"

definition FreeAddress :: "addr_pool \<Rightarrow> sockaddr_in \<Rightarrow> (int \<times> addr_pool) option" where
  "FreeAddress ap addr =
     (let walk =
        (case mapper ap of
           Some m \<Rightarrow>
             (let index = sint (ntohl (sin_addr addr) - addr_base ap) in
              if 0 \<le> index \<and> index < num_addr ap
              then m (unat (ntohl (sin_addr addr) - addr_base ap)) (unat (ntohs (sin_port addr)))
              else None)
         | None \<Rightarrow> find (\<lambda>k. sin_port addr = sin_port (ap_pool ap k) \<and>
                            sin_addr addr = sin_addr (ap_pool ap k)) (used_list ap))
      in case walk of
           None \<Rightarrow> Some (-1, ap)
         | Some w \<Rightarrow>
             if w \<in> set (used_list ap)
             then Some (0, ap\<lparr>used_list := remove1 w (used_list ap), free_list := free_list ap @ [w],
                              num_free := num_free ap + 1, num_used := num_used ap - 1\<rparr>)
             else None)"

section \<open>The pool as it is built\<close>

definition pool_addr :: "u32 \<Rightarrow> nat \<Rightarrow> nat \<Rightarrow> sockaddr_in" where
  "pool_addr base i j = \<lparr>sin_addr = htonl (ntohl base + of_nat i), sin_port = htons (of_nat j)\<rparr>"

text \<open>\<open>S\<close> is the set of grid points entered so far, \<open>cnt\<close> their number.\<close>

definition built :: "u32 \<Rightarrow> int \<Rightarrow> (nat \<times> nat) set \<Rightarrow> nat \<Rightarrow> addr_pool \<Rightarrow> bool" where
  "built base n S cnt ap \<longleftrightarrow>
     free_list ap = [0..<cnt] \<and> used_list ap = [] \<and> addr_base ap = ntohl base \<and> num_addr ap = n \<and>
     (\<exists>m. mapper ap = Some m \<and> (\<forall>i j. m i j \<noteq> None \<longleftrightarrow> (i, j) \<in> S) \<and>
        (\<forall>i j k. m i j = Some k \<longrightarrow> k < cnt \<and> ap_pool ap k = pool_addr base i j) \<and>
        (\<forall>k < cnt. \<exists>i j. m i j = Some k))"

lemma built_empty: "built base n {} 0 (empty_pool base n)"
  by (simp add: built_def empty_pool_def)

lemma built_add:
  assumes "built base n S cnt ap" "(i, j) \<notin> S" "addr = htonl (ntohl base + of_nat i)"
  shows "built base n (insert (i, j) S) (cnt + 1) (add_entry i j addr cnt ap)"
proof -
  obtain m where m: "mapper ap = Some m" "\<And>i j. m i j \<noteq> None \<longleftrightarrow> (i, j) \<in> S"
    "\<And>i j k. m i j = Some k \<Longrightarrow> k < cnt \<and> ap_pool ap k = pool_addr base i j"
    "\<And>k. k < cnt \<Longrightarrow> \<exists>i j. m i j = Some k"
    using assms(1) by (auto simp: built_def)
  let ?m = "m(i := (m i)(j := Some cnt))"
  have none: "m i j = None" using m(2)[of i j] assms(2) by auto
  have dom: "?m a b \<noteq> None \<longleftrightarrow> (a, b) \<in> insert (i, j) S" for a b
    using m(2)[of a b] by auto
  have val: "?m a b = Some k \<Longrightarrow> k < cnt + 1 \<and>
      ((ap_pool ap)(cnt := \<lparr>sin_addr = addr, sin_port = htons (of_nat j)\<rparr>)) k = pool_addr base a b" for a b k
    using m(3)[of a b k] assms(3) by (auto simp: pool_addr_def split: if_splits)
  have surj: "\<exists>a b. ?m a b = Some k" if k: "k < cnt + 1" for k
  proof (cases "k = cnt")
    case True then show ?thesis by (intro exI[of _ i] exI[of _ j]) simp
  next
    case False
    then obtain a b where ab: "m a b = Some k" using m(4)[of k] k by auto
    then have "(a, b) \<noteq> (i, j)" using none by auto
    then show ?thesis using ab by (intro exI[of _ a] exI[of _ b]) auto
  qed
  show ?thesis unfolding built_def
  proof (intro conjI exI[of _ ?m])
    show "mapper (add_entry i j addr cnt ap) = Some ?m" by (simp add: add_entry_def m(1))
  qed (use assms(1) dom val surj in \<open>auto simp: built_def add_entry_def split: if_splits\<close>)
qed

lemma built_ports:
  assumes "built base n S cnt ap" "addr = htonl (ntohl base + of_nat i)" "distinct js"
    and "\<forall>j \<in> set js. (i, j) \<notin> S" and "create_ports ne i addr js (cnt, ap) = (cnt', ap')"
  shows "\<exists>S'. built base n S' cnt' ap' \<and> S' \<subseteq> S \<union> {i} \<times> set js"
  using assms
proof (induction js arbitrary: S cnt ap)
  case (Cons j js)
  have b: "built base n (insert (i, j) S) (cnt + 1) (add_entry i j addr cnt ap)"
    by (rule built_add) (use Cons.prems in auto)
  show ?case
  proof (cases "int (cnt + 1) \<ge> ne")
    case True then show ?thesis using b Cons.prems by (auto simp: Let_def)
  next
    case False
    then have c: "create_ports ne i addr js (cnt + 1, add_entry i j addr cnt ap) = (cnt', ap')"
      using Cons.prems(5) by (simp add: Let_def)
    have "\<exists>S'. built base n S' cnt' ap' \<and> S' \<subseteq> insert (i, j) S \<union> {i} \<times> set js"
      by (rule Cons.IH[OF b _ _ _ c]) (use Cons.prems in auto)
    then show ?thesis by auto
  qed
qed auto

lemma built_ports_core:
  assumes "built base n S cnt ap" "addr = htonl (ntohl base + of_nat i)" "distinct js"
    and "\<forall>j \<in> set js. (i, j) \<notin> S" and "create_ports_core P ne i addr js (cnt, ap) = (cnt', ap')"
  shows "\<exists>S'. built base n S' cnt' ap' \<and> S' \<subseteq> S \<union> {i} \<times> {j \<in> set js. P j}"
  using assms
proof (induction js arbitrary: S cnt ap)
  case (Cons j js)
  show ?case
  proof (cases "int cnt \<ge> ne")
    case True then show ?thesis using Cons.prems by auto
  next
    case nfull: False
    show ?thesis
    proof (cases "P j")
      case True
      have b: "built base n (insert (i, j) S) (cnt + 1) (add_entry i j addr cnt ap)"
        by (rule built_add) (use Cons.prems in auto)
      have c: "create_ports_core P ne i addr js (cnt + 1, add_entry i j addr cnt ap) = (cnt', ap')"
        using Cons.prems(5) nfull True by simp
      have "\<exists>S'. built base n S' cnt' ap' \<and> S' \<subseteq> insert (i, j) S \<union> {i} \<times> {j \<in> set js. P j}"
        by (rule Cons.IH[OF b _ _ _ c]) (use Cons.prems in auto)
      then show ?thesis using True by auto
    next
      case False
      have c: "create_ports_core P ne i addr js (cnt, ap) = (cnt', ap')"
        using Cons.prems(5) nfull False by simp
      have "\<exists>S'. built base n S' cnt' ap' \<and> S' \<subseteq> S \<union> {i} \<times> {j \<in> set js. P j}"
        by (rule Cons.IH[OF Cons.prems(1) _ _ _ c]) (use Cons.prems in auto)
      then show ?thesis by auto
    qed
  qed
qed auto

text \<open>Both creation loops, over the addresses in order.\<close>

lemma built_fold:
  assumes step: "\<And>i cnt ap cnt' ap' S. built base n S cnt ap \<Longrightarrow> (\<forall>j. (i, j) \<notin> S) \<Longrightarrow>
      body i (cnt, ap) = (cnt', ap') \<Longrightarrow>
      \<exists>S'. built base n S' cnt' ap' \<and> S' \<subseteq> S \<union> {i} \<times> Q i"
    and "distinct is" "built base n S cnt ap" "\<forall>i \<in> set is. \<forall>j. (i, j) \<notin> S"
    and "fold body is (cnt, ap) = (cnt', ap')"
  shows "\<exists>S'. built base n S' cnt' ap' \<and> S' \<subseteq> S \<union> Sigma (set is) Q"
  using assms(2-)
proof (induction "is" arbitrary: S cnt ap)
  case (Cons i "is")
  obtain c1 a1 where b1: "body i (cnt, ap) = (c1, a1)" by (rule prod.exhaust)
  obtain S1 where S1: "built base n S1 c1 a1" "S1 \<subseteq> S \<union> {i} \<times> Q i"
    using step[OF Cons.prems(2) _ b1] Cons.prems(3) by auto
  have r: "fold body is (c1, a1) = (cnt', ap')" using Cons.prems(4) b1 by simp
  have "\<exists>S'. built base n S' cnt' ap' \<and> S' \<subseteq> S1 \<union> Sigma (set is) Q"
    by (rule Cons.IH[OF _ S1(1) _ r]) (use Cons.prems S1(2) in auto)
  then show ?case using S1(2) by fastforce
qed auto

section \<open>The pool as it is used\<close>

definition port_range :: "nat set" where
  "port_range = {MIN_PORT..<MAX_PORT}"

definition core_ports :: "bool \<Rightarrow> u32 \<Rightarrow> u32 \<Rightarrow> u32 \<Rightarrow> u32 \<Rightarrow> u16 \<Rightarrow> nat \<Rightarrow> nat set" where
  "core_ports et core nq base daddr dport i = {j \<in> port_range.
     GetRSSCPUCore et (ntohl daddr) (ntohl base + of_nat i) (ntohs dport) (of_nat j) nq = core}"

lemma finish_pool_built:
  assumes "built base n S cnt ap"
  shows "built base n S cnt (finish_pool (cnt, ap)) \<and> num_entry (finish_pool (cnt, ap)) = int cnt \<and>
    num_free (finish_pool (cnt, ap)) = int cnt \<and> num_used (finish_pool (cnt, ap)) = 0"
  using assms by (simp add: built_def finish_pool_def)

lemma CreateAddressPool_built:
  "\<exists>S cnt. built base n S cnt (CreateAddressPool base n) \<and> S \<subseteq> {..<nat n} \<times> port_range \<and>
     num_entry (CreateAddressPool base n) = int cnt \<and> num_free (CreateAddressPool base n) = int cnt \<and>
     num_used (CreateAddressPool base n) = 0"
proof -
  define body where "body = (\<lambda>i. create_ports (n * int (MAX_PORT - MIN_PORT)) i
     (htonl (ntohl base + of_nat i)) [MIN_PORT..<MAX_PORT])"
  obtain cnt ap where r: "fold body [0..<nat n] (0, empty_pool base n) = (cnt, ap)" by (rule prod.exhaust)
  have c: "CreateAddressPool base n = finish_pool (cnt, ap)"
    unfolding CreateAddressPool_def Let_def using r by (simp add: body_def empty_pool_def)
  have "\<exists>S'. built base n S' cnt ap \<and> S' \<subseteq> {} \<union> Sigma (set [0..<nat n]) (\<lambda>_. port_range)"
  proof (rule built_fold[OF _ _ built_empty _ r])
    fix i c a c' a' S
    assume b: "built base n S c a" and f: "\<forall>j. (i, j) \<notin> S" and e: "body i (c, a) = (c', a')"
    have "\<exists>S'. built base n S' c' a' \<and> S' \<subseteq> S \<union> {i} \<times> set [MIN_PORT..<MAX_PORT]"
      by (rule built_ports[OF b refl _ _ e[unfolded body_def]]) (use f in auto)
    then show "\<exists>S'. built base n S' c' a' \<and> S' \<subseteq> S \<union> {i} \<times> port_range"
      by (simp add: port_range_def)
  qed auto
  then obtain S where S: "built base n S cnt ap" "S \<subseteq> {..<nat n} \<times> port_range" by (auto simp: atLeast0LessThan)
  show ?thesis unfolding c using finish_pool_built[OF S(1)] S(2) by blast
qed

lemma CreateAddressPoolPerCore_built:
  fixes et core nq base n daddr dport
  defines "ap0 \<equiv> CreateAddressPoolPerCore et core nq base n daddr dport"
  shows "\<exists>S cnt. built base n S cnt ap0 \<and> S \<subseteq> Sigma {..<nat n} (core_ports et core nq base daddr dport) \<and>
     num_entry ap0 = int cnt \<and> num_free ap0 = int cnt \<and> num_used ap0 = 0"
proof -
  define P where "P = (\<lambda>i j. GetRSSCPUCore et (ntohl daddr) (ntohl base + of_nat i) (ntohs dport) (of_nat j) nq = core)"
  define body where "body = (\<lambda>i. create_ports_core (P i) (n * int (MAX_PORT - MIN_PORT) div uint nq) i
     (htonl (ntohl base + of_nat i)) [MIN_PORT..<MAX_PORT])"
  obtain cnt ap where r: "fold body [0..<nat n] (0, empty_pool base n) = (cnt, ap)" by (rule prod.exhaust)
  have c: "ap0 = finish_pool (cnt, ap)"
    unfolding ap0_def CreateAddressPoolPerCore_def Let_def using r
    by (simp add: body_def P_def empty_pool_def)
  have "\<exists>S'. built base n S' cnt ap \<and>
      S' \<subseteq> {} \<union> Sigma (set [0..<nat n]) (core_ports et core nq base daddr dport)"
  proof (rule built_fold[OF _ _ built_empty _ r])
    fix i c a c' a' S
    assume b: "built base n S c a" and f: "\<forall>j. (i, j) \<notin> S" and e: "body i (c, a) = (c', a')"
    have "\<exists>S'. built base n S' c' a' \<and> S' \<subseteq> S \<union> {i} \<times> {j \<in> set [MIN_PORT..<MAX_PORT]. P i j}"
      by (rule built_ports_core[OF b refl _ _ e[unfolded body_def]]) (use f in auto)
    then show "\<exists>S'. built base n S' c' a' \<and> S' \<subseteq> S \<union> {i} \<times> core_ports et core nq base daddr dport i"
      by (simp add: port_range_def core_ports_def P_def)
  qed auto
  then obtain S where S: "built base n S cnt ap" "S \<subseteq> Sigma {..<nat n} (core_ports et core nq base daddr dport)"
    by (auto simp: atLeast0LessThan)
  show ?thesis unfolding c using finish_pool_built[OF S(1)] S(2) by blast
qed

section \<open>Runs\<close>

text \<open>
  A run of calls on a pool, with the set of addresses its clients hold.  Clients free what
  they hold; both ways of fetching may be mixed.
\<close>

inductive pool_run :: "bool \<Rightarrow> addr_pool \<Rightarrow> addr_pool \<Rightarrow> sockaddr_in set \<Rightarrow> bool"
  for et :: bool and ap0 :: addr_pool where
  run_start: "pool_run et ap0 ap0 {}"
| run_fetch: "pool_run et ap0 ap H \<Longrightarrow>
    FetchAddress et ap core nq daddr saddr = (0, a, ap') \<Longrightarrow> pool_run et ap0 ap' (insert a H)"
| run_fetch_core: "pool_run et ap0 ap H \<Longrightarrow>
    FetchAddressPerCore ap saddr = (0, a, ap') \<Longrightarrow> pool_run et ap0 ap' (insert a H)"
| run_free: "pool_run et ap0 ap H \<Longrightarrow> a \<in> H \<Longrightarrow> FreeAddress ap a = Some (r, ap') \<Longrightarrow>
    pool_run et ap0 ap' (H - {a})"

definition pool_addrs :: "addr_pool \<Rightarrow> sockaddr_in set" where
  "pool_addrs ap0 = ap_pool ap0 ` {..<nat (num_entry ap0)}"

text \<open>What each call promises, against the addresses held.\<close>

definition fetch_ok where
  "fetch_ok et ap0 ap H core nq daddr saddr = (\<lambda>(r, a, ap').
     if r = (0 :: int)
     then a \<in> pool_addrs ap0 \<and> a \<notin> H \<and> fetch_match et core nq daddr saddr a \<and>
       GetRSSCPUCore et (ntohl (sin_addr daddr)) (ntohl (sin_addr a))
         (ntohs (sin_port daddr)) (ntohs (sin_port a)) nq = core
     else r = -1 \<and> a = saddr \<and> ap' = ap \<and>
       (\<forall>b \<in> pool_addrs ap0. fetch_match et core nq daddr saddr b \<longrightarrow> b \<in> H))"

definition fetch_core_ok where
  "fetch_core_ok et ap0 ap H core nq daddr dport saddr = (\<lambda>(r, a, ap').
     if r = (0 :: int)
     then a \<in> pool_addrs ap0 \<and> a \<notin> H \<and>
       GetRSSCPUCore et (ntohl daddr) (ntohl (sin_addr a)) (ntohs dport) (ntohs (sin_port a)) nq = core
     else r = -1 \<and> a = saddr \<and> ap' = ap \<and> H = pool_addrs ap0)"

definition free_ok where
  "free_ok ap0 ap H a res =
     (if a \<in> H then (\<exists>ap'. res = Some (0 :: int, ap') \<and> num_free ap' = num_free ap + 1)
      else if a \<notin> pool_addrs ap0 then res = Some (-1, ap)
      else res = None)"

section \<open>The invariant\<close>

definition grid_ok :: "u32 \<Rightarrow> int \<Rightarrow> addr_pool \<Rightarrow> bool" where
  "grid_ok base n ap0 \<longleftrightarrow> addr_base ap0 = ntohl base \<and> num_addr ap0 = n \<and> 0 \<le> n \<and> n < 2 ^ 31 \<and>
     (\<exists>m. mapper ap0 = Some m \<and>
        (\<forall>i j k. m i j = Some k \<longrightarrow> i < nat n \<and> j < 2 ^ 16 \<and> k < nat (num_entry ap0) \<and> ap_pool ap0 k = pool_addr base i j) \<and>
        (\<forall>k < nat (num_entry ap0). \<exists>i j. m i j = Some k))"

definition pool_inv :: "addr_pool \<Rightarrow> addr_pool \<Rightarrow> sockaddr_in set \<Rightarrow> bool" where
  "pool_inv ap0 ap H \<longleftrightarrow>
     ap_pool ap = ap_pool ap0 \<and> mapper ap = mapper ap0 \<and> addr_base ap = addr_base ap0 \<and>
     num_addr ap = num_addr ap0 \<and> num_entry ap = num_entry ap0 \<and>
     distinct (free_list ap @ used_list ap) \<and>
     set (free_list ap) \<union> set (used_list ap) = {..<nat (num_entry ap0)} \<and>
     num_free ap = int (length (free_list ap)) \<and> num_used ap = int (length (used_list ap)) \<and>
     H = ap_pool ap0 ` set (used_list ap)"

lemma pool_addr_inj:
  assumes "pool_addr base i j = pool_addr base i' j'" "i < 2 ^ 32" "i' < 2 ^ 32" "j < 2 ^ 16" "j' < 2 ^ 16"
  shows "i = i' \<and> j = j'"
proof -
  have "(of_nat i :: u32) = of_nat i'" "(of_nat j :: u16) = of_nat j'"
    using assms(1) by (auto simp: pool_addr_def)
  then have "unat (of_nat i :: u32) = unat (of_nat i' :: u32)" "unat (of_nat j :: u16) = unat (of_nat j' :: u16)"
    by simp_all
  then show ?thesis using assms(2-5)
    by (simp add: unat_of_nat take_bit_nat_eq_self)
qed

lemma grid_ok_inj: "grid_ok base n ap0 \<Longrightarrow> inj_on (ap_pool ap0) {..<nat (num_entry ap0)}"
proof (rule inj_onI)
  fix k k' assume g: "grid_ok base n ap0" and k: "k \<in> {..<nat (num_entry ap0)}"
    and k': "k' \<in> {..<nat (num_entry ap0)}" and e: "ap_pool ap0 k = ap_pool ap0 k'"
  obtain m where m: "\<And>i j k. m i j = Some k \<Longrightarrow> i < nat n \<and> j < 2 ^ 16 \<and> ap_pool ap0 k = pool_addr base i j"
    "\<And>k. k < nat (num_entry ap0) \<Longrightarrow> \<exists>i j. m i j = Some k" and n: "n < 2 ^ 31"
    using g by (auto simp: grid_ok_def)
  obtain i j i' j' where ij: "m i j = Some k" "m i' j' = Some k'" using m(2) k k' by force
  have p: "pool_addr base i j = pool_addr base i' j'" using m(1) ij e by metis
  have "i < 2 ^ 32 \<and> i' < 2 ^ 32 \<and> j < 2 ^ 16 \<and> j' < 2 ^ 16" using m(1)[OF ij(1)] m(1)[OF ij(2)] n by auto
  then have "i = i' \<and> j = j'" using pool_addr_inj[OF p] by blast
  then show "k = k'" using ij by simp
qed

lemma int_length_remove1: "x \<in> set xs \<Longrightarrow> int (length (remove1 x xs)) = int (length xs) - 1"
  by (induction xs) auto

lemma pool_inv_take:
  assumes "pool_inv ap0 ap H" "k \<in> set (free_list ap)"
  shows "pool_inv ap0 (TAILQ_take k ap) (insert (ap_pool ap0 k) H)"
proof -
  have "set (remove1 k (free_list ap)) = set (free_list ap) - {k}"
    using assms by (simp add: pool_inv_def)
  then show ?thesis using assms
    by (auto simp: pool_inv_def TAILQ_take_def int_length_remove1)
qed

lemma pool_inv_fresh:
  assumes "grid_ok base n ap0" "pool_inv ap0 ap H" "k \<in> set (free_list ap)"
  shows "ap_pool ap0 k \<in> pool_addrs ap0 \<and> ap_pool ap0 k \<notin> H"
proof -
  have inj: "inj_on (ap_pool ap0) {..<nat (num_entry ap0)}" by (rule grid_ok_inj[OF assms(1)])
  have k: "k \<in> {..<nat (num_entry ap0)}" "k \<notin> set (used_list ap)" "set (used_list ap) \<subseteq> {..<nat (num_entry ap0)}"
    using assms(2,3) by (auto simp: pool_inv_def)
  have H: "H = ap_pool ap0 ` set (used_list ap)" using assms(2) by (simp add: pool_inv_def)
  have "ap_pool ap0 k \<notin> H" unfolding H using inj_on_image_mem_iff[OF inj k(1) k(3)] k(2) by simp
  then show ?thesis using k(1) by (simp add: pool_addrs_def)
qed

lemma pool_inv_all: "pool_inv ap0 ap H \<Longrightarrow> pool_addrs ap0 = H \<union> ap_pool ap0 ` set (free_list ap)"
  unfolding pool_inv_def pool_addrs_def by (metis image_Un sup_commute)

text \<open>The mapper finds exactly the entry of an address of the pool.\<close>

lemma FreeAddress_lookup:
  assumes g: "grid_ok base n ap0" and inv: "pool_inv ap0 ap H" and k: "k < nat (num_entry ap0)"
  shows "FreeAddress ap (ap_pool ap0 k) =
    (if k \<in> set (used_list ap)
     then Some (0, ap\<lparr>used_list := remove1 k (used_list ap), free_list := free_list ap @ [k],
                 num_free := num_free ap + 1, num_used := num_used ap - 1\<rparr>)
     else None)"
proof -
  obtain m where m: "mapper ap0 = Some m"
    "\<And>i j k. m i j = Some k \<Longrightarrow> i < nat n \<and> j < 2 ^ 16 \<and> ap_pool ap0 k = pool_addr base i j"
    "\<And>k. k < nat (num_entry ap0) \<Longrightarrow> \<exists>i j. m i j = Some k" and n: "n < 2 ^ 31"
    and b: "addr_base ap0 = ntohl base" "num_addr ap0 = n"
    using g by (auto simp: grid_ok_def)
  obtain i j where ij: "m i j = Some k" using m(3)[OF k] by blast
  then have p: "ap_pool ap0 k = pool_addr base i j" "i < nat n" "j < 2 ^ 16" using m(2) by blast+
  have i: "i < 2 ^ 31" using p(2) n by simp
  have s: "sint (of_nat i :: u32) = int i" "unat (of_nat i :: u32) = i" "unat (of_nat j :: u16) = j"
    using i p(3) by (simp_all add: signed_of_nat unat_of_nat take_bit_nat_eq_self signed_take_bit_int_eq_self)
  have ap: "mapper ap = Some m" "addr_base ap = ntohl base" "num_addr ap = n"
    using inv m(1) b by (simp_all add: pool_inv_def)
  show ?thesis unfolding FreeAddress_def p(1) pool_addr_def Let_def using ap s ij p(2) by simp
qed

lemma FreeAddress_foreign:
  assumes g: "grid_ok base n ap0" and inv: "pool_inv ap0 ap H" and a: "a \<notin> pool_addrs ap0"
  shows "FreeAddress ap a = Some (-1, ap)"
proof -
  obtain m where m: "mapper ap0 = Some m"
    "\<And>i j k. m i j = Some k \<Longrightarrow> i < nat n \<and> j < 2 ^ 16 \<and> k < nat (num_entry ap0) \<and> ap_pool ap0 k = pool_addr base i j"
    and b: "addr_base ap0 = ntohl base" "num_addr ap0 = n"
    using g by (auto simp: grid_ok_def)
  have ap: "mapper ap = Some m" "addr_base ap = ntohl base" "num_addr ap = n"
    using inv m(1) b by (simp_all add: pool_inv_def)
  have "m (unat (ntohl (sin_addr a) - ntohl base)) (unat (ntohs (sin_port a))) = None"
  proof (rule ccontr)
    assume "\<not> ?thesis"
    then obtain k where k: "m (unat (ntohl (sin_addr a) - ntohl base)) (unat (ntohs (sin_port a))) = Some k"
      by blast
    then have "ap_pool ap0 k = a" "k < nat (num_entry ap0)" using m(2)[OF k] by (auto simp: pool_addr_def)
    then show False using a by (auto simp: pool_addrs_def)
  qed
  then show ?thesis unfolding FreeAddress_def Let_def using ap by simp
qed

lemma pool_inv_give:
  assumes "grid_ok base n ap0" "pool_inv ap0 ap H" "k \<in> set (used_list ap)"
  shows "pool_inv ap0 (ap\<lparr>used_list := remove1 k (used_list ap), free_list := free_list ap @ [k],
     num_free := num_free ap + 1, num_used := num_used ap - 1\<rparr>) (H - {ap_pool ap0 k})"
proof -
  have inj: "inj_on (ap_pool ap0) {..<nat (num_entry ap0)}" by (rule grid_ok_inj[OF assms(1)])
  have d: "distinct (used_list ap)" "set (used_list ap) \<subseteq> {..<nat (num_entry ap0)}"
    and H: "H = ap_pool ap0 ` set (used_list ap)" using assms(2) by (auto simp: pool_inv_def)
  have k: "k \<in> {..<nat (num_entry ap0)}" using assms(3) d(2) by auto
  have r: "set (remove1 k (used_list ap)) = set (used_list ap) - {k}" using d(1) by simp
  have "H - {ap_pool ap0 k} = ap_pool ap0 ` (set (used_list ap) - {k})"
    unfolding H using inj_on_image_set_diff[OF inj, of "set (used_list ap)" "{k}"] d(2) k by auto
  then show ?thesis using assms(2,3) r
    by (auto simp: pool_inv_def int_length_remove1)
qed

lemma run_inv:
  assumes "pool_run et ap0 ap H" "grid_ok base n ap0" "pool_inv ap0 ap0 {}"
  shows "pool_inv ap0 ap H"
  using assms(1)
proof (induction rule: pool_run.induct)
  case run_start show ?case by (rule assms(3))
next
  case (run_fetch ap H core nq daddr saddr a ap')
  have p: "ap_pool ap = ap_pool ap0" using run_fetch.IH by (simp add: pool_inv_def)
  show ?case using run_fetch.hyps(2) pool_inv_take[OF run_fetch.IH] p
    by (auto simp: FetchAddress_def split: option.splits dest!: find_SomeD)
next
  case (run_fetch_core ap H saddr a ap')
  have p: "ap_pool ap = ap_pool ap0" using run_fetch_core.IH by (simp add: pool_inv_def)
  show ?case using run_fetch_core.hyps(2) pool_inv_take[OF run_fetch_core.IH] p
    by (auto simp: FetchAddressPerCore_def split: list.splits)
next
  case (run_free ap H a r ap')
  obtain k where k: "a = ap_pool ap0 k" "k \<in> set (used_list ap)"
    using run_free.hyps(2) run_free.IH by (auto simp: pool_inv_def)
  have "k < nat (num_entry ap0)" using k(2) run_free.IH by (auto simp: pool_inv_def)
  then have "ap' = ap\<lparr>used_list := remove1 k (used_list ap), free_list := free_list ap @ [k],
                 num_free := num_free ap + 1, num_used := num_used ap - 1\<rparr>"
    using run_free.hyps(3) FreeAddress_lookup[OF assms(2) run_free.IH] k by auto
  then show ?case using pool_inv_give[OF assms(2) run_free.IH k(2)] k(1) by simp
qed

lemma built_start:
  assumes "built base n S cnt ap0" "S \<subseteq> {..<nat n} \<times> port_range" "0 \<le> n" "n < 2 ^ 31"
    and "num_entry ap0 = int cnt" "num_free ap0 = int cnt" "num_used ap0 = 0"
  shows "grid_ok base n ap0 \<and> pool_inv ap0 ap0 {}"
proof -
  obtain m where m: "mapper ap0 = Some m" "\<And>i j. m i j \<noteq> None \<longleftrightarrow> (i, j) \<in> S"
    "\<And>i j k. m i j = Some k \<Longrightarrow> k < cnt \<and> ap_pool ap0 k = pool_addr base i j"
    "\<And>k. k < cnt \<Longrightarrow> \<exists>i j. m i j = Some k"
    using assms(1) by (auto simp: built_def)
  have rng: "i < nat n \<and> j < 2 ^ 16" if "m i j = Some k" for i j k
  proof -
    have "(i, j) \<in> {..<nat n} \<times> port_range" using m(2)[of i j] that assms(2) by auto
    then show ?thesis by (simp add: port_range_def MAX_PORT_def)
  qed
  have "grid_ok base n ap0"
    unfolding grid_ok_def using assms(1,3-5) m rng by (auto simp: built_def)
  moreover have "pool_inv ap0 ap0 {}"
    using assms(1,5-7) by (auto simp: built_def pool_inv_def)
  ultimately show ?thesis by simp
qed

lemma fetch_ok_inv:
  assumes "grid_ok base n ap0" "pool_inv ap0 ap H"
  shows "fetch_ok et ap0 ap H core nq daddr saddr (FetchAddress et ap core nq daddr saddr)"
proof -
  have p: "ap_pool ap = ap_pool ap0" using assms(2) by (simp add: pool_inv_def)
  show ?thesis
  proof (cases "find (\<lambda>k. fetch_match et core nq daddr saddr (ap_pool ap k)) (free_list ap)")
    case None
    then have "\<forall>k \<in> set (free_list ap). \<not> fetch_match et core nq daddr saddr (ap_pool ap0 k)"
      by (simp add: find_Some_iff_mem p)
    then show ?thesis using None pool_inv_all[OF assms(2)] by (auto simp: FetchAddress_def fetch_ok_def)
  next
    case (Some k)
    then have k: "k \<in> set (free_list ap)" "fetch_match et core nq daddr saddr (ap_pool ap0 k)"
      using find_SomeD[OF Some] p by simp_all
    then show ?thesis using Some pool_inv_fresh[OF assms k(1)] p
      by (simp add: FetchAddress_def fetch_ok_def fetch_match_def GetRSSCPUCore_swap)
  qed
qed

lemma free_ok_inv:
  assumes "grid_ok base n ap0" "pool_inv ap0 ap H"
  shows "free_ok ap0 ap H a (FreeAddress ap a)"
proof (cases "a \<in> pool_addrs ap0")
  case False
  then show ?thesis using FreeAddress_foreign[OF assms False] pool_inv_all[OF assms(2)]
    by (auto simp: free_ok_def)
next
  case True
  then obtain k where k: "k < nat (num_entry ap0)" "a = ap_pool ap0 k" by (auto simp: pool_addrs_def)
  have "k \<in> set (used_list ap) \<longleftrightarrow> a \<in> H"
    using inj_on_image_mem_iff[OF grid_ok_inj[OF assms(1)], of k "set (used_list ap)"] k assms(2)
    by (auto simp: pool_inv_def)
  then show ?thesis using FreeAddress_lookup[OF assms k(1)] k(2) True by (simp add: free_ok_def)
qed

lemma counts_inv:
  assumes "grid_ok base n ap0" "pool_inv ap0 ap H"
  shows "num_used ap = int (card H) \<and> num_free ap = int (card (pool_addrs ap0 - H))"
proof -
  have inj: "inj_on (ap_pool ap0) {..<nat (num_entry ap0)}" by (rule grid_ok_inj[OF assms(1)])
  have d: "distinct (used_list ap)" "distinct (free_list ap)" "set (used_list ap) \<subseteq> {..<nat (num_entry ap0)}"
    "set (free_list ap) \<subseteq> {..<nat (num_entry ap0)}"
    "set (free_list ap) = {..<nat (num_entry ap0)} - set (used_list ap)"
    and H: "H = ap_pool ap0 ` set (used_list ap)" using assms(2) by (auto simp: pool_inv_def)
  have "card H = length (used_list ap)"
    unfolding H using card_image[OF inj_on_subset[OF inj d(3)]] distinct_card[OF d(1)] by simp
  moreover have "pool_addrs ap0 - H = ap_pool ap0 ` set (free_list ap)"
    unfolding H pool_addrs_def d(5) using inj_on_image_set_diff[OF inj _ d(3)] by blast
  then have "card (pool_addrs ap0 - H) = length (free_list ap)"
    using card_image[OF inj_on_subset[OF inj d(4)]] distinct_card[OF d(2)] by simp
  ultimately show ?thesis using assms(2) by (simp add: pool_inv_def)
qed

section \<open>The properties\<close>

text \<open>
  C17.  The address pool hands out every local address at most once.  In every state that
  fetches and frees reach from a created pool: \<open>FetchAddress\<close> returns an address that
  nobody holds, that matches what was asked for, and whose packets the network card
  steers to the caller's core in both directions; it fails only when every matching
  address is held; freeing a held address succeeds, freeing an address outside the pool
  is refused; the two counters are exact.
\<close>

theorem address_pool_safe:
  assumes "pool_run et (CreateAddressPool base n) ap H"
    and "0 \<le> n" "n * int (MAX_PORT - MIN_PORT) < 2 ^ 31"
  shows "fetch_ok et (CreateAddressPool base n) ap H core nq daddr saddr (FetchAddress et ap core nq daddr saddr) \<and>
    free_ok (CreateAddressPool base n) ap H a (FreeAddress ap a) \<and>
    num_used ap = int (card H) \<and> num_free ap = int (card (pool_addrs (CreateAddressPool base n) - H))"
proof -
  obtain S cnt where b: "built base n S cnt (CreateAddressPool base n)" "S \<subseteq> {..<nat n} \<times> port_range"
    "num_entry (CreateAddressPool base n) = int cnt" "num_free (CreateAddressPool base n) = int cnt"
    "num_used (CreateAddressPool base n) = 0"
    using CreateAddressPool_built[of base n] by blast
  have n: "n < 2 ^ 31" using assms(2,3) by (simp add: MAX_PORT_def MIN_PORT_def)
  have g: "grid_ok base n (CreateAddressPool base n)"
    and i: "pool_inv (CreateAddressPool base n) ap H"
    using built_start[OF b(1,2) assms(2) n b(3-5)] run_inv[OF assms(1)] by blast+
  show ?thesis
    using fetch_ok_inv[OF g i] free_ok_inv[OF g i] counts_inv[OF g i] by blast
qed

theorem address_pool_safe_witness:
  "fetch_ok True (CreateAddressPool 0x0100000A 2) (CreateAddressPool 0x0100000A 2) {} 1 4
     \<lparr>sin_addr = 0x0200000A, sin_port = 0x5000\<rparr> \<lparr>sin_addr = 0, sin_port = 0\<rparr>
     (FetchAddress True (CreateAddressPool 0x0100000A 2) 1 4
        \<lparr>sin_addr = 0x0200000A, sin_port = 0x5000\<rparr> \<lparr>sin_addr = 0, sin_port = 0\<rparr>)"
  by (rule address_pool_safe[OF run_start, THEN conjunct1]) (simp_all add: MAX_PORT_def MIN_PORT_def)

text \<open>
  A per-core pool steers replies to its core.  Every address fetched in any reachable
  state of a pool created for a core and a server (without any hash computed at fetch
  time) is free, and the network card's hash of the server's packets to it selects that
  core; fetching fails only when every address of the pool is held.
\<close>

theorem per_core_pool_routes:
  assumes "pool_run et (CreateAddressPoolPerCore et core nq base n daddr dport) ap H"
    and "0 \<le> n" "n * int (MAX_PORT - MIN_PORT) < 2 ^ 31"
  shows "fetch_core_ok et (CreateAddressPoolPerCore et core nq base n daddr dport) ap H core nq daddr dport saddr
           (FetchAddressPerCore ap saddr)"
proof -
  let ?ap0 = "CreateAddressPoolPerCore et core nq base n daddr dport"
  obtain S cnt where b: "built base n S cnt ?ap0" "S \<subseteq> Sigma {..<nat n} (core_ports et core nq base daddr dport)"
    "num_entry ?ap0 = int cnt" "num_free ?ap0 = int cnt" "num_used ?ap0 = 0"
    using CreateAddressPoolPerCore_built[of base n et core nq daddr dport] by blast
  have S: "S \<subseteq> {..<nat n} \<times> port_range" using b(2) by (auto simp: core_ports_def)
  have n: "n < 2 ^ 31" using assms(2,3) by (simp add: MAX_PORT_def MIN_PORT_def)
  have g: "grid_ok base n ?ap0" and i: "pool_inv ?ap0 ap H"
    using built_start[OF b(1) S assms(2) n b(3-5)] run_inv[OF assms(1)] by blast+
  show ?thesis
  proof (cases "free_list ap")
    case Nil
    then show ?thesis using pool_inv_all[OF i] by (simp add: FetchAddressPerCore_def fetch_core_ok_def)
  next
    case (Cons k ks)
    have p: "ap_pool ap = ap_pool ?ap0" using i by (simp add: pool_inv_def)
    have "k < nat (num_entry ?ap0)" using i Cons by (auto simp: pool_inv_def)
    then obtain i' j' where ij: "(i', j') \<in> S" "ap_pool ?ap0 k = pool_addr base i' j'"
      using b(1,3) unfolding built_def by (metis nat_int option.distinct(1))
    then have "GetRSSCPUCore et (ntohl daddr) (ntohl (sin_addr (ap_pool ?ap0 k))) (ntohs dport)
        (ntohs (sin_port (ap_pool ?ap0 k))) nq = core"
      using b(2) by (auto simp: core_ports_def pool_addr_def)
    then show ?thesis using pool_inv_fresh[OF g i, of k] Cons p
      by (simp add: FetchAddressPerCore_def fetch_core_ok_def)
  qed
qed

theorem per_core_pool_routes_witness:
  "fetch_core_ok True (CreateAddressPoolPerCore True 1 4 0x0100000A 2 0x0200000A 0x5000)
     (CreateAddressPoolPerCore True 1 4 0x0100000A 2 0x0200000A 0x5000) {} 1 4 0x0200000A 0x5000
     \<lparr>sin_addr = 0, sin_port = 0\<rparr>
     (FetchAddressPerCore (CreateAddressPoolPerCore True 1 4 0x0100000A 2 0x0200000A 0x5000)
        \<lparr>sin_addr = 0, sin_port = 0\<rparr>)"
  by (rule per_core_pool_routes[OF run_start]) (simp_all add: MAX_PORT_def MIN_PORT_def)

end
