(* ===== verification/Tcp_State.thy ===== *)
theory Tcp_State
  imports Recv_Buffer Send_Buffer Addr_Pool
begin

text \<open>
  The state of the TCP engine: the connection states and the other enumerations of
  \<open>tcp_in.h\<close>, the stream with its receive and send variables (\<open>tcp_stream.h\<close>), the
  sockets and event queues (\<open>socket.h\<close>, \<open>eventpoll.h\<close>), and the per-core manager
  (\<open>mtcp.h\<close>).  Streams and sockets are objects on a heap, named by the number of their
  chunk or map slot; an intrusive \<open>TAILQ\<close> is the list of the names on it, in order.
  The configuration and the outcome of what lies below the TCP layer are a record of
  their own, passed along unchanged.
\<close>

section \<open>Connection states\<close>

datatype tcp_state =
    TCP_ST_CLOSED | TCP_ST_LISTEN | TCP_ST_SYN_SENT | TCP_ST_SYN_RCVD | TCP_ST_ESTABLISHED
  | TCP_ST_FIN_WAIT_1 | TCP_ST_FIN_WAIT_2 | TCP_ST_CLOSE_WAIT | TCP_ST_CLOSING
  | TCP_ST_LAST_ACK | TCP_ST_TIME_WAIT | TCP_ST_CLOSED_RSVD

text \<open>The handlers compare states by their numbers.\<close>

fun st_num :: "tcp_state \<Rightarrow> nat" where
  "st_num TCP_ST_CLOSED = 0"
| "st_num TCP_ST_LISTEN = 1"
| "st_num TCP_ST_SYN_SENT = 2"
| "st_num TCP_ST_SYN_RCVD = 3"
| "st_num TCP_ST_ESTABLISHED = 4"
| "st_num TCP_ST_FIN_WAIT_1 = 5"
| "st_num TCP_ST_FIN_WAIT_2 = 6"
| "st_num TCP_ST_CLOSE_WAIT = 7"
| "st_num TCP_ST_CLOSING = 8"
| "st_num TCP_ST_LAST_ACK = 9"
| "st_num TCP_ST_TIME_WAIT = 10"
| "st_num TCP_ST_CLOSED_RSVD = 11"

lemma st_num_eq [simp]: "st_num a = st_num b \<longleftrightarrow> a = b"
  by (cases a; cases b) simp_all

instantiation tcp_state :: linorder
begin

definition less_eq_tcp_state :: "tcp_state \<Rightarrow> tcp_state \<Rightarrow> bool" where
  "a \<le> b \<longleftrightarrow> st_num a \<le> st_num b"

definition less_tcp_state :: "tcp_state \<Rightarrow> tcp_state \<Rightarrow> bool" where
  "a < b \<longleftrightarrow> st_num a < st_num b"

instance
  by standard (auto simp: less_eq_tcp_state_def less_tcp_state_def order.antisym)

end

lemmas tcp_state_order = less_eq_tcp_state_def less_tcp_state_def

datatype tcp_close_reason =
    TCP_NOT_CLOSED | TCP_ACTIVE_CLOSE | TCP_PASSIVE_CLOSE | TCP_CONN_FAIL | TCP_CONN_LOST
  | TCP_RESET | TCP_NO_MEM | TCP_NOT_ACCEPTED | TCP_TIMEDOUT

datatype socket_type =
    MOS_SOCK_UNUSED | MOS_SOCK_STREAM_LISTEN | MOS_SOCK_PROXY_LISTEN | MOS_SOCK_MONITOR_STREAM
  | MOS_SOCK_STREAM | MOS_SOCK_PROXY | MOS_SOCK_MONITOR_STREAM_ACTIVE | MOS_SOCK_MONITOR_RAW
  | MOS_SOCK_EPOLL | MOS_SOCK_PIPE

fun sock_num :: "socket_type \<Rightarrow> nat" where
  "sock_num MOS_SOCK_UNUSED = 0"
| "sock_num MOS_SOCK_STREAM_LISTEN = 1"
| "sock_num MOS_SOCK_PROXY_LISTEN = 2"
| "sock_num MOS_SOCK_MONITOR_STREAM = 3"
| "sock_num MOS_SOCK_STREAM = 4"
| "sock_num MOS_SOCK_PROXY = 5"
| "sock_num MOS_SOCK_MONITOR_STREAM_ACTIVE = 6"
| "sock_num MOS_SOCK_MONITOR_RAW = 7"
| "sock_num MOS_SOCK_EPOLL = 8"
| "sock_num MOS_SOCK_PIPE = 9"

section \<open>Constants\<close>

definition TCP_FLAG_FIN :: u8 where "TCP_FLAG_FIN = 0x01"
definition TCP_FLAG_SYN :: u8 where "TCP_FLAG_SYN = 0x02"
definition TCP_FLAG_RST :: u8 where "TCP_FLAG_RST = 0x04"
definition TCP_FLAG_PSH :: u8 where "TCP_FLAG_PSH = 0x08"
definition TCP_FLAG_ACK :: u8 where "TCP_FLAG_ACK = 0x10"
definition TCP_FLAG_WACK :: u8 where "TCP_FLAG_WACK = 0x80"

lemmas tcp_flag_defs = TCP_FLAG_FIN_def TCP_FLAG_SYN_def TCP_FLAG_RST_def TCP_FLAG_PSH_def
  TCP_FLAG_ACK_def TCP_FLAG_WACK_def

definition TCP_DEFAULT_MSS :: u16 where "TCP_DEFAULT_MSS = 1460"
definition TCP_DEFAULT_WSCALE :: u8 where "TCP_DEFAULT_WSCALE = 7"
definition TCP_INITIAL_WINDOW :: u32 where "TCP_INITIAL_WINDOW = 14600"
definition TCP_INITIAL_RTO :: u32 where "TCP_INITIAL_RTO = 500"
definition TCP_MAX_RTX :: u8 where "TCP_MAX_RTX = 16"
definition TCP_MAX_SYN_RETRY :: u8 where "TCP_MAX_SYN_RETRY = 7"
definition TCP_MAX_BACKOFF :: u8 where "TCP_MAX_BACKOFF = 7"

text \<open>\<open>enum mtcp_action\<close>, and the events a callback can be raised for.\<close>

definition MOS_ACT_SEND_DATA :: u32 where "MOS_ACT_SEND_DATA = 0x02"
definition MOS_ACT_SEND_ACK_NOW :: u32 where "MOS_ACT_SEND_ACK_NOW = 0x04"
definition MOS_ACT_SEND_ACK_AGG :: u32 where "MOS_ACT_SEND_ACK_AGG = 0x08"
definition MOS_ACT_SEND_CONTROL :: u32 where "MOS_ACT_SEND_CONTROL = 0x10"
definition MOS_ACT_SEND_RST :: u32 where "MOS_ACT_SEND_RST = 0x20"
definition MOS_ACT_DESTROY :: u32 where "MOS_ACT_DESTROY = 0x40"
definition MOS_ACT_READ_DATA :: u32 where "MOS_ACT_READ_DATA = 0x80"

lemmas mos_act_defs = MOS_ACT_SEND_DATA_def MOS_ACT_SEND_ACK_NOW_def MOS_ACT_SEND_ACK_AGG_def
  MOS_ACT_SEND_CONTROL_def MOS_ACT_SEND_RST_def MOS_ACT_DESTROY_def MOS_ACT_READ_DATA_def

definition MOS_ON_PKT_IN :: u64 where "MOS_ON_PKT_IN = 0x1"
definition MOS_ON_CONN_START :: u64 where "MOS_ON_CONN_START = 0x4"
definition MOS_ON_ERROR :: u64 where "MOS_ON_ERROR = 0x20"
definition MOS_ON_TCP_STATE_CHANGE :: u64 where "MOS_ON_TCP_STATE_CHANGE = 0x80"
definition MOS_ON_ORPHAN :: u64 where "MOS_ON_ORPHAN = 0x100"
definition MOS_ON_REXMIT :: u64 where "MOS_ON_REXMIT = 0x200"
definition MOS_ON_CONN_END :: u64 where "MOS_ON_CONN_END = 0x400"

definition MOS_NULL :: u32 where "MOS_NULL = 0"
definition MOS_HK_RCV :: u32 where "MOS_HK_RCV = 0x40000000"
definition MOS_HK_SND :: u32 where "MOS_HK_SND = 0x80000000"

definition MOS_EPOLLNONE :: u64 where "MOS_EPOLLNONE = 0x001"
definition MOS_EPOLLIN :: u64 where "MOS_EPOLLIN = 0x002"
definition MOS_EPOLLOUT :: u64 where "MOS_EPOLLOUT = 0x008"
definition MOS_EPOLLERR :: u64 where "MOS_EPOLLERR = 0x200"
definition MOS_EPOLLHUP :: u64 where "MOS_EPOLLHUP = 0x400"
definition MOS_EPOLLRDHUP :: u64 where "MOS_EPOLLRDHUP = 0x800"

lemmas mos_epoll_defs = MOS_EPOLLNONE_def MOS_EPOLLIN_def MOS_EPOLLOUT_def MOS_EPOLLERR_def
  MOS_EPOLLHUP_def MOS_EPOLLRDHUP_def

definition MOS_SIDE_CLI :: "2 word" where "MOS_SIDE_CLI = 0"
definition MOS_SIDE_SVR :: "2 word" where "MOS_SIDE_SVR = 1"

section \<open>Sequence numbers\<close>

text \<open>The comparison macros subtract at 32 bits and look at the sign.\<close>

definition TCP_SEQ_LT :: "u32 \<Rightarrow> u32 \<Rightarrow> bool" where "TCP_SEQ_LT a b \<longleftrightarrow> sint (a - b) < 0"
definition TCP_SEQ_LEQ :: "u32 \<Rightarrow> u32 \<Rightarrow> bool" where "TCP_SEQ_LEQ a b \<longleftrightarrow> sint (a - b) \<le> 0"
definition TCP_SEQ_GT :: "u32 \<Rightarrow> u32 \<Rightarrow> bool" where "TCP_SEQ_GT a b \<longleftrightarrow> sint (a - b) > 0"
definition TCP_SEQ_GEQ :: "u32 \<Rightarrow> u32 \<Rightarrow> bool" where "TCP_SEQ_GEQ a b \<longleftrightarrow> sint (a - b) \<ge> 0"

definition TCP_SEQ_BETWEEN :: "u32 \<Rightarrow> u32 \<Rightarrow> u32 \<Rightarrow> bool" where
  "TCP_SEQ_BETWEEN a b c \<longleftrightarrow> TCP_SEQ_GEQ a b \<and> TCP_SEQ_LEQ a c"

lemmas tcp_seq_defs = TCP_SEQ_LT_def TCP_SEQ_LEQ_def TCP_SEQ_GT_def TCP_SEQ_GEQ_def TCP_SEQ_BETWEEN_def

lemma TCP_SEQ_LEQ_iff: "TCP_SEQ_LEQ a b \<longleftrightarrow> \<not> TCP_SEQ_GT a b"
  and TCP_SEQ_GEQ_iff: "TCP_SEQ_GEQ a b \<longleftrightarrow> \<not> TCP_SEQ_LT a b"
  by (auto simp: tcp_seq_defs)

lemma TCP_SEQ_refl [simp]:
  "\<not> TCP_SEQ_LT a a" "\<not> TCP_SEQ_GT a a" "TCP_SEQ_LEQ a a" "TCP_SEQ_GEQ a a"
  by (simp_all add: tcp_seq_defs)

text \<open>
  Within half the number space the macros order stream offsets, however often the
  32-bit sequence number has wrapped.
\<close>

lemma sint_small_diff:
  fixes i j :: int
  assumes "\<bar>i - j\<bar> < 2 ^ 31"
  shows "sint (word_of_int i - word_of_int j :: u32) = i - j"
proof -
  have w: "(word_of_int i - word_of_int j :: u32) = word_of_int (i - j)" by simp
  have "sint (word_of_int i - word_of_int j :: u32) = signed_take_bit 31 (i - j)"
    unfolding w sint_sbintrunc' by simp
  also have "signed_take_bit 31 (i - j) = i - j"
    by (rule signed_take_bit_int_eq_self) (use assms in auto)
  finally show ?thesis .
qed

lemma TCP_SEQ_offsets:
  fixes isn :: u32 and i j :: int
  assumes "\<bar>i - j\<bar> < 2 ^ 31"
  shows "TCP_SEQ_LT (isn + word_of_int i) (isn + word_of_int j) \<longleftrightarrow> i < j"
    and "TCP_SEQ_GT (isn + word_of_int i) (isn + word_of_int j) \<longleftrightarrow> i > j"
    and "TCP_SEQ_LEQ (isn + word_of_int i) (isn + word_of_int j) \<longleftrightarrow> i \<le> j"
    and "TCP_SEQ_GEQ (isn + word_of_int i) (isn + word_of_int j) \<longleftrightarrow> i \<ge> j"
  using sint_small_diff[OF assms] by (simp_all add: tcp_seq_defs)

section \<open>Packets\<close>

record tcphdr =
  th_source :: u16
  th_dest :: u16
  th_ack_seq :: u32
  th_syn :: bool
  th_fin :: bool
  th_rst :: bool
  th_psh :: bool
  th_ack :: bool
  th_opts :: "u8 list"

record pkt_ctx =
  p_cur_ts :: u32
  p_seq :: u32
  p_ack_seq :: u32
  p_window :: u16
  p_payload :: "u8 list"
  p_saddr :: u32
  p_daddr :: u32
  p_ip_id :: u16
  p_tcph :: tcphdr

text \<open>\<open>payloadlen\<close> is the number of payload bytes, as a 16-bit number.\<close>

definition p_payloadlen :: "pkt_ctx \<Rightarrow> u16" where
  "p_payloadlen p = of_nat (length (p_payload p))"

text \<open>A segment handed to the IP layer: what a test on the wire would see.\<close>

record segment =
  sg_saddr :: u32
  sg_daddr :: u32
  sg_source :: u16
  sg_dest :: u16
  sg_seq :: u32
  sg_ack_seq :: u32
  sg_syn :: bool
  sg_fin :: bool
  sg_rst :: bool
  sg_psh :: bool
  sg_ack :: bool
  sg_window :: u16
  sg_opts :: "u8 list"
  sg_data :: "u8 list"

section \<open>Streams\<close>

record tcp_recv_vars =
  rcv_wnd :: u32
  irs :: u32
  snd_wl1 :: u32
  snd_wl2 :: u32
  last_ack_seq :: u32
  dup_acks :: u8
  ts_recent :: u32
  ts_lastack_rcvd :: u32
  ts_last_ts_upd :: u32
  ts_tw_expire :: u32
  srtt :: u32
  mdev :: u32
  mdev_max :: u32
  rttvar :: u32
  rtt_seq :: u32
  rcvbuf :: "tcprb option"
  he_mybucket :: "nat option"

record tcp_send_vars =
  ip_id :: u16
  mss :: u16
  eff_mss :: u16
  wscale_mine :: u8
  wscale_peer :: u8
  nif_out :: int
  snd_una :: u32
  snd_wnd :: u32
  peer_wnd :: u32
  iss :: u32
  fss :: u32
  nrtx :: u8
  max_nrtx :: u8
  rto :: u32
  ts_rto :: u32
  cwnd :: u32
  ssthresh :: u32
  ts_lastack_sent :: u32
  is_wack :: bool
  ack_cnt :: "6 word"
  on_control_list :: bool
  on_send_list :: bool
  on_ack_list :: bool
  on_closeq :: bool
  on_resetq :: bool
  on_closeq_int :: bool
  on_resetq_int :: bool
  is_fin_sent :: bool
  is_fin_ackd :: bool
  on_sendq :: bool
  on_ackq :: bool
  sndbuf :: "tcp_send_buffer option"

text \<open>
  \<open>rcvvar\<close> and \<open>sndvar\<close> are the contents of the two chunks the stream points to;
  \<open>rcvvar_chunk\<close> and \<open>sndvar_chunk\<close> are the pointers.  An entry of \<open>msocks\<close> is a
  monitor socket with the chunk of its list cell.
\<close>

record tcp_stream =
  msocks :: "(ref \<times> nat) list"
  socket :: "ref option"
  stream_id :: u32
  stream_type :: u32
  saddr :: u32
  daddr :: u32
  sport :: u16
  dport :: u16
  actions :: u32
  cb_events :: u64
  state :: tcp_state
  close_reason :: tcp_close_reason
  on_hash_table :: bool
  on_timewait_list :: bool
  is_bound_addr :: bool
  closed :: bool
  need_wnd_adv :: bool
  on_rto_idx :: int
  on_timeout_list :: bool
  saw_timestamp :: bool
  sack_permit :: bool
  control_list_waiting :: bool
  have_reset :: bool
  side :: "2 word"
  buffer_mgmt :: "2 word"
  status_mgmt :: bool
  allow_pkt_modification :: bool
  snd_nxt :: u32
  rcv_nxt :: u32
  rcvvar :: tcp_recv_vars
  sndvar :: tcp_send_vars
  last_active_ts :: u32
  pair_stream :: "ref option"
  rcvvar_chunk :: nat
  sndvar_chunk :: nat

definition STREAM_TYPE :: "socket_type \<Rightarrow> u32" where
  "STREAM_TYPE ty = push_bit (sock_num ty) 1"

definition HAS_STREAM_TYPE :: "tcp_stream \<Rightarrow> socket_type \<Rightarrow> bool" where
  "HAS_STREAM_TYPE t ty \<longleftrightarrow> stream_type t AND STREAM_TYPE ty \<noteq> 0"

definition IS_STREAM_TYPE :: "tcp_stream \<Rightarrow> socket_type \<Rightarrow> bool" where
  "IS_STREAM_TYPE t ty \<longleftrightarrow> stream_type t = STREAM_TYPE ty"

text \<open>The two setters every handler uses.\<close>

definition act :: "u32 \<Rightarrow> tcp_stream \<Rightarrow> tcp_stream" where
  "act a t = t\<lparr>actions := actions t OR a\<rparr>"

definition raise_cb :: "u64 \<Rightarrow> tcp_stream \<Rightarrow> tcp_stream" where
  "raise_cb e t = t\<lparr>cb_events := cb_events t OR e\<rparr>"

section \<open>Sockets, monitors and event queues\<close>

record epoll_event =
  ev_sockid :: ref
  ev_events :: u64
  ev_data :: u64

record event_queue =
  eq_events :: "epoll_event list"
  eq_start :: int
  eq_end :: int
  eq_size :: int
  eq_num_events :: int

record mtcp_epoll =
  usr_queue :: event_queue
  usr_shadow_queue :: event_queue
  mtcp_queue :: event_queue
  stat_issued :: u64
  stat_registered :: u64
  stat_invalidated :: u64
  stat_handled :: u64

record mon_stream =
  ms_stream :: "ref option"
  ms_listener :: ref
  ms_client_buf_mgmt :: "2 word"
  ms_server_buf_mgmt :: "2 word"
  ms_client_mon :: bool
  ms_server_mon :: bool
  ms_peek_offset :: "2 word \<Rightarrow> int"
  ms_strees :: "nat option list"

text \<open>
  The pointer of a socket is a union in the source; \<open>NullObj\<close> is the null pointer, the other
  constructors say what the pointer was stored as.  \<open>sk_stream\<close> reads it as a stream.
\<close>

datatype sock_obj = NullObj | StreamObj ref | ListenerObj ref | EpollObj | PipeObj ref

record socket_map =
  socktype :: socket_type
  sk_opts :: u32
  sk_saddr :: sockaddr_in
  sk_obj :: sock_obj
  sk_mon :: mon_stream
  epoll :: u64
  events :: u64
  ep_data :: u64

definition sk_stream :: "socket_map \<Rightarrow> ref option" where
  "sk_stream sk = (case sk_obj sk of StreamObj s \<Rightarrow> Some s | _ \<Rightarrow> None)"

record mon_listener =
  ml_socket :: ref
  ml_client_buf_mgmt :: "2 word"
  ml_server_buf_mgmt :: "2 word"
  ml_client_mon :: bool
  ml_server_mon :: bool
  ml_syn_hit :: bool
  ml_eq :: event_queue
  ml_strees :: "nat option list"

text \<open>
  A listener whose socket has been closed is freed; \<open>lst_acceptq\<close> is then the null pointer
  that is the last thing written to it.
\<close>

record tcp_listener =
  lst_socket :: "ref option"
  lst_backlog :: int
  lst_acceptq :: "ref ring option"

datatype pipe_state = PIPE_CLOSED | PIPE_ACTIVE | PIPE_CLOSE_WAIT

record pipe =
  pp_state :: pipe_state
  pp_socket0 :: "ref option"
  pp_socket1 :: "ref option"
  pp_buf :: "u8 list"
  pp_buf_off :: int
  pp_buf_tail :: int
  pp_buf_len :: int
  pp_buf_size :: int

text \<open>A timer an application has set: seconds and microseconds of its expiry, its callback.\<close>

record user_timer =
  tm_id :: int
  tm_exp :: "int \<times> int"
  tm_cb :: nat

text \<open>What the application threads hand to the mTCP thread.\<close>

record app_queues =
  connectq :: "ref ring"
  sendq :: "ref ring"
  ackq :: "ref ring"
  closeq :: "ref ring"
  closeq_int :: "ref stream_queue_int"
  resetq :: "ref ring"
  resetq_int :: "ref stream_queue_int"
  destroyq :: "ref ring"
  wakeup_flag :: bool

section \<open>The manager\<close>

record mtcp_sender =
  control_list :: "ref list"
  send_list :: "ref list"
  ack_list :: "ref list"
  control_list_cnt :: int
  send_list_cnt :: int
  ack_list_cnt :: int

record rto_hashstore =
  rto_now_idx :: u32
  rto_now_ts :: u32
  rto_list :: "nat \<Rightarrow> ref list"

record hashtable =
  ht_count :: u8
  ht_table :: "nat \<Rightarrow> ref list"

text \<open>
  \<open>listeners\<close> and \<open>pipes\<close> are the objects allocated so far, a pointer to one is its index.
  The senders are numbered \<open>0\<close> for \<open>g_sender\<close> and \<open>n + 1\<close> for \<open>n_sender[n]\<close>.
  \<open>wire\<close> is the sequence of segments handed to the IP layer, \<open>cb_trace\<close> the calls of
  application callbacks (hook, socket, side, events), and \<open>tx_no\<close> counts the packet
  buffers asked for.
\<close>

record mtcp_manager =
  streams :: "ref \<Rightarrow> tcp_stream"
  smap :: "ref \<Rightarrow> socket_map"
  msmap :: "ref \<Rightarrow> socket_map"
  mlisteners :: "ref \<Rightarrow> mon_listener"
  monitors :: "ref list"
  free_smap :: "ref list"
  free_msmap :: "ref list"
  bufseg_pool :: mem_pool
  sockent_pool :: mem_pool
  flow_pool :: mem_pool
  rv_pool :: mem_pool
  sv_pool :: mem_pool
  rbm_snd :: sb_manager
  tcp_flow_table :: hashtable
  g_id :: u32
  flow_cnt :: u32
  ep :: "mtcp_epoll option"
  listener :: "ref option"
  listeners :: "tcp_listener list"
  pipes :: "pipe list"
  appq :: app_queues
  timer_list :: "user_timer list"
  num_msp :: u32
  num_esp :: u32
  senders :: "nat \<Rightarrow> mtcp_sender"
  rto_store :: rto_hashstore
  timewait_list :: "ref list"
  timeout_list :: "ref list"
  rto_list_cnt :: int
  timewait_list_cnt :: int
  timeout_list_cnt :: int
  own_ap :: "addr_pool option"
  nif_ap :: "nat \<Rightarrow> addr_pool"
  stree_refs :: "nat \<Rightarrow> int"
  rand_next :: u64
  tx_no :: nat
  wire :: "segment list"
  cb_trace :: "(u32 \<times> ref \<times> nat \<times> u64) list"

record route_entry =
  re_mask :: u32
  re_masked_ip :: u32
  re_prefix :: int
  re_nif :: int

text \<open>
  \<open>tx_ok k\<close> says whether the \<open>k\<close>-th request for a packet buffer succeeds: the outcome of
  routing, ARP and the network card's transmit ring.  \<open>chunk_bytes\<close> is what a fresh
  buffer chunk happens to hold, \<open>malloc_ok s\<close> whether \<open>malloc\<close> succeeds for stream \<open>s\<close>.  The three
  filters say whether a packet passes the BPF program a monitor has installed: \<open>raw_filter\<close> is
  false where none is, the other two are true.  \<open>be_resilient\<close> is the build flag
  \<open>BE_RESILIENT_TO_PACKET_DROP\<close>.
\<close>

record mos_config =
  be_resilient :: bool
  tcp_timeout :: int
  tcp_tw_interval :: u32
  wmem_size :: u32
  rmem_size :: int
  netdev_ips :: "u32 list"
  route_table :: "route_entry list"
  max_concurrency :: int
  chunk_bytes :: "nat \<Rightarrow> u8 list"
  tx_ok :: "nat \<Rightarrow> bool"
  malloc_ok :: "ref \<Rightarrow> bool"
  raw_filter :: "ref \<Rightarrow> segment \<Rightarrow> bool"
  syn_filter :: "ref \<Rightarrow> pkt_ctx \<Rightarrow> bool"
  orphan_filter :: "ref \<Rightarrow> pkt_ctx \<Rightarrow> bool"

section \<open>Cleared objects\<close>

text \<open>What \<open>memset(p, 0, ...)\<close> and \<open>calloc\<close> leave.\<close>

definition zero_pool :: mem_pool where
  "zero_pool = \<lparr>mp_mem = (\<lambda>_. \<lparr>mc_free_chunks = 0, mc_next = None\<rparr>), mp_freeptr = None, mp_free_chunks = 0,
     mp_total_chunks = 0, mp_chunk_size = 0, mp_type = 0\<rparr>"

definition zero_sbm :: sb_manager where
  "zero_sbm = \<lparr>sbm_chunk_size = 0, sbm_cur_num = 0, sbm_cnum = 0, sbm_mp = zero_pool,
     sbm_freeq = \<lparr>rq_capacity = 0, rq_head = 0, rq_tail = 0, rq_q = [None]\<rparr>\<rparr>"

definition zero_rcv :: tcp_recv_vars where
  "zero_rcv = \<lparr>rcv_wnd = 0, irs = 0, snd_wl1 = 0, snd_wl2 = 0, last_ack_seq = 0, dup_acks = 0, ts_recent = 0,
     ts_lastack_rcvd = 0, ts_last_ts_upd = 0, ts_tw_expire = 0, srtt = 0, mdev = 0, mdev_max = 0,
     rttvar = 0, rtt_seq = 0, rcvbuf = None, he_mybucket = None\<rparr>"

definition zero_snd :: tcp_send_vars where
  "zero_snd = \<lparr>ip_id = 0, mss = 0, eff_mss = 0, wscale_mine = 0, wscale_peer = 0, nif_out = 0, snd_una = 0,
     snd_wnd = 0, peer_wnd = 0, iss = 0, fss = 0, nrtx = 0, max_nrtx = 0, rto = 0, ts_rto = 0, cwnd
     = 0, ssthresh = 0, ts_lastack_sent = 0, is_wack = False, ack_cnt = 0, on_control_list = False,
     on_send_list = False, on_ack_list = False, on_closeq = False, on_resetq = False, on_closeq_int
     = False, on_resetq_int = False, is_fin_sent = False, is_fin_ackd = False,
     on_sendq = False, on_ackq = False, sndbuf = None\<rparr>"

definition zero_stream :: tcp_stream where
  "zero_stream = \<lparr>msocks = [], socket = None, stream_id = 0, stream_type = 0, saddr = 0, daddr = 0, sport = 0,
     dport = 0, actions = 0, cb_events = 0, state = TCP_ST_CLOSED, close_reason = TCP_NOT_CLOSED,
     on_hash_table = False, on_timewait_list = False, is_bound_addr = False, closed = False, need_wnd_adv = False,
     on_rto_idx = 0, on_timeout_list = False, saw_timestamp = False, sack_permit = False,
     control_list_waiting = False, have_reset = False, side = 0, buffer_mgmt = 0, status_mgmt =
     False, allow_pkt_modification = False, snd_nxt = 0, rcv_nxt = 0, rcvvar = zero_rcv, sndvar =
     zero_snd, last_active_ts = 0, pair_stream = None, rcvvar_chunk = 0, sndvar_chunk = 0\<rparr>"

definition zero_mon_stream :: mon_stream where
  "zero_mon_stream = \<lparr>ms_stream = None, ms_listener = 0, ms_client_buf_mgmt = 0, ms_server_buf_mgmt = 0,
     ms_client_mon = False, ms_server_mon = False, ms_peek_offset = (\<lambda>_. 0), ms_strees = [None, None, None]\<rparr>"

definition zero_sock :: socket_map where
  "zero_sock = \<lparr>socktype = MOS_SOCK_UNUSED, sk_opts = 0, sk_saddr = \<lparr>sin_addr = 0, sin_port = 0\<rparr>, sk_obj =
     NullObj, sk_mon = zero_mon_stream, epoll = 0, events = 0, ep_data = 0\<rparr>"

definition zero_eq :: event_queue where
  "zero_eq = \<lparr>eq_events = [], eq_start = 0, eq_end = 0, eq_size = 0, eq_num_events = 0\<rparr>"

definition zero_listener :: mon_listener where
  "zero_listener = \<lparr>ml_socket = 0, ml_client_buf_mgmt = 0, ml_server_buf_mgmt = 0, ml_client_mon = False,
     ml_server_mon = False, ml_syn_hit = False, ml_eq = zero_eq, ml_strees = [None, None, None]\<rparr>"

definition zero_sender :: mtcp_sender where
  "zero_sender = \<lparr>control_list = [], send_list = [], ack_list = [], control_list_cnt = 0, send_list_cnt = 0,
     ack_list_cnt = 0\<rparr>"

definition zero_ring :: "ref ring" where
  "zero_ring = \<lparr>rq_capacity = 0, rq_head = 0, rq_tail = 0, rq_q = [None]\<rparr>"

definition zero_appq :: app_queues where
  "zero_appq = \<lparr>connectq = zero_ring, sendq = zero_ring, ackq = zero_ring, closeq = zero_ring,
     closeq_int = \<lparr>si_array = [], si_size = 0, si_first = 0, si_last = 0, si_count = 0\<rparr>, resetq = zero_ring,
     resetq_int = \<lparr>si_array = [], si_size = 0, si_first = 0, si_last = 0, si_count = 0\<rparr>, destroyq = zero_ring,
     wakeup_flag = False\<rparr>"

definition zero_mtcp :: mtcp_manager where
  "zero_mtcp = \<lparr>streams = (\<lambda>_. zero_stream), smap = (\<lambda>_. zero_sock), msmap = (\<lambda>_.
     zero_sock), mlisteners = (\<lambda>_. zero_listener), monitors = [], free_smap = [], free_msmap
     = [], bufseg_pool = zero_pool, sockent_pool = zero_pool, flow_pool = zero_pool, rv_pool =
     zero_pool, sv_pool = zero_pool, rbm_snd = zero_sbm, tcp_flow_table = \<lparr>ht_count = 0,
     ht_table = (\<lambda>_. [])\<rparr>, g_id = 0, flow_cnt = 0, ep = None, listener = None, listeners = [],
     pipes = [], appq = zero_appq, timer_list = [],
     num_msp = 0, num_esp = 0, senders = (\<lambda>_. zero_sender), rto_store = \<lparr>rto_now_idx
     = 0, rto_now_ts = 0, rto_list = (\<lambda>_. [])\<rparr>, timewait_list = [], timeout_list =
     [], rto_list_cnt = 0, timewait_list_cnt = 0, timeout_list_cnt = 0, own_ap = None, nif_ap =
     (\<lambda>_. empty_pool 0 0), stree_refs = (\<lambda>_. 0), rand_next = 0, tx_no = 0, wire =
     [], cb_trace = []\<rparr>"

section \<open>Access\<close>

definition strm :: "mtcp_manager \<Rightarrow> ref \<Rightarrow> tcp_stream" where
  "strm m s = streams m s"

definition mod_strm :: "ref \<Rightarrow> (tcp_stream \<Rightarrow> tcp_stream) \<Rightarrow> mtcp_manager \<Rightarrow> mtcp_manager" where
  "mod_strm s f m = m\<lparr>streams := (streams m)(s := f (streams m s))\<rparr>"

definition mod_rcv :: "(tcp_recv_vars \<Rightarrow> tcp_recv_vars) \<Rightarrow> tcp_stream \<Rightarrow> tcp_stream" where
  "mod_rcv f t = t\<lparr>rcvvar := f (rcvvar t)\<rparr>"

definition mod_snd :: "(tcp_send_vars \<Rightarrow> tcp_send_vars) \<Rightarrow> tcp_stream \<Rightarrow> tcp_stream" where
  "mod_snd f t = t\<lparr>sndvar := f (sndvar t)\<rparr>"

definition HandleCallback :: "u32 \<Rightarrow> ref \<Rightarrow> 2 word \<Rightarrow> u64 \<Rightarrow> mtcp_manager \<Rightarrow> mtcp_manager" where
  "HandleCallback hook sock sd ev m = m\<lparr>cb_trace := cb_trace m @ [(hook, sock, unat sd, ev)]\<rparr>"

lemma strm_mod_same [simp]: "strm (mod_strm s f m) s = f (strm m s)"
  by (simp add: strm_def mod_strm_def)

lemma strm_mod_other [simp]: "s' \<noteq> s \<Longrightarrow> strm (mod_strm s f m) s' = strm m s'"
  by (simp add: strm_def mod_strm_def)

lemma strm_mod: "strm (mod_strm s f m) s' = (if s' = s then f (strm m s) else strm m s')"
  by simp

lemma strm_upd [simp]:
  "strm (m\<lparr>smap := x0\<rparr>) s = strm m s"
  "strm (m\<lparr>msmap := x1\<rparr>) s = strm m s"
  "strm (m\<lparr>mlisteners := x2\<rparr>) s = strm m s"
  "strm (m\<lparr>monitors := x3\<rparr>) s = strm m s"
  "strm (m\<lparr>free_smap := x4\<rparr>) s = strm m s"
  "strm (m\<lparr>free_msmap := x5\<rparr>) s = strm m s"
  "strm (m\<lparr>bufseg_pool := x6\<rparr>) s = strm m s"
  "strm (m\<lparr>sockent_pool := x7\<rparr>) s = strm m s"
  "strm (m\<lparr>flow_pool := x8\<rparr>) s = strm m s"
  "strm (m\<lparr>rv_pool := x9\<rparr>) s = strm m s"
  "strm (m\<lparr>sv_pool := x10\<rparr>) s = strm m s"
  "strm (m\<lparr>rbm_snd := x11\<rparr>) s = strm m s"
  "strm (m\<lparr>tcp_flow_table := x12\<rparr>) s = strm m s"
  "strm (m\<lparr>g_id := x13\<rparr>) s = strm m s"
  "strm (m\<lparr>flow_cnt := x14\<rparr>) s = strm m s"
  "strm (m\<lparr>ep := x15\<rparr>) s = strm m s"
  "strm (m\<lparr>listener := x16\<rparr>) s = strm m s"
  "strm (m\<lparr>listeners := x33\<rparr>) s = strm m s"
  "strm (m\<lparr>pipes := x34\<rparr>) s = strm m s"
  "strm (m\<lparr>appq := x35\<rparr>) s = strm m s"
  "strm (m\<lparr>timer_list := x36\<rparr>) s = strm m s"
  "strm (m\<lparr>num_msp := x17\<rparr>) s = strm m s"
  "strm (m\<lparr>num_esp := x18\<rparr>) s = strm m s"
  "strm (m\<lparr>senders := x19\<rparr>) s = strm m s"
  "strm (m\<lparr>rto_store := x20\<rparr>) s = strm m s"
  "strm (m\<lparr>timewait_list := x21\<rparr>) s = strm m s"
  "strm (m\<lparr>timeout_list := x22\<rparr>) s = strm m s"
  "strm (m\<lparr>rto_list_cnt := x23\<rparr>) s = strm m s"
  "strm (m\<lparr>timewait_list_cnt := x24\<rparr>) s = strm m s"
  "strm (m\<lparr>timeout_list_cnt := x25\<rparr>) s = strm m s"
  "strm (m\<lparr>own_ap := x26\<rparr>) s = strm m s"
  "strm (m\<lparr>nif_ap := x27\<rparr>) s = strm m s"
  "strm (m\<lparr>stree_refs := x28\<rparr>) s = strm m s"
  "strm (m\<lparr>rand_next := x29\<rparr>) s = strm m s"
  "strm (m\<lparr>tx_no := x30\<rparr>) s = strm m s"
  "strm (m\<lparr>wire := x31\<rparr>) s = strm m s"
  "strm (m\<lparr>cb_trace := x32\<rparr>) s = strm m s"
  by (simp_all add: strm_def)

lemma mod_strm_fields [simp]:
  "smap (mod_strm s f m) = smap m"
  "msmap (mod_strm s f m) = msmap m"
  "mlisteners (mod_strm s f m) = mlisteners m"
  "monitors (mod_strm s f m) = monitors m"
  "free_smap (mod_strm s f m) = free_smap m"
  "free_msmap (mod_strm s f m) = free_msmap m"
  "bufseg_pool (mod_strm s f m) = bufseg_pool m"
  "sockent_pool (mod_strm s f m) = sockent_pool m"
  "flow_pool (mod_strm s f m) = flow_pool m"
  "rv_pool (mod_strm s f m) = rv_pool m"
  "sv_pool (mod_strm s f m) = sv_pool m"
  "rbm_snd (mod_strm s f m) = rbm_snd m"
  "tcp_flow_table (mod_strm s f m) = tcp_flow_table m"
  "g_id (mod_strm s f m) = g_id m"
  "flow_cnt (mod_strm s f m) = flow_cnt m"
  "ep (mod_strm s f m) = ep m"
  "listener (mod_strm s f m) = listener m"
  "listeners (mod_strm s f m) = listeners m"
  "pipes (mod_strm s f m) = pipes m"
  "appq (mod_strm s f m) = appq m"
  "timer_list (mod_strm s f m) = timer_list m"
  "num_msp (mod_strm s f m) = num_msp m"
  "num_esp (mod_strm s f m) = num_esp m"
  "senders (mod_strm s f m) = senders m"
  "rto_store (mod_strm s f m) = rto_store m"
  "timewait_list (mod_strm s f m) = timewait_list m"
  "timeout_list (mod_strm s f m) = timeout_list m"
  "rto_list_cnt (mod_strm s f m) = rto_list_cnt m"
  "timewait_list_cnt (mod_strm s f m) = timewait_list_cnt m"
  "timeout_list_cnt (mod_strm s f m) = timeout_list_cnt m"
  "own_ap (mod_strm s f m) = own_ap m"
  "nif_ap (mod_strm s f m) = nif_ap m"
  "stree_refs (mod_strm s f m) = stree_refs m"
  "rand_next (mod_strm s f m) = rand_next m"
  "tx_no (mod_strm s f m) = tx_no m"
  "wire (mod_strm s f m) = wire m"
  "cb_trace (mod_strm s f m) = cb_trace m"
  by (simp_all add: mod_strm_def)

lemma mod_vars_fields [simp]:
  "rcvvar (mod_snd g t) = rcvvar t" "sndvar (mod_rcv f t) = sndvar t"
  "sndvar (mod_snd g t) = g (sndvar t)" "rcvvar (mod_rcv f t) = f (rcvvar t)"
  by (simp_all add: mod_snd_def mod_rcv_def)

lemma mod_snd_fields [simp]:
  "msocks (mod_snd g t) = msocks t"
  "socket (mod_snd g t) = socket t"
  "stream_id (mod_snd g t) = stream_id t"
  "stream_type (mod_snd g t) = stream_type t"
  "saddr (mod_snd g t) = saddr t"
  "daddr (mod_snd g t) = daddr t"
  "sport (mod_snd g t) = sport t"
  "dport (mod_snd g t) = dport t"
  "actions (mod_snd g t) = actions t"
  "cb_events (mod_snd g t) = cb_events t"
  "state (mod_snd g t) = state t"
  "close_reason (mod_snd g t) = close_reason t"
  "on_hash_table (mod_snd g t) = on_hash_table t"
  "on_timewait_list (mod_snd g t) = on_timewait_list t"
  "is_bound_addr (mod_snd g t) = is_bound_addr t"
  "need_wnd_adv (mod_snd g t) = need_wnd_adv t"
  "on_rto_idx (mod_snd g t) = on_rto_idx t"
  "on_timeout_list (mod_snd g t) = on_timeout_list t"
  "saw_timestamp (mod_snd g t) = saw_timestamp t"
  "sack_permit (mod_snd g t) = sack_permit t"
  "control_list_waiting (mod_snd g t) = control_list_waiting t"
  "have_reset (mod_snd g t) = have_reset t"
  "side (mod_snd g t) = side t"
  "buffer_mgmt (mod_snd g t) = buffer_mgmt t"
  "status_mgmt (mod_snd g t) = status_mgmt t"
  "allow_pkt_modification (mod_snd g t) = allow_pkt_modification t"
  "snd_nxt (mod_snd g t) = snd_nxt t"
  "rcv_nxt (mod_snd g t) = rcv_nxt t"
  "last_active_ts (mod_snd g t) = last_active_ts t"
  "pair_stream (mod_snd g t) = pair_stream t"
  "rcvvar_chunk (mod_snd g t) = rcvvar_chunk t"
  "sndvar_chunk (mod_snd g t) = sndvar_chunk t"
  by (simp_all add: mod_snd_def)

lemma mod_rcv_fields [simp]:
  "msocks (mod_rcv g t) = msocks t"
  "socket (mod_rcv g t) = socket t"
  "stream_id (mod_rcv g t) = stream_id t"
  "stream_type (mod_rcv g t) = stream_type t"
  "saddr (mod_rcv g t) = saddr t"
  "daddr (mod_rcv g t) = daddr t"
  "sport (mod_rcv g t) = sport t"
  "dport (mod_rcv g t) = dport t"
  "actions (mod_rcv g t) = actions t"
  "cb_events (mod_rcv g t) = cb_events t"
  "state (mod_rcv g t) = state t"
  "close_reason (mod_rcv g t) = close_reason t"
  "on_hash_table (mod_rcv g t) = on_hash_table t"
  "on_timewait_list (mod_rcv g t) = on_timewait_list t"
  "is_bound_addr (mod_rcv g t) = is_bound_addr t"
  "need_wnd_adv (mod_rcv g t) = need_wnd_adv t"
  "on_rto_idx (mod_rcv g t) = on_rto_idx t"
  "on_timeout_list (mod_rcv g t) = on_timeout_list t"
  "saw_timestamp (mod_rcv g t) = saw_timestamp t"
  "sack_permit (mod_rcv g t) = sack_permit t"
  "control_list_waiting (mod_rcv g t) = control_list_waiting t"
  "have_reset (mod_rcv g t) = have_reset t"
  "side (mod_rcv g t) = side t"
  "buffer_mgmt (mod_rcv g t) = buffer_mgmt t"
  "status_mgmt (mod_rcv g t) = status_mgmt t"
  "allow_pkt_modification (mod_rcv g t) = allow_pkt_modification t"
  "snd_nxt (mod_rcv g t) = snd_nxt t"
  "rcv_nxt (mod_rcv g t) = rcv_nxt t"
  "last_active_ts (mod_rcv g t) = last_active_ts t"
  "pair_stream (mod_rcv g t) = pair_stream t"
  "rcvvar_chunk (mod_rcv g t) = rcvvar_chunk t"
  "sndvar_chunk (mod_rcv g t) = sndvar_chunk t"
  by (simp_all add: mod_rcv_def)

lemma act_fields [simp]:
  "msocks (act a t) = msocks t"
  "socket (act a t) = socket t"
  "stream_id (act a t) = stream_id t"
  "stream_type (act a t) = stream_type t"
  "saddr (act a t) = saddr t"
  "daddr (act a t) = daddr t"
  "sport (act a t) = sport t"
  "dport (act a t) = dport t"
  "cb_events (act a t) = cb_events t"
  "state (act a t) = state t"
  "close_reason (act a t) = close_reason t"
  "on_hash_table (act a t) = on_hash_table t"
  "on_timewait_list (act a t) = on_timewait_list t"
  "is_bound_addr (act a t) = is_bound_addr t"
  "need_wnd_adv (act a t) = need_wnd_adv t"
  "on_rto_idx (act a t) = on_rto_idx t"
  "on_timeout_list (act a t) = on_timeout_list t"
  "saw_timestamp (act a t) = saw_timestamp t"
  "sack_permit (act a t) = sack_permit t"
  "control_list_waiting (act a t) = control_list_waiting t"
  "have_reset (act a t) = have_reset t"
  "side (act a t) = side t"
  "buffer_mgmt (act a t) = buffer_mgmt t"
  "status_mgmt (act a t) = status_mgmt t"
  "allow_pkt_modification (act a t) = allow_pkt_modification t"
  "snd_nxt (act a t) = snd_nxt t"
  "rcv_nxt (act a t) = rcv_nxt t"
  "last_active_ts (act a t) = last_active_ts t"
  "pair_stream (act a t) = pair_stream t"
  "rcvvar_chunk (act a t) = rcvvar_chunk t"
  "sndvar_chunk (act a t) = sndvar_chunk t"
  "rcvvar (act a t) = rcvvar t"
  "sndvar (act a t) = sndvar t"
  "actions (act a t) = actions t OR a"
  by (simp_all add: act_def)

lemma raise_cb_fields [simp]:
  "msocks (raise_cb a t) = msocks t"
  "socket (raise_cb a t) = socket t"
  "stream_id (raise_cb a t) = stream_id t"
  "stream_type (raise_cb a t) = stream_type t"
  "saddr (raise_cb a t) = saddr t"
  "daddr (raise_cb a t) = daddr t"
  "sport (raise_cb a t) = sport t"
  "dport (raise_cb a t) = dport t"
  "actions (raise_cb a t) = actions t"
  "state (raise_cb a t) = state t"
  "close_reason (raise_cb a t) = close_reason t"
  "on_hash_table (raise_cb a t) = on_hash_table t"
  "on_timewait_list (raise_cb a t) = on_timewait_list t"
  "is_bound_addr (raise_cb a t) = is_bound_addr t"
  "need_wnd_adv (raise_cb a t) = need_wnd_adv t"
  "on_rto_idx (raise_cb a t) = on_rto_idx t"
  "on_timeout_list (raise_cb a t) = on_timeout_list t"
  "saw_timestamp (raise_cb a t) = saw_timestamp t"
  "sack_permit (raise_cb a t) = sack_permit t"
  "control_list_waiting (raise_cb a t) = control_list_waiting t"
  "have_reset (raise_cb a t) = have_reset t"
  "side (raise_cb a t) = side t"
  "buffer_mgmt (raise_cb a t) = buffer_mgmt t"
  "status_mgmt (raise_cb a t) = status_mgmt t"
  "allow_pkt_modification (raise_cb a t) = allow_pkt_modification t"
  "snd_nxt (raise_cb a t) = snd_nxt t"
  "rcv_nxt (raise_cb a t) = rcv_nxt t"
  "last_active_ts (raise_cb a t) = last_active_ts t"
  "pair_stream (raise_cb a t) = pair_stream t"
  "rcvvar_chunk (raise_cb a t) = rcvvar_chunk t"
  "sndvar_chunk (raise_cb a t) = sndvar_chunk t"
  "rcvvar (raise_cb a t) = rcvvar t"
  "sndvar (raise_cb a t) = sndvar t"
  "cb_events (raise_cb a t) = cb_events t OR a"
  by (simp_all add: raise_cb_def)

lemma strm_HandleCallback [simp]: "strm (HandleCallback h k d e m) s = strm m s"
  by (simp add: strm_def HandleCallback_def)

end
