(* ===== verification/Conn_Lists.thy ===== *)
theory Conn_Lists
  imports Tcp_State
begin

text \<open>
  The intrusive lists a stream can be on: the control, send and ack lists of its sender
  (\<open>tcp_out.c\<close>), the retransmission timing wheel, and the time-wait and
  connection-timeout lists (\<open>timer.c\<close>).  Whether a stream is on a list is a flag in the
  stream; a removal is a pointer operation that corrupts memory when the flag and the list
  disagree.  \<open>lists_ok\<close> says that they agree, everywhere, and every operation keeps it.
\<close>

section \<open>Senders\<close>

definition GetSender :: "mos_config \<Rightarrow> tcp_stream \<Rightarrow> nat option" where
  "GetSender cfg t =
     (if nif_out (sndvar t) < 0 then Some 0
      else if nif_out (sndvar t) \<ge> int (length (netdev_ips cfg)) then None
      else Some (Suc (nat (nif_out (sndvar t)))))"

definition mod_sender :: "nat option \<Rightarrow> (mtcp_sender \<Rightarrow> mtcp_sender) \<Rightarrow> mtcp_manager \<Rightarrow> mtcp_manager" where
  "mod_sender k f m = (case k of
      None \<Rightarrow> m
    | Some i \<Rightarrow> m\<lparr>senders := (senders m)(i := f (senders m i))\<rparr>)"

definition enter_control :: "mos_config \<Rightarrow> ref \<Rightarrow> mtcp_manager \<Rightarrow> mtcp_manager" where
  "enter_control cfg s m =
     (if \<not> on_control_list (sndvar (strm m s)) then
        mod_sender (GetSender cfg (strm m s))
          (\<lambda>d. d\<lparr>control_list := control_list d @ [s], control_list_cnt := control_list_cnt d + 1\<rparr>)
          (mod_strm s (mod_snd (\<lambda>v. v\<lparr>on_control_list := True\<rparr>)) m)
      else m)"

definition RemoveFromControlList :: "mos_config \<Rightarrow> ref \<Rightarrow> mtcp_manager \<Rightarrow> mtcp_manager" where
  "RemoveFromControlList cfg s m =
     (if on_control_list (sndvar (strm m s)) then
        mod_sender (GetSender cfg (strm m s))
          (\<lambda>d. d\<lparr>control_list := remove1 s (control_list d), control_list_cnt := control_list_cnt d - 1\<rparr>)
          (mod_strm s (mod_snd (\<lambda>v. v\<lparr>on_control_list := False\<rparr>)) m)
      else m)"

definition AddtoSendList :: "mos_config \<Rightarrow> ref \<Rightarrow> mtcp_manager \<Rightarrow> mtcp_manager" where
  "AddtoSendList cfg s m =
     (if sndbuf (sndvar (strm m s)) = None then m
      else if \<not> on_send_list (sndvar (strm m s)) then
        mod_sender (GetSender cfg (strm m s))
          (\<lambda>d. d\<lparr>send_list := send_list d @ [s], send_list_cnt := send_list_cnt d + 1\<rparr>)
          (mod_strm s (mod_snd (\<lambda>v. v\<lparr>on_send_list := True\<rparr>)) m)
      else m)"

definition RemoveFromSendList :: "mos_config \<Rightarrow> ref \<Rightarrow> mtcp_manager \<Rightarrow> mtcp_manager" where
  "RemoveFromSendList cfg s m =
     (if on_send_list (sndvar (strm m s)) then
        mod_sender (GetSender cfg (strm m s))
          (\<lambda>d. d\<lparr>send_list := remove1 s (send_list d), send_list_cnt := send_list_cnt d - 1\<rparr>)
          (mod_strm s (mod_snd (\<lambda>v. v\<lparr>on_send_list := False\<rparr>)) m)
      else m)"

definition AddtoACKList :: "mos_config \<Rightarrow> ref \<Rightarrow> mtcp_manager \<Rightarrow> mtcp_manager" where
  "AddtoACKList cfg s m =
     (if \<not> on_ack_list (sndvar (strm m s)) then
        mod_sender (GetSender cfg (strm m s))
          (\<lambda>d. d\<lparr>ack_list := ack_list d @ [s], ack_list_cnt := ack_list_cnt d + 1\<rparr>)
          (mod_strm s (mod_snd (\<lambda>v. v\<lparr>on_ack_list := True\<rparr>)) m)
      else m)"

definition RemoveFromACKList :: "mos_config \<Rightarrow> ref \<Rightarrow> mtcp_manager \<Rightarrow> mtcp_manager" where
  "RemoveFromACKList cfg s m =
     (if on_ack_list (sndvar (strm m s)) then
        mod_sender (GetSender cfg (strm m s))
          (\<lambda>d. d\<lparr>ack_list := remove1 s (ack_list d), ack_list_cnt := ack_list_cnt d - 1\<rparr>)
          (mod_strm s (mod_snd (\<lambda>v. v\<lparr>on_ack_list := False\<rparr>)) m)
      else m)"

text \<open>Both counter guards of \<open>EnqueueACK\<close> compare after promotion to \<open>int\<close>, so they always hold.\<close>

datatype ack_opt = ACK_OPT_NOW | ACK_OPT_AGGREGATE | ACK_OPT_WACK

definition EnqueueACK :: "mos_config \<Rightarrow> ref \<Rightarrow> ack_opt \<Rightarrow> mtcp_manager \<Rightarrow> mtcp_manager" where
  "EnqueueACK cfg s opt m =
     AddtoACKList cfg s (mod_strm s (mod_snd (\<lambda>v. case opt of
        ACK_OPT_NOW \<Rightarrow> (if uint (ack_cnt v) < uint (ack_cnt v) + 1 then v\<lparr>ack_cnt := ack_cnt v + 1\<rparr> else v)
      | ACK_OPT_AGGREGATE \<Rightarrow> (if ack_cnt v = 0 then v\<lparr>ack_cnt := 1\<rparr> else v)
      | ACK_OPT_WACK \<Rightarrow> v\<lparr>is_wack := True\<rparr>)) m)"

section \<open>The timing wheel and the two timer lists\<close>

definition RTO_HASH :: nat where "RTO_HASH = 2048"

definition InitRTOHashstore :: "bool \<Rightarrow> rto_hashstore option" where
  "InitRTOHashstore alloc_ok =
     (if \<not> alloc_ok then None
      else Some \<lparr>rto_now_idx = 0, rto_now_ts = 0, rto_list = (\<lambda>_. [])\<rparr>)"

definition mod_rto_list :: "nat \<Rightarrow> (ref list \<Rightarrow> ref list) \<Rightarrow> mtcp_manager \<Rightarrow> mtcp_manager" where
  "mod_rto_list i f m =
     m\<lparr>rto_store := (rto_store m)\<lparr>rto_list := (rto_list (rto_store m))(i := f (rto_list (rto_store m) i))\<rparr>\<rparr>"

text \<open>\<open>(diff + rto_now_idx) & (RTO_HASH - 1)\<close>, with \<open>diff\<close> signed and the sum unsigned.\<close>

definition rto_offset :: "u32 \<Rightarrow> rto_hashstore \<Rightarrow> u32" where
  "rto_offset ts hs = (let diff = sint (ts - rto_now_ts hs) in
     (word_of_int diff + rto_now_idx hs) AND (of_nat RTO_HASH - 1))"

definition AddtoRTOList :: "ref \<Rightarrow> mtcp_manager \<Rightarrow> mtcp_manager" where
  "AddtoRTOList s m =
     (let m = (if rto_list_cnt m = 0
               then m\<lparr>rto_store := (rto_store m)\<lparr>rto_now_idx := 0,
                        rto_now_ts := ts_rto (sndvar (strm m s))\<rparr>\<rparr>
               else m) in
      if on_rto_idx (strm m s) < 0 then
        if on_timewait_list (strm m s) then m
        else let offset = unat (rto_offset (ts_rto (sndvar (strm m s))) (rto_store m));
                 m = mod_strm s (\<lambda>t. t\<lparr>on_rto_idx := int offset\<rparr>) m;
                 m = mod_rto_list offset (\<lambda>l. l @ [s]) m
             in m\<lparr>rto_list_cnt := rto_list_cnt m + 1\<rparr>
      else m)"

definition RemoveFromRTOList :: "ref \<Rightarrow> mtcp_manager \<Rightarrow> mtcp_manager" where
  "RemoveFromRTOList s m =
     (if on_rto_idx (strm m s) < 0 then m
      else let m = mod_rto_list (nat (on_rto_idx (strm m s))) (remove1 s) m;
               m = mod_strm s (\<lambda>t. t\<lparr>on_rto_idx := -1\<rparr>) m
           in m\<lparr>rto_list_cnt := rto_list_cnt m - 1\<rparr>)"

definition AddtoTimewaitList :: "mos_config \<Rightarrow> ref \<Rightarrow> u32 \<Rightarrow> mtcp_manager \<Rightarrow> mtcp_manager" where
  "AddtoTimewaitList cfg s cur_ts m =
     (let m = mod_strm s (mod_rcv (\<lambda>r. r\<lparr>ts_tw_expire := cur_ts + tcp_tw_interval cfg\<rparr>)) m in
      if on_timewait_list (strm m s)
      then m\<lparr>timewait_list := remove1 s (timewait_list m) @ [s]\<rparr>
      else let m = (if on_rto_idx (strm m s) \<ge> 0 then RemoveFromRTOList s m else m);
               m = mod_strm s (\<lambda>t. t\<lparr>on_timewait_list := True\<rparr>) m
           in m\<lparr>timewait_list := timewait_list m @ [s], timewait_list_cnt := timewait_list_cnt m + 1\<rparr>)"

definition RemoveFromTimewaitList :: "ref \<Rightarrow> mtcp_manager \<Rightarrow> mtcp_manager" where
  "RemoveFromTimewaitList s m =
     (if \<not> on_timewait_list (strm m s) then m
      else let m = mod_strm s (\<lambda>t. t\<lparr>on_timewait_list := False\<rparr>) m
           in m\<lparr>timewait_list := remove1 s (timewait_list m), timewait_list_cnt := timewait_list_cnt m - 1\<rparr>)"

definition AddtoTimeoutList :: "ref \<Rightarrow> mtcp_manager \<Rightarrow> mtcp_manager" where
  "AddtoTimeoutList s m =
     (if on_timeout_list (strm m s) then m
      else let m = mod_strm s (\<lambda>t. t\<lparr>on_timeout_list := True\<rparr>) m
           in m\<lparr>timeout_list := timeout_list m @ [s], timeout_list_cnt := timeout_list_cnt m + 1\<rparr>)"

definition RemoveFromTimeoutList :: "ref \<Rightarrow> mtcp_manager \<Rightarrow> mtcp_manager" where
  "RemoveFromTimeoutList s m =
     (if on_timeout_list (strm m s)
      then let m = mod_strm s (\<lambda>t. t\<lparr>on_timeout_list := False\<rparr>) m
           in m\<lparr>timeout_list := remove1 s (timeout_list m), timeout_list_cnt := timeout_list_cnt m - 1\<rparr>
      else m)"

definition UpdateTimeoutList :: "ref \<Rightarrow> mtcp_manager \<Rightarrow> mtcp_manager" where
  "UpdateTimeoutList s m =
     (if on_timeout_list (strm m s)
      then m\<lparr>timeout_list := remove1 s (timeout_list m) @ [s]\<rparr>
      else m)"

definition UpdateRetransmissionTimer :: "ref \<Rightarrow> u32 \<Rightarrow> mtcp_manager \<Rightarrow> mtcp_manager" where
  "UpdateRetransmissionTimer s cur_ts m =
     (let m = mod_strm s (mod_snd (\<lambda>v. v\<lparr>nrtx := 0\<rparr>)) m;
          m = (if on_rto_idx (strm m s) \<ge> 0 then RemoveFromRTOList s m else m) in
      if TCP_SEQ_GT (snd_nxt (strm m s)) (snd_una (sndvar (strm m s))) then
        AddtoRTOList s (mod_strm s (mod_snd (\<lambda>v. v\<lparr>ts_rto := cur_ts + rto v\<rparr>)) m)
      else m)"

section \<open>One intrusive list, in general\<close>

text \<open>
  A family of lists and, for every stream, the list its flags put it on.  The provider
  promises what adding and removing do to both; the consistency of lists and flags then
  follows once for all of them.
\<close>

definition tracked :: "ref set \<Rightarrow> ('k \<Rightarrow> ref list) \<Rightarrow> (ref \<Rightarrow> 'k option) \<Rightarrow> bool" where
  "tracked L ls place \<longleftrightarrow> (\<forall>k. distinct (ls k) \<and> set (ls k) = {s \<in> L. place s = Some k})"

lemma Suc_length_remove1: "x \<in> set xs \<Longrightarrow> Suc (length (remove1 x xs)) = length xs"
  by (induction xs) auto

locale intrusive_list =
  fixes lists :: "'m \<Rightarrow> 'k \<Rightarrow> ref list"
    and place :: "'m \<Rightarrow> ref \<Rightarrow> 'k option"
    and add :: "ref \<Rightarrow> 'm \<Rightarrow> 'm"
    and remove :: "ref \<Rightarrow> 'm \<Rightarrow> 'm"
  assumes add_other: "s' \<noteq> s \<Longrightarrow> place (add s m) s' = place m s'"
    and add_kept: "place m s = Some k \<Longrightarrow> place (add s m) s = Some k \<and>
      (lists (add s m) = lists m \<or> lists (add s m) = (lists m)(k := remove1 s (lists m k) @ [s]))"
    and add_refused: "place m s = None \<Longrightarrow> place (add s m) s = None \<Longrightarrow> lists (add s m) = lists m"
    and add_done: "place m s = None \<Longrightarrow> place (add s m) s = Some k \<Longrightarrow>
      lists (add s m) = (lists m)(k := lists m k @ [s])"
    and remove_place: "place (remove s m) = (place m)(s := None)"
    and remove_none: "place m s = None \<Longrightarrow> lists (remove s m) = lists m"
    and remove_done: "place m s = Some k \<Longrightarrow> lists (remove s m) = (lists m)(k := remove1 s (lists m k))"
begin

lemma add_tracked:
  assumes t: "tracked L (lists m) (place m)" and s: "s \<in> L"
  shows "tracked L (lists (add s m)) (place (add s m))"
proof (cases "place m s")
  case (Some k)
  have p: "place (add s m) = place m"
    using add_kept[OF Some] Some add_other[of _ s m] by (metis ext)
  have d: "distinct (lists m k')" "set (lists m k') = {s' \<in> L. place m s' = Some k'}" for k'
    using t by (auto simp: tracked_def)
  from add_kept[OF Some] consider "lists (add s m) = lists m"
    | "lists (add s m) = (lists m)(k := remove1 s (lists m k) @ [s])" by blast
  then show ?thesis
  proof cases
    case 1 then show ?thesis using t p by simp
  next
    case 2
    have "insert s (set (lists m k) - {s}) = {s' \<in> L. place m s' = Some k}"
      unfolding d(2) using s Some by blast
    then show ?thesis unfolding tracked_def 2 p using d by simp
  qed
next
  case None
  show ?thesis
  proof (cases "place (add s m) s")
    case None2: None
    then have "place (add s m) = place m" using None add_other[of _ s m] by (metis ext)
    then show ?thesis using t add_refused[OF None None2] by simp
  next
    case (Some k)
    have p: "place (add s m) s' = (if s' = s then Some k else place m s')" for s'
      using Some add_other[of s' s m] by simp
    have n: "s \<notin> set (lists m k')" for k' using t None by (auto simp: tracked_def)
    show ?thesis unfolding tracked_def
    proof
      fix k'
      have "{s' \<in> L. place (add s m) s' = Some k'}
          = (if k' = k then insert s {s' \<in> L. place m s' = Some k'} else {s' \<in> L. place m s' = Some k'})"
        using s None by (auto simp: p)
      then show "distinct (lists (add s m) k') \<and> set (lists (add s m) k') = {s' \<in> L. place (add s m) s' = Some k'}"
        using t n[of k'] None unfolding tracked_def add_done[OF None Some] by simp
    qed
  qed
qed

lemma remove_tracked:
  assumes t: "tracked L (lists m) (place m)"
  shows "tracked L (lists (remove s m)) (place (remove s m))"
proof (cases "place m s")
  case None
  then have "(place m)(s := None) = place m" by auto
  then show ?thesis using t remove_none[OF None] by (simp add: remove_place)
next
  case (Some k)
  show ?thesis unfolding tracked_def
  proof
    fix k'
    have d: "distinct (lists m k')" "set (lists m k') = {s' \<in> L. place m s' = Some k'}"
      using t by (auto simp: tracked_def)
    show "distinct (lists (remove s m) k') \<and> set (lists (remove s m) k') = {s' \<in> L. place (remove s m) s' = Some k'}"
    proof (cases "k' = k")
      case True
      then show ?thesis using d by (auto simp: remove_done[OF Some] remove_place)
    next
      case False
      then show ?thesis using d Some by (auto simp: remove_done[OF Some] remove_place)
    qed
  qed
qed

end

definition each_ok :: "ref set \<Rightarrow> ('k \<Rightarrow> ref list) \<times> (ref \<Rightarrow> 'k option) \<times> ('k \<Rightarrow> int) \<Rightarrow> bool" where
  "each_ok L fam = (case fam of (ls, pl, cn) \<Rightarrow>
     tracked L ls pl \<and> (\<forall>k. cn k = int (length (ls k))))"

text \<open>The senders count each list, the timers all of them together.\<close>

locale each_counted = intrusive_list +
  fixes each :: "'m \<Rightarrow> 'k \<Rightarrow> int"
  assumes each_add: "place m s = None \<Longrightarrow> place (add s m) s = Some k \<Longrightarrow>
      each (add s m) = (each m)(k := each m k + 1)"
    and each_kept: "place m s \<noteq> None \<or> place (add s m) s = None \<Longrightarrow> each (add s m) = each m"
    and each_remove: "place m s = Some k \<Longrightarrow> each (remove s m) = (each m)(k := each m k - 1)"
    and each_none: "place m s = None \<Longrightarrow> each (remove s m) = each m"
begin

lemma in_list: "tracked L (lists m) (place m) \<Longrightarrow> s \<in> L \<Longrightarrow> place m s = Some k \<Longrightarrow> s \<in> set (lists m k)"
  by (auto simp: tracked_def)

lemma each_add_length:
  assumes "\<forall>k. each m k = int (length (lists m k))" and t: "tracked L (lists m) (place m)" and s: "s \<in> L"
  shows "each (add s m) k = int (length (lists (add s m) k))"
proof (cases "place m s")
  case (Some j)
  then have "each (add s m) = each m" by (simp add: each_kept)
  moreover have "length (lists (add s m) k) = length (lists m k)"
    using add_kept[OF Some] in_list[OF t s Some] by (auto simp: Suc_length_remove1)
  ultimately show ?thesis using assms(1) by simp
next
  case None
  show ?thesis
    using assms(1) None add_refused[OF None] add_done[OF None] each_add[OF None] each_kept[of m s]
    by (cases "place (add s m) s") simp_all
qed

lemma each_remove_length:
  assumes "\<forall>k. each m k = int (length (lists m k))" and t: "tracked L (lists m) (place m)" and "s \<in> L"
  shows "each (remove s m) k = int (length (lists (remove s m) k))"
proof (cases "place m s")
  case None
  then show ?thesis using assms(1) by (simp add: each_none remove_none)
next
  case (Some j)
  then have "s \<in> set (lists m j)" using t \<open>s \<in> L\<close> by (auto simp: tracked_def)
  then show ?thesis using assms(1) each_remove[OF Some] remove_done[OF Some]
    by (simp add: int_length_remove1)
qed

lemma each_ok_add:
  "each_ok L (lists m, place m, each m) \<Longrightarrow> s \<in> L \<Longrightarrow> each_ok L (lists (add s m), place (add s m), each (add s m))"
  using add_tracked[of L m s] each_add_length[of m L s] by (simp add: each_ok_def)

lemma each_ok_remove:
  "each_ok L (lists m, place m, each m) \<Longrightarrow> s \<in> L \<Longrightarrow>
   each_ok L (lists (remove s m), place (remove s m), each (remove s m))"
  using remove_tracked[of L m s] each_remove_length[of m L s] by (simp add: each_ok_def)

end

definition placed_on :: "(ref \<Rightarrow> 'k option) \<Rightarrow> ref set \<Rightarrow> ref set" where
  "placed_on pl L = {s \<in> L. pl s \<noteq> None}"

definition total_ok :: "ref set \<Rightarrow> ('k \<Rightarrow> ref list) \<times> (ref \<Rightarrow> 'k option) \<times> int \<Rightarrow> bool" where
  "total_ok L fam = (case fam of (ls, pl, n) \<Rightarrow>
     tracked L ls pl \<and> n = int (card (placed_on pl L)))"

locale total_counted = intrusive_list +
  fixes total :: "'m \<Rightarrow> int"
  assumes total_add: "total (add s m) =
      total m + (if place m s = None \<and> place (add s m) s \<noteq> None then 1 else 0)"
    and total_remove: "total (remove s m) = total m - (if place m s = None then 0 else 1)"
begin

lemma total_add_card:
  assumes "finite L" "s \<in> L" "total m = int (card (placed_on (place m) L))"
  shows "total (add s m) = int (card (placed_on (place (add s m)) L))"
proof (cases "place m s = None \<and> place (add s m) s \<noteq> None")
  case True
  have "placed_on (place (add s m)) L = insert s (placed_on (place m) L)"
    unfolding placed_on_def
  proof (rule set_eqI)
    fix x
    show "x \<in> {s' \<in> L. place (add s m) s' \<noteq> None} \<longleftrightarrow> x \<in> insert s {s' \<in> L. place m s' \<noteq> None}"
      using True assms(2) add_other[of x s m] by (cases "x = s") auto
  qed
  moreover have "s \<notin> placed_on (place m) L" "finite (placed_on (place m) L)" using True assms(1) by (auto simp: placed_on_def)
  ultimately show ?thesis using True assms(3) by (simp add: total_add)
next
  case False
  then have "place (add s m) s = place m s" using add_kept[of m s] by (cases "place m s") auto
  then have "placed_on (place (add s m)) L = placed_on (place m) L"
    unfolding placed_on_def using add_other[of _ s m] by metis
  then show ?thesis unfolding total_add using False assms(3) by auto
qed

lemma total_remove_card:
  assumes "finite L" "s \<in> L" "total m = int (card (placed_on (place m) L))"
  shows "total (remove s m) = int (card (placed_on (place (remove s m)) L))"
proof (cases "place m s = None")
  case True
  then have "placed_on (place (remove s m)) L = placed_on (place m) L" by (auto simp: placed_on_def remove_place)
  then show ?thesis using True assms(3) by (simp add: total_remove)
next
  case False
  have e: "placed_on (place (remove s m)) L = placed_on (place m) L - {s}" by (auto simp: placed_on_def remove_place)
  have "s \<in> placed_on (place m) L" "finite (placed_on (place m) L)" using False assms(1,2) by (auto simp: placed_on_def)
  then have "Suc (card (placed_on (place m) L - {s})) = card (placed_on (place m) L)" by (intro card_Suc_Diff1) auto
  then have "int (card (placed_on (place m) L - {s})) = int (card (placed_on (place m) L)) - 1" by linarith
  then show ?thesis using False assms(3) e by (simp add: total_remove)
qed

lemma total_ok_add:
  "finite L \<Longrightarrow> total_ok L (lists m, place m, total m) \<Longrightarrow> s \<in> L \<Longrightarrow>
   total_ok L (lists (add s m), place (add s m), total (add s m))"
  using add_tracked[of L m s] total_add_card[of L s m] by (simp add: total_ok_def)

lemma total_ok_remove:
  "finite L \<Longrightarrow> total_ok L (lists m, place m, total m) \<Longrightarrow> s \<in> L \<Longrightarrow>
   total_ok L (lists (remove s m), place (remove s m), total (remove s m))"
  using remove_tracked[of L m s] total_remove_card[of L s m] by (simp add: total_ok_def)

end

section \<open>The six families of lists\<close>

definition control_of :: "mos_config \<Rightarrow> mtcp_manager \<Rightarrow> ref \<Rightarrow> nat option" where
  "control_of cfg m s = (if on_control_list (sndvar (strm m s)) then GetSender cfg (strm m s) else None)"

definition send_of :: "mos_config \<Rightarrow> mtcp_manager \<Rightarrow> ref \<Rightarrow> nat option" where
  "send_of cfg m s = (if on_send_list (sndvar (strm m s)) then GetSender cfg (strm m s) else None)"

definition ack_of :: "mos_config \<Rightarrow> mtcp_manager \<Rightarrow> ref \<Rightarrow> nat option" where
  "ack_of cfg m s = (if on_ack_list (sndvar (strm m s)) then GetSender cfg (strm m s) else None)"

definition rto_of :: "mtcp_manager \<Rightarrow> ref \<Rightarrow> nat option" where
  "rto_of m s = (if on_rto_idx (strm m s) \<ge> 0 then Some (nat (on_rto_idx (strm m s))) else None)"

definition timewait_of :: "mtcp_manager \<Rightarrow> ref \<Rightarrow> unit option" where
  "timewait_of m s = (if on_timewait_list (strm m s) then Some () else None)"

definition timeout_of :: "mtcp_manager \<Rightarrow> ref \<Rightarrow> unit option" where
  "timeout_of m s = (if on_timeout_list (strm m s) then Some () else None)"

definition control_lists :: "mtcp_manager \<Rightarrow> nat \<Rightarrow> ref list" where "control_lists m k = control_list (senders m k)"
definition send_lists :: "mtcp_manager \<Rightarrow> nat \<Rightarrow> ref list" where "send_lists m k = send_list (senders m k)"
definition ack_lists :: "mtcp_manager \<Rightarrow> nat \<Rightarrow> ref list" where "ack_lists m k = ack_list (senders m k)"
definition control_cnts :: "mtcp_manager \<Rightarrow> nat \<Rightarrow> int" where "control_cnts m k = control_list_cnt (senders m k)"
definition send_cnts :: "mtcp_manager \<Rightarrow> nat \<Rightarrow> int" where "send_cnts m k = send_list_cnt (senders m k)"
definition ack_cnts :: "mtcp_manager \<Rightarrow> nat \<Rightarrow> int" where "ack_cnts m k = ack_list_cnt (senders m k)"
definition rto_lists :: "mtcp_manager \<Rightarrow> nat \<Rightarrow> ref list" where "rto_lists m = rto_list (rto_store m)"
definition timewait_lists :: "mtcp_manager \<Rightarrow> unit \<Rightarrow> ref list" where "timewait_lists m k = timewait_list m"
definition timeout_lists :: "mtcp_manager \<Rightarrow> unit \<Rightarrow> ref list" where "timeout_lists m k = timeout_list m"

lemmas place_defs = control_of_def send_of_def ack_of_def rto_of_def timewait_of_def timeout_of_def
lemmas lists_defs = control_lists_def send_lists_def ack_lists_def control_cnts_def send_cnts_def
  ack_cnts_def rto_lists_def timewait_lists_def timeout_lists_def

lemma GetSender_cong: "nif_out (sndvar t) = nif_out (sndvar t') \<Longrightarrow> GetSender cfg t = GetSender cfg t'"
  by (simp add: GetSender_def)

lemma GetSender_flags [simp]:
  "GetSender cfg (mod_snd (\<lambda>v. v\<lparr>on_control_list := b\<rparr>) t) = GetSender cfg t"
  "GetSender cfg (mod_snd (\<lambda>v. v\<lparr>on_send_list := b\<rparr>) t) = GetSender cfg t"
  "GetSender cfg (mod_snd (\<lambda>v. v\<lparr>on_ack_list := b\<rparr>) t) = GetSender cfg t"
  by (rule GetSender_cong; simp)+

lemma GetSender_upd [simp]:
  "GetSender cfg (t\<lparr>on_rto_idx := i\<rparr>) = GetSender cfg t"
  "GetSender cfg (t\<lparr>on_timewait_list := b\<rparr>) = GetSender cfg t"
  "GetSender cfg (t\<lparr>on_timeout_list := b\<rparr>) = GetSender cfg t"
  "GetSender cfg (mod_rcv f t) = GetSender cfg t"
  by (rule GetSender_cong; simp)+

lemma strm_mod_sender [simp]: "strm (mod_sender k f m) s = strm m s"
  by (simp add: mod_sender_def split: option.split)

lemma strm_mod_rto_list [simp]: "strm (mod_rto_list i f m) s = strm m s"
  by (simp add: mod_rto_list_def)

interpretation ctl: each_counted control_lists "control_of cfg" "enter_control cfg"
  "RemoveFromControlList cfg" control_cnts for cfg
  by unfold_locales
    (auto simp: control_lists_def control_of_def control_cnts_def enter_control_def RemoveFromControlList_def
       mod_sender_def fun_eq_iff strm_mod split: option.splits if_splits)

interpretation snd: each_counted send_lists "send_of cfg" "AddtoSendList cfg"
  "RemoveFromSendList cfg" send_cnts for cfg
  by unfold_locales
    (auto simp: send_lists_def send_of_def send_cnts_def AddtoSendList_def RemoveFromSendList_def
       mod_sender_def fun_eq_iff strm_mod split: option.splits if_splits)

interpretation ackl: each_counted ack_lists "ack_of cfg" "AddtoACKList cfg"
  "RemoveFromACKList cfg" ack_cnts for cfg
  by unfold_locales
    (auto simp: ack_lists_def ack_of_def ack_cnts_def AddtoACKList_def RemoveFromACKList_def
       mod_sender_def fun_eq_iff strm_mod split: option.splits if_splits)

interpretation rtol: total_counted rto_lists rto_of AddtoRTOList RemoveFromRTOList rto_list_cnt
  by unfold_locales
    (auto simp: rto_lists_def rto_of_def AddtoRTOList_def RemoveFromRTOList_def mod_rto_list_def Let_def
       fun_eq_iff strm_mod split: if_splits)

interpretation tol: total_counted timeout_lists timeout_of AddtoTimeoutList RemoveFromTimeoutList timeout_list_cnt
  by unfold_locales
    (auto simp: timeout_lists_def timeout_of_def AddtoTimeoutList_def RemoveFromTimeoutList_def Let_def
       fun_eq_iff strm_mod split: if_splits)

interpretation twl: total_counted timewait_lists timewait_of "\<lambda>s. AddtoTimewaitList cfg s ts"
  RemoveFromTimewaitList timewait_list_cnt for cfg ts
  by unfold_locales
    (auto simp: timewait_lists_def timewait_of_def AddtoTimewaitList_def RemoveFromTimewaitList_def
       RemoveFromRTOList_def mod_rto_list_def Let_def
       fun_eq_iff strm_mod split: if_splits)

section \<open>Lists and flags agree\<close>

definition ctl_fam where "ctl_fam cfg m = (control_lists m, control_of cfg m, control_cnts m)"
definition snd_fam where "snd_fam cfg m = (send_lists m, send_of cfg m, send_cnts m)"
definition ack_fam where "ack_fam cfg m = (ack_lists m, ack_of cfg m, ack_cnts m)"
definition rto_fam where "rto_fam m = (rto_lists m, rto_of m, rto_list_cnt m)"
definition tw_fam where "tw_fam m = (timewait_lists m, timewait_of m, timewait_list_cnt m)"
definition to_fam where "to_fam m = (timeout_lists m, timeout_of m, timeout_list_cnt m)"

lemmas fam_defs = ctl_fam_def snd_fam_def ack_fam_def rto_fam_def tw_fam_def to_fam_def

text \<open>The wheel and the time-wait list share one link field, so no stream may be on both.\<close>

definition timer_excl :: "ref set \<Rightarrow> mtcp_manager \<Rightarrow> bool" where
  "timer_excl L m \<longleftrightarrow> (\<forall>s \<in> L. rto_of m s = None \<or> timewait_of m s = None)"

text \<open>\<open>L\<close> is the set of live streams.\<close>

definition lists_ok :: "mos_config \<Rightarrow> ref set \<Rightarrow> mtcp_manager \<Rightarrow> bool" where
  "lists_ok cfg L m \<longleftrightarrow> finite L \<and>
     each_ok L (ctl_fam cfg m) \<and> each_ok L (snd_fam cfg m) \<and> each_ok L (ack_fam cfg m) \<and>
     total_ok L (rto_fam m) \<and> total_ok L (tw_fam m) \<and> total_ok L (to_fam m) \<and> timer_excl L m"

text \<open>Everything else about a stream is irrelevant to its lists.\<close>

definition list_view :: "tcp_stream \<Rightarrow> _" where
  "list_view t = ((nif_out (sndvar t), on_control_list (sndvar t), on_send_list (sndvar t), on_ack_list (sndvar t)),
     (on_rto_idx t, on_timewait_list t, on_timeout_list t))"

lemma fam_mod_strm:
  assumes "list_view (f (strm m s)) = list_view (strm m s)"
  shows "ctl_fam cfg (mod_strm s f m) = ctl_fam cfg m"
    and "snd_fam cfg (mod_strm s f m) = snd_fam cfg m"
    and "ack_fam cfg (mod_strm s f m) = ack_fam cfg m"
    and "rto_fam (mod_strm s f m) = rto_fam m"
    and "tw_fam (mod_strm s f m) = tw_fam m"
    and "to_fam (mod_strm s f m) = to_fam m"
proof -
  have g: "GetSender cfg (f (strm m s)) = GetSender cfg (strm m s)"
    by (rule GetSender_cong) (use assms in \<open>simp add: list_view_def\<close>)
  show "ctl_fam cfg (mod_strm s f m) = ctl_fam cfg m" "snd_fam cfg (mod_strm s f m) = snd_fam cfg m"
    "ack_fam cfg (mod_strm s f m) = ack_fam cfg m"
    using assms g by (simp_all add: fam_defs place_defs lists_defs list_view_def strm_mod fun_eq_iff)
  show "rto_fam (mod_strm s f m) = rto_fam m" "tw_fam (mod_strm s f m) = tw_fam m"
    "to_fam (mod_strm s f m) = to_fam m"
    using assms by (simp_all add: fam_defs place_defs lists_defs list_view_def strm_mod fun_eq_iff)
qed

lemma timer_excl_cong:
  "rto_of m = rto_of m' \<Longrightarrow> timewait_of m = timewait_of m' \<Longrightarrow> timer_excl L m = timer_excl L m'"
  by (simp add: timer_excl_def)

lemma timer_excl_fam: "rto_fam m = rto_fam m' \<Longrightarrow> tw_fam m = tw_fam m' \<Longrightarrow> timer_excl L m = timer_excl L m'"
  by (rule timer_excl_cong) (simp_all add: fam_defs)

lemma lists_ok_mod_strm:
  assumes "list_view (f (strm m s)) = list_view (strm m s)"
  shows "lists_ok cfg L (mod_strm s f m) = lists_ok cfg L m"
  unfolding lists_ok_def fam_mod_strm[of f m s, OF assms]
  using timer_excl_fam[OF fam_mod_strm(4)[of f m s, OF assms] fam_mod_strm(5)[of f m s, OF assms]] by simp

subsection \<open>What each operation leaves alone\<close>

lemma enter_control_frame [frame_simps]:
  "snd_fam cfg (enter_control cfg s m) = snd_fam cfg m"
  "ack_fam cfg (enter_control cfg s m) = ack_fam cfg m"
  "rto_fam (enter_control cfg s m) = rto_fam m"
  "tw_fam (enter_control cfg s m) = tw_fam m"
  "to_fam (enter_control cfg s m) = to_fam m"
  by (simp_all add: fam_defs place_defs lists_defs enter_control_def mod_sender_def mod_rto_list_def Let_def
       fun_eq_iff strm_mod split: option.split)

lemma RemoveFromControlList_frame [frame_simps]:
  "snd_fam cfg (RemoveFromControlList cfg s m) = snd_fam cfg m"
  "ack_fam cfg (RemoveFromControlList cfg s m) = ack_fam cfg m"
  "rto_fam (RemoveFromControlList cfg s m) = rto_fam m"
  "tw_fam (RemoveFromControlList cfg s m) = tw_fam m"
  "to_fam (RemoveFromControlList cfg s m) = to_fam m"
  by (simp_all add: fam_defs place_defs lists_defs RemoveFromControlList_def mod_sender_def mod_rto_list_def Let_def
       fun_eq_iff strm_mod split: option.split)

lemma AddtoSendList_frame [frame_simps]:
  "ctl_fam cfg (AddtoSendList cfg s m) = ctl_fam cfg m"
  "ack_fam cfg (AddtoSendList cfg s m) = ack_fam cfg m"
  "rto_fam (AddtoSendList cfg s m) = rto_fam m"
  "tw_fam (AddtoSendList cfg s m) = tw_fam m"
  "to_fam (AddtoSendList cfg s m) = to_fam m"
  by (simp_all add: fam_defs place_defs lists_defs AddtoSendList_def mod_sender_def mod_rto_list_def Let_def
       fun_eq_iff strm_mod split: option.split)

lemma RemoveFromSendList_frame [frame_simps]:
  "ctl_fam cfg (RemoveFromSendList cfg s m) = ctl_fam cfg m"
  "ack_fam cfg (RemoveFromSendList cfg s m) = ack_fam cfg m"
  "rto_fam (RemoveFromSendList cfg s m) = rto_fam m"
  "tw_fam (RemoveFromSendList cfg s m) = tw_fam m"
  "to_fam (RemoveFromSendList cfg s m) = to_fam m"
  by (simp_all add: fam_defs place_defs lists_defs RemoveFromSendList_def mod_sender_def mod_rto_list_def Let_def
       fun_eq_iff strm_mod split: option.split)

lemma AddtoACKList_frame [frame_simps]:
  "ctl_fam cfg (AddtoACKList cfg s m) = ctl_fam cfg m"
  "snd_fam cfg (AddtoACKList cfg s m) = snd_fam cfg m"
  "rto_fam (AddtoACKList cfg s m) = rto_fam m"
  "tw_fam (AddtoACKList cfg s m) = tw_fam m"
  "to_fam (AddtoACKList cfg s m) = to_fam m"
  by (simp_all add: fam_defs place_defs lists_defs AddtoACKList_def mod_sender_def mod_rto_list_def Let_def
       fun_eq_iff strm_mod split: option.split)

lemma RemoveFromACKList_frame [frame_simps]:
  "ctl_fam cfg (RemoveFromACKList cfg s m) = ctl_fam cfg m"
  "snd_fam cfg (RemoveFromACKList cfg s m) = snd_fam cfg m"
  "rto_fam (RemoveFromACKList cfg s m) = rto_fam m"
  "tw_fam (RemoveFromACKList cfg s m) = tw_fam m"
  "to_fam (RemoveFromACKList cfg s m) = to_fam m"
  by (simp_all add: fam_defs place_defs lists_defs RemoveFromACKList_def mod_sender_def mod_rto_list_def Let_def
       fun_eq_iff strm_mod split: option.split)

lemma AddtoRTOList_frame [frame_simps]:
  "ctl_fam cfg (AddtoRTOList s m) = ctl_fam cfg m"
  "snd_fam cfg (AddtoRTOList s m) = snd_fam cfg m"
  "ack_fam cfg (AddtoRTOList s m) = ack_fam cfg m"
  "tw_fam (AddtoRTOList s m) = tw_fam m"
  "to_fam (AddtoRTOList s m) = to_fam m"
  by (simp_all add: fam_defs place_defs lists_defs AddtoRTOList_def mod_sender_def mod_rto_list_def Let_def
       fun_eq_iff strm_mod split: option.split)

lemma RemoveFromRTOList_frame [frame_simps]:
  "ctl_fam cfg (RemoveFromRTOList s m) = ctl_fam cfg m"
  "snd_fam cfg (RemoveFromRTOList s m) = snd_fam cfg m"
  "ack_fam cfg (RemoveFromRTOList s m) = ack_fam cfg m"
  "tw_fam (RemoveFromRTOList s m) = tw_fam m"
  "to_fam (RemoveFromRTOList s m) = to_fam m"
  by (simp_all add: fam_defs place_defs lists_defs RemoveFromRTOList_def mod_sender_def mod_rto_list_def Let_def
       fun_eq_iff strm_mod split: option.split)

lemma AddtoTimewaitList_frame [frame_simps]:
  "ctl_fam cfg (AddtoTimewaitList cfg s ts m) = ctl_fam cfg m"
  "snd_fam cfg (AddtoTimewaitList cfg s ts m) = snd_fam cfg m"
  "ack_fam cfg (AddtoTimewaitList cfg s ts m) = ack_fam cfg m"
  "to_fam (AddtoTimewaitList cfg s ts m) = to_fam m"
  by (simp_all add: fam_defs place_defs lists_defs AddtoTimewaitList_def RemoveFromRTOList_def mod_sender_def mod_rto_list_def Let_def
       fun_eq_iff strm_mod split: option.split)

lemma RemoveFromTimewaitList_frame [frame_simps]:
  "ctl_fam cfg (RemoveFromTimewaitList s m) = ctl_fam cfg m"
  "snd_fam cfg (RemoveFromTimewaitList s m) = snd_fam cfg m"
  "ack_fam cfg (RemoveFromTimewaitList s m) = ack_fam cfg m"
  "rto_fam (RemoveFromTimewaitList s m) = rto_fam m"
  "to_fam (RemoveFromTimewaitList s m) = to_fam m"
  by (simp_all add: fam_defs place_defs lists_defs RemoveFromTimewaitList_def mod_sender_def mod_rto_list_def Let_def
       fun_eq_iff strm_mod split: option.split)

lemma AddtoTimeoutList_frame [frame_simps]:
  "ctl_fam cfg (AddtoTimeoutList s m) = ctl_fam cfg m"
  "snd_fam cfg (AddtoTimeoutList s m) = snd_fam cfg m"
  "ack_fam cfg (AddtoTimeoutList s m) = ack_fam cfg m"
  "rto_fam (AddtoTimeoutList s m) = rto_fam m"
  "tw_fam (AddtoTimeoutList s m) = tw_fam m"
  by (simp_all add: fam_defs place_defs lists_defs AddtoTimeoutList_def mod_sender_def mod_rto_list_def Let_def
       fun_eq_iff strm_mod split: option.split)

lemma RemoveFromTimeoutList_frame [frame_simps]:
  "ctl_fam cfg (RemoveFromTimeoutList s m) = ctl_fam cfg m"
  "snd_fam cfg (RemoveFromTimeoutList s m) = snd_fam cfg m"
  "ack_fam cfg (RemoveFromTimeoutList s m) = ack_fam cfg m"
  "rto_fam (RemoveFromTimeoutList s m) = rto_fam m"
  "tw_fam (RemoveFromTimeoutList s m) = tw_fam m"
  by (simp_all add: fam_defs place_defs lists_defs RemoveFromTimeoutList_def mod_sender_def mod_rto_list_def Let_def
       fun_eq_iff strm_mod split: option.split)

lemma UpdateTimeoutList_frame [frame_simps]:
  "ctl_fam cfg (UpdateTimeoutList s m) = ctl_fam cfg m"
  "snd_fam cfg (UpdateTimeoutList s m) = snd_fam cfg m"
  "ack_fam cfg (UpdateTimeoutList s m) = ack_fam cfg m"
  "rto_fam (UpdateTimeoutList s m) = rto_fam m"
  "tw_fam (UpdateTimeoutList s m) = tw_fam m"
  by (simp_all add: fam_defs place_defs lists_defs UpdateTimeoutList_def mod_sender_def mod_rto_list_def Let_def
       fun_eq_iff strm_mod split: option.split)

subsection \<open>Every operation keeps lists and flags in agreement\<close>

lemmas ctl_add = ctl.each_ok_add[folded ctl_fam_def] and ctl_remove = ctl.each_ok_remove[folded ctl_fam_def]
lemmas snd_add = snd.each_ok_add[folded snd_fam_def] and snd_remove = snd.each_ok_remove[folded snd_fam_def]
lemmas ack_add = ackl.each_ok_add[folded ack_fam_def] and ack_remove = ackl.each_ok_remove[folded ack_fam_def]
lemmas rto_add = rtol.total_ok_add[folded rto_fam_def] and rto_remove = rtol.total_ok_remove[folded rto_fam_def]
lemmas tw_add = twl.total_ok_add[folded tw_fam_def] and tw_remove = twl.total_ok_remove[folded tw_fam_def]
lemmas to_add = tol.total_ok_add[folded to_fam_def] and to_remove = tol.total_ok_remove[folded to_fam_def]

lemma lists_ok_sender_ops [intro]:
  assumes "lists_ok cfg L m" "s \<in> L"
  shows "lists_ok cfg L (enter_control cfg s m)"
    and "lists_ok cfg L (RemoveFromControlList cfg s m)"
    and "lists_ok cfg L (AddtoSendList cfg s m)"
    and "lists_ok cfg L (RemoveFromSendList cfg s m)"
    and "lists_ok cfg L (AddtoACKList cfg s m)"
    and "lists_ok cfg L (RemoveFromACKList cfg s m)"
  using assms unfolding lists_ok_def
  by (simp_all add: frame_simps ctl_add ctl_remove snd_add snd_remove ack_add ack_remove
      timer_excl_fam[OF enter_control_frame(3,4)] timer_excl_fam[OF RemoveFromControlList_frame(3,4)]
      timer_excl_fam[OF AddtoSendList_frame(3,4)] timer_excl_fam[OF RemoveFromSendList_frame(3,4)]
      timer_excl_fam[OF AddtoACKList_frame(3,4)] timer_excl_fam[OF RemoveFromACKList_frame(3,4)])

lemma timer_excl_rto:
  assumes "timer_excl L m"
  shows "timer_excl L (AddtoRTOList s m)" and "timer_excl L (RemoveFromRTOList s m)"
    and "timer_excl L (AddtoTimewaitList cfg s ts m)" and "timer_excl L (RemoveFromTimewaitList s m)"
  using assms
  by (auto simp: timer_excl_def rto_of_def timewait_of_def AddtoRTOList_def RemoveFromRTOList_def
      AddtoTimewaitList_def RemoveFromTimewaitList_def Let_def strm_mod split: if_splits)

lemma AddtoTimewaitList_rto_fam:
  "rto_fam (AddtoTimewaitList cfg s ts m) =
     (if on_timewait_list (strm m s) \<or> on_rto_idx (strm m s) < 0 then rto_fam m
      else rto_fam (RemoveFromRTOList s m))"
  by (auto simp: fam_defs rto_of_def rto_lists_def AddtoTimewaitList_def RemoveFromRTOList_def
      mod_rto_list_def Let_def strm_mod fun_eq_iff)

lemma lists_ok_timer_ops [intro]:
  assumes "lists_ok cfg L m" "s \<in> L"
  shows "lists_ok cfg L (AddtoRTOList s m)"
    and "lists_ok cfg L (RemoveFromRTOList s m)"
    and "lists_ok cfg L (AddtoTimewaitList cfg s ts m)"
    and "lists_ok cfg L (RemoveFromTimewaitList s m)"
    and "lists_ok cfg L (AddtoTimeoutList s m)"
    and "lists_ok cfg L (RemoveFromTimeoutList s m)"
  using assms unfolding lists_ok_def
  by (simp_all add: frame_simps rto_add rto_remove tw_add tw_remove to_add to_remove
      timer_excl_rto AddtoTimewaitList_rto_fam
      timer_excl_fam[OF AddtoTimeoutList_frame(4,5)] timer_excl_fam[OF RemoveFromTimeoutList_frame(4,5)])

lemma UpdateTimeoutList_move:
  assumes "lists_ok cfg L m" "s \<in> L"
  shows "total_ok L (to_fam (UpdateTimeoutList s m))"
proof (cases "on_timeout_list (strm m s)")
  case True
  have t: "tracked L (timeout_lists m) (timeout_of m)" "timeout_list_cnt m = int (card (placed_on (timeout_of m) L))"
    using assms(1) by (auto simp: lists_ok_def total_ok_def to_fam_def)
  have d: "distinct (timeout_list m)" "set (timeout_list m) = {s \<in> L. timeout_of m s = Some ()}"
    using t(1) by (auto simp: tracked_def timeout_lists_def)
  have "s \<in> set (timeout_list m)" using True assms(2) d(2) by (simp add: timeout_of_def)
  then have "insert s (set (timeout_list m) - {s}) = set (timeout_list m)" by blast
  then show ?thesis using True t d
    by (simp add: UpdateTimeoutList_def total_ok_def to_fam_def tracked_def timeout_lists_def timeout_of_def
        placed_on_def fun_eq_iff)
next
  case False
  then show ?thesis using assms(1) by (simp add: UpdateTimeoutList_def lists_ok_def)
qed

lemma lists_ok_UpdateTimeoutList [intro]:
  assumes "lists_ok cfg L m" "s \<in> L"
  shows "lists_ok cfg L (UpdateTimeoutList s m)"
  using assms UpdateTimeoutList_move[OF assms] unfolding lists_ok_def
  by (simp add: frame_simps timer_excl_fam[OF UpdateTimeoutList_frame(4,5)])

lemma list_view_snd:
  assumes "nif_out (f (sndvar t)) = nif_out (sndvar t)" "on_control_list (f (sndvar t)) = on_control_list (sndvar t)"
    "on_send_list (f (sndvar t)) = on_send_list (sndvar t)" "on_ack_list (f (sndvar t)) = on_ack_list (sndvar t)"
  shows "list_view (mod_snd f t) = list_view t"
  using assms by (simp add: list_view_def)

lemma list_view_rcv [simp]: "list_view (mod_rcv f t) = list_view t"
  by (simp add: list_view_def)

lemma list_view_act [simp]: "list_view (act a t) = list_view t" "list_view (raise_cb e t) = list_view t"
  by (simp_all add: list_view_def)

lemma lists_ok_UpdateRetransmissionTimer [intro]:
  assumes "lists_ok cfg L m" "s \<in> L"
  shows "lists_ok cfg L (UpdateRetransmissionTimer s ts m)"
proof -
  have v: "list_view (mod_snd (\<lambda>v. v\<lparr>nrtx := 0\<rparr>) t) = list_view t"
    "list_view (mod_snd (\<lambda>v. v\<lparr>ts_rto := ts + rto v\<rparr>) t) = list_view t" for t
    by (simp_all add: list_view_snd)
  show ?thesis unfolding UpdateRetransmissionTimer_def Let_def
    using assms by (auto simp: lists_ok_mod_strm v intro!: lists_ok_timer_ops)
qed

lemma lists_ok_EnqueueACK [intro]:
  assumes "lists_ok cfg L m" "s \<in> L"
  shows "lists_ok cfg L (EnqueueACK cfg s opt m)"
  unfolding EnqueueACK_def using assms
  by (intro lists_ok_sender_ops) (auto simp: lists_ok_mod_strm list_view_snd split: ack_opt.split)

end
