(* ===== verification/Event_Queue.thy ===== *)
theory Event_Queue
  imports Tcp_State Ring_Queues
begin

text \<open>
  Epoll events (\<open>eventpoll.c\<close>, \<open>FlushEpollEvents\<close> of \<open>core.c\<close>) and the functions of
  \<open>tcp_stream.c\<close> that raise them.  A socket has one bit per event in \<open>events\<close>; the bit
  and the queue entry are kept together, which is what makes an event neither lost nor
  delivered twice.  The manager has one epoll instance.  Waiting on the condition variable
  is not modelled, what is fetched after waking up is.
\<close>

section \<open>The circular event queue\<close>

definition CreateEventQueue :: "bool \<Rightarrow> bool \<Rightarrow> int \<Rightarrow> event_queue option" where
  "CreateEventQueue alloc_eq alloc_events sz =
     (if \<not> alloc_eq then None
      else if \<not> alloc_events then None
      else Some \<lparr>eq_events = replicate (nat sz) \<lparr>ev_sockid = 0, ev_events = 0, ev_data = 0\<rparr>,
             eq_start = 0, eq_end = 0, eq_size = sz, eq_num_events = 0\<rparr>)"

definition eq_enq :: "event_queue \<Rightarrow> epoll_event \<Rightarrow> int \<times> event_queue" where
  "eq_enq q e =
     (if eq_num_events q \<ge> eq_size q then (-1, q)
      else let index = eq_end q; e1 = eq_end q + 1 in
        (0, q\<lparr>eq_events := (eq_events q)[nat index := e],
              eq_end := (if e1 \<ge> eq_size q then 0 else e1),
              eq_num_events := eq_num_events q + 1\<rparr>))"

definition eq_deq :: "event_queue \<Rightarrow> epoll_event option \<times> event_queue" where
  "eq_deq q =
     (if eq_num_events q \<le> 0 then (None, q)
      else let s1 = eq_start q + 1 in
        (Some (eq_events q ! nat (eq_start q)),
         q\<lparr>eq_start := (if s1 \<ge> eq_size q then 0 else s1), eq_num_events := eq_num_events q - 1\<rparr>))"

definition eq_contents :: "event_queue \<Rightarrow> epoll_event list" where
  "eq_contents q = map (\<lambda>i. eq_events q ! nat ((eq_start q + int i) mod eq_size q)) [0..<nat (eq_num_events q)]"

definition eq_inv :: "event_queue \<Rightarrow> bool" where
  "eq_inv q \<longleftrightarrow> 0 < eq_size q \<and> length (eq_events q) = nat (eq_size q) \<and> 0 \<le> eq_start q \<and> eq_start q < eq_size q \<and>
     0 \<le> eq_num_events q \<and> eq_num_events q \<le> eq_size q \<and> eq_end q = (eq_start q + eq_num_events q) mod eq_size q"

lemma wrap_succ:
  fixes x sz :: int
  assumes "0 \<le> x" "x < sz"
  shows "(if x + 1 \<ge> sz then 0 else x + 1) = (x + 1) mod sz"
proof (cases "x + 1 \<ge> sz")
  case True
  then have "x + 1 = sz" using assms by simp
  then show ?thesis by simp
qed (use assms in simp)

lemma eq_enq_inv:
  assumes "eq_inv q"
  shows "eq_inv (snd (eq_enq q e)) \<and> eq_size (snd (eq_enq q e)) = eq_size q"
proof -
  have sz: "0 < eq_size q" using assms by (simp add: eq_inv_def)
  have w: "(if eq_end q + 1 \<ge> eq_size q then 0 else eq_end q + 1) = (eq_start q + (eq_num_events q + 1)) mod eq_size q"
    using wrap_succ[of "eq_end q" "eq_size q"] assms pos_mod_sign[OF sz] pos_mod_bound[OF sz]
      mod_add_left_eq[of "eq_start q + eq_num_events q" "eq_size q" 1]
    by (simp add: eq_inv_def algebra_simps)
  show ?thesis using assms unfolding eq_enq_def Let_def w by (auto simp: eq_inv_def)
qed

lemma eq_enq_contents:
  assumes i: "eq_inv q" and r: "eq_num_events q < eq_size q"
  shows "fst (eq_enq q e) = 0 \<and> eq_contents (snd (eq_enq q e)) = eq_contents q @ [e]"
proof -
  define sz where "sz = eq_size q"
  define n where "n = nat (eq_num_events q)"
  have n: "int n = eq_num_events q" "n < nat sz" "0 < sz" using i r by (auto simp: eq_inv_def n_def sz_def)
  have e: "eq_end q = (eq_start q + int n) mod sz" using i n by (simp add: eq_inv_def sz_def)
  have pos: "nat ((eq_start q + int k) mod sz) \<noteq> nat ((eq_start q + int n) mod sz)" if "k < n" for k
  proof
    assume "nat ((eq_start q + int k) mod sz) = nat ((eq_start q + int n) mod sz)"
    then have "(eq_start q + int k) mod sz = (eq_start q + int n) mod sz"
      using n(3) by (metis pos_mod_sign nat_eq_iff2 int_nat_eq)
    then have "sz dvd (eq_start q + int n) - (eq_start q + int k)" by (metis mod_eq_dvd_iff)
    then have "sz \<le> int n - int k" using that by (auto dest!: zdvd_imp_le)
    then show False using n(2,3) by linarith
  qed
  have len: "nat ((eq_start q + int n) mod sz) < length (eq_events q)"
    using i n(3) pos_mod_bound[OF n(3), of "eq_start q + int n"] pos_mod_sign[OF n(3), of "eq_start q + int n"]
    by (simp add: eq_inv_def sz_def nat_less_iff)
  have s: "nat (eq_num_events q + 1) = Suc n" using n(1) by simp
  have keep: "map (\<lambda>k. (eq_events q)[nat ((eq_start q + int n) mod sz) := e] ! nat ((eq_start q + int k) mod sz)) [0..<n]
      = map (\<lambda>k. eq_events q ! nat ((eq_start q + int k) mod sz)) [0..<n]"
    by (rule map_nth_update_other) (auto simp: pos pos[symmetric])
  show ?thesis
    using r len keep unfolding eq_enq_def eq_contents_def Let_def e
    by (simp add: s n_def[symmetric] sz_def[symmetric] del: nat_add_distrib)
qed

lemma eq_deq_contents:
  assumes i: "eq_inv q" and c: "eq_contents q = x # xs"
  shows "fst (eq_deq q) = Some x \<and> eq_contents (snd (eq_deq q)) = xs \<and> eq_inv (snd (eq_deq q))"
proof -
  define sz where "sz = eq_size q"
  obtain n where n: "nat (eq_num_events q) = Suc n" using c by (cases "nat (eq_num_events q)") (auto simp: eq_contents_def)
  have n1: "eq_num_events q = int n + 1" using n by linarith
  have sz: "0 < sz" and st: "0 \<le> eq_start q" "eq_start q < sz" using i by (auto simp: eq_inv_def sz_def)
  define s1 where "s1 = (if eq_start q + 1 \<ge> sz then 0 else eq_start q + 1)"
  have s1: "s1 = (eq_start q + 1) mod sz" "0 \<le> s1" "s1 < sz"
    using wrap_succ[OF st] st sz by (simp_all add: s1_def)
  have sh: "(s1 + k) mod sz = (eq_start q + (1 + k)) mod sz" for k
    unfolding s1(1) mod_add_left_eq by (simp only: ac_simps)
  have up: "[0..<Suc n] = 0 # map Suc [0..<n]" by (simp add: map_Suc_upt upt_conv_Cons)
  have d: "snd (eq_deq q) = q\<lparr>eq_start := s1, eq_num_events := int n\<rparr>"
    "fst (eq_deq q) = Some (eq_events q ! nat (eq_start q))"
    by (simp_all add: eq_deq_def n1 Let_def s1_def sz_def)
  have x: "x = eq_events q ! nat (eq_start q)"
    "xs = map (\<lambda>k. eq_events q ! nat ((eq_start q + (1 + int k)) mod sz)) [0..<n]"
    using c st by (simp_all add: eq_contents_def n up sz_def[symmetric] comp_def del: upt_Suc)
  have "eq_contents (snd (eq_deq q)) = xs"
    unfolding d x(2) eq_contents_def by (simp add: sh sz_def[symmetric])
  moreover have "eq_inv (snd (eq_deq q))"
    using i s1(2,3) sh[of "int n"] n1 unfolding d(1) eq_inv_def by (simp add: sz_def[symmetric] algebra_simps)
  ultimately show ?thesis using d(2) x(1) by simp
qed

interpretation evq: bounded_fifo "\<lambda>q. nat (eq_size q)" eq_contents eq_inv eq_enq eq_deq
proof unfold_locales
  fix q :: event_queue and x xs
  show "eq_inv q \<Longrightarrow> length (eq_contents q) \<le> nat (eq_size q)"
    by (auto simp: eq_contents_def eq_inv_def)
  show "eq_inv q \<Longrightarrow> eq_inv (snd (eq_enq q x)) \<and> nat (eq_size (snd (eq_enq q x))) = nat (eq_size q)"
    using eq_enq_inv[of q x] by simp
  show "eq_inv q \<Longrightarrow> length (eq_contents q) < nat (eq_size q) \<Longrightarrow>
      fst (eq_enq q x) = 0 \<and> eq_contents (snd (eq_enq q x)) = eq_contents q @ [x]"
    by (rule eq_enq_contents) (auto simp: eq_contents_def eq_inv_def)
  show "eq_inv q \<Longrightarrow> length (eq_contents q) = nat (eq_size q) \<Longrightarrow> eq_enq q x = (-1, q)"
    by (auto simp: eq_contents_def eq_inv_def eq_enq_def)
  show "eq_inv q \<Longrightarrow> eq_inv (snd (eq_deq q)) \<and> nat (eq_size (snd (eq_deq q))) = nat (eq_size q)"
  proof
    assume i: "eq_inv q"
    show "eq_inv (snd (eq_deq q))"
      using i eq_deq_contents[OF i] by (cases "eq_contents q") (auto simp: eq_deq_def eq_contents_def eq_inv_def)
    show "nat (eq_size (snd (eq_deq q))) = nat (eq_size q)" by (simp add: eq_deq_def Let_def)
  qed
  show "eq_inv q \<Longrightarrow> eq_contents q = [] \<Longrightarrow> eq_deq q = (None, q)"
    by (auto simp: eq_contents_def eq_deq_def eq_inv_def)
  show "eq_inv q \<Longrightarrow> eq_contents q = x # xs \<Longrightarrow> fst (eq_deq q) = Some x \<and> eq_contents (snd (eq_deq q)) = xs"
    using eq_deq_contents by blast
qed

section \<open>Raising and fetching events\<close>

datatype event_queue_type = USR_EVENT_QUEUE | USR_SHADOW_EVENT_QUEUE | MOS_EVENT_QUEUE

fun ep_queue :: "event_queue_type \<Rightarrow> mtcp_epoll \<Rightarrow> event_queue" where
  "ep_queue USR_EVENT_QUEUE e = usr_queue e"
| "ep_queue USR_SHADOW_EVENT_QUEUE e = usr_shadow_queue e"
| "ep_queue MOS_EVENT_QUEUE e = mtcp_queue e"

fun set_ep_queue :: "event_queue_type \<Rightarrow> event_queue \<Rightarrow> mtcp_epoll \<Rightarrow> mtcp_epoll" where
  "set_ep_queue USR_EVENT_QUEUE q e = e\<lparr>usr_queue := q\<rparr>"
| "set_ep_queue USR_SHADOW_EVENT_QUEUE q e = e\<lparr>usr_shadow_queue := q\<rparr>"
| "set_ep_queue MOS_EVENT_QUEUE q e = e\<lparr>mtcp_queue := q\<rparr>"

definition mod_sock :: "ref \<Rightarrow> (socket_map \<Rightarrow> socket_map) \<Rightarrow> mtcp_manager \<Rightarrow> mtcp_manager" where
  "mod_sock k f m = m\<lparr>smap := (smap m)(k := f (smap m k))\<rparr>"

definition AddEpollEvent :: "event_queue_type \<Rightarrow> ref \<Rightarrow> u64 \<Rightarrow> mtcp_manager \<Rightarrow> int \<times> mtcp_manager" where
  "AddEpollEvent queue_type sk event m =
     (case ep m of
        None \<Rightarrow> (-1, m)
      | Some e0 \<Rightarrow>
         if event = 0 then (-1, m)
         else let e = e0\<lparr>stat_issued := stat_issued e0 + 1\<rparr>; m = m\<lparr>ep := Some e\<rparr> in
           if events (smap m sk) AND event \<noteq> 0 then (0, m)
           else (case eq_enq (ep_queue queue_type e)
                    \<lparr>ev_sockid = sk, ev_events = event, ev_data = ep_data (smap m sk)\<rparr> of
              (r, q) \<Rightarrow>
                if r < 0 then (-1, m)
                else (0, (mod_sock sk (\<lambda>s. s\<lparr>events := events s OR event\<rparr>) m)\<lparr>ep :=
                       Some ((set_ep_queue queue_type q e)\<lparr>stat_registered := stat_registered e + 1\<rparr>)\<rparr>)))"

text \<open>
  One of the two fetch loops of \<open>mtcp_epoll_wait\<close>: \<open>n\<close> entries are left to look at and
  \<open>room\<close> places are left in the caller's array.  An entry whose socket was closed, is not
  registered for it, or has its bit cleared is dropped.
\<close>

definition event_valid :: "socket_map \<Rightarrow> u64 \<Rightarrow> bool" where
  "event_valid s ev \<longleftrightarrow> socktype s \<noteq> MOS_SOCK_UNUSED \<and> epoll s AND ev \<noteq> 0 \<and> events s AND ev \<noteq> 0"

fun epoll_fetch :: "event_queue_type \<Rightarrow> nat \<Rightarrow> nat \<Rightarrow> mtcp_manager \<Rightarrow> epoll_event list \<times> mtcp_manager" where
  "epoll_fetch qt 0 room m = ([], m)"
| "epoll_fetch qt (Suc n) 0 m = ([], m)"
| "epoll_fetch qt (Suc n) (Suc room) m =
     (case ep m of
        None \<Rightarrow> ([], m)
      | Some e0 \<Rightarrow>
         (case eq_deq (ep_queue qt e0) of
            (None, q) \<Rightarrow> ([], m)
          | (Some x, q) \<Rightarrow>
              (let valid = event_valid (smap m (ev_sockid x)) (ev_events x);
                   e = set_ep_queue qt q e0;
                   e = (if valid then e\<lparr>stat_handled := stat_handled e + 1\<rparr>
                        else e\<lparr>stat_invalidated := stat_invalidated e + 1\<rparr>);
                   m = (mod_sock (ev_sockid x) (\<lambda>s. s\<lparr>events := events s AND NOT (ev_events x)\<rparr>) m)\<lparr>ep := Some e\<rparr>
               in if valid
                  then (case epoll_fetch qt n room m of (xs, m) \<Rightarrow> (x # xs, m))
                  else epoll_fetch qt n (Suc room) m)))"

definition epoll_wait_fetch :: "nat \<Rightarrow> mtcp_manager \<Rightarrow> epoll_event list \<times> mtcp_manager" where
  "epoll_wait_fetch maxevents m =
     (case ep m of None \<Rightarrow> ([], m) | Some e \<Rightarrow>
       (case epoll_fetch USR_EVENT_QUEUE (nat (eq_num_events (usr_queue e))) maxevents m of
          (xs, m) \<Rightarrow>
            (case epoll_fetch USR_SHADOW_EVENT_QUEUE
                    (case ep m of None \<Rightarrow> 0 | Some e \<Rightarrow> nat (eq_num_events (usr_shadow_queue e)))
                    (maxevents - length xs) m of
               (ys, m) \<Rightarrow> (xs @ ys, m))))"

text \<open>
  \<open>FlushEpollEvents\<close> moves entries from the mTCP thread's queue to the user's, as many as
  fit; waking the waiting thread has no effect on the queues.
\<close>

fun flush_queue :: "nat \<Rightarrow> event_queue \<Rightarrow> event_queue \<Rightarrow> event_queue \<times> event_queue" where
  "flush_queue 0 mtcpq usrq = (mtcpq, usrq)"
| "flush_queue (Suc n) mtcpq usrq =
     (if eq_num_events mtcpq > 0 \<and> eq_num_events usrq < eq_size usrq then
        (case eq_deq mtcpq of
           (Some x, mtcpq') \<Rightarrow> flush_queue n mtcpq' (snd (eq_enq usrq x))
         | (None, mtcpq') \<Rightarrow> (mtcpq', usrq))
      else (mtcpq, usrq))"

definition FlushEpollEvents :: "mtcp_manager \<Rightarrow> mtcp_manager" where
  "FlushEpollEvents m =
     (case ep m of None \<Rightarrow> m
      | Some e \<Rightarrow> (case flush_queue (nat (eq_num_events (mtcp_queue e))) (mtcp_queue e) (usr_queue e) of
          (mq, uq) \<Rightarrow> m\<lparr>ep := Some (e\<lparr>mtcp_queue := mq, usr_queue := uq\<rparr>)\<rparr>))"

section \<open>Registration\<close>

definition RaisePendingStreamEvents :: "ref \<Rightarrow> mtcp_manager \<Rightarrow> int \<times> mtcp_manager" where
  "RaisePendingStreamEvents sk m =
     (case sk_stream (smap m sk) of
        None \<Rightarrow> (-1, m)
      | Some s \<Rightarrow>
         let t = strm m s in
         if state t < TCP_ST_ESTABLISHED then (-1, m)
         else let m1 =
             (if epoll (smap m sk) AND MOS_EPOLLIN \<noteq> 0 then
                (if (case rcvbuf (rcvvar t) of None \<Rightarrow> False | Some rb \<Rightarrow> tcprb_cflen rb > 0)
                 then snd (AddEpollEvent USR_SHADOW_EVENT_QUEUE sk MOS_EPOLLIN m)
                 else if state t = TCP_ST_CLOSE_WAIT
                 then snd (AddEpollEvent USR_SHADOW_EVENT_QUEUE sk MOS_EPOLLIN m)
                 else m)
              else m);
             m2 =
             (if epoll (smap m1 sk) AND MOS_EPOLLOUT \<noteq> 0 then
                (if (case sndbuf (sndvar t) of None \<Rightarrow> True | Some sb \<Rightarrow> sb_len sb < snd_wnd (sndvar t)) then
                   (if events (smap m1 sk) AND MOS_EPOLLOUT = 0
                    then snd (AddEpollEvent USR_SHADOW_EVENT_QUEUE sk MOS_EPOLLOUT m1) else m1)
                 else m1)
              else m1)
           in (0, m2))"

datatype epoll_op = MOS_EPOLL_CTL_ADD | MOS_EPOLL_CTL_MOD | MOS_EPOLL_CTL_DEL

text \<open>
  What a failed call leaves in \<open>errno\<close>.  \<open>NO_ERRNO\<close> stands for a return of \<open>-1\<close> that leaves it
  alone.  \<open>WAITS\<close> is no error code: the call is waiting on a condition variable, with the
  state as it is, and evaluates the loop it is in again when it is signalled.
\<close>

datatype errno = EPERM | ENOENT | EBADF | EAGAIN | ENOMEM | EACCES | EFAULT | EEXIST | EINVAL | ENFILE | EPIPE
  | ENOSYS | ENODATA | ENOTSOCK | ENOPROTOOPT | ESOCKTNOSUPPORT | EAFNOSUPPORT | ECONNRESET | EISCONN | ENOTCONN
  | ETIMEDOUT | EALREADY | EINPROGRESS | NO_ERRNO | WAITS

text \<open>
  \<open>event\<close> is the registered mask and data, \<open>None\<close> for a null pointer.  \<open>pipe_pending\<close> is
  \<open>RaisePendingPipeEvents\<close> of \<open>pipe.c\<close>.
\<close>

definition register :: "(ref \<Rightarrow> mtcp_manager \<Rightarrow> mtcp_manager) \<Rightarrow> ref \<Rightarrow> u64 \<times> u64 \<Rightarrow> mtcp_manager \<Rightarrow> mtcp_manager" where
  "register pipe_pending sk ev m =
     (let m = mod_sock sk (\<lambda>s. s\<lparr>ep_data := snd ev, epoll := fst ev OR (MOS_EPOLLERR OR MOS_EPOLLHUP)\<rparr>) m in
      if socktype (smap m sk) = MOS_SOCK_STREAM then snd (RaisePendingStreamEvents sk m)
      else if socktype (smap m sk) = MOS_SOCK_PIPE then pipe_pending sk m
      else m)"

definition mtcp_epoll_ctl ::
  "mos_config \<Rightarrow> (ref \<Rightarrow> mtcp_manager \<Rightarrow> mtcp_manager) \<Rightarrow> int \<Rightarrow> epoll_op \<Rightarrow> int \<Rightarrow> (u64 \<times> u64) option
     \<Rightarrow> mtcp_manager \<Rightarrow> (errno + unit) \<times> mtcp_manager" where
  "mtcp_epoll_ctl cfg pipe_pending epid op sockid event m =
     (if epid < 0 \<or> epid \<ge> max_concurrency cfg then (Inl EBADF, m)
      else if sockid < 0 \<or> sockid \<ge> max_concurrency cfg then (Inl EBADF, m)
      else if socktype (smap m (nat epid)) = MOS_SOCK_UNUSED then (Inl EBADF, m)
      else if socktype (smap m (nat epid)) \<noteq> MOS_SOCK_EPOLL then (Inl EINVAL, m)
      else if ep m = None \<or> event = None \<and> op \<noteq> MOS_EPOLL_CTL_DEL then (Inl EINVAL, m)
      else let sk = nat sockid in
        case op of
          MOS_EPOLL_CTL_ADD \<Rightarrow>
            if epoll (smap m sk) \<noteq> 0 then (Inl EEXIST, m)
            else (Inr (), register pipe_pending sk (the event) m)
        | MOS_EPOLL_CTL_MOD \<Rightarrow>
            if epoll (smap m sk) = 0 then (Inl ENOENT, m)
            else (Inr (), register pipe_pending sk (the event) m)
        | MOS_EPOLL_CTL_DEL \<Rightarrow>
            if epoll (smap m sk) = 0 then (Inl ENOENT, m)
            else (Inr (), mod_sock sk (\<lambda>s. s\<lparr>epoll := MOS_EPOLLNONE\<rparr>) m))"

section \<open>Raising events of a stream\<close>

text \<open>
  The loop over the monitor sockets.  The stream's \<open>MOS_ACT_READ_DATA\<close> flag, set in the
  first round, makes the second round return.
\<close>

fun raise_read_monitors :: "ref \<Rightarrow> ref list \<Rightarrow> mtcp_manager \<Rightarrow> mtcp_manager" where
  "raise_read_monitors s [] m = m"
| "raise_read_monitors s (walk # ws) m =
     (let l = ms_listener (sk_mon (msmap m walk)); q = ml_eq (mlisteners m l) in
      if actions (strm m s) AND MOS_ACT_READ_DATA \<noteq> 0 then m
      else if eq_num_events q \<ge> eq_size q then m
      else let q' = snd (eq_enq q \<lparr>ev_sockid = ev_sockid (eq_events q ! nat (eq_end q)),
                                     ev_events = MOS_EPOLLIN, ev_data = of_nat s\<rparr>);
               m = m\<lparr>mlisteners := (mlisteners m)(l := (mlisteners m l)\<lparr>ml_eq := q'\<rparr>)\<rparr>
           in raise_read_monitors s ws (mod_strm s (act MOS_ACT_READ_DATA) m))"

definition RaiseReadEvent :: "ref \<Rightarrow> mtcp_manager \<Rightarrow> mtcp_manager" where
  "RaiseReadEvent s m =
     (let t = strm m s in
      if HAS_STREAM_TYPE t MOS_SOCK_STREAM then
        (case socket t of
           Some sk \<Rightarrow> if epoll (smap m sk) AND MOS_EPOLLIN \<noteq> 0
                      then snd (AddEpollEvent MOS_EVENT_QUEUE sk MOS_EPOLLIN m) else m
         | None \<Rightarrow> m)
      else if (case rcvbuf (rcvvar t) of None \<Rightarrow> False | Some rb \<Rightarrow> tcprb_cflen rb > 0)
      then raise_read_monitors s (map fst (msocks t)) m
      else m)"

definition RaiseWriteEvent :: "ref \<Rightarrow> mtcp_manager \<Rightarrow> mtcp_manager" where
  "RaiseWriteEvent s m =
     (case socket (strm m s) of
        Some sk \<Rightarrow> if epoll (smap m sk) AND MOS_EPOLLOUT \<noteq> 0
                   then snd (AddEpollEvent MOS_EVENT_QUEUE sk MOS_EPOLLOUT m) else m
      | None \<Rightarrow> m)"

definition RaiseCloseEvent :: "ref \<Rightarrow> mtcp_manager \<Rightarrow> mtcp_manager" where
  "RaiseCloseEvent s m =
     (case socket (strm m s) of
        Some sk \<Rightarrow> if epoll (smap m sk) AND MOS_EPOLLRDHUP \<noteq> 0
                   then snd (AddEpollEvent MOS_EVENT_QUEUE sk MOS_EPOLLRDHUP m)
                   else if epoll (smap m sk) AND MOS_EPOLLIN \<noteq> 0
                   then snd (AddEpollEvent MOS_EVENT_QUEUE sk MOS_EPOLLIN m) else m
      | None \<Rightarrow> m)"

definition RaiseErrorEvent :: "ref \<Rightarrow> mtcp_manager \<Rightarrow> int \<times> mtcp_manager" where
  "RaiseErrorEvent s m =
     (case socket (strm m s) of
        Some sk \<Rightarrow> if epoll (smap m sk) AND MOS_EPOLLERR \<noteq> 0
                   then AddEpollEvent MOS_EVENT_QUEUE sk MOS_EPOLLERR m else (-1, m)
      | None \<Rightarrow> (-1, m))"

section \<open>An event bit is set exactly while its entry is queued\<close>

definition single :: "u64 \<Rightarrow> bool" where
  "single v \<longleftrightarrow> (\<exists>b < 64. v = 2 ^ b)"

definition ev_key :: "epoll_event \<Rightarrow> ref \<times> u64" where
  "ev_key x = (ev_sockid x, ev_events x)"

definition pend :: "mtcp_epoll \<Rightarrow> (ref \<times> u64) multiset" where
  "pend e = image_mset ev_key (mset (eq_contents (usr_queue e)) + mset (eq_contents (usr_shadow_queue e))
     + mset (eq_contents (mtcp_queue e)))"

definition queues_inv :: "mtcp_epoll \<Rightarrow> bool" where
  "queues_inv e \<longleftrightarrow> eq_inv (usr_queue e) \<and> eq_inv (usr_shadow_queue e) \<and> eq_inv (mtcp_queue e)"

definition ep_exact :: "mtcp_manager \<Rightarrow> bool" where
  "ep_exact m \<longleftrightarrow> (case ep m of None \<Rightarrow> False | Some e \<Rightarrow> queues_inv e \<and>
     (\<forall>k v. count (pend e) (k, v) = (if single v \<and> events (smap m k) AND v \<noteq> 0 then 1 else 0)))"

lemma single_bit: "b < 64 \<Longrightarrow> bit (2 ^ b :: u64) n \<longleftrightarrow> n = b"
  by (auto simp: bit_exp_iff)

lemma single_disjoint: "single v \<Longrightarrow> single w \<Longrightarrow> v \<noteq> w \<Longrightarrow> v AND w = 0"
  unfolding single_def by (auto intro!: bit_word_eqI simp: bit_and_iff single_bit)

lemma single_ne0: "single v \<Longrightarrow> v \<noteq> 0"
proof
  assume s: "single v" "v = 0"
  then obtain b where "b < 64" "2 ^ b = (0 :: u64)" by (auto simp: single_def)
  then show False using single_bit[of b b] by simp
qed

lemma or_single: "single v \<Longrightarrow> single w \<Longrightarrow> (x OR w) AND v = 0 \<longleftrightarrow> v \<noteq> w \<and> x AND v = 0"
  using single_disjoint[of w v] single_ne0[of v]
  by (auto simp: and.commute[of _ v] bit.conj_disj_distrib or_eq_0_iff)

lemma clear_single: "single v \<Longrightarrow> single w \<Longrightarrow> (x AND NOT w) AND v = 0 \<longleftrightarrow> v = w \<or> x AND v = 0"
proof (cases "v = w")
  case False
  assume s: "single v" "single w"
  have "NOT w AND v = v"
    using s False unfolding single_def by (auto intro!: bit_word_eqI simp: bit_and_iff bit_not_iff single_bit)
  then show ?thesis using False by (simp add: and.assoc)
qed (simp add: and.assoc)

lemma ep_queue_set [simp]: "ep_queue qt (set_ep_queue qt q e) = q"
  by (cases qt) simp_all

lemma ep_queue_stat [simp]:
  "ep_queue qt (e\<lparr>stat_issued := i\<rparr>) = ep_queue qt e" "ep_queue qt (e\<lparr>stat_registered := i\<rparr>) = ep_queue qt e"
  "ep_queue qt (e\<lparr>stat_handled := i\<rparr>) = ep_queue qt e" "ep_queue qt (e\<lparr>stat_invalidated := i\<rparr>) = ep_queue qt e"
  by (cases qt; simp)+

lemma queues_inv_queue: "queues_inv e \<Longrightarrow> eq_inv (ep_queue qt e)"
  by (cases qt) (simp_all add: queues_inv_def)

lemma queues_inv_set: "queues_inv e \<Longrightarrow> eq_inv q \<Longrightarrow> queues_inv (set_ep_queue qt q e)"
  by (cases qt) (simp_all add: queues_inv_def)

lemma pend_set:
  "pend (set_ep_queue qt q e) + image_mset ev_key (mset (eq_contents (ep_queue qt e)))
     = pend e + image_mset ev_key (mset (eq_contents q))"
  by (cases qt) (simp_all add: pend_def)

lemma pend_stat [simp]:
  "pend (e\<lparr>stat_issued := i\<rparr>) = pend e" "pend (e\<lparr>stat_registered := i\<rparr>) = pend e"
  "pend (e\<lparr>stat_handled := i\<rparr>) = pend e" "pend (e\<lparr>stat_invalidated := i\<rparr>) = pend e"
  "queues_inv (e\<lparr>stat_issued := i\<rparr>) = queues_inv e" "queues_inv (e\<lparr>stat_registered := i\<rparr>) = queues_inv e"
  "queues_inv (e\<lparr>stat_handled := i\<rparr>) = queues_inv e" "queues_inv (e\<lparr>stat_invalidated := i\<rparr>) = queues_inv e"
  by (simp_all add: pend_def queues_inv_def)

lemma pend_push:
  assumes "queues_inv e" "eq_enq (ep_queue qt e) x = (r, q)" "\<not> r < 0"
  shows "queues_inv (set_ep_queue qt q e) \<and> pend (set_ep_queue qt q e) = add_mset (ev_key x) (pend e)"
proof -
  have i: "eq_inv (ep_queue qt e)" by (rule queues_inv_queue[OF assms(1)])
  have n: "eq_num_events (ep_queue qt e) < eq_size (ep_queue qt e)"
    using assms(2,3) by (auto simp: eq_enq_def split: if_splits)
  have c: "eq_contents q = eq_contents (ep_queue qt e) @ [x]" "eq_inv q"
    using eq_enq_contents[OF i n, of x] eq_enq_inv[OF i, of x] assms(2) by auto
  show ?thesis using pend_set[of qt q e] queues_inv_set[OF assms(1) c(2), of qt] c(1) by simp
qed

lemma pend_pop:
  assumes "queues_inv e" "eq_deq (ep_queue qt e) = (Some x, q)"
  shows "queues_inv (set_ep_queue qt q e) \<and> pend e = add_mset (ev_key x) (pend (set_ep_queue qt q e))"
proof -
  have i: "eq_inv (ep_queue qt e)" by (rule queues_inv_queue[OF assms(1)])
  obtain y ys where y: "eq_contents (ep_queue qt e) = y # ys"
    using assms(2) i by (cases "eq_contents (ep_queue qt e)") (auto simp: eq_contents_def eq_deq_def split: if_splits)
  have c: "x = y" "eq_contents q = ys" "eq_inv q" using eq_deq_contents[OF i y] assms(2) by auto
  show ?thesis using pend_set[of qt q e] queues_inv_set[OF assms(1) c(3), of qt] c(1,2) y by simp
qed

lemma smap_mod_sock: "smap (mod_sock k f m) k' = (if k' = k then f (smap m k) else smap m k')"
  by (simp add: mod_sock_def)

lemma ep_mod_sock [simp]: "ep (mod_sock k f m) = ep m"
  by (simp add: mod_sock_def)

lemma ep_exact_AddEpollEvent:
  assumes "ep_exact m" "single v"
  shows "ep_exact (snd (AddEpollEvent qt sk v m))"
proof -
  obtain e0 where e0: "ep m = Some e0" "queues_inv e0"
    and c: "\<And>k v. count (pend e0) (k, v) = (if single v \<and> events (smap m k) AND v \<noteq> 0 then 1 else 0)"
    using assms(1) by (auto simp: ep_exact_def split: option.splits)
  define e where "e = e0\<lparr>stat_issued := stat_issued e0 + 1\<rparr>"
  have e: "queues_inv e" "pend e = pend e0" using e0(2) by (simp_all add: e_def)
  obtain r q where rq: "eq_enq (ep_queue qt e) \<lparr>ev_sockid = sk, ev_events = v, ev_data = ep_data (smap m sk)\<rparr> = (r, q)"
    by (rule prod.exhaust)
  show ?thesis
  proof (cases "events (smap m sk) AND v \<noteq> 0 \<or> r < 0")
    case True
    then have "snd (AddEpollEvent qt sk v m) = m\<lparr>ep := Some e\<rparr>"
      using e0(1) single_ne0[OF assms(2)] rq by (auto simp: AddEpollEvent_def Let_def e_def[symmetric])
    then show ?thesis using e c by (simp add: ep_exact_def)
  next
    case False
    define e' where "e' = (set_ep_queue qt q e)\<lparr>stat_registered := stat_registered e + 1\<rparr>"
    have p: "queues_inv e'" "pend e' = add_mset (sk, v) (pend e0)"
      using pend_push[OF e(1) rq] False e(2) by (simp_all add: e'_def ev_key_def)
    have m': "snd (AddEpollEvent qt sk v m)
        = (mod_sock sk (\<lambda>s. s\<lparr>events := events s OR v\<rparr>) (m\<lparr>ep := Some e\<rparr>))\<lparr>ep := Some e'\<rparr>"
      using e0(1) single_ne0[OF assms(2)] rq False by (simp add: AddEpollEvent_def Let_def e_def[symmetric] e'_def)
    show ?thesis unfolding m' ep_exact_def
      using p(1) c False or_single[OF _ assms(2)] assms(2)
      by (auto simp: p(2) smap_mod_sock)
  qed
qed

definition fetch_exact :: "mtcp_manager \<Rightarrow> epoll_event list \<times> mtcp_manager \<Rightarrow> bool" where
  "fetch_exact m r \<longleftrightarrow> (\<exists>e e'. ep m = Some e \<and> ep (snd r) = Some e' \<and>
     pend e' + image_mset ev_key (mset (fst r)) \<subseteq># pend e \<and>
     (\<forall>x \<in> set (fst r). epoll (smap m (ev_sockid x)) AND ev_events x \<noteq> 0
        \<and> socktype (smap m (ev_sockid x)) \<noteq> MOS_SOCK_UNUSED) \<and>
     (\<forall>k. epoll (smap (snd r) k) = epoll (smap m k) \<and> socktype (smap (snd r) k) = socktype (smap m k)))"

lemma fetch_step:
  assumes x: "ep_exact m" and e0: "ep m = Some e0" and d: "eq_deq (ep_queue qt e0) = (Some x, q)"
    and e: "pend e = pend (set_ep_queue qt q e0)" "queues_inv e"
  shows "ep_exact ((mod_sock (ev_sockid x) (\<lambda>s. s\<lparr>events := events s AND NOT (ev_events x)\<rparr>) m)\<lparr>ep := Some e\<rparr>)
    \<and> pend e0 = add_mset (ev_key x) (pend e)"
proof -
  have c: "\<And>k v. count (pend e0) (k, v) = (if single v \<and> events (smap m k) AND v \<noteq> 0 then 1 else 0)"
    and i: "queues_inv e0" using x e0 by (auto simp: ep_exact_def)
  have p: "pend e0 = add_mset (ev_key x) (pend e)" using pend_pop[OF i d] e(1) by simp
  have s: "single (ev_events x)"
    using c[of "ev_sockid x" "ev_events x"] p by (auto simp: ev_key_def split: if_splits)
  have n: "count (pend e) (k, v) = (if single v \<and> (k, v) \<noteq> ev_key x \<and> events (smap m k) AND v \<noteq> 0 then 1 else 0)" for k v
    using c[of k v] p by (auto split: if_splits)
  show ?thesis unfolding ep_exact_def using e(2) p n clear_single[OF _ s]
    by (auto simp: smap_mod_sock ev_key_def)
qed

lemma subset_add_mset: "A \<subseteq># B \<Longrightarrow> A \<subseteq># add_mset x B"
  by (metis add_mset_add_single mset_subset_eq_add_left subset_mset.order_trans)

lemma epoll_fetch_exact:
  assumes "ep_exact m"
  shows "ep_exact (snd (epoll_fetch qt n room m)) \<and> fetch_exact m (epoll_fetch qt n room m)"
  using assms
proof (induction qt n room m rule: epoll_fetch.induct)
  case (3 qt n room m)
  obtain e0 where e0: "ep m = Some e0" "queues_inv e0"
    using "3.prems" by (auto simp: ep_exact_def split: option.splits)
  obtain d q where dq: "eq_deq (ep_queue qt e0) = (d, q)" by (rule prod.exhaust)
  show ?case
  proof (cases d)
    case None
    then show ?thesis using e0 dq "3.prems" by (simp add: fetch_exact_def)
  next
    case (Some x)
    define valid where "valid = event_valid (smap m (ev_sockid x)) (ev_events x)"
    define e where "e = (if valid then (set_ep_queue qt q e0)\<lparr>stat_handled := stat_handled (set_ep_queue qt q e0) + 1\<rparr>
        else (set_ep_queue qt q e0)\<lparr>stat_invalidated := stat_invalidated (set_ep_queue qt q e0) + 1\<rparr>)"
    define m1 where "m1 = (mod_sock (ev_sockid x) (\<lambda>s. s\<lparr>events := events s AND NOT (ev_events x)\<rparr>) m)\<lparr>ep := Some e\<rparr>"
    have pe: "pend e = pend (set_ep_queue qt q e0)" "queues_inv e"
      using pend_pop[OF e0(2) dq[unfolded Some]] by (simp_all add: e_def)
    have m1: "ep_exact m1" "pend e0 = add_mset (ev_key x) (pend e)" "ep m1 = Some e"
      using fetch_step[OF "3.prems" e0(1) dq[unfolded Some] pe] by (simp_all add: m1_def)
    have keep: "epoll (smap m1 k) = epoll (smap m k)" "socktype (smap m1 k) = socktype (smap m k)" for k
      by (simp_all add: m1_def smap_mod_sock)
    show ?thesis
    proof (cases valid)
      case True
      have ih: "ep_exact (snd (epoll_fetch qt n room m1)) \<and> fetch_exact m1 (epoll_fetch qt n room m1)"
        using "3.IH"(1)[OF e0(1) dq[symmetric] Some valid_def refl e_def m1_def True m1(1)] by simp
      have r: "epoll_fetch qt (Suc n) (Suc room) m = (x # fst (epoll_fetch qt n room m1), snd (epoll_fetch qt n room m1))"
        using e0(1) dq Some True
        by (simp add: Let_def valid_def[symmetric] e_def m1_def split_beta)
      show ?thesis using ih m1(2,3) True e0(1) unfolding r fetch_exact_def
        by (auto simp: keep valid_def event_valid_def)
    next
      case False
      have ih: "ep_exact (snd (epoll_fetch qt n (Suc room) m1)) \<and> fetch_exact m1 (epoll_fetch qt n (Suc room) m1)"
        using "3.IH"(2)[OF e0(1) dq[symmetric] Some valid_def refl e_def m1_def False m1(1)] by simp
      have r: "epoll_fetch qt (Suc n) (Suc room) m = epoll_fetch qt n (Suc room) m1"
        using e0(1) dq Some False by (simp add: Let_def valid_def[symmetric] e_def m1_def)
      show ?thesis using ih m1(2,3) e0(1) unfolding r fetch_exact_def
        by (auto simp: keep intro: subset_add_mset)
    qed
  qed
qed (auto simp: fetch_exact_def ep_exact_def split: option.splits)

lemma fetch_exact_trans:
  assumes "fetch_exact m (xs, m1)" "fetch_exact m1 (ys, m2)"
  shows "fetch_exact m (xs @ ys, m2)"
proof -
  obtain e e1 e2 where e: "ep m = Some e" "ep m1 = Some e1" "ep m2 = Some e2"
    and p: "pend e1 + image_mset ev_key (mset xs) \<subseteq># pend e" "pend e2 + image_mset ev_key (mset ys) \<subseteq># pend e1"
    using assms by (auto simp: fetch_exact_def)
  have "pend e2 + image_mset ev_key (mset ys) + image_mset ev_key (mset xs) \<subseteq># pend e"
    using p by (meson mset_subset_eq_mono_add subset_mset.order_refl subset_mset.order_trans)
  then have "pend e2 + image_mset ev_key (mset (xs @ ys)) \<subseteq># pend e" by (simp add: ac_simps)
  then show ?thesis using assms e unfolding fetch_exact_def by auto
qed

lemma epoll_wait_fetch_exact:
  assumes "ep_exact m"
  shows "ep_exact (snd (epoll_wait_fetch k m)) \<and> fetch_exact m (epoll_wait_fetch k m)"
proof -
  obtain e where e: "ep m = Some e" using assms by (auto simp: ep_exact_def split: option.splits)
  obtain xs m1 where f1: "epoll_fetch USR_EVENT_QUEUE (nat (eq_num_events (usr_queue e))) k m = (xs, m1)"
    by (rule prod.exhaust)
  define n2 where "n2 = (case ep m1 of None \<Rightarrow> 0 | Some e \<Rightarrow> nat (eq_num_events (usr_shadow_queue e)))"
  obtain ys m2 where f2: "epoll_fetch USR_SHADOW_EVENT_QUEUE n2 (k - length xs) m1 = (ys, m2)"
    by (rule prod.exhaust)
  have r: "epoll_wait_fetch k m = (xs @ ys, m2)"
    using e f1 f2 by (simp add: epoll_wait_fetch_def n2_def)
  have 1: "ep_exact m1" "fetch_exact m (xs, m1)" using epoll_fetch_exact[OF assms] f1 by (metis snd_conv)+
  have 2: "ep_exact m2" "fetch_exact m1 (ys, m2)" using epoll_fetch_exact[OF 1(1)] f2 by (metis snd_conv)+
  show ?thesis unfolding r using 1 2 fetch_exact_trans by simp
qed

lemma flush_queue_pend:
  assumes "eq_inv mq" "eq_inv uq" "flush_queue n mq uq = (mq', uq')"
  shows "eq_inv mq' \<and> eq_inv uq' \<and> mset (eq_contents mq') + mset (eq_contents uq') = mset (eq_contents mq) + mset (eq_contents uq)"
  using assms
proof (induction n mq uq rule: flush_queue.induct)
  case (2 n mq uq)
  show ?case
  proof (cases "eq_num_events mq > 0 \<and> eq_num_events uq < eq_size uq")
    case True
    obtain x xs where x: "eq_contents mq = x # xs"
      using True by (cases "eq_contents mq") (auto simp: eq_contents_def)
    obtain mq1 where d: "eq_deq mq = (Some x, mq1)" "eq_contents mq1 = xs" "eq_inv mq1"
      using eq_deq_contents[OF "2.prems"(1) x] by (metis prod.collapse)
    have u: "eq_contents (snd (eq_enq uq x)) = eq_contents uq @ [x]" "eq_inv (snd (eq_enq uq x))"
      using eq_enq_contents[OF "2.prems"(2), of x] eq_enq_inv[OF "2.prems"(2), of x] True by auto
    have f: "flush_queue n mq1 (snd (eq_enq uq x)) = (mq', uq')" using "2.prems"(3) True d(1) by simp
    show ?thesis using "2.IH"[OF True d(1)[symmetric] refl d(3) u(2) f] x d(2) u(1) by simp
  qed (use "2.prems" in auto)
qed auto

lemma ep_exact_Flush:
  assumes "ep_exact m"
  shows "ep_exact (FlushEpollEvents m)"
proof -
  obtain e where e: "ep m = Some e" "queues_inv e" using assms by (auto simp: ep_exact_def split: option.splits)
  obtain mq uq where f: "flush_queue (nat (eq_num_events (mtcp_queue e))) (mtcp_queue e) (usr_queue e) = (mq, uq)"
    by (rule prod.exhaust)
  have p: "eq_inv mq \<and> eq_inv uq \<and> mset (eq_contents mq) + mset (eq_contents uq)
      = mset (eq_contents (mtcp_queue e)) + mset (eq_contents (usr_queue e))"
    by (rule flush_queue_pend[OF _ _ f]) (use e(2) in \<open>auto simp: queues_inv_def\<close>)
  have "pend (e\<lparr>mtcp_queue := mq, usr_queue := uq\<rparr>) = pend e"
    using arg_cong[OF conjunct2[OF conjunct2[OF p]], of "image_mset ev_key"] by (simp add: pend_def ac_simps)
  then show ?thesis using assms e p f by (simp add: ep_exact_def FlushEpollEvents_def queues_inv_def)
qed

datatype ep_call = Raise event_queue_type ref nat | Fetch nat | Flush

fun run_ep :: "ep_call list \<Rightarrow> mtcp_manager \<Rightarrow> mtcp_manager" where
  "run_ep [] m = m"
| "run_ep (Raise qt k b # cs) m = run_ep cs (snd (AddEpollEvent qt k (2 ^ b) m))"
| "run_ep (Fetch n # cs) m = run_ep cs (snd (epoll_wait_fetch n m))"
| "run_ep (Flush # cs) m = run_ep cs (FlushEpollEvents m)"

fun call_ok :: "ep_call \<Rightarrow> bool" where
  "call_ok (Raise qt k b) = (b < 64)"
| "call_ok _ = True"

lemma single_pow: "b < 64 \<Longrightarrow> single (2 ^ b)"
  by (auto simp: single_def)

lemma run_ep_exact: "ep_exact m \<Longrightarrow> list_all call_ok cs \<Longrightarrow> ep_exact (run_ep cs m)"
  by (induction cs m rule: run_ep.induct)
    (auto simp: ep_exact_AddEpollEvent single_pow epoll_wait_fetch_exact ep_exact_Flush)


definition ep_demo :: "mtcp_manager \<Rightarrow> mtcp_manager" where
  "ep_demo m = m\<lparr>ep := Some \<lparr>usr_queue = the (CreateEventQueue True True 2),
      usr_shadow_queue = the (CreateEventQueue True True 2), mtcp_queue = the (CreateEventQueue True True 2),
      stat_issued = 0, stat_registered = 0, stat_invalidated = 0, stat_handled = 0\<rparr>,
      smap := (\<lambda>k. (smap m k)\<lparr>events := 0, epoll := MOS_EPOLLIN, socktype := MOS_SOCK_STREAM\<rparr>)\<rparr>"

lemma ep_demo_exact: "ep_exact (ep_demo m)"
  by (simp add: ep_exact_def ep_demo_def queues_inv_def eq_inv_def CreateEventQueue_def pend_def eq_contents_def)


section \<open>A deleted registration cannot be added again\<close>

text \<open>
  \<open>EPOLL_CTL_DEL\<close> does not restore the unregistered state: it stores
  \<open>MOS_EPOLLNONE\<close>, which is the bit \<open>0x1\<close>, where \<open>EPOLL_CTL_ADD\<close> and the other
  operations test for zero.  After a successful deletion, on every manager and for every
  socket other than the epoll socket itself, adding the socket again fails with
  \<open>EEXIST\<close> and leaves the state as it is, and deleting it again succeeds.
\<close>

theorem epoll_del_then_add:
  assumes "mtcp_epoll_ctl cfg pp epid MOS_EPOLL_CTL_DEL sockid ev m = (Inr (), m')"
  shows "mtcp_epoll_ctl cfg pp epid MOS_EPOLL_CTL_ADD sockid (Some e) m' = (Inl EEXIST, m') \<and>
    mtcp_epoll_ctl cfg pp epid MOS_EPOLL_CTL_DEL sockid None m' = (Inr (), m')"
proof -
  have m': "m' = mod_sock (nat sockid) (\<lambda>s. s\<lparr>epoll := MOS_EPOLLNONE\<rparr>) m"
    and ok: "0 \<le> epid" "epid < max_concurrency cfg" "0 \<le> sockid" "sockid < max_concurrency cfg"
      "socktype (smap m (nat epid)) = MOS_SOCK_EPOLL" "ep m \<noteq> None"
    using assms by (auto simp: mtcp_epoll_ctl_def Let_def split: if_splits)
  have t: "socktype (smap m' k) = socktype (smap m k)" "ep m' = ep m" for k
    by (simp_all add: m' smap_mod_sock)
  have n: "epoll (smap m' (nat sockid)) = MOS_EPOLLNONE" "MOS_EPOLLNONE \<noteq> 0"
    by (simp_all add: m' smap_mod_sock MOS_EPOLLNONE_def)
  have i: "mod_sock (nat sockid) (\<lambda>s. s\<lparr>epoll := MOS_EPOLLNONE\<rparr>) m' = m'"
    by (simp add: m' mod_sock_def)
  show ?thesis using ok n i by (auto simp: mtcp_epoll_ctl_def Let_def t)
qed

definition epoll_cfg :: mos_config where
  "epoll_cfg = \<lparr>be_resilient = False, tcp_timeout = 0, tcp_tw_interval = 0, wmem_size = 8192, rmem_size = 8192,
     netdev_ips = [], route_table = [], max_concurrency = 16, chunk_bytes = (\<lambda>_. []), tx_ok = (\<lambda>_. True),
     malloc_ok = (\<lambda>_. True), raw_filter = (\<lambda>_ _. False), syn_filter = (\<lambda>_ _. True),
     orphan_filter = (\<lambda>_ _. True)\<rparr>"

definition epoll_ctl_demo :: mtcp_manager where
  "epoll_ctl_demo = mod_sock 1 (\<lambda>s. s\<lparr>socktype := MOS_SOCK_EPOLL\<rparr>) (ep_demo zero_mtcp)"

theorem epoll_del_then_add_witness:
  "\<exists>m'. mtcp_epoll_ctl epoll_cfg (\<lambda>_ m. m) 1 MOS_EPOLL_CTL_ADD 3 (Some (MOS_EPOLLIN, 0)) m' = (Inl EEXIST, m')
     \<and> smap m' 3 = (smap epoll_ctl_demo 3)\<lparr>epoll := MOS_EPOLLNONE\<rparr>"
proof -
  have "mtcp_epoll_ctl epoll_cfg (\<lambda>_ m. m) 1 MOS_EPOLL_CTL_DEL 3 None epoll_ctl_demo
     = (Inr (), mod_sock 3 (\<lambda>s. s\<lparr>epoll := MOS_EPOLLNONE\<rparr>) epoll_ctl_demo)"
    by (simp add: mtcp_epoll_ctl_def epoll_cfg_def epoll_ctl_demo_def ep_demo_def smap_mod_sock MOS_EPOLLIN_def)
  from epoll_del_then_add[OF this, THEN conjunct1, of "(MOS_EPOLLIN, 0)"] show ?thesis
    by (intro exI[of _ "mod_sock 3 (\<lambda>s. s\<lparr>epoll := MOS_EPOLLNONE\<rparr>) epoll_ctl_demo"]) (simp add: smap_mod_sock)
qed

end
