(* ===== verification/Tcp_Options.thy ===== *)
theory Tcp_Options
  imports Tcp_State
begin

text \<open>
  TCP options and the checksum (\<open>tcp_util.c\<close>, and the option writers of \<open>tcp_out.c\<close>).
  The build has timestamps on and SACK off.  The parsers read bytes through a pointer
  and may run past the option area into what follows it, so the memory is a function of
  the offset.  Their loop need not end; it is a partial function, and not returning is
  \<open>None\<close>.
\<close>

section \<open>Loading and storing network words\<close>

definition ld32 :: "(nat \<Rightarrow> u8) \<Rightarrow> nat \<Rightarrow> u32" where
  "ld32 mem i = ucast (mem i) OR push_bit 8 (ucast (mem (i + 1))) OR push_bit 16 (ucast (mem (i + 2)))
     OR push_bit 24 (ucast (mem (i + 3)))"

definition st32 :: "u32 \<Rightarrow> u8 list" where
  "st32 w = [ucast w, ucast (drop_bit 8 w), ucast (drop_bit 16 w), ucast (drop_bit 24 w)]"

definition mem_of :: "u8 list \<Rightarrow> nat \<Rightarrow> u8" where
  "mem_of bs i = (if i < length bs then bs ! i else 0)"

section \<open>Parsing\<close>

definition TCP_OPT_END :: u8 where "TCP_OPT_END = 0"
definition TCP_OPT_NOP :: u8 where "TCP_OPT_NOP = 1"
definition TCP_OPT_MSS :: u8 where "TCP_OPT_MSS = 2"
definition TCP_OPT_WSCALE :: u8 where "TCP_OPT_WSCALE = 3"
definition TCP_OPT_SACK_PERMIT :: u8 where "TCP_OPT_SACK_PERMIT = 4"
definition TCP_OPT_TIMESTAMP :: u8 where "TCP_OPT_TIMESTAMP = 8"
definition TCP_OPT_MSS_LEN :: u8 where "TCP_OPT_MSS_LEN = 4"
definition TCP_OPT_WSCALE_LEN :: u8 where "TCP_OPT_WSCALE_LEN = 3"
definition TCP_OPT_TIMESTAMP_LEN :: u8 where "TCP_OPT_TIMESTAMP_LEN = 10"

lemmas tcp_opt_defs = TCP_OPT_END_def TCP_OPT_NOP_def TCP_OPT_MSS_def TCP_OPT_WSCALE_def
  TCP_OPT_SACK_PERMIT_def TCP_OPT_TIMESTAMP_def TCP_OPT_MSS_LEN_def TCP_OPT_WSCALE_LEN_def
  TCP_OPT_TIMESTAMP_LEN_def

definition set_mss :: "u16 \<Rightarrow> tcp_stream \<Rightarrow> tcp_stream" where
  "set_mss v = mod_snd (\<lambda>s. s\<lparr>mss := v, eff_mss := v - (ucast TCP_OPT_TIMESTAMP_LEN + 2)\<rparr>)"

definition set_wscale :: "u8 \<Rightarrow> tcp_stream \<Rightarrow> tcp_stream" where
  "set_wscale v = mod_snd (\<lambda>s. s\<lparr>wscale_peer := v\<rparr>)"

definition set_tstamp :: "u32 \<Rightarrow> u32 \<Rightarrow> tcp_stream \<Rightarrow> tcp_stream" where
  "set_tstamp cur_ts v t = mod_rcv (\<lambda>r. r\<lparr>ts_recent := v, ts_last_ts_upd := cur_ts\<rparr>) (t\<lparr>saw_timestamp := True\<rparr>)"

partial_function (option) parse_opts ::
  "u32 \<Rightarrow> (nat \<Rightarrow> u8) \<Rightarrow> int \<Rightarrow> nat \<Rightarrow> tcp_stream \<Rightarrow> tcp_stream option" where
  "parse_opts cur_ts mem len i t =
     (if int i < len then
        if mem i = TCP_OPT_END then Some t
        else if mem i = TCP_OPT_NOP then parse_opts cur_ts mem len (i + 1) t
        else if int (i + 2) + uint (mem (i + 1)) - 2 > len then Some t
        else if mem i = TCP_OPT_MSS then
          parse_opts cur_ts mem len (i + 4)
            (set_mss (push_bit 8 (ucast (mem (i + 2))) + ucast (mem (i + 3))) t)
        else if mem i = TCP_OPT_WSCALE then
          parse_opts cur_ts mem len (i + 3) (set_wscale (mem (i + 2)) t)
        else if mem i = TCP_OPT_SACK_PERMIT then
          parse_opts cur_ts mem len (i + 2) (t\<lparr>sack_permit := True\<rparr>)
        else if mem i = TCP_OPT_TIMESTAMP then
          parse_opts cur_ts mem len (i + 10) (set_tstamp cur_ts (ntohl (ld32 mem (i + 2))) t)
        else parse_opts cur_ts mem len (i + unat (mem (i + 1))) t
      else Some t)"

definition ParseTCPOptions :: "u32 \<Rightarrow> (nat \<Rightarrow> u8) \<Rightarrow> int \<Rightarrow> tcp_stream \<Rightarrow> tcp_stream option" where
  "ParseTCPOptions cur_ts mem len t = parse_opts cur_ts mem len 0 t"

text \<open>The result is the option's two timestamps, or \<open>Some None\<close> where the code returns \<open>FALSE\<close>.\<close>

partial_function (option) parse_ts :: "(nat \<Rightarrow> u8) \<Rightarrow> int \<Rightarrow> nat \<Rightarrow> (u32 \<times> u32) option option" where
  "parse_ts mem len i =
     (if int i < len then
        if mem i = TCP_OPT_END then Some None
        else if mem i = TCP_OPT_NOP then parse_ts mem len (i + 1)
        else if int (i + 2) + uint (mem (i + 1)) - 2 > len then Some None
        else if mem i = TCP_OPT_TIMESTAMP then
          Some (Some (ntohl (ld32 mem (i + 2)), ntohl (ld32 mem (i + 6))))
        else parse_ts mem len (i + unat (mem (i + 1)))
      else Some None)"

definition ParseTCPTimestamp :: "(nat \<Rightarrow> u8) \<Rightarrow> int \<Rightarrow> (u32 \<times> u32) option option" where
  "ParseTCPTimestamp mem len = parse_ts mem len 0"

section \<open>Writing\<close>

definition CalculateOptionLength :: "u8 \<Rightarrow> u16" where
  "CalculateOptionLength flags =
     (if flags AND TCP_FLAG_SYN \<noteq> 0
      then 0 + ucast TCP_OPT_MSS_LEN + ucast TCP_OPT_TIMESTAMP_LEN + 2 + (ucast TCP_OPT_WSCALE_LEN + 1)
      else 0 + ucast TCP_OPT_TIMESTAMP_LEN + 2)"

definition GenerateTCPTimestamp :: "tcp_stream \<Rightarrow> u32 \<Rightarrow> u8 list" where
  "GenerateTCPTimestamp t cur_ts =
     [TCP_OPT_TIMESTAMP, TCP_OPT_TIMESTAMP_LEN] @ st32 (htonl cur_ts) @ st32 (htonl (ts_recent (rcvvar t)))"

definition GenerateTCPOptions :: "tcp_stream \<Rightarrow> u32 \<Rightarrow> u8 \<Rightarrow> u8 list" where
  "GenerateTCPOptions t cur_ts flags =
     (if flags AND TCP_FLAG_SYN \<noteq> 0 then
        [TCP_OPT_MSS, TCP_OPT_MSS_LEN, ucast (drop_bit 8 (mss (sndvar t))), ucast (mss (sndvar t) mod 256)]
        @ [TCP_OPT_NOP, TCP_OPT_NOP] @ GenerateTCPTimestamp t cur_ts
        @ [TCP_OPT_NOP, TCP_OPT_WSCALE, TCP_OPT_WSCALE_LEN, wscale_mine (sndvar t)]
      else [TCP_OPT_NOP, TCP_OPT_NOP] @ GenerateTCPTimestamp t cur_ts)"

section \<open>The checksum\<close>

fun csum_words :: "u32 \<Rightarrow> u8 list \<Rightarrow> u32" where
  "csum_words s (a # b # rest) = csum_words (s + (ucast a + push_bit 8 (ucast b))) rest"
| "csum_words s [a] = s + ucast a"
| "csum_words s [] = s"

definition IPPROTO_TCP :: u16 where "IPPROTO_TCP = 6"

definition csum_fold :: "u32 \<Rightarrow> u16" where
  "csum_fold s =
     (let s = drop_bit 16 s + (s AND 0xFFFF);
          s = s + drop_bit 16 s
      in ucast (NOT s))"

definition TCPCalcChecksum :: "u8 list \<Rightarrow> u32 \<Rightarrow> u32 \<Rightarrow> u16" where
  "TCPCalcChecksum buf src dst =
     (let s = csum_words 0 buf;
          s = s + ((src AND 0x0000FFFF) + drop_bit 16 src);
          s = s + ((dst AND 0x0000FFFF) + drop_bit 16 dst);
          s = s + ucast (htons (of_nat (length buf)));
          s = s + ucast (htons IPPROTO_TCP)
      in csum_fold s)"

section \<open>Options as data\<close>

datatype tcp_opt = Nop | Mss u16 | Wscale u8 | SackPermit | Tstamp u32 u32 | Other u8 "u8 list"

fun opt_bytes :: "tcp_opt \<Rightarrow> u8 list" where
  "opt_bytes Nop = [1]"
| "opt_bytes (Mss v) = [2, 4, ucast (drop_bit 8 v), ucast v]"
| "opt_bytes (Wscale v) = [3, 3, v]"
| "opt_bytes SackPermit = [4, 2]"
| "opt_bytes (Tstamp a b) = [8, 10] @ st32 (htonl a) @ st32 (htonl b)"
| "opt_bytes (Other k bs) = [k, of_nat (length bs + 2)] @ bs"

fun opt_ok :: "tcp_opt \<Rightarrow> bool" where
  "opt_ok (Other k bs) \<longleftrightarrow> k \<notin> {0, 1, 2, 3, 4, 8} \<and> length bs + 2 < 256"
| "opt_ok _ \<longleftrightarrow> True"

fun opt_apply :: "u32 \<Rightarrow> tcp_opt \<Rightarrow> tcp_stream \<Rightarrow> tcp_stream" where
  "opt_apply ts (Mss v) t = set_mss v t"
| "opt_apply ts (Wscale v) t = set_wscale v t"
| "opt_apply ts SackPermit t = t\<lparr>sack_permit := True\<rparr>"
| "opt_apply ts (Tstamp a b) t = set_tstamp ts a t"
| "opt_apply ts _ t = t"

definition opts_bytes :: "tcp_opt list \<Rightarrow> u8 list" where
  "opts_bytes os = concat (map opt_bytes os)"

lemma length_st32 [simp]: "length (st32 w) = 4"
  by (simp add: st32_def)

lemma ld32_st32:
  assumes "\<And>k. k < 4 \<Longrightarrow> mem (i + k) = st32 w ! k"
  shows "ld32 mem i = w"
proof -
  have m: "mem i = ucast w" "mem (i + 1) = ucast (drop_bit 8 w)" "mem (i + 2) = ucast (drop_bit 16 w)"
    "mem (i + 3) = ucast (drop_bit 24 w)"
    using assms[of 0] assms[of 1] assms[of 2] assms[of 3] by (simp_all add: st32_def numeral_2_eq_2 numeral_3_eq_3)
  have lim: "bit w k \<Longrightarrow> k < 32" for k using bit_imp_le_length[of w k] by simp
  show ?thesis unfolding ld32_def m
  proof (rule bit_word_eqI)
    fix n :: nat
    assume n: "n < LENGTH(32)"
    consider "n < 8" | "8 \<le> n" "n < 16" | "16 \<le> n" "n < 24" | "24 \<le> n" by linarith
    then show "bit (ucast (ucast w :: u8) OR push_bit 8 (ucast (ucast (drop_bit 8 w) :: u8) :: u32)
        OR push_bit 16 (ucast (ucast (drop_bit 16 w) :: u8)) OR push_bit 24 (ucast (ucast (drop_bit 24 w) :: u8))) n
      = bit w n"
      using n by cases (auto simp: bit_simps possible_bit_def dest: lim)
  qed
qed

lemma mss_bytes: "push_bit 8 (ucast (ucast (drop_bit 8 v) :: u8)) + ucast (ucast v :: u8) = (v :: u16)"
proof -
  let ?a = "push_bit 8 (ucast (ucast (drop_bit 8 v) :: u8)) :: u16" and ?b = "ucast (ucast v :: u8) :: u16"
  have lim: "bit v k \<Longrightarrow> k < 16" for k using bit_imp_le_length[of v k] by simp
  have "?a AND ?b = 0" by (rule bit_word_eqI) (auto simp: bit_simps possible_bit_def)
  then have "?a + ?b = ?a OR ?b" by (rule disjunctive_add_eq_or)
  also have "\<dots> = v" by (rule bit_word_eqI) (auto simp: bit_simps possible_bit_def dest: lim)
  finally show ?thesis .
qed

section \<open>The parser and the option list\<close>

lemma parse_opts_step:
  assumes m: "\<And>k. k < length (opt_bytes opt) \<Longrightarrow> mem (i + k) = opt_bytes opt ! k"
    and l: "int (i + length (opt_bytes opt)) \<le> len" and ok: "opt_ok opt"
  shows "parse_opts ts mem len i t = parse_opts ts mem len (i + length (opt_bytes opt)) (opt_apply ts opt t)"
proof (cases opt)
  case Nop
  then show ?thesis using m[of 0] l by (subst parse_opts.simps) (simp add: tcp_opt_defs)
next
  case (Mss v)
  have "mem i = 2" "mem (i + 1) = 4" "mem (i + 2) = ucast (drop_bit 8 v)" "mem (i + 3) = ucast v"
    using m[of 0] m[of 1] m[of 2] m[of 3] Mss by (simp_all add: numeral_2_eq_2 numeral_3_eq_3)
  moreover have "length (opt_bytes opt) = 4" using Mss by simp
  ultimately show ?thesis using l mss_bytes[of v]
    by (subst parse_opts.simps) (simp add: tcp_opt_defs Mss del: opt_bytes.simps list.size)
next
  case (Wscale v)
  have "mem i = 3" "mem (i + 1) = 3" "mem (i + 2) = v"
    using m[of 0] m[of 1] m[of 2] Wscale by (simp_all add: numeral_2_eq_2)
  moreover have "length (opt_bytes opt) = 3" using Wscale by simp
  ultimately show ?thesis using l
    by (subst parse_opts.simps) (simp add: tcp_opt_defs Wscale del: opt_bytes.simps list.size)
next
  case SackPermit
  have "mem i = 4" "mem (i + 1) = 2" using m[of 0] m[of 1] SackPermit by simp_all
  then show ?thesis using l SackPermit by (subst parse_opts.simps) (simp add: tcp_opt_defs)
next
  case (Tstamp a b)
  have h: "mem i = 8" "mem (i + 1) = 10" using m[of 0] m[of 1] Tstamp by simp_all
  have "ld32 mem (i + 2) = htonl a"
  proof (rule ld32_st32)
    fix k :: nat assume "k < 4"
    then show "mem (i + 2 + k) = st32 (htonl a) ! k"
      using m[of "2 + k"] Tstamp by (simp add: nth_append add.assoc)
  qed
  then show ?thesis using l h Tstamp
    by (subst parse_opts.simps) (simp add: tcp_opt_defs)
next
  case (Other k bs)
  have h: "mem i = k" "mem (i + 1) = of_nat (length bs + 2)" using m[of 0] m[of 1] Other by simp_all
  have u: "unat (of_nat (length bs + 2) :: u8) = length bs + 2"
    using ok Other unat_of_nat[where ?'a = 8, of "length bs + 2"] by simp
  then have "uint (mem (i + 1)) = int (length bs + 2)" using h(2) by (metis uint_nat)
  then show ?thesis using l h(1) ok Other u h(2)
    by (subst parse_opts.simps) (simp add: tcp_opt_defs del: of_nat_add of_nat_Suc)
qed

lemma parse_opts_prefix:
  assumes "\<And>k. k < length (opts_bytes opts) \<Longrightarrow> mem (i + k) = opts_bytes opts ! k"
    and "int (i + length (opts_bytes opts)) \<le> len" and "list_all opt_ok opts"
  shows "parse_opts ts mem len i t
    = parse_opts ts mem len (i + length (opts_bytes opts)) (fold (opt_apply ts) opts t)"
  using assms
proof (induction opts arbitrary: i t)
  case (Cons opt opts)
  have b: "opts_bytes (opt # opts) = opt_bytes opt @ opts_bytes opts" by (simp add: opts_bytes_def)
  have "parse_opts ts mem len i t = parse_opts ts mem len (i + length (opt_bytes opt)) (opt_apply ts opt t)"
  proof (rule parse_opts_step)
    fix k assume k: "k < length (opt_bytes opt)"
    show "mem (i + k) = opt_bytes opt ! k"
      using Cons.prems(1)[of k] k by (simp add: b nth_append)
  qed (use Cons.prems b in auto)
  also have "\<dots> = parse_opts ts mem len (i + length (opt_bytes opt) + length (opts_bytes opts))
      (fold (opt_apply ts) opts (opt_apply ts opt t))"
  proof (rule Cons.IH)
    fix k assume k: "k < length (opts_bytes opts)"
    show "mem (i + length (opt_bytes opt) + k) = opts_bytes opts ! k"
      using Cons.prems(1)[of "length (opt_bytes opt) + k"] k by (simp add: b nth_append add.assoc)
  qed (use Cons.prems b in auto)
  finally show ?case by (simp add: b add.assoc)
qed (simp add: opts_bytes_def)

lemma parse_opts_all:
  assumes "list_all opt_ok opts"
  shows "ParseTCPOptions ts (mem_of (opts_bytes opts)) (int (length (opts_bytes opts))) t
    = Some (fold (opt_apply ts) opts t)"
proof -
  have "parse_opts ts (mem_of (opts_bytes opts)) (int (length (opts_bytes opts))) 0 t
    = parse_opts ts (mem_of (opts_bytes opts)) (int (length (opts_bytes opts))) (0 + length (opts_bytes opts))
        (fold (opt_apply ts) opts t)"
    by (rule parse_opts_prefix) (use assms in \<open>auto simp: mem_of_def\<close>)
  then show ?thesis by (simp add: ParseTCPOptions_def parse_opts.simps[of _ _ _ "length (opts_bytes opts)"])
qed

section \<open>Termination\<close>

text \<open>The kinds that do not advance by their length byte.\<close>

definition handled_kind :: "u8 \<Rightarrow> bool" where
  "handled_kind k \<longleftrightarrow> k \<in> {0, 1, 2, 3, 4, 8}"

definition ts_kind :: "u8 \<Rightarrow> bool" where
  "ts_kind k \<longleftrightarrow> k \<in> {0, 1, 8}"

lemma parse_opts_total:
  assumes "\<And>k. int k < len \<Longrightarrow> handled_kind (mem k) \<or> mem (k + 1) \<noteq> 0"
  shows "\<exists>t'. parse_opts ts mem len i t = Some t'"
proof (induction "nat (len - int i)" arbitrary: i t rule: less_induct)
  case less
  show ?case
  proof (cases "int i < len")
    case True
    have ih: "i < j \<Longrightarrow> \<exists>t'. parse_opts ts mem len j u = Some t'" for j u
      using less[of j u] True by simp
    have "\<not> handled_kind (mem i) \<Longrightarrow> 0 < unat (mem (i + 1))"
      using assms[OF True] by (simp add: unat_gt_0)
    then show ?thesis
      using ih by (subst parse_opts.simps) (auto simp: tcp_opt_defs handled_kind_def)
  qed (simp add: parse_opts.simps[of _ _ _ i])
qed

lemma parse_opts_stuck:
  "parse_opts ts mem len i t = Some r \<Longrightarrow>
   \<not> (int i < len \<and> \<not> handled_kind (mem i) \<and> mem (i + 1) = 0)"
  by (rule parse_opts.raw_induct[where P = "\<lambda>ts mem len i t r.
        \<not> (int i < len \<and> \<not> handled_kind (mem i) \<and> mem (i + 1) = 0)", rotated], assumption)
     (force simp: handled_kind_def tcp_opt_defs)

lemma parse_ts_stuck:
  "parse_ts mem len i = Some r \<Longrightarrow>
   \<not> (int i < len \<and> \<not> ts_kind (mem i) \<and> mem (i + 1) = 0)"
  by (rule parse_ts.raw_induct[where P = "\<lambda>mem len i r.
        \<not> (int i < len \<and> \<not> ts_kind (mem i) \<and> mem (i + 1) = 0)", rotated], assumption)
     (force simp: ts_kind_def tcp_opt_defs)

section \<open>Checksum arithmetic\<close>

fun wsum :: "u8 list \<Rightarrow> nat" where
  "wsum (a # b # rest) = unat a + 256 * unat b + wsum rest"
| "wsum [a] = unat a"
| "wsum [] = 0"

lemma ucast_u8_nat: "(ucast a :: u32) = of_nat (unat a)" for a :: u8
  by (simp only: of_nat_unat)

lemma csum_words_nat: "csum_words s bs = s + of_nat (wsum bs)"
  by (induction s bs rule: csum_words.induct) (simp_all add: ucast_u8_nat push_bit_eq_mult algebra_simps del: of_nat_unat)

lemma wsum_append:
  assumes "even (length xs)"
  shows "wsum (xs @ ys) = wsum xs + wsum ys"
  using assms by (induction xs rule: wsum.induct) simp_all

lemma unat_u8_le: "unat a \<le> 255" for a :: u8
  using unsigned_less[of a, where 'a = nat] by simp

lemma wsum_le: "wsum bs \<le> 65535 * ((length bs + 1) div 2)"
proof (induction bs rule: wsum.induct)
  case (1 a b rest)
  then show ?case using unat_u8_le[of a] unat_u8_le[of b] by simp
next
  case (2 a)
  then show ?case using unat_u8_le[of a] by simp
qed simp

text \<open>The end-around-carry sum of a number, and its complement.\<close>

definition carry_fold :: "nat \<Rightarrow> nat" where
  "carry_fold n = (let r = n div 65536 + n mod 65536 in (r + r div 65536) mod 65536)"

lemma carry_fold_lt: "carry_fold n < 65536"
  unfolding carry_fold_def Let_def by simp

lemma unsigned_of_nat_u16: "(ucast (of_nat k :: u32) :: u16) = of_nat k"
proof (rule word_unat_eq_iff[THEN iffD2])
  have "k mod 2 ^ 32 mod 2 ^ 16 = k mod 2 ^ 16" by (rule mod_mod_cancel) (simp add: le_imp_power_dvd)
  then show "unat (ucast (of_nat k :: u32) :: u16) = unat (of_nat k :: u16)"
    by (simp add: unsigned_ucast_eq unat_of_nat take_bit_eq_mod)
qed

lemma csum_fold_nat:
  assumes "n < 2 ^ 32"
  shows "csum_fold (of_nat n) = of_nat (65535 - carry_fold n)"
proof -
  let ?r = "n div 65536 + n mod 65536"
  have m: "(0xFFFF :: u32) = mask 16" by (simp add: mask_eq_exp_minus_1)
  have d: "drop_bit 16 (of_nat k :: u32) = of_nat (k div 65536)" if "k < 2 ^ 32" for k
    by (rule word_unat_eq_iff[THEN iffD2])
       (use that in \<open>simp add: unat_drop_bit_eq unat_of_nat drop_bit_eq_div unat_div_distrib less_imp_diff_less\<close>)
  have a: "(of_nat n :: u32) AND 0xFFFF = of_nat (n mod 65536)"
    unfolding m take_bit_eq_mask[symmetric]
    by (rule word_unat_eq_iff[THEN iffD2])
       (use assms in \<open>simp add: unsigned_take_bit_eq unat_of_nat take_bit_eq_mod unat_mod_distrib\<close>)
  have r: "?r < 2 ^ 32" using assms by simp
  have "csum_fold (of_nat n) = (ucast (NOT (of_nat (?r + ?r div 65536) :: u32)) :: u16)"
    unfolding csum_fold_def Let_def a d[OF assms] of_nat_add[symmetric] d[OF r] ..
  also have "\<dots> = NOT (ucast (of_nat (?r + ?r div 65536) :: u32))"
    by (rule bit_word_eqI) (simp add: bit_simps possible_bit_def)
  also have "(ucast (of_nat (?r + ?r div 65536) :: u32) :: u16) = of_nat (?r + ?r div 65536)"
    by (rule unsigned_of_nat_u16)
  also have "NOT (of_nat (?r + ?r div 65536) :: u16) = 65535 - of_nat (carry_fold n)"
  proof -
    have "(of_nat (?r + ?r div 65536) :: u16) = of_nat (carry_fold n)"
      by (rule word_unat_eq_iff[THEN iffD2]) (simp add: unat_of_nat carry_fold_def Let_def del: of_nat_add)
    then show ?thesis by (simp add: not_eq_complement del: of_nat_add)
  qed
  also have "\<dots> = of_nat (65535 - carry_fold n)"
    using carry_fold_lt[of n] by (simp add: of_nat_diff)
  finally show ?thesis .
qed

lemma carry_fold_cases:
  assumes "n < 2 ^ 32"
  obtains "carry_fold n = n div 65536 + n mod 65536" "n div 65536 + n mod 65536 < 65536"
  | "carry_fold n = n div 65536 + n mod 65536 - 65535" "65536 \<le> n div 65536 + n mod 65536"
proof -
  let ?r = "n div 65536 + n mod 65536"
  have "n div 65536 < 65536" "n mod 65536 < 65536" using assms by simp_all
  then have "?r < 2 * 65536 - 1" by linarith
  then consider "?r < 65536" | "65536 \<le> ?r" "?r div 65536 = 1" by linarith
  then show thesis
  proof cases
    case 1
    then show ?thesis using that(1) by (simp add: carry_fold_def)
  next
    case 2
    have "(?r + 1) mod 65536 = ?r + 1 - 65536"
      by (subst le_mod_geq) (use 2(1) \<open>?r < 2 * 65536 - 1\<close> in simp_all)
    then show ?thesis using that(2) 2 unfolding carry_fold_def Let_def by simp
  qed
qed

text \<open>Appending the complement to what was summed makes the sum all ones.\<close>

lemma carry_fold_complement:
  assumes "n < 2 ^ 32 - 65536" "0 < n"
  shows "carry_fold (n + (65535 - carry_fold n)) = 65535"
proof -
  have modeq: "carry_fold k mod 65535 = k mod 65535" if "k < 2 ^ 32" for k
  proof -
    have k: "k = 65535 * (k div 65536) + (k div 65536 + k mod 65536)" by simp
    from that show ?thesis
    proof (cases rule: carry_fold_cases)
      case 1
      then show ?thesis using k by (metis mod_mult_self3 mult.commute)
    next
      case 2
      then have "carry_fold k + 65535 = k div 65536 + k mod 65536" by simp
      then show ?thesis using k by (metis mod_add_self2 mod_mult_self3 mult.commute)
    qed
  qed
  have le: "carry_fold k < 65536" for k by (rule carry_fold_lt)
  have pos: "0 < carry_fold k" if "0 < k" "k < 2 ^ 32" for k
  proof -
    have "k div 65536 + k mod 65536 \<noteq> 0" using that(1) div_mult_mod_eq[of k 65536] by linarith
    from that(2) show ?thesis by (cases rule: carry_fold_cases) (use \<open>k div 65536 + k mod 65536 \<noteq> 0\<close> in simp_all)
  qed
  let ?k = "n + (65535 - carry_fold n)"
  have k: "0 < ?k" "?k < 2 ^ 32" using assms by simp_all
  have "?k + carry_fold n = n + 65535" using le[of n] by simp
  then have "(?k + carry_fold n) mod 65535 = n mod 65535" by simp
  moreover have "carry_fold n mod 65535 = n mod 65535" using modeq assms by simp
  ultimately have "(?k + carry_fold n) mod 65535 = carry_fold n mod 65535" by simp
  then have "?k mod 65535 = 0"
    using mod_eq_dvd_iff_nat[of "carry_fold n" "?k + carry_fold n" 65535] by (simp add: dvd_eq_mod_eq_0)
  then have "carry_fold ?k mod 65535 = 0" using modeq[OF k(2)] by simp
  then have "\<not> carry_fold ?k < 65535" using pos[OF k] by (metis mod_less less_irrefl)
  then show ?thesis using le[of ?k] by linarith
qed

text \<open>The pseudo header's share of the sum.\<close>

definition pseudo_sum :: "u8 list \<Rightarrow> u32 \<Rightarrow> u32 \<Rightarrow> nat" where
  "pseudo_sum buf src dst =
     unat (src AND 0xFFFF) + unat (drop_bit 16 src) + unat (dst AND 0xFFFF) + unat (drop_bit 16 dst)
     + unat (htons (of_nat (length buf))) + unat (htons IPPROTO_TCP)"

lemma pseudo_sum_le: "pseudo_sum buf src dst \<le> 6 * 65535"
proof -
  have m: "(0xFFFF :: u32) = mask 16" by (simp add: mask_eq_exp_minus_1)
  have a: "unat (w AND 0xFFFF) \<le> 65535" for w :: u32
  proof -
    have "unat (take_bit 16 w) < 2 ^ 16" unfolding unsigned_take_bit_eq by (rule take_bit_nat_less_exp)
    then show ?thesis unfolding m take_bit_eq_mask[symmetric] by simp
  qed
  have d: "unat (drop_bit 16 w) \<le> 65535" for w :: u32
  proof -
    have "unat w < 65536 * 65536" using unsigned_less[of w, where 'a = nat] by simp
    then have "unat w div 65536 < 65536" by (simp add: less_mult_imp_div_less)
    then show ?thesis by (simp add: unat_drop_bit_eq drop_bit_eq_div unat_div_distrib)
  qed
  have h: "unat w \<le> 65535" for w :: u16 using unsigned_less[of w, where 'a = nat] by simp
  show ?thesis unfolding pseudo_sum_def using a[of src] a[of dst] d[of src] d[of dst]
      h[of "htons (of_nat (length buf))"] h[of "htons IPPROTO_TCP"] by linarith
qed

lemma TCPCalcChecksum_nat:
  assumes "length buf < 65536"
  shows "TCPCalcChecksum buf src dst = of_nat (65535 - carry_fold (wsum buf + pseudo_sum buf src dst))"
    and "wsum buf + pseudo_sum buf src dst < 2 ^ 32 - 65536"
proof -
  have "(length buf + 1) div 2 \<le> 32768" using assms by simp
  then have "wsum buf \<le> 65535 * 32768" using wsum_le[of buf] by (meson le_trans mult_le_mono2)
  then show lt: "wsum buf + pseudo_sum buf src dst < 2 ^ 32 - 65536"
    using pseudo_sum_le[of buf src dst] by simp
  have w: "(of_nat (unat w) :: u32) = w" for w :: u32 by simp
  have u: "(of_nat (unat w) :: u32) = ucast w" for w :: u16 by simp
  have "TCPCalcChecksum buf src dst = csum_fold (of_nat (wsum buf + pseudo_sum buf src dst))"
    unfolding TCPCalcChecksum_def Let_def csum_words_nat pseudo_sum_def of_nat_add w u
    by (simp add: algebra_simps)
  then show "TCPCalcChecksum buf src dst = of_nat (65535 - carry_fold (wsum buf + pseudo_sum buf src dst))"
    using csum_fold_nat[of "wsum buf + pseudo_sum buf src dst"] lt by (simp del: of_nat_add)
qed

lemma htons_proto: "unat (htons IPPROTO_TCP) = 1536"
  by (simp add: bswap16_def IPPROTO_TCP_def)

text \<open>
  C21.  A segment whose checksum field was filled with \<open>TCPCalcChecksum\<close> of the segment with
  that field cleared passes the receiver's test: over it, \<open>TCPCalcChecksum\<close> is 0.  The
  field may stand at any even offset, and the segment may hold an odd number of bytes.
\<close>

theorem checksum_verifies:
  fixes pre post :: "u8 list"
  assumes "even (length pre)" and "length pre + 2 + length post < 65536"
  shows "let c = TCPCalcChecksum (pre @ [0, 0] @ post) src dst
         in TCPCalcChecksum (pre @ [ucast c, ucast (drop_bit 8 c)] @ post) src dst = 0"
proof -
  let ?z = "pre @ [0, 0] @ post"
  let ?n = "wsum ?z + pseudo_sum ?z src dst"
  define c where "c = TCPCalcChecksum ?z src dst"
  let ?f = "pre @ [ucast c, ucast (drop_bit 8 c)] @ post"
  have len: "length ?z < 65536" "length ?f = length ?z" using assms(2) by simp_all
  note z = TCPCalcChecksum_nat[OF len(1), of src dst]
  have "unat c = 65535 - carry_fold ?n"
    unfolding c_def z(1) by (simp add: unat_of_nat)
  moreover have "unat (ucast c :: u8) + 256 * unat (ucast (drop_bit 8 c) :: u8) = unat c"
  proof -
    have "unat c < 65536" using unsigned_less[of c, where 'a = nat] by simp
    then have "unat c div 256 < 256" by (simp add: less_mult_imp_div_less)
    then show ?thesis
      by (simp add: unsigned_ucast_eq unat_drop_bit_eq drop_bit_eq_div unat_div_distrib take_bit_eq_mod)
  qed
  ultimately have s: "wsum ?f = wsum ?z + (65535 - carry_fold ?n)"
    by (simp add: wsum_append[OF assms(1)])
  have p: "pseudo_sum ?f src dst = pseudo_sum ?z src dst" unfolding pseudo_sum_def len(2) ..
  have "0 < ?n" unfolding pseudo_sum_def htons_proto by simp
  then have "carry_fold (wsum ?f + pseudo_sum ?f src dst) = 65535"
    using carry_fold_complement[OF z(2)] unfolding s p by (simp add: add_ac)
  then have "TCPCalcChecksum ?f src dst = 0"
    using TCPCalcChecksum_nat(1)[of ?f src dst] len by simp
  then show ?thesis by (simp add: c_def Let_def)
qed

theorem checksum_verifies_witness:
  "let c = TCPCalcChecksum ([1, 2] @ [0, 0] @ [5]) 7 9
   in TCPCalcChecksum ([1, 2] @ [ucast c, ucast (drop_bit 8 c)] @ [5]) 7 9 = 0"
  by (rule checksum_verifies) simp_all

section \<open>What the writers write\<close>

lemma GenerateTCPOptions_opts:
  "GenerateTCPOptions t ts flags = opts_bytes
     (if flags AND TCP_FLAG_SYN \<noteq> 0
      then [Mss (mss (sndvar t)), Nop, Nop, Tstamp ts (ts_recent (rcvvar t)), Nop, Wscale (wscale_mine (sndvar t))]
      else [Nop, Nop, Tstamp ts (ts_recent (rcvvar t))])"
proof -
  have "(ucast (w mod 256) :: u8) = ucast w" for w :: u16
    by (rule word_unat_eq_iff[THEN iffD2])
       (simp add: unsigned_ucast_eq unat_mod_distrib take_bit_eq_mod mod_mod_trivial)
  then show ?thesis
    by (simp add: GenerateTCPOptions_def GenerateTCPTimestamp_def opts_bytes_def tcp_opt_defs)
qed

lemma opts_bytes_Nil [simp]: "opts_bytes [] = []"
  and opts_bytes_Cons: "opts_bytes (opt # opts) = opt_bytes opt @ opts_bytes opts"
  by (simp_all add: opts_bytes_def)

text \<open>\<open>ParseTCPTimestamp\<close> skips every well-formed option that is no timestamp.\<close>

lemma parse_ts_skip:
  assumes m: "\<And>k. k < length (opt_bytes opt) \<Longrightarrow> mem (i + k) = opt_bytes opt ! k"
    and l: "int (i + length (opt_bytes opt)) \<le> len" and opt: "opt = Nop \<or> opt = Mss v \<or> opt = Wscale w"
  shows "parse_ts mem len i = parse_ts mem len (i + length (opt_bytes opt))"
proof -
  consider "opt = Nop" | "opt = Mss v" | "opt = Wscale w" using opt by blast
  then show ?thesis
  proof cases
    case 1
    then show ?thesis using m[of 0] l by (subst parse_ts.simps) (simp add: tcp_opt_defs)
  next
    case 2
    have "mem i = 2" "mem (i + 1) = 4" "length (opt_bytes opt) = 4" using m[of 0] m[of 1] 2 by simp_all
    then show ?thesis using l
      by (subst parse_ts.simps) (simp add: tcp_opt_defs 2 del: opt_bytes.simps list.size)
  next
    case 3
    have "mem i = 3" "mem (i + 1) = 3" "length (opt_bytes opt) = 3" using m[of 0] m[of 1] 3 by simp_all
    then show ?thesis using l
      by (subst parse_ts.simps) (simp add: tcp_opt_defs 3 del: opt_bytes.simps list.size)
  qed
qed

lemma parse_ts_hit:
  assumes m: "\<And>k. k < 10 \<Longrightarrow> mem (i + k) = opt_bytes (Tstamp a b) ! k" and l: "int (i + 10) \<le> len"
  shows "parse_ts mem len i = Some (Some (a, b))"
proof -
  have h: "mem i = 8" "mem (i + 1) = 10" using m[of 0] m[of 1] by simp_all
  have "ld32 mem (i + 2) = htonl a"
  proof (rule ld32_st32)
    fix k :: nat assume "k < 4"
    then show "mem (i + 2 + k) = st32 (htonl a) ! k"
      using m[of "2 + k"] by (simp add: nth_append add.assoc)
  qed
  moreover have "ld32 mem (i + 6) = htonl b"
  proof (rule ld32_st32)
    fix k :: nat assume k: "k < 4"
    have "(opt_bytes (Tstamp a b)) ! (6 + k) = st32 (htonl b) ! k"
      by (simp add: nth_append)
    then show "mem (i + 6 + k) = st32 (htonl b) ! k"
      using m[of "6 + k"] k by (simp add: add.assoc)
  qed
  ultimately show ?thesis using l h by (subst parse_ts.simps) (simp add: tcp_opt_defs)
qed

lemma parse_ts_opts:
  assumes "\<And>k. k < length (opts_bytes (pre @ Tstamp a b # post)) \<Longrightarrow>
      mem (i + k) = opts_bytes (pre @ Tstamp a b # post) ! k"
    and "int (i + length (opts_bytes (pre @ Tstamp a b # post))) \<le> len"
    and "set pre \<subseteq> insert Nop (range Mss \<union> range Wscale)"
  shows "parse_ts mem len i = Some (Some (a, b))"
  using assms
proof (induction pre arbitrary: i)
  case Nil
  have len: "length (opt_bytes (Tstamp a b)) = 10" by simp
  show ?case
    by (rule parse_ts_hit) (use Nil len in \<open>simp_all add: opts_bytes_Cons nth_append del: opt_bytes.simps\<close>)
next
  case (Cons opt pre)
  let ?rest = "opts_bytes (pre @ Tstamp a b # post)"
  obtain v w where opt: "opt = Nop \<or> opt = Mss v \<or> opt = Wscale w" using Cons.prems(3) by auto
  have "parse_ts mem len i = parse_ts mem len (i + length (opt_bytes opt))"
  proof (rule parse_ts_skip[OF _ _ opt])
    fix k assume k: "k < length (opt_bytes opt)"
    show "mem (i + k) = opt_bytes opt ! k"
      using Cons.prems(1)[of k] k by (simp add: opts_bytes_Cons nth_append)
  qed (use Cons.prems(2) in \<open>simp add: opts_bytes_Cons\<close>)
  also have "\<dots> = Some (Some (a, b))"
  proof (rule Cons.IH)
    fix k assume k: "k < length ?rest"
    show "mem (i + length (opt_bytes opt) + k) = ?rest ! k"
      using Cons.prems(1)[of "length (opt_bytes opt) + k"] k
      by (simp add: opts_bytes_Cons nth_append add.assoc)
  qed (use Cons.prems in \<open>simp_all add: opts_bytes_Cons add.assoc\<close>)
  finally show ?case .
qed

lemma parse_ts_all:
  assumes "set pre \<subseteq> insert Nop (range Mss \<union> range Wscale)"
  shows "ParseTCPTimestamp (mem_of (opts_bytes (pre @ Tstamp a b # post)))
    (int (length (opts_bytes (pre @ Tstamp a b # post)))) = Some (Some (a, b))"
  unfolding ParseTCPTimestamp_def
  by (rule parse_ts_opts[of pre a b post]) (use assms in \<open>auto simp: mem_of_def\<close>)

section \<open>Properties\<close>

text \<open>
  C19.  What \<open>GenerateTCPOptions\<close> writes, the peer's parsers read back: the area has the
  length \<open>CalculateOptionLength\<close> reserved (in whole words), \<open>ParseTCPOptions\<close> returns
  and leaves exactly the sender's MSS (with the effective MSS 12 smaller), window scale
  and timestamp in the stream, and \<open>ParseTCPTimestamp\<close> yields the sender's clock and its
  echo.
\<close>

theorem tcp_options_roundtrip:
  "let bs = GenerateTCPOptions t ts flags;
       syn = (flags AND TCP_FLAG_SYN \<noteq> 0)
   in length bs = unat (CalculateOptionLength flags) \<and> length bs mod 4 = 0
      \<and> ParseTCPOptions now (mem_of bs) (int (length bs)) u
        = Some (if syn then set_wscale (wscale_mine (sndvar t)) (set_tstamp now ts (set_mss (mss (sndvar t)) u))
                else set_tstamp now ts u)
      \<and> ParseTCPTimestamp (mem_of bs) (int (length bs)) = Some (Some (ts, ts_recent (rcvvar t)))"
proof -
  define mid where "mid = Tstamp ts (ts_recent (rcvvar t))"
  define opts where "opts = (if flags AND TCP_FLAG_SYN \<noteq> 0
      then [Mss (mss (sndvar t)), Nop, Nop] @ mid # [Nop, Wscale (wscale_mine (sndvar t))]
      else [Nop, Nop] @ mid # [])"
  have g: "GenerateTCPOptions t ts flags = opts_bytes opts"
    by (simp add: GenerateTCPOptions_opts opts_def mid_def)
  have p: "ParseTCPTimestamp (mem_of (opts_bytes opts)) (int (length (opts_bytes opts)))
      = Some (Some (ts, ts_recent (rcvvar t)))"
    unfolding opts_def mid_def
    using parse_ts_all[of "[Mss (mss (sndvar t)), Nop, Nop]"] parse_ts_all[of "[Nop, Nop]"] by simp
  have "length (opts_bytes opts) = unat (CalculateOptionLength flags) \<and> length (opts_bytes opts) mod 4 = 0"
    by (simp add: opts_def mid_def opts_bytes_Cons CalculateOptionLength_def tcp_opt_defs)
  moreover have "ParseTCPOptions now (mem_of (opts_bytes opts)) (int (length (opts_bytes opts))) u
      = Some (if flags AND TCP_FLAG_SYN \<noteq> 0
         then set_wscale (wscale_mine (sndvar t)) (set_tstamp now ts (set_mss (mss (sndvar t)) u))
         else set_tstamp now ts u)"
    by (subst parse_opts_all) (simp_all add: opts_def mid_def)
  ultimately show ?thesis unfolding g Let_def using p by blast
qed

text \<open>
  \<open>ParseTCPOptions\<close> applies a list of well-formed options of any kinds and in any
  order, with nothing lost and nothing made up: the result is each option's effect in
  turn, and options of kinds the stack does not handle are stepped over.
\<close>

theorem tcp_options_parse:
  assumes "list_all opt_ok opts"
  shows "ParseTCPOptions ts (mem_of (opts_bytes opts)) (int (length (opts_bytes opts))) t
    = Some (fold (opt_apply ts) opts t)"
  using parse_opts_all[OF assms] .

theorem tcp_options_parse_witness:
  "ParseTCPOptions 5 (mem_of (opts_bytes [Other 14 [7], Mss 1460])) (int (length (opts_bytes [Other 14 [7], Mss 1460])))
     zero_stream = Some (fold (opt_apply 5) [Other 14 [7], Mss 1460] zero_stream)"
  by (rule tcp_options_parse) simp



text \<open>
  That condition is needed.  After well-formed options, an option of an unknown
  kind with length byte 0 is re-read for ever: neither parser returns.  The packet comes from
  the network, so one segment stops the core that parses it.
\<close>

theorem tcp_options_hang:
  assumes "list_all opt_ok opts" and "\<not> handled_kind k"
    and "int (length (opts_bytes opts)) + 1 \<le> len"
  shows "ParseTCPOptions ts (mem_of (opts_bytes opts @ [k, 0])) len t = None
    \<and> ParseTCPTimestamp (mem_of [k, 0]) len = None"
proof
  let ?b = "opts_bytes opts" and ?m = "mem_of (opts_bytes opts @ [k, 0])"
  have "parse_opts ts ?m len 0 t = parse_opts ts ?m len (0 + length ?b) (fold (opt_apply ts) opts t)"
    by (rule parse_opts_prefix) (use assms in \<open>auto simp: mem_of_def nth_append\<close>)
  moreover have "parse_opts ts ?m len (length ?b) u = None" for u
    using parse_opts_stuck[of ts ?m len "length ?b" u] assms
    by (cases "parse_opts ts ?m len (length ?b) u") (auto simp: mem_of_def nth_append)
  ultimately show "ParseTCPOptions ts ?m len t = None" by (simp add: ParseTCPOptions_def)
  show "ParseTCPTimestamp (mem_of [k, 0]) len = None"
    using parse_ts_stuck[of "mem_of [k, 0]" len 0] assms
    by (cases "parse_ts (mem_of [k, 0]) len 0")
       (auto simp: mem_of_def ParseTCPTimestamp_def ts_kind_def handled_kind_def)
qed

theorem tcp_options_hang_witness:
  "ParseTCPOptions 5 (mem_of (opts_bytes [Mss 1460] @ [14, 0])) 8 zero_stream = None
   \<and> ParseTCPTimestamp (mem_of [14, 0]) 8 = None"
  by (rule tcp_options_hang) (simp_all add: handled_kind_def opts_bytes_def)

end
