(* ===== verification/Stream_Frame.thy ===== *)
theory Stream_Frame
  imports Conn_Lists Event_Queue
begin

text \<open>
  What the functions that the packet handlers call leave alone: raising an event changes
  no stream but the caller's, moving a stream between lists changes only its membership.
  \<open>only s m m'\<close> says that the step from \<open>m\<close> to \<open>m'\<close> changed no stream but \<open>s\<close>.
\<close>

definition only :: "ref \<Rightarrow> mtcp_manager \<Rightarrow> mtcp_manager \<Rightarrow> bool" where
  "only s m m' \<longleftrightarrow> (\<forall>s'. s' \<noteq> s \<longrightarrow> strm m' s' = strm m s')"

lemma only_refl [simp, intro]: "only s m m"
  by (simp add: only_def)

lemma only_trans: "only s m m1 \<Longrightarrow> only s m1 m2 \<Longrightarrow> only s m m2"
  by (simp add: only_def)

lemma only_mod_strm [simp]: "only s m (mod_strm s f m') \<longleftrightarrow> only s m m'"
  by (simp add: only_def)

definition lists_part :: "mtcp_manager \<Rightarrow> _" where
  "lists_part m = ((streams m, senders m, rto_store m), (timewait_list m, timeout_list m),
     (rto_list_cnt m, timewait_list_cnt m, timeout_list_cnt m))"

lemma lists_ok_part:
  assumes "lists_part m' = lists_part m"
  shows "lists_ok cfg L m' = lists_ok cfg L m"
proof -
  have s: "strm m' = strm m" using assms by (auto simp: lists_part_def strm_def)
  have "ctl_fam cfg m' = ctl_fam cfg m" "snd_fam cfg m' = snd_fam cfg m" "ack_fam cfg m' = ack_fam cfg m"
    "rto_fam m' = rto_fam m" "tw_fam m' = tw_fam m" "to_fam m' = to_fam m"
    using assms s by (simp_all add: fam_defs place_defs lists_defs lists_part_def fun_eq_iff)
  moreover from this have "timer_excl L m' = timer_excl L m" by (intro timer_excl_fam)
  ultimately show ?thesis by (simp add: lists_ok_def)
qed

lemma strm_part: "lists_part m' = lists_part m \<Longrightarrow> strm m' s = strm m s"
  by (simp add: lists_part_def strm_def)

lemma lists_part_upd [simp]:
  "lists_part (m\<lparr>ep := e\<rparr>) = lists_part m"
  "lists_part (m\<lparr>mlisteners := ml\<rparr>) = lists_part m"
  "lists_part (m\<lparr>bufseg_pool := bp\<rparr>) = lists_part m"
  "lists_part (m\<lparr>listener := ln\<rparr>) = lists_part m"
  "lists_part (m\<lparr>listeners := lns\<rparr>) = lists_part m"
  "lists_part (m\<lparr>appq := aq\<rparr>) = lists_part m"
  "lists_part (m\<lparr>smap := sm\<rparr>) = lists_part m"
  "lists_part (mod_sock k f m) = lists_part m"
  "lists_part (HandleCallback h k sd ev m) = lists_part m"
  by (simp_all add: lists_part_def mod_sock_def HandleCallback_def)

lemma AddEpollEvent_part [simp]: "lists_part (snd (AddEpollEvent qt sk ev m)) = lists_part m"
  by (simp add: AddEpollEvent_def Let_def split: option.split prod.split)

lemma Raise_part [simp]:
  "lists_part (RaiseWriteEvent s m) = lists_part m"
  "lists_part (RaiseCloseEvent s m) = lists_part m"
  "lists_part (snd (RaiseErrorEvent s m)) = lists_part m"
  by (simp_all add: RaiseWriteEvent_def RaiseCloseEvent_def RaiseErrorEvent_def split: option.split)

lemma strm_Raise [simp]:
  "strm (snd (AddEpollEvent qt sk ev m)) s' = strm m s'"
  "strm (RaiseWriteEvent s m) s' = strm m s'"
  "strm (RaiseCloseEvent s m) s' = strm m s'"
  "strm (snd (RaiseErrorEvent s m)) s' = strm m s'"
  "strm (mod_sock k f m) s' = strm m s'"
  by (rule strm_part; simp)+

lemma lists_ok_Raise [simp]:
  "lists_ok cfg L (snd (AddEpollEvent qt sk ev m)) = lists_ok cfg L m"
  "lists_ok cfg L (RaiseWriteEvent s m) = lists_ok cfg L m"
  "lists_ok cfg L (RaiseCloseEvent s m) = lists_ok cfg L m"
  "lists_ok cfg L (snd (RaiseErrorEvent s m)) = lists_ok cfg L m"
  "lists_ok cfg L (HandleCallback h k sd ev m) = lists_ok cfg L m"
  "lists_ok cfg L (m\<lparr>mlisteners := ml\<rparr>) = lists_ok cfg L m"
  "lists_ok cfg L (m\<lparr>listener := ln\<rparr>) = lists_ok cfg L m"
  "lists_ok cfg L (m\<lparr>listeners := lns\<rparr>) = lists_ok cfg L m"
  "lists_ok cfg L (m\<lparr>appq := aq\<rparr>) = lists_ok cfg L m"
  "lists_ok cfg L (m\<lparr>bufseg_pool := bp\<rparr>) = lists_ok cfg L m"
  by (rule lists_ok_part; simp)+

lemma act_0: "act 0 t = t"
  by (simp add: act_def)

text \<open>The read event of a monitored stream leaves a mark in the stream's actions.\<close>

lemma raise_read_monitors_frame:
  "only s m (raise_read_monitors s ws m) \<and> (\<exists>a. strm (raise_read_monitors s ws m) s = act a (strm m s))
   \<and> (lists_ok cfg L m \<longrightarrow> lists_ok cfg L (raise_read_monitors s ws m))"
proof (induction s ws m rule: raise_read_monitors.induct)
  case (1 s m)
  show ?case using act_0[of "strm m s"] by (auto intro: exI[of _ 0])
next
  case (2 s walk ws m)
  have n: "\<exists>a. strm m s = act a (strm m s)" by (metis act_0)
  have aa: "act a (act b t) = act (b OR a) t" for a b t by (simp add: act_def or.assoc)
  define m1 where "m1 = mod_strm s (act MOS_ACT_READ_DATA) (m\<lparr>mlisteners := (mlisteners m)(
      ms_listener (sk_mon (msmap m walk)) := (mlisteners m (ms_listener (sk_mon (msmap m walk))))\<lparr>ml_eq :=
        snd (eq_enq (ml_eq (mlisteners m (ms_listener (sk_mon (msmap m walk)))))
          \<lparr>ev_sockid = ev_sockid (eq_events (ml_eq (mlisteners m (ms_listener (sk_mon (msmap m walk))))) !
               nat (eq_end (ml_eq (mlisteners m (ms_listener (sk_mon (msmap m walk))))))),
           ev_events = MOS_EPOLLIN, ev_data = of_nat s\<rparr>)\<rparr>)\<rparr>)"
  have m1: "strm m1 s = act MOS_ACT_READ_DATA (strm m s)" "only s m m1"
    "lists_ok cfg L m \<Longrightarrow> lists_ok cfg L m1"
    by (simp_all add: m1_def only_def lists_ok_mod_strm)
  show ?case
  proof (cases "actions (strm m s) AND MOS_ACT_READ_DATA \<noteq> 0
      \<or> eq_num_events (ml_eq (mlisteners m (ms_listener (sk_mon (msmap m walk)))))
        \<ge> eq_size (ml_eq (mlisteners m (ms_listener (sk_mon (msmap m walk)))))")
    case True
    then have "raise_read_monitors s (walk # ws) m = m" by (auto simp: Let_def)
    then show ?thesis using n by auto
  next
    case False
    then have r: "raise_read_monitors s (walk # ws) m = raise_read_monitors s ws m1"
      by (simp add: Let_def m1_def)
    have "only s m1 (raise_read_monitors s ws m1) \<and> (\<exists>a. strm (raise_read_monitors s ws m1) s = act a (strm m1 s))
       \<and> (lists_ok cfg L m1 \<longrightarrow> lists_ok cfg L (raise_read_monitors s ws m1))"
      using 2 False unfolding m1_def by simp
    then show ?thesis unfolding r m1(1) aa using m1(2,3) only_trans by blast
  qed
qed

lemma RaiseReadEvent_cases:
  "RaiseReadEvent s m = m
   \<or> RaiseReadEvent s m = snd (AddEpollEvent MOS_EVENT_QUEUE (the (socket (strm m s))) MOS_EPOLLIN m)
   \<or> RaiseReadEvent s m = raise_read_monitors s (map fst (msocks (strm m s))) m"
  by (simp add: RaiseReadEvent_def Let_def split: option.split)

lemma RaiseReadEvent_conj:
  "only s m (RaiseReadEvent s m) \<and> (\<exists>a. strm (RaiseReadEvent s m) s = act a (strm m s))
   \<and> (lists_ok cfg L m \<longrightarrow> lists_ok cfg L (RaiseReadEvent s m))"
proof -
  have n: "\<exists>a. strm m s = act a (strm m s)" by (metis act_0)
  consider (none) "RaiseReadEvent s m = m"
    | (sock) sk where "RaiseReadEvent s m = snd (AddEpollEvent MOS_EVENT_QUEUE sk MOS_EPOLLIN m)"
    | (mon) ws where "RaiseReadEvent s m = raise_read_monitors s ws m"
    using RaiseReadEvent_cases[of s m] by metis
  then show ?thesis
  proof cases
    case none
    then show ?thesis using n by simp
  next
    case sock
    then show ?thesis using n by (simp add: only_def)
  next
    case mon
    show ?thesis unfolding mon by (rule raise_read_monitors_frame)
  qed
qed

lemmas RaiseReadEvent_frame = RaiseReadEvent_conj[THEN conjunct1]
  RaiseReadEvent_conj[THEN conjunct2, THEN conjunct1]
  RaiseReadEvent_conj[THEN conjunct2, THEN conjunct2, rule_format]

section \<open>List operations change only list membership\<close>

text \<open>Everything about a stream except which lists and timers it is on.\<close>

definition off_lists :: "tcp_stream \<Rightarrow> tcp_stream" where
  "off_lists t = mod_snd (\<lambda>v. v\<lparr>on_control_list := False, on_send_list := False, on_ack_list := False\<rparr>)
     (t\<lparr>on_rto_idx := 0, on_timewait_list := False, on_timeout_list := False\<rparr>)"

definition moved :: "ref \<Rightarrow> mtcp_manager \<Rightarrow> mtcp_manager \<Rightarrow> bool" where
  "moved s m m' \<longleftrightarrow> only s m m' \<and> off_lists (strm m' s) = off_lists (strm m s)"

lemma moved_refl [simp]: "moved s m m"
  by (simp add: moved_def)

lemma moved_trans: "moved s m m1 \<Longrightarrow> moved s m1 m2 \<Longrightarrow> moved s m m2"
  using only_trans by (auto simp: moved_def)

lemma off_lists_upd [simp]:
  "off_lists (mod_snd (\<lambda>v. v\<lparr>on_control_list := b\<rparr>) t) = off_lists t"
  "off_lists (mod_snd (\<lambda>v. v\<lparr>on_send_list := b\<rparr>) t) = off_lists t"
  "off_lists (mod_snd (\<lambda>v. v\<lparr>on_ack_list := b\<rparr>) t) = off_lists t"
  "off_lists (t\<lparr>on_rto_idx := i\<rparr>) = off_lists t"
  "off_lists (t\<lparr>on_timewait_list := b\<rparr>) = off_lists t"
  "off_lists (t\<lparr>on_timeout_list := b\<rparr>) = off_lists t"
  by (simp_all add: off_lists_def mod_snd_def)

lemmas moved_simps = moved_def only_def

lemma moved_enter_control: "moved s m (enter_control cfg s m)"
  unfolding enter_control_def Let_def by (simp add: moved_simps)

lemma moved_RemoveFromControlList: "moved s m (RemoveFromControlList cfg s m)"
  unfolding RemoveFromControlList_def Let_def by (simp add: moved_simps)

lemma moved_AddtoSendList: "moved s m (AddtoSendList cfg s m)"
  unfolding AddtoSendList_def Let_def by (simp add: moved_simps)

lemma moved_RemoveFromSendList: "moved s m (RemoveFromSendList cfg s m)"
  unfolding RemoveFromSendList_def Let_def by (simp add: moved_simps)

lemma moved_AddtoACKList: "moved s m (AddtoACKList cfg s m)"
  unfolding AddtoACKList_def Let_def by (simp add: moved_simps)

lemma moved_RemoveFromACKList: "moved s m (RemoveFromACKList cfg s m)"
  unfolding RemoveFromACKList_def Let_def by (simp add: moved_simps)

lemma moved_AddtoRTOList: "moved s m (AddtoRTOList s m)"
  unfolding AddtoRTOList_def Let_def by (simp add: moved_simps)

lemma moved_RemoveFromRTOList: "moved s m (RemoveFromRTOList s m)"
  unfolding RemoveFromRTOList_def Let_def by (simp add: moved_simps)

lemma moved_RemoveFromTimewaitList: "moved s m (RemoveFromTimewaitList s m)"
  unfolding RemoveFromTimewaitList_def Let_def by (simp add: moved_simps)

lemma moved_AddtoTimeoutList: "moved s m (AddtoTimeoutList s m)"
  unfolding AddtoTimeoutList_def Let_def by (simp add: moved_simps)

lemma moved_RemoveFromTimeoutList: "moved s m (RemoveFromTimeoutList s m)"
  unfolding RemoveFromTimeoutList_def Let_def by (simp add: moved_simps)

lemma moved_UpdateTimeoutList: "moved s m (UpdateTimeoutList s m)"
  unfolding UpdateTimeoutList_def Let_def by (simp add: moved_simps)

lemmas list_ops_moved = moved_enter_control moved_RemoveFromControlList moved_AddtoSendList moved_RemoveFromSendList moved_AddtoACKList moved_RemoveFromACKList moved_AddtoRTOList moved_RemoveFromRTOList moved_RemoveFromTimewaitList moved_AddtoTimeoutList moved_RemoveFromTimeoutList moved_UpdateTimeoutList

text \<open>The timers also write the retransmission count and their deadlines.\<close>

definition core :: "tcp_stream \<Rightarrow> tcp_stream" where
  "core t = mod_rcv (\<lambda>r. r\<lparr>ts_tw_expire := 0\<rparr>) (mod_snd (\<lambda>v. v\<lparr>nrtx := 0, ts_rto := 0\<rparr>) (off_lists t))"

lemma core_proj:
  "msocks (core t) = msocks t"
  "socket (core t) = socket t"
  "stream_id (core t) = stream_id t"
  "stream_type (core t) = stream_type t"
  "saddr (core t) = saddr t"
  "daddr (core t) = daddr t"
  "sport (core t) = sport t"
  "dport (core t) = dport t"
  "actions (core t) = actions t"
  "cb_events (core t) = cb_events t"
  "state (core t) = state t"
  "close_reason (core t) = close_reason t"
  "on_hash_table (core t) = on_hash_table t"
  "is_bound_addr (core t) = is_bound_addr t"
  "need_wnd_adv (core t) = need_wnd_adv t"
  "saw_timestamp (core t) = saw_timestamp t"
  "sack_permit (core t) = sack_permit t"
  "control_list_waiting (core t) = control_list_waiting t"
  "have_reset (core t) = have_reset t"
  "side (core t) = side t"
  "buffer_mgmt (core t) = buffer_mgmt t"
  "status_mgmt (core t) = status_mgmt t"
  "allow_pkt_modification (core t) = allow_pkt_modification t"
  "snd_nxt (core t) = snd_nxt t"
  "rcv_nxt (core t) = rcv_nxt t"
  "last_active_ts (core t) = last_active_ts t"
  "pair_stream (core t) = pair_stream t"
  "rcvvar_chunk (core t) = rcvvar_chunk t"
  "sndvar_chunk (core t) = sndvar_chunk t"
  "rcv_wnd (rcvvar (core t)) = rcv_wnd (rcvvar t)"
  "irs (rcvvar (core t)) = irs (rcvvar t)"
  "snd_wl1 (rcvvar (core t)) = snd_wl1 (rcvvar t)"
  "snd_wl2 (rcvvar (core t)) = snd_wl2 (rcvvar t)"
  "last_ack_seq (rcvvar (core t)) = last_ack_seq (rcvvar t)"
  "dup_acks (rcvvar (core t)) = dup_acks (rcvvar t)"
  "ts_recent (rcvvar (core t)) = ts_recent (rcvvar t)"
  "ts_lastack_rcvd (rcvvar (core t)) = ts_lastack_rcvd (rcvvar t)"
  "ts_last_ts_upd (rcvvar (core t)) = ts_last_ts_upd (rcvvar t)"
  "srtt (rcvvar (core t)) = srtt (rcvvar t)"
  "mdev (rcvvar (core t)) = mdev (rcvvar t)"
  "mdev_max (rcvvar (core t)) = mdev_max (rcvvar t)"
  "rttvar (rcvvar (core t)) = rttvar (rcvvar t)"
  "rtt_seq (rcvvar (core t)) = rtt_seq (rcvvar t)"
  "rcvbuf (rcvvar (core t)) = rcvbuf (rcvvar t)"
  "he_mybucket (rcvvar (core t)) = he_mybucket (rcvvar t)"
  "ip_id (sndvar (core t)) = ip_id (sndvar t)"
  "mss (sndvar (core t)) = mss (sndvar t)"
  "eff_mss (sndvar (core t)) = eff_mss (sndvar t)"
  "wscale_mine (sndvar (core t)) = wscale_mine (sndvar t)"
  "wscale_peer (sndvar (core t)) = wscale_peer (sndvar t)"
  "nif_out (sndvar (core t)) = nif_out (sndvar t)"
  "snd_una (sndvar (core t)) = snd_una (sndvar t)"
  "snd_wnd (sndvar (core t)) = snd_wnd (sndvar t)"
  "peer_wnd (sndvar (core t)) = peer_wnd (sndvar t)"
  "iss (sndvar (core t)) = iss (sndvar t)"
  "fss (sndvar (core t)) = fss (sndvar t)"
  "max_nrtx (sndvar (core t)) = max_nrtx (sndvar t)"
  "rto (sndvar (core t)) = rto (sndvar t)"
  "cwnd (sndvar (core t)) = cwnd (sndvar t)"
  "ssthresh (sndvar (core t)) = ssthresh (sndvar t)"
  "ts_lastack_sent (sndvar (core t)) = ts_lastack_sent (sndvar t)"
  "is_wack (sndvar (core t)) = is_wack (sndvar t)"
  "ack_cnt (sndvar (core t)) = ack_cnt (sndvar t)"
  "on_closeq (sndvar (core t)) = on_closeq (sndvar t)"
  "on_resetq (sndvar (core t)) = on_resetq (sndvar t)"
  "on_closeq_int (sndvar (core t)) = on_closeq_int (sndvar t)"
  "on_resetq_int (sndvar (core t)) = on_resetq_int (sndvar t)"
  "is_fin_sent (sndvar (core t)) = is_fin_sent (sndvar t)"
  "is_fin_ackd (sndvar (core t)) = is_fin_ackd (sndvar t)"
  "sndbuf (sndvar (core t)) = sndbuf (sndvar t)"
  by (simp_all add: core_def off_lists_def mod_rcv_def mod_snd_def)

lemma core_fields:
  assumes "core t' = core t"
  shows
    "msocks t' = msocks t"
    and "socket t' = socket t"
    and "stream_id t' = stream_id t"
    and "stream_type t' = stream_type t"
    and "saddr t' = saddr t"
    and "daddr t' = daddr t"
    and "sport t' = sport t"
    and "dport t' = dport t"
    and "actions t' = actions t"
    and "cb_events t' = cb_events t"
    and "state t' = state t"
    and "close_reason t' = close_reason t"
    and "on_hash_table t' = on_hash_table t"
    and "is_bound_addr t' = is_bound_addr t"
    and "need_wnd_adv t' = need_wnd_adv t"
    and "saw_timestamp t' = saw_timestamp t"
    and "sack_permit t' = sack_permit t"
    and "control_list_waiting t' = control_list_waiting t"
    and "have_reset t' = have_reset t"
    and "side t' = side t"
    and "buffer_mgmt t' = buffer_mgmt t"
    and "status_mgmt t' = status_mgmt t"
    and "allow_pkt_modification t' = allow_pkt_modification t"
    and "snd_nxt t' = snd_nxt t"
    and "rcv_nxt t' = rcv_nxt t"
    and "last_active_ts t' = last_active_ts t"
    and "pair_stream t' = pair_stream t"
    and "rcvvar_chunk t' = rcvvar_chunk t"
    and "sndvar_chunk t' = sndvar_chunk t"
    and "rcv_wnd (rcvvar t') = rcv_wnd (rcvvar t)"
    and "irs (rcvvar t') = irs (rcvvar t)"
    and "snd_wl1 (rcvvar t') = snd_wl1 (rcvvar t)"
    and "snd_wl2 (rcvvar t') = snd_wl2 (rcvvar t)"
    and "last_ack_seq (rcvvar t') = last_ack_seq (rcvvar t)"
    and "dup_acks (rcvvar t') = dup_acks (rcvvar t)"
    and "ts_recent (rcvvar t') = ts_recent (rcvvar t)"
    and "ts_lastack_rcvd (rcvvar t') = ts_lastack_rcvd (rcvvar t)"
    and "ts_last_ts_upd (rcvvar t') = ts_last_ts_upd (rcvvar t)"
    and "srtt (rcvvar t') = srtt (rcvvar t)"
    and "mdev (rcvvar t') = mdev (rcvvar t)"
    and "mdev_max (rcvvar t') = mdev_max (rcvvar t)"
    and "rttvar (rcvvar t') = rttvar (rcvvar t)"
    and "rtt_seq (rcvvar t') = rtt_seq (rcvvar t)"
    and "rcvbuf (rcvvar t') = rcvbuf (rcvvar t)"
    and "he_mybucket (rcvvar t') = he_mybucket (rcvvar t)"
    and "ip_id (sndvar t') = ip_id (sndvar t)"
    and "mss (sndvar t') = mss (sndvar t)"
    and "eff_mss (sndvar t') = eff_mss (sndvar t)"
    and "wscale_mine (sndvar t') = wscale_mine (sndvar t)"
    and "wscale_peer (sndvar t') = wscale_peer (sndvar t)"
    and "nif_out (sndvar t') = nif_out (sndvar t)"
    and "snd_una (sndvar t') = snd_una (sndvar t)"
    and "snd_wnd (sndvar t') = snd_wnd (sndvar t)"
    and "peer_wnd (sndvar t') = peer_wnd (sndvar t)"
    and "iss (sndvar t') = iss (sndvar t)"
    and "fss (sndvar t') = fss (sndvar t)"
    and "max_nrtx (sndvar t') = max_nrtx (sndvar t)"
    and "rto (sndvar t') = rto (sndvar t)"
    and "cwnd (sndvar t') = cwnd (sndvar t)"
    and "ssthresh (sndvar t') = ssthresh (sndvar t)"
    and "ts_lastack_sent (sndvar t') = ts_lastack_sent (sndvar t)"
    and "is_wack (sndvar t') = is_wack (sndvar t)"
    and "ack_cnt (sndvar t') = ack_cnt (sndvar t)"
    and "on_closeq (sndvar t') = on_closeq (sndvar t)"
    and "on_resetq (sndvar t') = on_resetq (sndvar t)"
    and "on_closeq_int (sndvar t') = on_closeq_int (sndvar t)"
    and "on_resetq_int (sndvar t') = on_resetq_int (sndvar t)"
    and "is_fin_sent (sndvar t') = is_fin_sent (sndvar t)"
    and "is_fin_ackd (sndvar t') = is_fin_ackd (sndvar t)"
    and "sndbuf (sndvar t') = sndbuf (sndvar t)"
  using assms by (metis core_proj)+

lemma core_upd [simp]:
  "core (mod_snd (\<lambda>v. v\<lparr>nrtx := n\<rparr>) t) = core t"
  "core (mod_snd (\<lambda>v. v\<lparr>ts_rto := x + rto v\<rparr>) t) = core t"
  "core (mod_rcv (\<lambda>r. r\<lparr>ts_tw_expire := x\<rparr>) t) = core t"
  "core (t\<lparr>on_rto_idx := i\<rparr>) = core t"
  "core (t\<lparr>on_timewait_list := b\<rparr>) = core t"
  by (simp_all add: core_def off_lists_def mod_rcv_def mod_snd_def)

definition timed :: "ref \<Rightarrow> mtcp_manager \<Rightarrow> mtcp_manager \<Rightarrow> bool" where
  "timed s m m' \<longleftrightarrow> only s m m' \<and> core (strm m' s) = core (strm m s)"

lemma timed_moved: "moved s m m' \<Longrightarrow> timed s m m'"
  by (simp add: moved_def timed_def core_def mod_rcv_def mod_snd_def)

lemma timed_refl [simp]: "timed s m m"
  by (simp add: timed_def)

lemma timed_trans: "timed s m m1 \<Longrightarrow> timed s m1 m2 \<Longrightarrow> timed s m m2"
  using only_trans by (auto simp: timed_def)

lemma timed_only: "timed s m m' \<Longrightarrow> only s m m'"
  by (simp add: timed_def)

lemmas timed_fields = core_fields[OF timed_def[THEN iffD1, THEN conjunct2]]

lemma timed_AddtoTimewaitList: "timed s m (AddtoTimewaitList cfg s ts m)"
  unfolding AddtoTimewaitList_def RemoveFromRTOList_def Let_def by (simp add: timed_def only_def)

lemma timed_UpdateRetransmissionTimer: "timed s m (UpdateRetransmissionTimer s ts m)"
proof -
  define m1 where "m1 = mod_strm s (mod_snd (\<lambda>v. v\<lparr>nrtx := 0\<rparr>)) m"
  define m2 where "m2 = (if on_rto_idx (strm m1 s) \<ge> 0 then RemoveFromRTOList s m1 else m1)"
  have m1: "timed s m m1" by (simp add: m1_def timed_def)
  have "timed s m1 m2" using timed_moved[OF moved_RemoveFromRTOList] by (simp add: m2_def)
  then have m2: "timed s m m2" by (rule timed_trans[OF m1])
  have "timed s m2 (AddtoRTOList s (mod_strm s (mod_snd (\<lambda>v. v\<lparr>ts_rto := ts + rto v\<rparr>)) m2))"
    by (rule timed_trans[OF _ timed_moved[OF moved_AddtoRTOList]]) (simp add: timed_def)
  then show ?thesis using m2 timed_trans[OF m2]
    unfolding UpdateRetransmissionTimer_def Let_def m1_def[symmetric] m2_def[symmetric] by simp
qed

lemma only_EnqueueACK: "only s m (EnqueueACK cfg s opt m)"
  by (simp add: EnqueueACK_def AddtoACKList_def only_def)

section \<open>Steps that leave the connection itself alone\<close>

text \<open>
  What decides how the connection goes on.  A quiet step changes none of it, no other
  stream and no receive buffer's memory, and keeps lists and flags in agreement; only a
  monitor that is resilient to packet loss (\<open>BE_RESILIENT_TO_PACKET_DROP\<close>) may move \<open>rcv_nxt\<close>.
\<close>

definition conn_view :: "tcp_stream \<Rightarrow> _" where
  "conn_view t = ((state t, close_reason t, cb_events t, have_reset t),
     (socket t, stream_type t, side t, buffer_mgmt t, pair_stream t, msocks t, on_hash_table t),
     (fss (sndvar t), is_fin_sent (sndvar t), iss (sndvar t), rcvbuf (rcvvar t), irs (rcvvar t)),
     rcv_wnd (rcvvar t))"

definition quiet :: "mos_config \<Rightarrow> ref \<Rightarrow> mtcp_manager \<Rightarrow> mtcp_manager \<Rightarrow> bool" where
  "quiet cfg s m m' \<longleftrightarrow> only s m m' \<and> conn_view (strm m' s) = conn_view (strm m s)
     \<and> (be_resilient cfg \<or> rcv_nxt (strm m' s) = rcv_nxt (strm m s)) \<and> bufseg_pool m' = bufseg_pool m
     \<and> (\<forall>L. s \<in> L \<longrightarrow> lists_ok cfg L m \<longrightarrow> lists_ok cfg L m')"

lemma quiet_refl [simp]: "quiet cfg s m m"
  by (simp add: quiet_def)

lemma quiet_trans: "quiet cfg s m m1 \<Longrightarrow> quiet cfg s m1 m2 \<Longrightarrow> quiet cfg s m m2"
  unfolding quiet_def using only_trans by metis

lemma quietD:
  assumes "quiet cfg s m m'"
  shows "only s m m'" and "conn_view (strm m' s) = conn_view (strm m s)"
    and "s \<in> L \<Longrightarrow> lists_ok cfg L m \<Longrightarrow> lists_ok cfg L m'"
    and "\<not> be_resilient cfg \<Longrightarrow> rcv_nxt (strm m' s) = rcv_nxt (strm m s)" and "bufseg_pool m' = bufseg_pool m"
  using assms by (auto simp: quiet_def)

lemma quiet_mod_strm:
  assumes "list_view (f (strm m s)) = list_view (strm m s)" "conn_view (f (strm m s)) = conn_view (strm m s)"
    and "rcv_nxt (f (strm m s)) = rcv_nxt (strm m s) \<or> be_resilient cfg"
  shows "quiet cfg s m (mod_strm s f m)"
  using assms by (auto simp add: quiet_def lists_ok_mod_strm)

lemma quiet_timed:
  assumes t: "timed s m m'" and "bufseg_pool m' = bufseg_pool m" and "\<And>L. s \<in> L \<Longrightarrow> lists_ok cfg L m \<Longrightarrow> lists_ok cfg L m'"
  shows "quiet cfg s m m'"
  using assms timed_fields[OF t] timed_only[OF t] by (simp add: quiet_def conn_view_def)

lemma quiet_part:
  assumes "lists_part m' = lists_part m" "bufseg_pool m' = bufseg_pool m"
  shows "quiet cfg s m m'"
  using strm_part[OF assms(1)] lists_ok_part[OF assms(1)] assms(2) by (simp add: quiet_def only_def)

lemma list_view_upd [simp]:
  "list_view (t\<lparr>msocks := x0\<rparr>) = list_view t"
  "list_view (t\<lparr>socket := x1\<rparr>) = list_view t"
  "list_view (t\<lparr>stream_id := x2\<rparr>) = list_view t"
  "list_view (t\<lparr>stream_type := x3\<rparr>) = list_view t"
  "list_view (t\<lparr>saddr := x4\<rparr>) = list_view t"
  "list_view (t\<lparr>daddr := x5\<rparr>) = list_view t"
  "list_view (t\<lparr>sport := x6\<rparr>) = list_view t"
  "list_view (t\<lparr>dport := x7\<rparr>) = list_view t"
  "list_view (t\<lparr>actions := x8\<rparr>) = list_view t"
  "list_view (t\<lparr>cb_events := x9\<rparr>) = list_view t"
  "list_view (t\<lparr>state := x10\<rparr>) = list_view t"
  "list_view (t\<lparr>close_reason := x11\<rparr>) = list_view t"
  "list_view (t\<lparr>on_hash_table := x12\<rparr>) = list_view t"
  "list_view (t\<lparr>is_bound_addr := x13\<rparr>) = list_view t"
  "list_view (t\<lparr>need_wnd_adv := x14\<rparr>) = list_view t"
  "list_view (t\<lparr>saw_timestamp := x15\<rparr>) = list_view t"
  "list_view (t\<lparr>sack_permit := x16\<rparr>) = list_view t"
  "list_view (t\<lparr>control_list_waiting := x17\<rparr>) = list_view t"
  "list_view (t\<lparr>have_reset := x18\<rparr>) = list_view t"
  "list_view (t\<lparr>side := x19\<rparr>) = list_view t"
  "list_view (t\<lparr>buffer_mgmt := x20\<rparr>) = list_view t"
  "list_view (t\<lparr>status_mgmt := x21\<rparr>) = list_view t"
  "list_view (t\<lparr>allow_pkt_modification := x22\<rparr>) = list_view t"
  "list_view (t\<lparr>snd_nxt := x23\<rparr>) = list_view t"
  "list_view (t\<lparr>rcv_nxt := x24\<rparr>) = list_view t"
  "list_view (t\<lparr>last_active_ts := x25\<rparr>) = list_view t"
  "list_view (t\<lparr>pair_stream := x26\<rparr>) = list_view t"
  "list_view (t\<lparr>rcvvar := x27\<rparr>) = list_view t"
  by (simp_all add: list_view_def)

lemma conn_view_act [simp]: "conn_view (act a t) = conn_view t"
  by (simp add: conn_view_def)

lemma conn_view_snd:
  "fss (f (sndvar t)) = fss (sndvar t) \<Longrightarrow> is_fin_sent (f (sndvar t)) = is_fin_sent (sndvar t) \<Longrightarrow>
   iss (f (sndvar t)) = iss (sndvar t) \<Longrightarrow> conn_view (mod_snd f t) = conn_view t"
  by (simp add: conn_view_def)

lemma conn_view_rcv:
  "rcvbuf (f (rcvvar t)) = rcvbuf (rcvvar t) \<Longrightarrow> irs (f (rcvvar t)) = irs (rcvvar t) \<Longrightarrow>
   rcv_wnd (f (rcvvar t)) = rcv_wnd (rcvvar t) \<Longrightarrow> conn_view (mod_rcv f t) = conn_view t"
  by (simp add: conn_view_def)

lemma quiet_act: "quiet cfg s m (mod_strm s (act a) m)"
  by (rule quiet_mod_strm) simp_all

lemma AddEpollEvent_pool [simp]: "bufseg_pool (snd (AddEpollEvent qt sk ev m)) = bufseg_pool m"
  by (simp add: AddEpollEvent_def Let_def mod_sock_def split: option.split prod.split)

lemma RaiseReadEvent_pool [simp]: "bufseg_pool (RaiseReadEvent s m) = bufseg_pool m"
proof -
  have "bufseg_pool (raise_read_monitors s ws m) = bufseg_pool m" for ws
    by (induction s ws m rule: raise_read_monitors.induct) (simp_all add: Let_def)
  then show ?thesis using RaiseReadEvent_cases[of s m] by (metis AddEpollEvent_pool)
qed

lemma raise_pool [simp]:
  "bufseg_pool (RaiseWriteEvent s m) = bufseg_pool m"
  "bufseg_pool (RaiseCloseEvent s m) = bufseg_pool m"
  "bufseg_pool (snd (RaiseErrorEvent s m)) = bufseg_pool m"
  "bufseg_pool (HandleCallback h sk sd ev m) = bufseg_pool m"
  by (simp_all add: RaiseWriteEvent_def RaiseCloseEvent_def RaiseErrorEvent_def HandleCallback_def Let_def
      split: option.split)

lemma list_ops_pool [simp]:
  "bufseg_pool (RemoveFromSendList cfg s m) = bufseg_pool m"
  "bufseg_pool (AddtoRTOList s m) = bufseg_pool m"
  "bufseg_pool (RemoveFromRTOList s m) = bufseg_pool m"
  "bufseg_pool (AddtoTimewaitList cfg s ts m) = bufseg_pool m"
  "bufseg_pool (RemoveFromTimewaitList s m) = bufseg_pool m"
  "bufseg_pool (AddtoTimeoutList s m) = bufseg_pool m"
  "bufseg_pool (UpdateTimeoutList s m) = bufseg_pool m"
  by (simp_all add: RemoveFromSendList_def AddtoRTOList_def RemoveFromRTOList_def AddtoTimewaitList_def
      RemoveFromTimewaitList_def AddtoTimeoutList_def UpdateTimeoutList_def Let_def mod_sender_def mod_rto_list_def
      split: option.split)

lemma UpdateRetransmissionTimer_pool [simp]: "bufseg_pool (UpdateRetransmissionTimer s ts m) = bufseg_pool m"
  by (simp add: UpdateRetransmissionTimer_def Let_def)

lemma quiet_ops:
  shows "quiet cfg s m (RaiseWriteEvent s m)" and "quiet cfg s m (RaiseCloseEvent s m)"
    and "quiet cfg s m (snd (RaiseErrorEvent s m))" and "quiet cfg s m (RaiseReadEvent s m)"
    and "quiet cfg s m (snd (AddEpollEvent qt sk ev m))"
    and "quiet cfg s m (HandleCallback h sk sd ev m)"
    and "quiet cfg s m (RemoveFromSendList cfg s m)" and "quiet cfg s m (RemoveFromRTOList s m)"
    and "quiet cfg s m (AddtoTimewaitList cfg s ts m)" and "quiet cfg s m (RemoveFromTimewaitList s m)"
    and "quiet cfg s m (AddtoTimeoutList s m)" and "quiet cfg s m (UpdateTimeoutList s m)"
    and "quiet cfg s m (UpdateRetransmissionTimer s ts m)"
proof -
  show "quiet cfg s m (RaiseWriteEvent s m)" "quiet cfg s m (RaiseCloseEvent s m)"
    "quiet cfg s m (snd (RaiseErrorEvent s m))" "quiet cfg s m (snd (AddEpollEvent qt sk ev m))"
    "quiet cfg s m (HandleCallback h sk sd ev m)"
    by (rule quiet_part; simp)+
  show "quiet cfg s m (RaiseReadEvent s m)"
  proof -
    obtain a where "strm (RaiseReadEvent s m) s = act a (strm m s)" using RaiseReadEvent_frame(2) by blast
    then show ?thesis using RaiseReadEvent_frame(1,3) by (simp add: quiet_def)
  qed
  show "quiet cfg s m (RemoveFromSendList cfg s m)" "quiet cfg s m (RemoveFromRTOList s m)"
    "quiet cfg s m (RemoveFromTimewaitList s m)"
    "quiet cfg s m (AddtoTimeoutList s m)" "quiet cfg s m (UpdateTimeoutList s m)"
    by (rule quiet_timed[OF timed_moved]; (simp; fail)?; blast intro: list_ops_moved)+
  show "quiet cfg s m (AddtoTimewaitList cfg s ts m)" by (rule quiet_timed[OF timed_AddtoTimewaitList]) (simp, blast)
  show "quiet cfg s m (UpdateRetransmissionTimer s ts m)"
    by (rule quiet_timed[OF timed_UpdateRetransmissionTimer]) (simp, blast)
qed

end
