(* ===== verification/Tcp_Ack.thy ===== *)
theory Tcp_Ack
  imports Stream_Frame
begin

text \<open>
  Acknowledgements: \<open>EstimateRTT\<close> and \<open>ProcessACK\<close> of \<open>tcp_in.c\<close>.  A trap of the
  machine (division by zero) or a failed \<open>assert\<close> is \<open>None\<close>.  A window scale of 32 or more
  is an undefined shift in C; here it gives 0.
\<close>

section \<open>Round-trip time\<close>

text \<open>\<open>m\<close> is a \<open>long\<close>; the fields are unsigned 32-bit words, and \<open>TCP_RTO_MIN\<close> is 0.\<close>

definition rtt_dev :: "int \<Rightarrow> tcp_recv_vars \<Rightarrow> tcp_recv_vars" where
  "rtt_dev m r =
     (let m = (if m < 0
               then let m = - m - uint (drop_bit 2 (mdev r)) in (if m > 0 then m div 8 else m)
               else m - uint (drop_bit 2 (mdev r)))
      in r\<lparr>mdev := mdev r + word_of_int m\<rparr>)"

definition rtt_max :: "tcp_recv_vars \<Rightarrow> tcp_recv_vars" where
  "rtt_max r =
     (if mdev r > mdev_max r
      then r\<lparr>mdev_max := mdev r, rttvar := (if mdev r > rttvar r then mdev r else rttvar r)\<rparr>
      else r)"

definition rtt_epoch :: "u32 \<Rightarrow> u32 \<Rightarrow> tcp_recv_vars \<Rightarrow> tcp_recv_vars" where
  "rtt_epoch una nxt r =
     (if TCP_SEQ_GT una (rtt_seq r)
      then r\<lparr>rttvar := (if mdev_max r < rttvar r
                         then rttvar r - drop_bit 2 (rttvar r - mdev_max r) else rttvar r),
             rtt_seq := nxt, mdev_max := 0\<rparr>
      else r)"

definition rtt_update :: "u32 \<Rightarrow> u32 \<Rightarrow> int \<Rightarrow> tcp_recv_vars \<Rightarrow> tcp_recv_vars" where
  "rtt_update una nxt m r =
     (let err = m - uint (drop_bit 3 (srtt r))
      in rtt_epoch una nxt (rtt_max (rtt_dev err (r\<lparr>srtt := srtt r + word_of_int err\<rparr>))))"

definition EstimateRTT :: "u32 \<Rightarrow> tcp_stream \<Rightarrow> tcp_stream" where
  "EstimateRTT mrtt t =
     (let m = (if uint mrtt = 0 then 1 else uint mrtt) in
      mod_rcv (\<lambda>r.
        if srtt r \<noteq> 0 then rtt_update (snd_una (sndvar t)) (snd_nxt t) m r
        else r\<lparr>srtt := word_of_int (m * 8), mdev := word_of_int (m * 2),
               mdev_max := word_of_int (m * 2), rttvar := word_of_int (m * 2), rtt_seq := snd_nxt t\<rparr>) t)"

section \<open>The acknowledgement\<close>

text \<open>The acknowledgement of our own FIN counts for the byte before it.\<close>

definition ack_of_data :: "u32 \<Rightarrow> tcp_stream \<Rightarrow> u32" where
  "ack_of_data ack_seq t =
     (if state t \<in> {TCP_ST_FIN_WAIT_1, TCP_ST_FIN_WAIT_2, TCP_ST_CLOSING, TCP_ST_CLOSE_WAIT, TCP_ST_LAST_ACK}
         \<and> is_fin_sent (sndvar t) \<and> ack_seq = fss (sndvar t) + 1
      then ack_seq - 1 else ack_seq)"

definition ack_update_window :: "ref \<Rightarrow> u32 \<Rightarrow> u32 \<Rightarrow> u32 \<Rightarrow> mtcp_manager \<Rightarrow> mtcp_manager" where
  "ack_update_window s pseq ack_seq cwindow m =
     (let t = strm m s; r = rcvvar t in
      if TCP_SEQ_LT (snd_wl1 r) pseq
         \<or> snd_wl1 r = pseq \<and> TCP_SEQ_LT (snd_wl2 r) ack_seq
         \<or> snd_wl2 r = ack_seq \<and> cwindow > peer_wnd (sndvar t)
      then let cwindow_prev = peer_wnd (sndvar t);
               m = mod_strm s (\<lambda>t. mod_snd (\<lambda>v. v\<lparr>peer_wnd := cwindow\<rparr>)
                     (mod_rcv (\<lambda>r. r\<lparr>snd_wl1 := pseq, snd_wl2 := ack_seq\<rparr>) t)) m
           in if cwindow_prev < snd_nxt t - snd_una (sndvar t) \<and> cwindow \<ge> snd_nxt t - snd_una (sndvar t)
                 \<and> HAS_STREAM_TYPE t MOS_SOCK_STREAM
              then RaiseWriteEvent s m else m
      else m)"

text \<open>The guard against the wrap-around of \<open>dup_acks\<close> compares after promotion: it always holds.\<close>

definition is_dup_ack :: "u32 \<Rightarrow> u32 \<Rightarrow> pkt_ctx \<Rightarrow> tcp_stream \<Rightarrow> bool" where
  "is_dup_ack right_wnd_edge ack_seq p t \<longleftrightarrow>
     TCP_SEQ_LT ack_seq (snd_nxt t) \<and> ack_seq = last_ack_seq (rcvvar t) \<and> p_payloadlen p = 0
     \<and> snd_wl2 (rcvvar t) + peer_wnd (sndvar t) = right_wnd_edge"

definition ack_count_dup :: "bool \<Rightarrow> u32 \<Rightarrow> tcp_stream \<Rightarrow> tcp_stream" where
  "ack_count_dup dup ack_seq =
     mod_rcv (\<lambda>r. if dup
        then (if uint (dup_acks r) + 1 > uint (dup_acks r) then r\<lparr>dup_acks := dup_acks r + 1\<rparr> else r)
        else r\<lparr>dup_acks := 0, last_ack_seq := ack_seq\<rparr>)"

definition ack_fast_rtx :: "bool \<Rightarrow> u32 \<Rightarrow> tcp_stream \<Rightarrow> tcp_stream" where
  "ack_fast_rtx dup ack_seq t =
     (if dup \<and> dup_acks (rcvvar t) = 3 then
        let t = (if TCP_SEQ_LT ack_seq (snd_nxt t) then t\<lparr>snd_nxt := ack_seq\<rparr> else t)
        in act MOS_ACT_SEND_DATA (mod_snd (\<lambda>v.
             let half = min (cwnd v) (peer_wnd v) div 2;
                 thresh = (if half < 2 * ucast (mss v) then 2 * ucast (mss v) else half)
             in v\<lparr>ssthresh := thresh, cwnd := thresh + 3 * ucast (mss v),
                  nrtx := (if nrtx v < TCP_MAX_RTX then nrtx v + 1 else nrtx v)\<rparr>) t)
      else if dup_acks (rcvvar t) > 3 then
        mod_snd (\<lambda>v. if cwnd v + ucast (mss v) > cwnd v then v\<lparr>cwnd := cwnd v + ucast (mss v)\<rparr> else v) t
      else t)"

definition ack_recover :: "mos_config \<Rightarrow> ref \<Rightarrow> u32 \<Rightarrow> mtcp_manager \<Rightarrow> mtcp_manager" where
  "ack_recover cfg s ack_seq m =
     (if TCP_SEQ_GT ack_seq (snd_nxt (strm m s)) then
        let m = mod_strm s (\<lambda>t. t\<lparr>snd_nxt := ack_seq\<rparr>) m in
        if (case sndbuf (sndvar (strm m s)) of Some b \<Rightarrow> sb_len b = 0 | None \<Rightarrow> False)
           \<and> HAS_STREAM_TYPE (strm m s) MOS_SOCK_STREAM
        then RemoveFromSendList cfg s m else m
      else m)"

text \<open>\<open>packets\<close> is 16 bits wide, the products are taken at 32 bits.\<close>

definition ack_cwnd :: "u32 \<Rightarrow> tcp_stream \<Rightarrow> tcp_stream option" where
  "ack_cwnd rmlen t =
     (let v = sndvar t; wmss = ucast (mss v) :: u32 in
      if eff_mss v = 0 then None
      else let packets = ucast (ucast (rmlen div ucast (eff_mss v)) :: u16) :: u32 in
        if state t < TCP_ST_ESTABLISHED then Some t
        else if cwnd v < ssthresh v
        then Some (if cwnd v + wmss > cwnd v
                   then mod_snd (\<lambda>v. v\<lparr>cwnd := cwnd v + wmss * packets\<rparr>) t else t)
        else if cwnd v = 0 then None
        else let new_cwnd = cwnd v + packets * wmss * wmss div cwnd v
             in Some (if new_cwnd > cwnd v then mod_snd (\<lambda>v. v\<lparr>cwnd := new_cwnd\<rparr>) t else t))"

definition ack_rtt :: "u32 \<Rightarrow> tcp_stream \<Rightarrow> tcp_stream option" where
  "ack_rtt cur_ts t =
     (if saw_timestamp t then
        let t = EstimateRTT (cur_ts - ts_lastack_rcvd (rcvvar t)) t;
            t = mod_snd (\<lambda>v. v\<lparr>rto := drop_bit 3 (srtt (rcvvar t)) + rttvar (rcvvar t)\<rparr>) t
        in (if rto (sndvar t) > 0 then Some t else None)
      else Some t)"

text \<open>Removing the acknowledged bytes; \<open>b\<close> is the send buffer.\<close>

definition ack_remove :: "ref \<Rightarrow> tcp_send_buffer \<Rightarrow> u32 \<Rightarrow> u32 \<Rightarrow> u32 \<Rightarrow> mtcp_manager \<Rightarrow> mtcp_manager" where
  "ack_remove s b rmlen ack_seq cur_ts m =
     (let str = HAS_STREAM_TYPE (strm m s) MOS_SOCK_STREAM;
          b = (if str then snd (SBRemove b (ucast rmlen)) else b);
          snd_wnd_prev = snd_wnd (sndvar (strm m s));
          m = mod_strm s (mod_snd (\<lambda>v. v\<lparr>sndbuf := Some b, snd_una := ack_seq, snd_wnd := sb_size b - sb_len b\<rparr>)) m;
          m = (if snd_wnd_prev = 0 \<and> str then RaiseWriteEvent s m else m)
      in if str then UpdateRetransmissionTimer s cur_ts m else m)"

definition ack_new_data :: "ref \<Rightarrow> u32 \<Rightarrow> u32 \<Rightarrow> mtcp_manager \<Rightarrow> mtcp_manager option" where
  "ack_new_data s ack_seq cur_ts m =
     (case sndbuf (sndvar (strm m s)) of
        None \<Rightarrow> None
      | Some b \<Rightarrow>
         if TCP_SEQ_GEQ (sb_head_seq b) ack_seq then Some m
         else let rmlen = ack_seq - sb_head_seq b in
           if rmlen = 0 then Some m
           else (case ack_rtt cur_ts (strm m s) of
               None \<Rightarrow> None
             | Some t \<Rightarrow> (case ack_cwnd rmlen t of
                 None \<Rightarrow> None
               | Some t \<Rightarrow> Some (ack_remove s b rmlen ack_seq cur_ts (mod_strm s (\<lambda>_. t) m)))))"

definition ProcessACK :: "mos_config \<Rightarrow> ref \<Rightarrow> pkt_ctx \<Rightarrow> mtcp_manager \<Rightarrow> mtcp_manager option" where
  "ProcessACK cfg s p m =
     (let t = strm m s; v = sndvar t;
          cwindow = (if th_syn (p_tcph p) then ucast (p_window p)
                     else push_bit (unat (wscale_peer v)) (ucast (p_window p)));
          right_wnd_edge = peer_wnd v + snd_wl2 (rcvvar t);
          ack_seq = ack_of_data (p_ack_seq p) t
      in case sndbuf v of
           None \<Rightarrow> None
         | Some b \<Rightarrow>
            if TCP_SEQ_GT ack_seq (sb_head_seq b + sb_len b) then Some m
            else let seg_end = p_seq p + ucast (p_payloadlen p);
                     m = (if be_resilient cfg \<and> TCP_SEQ_GT seg_end (rcv_nxt t)
                          then mod_strm s (\<lambda>t. t\<lparr>rcv_nxt := seg_end\<rparr>) m else m);
                     m = ack_update_window s (p_seq p) ack_seq cwindow m;
                     dup = is_dup_ack right_wnd_edge ack_seq p (strm m s);
                     m = mod_strm s (\<lambda>t. ack_fast_rtx dup ack_seq (ack_count_dup dup ack_seq t)) m;
                     m = ack_recover cfg s ack_seq m
                 in ack_new_data s ack_seq (p_cur_ts p) m)"

section \<open>What an acknowledgement leaves alone\<close>

lemma ack_stream_views:
  "list_view (ack_count_dup dup a t) = list_view t" "conn_view (ack_count_dup dup a t) = conn_view t"
  "list_view (ack_fast_rtx dup a t) = list_view t" "conn_view (ack_fast_rtx dup a t) = conn_view t"
  "list_view (EstimateRTT r t) = list_view t" "conn_view (EstimateRTT r t) = conn_view t"
  "rcv_nxt (ack_count_dup dup a t) = rcv_nxt t" "rcv_nxt (ack_fast_rtx dup a t) = rcv_nxt t"
  "rcv_nxt (EstimateRTT r t) = rcv_nxt t"
proof -
  have u: "rcvbuf (rtt_update a b c r) = rcvbuf r \<and> irs (rtt_update a b c r) = irs r \<and> rcv_wnd (rtt_update a b c r) = rcv_wnd r" for a b c r
    by (simp add: rtt_update_def rtt_epoch_def rtt_max_def rtt_dev_def Let_def)
  show "list_view (ack_count_dup dup a t) = list_view t" "conn_view (ack_count_dup dup a t) = conn_view t"
    by (simp_all add: ack_count_dup_def conn_view_rcv)
  show "list_view (ack_fast_rtx dup a t) = list_view t" "conn_view (ack_fast_rtx dup a t) = conn_view t"
    by (simp_all add: ack_fast_rtx_def Let_def list_view_def conn_view_def)
  show "list_view (EstimateRTT r t) = list_view t" "conn_view (EstimateRTT r t) = conn_view t"
    by (simp_all add: EstimateRTT_def Let_def conn_view_rcv u)
  show "rcv_nxt (ack_count_dup dup a t) = rcv_nxt t" "rcv_nxt (ack_fast_rtx dup a t) = rcv_nxt t"
    "rcv_nxt (EstimateRTT r t) = rcv_nxt t"
    by (simp_all add: ack_count_dup_def ack_fast_rtx_def EstimateRTT_def Let_def)
qed

lemma ack_rtt_views:
  "ack_rtt ts t = Some t' \<Longrightarrow> list_view t' = list_view t \<and> conn_view t' = conn_view t \<and> rcv_nxt t' = rcv_nxt t"
  by (auto simp: ack_rtt_def Let_def list_view_snd conn_view_snd ack_stream_views split: if_splits)

lemma ack_cwnd_views:
  "ack_cwnd n t = Some t' \<Longrightarrow> list_view t' = list_view t \<and> conn_view t' = conn_view t \<and> rcv_nxt t' = rcv_nxt t"
  by (auto simp: ack_cwnd_def Let_def list_view_snd conn_view_snd split: if_splits)

lemma quiet_ack_update_window: "quiet cfg s m (ack_update_window s pseq a w m)"
  unfolding ack_update_window_def Let_def
  by (auto intro!: quiet_trans[OF _ quiet_ops(1)] quiet_mod_strm simp: list_view_snd conn_view_snd conn_view_rcv)

lemma quiet_ack_recover: "quiet cfg s m (ack_recover cfg s a m)"
proof -
  have "quiet cfg s m (mod_strm s (\<lambda>t. t\<lparr>snd_nxt := a\<rparr>) m)"
    by (rule quiet_mod_strm) (simp_all add: list_view_def conn_view_def)
  then show ?thesis unfolding ack_recover_def Let_def
    using quiet_trans[OF _ quiet_ops(7)] by auto
qed

lemma quiet_ack_remove: "quiet cfg s m (ack_remove s b n a ts m)"
proof -
  have q: "quiet cfg s m (mod_strm s (mod_snd (\<lambda>v. v\<lparr>sndbuf := x, snd_una := a, snd_wnd := w\<rparr>)) m)" for x w
    by (rule quiet_mod_strm) (simp_all add: list_view_snd conn_view_snd)
  then show ?thesis unfolding ack_remove_def Let_def
    by (auto intro: quiet_trans[OF _ quiet_ops(1)] quiet_trans[OF _ quiet_ops(13)])
qed

lemma quiet_ack_new_data:
  assumes "ack_new_data s a ts m = Some m'"
  shows "quiet cfg s m m'"
proof (cases "m' = m")
  case False
  then obtain b n t1 t2 where st: "ack_rtt ts (strm m s) = Some t1" "ack_cwnd n t1 = Some t2"
    and m': "m' = ack_remove s b n a ts (mod_strm s (\<lambda>_. t2) m)"
    using assms by (auto simp: ack_new_data_def Let_def split: option.splits if_splits)
  have "quiet cfg s m (mod_strm s (\<lambda>_. t2) m)"
    by (rule quiet_mod_strm) (use ack_rtt_views[OF st(1)] ack_cwnd_views[OF st(2)] in simp_all)
  then show ?thesis unfolding m' by (rule quiet_trans[OF _ quiet_ack_remove])
qed simp

text \<open>The stages of \<open>ProcessACK\<close>, named once for the proofs.\<close>

definition ack_prepared :: "mos_config \<Rightarrow> ref \<Rightarrow> pkt_ctx \<Rightarrow> mtcp_manager \<Rightarrow> mtcp_manager" where
  "ack_prepared cfg s p m =
     (let t = strm m s; v = sndvar t;
          cwindow = (if th_syn (p_tcph p) then ucast (p_window p)
                     else push_bit (unat (wscale_peer v)) (ucast (p_window p)));
          right_wnd_edge = peer_wnd v + snd_wl2 (rcvvar t);
          ack_seq = ack_of_data (p_ack_seq p) t;
          seg_end = p_seq p + ucast (p_payloadlen p);
          m = (if be_resilient cfg \<and> TCP_SEQ_GT seg_end (rcv_nxt t)
               then mod_strm s (\<lambda>t. t\<lparr>rcv_nxt := seg_end\<rparr>) m else m);
          m = ack_update_window s (p_seq p) ack_seq cwindow m;
          dup = is_dup_ack right_wnd_edge ack_seq p (strm m s);
          m = mod_strm s (\<lambda>t. ack_fast_rtx dup ack_seq (ack_count_dup dup ack_seq t)) m
      in ack_recover cfg s ack_seq m)"

lemma ProcessACK_stages:
  "ProcessACK cfg s p m = (case sndbuf (sndvar (strm m s)) of
      None \<Rightarrow> None
    | Some b \<Rightarrow> if TCP_SEQ_GT (ack_of_data (p_ack_seq p) (strm m s)) (sb_head_seq b + sb_len b) then Some m
        else ack_new_data s (ack_of_data (p_ack_seq p) (strm m s)) (p_cur_ts p) (ack_prepared cfg s p m))"
  by (simp add: ProcessACK_def ack_prepared_def Let_def split: option.split)

lemma quiet_ack_prepared: "quiet cfg s m (ack_prepared cfg s p m)"
proof -
  have q: "quiet cfg s m (mod_strm s (\<lambda>t. t\<lparr>rcv_nxt := x\<rparr>) m)" if "be_resilient cfg" for x
    by (rule quiet_mod_strm) (simp_all add: list_view_def conn_view_def that)
  have f: "quiet cfg s m (mod_strm s (\<lambda>t. ack_fast_rtx d a (ack_count_dup d a t)) m)" for d a m
    by (rule quiet_mod_strm) (simp_all add: ack_stream_views)
  show ?thesis unfolding ack_prepared_def Let_def
    by (rule quiet_trans[OF _ quiet_ack_recover], rule quiet_trans[OF _ f],
        rule quiet_trans[OF _ quiet_ack_update_window]) (use q in simp)
qed

lemma quiet_ProcessACK:
  assumes "ProcessACK cfg s p m = Some m'"
  shows "quiet cfg s m m'"
  using assms quiet_trans[OF quiet_ack_prepared quiet_ack_new_data]
  by (auto simp: ProcessACK_stages split: option.splits if_splits)

section \<open>The round-trip estimator stays in range\<close>

lemma uint_of_int_u32: "0 \<le> k \<Longrightarrow> k < 2 ^ 32 \<Longrightarrow> uint (word_of_int k :: u32) = k"
  by (simp add: uint_word_of_int)

lemma uint_add_of_int:
  fixes w :: u32
  assumes "0 \<le> uint w + m" "uint w + m < 2 ^ 32"
  shows "uint (w + word_of_int m) = uint w + m"
proof -
  have "uint (w + word_of_int m) = uint (word_of_int (uint w + m) :: u32)" by simp
  also have "\<dots> = uint w + m" by (rule uint_of_int_u32[OF assms])
  finally show ?thesis .
qed

lemma uint_drop_u32: "uint (drop_bit n w) = uint w div 2 ^ n" for w :: u32
proof -
  have "take_bit 32 (uint w) = uint w"
    using unsigned_less[of w, where 'a = int] by (simp add: take_bit_int_eq_self)
  then show ?thesis by (simp add: unsigned_drop_bit_eq drop_bit_eq_div[where 'a = int] del: drop_bit_eq_div[where 'a = "32 word"])
qed

text \<open>With every sample at most \<open>R\<close>, the scaled mean stays below \<open>8 R\<close> and the deviations below \<open>4 R\<close>.\<close>

definition rtt_inv :: "int \<Rightarrow> tcp_recv_vars \<Rightarrow> bool" where
  "rtt_inv R r \<longleftrightarrow> srtt r = 0 \<or>
     8 \<le> uint (srtt r) \<and> uint (srtt r) \<le> 8 * R \<and> uint (mdev r) \<le> 4 * R
     \<and> uint (mdev_max r) \<le> 4 * R \<and> uint (rttvar r) \<le> 4 * R"

lemma rtt_dev_bound:
  assumes "\<bar>m\<bar> \<le> R" "uint (mdev r) \<le> 4 * R" "8 * R < 2 ^ 32"
  shows "uint (mdev (rtt_dev m r)) \<le> 4 * R"
proof -
  define d where "d = uint (mdev r)"
  define e where "e = (if m < 0 then let m = - m - d div 4 in (if m > 0 then m div 8 else m) else m - d div 4)"
  have d: "0 \<le> d" "d \<le> 4 * R" using assms(2) by (simp_all add: d_def)
  have e: "0 \<le> d + e" "d + e \<le> 4 * R" using assms(1) d unfolding e_def Let_def by - (auto; linarith)+
  have "uint (mdev r + word_of_int e) = d + e"
    unfolding d_def by (rule uint_add_of_int) (use e assms(3) in \<open>auto simp: d_def\<close>)
  moreover have "mdev (rtt_dev m r) = mdev r + word_of_int e"
    unfolding rtt_dev_def Let_def e_def d_def uint_drop_u32 by simp
  ultimately show ?thesis using e by simp
qed

lemma uint_rttvar_shrink:
  "a \<le> b \<Longrightarrow> uint (b - drop_bit 2 (b - a)) \<le> uint b" for a b :: u32
proof -
  assume "a \<le> b"
  then have "uint (b - a) = uint b - uint a" by (rule uint_minus_simple_alt[THEN iffD1])
  then have "uint (drop_bit 2 (b - a)) \<le> uint b" unfolding uint_drop_u32 using uint_ge_0[of a] uint_ge_0[of "b - a"] by (simp, linarith)
  then have "drop_bit 2 (b - a) \<le> b" by (simp add: word_le_def)
  then show ?thesis by (simp add: uint_minus_simple_alt word_le_def)
qed

lemma rtt_inv_update:
  assumes i: "rtt_inv R r" "srtt r \<noteq> 0" and m: "1 \<le> m" "m \<le> R" and R: "8 * R < 2 ^ 32"
  shows "rtt_inv R (rtt_update una nxt m r) \<and> srtt (rtt_update una nxt m r) \<noteq> 0"
proof -
  define h where "h = uint (srtt r)"
  define err where "err = m - h div 8"
  have h: "8 \<le> h" "h \<le> 8 * R" "uint (mdev r) \<le> 4 * R" "uint (mdev_max r) \<le> 4 * R" "uint (rttvar r) \<le> 4 * R"
    using i by (auto simp: rtt_inv_def h_def)
  have sr: "8 \<le> h + err" "h + err \<le> 8 * R" "\<bar>err\<bar> \<le> R" using h m unfolding err_def by - (linarith+)
  define r1 where "r1 = rtt_dev err (r\<lparr>srtt := srtt r + word_of_int err\<rparr>)"
  have s1: "uint (srtt r1) = h + err"
    unfolding r1_def rtt_dev_def Let_def h_def
    by (simp, rule uint_add_of_int) (use sr R in \<open>auto simp: h_def\<close>)
  have d1: "uint (mdev r1) \<le> 4 * R" unfolding r1_def by (rule rtt_dev_bound) (use sr h R in auto)
  have f1: "mdev_max r1 = mdev_max r" "rttvar r1 = rttvar r" by (simp_all add: r1_def rtt_dev_def Let_def)
  define r2 where "r2 = rtt_max r1"
  have r2: "srtt r2 = srtt r1" "uint (mdev r2) \<le> 4 * R" "uint (mdev_max r2) \<le> 4 * R" "uint (rttvar r2) \<le> 4 * R"
    using d1 h by (auto simp: r2_def rtt_max_def f1)
  have r3: "srtt (rtt_epoch una nxt r2) = srtt r1" "uint (mdev (rtt_epoch una nxt r2)) \<le> 4 * R"
    "uint (mdev_max (rtt_epoch una nxt r2)) \<le> 4 * R" "uint (rttvar (rtt_epoch una nxt r2)) \<le> 4 * R"
    using r2 m order.trans[OF uint_rttvar_shrink r2(4), of "mdev_max r2"] by (auto simp: rtt_epoch_def)
  have "rtt_update una nxt m r = rtt_epoch una nxt r2"
    by (simp add: rtt_update_def Let_def r2_def r1_def err_def h_def uint_drop_u32)
  moreover have "srtt r1 \<noteq> 0" using s1 sr(1) by auto
  ultimately show ?thesis using r3 s1 sr by (simp add: rtt_inv_def)
qed

lemma EstimateRTT_inv:
  assumes "rtt_inv R (rcvvar t)" "uint mrtt \<le> R" "1 \<le> R" "8 * R < 2 ^ 32"
  shows "rtt_inv R (rcvvar (EstimateRTT mrtt t)) \<and> srtt (rcvvar (EstimateRTT mrtt t)) \<noteq> 0"
proof (cases "srtt (rcvvar t) = 0")
  case True
  define m where "m = (if uint mrtt = 0 then 1 else uint mrtt)"
  have m: "1 \<le> m" "m \<le> R" using assms(2,3) uint_ge_0[of mrtt] unfolding m_def by - (smt (verit))+
  have u: "uint (word_of_int (m * 8) :: u32) = m * 8" "uint (word_of_int (m * 2) :: u32) = m * 2"
    by (rule uint_of_int_u32; use m assms(4) in simp)+
  then have "(word_of_int (m * 8) :: u32) \<noteq> 0" using m by auto
  then show ?thesis using True m u
    by (simp add: EstimateRTT_def m_def[symmetric] Let_def rtt_inv_def)
next
  case False
  define m where "m = (if uint mrtt = 0 then 1 else uint mrtt)"
  have m: "1 \<le> m" "m \<le> R" using assms(2,3) uint_ge_0[of mrtt] unfolding m_def by - (smt (verit))+
  show ?thesis using rtt_inv_update[OF assms(1) False m assms(4)] False
    by (simp add: EstimateRTT_def m_def[symmetric] Let_def)
qed

lemma rto_range:
  assumes "rtt_inv R r" "srtt r \<noteq> 0" "8 * R < 2 ^ 32"
  shows "1 \<le> uint (drop_bit 3 (srtt r) + rttvar r) \<and> uint (drop_bit 3 (srtt r) + rttvar r) \<le> 5 * R"
proof -
  have h: "1 \<le> uint (srtt r) div 8" "uint (srtt r) div 8 \<le> R" "uint (rttvar r) \<le> 4 * R" "0 \<le> uint (rttvar r)"
    using assms by (auto simp: rtt_inv_def)
  have "uint (drop_bit 3 (srtt r) + word_of_int (uint (rttvar r))) = uint (drop_bit 3 (srtt r)) + uint (rttvar r)"
    by (rule uint_add_of_int) (use h assms(3) in \<open>auto simp: uint_drop_u32\<close>)
  then show ?thesis using h by (simp add: uint_drop_u32 add_increasing2)
qed

section \<open>The acknowledged bytes and the send buffer\<close>

text \<open>What the first half of \<open>ProcessACK\<close> leaves for the second.\<close>

definition ack_view :: "tcp_stream \<Rightarrow> _" where
  "ack_view t = ((saw_timestamp t, state t, stream_type t),
     (sndbuf (sndvar t), eff_mss (sndvar t), mss (sndvar t), snd_wnd (sndvar t)),
     (ts_lastack_rcvd (rcvvar t), srtt (rcvvar t), mdev (rcvvar t), mdev_max (rcvvar t), rttvar (rcvvar t)))"

lemma ack_view_update_window: "ack_view (strm (ack_update_window s pseq a w m) s) = ack_view (strm m s)"
  by (simp add: ack_update_window_def ack_view_def Let_def)

lemma ack_view_recover: "ack_view (strm (ack_recover cfg s a m) s) = ack_view (strm m s)"
proof -
  have "ack_view (strm (RemoveFromSendList cfg s m) s) = ack_view (strm m s)" for m
    using timed_fields[OF timed_moved[OF moved_RemoveFromSendList], of cfg s m] by (simp add: ack_view_def)
  then show ?thesis by (simp add: ack_recover_def Let_def) (simp add: ack_view_def)
qed

lemma ack_view_fast: "ack_view (ack_fast_rtx d a (ack_count_dup d a t)) = ack_view t"
  by (simp add: ack_fast_rtx_def ack_count_dup_def ack_view_def Let_def)

lemma ack_view_prepared: "ack_view (strm (ack_prepared cfg s p m) s) = ack_view (strm m s)"
proof -
  have "ack_view (strm (mod_strm s (\<lambda>t. t\<lparr>rcv_nxt := x\<rparr>) m) s) = ack_view (strm m s)" for x
    by (simp add: ack_view_def)
  then show ?thesis
    unfolding ack_prepared_def Let_def ack_view_recover strm_mod_same ack_view_fast ack_view_update_window by simp
qed

lemma ack_prepared_fields:
  shows "sndbuf (sndvar (strm (ack_prepared cfg s p m) s)) = sndbuf (sndvar (strm m s))"
    and "eff_mss (sndvar (strm (ack_prepared cfg s p m) s)) = eff_mss (sndvar (strm m s))"
    and "saw_timestamp (strm (ack_prepared cfg s p m) s) = saw_timestamp (strm m s)"
    and "ts_lastack_rcvd (rcvvar (strm (ack_prepared cfg s p m) s)) = ts_lastack_rcvd (rcvvar (strm m s))"
    and "srtt (rcvvar (strm (ack_prepared cfg s p m) s)) = srtt (rcvvar (strm m s))"
    and "stream_type (strm (ack_prepared cfg s p m) s) = stream_type (strm m s)"
    and "rtt_inv R (rcvvar (strm (ack_prepared cfg s p m) s)) = rtt_inv R (rcvvar (strm m s))"
  using ack_view_prepared[of cfg s p m] by (simp_all add: ack_view_def rtt_inv_def)

lemma cwnd_ack_remove_view:
  "ack_rtt ts t = Some t1 \<Longrightarrow> stream_type t1 = stream_type t \<and> cwnd (sndvar t1) = cwnd (sndvar t)
     \<and> eff_mss (sndvar t1) = eff_mss (sndvar t)"
  "ack_cwnd n t = Some t1 \<Longrightarrow> stream_type t1 = stream_type t"
  by (auto simp: ack_rtt_def ack_cwnd_def EstimateRTT_def Let_def split: if_splits)

lemma strm_ack_remove:
  assumes "HAS_STREAM_TYPE (strm m s) MOS_SOCK_STREAM"
  shows "sndbuf (sndvar (strm (ack_remove s b n a ts m) s)) = Some (snd (SBRemove b (ucast n)))"
    and "snd_una (sndvar (strm (ack_remove s b n a ts m) s)) = a"
    and "snd_wnd (sndvar (strm (ack_remove s b n a ts m) s))
      = sb_size (snd (SBRemove b (ucast n))) - sb_len (snd (SBRemove b (ucast n)))"
  using assms by (simp_all add: ack_remove_def Let_def timed_fields[OF timed_UpdateRetransmissionTimer])

lemma ack_new_data_remove:
  assumes r: "ack_new_data s a ts m = Some m'" and b: "sndbuf (sndvar (strm m s)) = Some b"
    and str: "HAS_STREAM_TYPE (strm m s) MOS_SOCK_STREAM"
    and new: "\<not> TCP_SEQ_GEQ (sb_head_seq b) a" "a - sb_head_seq b \<noteq> 0"
  shows "sndbuf (sndvar (strm m' s)) = Some (snd (SBRemove b (ucast (a - sb_head_seq b))))
    \<and> snd_una (sndvar (strm m' s)) = a
    \<and> snd_wnd (sndvar (strm m' s)) = sb_size (snd (SBRemove b (ucast (a - sb_head_seq b))))
        - sb_len (snd (SBRemove b (ucast (a - sb_head_seq b))))"
proof -
  obtain t1 t2 where st: "ack_rtt ts (strm m s) = Some t1" "ack_cwnd (a - sb_head_seq b) t1 = Some t2"
    and m': "m' = ack_remove s b (a - sb_head_seq b) a ts (mod_strm s (\<lambda>_. t2) m)"
    using r b new by (auto simp: ack_new_data_def Let_def split: option.splits)
  have "HAS_STREAM_TYPE (strm (mod_strm s (\<lambda>_. t2) m) s) MOS_SOCK_STREAM"
    using str cwnd_ack_remove_view(1)[OF st(1)] cwnd_ack_remove_view(2)[OF st(2)]
    by (simp add: HAS_STREAM_TYPE_def)
  from strm_ack_remove[OF this] show ?thesis unfolding m' by blast
qed

text \<open>An acknowledgement as a signed distance from the oldest unacknowledged byte.\<close>

lemma ack_distance:
  assumes a: "a = h + word_of_int j" and j: "\<bar>j\<bar> < 2 ^ 31" and len: "unat len < 2 ^ 31"
  shows "TCP_SEQ_GEQ h a \<longleftrightarrow> j \<le> 0"
    and "0 < j \<Longrightarrow> TCP_SEQ_GT a (h + len) \<longleftrightarrow> j > int (unat len)"
    and "0 < j \<Longrightarrow> unat (a - h) = nat j"
proof -
  show "TCP_SEQ_GEQ h a \<longleftrightarrow> j \<le> 0"
    using TCP_SEQ_offsets(4)[of 0 j h] j unfolding a by simp
  have l: "len = word_of_int (int (unat len))" by simp
  have "int (unat len) < int (2 ^ 31)" using len by (simp only: of_nat_less_iff)
  then have ul: "uint len < 2 ^ 31" by simp
  show "TCP_SEQ_GT a (h + len) \<longleftrightarrow> j > int (unat len)" if "0 < j"
  proof -
    have "\<bar>j - uint len\<bar> < 2 ^ 31" using ul j uint_ge_0[of len] that by linarith
    then show ?thesis using TCP_SEQ_offsets(2)[of j "uint len" h] unfolding a by simp
  qed
  show "unat (a - h) = nat j" if "0 < j"
    using j that uint_of_int_u32[of j] unfolding a by (simp add: unat_eq_nat_uint)
qed

section \<open>Traps\<close>

lemma cwnd_thresh:
  fixes w c :: u32 and ms :: u16
  assumes "ms \<noteq> 0"
  defines "half \<equiv> min c w div 2"
  defines "thresh \<equiv> (if half < 2 * ucast ms then 2 * ucast ms else half)"
  shows "thresh + 3 * ucast ms \<noteq> 0"
proof -
  have ms: "1 \<le> unat ms" "unat ms \<le> 65535"
    using assms(1) unsigned_less[of ms, where 'a = nat] unat_gt_0[of ms] by auto
  have u: "unat (ucast ms :: u32) = unat ms"
    using ms by (simp add: unsigned_ucast_eq take_bit_nat_eq_self)
  have m: "unat (2 * ucast ms :: u32) = 2 * unat ms" "unat (3 * ucast ms :: u32) = 3 * unat ms"
    using ms u by (simp_all add: unat_word_ariths)
  have "unat half \<le> 2 ^ 31" unfolding half_def using unsigned_less[of "min c w", where 'a = nat]
    by (simp add: unat_div_distrib)
  then have "unat thresh \<le> 2 ^ 31" unfolding thresh_def using m ms by auto
  then have "unat (thresh + 3 * ucast ms) = unat thresh + 3 * unat ms"
    using m ms by (simp add: unat_word_ariths)
  then show ?thesis using ms by (metis unat_0 add_is_0 mult_is_0 not_one_le_zero zero_neq_numeral)
qed

lemma cwnd_prepared:
  assumes "mss (sndvar (strm m s)) \<noteq> 0" "cwnd (sndvar (strm m s)) \<noteq> 0"
  shows "cwnd (sndvar (strm (ack_prepared cfg s p m) s)) \<noteq> 0"
proof -
  have f: "cwnd (sndvar (ack_fast_rtx d a (ack_count_dup d a t))) \<noteq> 0"
    if "mss (sndvar t) \<noteq> 0" "cwnd (sndvar t) \<noteq> 0" for d a t
    using that cwnd_thresh[OF that(1), of "cwnd (sndvar t)" "peer_wnd (sndvar t)"]
    by (auto simp: ack_fast_rtx_def ack_count_dup_def Let_def)
  have w: "cwnd (sndvar (strm (ack_update_window s x a w m') s)) = cwnd (sndvar (strm m' s))"
    "mss (sndvar (strm (ack_update_window s x a w m') s)) = mss (sndvar (strm m' s))" for x a w m'
    by (simp_all add: ack_update_window_def Let_def)
  have r: "cwnd (sndvar (strm (ack_recover cfg s a m') s)) = cwnd (sndvar (strm m' s))" for a m'
    by (simp add: ack_recover_def Let_def timed_fields[OF timed_moved[OF moved_RemoveFromSendList]])
  show ?thesis unfolding ack_prepared_def Let_def r strm_mod_same
    by (rule f; simp add: w assms)
qed

lemma ack_rtt_returns:
  assumes "rtt_inv R (rcvvar t)" "uint (ts - ts_lastack_rcvd (rcvvar t)) \<le> R" "1 \<le> R" "8 * R < 2 ^ 32"
  shows "\<exists>t'. ack_rtt ts t = Some t' \<and> rtt_inv R (rcvvar t')
    \<and> (rto (sndvar t') = rto (sndvar t) \<or> 1 \<le> uint (rto (sndvar t')) \<and> uint (rto (sndvar t')) \<le> 5 * R)"
proof (cases "saw_timestamp t")
  case False
  then show ?thesis using assms(1) by (simp add: ack_rtt_def)
next
  case True
  define t1 where "t1 = EstimateRTT (ts - ts_lastack_rcvd (rcvvar t)) t"
  have i: "rtt_inv R (rcvvar t1) \<and> srtt (rcvvar t1) \<noteq> 0"
    unfolding t1_def by (rule EstimateRTT_inv[OF assms])
  define x where "x = drop_bit 3 (srtt (rcvvar t1)) + rttvar (rcvvar t1)"
  have x: "1 \<le> uint x" "uint x \<le> 5 * R" using rto_range[of R "rcvvar t1"] i assms(4) by (auto simp: x_def)
  then have "x \<noteq> 0" by auto
  then have "x > 0" by (simp add: word_neq_0_conv)
  then have "ack_rtt ts t = Some (mod_snd (\<lambda>v. v\<lparr>rto := x\<rparr>) t1)"
    using True by (simp add: ack_rtt_def Let_def t1_def[symmetric] x_def)
  then show ?thesis using i x by simp
qed

lemma ack_returns:
  assumes b: "sndbuf (sndvar (strm m s)) = Some b"
    and w: "eff_mss (sndvar (strm m s)) \<noteq> 0" "mss (sndvar (strm m s)) \<noteq> 0" "cwnd (sndvar (strm m s)) \<noteq> 0"
    and r: "rtt_inv R (rcvvar (strm m s))" "uint (p_cur_ts p - ts_lastack_rcvd (rcvvar (strm m s))) \<le> R"
      "1 \<le> R" "8 * R < 2 ^ 32"
  shows "\<exists>m'. ProcessACK cfg s p m = Some m'"
proof -
  define m1 where "m1 = ack_prepared cfg s p m"
  have f: "sndbuf (sndvar (strm m1 s)) = Some b" "eff_mss (sndvar (strm m1 s)) \<noteq> 0" "cwnd (sndvar (strm m1 s)) \<noteq> 0"
    using b w cwnd_prepared[OF w(2,3), of cfg p] by (simp_all add: m1_def ack_prepared_fields)
  have "rtt_inv R (rcvvar (strm m1 s))" "uint (p_cur_ts p - ts_lastack_rcvd (rcvvar (strm m1 s))) \<le> R"
    using r by (simp_all add: m1_def ack_prepared_fields)
  from ack_rtt_returns[OF this r(3,4)] obtain t1 where t1: "ack_rtt (p_cur_ts p) (strm m1 s) = Some t1" by blast
  have "\<exists>t2. ack_cwnd n t1 = Some t2" for n
    using f cwnd_ack_remove_view(1)[OF t1] by (simp add: ack_cwnd_def Let_def)
  then have "\<exists>m'. ack_new_data s a (p_cur_ts p) m1 = Some m'" for a
    using f t1 by (auto simp: ack_new_data_def Let_def split: option.split) (metis option.distinct(1))
  then show ?thesis using b by (simp add: ProcessACK_stages m1_def)
qed

section \<open>Properties\<close>

definition small_ack :: "mtcp_manager \<Rightarrow> ref \<Rightarrow> pkt_ctx \<Rightarrow> int \<Rightarrow> tcp_send_buffer \<Rightarrow> bool" where
  "small_ack m s p j b \<longleftrightarrow> sndbuf (sndvar (strm m s)) = Some b \<and> sb_inv b
     \<and> HAS_STREAM_TYPE (strm m s) MOS_SOCK_STREAM \<and> \<bar>j\<bar> < 2 ^ 31
     \<and> ack_of_data (p_ack_seq p) (strm m s) = sb_head_seq b + word_of_int j"


text \<open>A stream with five unacknowledged bytes, 100 to 104, and an acknowledgement of three of them.\<close>

definition ack_demo_buf :: tcp_send_buffer where
  "ack_demo_buf = \<lparr>sb_chunk = 0, sb_data = [1, 2, 3, 4, 5, 6, 7, 8], sb_head = 0, sb_head_off = 0, sb_tail_off = 5,
     sb_len = 5, sb_cum_len = 5, sb_size = 8, sb_head_seq = 100, sb_init_seq = 100\<rparr>"

definition ack_demo :: "bool \<Rightarrow> mtcp_manager" where
  "ack_demo ts = mod_strm 0 (\<lambda>_. mod_snd (\<lambda>v. v\<lparr>sndbuf := Some ack_demo_buf, eff_mss := 1448, mss := 1460, cwnd := 2,
       snd_una := 100\<rparr>) (zero_stream\<lparr>state := TCP_ST_ESTABLISHED, stream_type := STREAM_TYPE MOS_SOCK_STREAM,
         snd_nxt := 105, saw_timestamp := ts\<rparr>)) zero_mtcp"

definition ack_demo_pkt :: "u32 \<Rightarrow> pkt_ctx" where
  "ack_demo_pkt now = \<lparr>p_cur_ts = now, p_seq = 7, p_ack_seq = 103, p_window = 1000, p_payload = [], p_saddr = 0,
     p_daddr = 0, p_ip_id = 0, p_tcph = \<lparr>th_source = 0, th_dest = 0, th_ack_seq = 0, th_syn = False,
       th_fin = False, th_rst = False, th_psh = False, th_ack = True, th_opts = []\<rparr>\<rparr>"

definition ack_cfg :: mos_config where
  "ack_cfg = \<lparr>be_resilient = False, tcp_timeout = 30, tcp_tw_interval = 0, wmem_size = 8192, rmem_size = 8192,
     netdev_ips = [1], route_table = [], max_concurrency = 4, chunk_bytes = (\<lambda>_. []), tx_ok = (\<lambda>_. True),
     malloc_ok = (\<lambda>_. True), raw_filter = (\<lambda>_ _. False), syn_filter = (\<lambda>_ _. True),
     orphan_filter = (\<lambda>_ _. True)\<rparr>"

lemma ack_rtt_trap:
  assumes "saw_timestamp t" "srtt (rcvvar t) = 0" and d: "ts - ts_lastack_rcvd (rcvvar t) = 2 ^ 31"
  shows "ack_rtt ts t = None"
proof -
  have "srtt (rcvvar (EstimateRTT (2 ^ 31) t)) = 0" "rttvar (rcvvar (EstimateRTT (2 ^ 31) t)) = 0"
    using assms(2) by (simp_all add: EstimateRTT_def)
  then show ?thesis unfolding ack_rtt_def d using assms(1) by (simp add: Let_def)
qed

lemma ack_demo_facts:
  "sndbuf (sndvar (strm (ack_demo ts) 0)) = Some ack_demo_buf" "eff_mss (sndvar (strm (ack_demo ts) 0)) = 1448"
  "mss (sndvar (strm (ack_demo ts) 0)) = 1460" "cwnd (sndvar (strm (ack_demo ts) 0)) = 2"
  "rcvvar (strm (ack_demo ts) 0) = zero_rcv" "saw_timestamp (strm (ack_demo ts) 0) = ts"
  "ack_of_data (p_ack_seq (ack_demo_pkt now)) (strm (ack_demo ts) 0) = 103" "p_cur_ts (ack_demo_pkt now) = now"
  "sb_bytes ack_demo_buf = [1, 2, 3, 4, 5]" "sb_inv ack_demo_buf" "sb_head_seq ack_demo_buf = 100"
  "small_ack (ack_demo ts) 0 (ack_demo_pkt now) 3 ack_demo_buf"
proof -
  show a: "sndbuf (sndvar (strm (ack_demo ts) 0)) = Some ack_demo_buf" "eff_mss (sndvar (strm (ack_demo ts) 0)) = 1448"
    "mss (sndvar (strm (ack_demo ts) 0)) = 1460" "cwnd (sndvar (strm (ack_demo ts) 0)) = 2"
    "rcvvar (strm (ack_demo ts) 0) = zero_rcv" "saw_timestamp (strm (ack_demo ts) 0) = ts"
    "ack_of_data (p_ack_seq (ack_demo_pkt now)) (strm (ack_demo ts) 0) = 103" "p_cur_ts (ack_demo_pkt now) = now"
    by (simp_all add: ack_demo_def ack_demo_pkt_def ack_of_data_def zero_stream_def)
  show b: "sb_bytes ack_demo_buf = [1, 2, 3, 4, 5]" "sb_inv ack_demo_buf" "sb_head_seq ack_demo_buf = 100"
    by (simp_all add: sb_bytes_def sb_inv_def ack_demo_buf_def)
  show "small_ack (ack_demo ts) 0 (ack_demo_pkt now) 3 ack_demo_buf"
    using a(1,7) b by (simp add: small_ack_def) (simp add: ack_demo_def HAS_STREAM_TYPE_def STREAM_TYPE_def)
qed




text \<open>
  The two conditions are needed, and the peer controls both.  An acknowledgement of new data stops
  the process when the effective segment size is 0 (a peer that announced an MSS of 12:
  the code divides by it), and when the first round-trip sample is \<open>2 ^ 31\<close> ticks (a peer
  that echoes such a timestamp: the smoothed time and its deviation both come out as 0
  and the assertion \<open>rto > 0\<close> fails).
\<close>

theorem process_ack_traps:
  assumes a: "small_ack m s p j b" and j: "0 < j" "j \<le> int (length (sb_bytes b))"
    and "eff_mss (sndvar (strm m s)) = 0
      \<or> saw_timestamp (strm m s) \<and> srtt (rcvvar (strm m s)) = 0
         \<and> p_cur_ts p - ts_lastack_rcvd (rcvvar (strm m s)) = 2 ^ 31"
  shows "ProcessACK cfg s p m = None"
proof -
  define ack where "ack = ack_of_data (p_ack_seq p) (strm m s)"
  have b: "sndbuf (sndvar (strm m s)) = Some b" "sb_inv b" "\<bar>j\<bar> < 2 ^ 31" "ack = sb_head_seq b + word_of_int j"
    using a by (auto simp: small_ack_def ack_def)
  have len: "length (sb_bytes b) = unat (sb_len b)" "unat (sb_len b) < 2 ^ 31"
    using b(2) length_sb_bytes[OF b(2)] by (auto simp: sb_inv_def)
  note d = ack_distance[OF b(4,3) len(2)]
  define m1 where "m1 = ack_prepared cfg s p m"
  have f: "sndbuf (sndvar (strm m1 s)) = Some b"
    using b(1) by (simp add: m1_def ack_prepared_fields)
  have e: "\<not> TCP_SEQ_GT ack (sb_head_seq b + sb_len b)" using d(2)[OF j(1)] j(2) unfolding len(1) by linarith
  have n: "\<not> TCP_SEQ_GEQ (sb_head_seq b) ack" using d(1) j(1) by simp
  have "eff_mss (sndvar (strm m1 s)) = 0 \<or> saw_timestamp (strm m1 s) \<and> srtt (rcvvar (strm m1 s)) = 0
     \<and> p_cur_ts p - ts_lastack_rcvd (rcvvar (strm m1 s)) = 2 ^ 31"
    using assms(4) by (simp add: m1_def ack_prepared_fields)
  then have "ack_rtt (p_cur_ts p) (strm m1 s) = None \<or> eff_mss (sndvar (strm m1 s)) = 0"
    using ack_rtt_trap by blast
  then have "ack_new_data s ack (p_cur_ts p) m1 = None"
    using f n cwnd_ack_remove_view(1)[of "p_cur_ts p" "strm m1 s"] d(3)[OF j(1)] j(1)
    by (auto simp: ack_new_data_def ack_cwnd_def Let_def split: option.split)
  then show ?thesis using b(1) e by (simp add: ProcessACK_stages ack_def[symmetric] m1_def)
qed

theorem process_ack_traps_witness: "ProcessACK ack_cfg 0 (ack_demo_pkt (2 ^ 31)) (ack_demo True) = None"
  by (rule process_ack_traps[OF ack_demo_facts(12)]) (simp_all add: ack_demo_facts zero_rcv_def)

text \<open>
  C22.  The round-trip estimator never leaves its range: while every sample is at most
  \<open>R < 2 ^ 29\<close> ticks, the scaled mean stays between 8 and \<open>8 R\<close>, the deviations stay below
  \<open>4 R\<close>, nothing wraps, and the timeout computed from them is between 1 and \<open>5 R\<close>.
\<close>

theorem estimate_rtt_bounds:
  assumes "rtt_inv R (rcvvar t)" "uint mrtt \<le> R" "1 \<le> R" "8 * R < 2 ^ 32"
  shows "rtt_inv R (rcvvar (EstimateRTT mrtt t)) \<and>
    (let x = uint (drop_bit 3 (srtt (rcvvar (EstimateRTT mrtt t))) + rttvar (rcvvar (EstimateRTT mrtt t)))
     in 1 \<le> x \<and> x \<le> 5 * R)"
  using EstimateRTT_inv[OF assms] rto_range[of R] assms(4) by (simp add: Let_def)

theorem estimate_rtt_bounds_witness:
  "rtt_inv 100 (rcvvar (EstimateRTT 40 zero_stream)) \<and>
    (let x = uint (drop_bit 3 (srtt (rcvvar (EstimateRTT 40 zero_stream))) + rttvar (rcvvar (EstimateRTT 40 zero_stream)))
     in 1 \<le> x \<and> x \<le> 5 * 100)"
  by (rule estimate_rtt_bounds) (simp_all add: rtt_inv_def zero_stream_def zero_rcv_def)

end
