(* ===== verification/Tcp_Payload.thy ===== *)
theory Tcp_Payload
  imports Tcp_Ack
begin

text \<open>
  Receiving data: \<open>ProcessTCPPayload\<close> of \<open>tcp_in.c\<close>, on top of the reassembly buffer.
  An application callback is recorded in \<open>cb_trace\<close>; what it does in turn is the
  application's.  A failed assertion, or an access outside the buffer, is \<open>None\<close>.
\<close>

section \<open>The operation\<close>

text \<open>The client's side is called in reverse order.\<close>

definition callback_order :: "tcp_stream \<Rightarrow> ref list" where
  "callback_order t = (if side t = MOS_SIDE_CLI then rev (map fst (msocks t)) else map fst (msocks t))"

definition error_callbacks :: "(ref \<Rightarrow> bool) \<Rightarrow> tcp_stream \<Rightarrow> mtcp_manager \<Rightarrow> mtcp_manager" where
  "error_callbacks P t m =
     fold (\<lambda>walk m. if P walk then HandleCallback MOS_NULL walk (side t) MOS_ON_ERROR m else m) (callback_order t) m"

definition payload_no_mem :: "ref \<Rightarrow> mtcp_manager \<Rightarrow> mtcp_manager" where
  "payload_no_mem s m =
     (let m = mod_strm s (\<lambda>t. raise_cb MOS_ON_TCP_STATE_CHANGE
                (t\<lparr>state := TCP_ST_CLOSED_RSVD, close_reason := TCP_NO_MEM\<rparr>)) m
      in if HAS_STREAM_TYPE (strm m s) MOS_SOCK_STREAM then snd (RaiseErrorEvent s m) else m)"

text \<open>A stream that is only monitored gives up what it has not read before the write.\<close>

definition payload_pile :: "tcp_stream \<Rightarrow> tcprb \<Rightarrow> tcprb" where
  "payload_pile t rb =
     (if \<not> HAS_STREAM_TYPE t MOS_SOCK_STREAM \<and> HAS_STREAM_TYPE t MOS_SOCK_MONITOR_STREAM_ACTIVE
      then snd (tcprb_setpile rb (rb_pile rb + tcprb_cflen rb)) else rb)"

definition payload_outrun :: "tcp_stream \<Rightarrow> tcprb \<Rightarrow> int \<Rightarrow> int \<Rightarrow> mtcp_manager \<Rightarrow> mtcp_manager" where
  "payload_outrun t rb len off m =
     (if HAS_STREAM_TYPE t MOS_SOCK_MONITOR_STREAM_ACTIVE then
        let fflen = tcprb_fflen rb len off in
        if fflen > 0
        then error_callbacks (\<lambda>walk. ms_peek_offset (sk_mon (msmap m walk)) (side t) < rb_head rb + fflen) t m
        else m
      else m)"

text \<open>What is written back to the stream after the write: \<open>rb\<close> is the buffer then.\<close>

definition payload_commit :: "tcprb \<Rightarrow> tcp_stream \<Rightarrow> tcp_stream option" where
  "payload_commit rb t =
     (let cftail = rb_pile rb + tcprb_cflen rb;
          rb = (if state t = TCP_ST_FIN_WAIT_1 \<or> state t = TCP_ST_FIN_WAIT_2
                then snd (tcprb_setpile rb cftail) else rb);
          top = uint (irs (rcvvar t) + 1) + cftail;
          t = (if cftail > 0 \<and> top > uint (rcv_nxt t) then t\<lparr>rcv_nxt := word_of_int top\<rparr> else t)
      in if cftail - rb_pile rb \<ge> 0
         then Some (mod_rcv (\<lambda>r. r\<lparr>rcvbuf := Some rb, rcv_wnd := word_of_int (rb_len rb - (cftail - rb_pile rb))\<rparr>) t)
         else None)"

definition payload_write ::
  "mos_config \<Rightarrow> ref \<Rightarrow> pkt_ctx \<Rightarrow> tcprb \<Rightarrow> mtcp_manager \<Rightarrow> (tcprb \<times> mtcp_manager) option" where
  "payload_write cfg s p rb m =
     (let t = strm m s; len = uint (p_payloadlen p);
          off = seq2loff rb (p_seq p) (irs (rcvvar t) + 1)
      in if off \<ge> 0
         then let rb = payload_pile t rb; m = payload_outrun t rb len off m
              in (case tcprb_pwrite (chunk_bytes cfg) (p_payload p) len off (rb, bufseg_pool m) of
                    None \<Rightarrow> None
                  | Some (ret, rb, mp) \<Rightarrow> Some (rb, m\<lparr>bufseg_pool := mp\<rparr>))
         else Some (rb, m))"

definition payload_merge :: "mos_config \<Rightarrow> ref \<Rightarrow> pkt_ctx \<Rightarrow> tcprb \<Rightarrow> mtcp_manager \<Rightarrow> (int \<times> mtcp_manager) option" where
  "payload_merge cfg s p rb m =
     (let prev_rcv_nxt = rcv_nxt (strm m s) in
      case payload_write cfg s p rb m of
        None \<Rightarrow> None
      | Some (rb, m) \<Rightarrow>
         (case payload_commit rb (strm m s) of
            None \<Rightarrow> None
          | Some t \<Rightarrow>
             (let m = mod_strm s (\<lambda>_. t) m in
              if TCP_SEQ_LEQ (rcv_nxt t) prev_rcv_nxt then Some (0, m)
              else Some (1, if state t = TCP_ST_ESTABLISHED then RaiseReadEvent s m else m))))"

definition ProcessTCPPayload :: "mos_config \<Rightarrow> ref \<Rightarrow> pkt_ctx \<Rightarrow> mtcp_manager \<Rightarrow> (int \<times> mtcp_manager) option" where
  "ProcessTCPPayload cfg s p m =
     (let t = strm m s; r = rcvvar t; seg_end = p_seq p + ucast (p_payloadlen p) in
      if buffer_mgmt t = 0 then Some (0, m)
      else if TCP_SEQ_LT seg_end (rcv_nxt t) then Some (0, m)
      else if TCP_SEQ_GT seg_end (rcv_nxt t + rcv_wnd r) then Some (0, error_callbacks (\<lambda>_. True) t m)
      else case (case rcvbuf r of
                   Some rb \<Rightarrow> Some rb
                 | None \<Rightarrow> tcprb_new (malloc_ok cfg s) (rmem_size cfg) (unat (buffer_mgmt t))) of
             None \<Rightarrow> Some (-1, payload_no_mem s m)
           | Some rb \<Rightarrow> payload_merge cfg s p rb m)"

section \<open>What receiving leaves alone\<close>

lemma error_callbacks_part [simp]: "lists_part (error_callbacks P t m) = lists_part m"
proof -
  have "lists_part (fold (\<lambda>walk m. if P walk then HandleCallback MOS_NULL walk (side t) MOS_ON_ERROR m else m) ws m)
      = lists_part m" for ws
    by (induction ws arbitrary: m) simp_all
  then show ?thesis by (simp add: error_callbacks_def)
qed

lemma error_callbacks_pool [simp]: "bufseg_pool (error_callbacks P t m) = bufseg_pool m"
proof -
  have "bufseg_pool (fold (\<lambda>walk m. if P walk then HandleCallback MOS_NULL walk (side t) MOS_ON_ERROR m else m) ws m)
      = bufseg_pool m" for ws
    by (induction ws arbitrary: m) (simp_all add: HandleCallback_def)
  then show ?thesis by (simp add: error_callbacks_def)
qed

lemma payload_outrun_part [simp]:
  "lists_part (payload_outrun t rb len off m) = lists_part m"
  "bufseg_pool (payload_outrun t rb len off m) = bufseg_pool m"
  by (simp_all add: payload_outrun_def Let_def)

text \<open>The receive buffer may change, and the state when there is no memory for one.\<close>

definition data_view :: "tcp_stream \<Rightarrow> _" where
  "data_view t = ((have_reset t, socket t, stream_type t, side t, buffer_mgmt t, pair_stream t, msocks t),
     saw_timestamp t, sndvar t, (rcvvar t)\<lparr>rcvbuf := None, rcv_wnd := 0\<rparr>)"

definition data_step :: "mos_config \<Rightarrow> ref \<Rightarrow> mtcp_manager \<Rightarrow> mtcp_manager \<Rightarrow> bool" where
  "data_step cfg s m m' \<longleftrightarrow> only s m m' \<and> data_view (strm m' s) = data_view (strm m s)
     \<and> (state (strm m' s) = state (strm m s) \<or> state (strm m' s) = TCP_ST_CLOSED_RSVD)
     \<and> (\<forall>L. s \<in> L \<longrightarrow> lists_ok cfg L m \<longrightarrow> lists_ok cfg L m')"

lemma data_step_trans: "data_step cfg s m m1 \<Longrightarrow> data_step cfg s m1 m2 \<Longrightarrow> data_step cfg s m m2"
  unfolding data_step_def using only_trans by metis

lemma irs_masked: "r\<lparr>rcvbuf := None, rcv_wnd := 0\<rparr> = r'\<lparr>rcvbuf := None, rcv_wnd := 0\<rparr> \<Longrightarrow> irs r = irs r'" for r r' :: tcp_recv_vars
  by (cases r; cases r') simp

lemma payload_commit_views:
  assumes "payload_commit rb t = Some t'"
  shows "data_view t' = data_view t \<and> list_view t' = list_view t \<and> state t' = state t"
  using assms by (auto simp: payload_commit_def data_view_def list_view_def Let_def split: if_splits)

lemma payload_write_part:
  "payload_write cfg s p rb m = Some (rb1, m1) \<Longrightarrow> lists_part m1 = lists_part m"
  by (auto simp: payload_write_def Let_def split: if_splits option.splits)

lemma payload_merge_frame:
  assumes "payload_merge cfg s p rb m = Some (ret, m')"
  shows "data_step cfg s m m' \<and> state (strm m' s) = state (strm m s)"
proof -
  obtain rb1 m1 where w: "payload_write cfg s p rb m = Some (rb1, m1)"
    using assms by (auto simp: payload_merge_def Let_def split: option.splits)
  then obtain t where t: "payload_commit rb1 (strm m1 s) = Some t"
    using assms by (auto simp: payload_merge_def Let_def split: option.splits)
  have m': "m' = mod_strm s (\<lambda>_. t) m1 \<or> m' = RaiseReadEvent s (mod_strm s (\<lambda>_. t) m1)"
    using assms w t by (auto simp: payload_merge_def Let_def split: if_splits)
  have m1: "lists_part m1 = lists_part m" using payload_write_part[OF w] .
  note sm = strm_part[OF m1]
  define m2 where "m2 = mod_strm s (\<lambda>_. t) m1"
  have d2: "data_step cfg s m m2" "state (strm m2 s) = state (strm m s)"
    using payload_commit_views[OF t] sm lists_ok_part[OF m1]
    by (simp_all add: m2_def data_step_def only_def lists_ok_mod_strm)
  show ?thesis
  proof (cases "m' = m2")
    case False
    then have r: "m' = RaiseReadEvent s m2" using m' by (simp add: m2_def)
    obtain a where a: "strm m' s = act a (strm m2 s)" using RaiseReadEvent_frame(2)[of s m2] r by blast
    have v: "data_view (act a (strm m2 s)) = data_view (strm m2 s)" by (simp add: data_view_def)
    show ?thesis using d2 RaiseReadEvent_frame(1,3)[where s = s and m = m2] only_trans
      unfolding data_step_def a v r[symmetric] by auto
  qed (use d2 in simp)
qed

lemma payload_frame:
  assumes "ProcessTCPPayload cfg s p m = Some (ret, m')"
  shows "data_step cfg s m m'"
proof -
  have part: "data_step cfg s m m1" if "lists_part m1 = lists_part m" for m1
    using strm_part[OF that] lists_ok_part[OF that] by (simp add: data_step_def only_def)
  have nomem: "data_step cfg s m (payload_no_mem s m)"
    by (simp add: payload_no_mem_def Let_def data_step_def only_def data_view_def lists_ok_mod_strm list_view_def)
  show ?thesis using assms part nomem payload_merge_frame[of cfg s p _ m ret m']
    by (auto simp: ProcessTCPPayload_def Let_def split: option.splits if_splits)
qed

text \<open>Only the want of memory for a receive buffer changes the state.\<close>

lemma payload_state:
  assumes "ProcessTCPPayload cfg s p m = Some (ret, m')" "rcvbuf (rcvvar (strm m s)) = Some rb"
  shows "state (strm m' s) = state (strm m s)"
proof -
  consider "m' = m" | "m' = error_callbacks (\<lambda>_. True) (strm m s) m" | "payload_merge cfg s p rb m = Some (ret, m')"
    using assms by (auto simp: ProcessTCPPayload_def Let_def split: if_splits)
  then show ?thesis
  proof cases
    case 2
    then show ?thesis using strm_part[OF error_callbacks_part] by simp
  next
    case 3
    then show ?thesis using payload_merge_frame by blast
  qed simp
qed

section \<open>The next expected offset\<close>

text \<open>The offset after the contiguous bytes: what \<open>cftail\<close> is in the code.\<close>

definition next_off :: "tcprb \<Rightarrow> int" where
  "next_off rb = rb_pile rb + tcprb_cflen rb"

lemma next_off_spec:
  assumes i: "rb_inv rb"
  shows "rb_pile rb \<le> next_off rb" and "{rb_pile rb..<next_off rb} \<subseteq> cov (rb_frags rb)"
    and "next_off rb \<notin> cov (rb_frags rb)"
proof -
  have fo: "frags_ok (rb_frags rb)" and ge: "\<forall>f \<in> set (rb_frags rb). rb_head rb \<le> f_head f"
    and hp: "rb_head rb \<le> rb_pile rb" and cp: "{rb_head rb..<rb_pile rb} \<subseteq> cov (rb_frags rb)"
    using i by (auto simp: rb_inv_def)
  have "rb_pile rb \<le> next_off rb \<and> {rb_pile rb..<next_off rb} \<subseteq> cov (rb_frags rb)
    \<and> next_off rb \<notin> cov (rb_frags rb)"
  proof (cases "\<exists>cf rest. rb_frags rb = cf # rest \<and> f_head cf = rb_head rb")
    case True
    then obtain cf rest where f: "rb_frags rb = cf # rest" "f_head cf = rb_head rb" by blast
    have n: "next_off rb = f_tail cf" using f by (simp add: next_off_def tcprb_cflen_def)
    have lt: "f_head cf < f_tail cf" and rest: "x \<in> cov rest \<Longrightarrow> f_tail cf < x" for x
      using fo f(1) cov_ge[of x rest "f_tail cf + 1"] by (force simp: frags_ok_Cons)+
    have "rb_pile rb \<le> f_tail cf"
      using first_frag[of cf rest "rb_head rb" "rb_pile rb"] fo ge cp hp lt f by (cases "rb_head rb < rb_pile rb") auto
    then show ?thesis using f n hp rest[of "f_tail cf"] by auto
  next
    case False
    then have n: "next_off rb = rb_pile rb"
      by (cases "rb_frags rb") (auto simp: next_off_def tcprb_cflen_def)
    have "rb_head rb \<notin> cov (rb_frags rb)"
    proof
      assume h: "rb_head rb \<in> cov (rb_frags rb)"
      then obtain cf rest where f: "rb_frags rb = cf # rest" by (cases "rb_frags rb") auto
      have "f_head cf = rb_head rb \<and> rb_head rb + 1 \<le> f_tail cf"
        by (rule first_frag[of cf rest]) (use fo ge f h in auto)
      then show False using False f by blast
    qed
    then have "rb_pile rb = rb_head rb" using cp hp by (cases "rb_head rb < rb_pile rb") auto
    then show ?thesis using n \<open>rb_head rb \<notin> cov (rb_frags rb)\<close> by simp
  qed
  then show "rb_pile rb \<le> next_off rb" "{rb_pile rb..<next_off rb} \<subseteq> cov (rb_frags rb)"
    "next_off rb \<notin> cov (rb_frags rb)" by blast+
qed

lemma setpile_spec:
  assumes i: "rb_inv rb" and n: "n = next_off rb"
  shows "rb_inv (snd (tcprb_setpile rb n))" and "next_off (snd (tcprb_setpile rb n)) = next_off rb"
    and "\<exists>np. snd (tcprb_setpile rb n) = rb\<lparr>rb_pile := np\<rparr> \<and> (np = rb_pile rb \<or> np = next_off rb)"
    and "rb_pile (snd (tcprb_setpile rb n)) \<le> next_off rb"
proof -
  note s = next_off_spec[OF i]
  have e: "\<exists>np. snd (tcprb_setpile rb n) = rb\<lparr>rb_pile := np\<rparr> \<and> (np = rb_pile rb \<or> np = next_off rb)"
  proof -
    have "snd (tcprb_setpile rb n) = rb \<or> snd (tcprb_setpile rb n) = rb\<lparr>rb_pile := next_off rb\<rparr>"
      unfolding n tcprb_setpile_def by (cases "rb_frags rb") auto
    moreover have "rb = rb\<lparr>rb_pile := rb_pile rb\<rparr>" by simp
    ultimately show ?thesis by metis
  qed
  then show "\<exists>np. snd (tcprb_setpile rb n) = rb\<lparr>rb_pile := np\<rparr> \<and> (np = rb_pile rb \<or> np = next_off rb)" .
  from e obtain np where np: "snd (tcprb_setpile rb n) = rb\<lparr>rb_pile := np\<rparr>" "np = rb_pile rb \<or> np = next_off rb" by blast
  have "next_off (rb\<lparr>rb_pile := next_off rb\<rparr>) = next_off rb \<and> rb_inv (rb\<lparr>rb_pile := next_off rb\<rparr>)
     \<or> snd (tcprb_setpile rb n) = rb"
  proof (cases "\<exists>cf rest. rb_frags rb = cf # rest \<and> f_head cf = rb_head rb")
    case True
    then obtain cf rest where f: "rb_frags rb = cf # rest" "f_head cf = rb_head rb" by blast
    have "{rb_head rb..<next_off rb} \<subseteq> cov (rb_frags rb)"
      using s(2) i by (auto simp: rb_inv_def subset_iff) (meson not_le)
    then have "rb_inv (rb\<lparr>rb_pile := next_off rb\<rparr>)" using i s(1) by (auto simp: rb_inv_def)
    then show ?thesis using f by (simp add: next_off_def tcprb_cflen_def)
  next
    case False
    then show ?thesis unfolding tcprb_setpile_def by (cases "rb_frags rb") auto
  qed
  then show "rb_inv (snd (tcprb_setpile rb n))" "next_off (snd (tcprb_setpile rb n)) = next_off rb"
    "rb_pile (snd (tcprb_setpile rb n)) \<le> next_off rb"
    using np i s(1) by auto
qed

lemma rb_ok_pile:
  assumes "rb_ok g (rb, mp)" "rb_inv (rb\<lparr>rb_pile := np\<rparr>)"
  shows "rb_ok g (rb\<lparr>rb_pile := np\<rparr>, mp)" and "rb_content (rb\<lparr>rb_pile := np\<rparr>) = rb_content rb"
proof -
  have s: "stored (rb\<lparr>rb_pile := np\<rparr>) = stored rb" by (rule stored_cong) (simp_all add: fun_eq_iff stored_def)
  show "rb_content (rb\<lparr>rb_pile := np\<rparr>) = rb_content rb" by (simp add: rb_content_def fun_eq_iff s)
  show "rb_ok g (rb\<lparr>rb_pile := np\<rparr>, mp)" using assms by (simp add: rb_ok_def chain_ok_def s)
qed

lemma next_off_mono:
  assumes "rb_inv rb" "rb_inv rb'" "rb_pile rb \<le> rb_pile rb'"
    and "\<And>x. rb_pile rb' \<le> x \<Longrightarrow> x \<in> cov (rb_frags rb) \<Longrightarrow> x \<in> cov (rb_frags rb')"
  shows "next_off rb \<le> next_off rb'"
proof (rule ccontr)
  assume "\<not> next_off rb \<le> next_off rb'"
  then have "next_off rb' \<in> {rb_pile rb..<next_off rb}" using next_off_spec(1)[OF assms(2)] assms(3) by auto
  then have "next_off rb' \<in> cov (rb_frags rb')"
    using next_off_spec(2)[OF assms(1)] next_off_spec(1)[OF assms(2)] assms(4) by blast
  then show False using next_off_spec(3)[OF assms(2)] by blast
qed

lemma rb_content_iff: "rb_ok g (rb, mp) \<Longrightarrow> rb_content rb x \<noteq> None \<longleftrightarrow> x \<in> cov (rb_frags rb)"
  by (auto simp: rb_content_def rb_ok_def)

text \<open>The effect of one write on what the buffer holds; \<open>rb\<close> is the buffer after \<open>payload_pile\<close>.\<close>

definition written :: "u8 list \<Rightarrow> int \<Rightarrow> tcprb \<Rightarrow> tcprb \<Rightarrow> bool" where
  "written data off rb rb' \<longleftrightarrow>
     rb_head rb \<le> rb_head rb' \<and> rb_head rb' \<le> rb_pile rb \<and>
     rb_content rb' = (\<lambda>x.
       if x < rb_head rb' then None
       else if rb_content rb x = None \<and> off \<le> x \<and> x < off + pwrite_accept rb (int (length data)) off
       then Some (data ! nat (x - off)) else rb_content rb x)"

lemma payload_pile_ok:
  assumes "rb_ok g (rb, mp)"
  shows "rb_ok g (payload_pile t rb, mp)" and "rb_content (payload_pile t rb) = rb_content rb"
    and "next_off (payload_pile t rb) = next_off rb" and "rb_len (payload_pile t rb) = rb_len rb"
    and "rb_pile rb \<le> rb_pile (payload_pile t rb)"
proof -
  have i: "rb_inv rb" using assms by (simp add: rb_ok_def)
  obtain np where np: "snd (tcprb_setpile rb (next_off rb)) = rb\<lparr>rb_pile := np\<rparr>"
    "np = rb_pile rb \<or> np = next_off rb" using setpile_spec(3)[OF i refl] by blast
  note k = rb_ok_pile[OF assms, of np] setpile_spec(1,2)[OF i refl] next_off_spec(1)[OF i]
  show "rb_ok g (payload_pile t rb, mp)" "rb_content (payload_pile t rb) = rb_content rb"
    "next_off (payload_pile t rb) = next_off rb" "rb_len (payload_pile t rb) = rb_len rb"
    "rb_pile rb \<le> rb_pile (payload_pile t rb)"
    using k np assms unfolding payload_pile_def next_off_def[symmetric] by auto
qed

lemma payload_write_spec:
  fixes s :: ref
  assumes ok: "rb_ok (chunk_bytes cfg) (rb, bufseg_pool m)"
    and len: "length (p_payload p) < 65536" "int (length (p_payload p)) < rb_len rb"
    and off_def: "off = seq2loff rb (p_seq p) (irs (rcvvar (strm m s)) + 1)"
  shows "\<exists>rb1 m1. payload_write cfg s p rb m = Some (rb1, m1) \<and> lists_part m1 = lists_part m
    \<and> rb_ok (chunk_bytes cfg) (rb1, bufseg_pool m1) \<and> next_off rb \<le> next_off rb1
    \<and> rb_pile rb1 = rb_pile (payload_pile (strm m s) rb) \<and> rb_len rb1 = rb_len rb
    \<and> written (p_payload p) off (payload_pile (strm m s) rb) rb1"
proof -
  let ?g = "chunk_bytes cfg" and ?t = "strm m s" and ?len = "int (length (p_payload p))"
  define rb0 where "rb0 = payload_pile ?t rb"
  note p0 = payload_pile_ok[OF ok, of ?t, folded rb0_def]
  have l: "uint (p_payloadlen p) = ?len"
    using len(1) by (simp add: p_payloadlen_def take_bit_int_eq_self unsigned_of_nat take_bit_nat_eq_self)
  have i: "rb_inv rb" "rb_inv rb0" using ok p0(1) by (auto simp: rb_ok_def)
  have "0 \<le> rb_head rb" using i by (simp add: rb_inv_def)
  then have off: "0 \<le> off" unfolding off_def seq2loff_def
    using seq2loff_loop_spec[of "rb_head rb" "uint (p_seq p - (irs (rcvvar ?t) + 1))"] by linarith
  have fit: "0 \<le> ?len" "?len < rb_len rb0" using len(2) p0(4) by simp_all
  obtain s1 where "tcprb_pwrite ?g (p_payload p) ?len off (rb0, bufseg_pool m) = Some (pwrite_accept rb0 ?len off, s1)"
    "rb_ok ?g s1 \<and> rb_head (fst s1) = rb_head rb0 + pwrite_adv rb0 ?len off
     \<and> rb_pile (fst s1) = rb_pile rb0 \<and> rb_len (fst s1) = rb_len rb0
     \<and> rb_content (fst s1) = (\<lambda>x. if x < rb_head (fst s1) then None
         else if rb_content rb0 x = None \<and> off \<le> x \<and> x < off + pwrite_accept rb0 ?len off
         then Some (p_payload p ! nat (x - off)) else rb_content rb0 x)"
    using pwrite_step[OF p0(1), unfolded fst_conv, OF fit order.refl, of off] by blast
  then obtain rb1 mp1 where w: "tcprb_pwrite ?g (p_payload p) ?len off (rb0, bufseg_pool m)
        = Some (pwrite_accept rb0 ?len off, rb1, mp1)"
    and ok1: "rb_ok ?g (rb1, mp1)" and h1: "rb_head rb1 = rb_head rb0 + pwrite_adv rb0 ?len off"
    and pile1: "rb_pile rb1 = rb_pile rb0" and len1: "rb_len rb1 = rb_len rb0"
    and c1: "rb_content rb1 = (\<lambda>x. if x < rb_head rb1 then None
         else if rb_content rb0 x = None \<and> off \<le> x \<and> x < off + pwrite_accept rb0 ?len off
         then Some (p_payload p ! nat (x - off)) else rb_content rb0 x)"
    by (cases s1) auto
  have adv: "0 \<le> pwrite_adv rb0 ?len off" "pwrite_adv rb0 ?len off \<le> rb_pile rb0 - rb_head rb0"
    using i(2) by (auto simp: pwrite_adv_def rb_inv_def)
  have pw: "payload_write cfg s p rb m
      = Some (rb1, payload_outrun ?t rb0 ?len off m\<lparr>bufseg_pool := mp1\<rparr>)"
    using off w by (simp add: payload_write_def Let_def off_def[symmetric] rb0_def[symmetric] l)
  have i1: "rb_inv rb1" using ok1 by (simp add: rb_ok_def)
  have "next_off rb0 \<le> next_off rb1"
  proof (rule next_off_mono[OF i(2) i1])
    fix x assume x: "rb_pile rb1 \<le> x" "x \<in> cov (rb_frags rb0)"
    then have "rb_content rb0 x \<noteq> None" using rb_content_iff[OF p0(1), THEN iffD2] by blast
    then have "rb_content rb1 x \<noteq> None" using x(1) adv h1 pile1 unfolding c1 by auto
    then show "x \<in> cov (rb_frags rb1)" by (rule rb_content_iff[OF ok1, THEN iffD1])
  qed (simp add: pile1)
  moreover have "written (p_payload p) off rb0 rb1"
    using adv h1 unfolding written_def by (auto simp: c1)
  ultimately show ?thesis
    using pw ok1 pile1 len1 p0(3,4) by (auto simp: rb0_def[symmetric])
qed

lemma payload_commit_spec:
  assumes i: "rb_inv rb" and n0: "0 \<le> n0" "n0 \<le> next_off rb"
    and r: "rcv_nxt t = irs (rcvvar t) + 1 + word_of_int n0"
  shows "\<exists>t' rb'. payload_commit rb t = Some t' \<and> rcvbuf (rcvvar t') = Some rb'
    \<and> rcv_nxt t' = irs (rcvvar t) + 1 + word_of_int (next_off rb)
    \<and> (\<exists>np. rb' = rb\<lparr>rb_pile := np\<rparr>) \<and> rb_inv rb' \<and> next_off rb' = next_off rb
    \<and> rcv_wnd (rcvvar t') = word_of_int (rb_len rb' - (next_off rb' - rb_pile rb'))"
proof -
  define x where "x = irs (rcvvar t) + 1"
  define n where "n = next_off rb"
  define rb' where "rb' = (if state t = TCP_ST_FIN_WAIT_1 \<or> state t = TCP_ST_FIN_WAIT_2
      then snd (tcprb_setpile rb n) else rb)"
  obtain np where np: "snd (tcprb_setpile rb n) = rb\<lparr>rb_pile := np\<rparr>"
    using setpile_spec(3)[OF i, of n] by (auto simp: n_def)
  have "\<exists>np. rb = rb\<lparr>rb_pile := np\<rparr>" by (rule exI[of _ "rb_pile rb"]) simp
  then have e: "\<exists>np. rb' = rb\<lparr>rb_pile := np\<rparr>" using np by (auto simp: rb'_def)
  then have len: "rb_len rb' = rb_len rb" by auto
  have i': "rb_inv rb'" "next_off rb' = n" "rb_pile rb' \<le> n"
    using i setpile_spec[OF i, of n] next_off_spec(1)[OF i] by (auto simp: rb'_def n_def)
  define nxt where "nxt = (if n > 0 \<and> uint x + n > uint (rcv_nxt t) then word_of_int (uint x + n) else rcv_nxt t)"
  have nxt: "nxt = x + word_of_int n"
  proof (cases "n > 0 \<and> uint x + n > uint (rcv_nxt t)")
    case True
    then show ?thesis by (simp add: nxt_def)
  next
    case False
    then consider "n = n0" | "uint x + n \<le> uint (rcv_nxt t)" using n0 by (fastforce simp: n_def)
    then have "n = n0"
    proof cases
      case 2
      then have "uint x + n0 < 2 ^ 32"
        using n0 unsigned_less[of "rcv_nxt t", where 'a = int] by (simp add: n_def)
      then have "uint (rcv_nxt t) = uint x + n0"
        unfolding r x_def[symmetric] using n0(1) by (intro uint_add_of_int) simp_all
      then show ?thesis using 2 n0 by (simp add: n_def)
    qed simp
    then show ?thesis using False r by (simp add: nxt_def x_def)
  qed
  have "payload_commit rb t = Some (mod_rcv (\<lambda>r. r\<lparr>rcvbuf := Some rb', rcv_wnd := word_of_int (rb_len rb' - (n - rb_pile rb'))\<rparr>)
      (if n > 0 \<and> uint x + n > uint (rcv_nxt t) then t\<lparr>rcv_nxt := word_of_int (uint x + n)\<rparr> else t))"
    unfolding payload_commit_def Let_def next_off_def[symmetric] n_def[symmetric] rb'_def[symmetric] x_def[symmetric]
    using i'(3) by simp
  moreover have "rcv_nxt (if n > 0 \<and> uint x + n > uint (rcv_nxt t) then t\<lparr>rcv_nxt := word_of_int (uint x + n)\<rparr> else t) = nxt"
    by (simp add: nxt_def)
  ultimately show ?thesis using nxt e i' by (auto simp: n_def[symmetric] x_def[symmetric])
qed

text \<open>
  The receive side of a stream is consistent: its buffer is well formed and the next
  expected sequence number is that of the first byte not yet received.
\<close>

definition rcv_ok :: "mos_config \<Rightarrow> ref \<Rightarrow> mtcp_manager \<Rightarrow> tcprb \<Rightarrow> bool" where
  "rcv_ok cfg s m rb \<longleftrightarrow> rcvbuf (rcvvar (strm m s)) = Some rb
     \<and> rb_ok (chunk_bytes cfg) (rb, bufseg_pool m) \<and> rb_len rb < 2 ^ 31
     \<and> rcv_nxt (strm m s) = irs (rcvvar (strm m s)) + 1 + word_of_int (next_off rb)"

definition payload_fits :: "tcp_stream \<Rightarrow> tcprb \<Rightarrow> pkt_ctx \<Rightarrow> bool" where
  "payload_fits t rb p \<longleftrightarrow> buffer_mgmt t \<noteq> 0 \<and> length (p_payload p) < 65536 \<and> int (length (p_payload p)) < rb_len rb
     \<and> \<not> TCP_SEQ_LT (p_seq p + of_nat (length (p_payload p))) (rcv_nxt t)
     \<and> \<not> TCP_SEQ_GT (p_seq p + of_nat (length (p_payload p))) (rcv_nxt t + rcv_wnd (rcvvar t))"

text \<open>What the specification asks of one call.\<close>

definition payload_received :: "mos_config \<Rightarrow> ref \<Rightarrow> pkt_ctx \<Rightarrow> mtcp_manager \<Rightarrow> tcprb \<Rightarrow> bool" where
  "payload_received cfg s p m rb \<longleftrightarrow>
     (\<exists>ret m' rb'. ProcessTCPPayload cfg s p m = Some (ret, m') \<and> rcv_ok cfg s m' rb' \<and> only s m m'
        \<and> (let t = strm m s; rb1 = payload_pile t rb; t' = strm m' s in
             written (p_payload p) (seq2loff rb (p_seq p) (irs (rcvvar t) + 1)) rb1 rb'
             \<and> (\<forall>x. rb_pile rb' \<le> x \<and> x < next_off rb' \<longrightarrow> rb_content rb' x \<noteq> None)
             \<and> rb_content rb' (next_off rb') = None
             \<and> next_off rb \<le> next_off rb'
             \<and> rcv_wnd (rcvvar t') = word_of_int (rb_len rb' - (next_off rb' - rb_pile rb'))))"

lemma ucast_payloadlen: "length (p_payload p) < 65536 \<Longrightarrow> (ucast (p_payloadlen p) :: u32) = of_nat (length (p_payload p))"
  by (rule word_unat_eq_iff[THEN iffD2])
     (simp add: p_payloadlen_def unsigned_ucast_eq unat_of_nat take_bit_nat_eq_self)

lemma payload_step:
  assumes ok: "rcv_ok cfg s m rb" and fits: "payload_fits (strm m s) rb p"
  shows "payload_received cfg s p m rb"
proof -
  let ?t = "strm m s"
  define off where "off = seq2loff rb (p_seq p) (irs (rcvvar ?t) + 1)"
  have o: "rcvbuf (rcvvar ?t) = Some rb" "rb_ok (chunk_bytes cfg) (rb, bufseg_pool m)" "rb_len rb < 2 ^ 31"
    "rcv_nxt ?t = irs (rcvvar ?t) + 1 + word_of_int (next_off rb)"
    using ok by (auto simp: rcv_ok_def)
  have l: "length (p_payload p) < 65536" "int (length (p_payload p)) < rb_len rb"
    using fits by (auto simp: payload_fits_def)
  obtain rb1 m1 where w: "payload_write cfg s p rb m = Some (rb1, m1)" "lists_part m1 = lists_part m"
    "rb_ok (chunk_bytes cfg) (rb1, bufseg_pool m1)" "next_off rb \<le> next_off rb1" "rb_len rb1 = rb_len rb"
    "written (p_payload p) off (payload_pile ?t rb) rb1"
    using payload_write_spec[OF o(2) l off_def] by blast
  have i: "rb_inv rb" "rb_inv rb1" using o(2) w(3) by (auto simp: rb_ok_def)
  have n0: "0 \<le> next_off rb" using next_off_spec(1)[OF i(1)] i(1) by (simp add: rb_inv_def)
  note s1 = strm_part[OF w(2)]
  obtain t' rb' np where c: "payload_commit rb1 ?t = Some t'" "rcvbuf (rcvvar t') = Some rb'"
    "rcv_nxt t' = irs (rcvvar ?t) + 1 + word_of_int (next_off rb1)" "rb' = rb1\<lparr>rb_pile := np\<rparr>" "rb_inv rb'"
    "next_off rb' = next_off rb1" "rcv_wnd (rcvvar t') = word_of_int (rb_len rb' - (next_off rb' - rb_pile rb'))"
    using payload_commit_spec[OF i(2) n0 w(4) o(4)] by blast
  have ok': "rb_ok (chunk_bytes cfg) (rb', bufseg_pool m1)" "rb_content rb' = rb_content rb1" "rb_head rb' = rb_head rb1"
    using rb_ok_pile[OF w(3), of np] c(4,5) by simp_all
  have irs': "irs (rcvvar t') = irs (rcvvar ?t)" by (rule irs_masked) (use payload_commit_views[OF c(1)] in \<open>simp add: data_view_def\<close>)
  define m2 where "m2 = mod_strm s (\<lambda>_. t') m1"
  define m' where "m' = (if TCP_SEQ_LEQ (rcv_nxt t') (rcv_nxt ?t) then m2
    else if state t' = TCP_ST_ESTABLISHED then RaiseReadEvent s m2 else m2)"
  have "ProcessTCPPayload cfg s p m = payload_merge cfg s p rb m"
    using fits o(1) by (simp add: ProcessTCPPayload_def payload_fits_def Let_def ucast_payloadlen)
  also have "payload_merge cfg s p rb m = Some (if TCP_SEQ_LEQ (rcv_nxt t') (rcv_nxt ?t) then 0 else 1, m')"
    using w(1) c(1) s1 by (simp add: payload_merge_def Let_def m'_def m2_def)
  finally have pr: "ProcessTCPPayload cfg s p m = Some (if TCP_SEQ_LEQ (rcv_nxt t') (rcv_nxt ?t) then 0 else 1, m')" .
  obtain a where a: "strm m' s = act a t'"
  proof -
    have "strm m2 s = act 0 t'" by (simp add: m2_def act_0)
    moreover obtain b where "strm (RaiseReadEvent s m2) s = act b (strm m2 s)" using RaiseReadEvent_frame(2) by blast
    ultimately show ?thesis using that unfolding m'_def by (metis (full_types) act_0)
  qed
  have "rcv_ok cfg s m' rb'"
    using a c(2,3,6) ok'(1) o(3) w(5) irs' c(4)
    by (simp add: rcv_ok_def) (simp add: m'_def m2_def)
  moreover have "only s m m'" using payload_frame[OF pr] by (simp add: data_step_def)
  moreover have "rb_content rb' x \<noteq> None" if "rb_pile rb' \<le> x" "x < next_off rb'" for x
    using rb_content_iff[OF ok'(1)] next_off_spec(2)[OF c(5)] that by auto
  moreover have "rb_content rb' (next_off rb') = None"
    using rb_content_iff[OF ok'(1)] next_off_spec(3)[OF c(5)] by blast
  moreover have "written (p_payload p) off (payload_pile ?t rb) rb'"
    using w(6) ok'(2,3) by (simp add: written_def)
  ultimately show ?thesis
    unfolding payload_received_def Let_def off_def[symmetric] using pr a c(6,7) w(4) by auto
qed


text \<open>A fresh 2048-byte buffer and three bytes that arrive at sequence number 101.\<close>

definition pay_demo :: mtcp_manager where
  "pay_demo = (mod_strm 0 (\<lambda>_. mod_rcv (\<lambda>r. r\<lparr>rcvbuf := Some (fst rb_demo), irs := 100, rcv_wnd := 2048\<rparr>)
     (zero_stream\<lparr>state := TCP_ST_ESTABLISHED, stream_type := STREAM_TYPE MOS_SOCK_STREAM, rcv_nxt := 101,
        buffer_mgmt := 2\<rparr>)) zero_mtcp)\<lparr>bufseg_pool := snd rb_demo\<rparr>"

definition pay_cfg :: mos_config where
  "pay_cfg = ack_cfg\<lparr>chunk_bytes := (\<lambda>_. replicate 1024 0)\<rparr>"


end
