(* ===== verification/Tcp_In.thy ===== *)
theory Tcp_In
  imports Tcp_Payload Tcp_Options "HOL-Library.Monad_Syntax"
begin

text \<open>
  The receive half of the TCP state machine, \<open>tcp_in.c\<close>: one handler per state and
  \<open>UpdateRecvTCPContext\<close>, which every packet of a stream goes through.  The handlers send
  nothing; they leave what is to be sent in the stream's \<open>actions\<close>.  \<open>None\<close> is a call
  that does not come back: an option parser that loops, a null pointer, a trap.  Bytes
  after the option area are the payload's.
\<close>

section \<open>Connection set-up\<close>

definition FilterSYNPacket :: "mos_config \<Rightarrow> mtcp_manager \<Rightarrow> u32 \<Rightarrow> u16 \<Rightarrow> bool option" where
  "FilterSYNPacket cfg m ip port =
     (case listener m of
        None \<Rightarrow> Some False
      | Some l \<Rightarrow>
         (case lst_socket (listeners m ! l) of
            None \<Rightarrow> None
          | Some k \<Rightarrow>
             Some (let addr = sk_saddr (smap m k) in
               if sin_port addr = port then
                 (if sin_addr addr \<noteq> 0 then ip = sin_addr addr else ip \<in> set (netdev_ips cfg))
               else False)))"

definition opt_mem :: "pkt_ctx \<Rightarrow> nat \<Rightarrow> u8" where
  "opt_mem p = mem_of (th_opts (p_tcph p) @ p_payload p)"

definition opt_len :: "pkt_ctx \<Rightarrow> int" where
  "opt_len p = int (length (th_opts (p_tcph p)))"

definition HandleActiveOpen :: "ref \<Rightarrow> pkt_ctx \<Rightarrow> mtcp_manager \<Rightarrow> mtcp_manager option" where
  "HandleActiveOpen s p m =
     (let t = mod_rcv (\<lambda>r. r\<lparr>irs := p_seq p, snd_wl1 := p_seq p - 1, last_ack_seq := p_ack_seq p\<rparr>)
                (mod_snd (\<lambda>v. v\<lparr>peer_wnd := ucast (p_window p)\<rparr>)
                   ((strm m s)\<lparr>snd_nxt := p_ack_seq p, rcv_nxt := p_seq p + 1\<rparr>))
      in do {
        t \<leftarrow> ParseTCPOptions (p_cur_ts p) (opt_mem p) (opt_len p) t;
        let t = mod_snd (\<lambda>v. v\<lparr>cwnd := (if cwnd v = 1 then ucast (mss v) * 2 else ucast (mss v)),
                                ssthresh := ucast (mss v) * 10\<rparr>) t;
        let m = mod_strm s (\<lambda>_. t) m;
        Some (if HAS_STREAM_TYPE t MOS_SOCK_STREAM then UpdateRetransmissionTimer s (p_cur_ts p) m else m)
      })"

section \<open>Sequence numbers and resets\<close>

text \<open>Protection against wrapped sequence numbers; the result says whether the segment may pass.\<close>

definition validate_paws :: "ref \<Rightarrow> pkt_ctx \<Rightarrow> mtcp_manager \<Rightarrow> (bool \<times> mtcp_manager) option" where
  "validate_paws s p m =
     (if \<not> th_rst (p_tcph p) \<and> saw_timestamp (strm m s) then do {
        r \<leftarrow> ParseTCPTimestamp (opt_mem p) (opt_len p);
        case r of
          None \<Rightarrow> Some (False, m)
        | Some (ts_val, ts_ref) \<Rightarrow>
            if TCP_SEQ_LT ts_val (ts_recent (rcvvar (strm m s)))
            then Some (False, mod_strm s (act MOS_ACT_SEND_ACK_NOW) m)
            else Some (True, mod_strm s (mod_rcv (\<lambda>r.
                   r\<lparr>ts_last_ts_upd := (if TCP_SEQ_GT ts_val (ts_recent r) then p_cur_ts p else ts_last_ts_upd r),
                     ts_recent := ts_val, ts_lastack_rcvd := ts_ref\<rparr>)) m)
      } else Some (True, m))"

definition validate_window :: "mos_config \<Rightarrow> ref \<Rightarrow> pkt_ctx \<Rightarrow> mtcp_manager \<Rightarrow> bool \<times> mtcp_manager" where
  "validate_window cfg s p m =
     (let t = strm m s in
      if TCP_SEQ_BETWEEN (p_seq p + ucast (p_payloadlen p)) (rcv_nxt t) (rcv_nxt t + rcv_wnd (rcvvar t))
      then (True, m)
      else (False,
        if th_rst (p_tcph p) then m
        else if state t = TCP_ST_ESTABLISHED then
          mod_strm s (act (if p_seq p + 1 = rcv_nxt t then MOS_ACT_SEND_ACK_AGG
                           else if TCP_SEQ_LEQ (p_seq p) (rcv_nxt t) then MOS_ACT_SEND_ACK_AGG
                           else MOS_ACT_SEND_ACK_NOW)) m
        else mod_strm s (act MOS_ACT_SEND_CONTROL)
               (if state t = TCP_ST_TIME_WAIT then AddtoTimewaitList cfg s (p_cur_ts p) m else m)))"

definition ValidateSequence :: "mos_config \<Rightarrow> ref \<Rightarrow> pkt_ctx \<Rightarrow> mtcp_manager \<Rightarrow> (bool \<times> mtcp_manager) option" where
  "ValidateSequence cfg s p m = do {
     (pass, m) \<leftarrow> validate_paws s p m;
     Some (if pass then validate_window cfg s p m else (False, m))
   }"

definition close_stream :: "tcp_close_reason \<Rightarrow> tcp_stream \<Rightarrow> tcp_stream" where
  "close_stream why t = raise_cb MOS_ON_TCP_STATE_CHANGE (t\<lparr>state := TCP_ST_CLOSED_RSVD, close_reason := why\<rparr>)"

definition ProcessRST :: "mos_config \<Rightarrow> ref \<Rightarrow> pkt_ctx \<Rightarrow> mtcp_manager \<Rightarrow> bool \<times> mtcp_manager" where
  "ProcessRST cfg s p m =
     (let t = strm m s; v = sndvar t in
      if state t \<le> TCP_ST_SYN_SENT then (False, m)
      else if state t = TCP_ST_SYN_RCVD then
        (True, if p_seq p = 0 \<or> be_resilient cfg \<and> p_seq p = rcv_nxt t + 1 \<or> p_ack_seq p = snd_nxt t
               then mod_strm s (\<lambda>t. act MOS_ACT_DESTROY (close_stream TCP_RESET t)) m else m)
      else if state t \<in> {TCP_ST_FIN_WAIT_1, TCP_ST_FIN_WAIT_2, TCP_ST_LAST_ACK, TCP_ST_CLOSING, TCP_ST_TIME_WAIT}
      then (True, mod_strm s (\<lambda>t. act MOS_ACT_DESTROY (close_stream TCP_ACTIVE_CLOSE t)) m)
      else (True, if \<not> (on_closeq v \<or> on_closeq_int v \<or> on_resetq v \<or> on_resetq_int v) then
                    (let m = mod_strm s (close_stream TCP_RESET) m
                     in if HAS_STREAM_TYPE t MOS_SOCK_STREAM then RaiseCloseEvent s m else m)
                  else m))"

section \<open>Steps the handlers share\<close>

definition recv_data :: "mos_config \<Rightarrow> ref \<Rightarrow> pkt_ctx \<Rightarrow> mtcp_manager \<Rightarrow> mtcp_manager option" where
  "recv_data cfg s p m =
     (if p_payloadlen p > 0 then do {
        (ret, m) \<leftarrow> ProcessTCPPayload cfg s p m;
        Some (mod_strm s (act (if ret \<noteq> 0 then MOS_ACT_SEND_ACK_AGG else MOS_ACT_SEND_ACK_NOW)) m)
      } else Some m)"

definition recv_ack :: "mos_config \<Rightarrow> ref \<Rightarrow> pkt_ctx \<Rightarrow> mtcp_manager \<Rightarrow> mtcp_manager option" where
  "recv_ack cfg s p m = (if sndbuf (sndvar (strm m s)) \<noteq> None then ProcessACK cfg s p m else Some m)"

definition fin_in_order :: "mos_config \<Rightarrow> pkt_ctx \<Rightarrow> tcp_stream \<Rightarrow> bool" where
  "fin_in_order cfg p t \<longleftrightarrow> buffer_mgmt t = 0 \<or>
     (let seg_end = p_seq p + ucast (p_payloadlen p) in
      if be_resilient cfg then TCP_SEQ_GEQ seg_end (rcv_nxt t) else seg_end = rcv_nxt t)"

text \<open>
  A monitored peer's retransmission of the packet that began its side of the connection
  (or ended it): \<open>f\<close> reads its number from the other half of the pair.
\<close>

definition rexmit_check :: "ref \<Rightarrow> pkt_ctx \<Rightarrow> (tcp_send_vars \<Rightarrow> u32) \<Rightarrow> mtcp_manager \<Rightarrow> mtcp_manager option" where
  "rexmit_check s p f m =
     (case pair_stream (strm m s) of
        None \<Rightarrow> None
      | Some q \<Rightarrow> Some (if p_seq p = f (sndvar (strm m q))
                         then mod_strm s (raise_cb MOS_ON_REXMIT) m else m))"

definition enter_state :: "tcp_state \<Rightarrow> tcp_stream \<Rightarrow> tcp_stream" where
  "enter_state st t = raise_cb MOS_ON_TCP_STATE_CHANGE (t\<lparr>state := st\<rparr>)"

section \<open>The handlers\<close>

definition Handle_TCP_ST_LISTEN :: "ref \<Rightarrow> pkt_ctx \<Rightarrow> mtcp_manager \<Rightarrow> mtcp_manager" where
  "Handle_TCP_ST_LISTEN s p m =
     (if th_syn (p_tcph p) then
        mod_strm s (\<lambda>t.
          let t = (if state t = TCP_ST_LISTEN then t\<lparr>rcv_nxt := rcv_nxt t + 1\<rparr> else t);
              t = act MOS_ACT_SEND_CONTROL
                    (raise_cb (MOS_ON_TCP_STATE_CHANGE OR MOS_ON_CONN_START) (t\<lparr>state := TCP_ST_SYN_RCVD\<rparr>))
          in if IS_STREAM_TYPE t MOS_SOCK_MONITOR_STREAM_ACTIVE
             then mod_rcv (\<lambda>r. r\<lparr>irs := p_seq p\<rparr>) (t\<lparr>rcv_nxt := p_seq p\<rparr>) else t) m
      else m)"

definition established_fin :: "mos_config \<Rightarrow> ref \<Rightarrow> pkt_ctx \<Rightarrow> mtcp_manager \<Rightarrow> mtcp_manager" where
  "established_fin cfg s p m =
     (if th_fin (p_tcph p) then
        if fin_in_order cfg p (strm m s) then
          RaiseReadEvent s (mod_strm s (\<lambda>t.
            let t = (if be_resilient cfg then t\<lparr>rcv_nxt := p_seq p + ucast (p_payloadlen p)\<rparr> else t);
                t = enter_state TCP_ST_CLOSE_WAIT t
            in act MOS_ACT_SEND_CONTROL (t\<lparr>rcv_nxt := rcv_nxt t + 1\<rparr>)) m)
        else mod_strm s (act MOS_ACT_SEND_ACK_NOW) m
      else m)"

definition Handle_TCP_ST_ESTABLISHED :: "mos_config \<Rightarrow> ref \<Rightarrow> pkt_ctx \<Rightarrow> mtcp_manager \<Rightarrow> mtcp_manager option" where
  "Handle_TCP_ST_ESTABLISHED cfg s p m =
     (if th_syn (p_tcph p) then do {
        m \<leftarrow> (if HAS_STREAM_TYPE (strm m s) MOS_SOCK_MONITOR_STREAM_ACTIVE \<and> th_ack (p_tcph p)
              then rexmit_check s p iss m else Some m);
        Some (mod_strm s (\<lambda>t. act MOS_ACT_SEND_CONTROL (t\<lparr>snd_nxt := p_ack_seq p\<rparr>)) m)
      } else do {
        m \<leftarrow> recv_data cfg s p m;
        m \<leftarrow> (if th_ack (p_tcph p) then recv_ack cfg s p m else Some m);
        Some (established_fin cfg s p m)
      })"

definition syn_sent_established :: "mos_config \<Rightarrow> ref \<Rightarrow> pkt_ctx \<Rightarrow> mtcp_manager \<Rightarrow> mtcp_manager option" where
  "syn_sent_established cfg s p m = do {
     m \<leftarrow> HandleActiveOpen s p m;
     let m = (if be_resilient cfg \<and> \<not> th_syn (p_tcph p) then mod_strm s (\<lambda>t. t\<lparr>rcv_nxt := p_seq p\<rparr>) m else m);
     let m = mod_strm s (mod_snd (\<lambda>v. v\<lparr>nrtx := 0\<rparr>)) m;
     let str = HAS_STREAM_TYPE (strm m s) MOS_SOCK_STREAM;
     let m = (if str then RemoveFromRTOList s m else m);
     let m = mod_strm s (enter_state TCP_ST_ESTABLISHED) m;
     let m = (if socket (strm m s) \<noteq> None
              then (if str then RaiseWriteEvent s m else m)
              else mod_strm s (\<lambda>t. act MOS_ACT_DESTROY (act MOS_ACT_SEND_RST
                     (t\<lparr>close_reason := TCP_ACTIVE_CLOSE\<rparr>))) m);
     let m = mod_strm s (act MOS_ACT_SEND_CONTROL) m;
     let m = (if tcp_timeout cfg > 0 \<and> str then AddtoTimeoutList s m else m);
     if be_resilient cfg \<and> \<not> th_syn (p_tcph p) then Handle_TCP_ST_ESTABLISHED cfg s p m else Some m
   }"

definition syn_sent_reset :: "ref \<Rightarrow> pkt_ctx \<Rightarrow> mtcp_manager \<Rightarrow> mtcp_manager" where
  "syn_sent_reset s p m =
     (if th_ack (p_tcph p) then
        let m = mod_strm s (close_stream TCP_RESET) m in
        if socket (strm m s) \<noteq> None
        then (if HAS_STREAM_TYPE (strm m s) MOS_SOCK_STREAM then snd (RaiseErrorEvent s m) else m)
        else mod_strm s (act MOS_ACT_DESTROY) m
      else m)"

definition Handle_TCP_ST_SYN_SENT :: "mos_config \<Rightarrow> ref \<Rightarrow> pkt_ctx \<Rightarrow> mtcp_manager \<Rightarrow> mtcp_manager option" where
  "Handle_TCP_ST_SYN_SENT cfg s p m =
     (let h = p_tcph p; t = strm m s in
      if th_ack h \<and> (TCP_SEQ_LEQ (p_ack_seq p) (iss (sndvar t))
            \<or> \<not> be_resilient cfg \<and> TCP_SEQ_GT (p_ack_seq p) (snd_nxt t))
      then Some (if \<not> th_rst h then mod_strm s (act MOS_ACT_SEND_RST) m else m)
      else let m = (if th_ack h then mod_strm s (mod_snd (\<lambda>v. v\<lparr>snd_una := snd_una v + 1\<rparr>)) m else m) in
        if th_rst h then Some (syn_sent_reset s p m)
        else if th_ack h \<and> (be_resilient cfg \<or> th_syn h) then syn_sent_established cfg s p m
        else if th_syn h
        then Some (mod_strm s (\<lambda>t. act MOS_ACT_SEND_CONTROL
               (enter_state TCP_ST_SYN_RCVD (t\<lparr>snd_nxt := iss (sndvar t)\<rparr>))) m)
        else Some m)"

text \<open>Handing an accepted connection to the listening socket.\<close>

definition accept_stream :: "ref \<Rightarrow> mtcp_manager \<Rightarrow> mtcp_manager option" where
  "accept_stream s m =
     (case listener m of
        None \<Rightarrow> None
      | Some l \<Rightarrow>
         (case map_option (\<lambda>q. StreamEnqueue q s) (lst_acceptq (listeners m ! l)) of
            None \<Rightarrow> None
          | Some (ret, q) \<Rightarrow>
              let m = m\<lparr>listeners := (listeners m)[l := (listeners m ! l)\<lparr>lst_acceptq := Some q\<rparr>]\<rparr>;
                  m = (if ret < 0
                       then mod_strm s (\<lambda>t. act MOS_ACT_SEND_CONTROL (close_stream TCP_NOT_ACCEPTED t)) m
                       else m)
              in Some (case lst_socket (listeners m ! l) of
                   Some k \<Rightarrow> (if epoll (smap m k) AND MOS_EPOLLIN \<noteq> 0
                              then snd (AddEpollEvent MOS_EVENT_QUEUE k MOS_EPOLLIN m) else m)
                 | None \<Rightarrow> m)))"

definition Handle_TCP_ST_SYN_RCVD :: "mos_config \<Rightarrow> ref \<Rightarrow> pkt_ctx \<Rightarrow> mtcp_manager \<Rightarrow> mtcp_manager option" where
  "Handle_TCP_ST_SYN_RCVD cfg s p m =
     (let str = HAS_STREAM_TYPE (strm m s) MOS_SOCK_STREAM in
      if th_ack (p_tcph p) then do {
        let m = mod_strm s (\<lambda>t. mod_snd (\<lambda>v. v\<lparr>snd_una := snd_una v + 1,
                    cwnd := (if cwnd v = 1 then ucast (mss v) * 2 else ucast (mss v)), nrtx := 0\<rparr>)
                  (t\<lparr>snd_nxt := p_ack_seq p, rcv_nxt := irs (rcvvar t) + 1\<rparr>)) m;
        let m = (if str then RemoveFromRTOList s m else m);
        let m = mod_strm s (enter_state TCP_ST_ESTABLISHED) m;
        m \<leftarrow> (if be_resilient cfg \<and> p_ack_seq p \<noteq> iss (sndvar (strm m s)) + 1
              then Handle_TCP_ST_ESTABLISHED cfg s p m else Some m);
        m \<leftarrow> (if str then accept_stream s m else Some m);
        Some (if tcp_timeout cfg > 0 \<and> str then AddtoTimeoutList s m else m)
      } else do {
        m \<leftarrow> (if HAS_STREAM_TYPE (strm m s) MOS_SOCK_MONITOR_STREAM_ACTIVE \<and> th_syn (p_tcph p)
              then rexmit_check s p iss m else Some m);
        Some (mod_strm s (\<lambda>t. act MOS_ACT_SEND_CONTROL (t\<lparr>snd_nxt := iss (sndvar t)\<rparr>)) m)
      })"

definition Handle_TCP_ST_CLOSE_WAIT :: "mos_config \<Rightarrow> ref \<Rightarrow> pkt_ctx \<Rightarrow> mtcp_manager \<Rightarrow> mtcp_manager option" where
  "Handle_TCP_ST_CLOSE_WAIT cfg s p m =
     (if TCP_SEQ_LT (p_seq p) (rcv_nxt (strm m s))
      then Some (mod_strm s (act MOS_ACT_SEND_CONTROL) m)
      else recv_ack cfg s p m)"

definition Handle_TCP_ST_LAST_ACK :: "mos_config \<Rightarrow> ref \<Rightarrow> pkt_ctx \<Rightarrow> mtcp_manager \<Rightarrow> mtcp_manager option" where
  "Handle_TCP_ST_LAST_ACK cfg s p m =
     (if TCP_SEQ_LT (p_seq p) (rcv_nxt (strm m s)) then Some m
      else if th_ack (p_tcph p) then do {
        m \<leftarrow> recv_ack cfg s p m;
        Some (if \<not> is_fin_sent (sndvar (strm m s)) then m
          else if p_ack_seq p = fss (sndvar (strm m s)) + 1 then
            (let m = mod_strm s (mod_snd (\<lambda>v. v\<lparr>snd_una := snd_una v + 1\<rparr>)) m;
                 m = (if HAS_STREAM_TYPE (strm m s) MOS_SOCK_STREAM
                      then UpdateRetransmissionTimer s (p_cur_ts p) m else m)
             in mod_strm s (\<lambda>t. act MOS_ACT_DESTROY (close_stream TCP_PASSIVE_CLOSE t)) m)
          else mod_strm s (act MOS_ACT_SEND_CONTROL) m)
      } else Some (mod_strm s (act MOS_ACT_SEND_CONTROL) m))"

definition fin_acked :: "mos_config \<Rightarrow> pkt_ctx \<Rightarrow> tcp_stream \<Rightarrow> bool" where
  "fin_acked cfg p t \<longleftrightarrow> is_fin_sent (sndvar t) \<and>
     (be_resilient cfg \<and> \<not> HAS_STREAM_TYPE t MOS_SOCK_STREAM \<and> p_ack_seq p = fss (sndvar t)
      \<or> p_ack_seq p = fss (sndvar t) + 1)"

definition fin_wait_1_ack :: "mos_config \<Rightarrow> ref \<Rightarrow> pkt_ctx \<Rightarrow> mtcp_manager \<Rightarrow> mtcp_manager" where
  "fin_wait_1_ack cfg s p m =
     (if fin_acked cfg p (strm m s) then
        let m = mod_strm s (\<lambda>t. mod_snd (\<lambda>v. v\<lparr>snd_una := p_ack_seq p, nrtx := 0\<rparr>)
                  (if TCP_SEQ_GT (p_ack_seq p) (snd_nxt t) then t\<lparr>snd_nxt := p_ack_seq p\<rparr> else t)) m;
            m = (if HAS_STREAM_TYPE (strm m s) MOS_SOCK_STREAM then RemoveFromRTOList s m else m)
        in mod_strm s (enter_state TCP_ST_FIN_WAIT_2) m
      else m)"

definition fin_wait_1_fin :: "mos_config \<Rightarrow> ref \<Rightarrow> pkt_ctx \<Rightarrow> mtcp_manager \<Rightarrow> mtcp_manager" where
  "fin_wait_1_fin cfg s p m =
     (if th_fin (p_tcph p) then
        if fin_in_order cfg p (strm m s) then
          let m = mod_strm s (\<lambda>t. t\<lparr>rcv_nxt := rcv_nxt t + 1\<rparr>) m;
              m = (if state (strm m s) = TCP_ST_FIN_WAIT_1 then mod_strm s (enter_state TCP_ST_CLOSING) m
                   else if state (strm m s) = TCP_ST_FIN_WAIT_2
                   then AddtoTimewaitList cfg s (p_cur_ts p) (mod_strm s (enter_state TCP_ST_TIME_WAIT) m)
                   else m)
          in mod_strm s (act MOS_ACT_SEND_CONTROL) m
        else mod_strm s (act MOS_ACT_SEND_ACK_NOW) m
      else m)"

definition Handle_TCP_ST_FIN_WAIT_1 :: "mos_config \<Rightarrow> ref \<Rightarrow> pkt_ctx \<Rightarrow> mtcp_manager \<Rightarrow> mtcp_manager option" where
  "Handle_TCP_ST_FIN_WAIT_1 cfg s p m =
     (if TCP_SEQ_LT (p_seq p) (rcv_nxt (strm m s))
      then Some (mod_strm s (act MOS_ACT_SEND_CONTROL) m)
      else if th_ack (p_tcph p) then do {
        m \<leftarrow> recv_ack cfg s p m;
        let m = fin_wait_1_ack cfg s p m;
        m \<leftarrow> recv_data cfg s p m;
        Some (fin_wait_1_fin cfg s p m)
      } else Some m)"

definition fin_wait_2_fin :: "mos_config \<Rightarrow> ref \<Rightarrow> pkt_ctx \<Rightarrow> mtcp_manager \<Rightarrow> mtcp_manager" where
  "fin_wait_2_fin cfg s p m =
     (if th_fin (p_tcph p) \<and> fin_in_order cfg p (strm m s) then
        mod_strm s (act MOS_ACT_SEND_CONTROL) (AddtoTimewaitList cfg s (p_cur_ts p)
          (mod_strm s (\<lambda>t. (enter_state TCP_ST_TIME_WAIT t)\<lparr>rcv_nxt := rcv_nxt t + 1\<rparr>) m))
      else m)"

definition Handle_TCP_ST_FIN_WAIT_2 :: "mos_config \<Rightarrow> ref \<Rightarrow> pkt_ctx \<Rightarrow> mtcp_manager \<Rightarrow> mtcp_manager option" where
  "Handle_TCP_ST_FIN_WAIT_2 cfg s p m =
     (if th_ack (p_tcph p) then do {
        m \<leftarrow> recv_ack cfg s p m;
        m \<leftarrow> recv_data cfg s p m;
        Some (fin_wait_2_fin cfg s p m)
      } else Some m)"

definition Handle_TCP_ST_CLOSING :: "mos_config \<Rightarrow> ref \<Rightarrow> pkt_ctx \<Rightarrow> mtcp_manager \<Rightarrow> mtcp_manager option" where
  "Handle_TCP_ST_CLOSING cfg s p m =
     (if th_ack (p_tcph p) then do {
        m \<leftarrow> recv_ack cfg s p m;
        Some (if \<not> is_fin_sent (sndvar (strm m s)) \<or> p_ack_seq p \<noteq> fss (sndvar (strm m s)) + 1 then m
          else (let m = mod_strm s (mod_snd (\<lambda>v. v\<lparr>snd_una := p_ack_seq p\<rparr>)) m;
                    m = (if HAS_STREAM_TYPE (strm m s) MOS_SOCK_STREAM
                         then UpdateRetransmissionTimer s (p_cur_ts p) m else m)
                in AddtoTimewaitList cfg s (p_cur_ts p) (mod_strm s (enter_state TCP_ST_TIME_WAIT) m)))
      } else Some m)"

section \<open>Every packet\<close>

definition recv_window_update :: "pkt_ctx \<Rightarrow> tcp_stream \<Rightarrow> tcp_stream" where
  "recv_window_update p t =
     (mod_snd (\<lambda>v. v\<lparr>peer_wnd := (if th_syn (p_tcph p) then ucast (p_window p)
                                   else push_bit (unat (wscale_peer v)) (ucast (p_window p)))\<rparr>) t)
       \<lparr>last_active_ts := p_cur_ts p\<rparr>"

definition dispatch_state :: "mos_config \<Rightarrow> ref \<Rightarrow> pkt_ctx \<Rightarrow> mtcp_manager \<Rightarrow> mtcp_manager option" where
  "dispatch_state cfg s p m =
     (case state (strm m s) of
        TCP_ST_LISTEN \<Rightarrow> Some (Handle_TCP_ST_LISTEN s p m)
      | TCP_ST_SYN_SENT \<Rightarrow> Handle_TCP_ST_SYN_SENT cfg s p m
      | TCP_ST_SYN_RCVD \<Rightarrow>
          if th_syn (p_tcph p) \<and> p_seq p = irs (rcvvar (strm m s)) then Some (Handle_TCP_ST_LISTEN s p m)
          else do {
            m \<leftarrow> Handle_TCP_ST_SYN_RCVD cfg s p m;
            if p_payloadlen p > 0 \<and> state (strm m s) = TCP_ST_ESTABLISHED
            then Handle_TCP_ST_ESTABLISHED cfg s p m else Some m
          }
      | TCP_ST_ESTABLISHED \<Rightarrow> Handle_TCP_ST_ESTABLISHED cfg s p m
      | TCP_ST_CLOSE_WAIT \<Rightarrow> Handle_TCP_ST_CLOSE_WAIT cfg s p m
      | TCP_ST_LAST_ACK \<Rightarrow> Handle_TCP_ST_LAST_ACK cfg s p m
      | TCP_ST_FIN_WAIT_1 \<Rightarrow> Handle_TCP_ST_FIN_WAIT_1 cfg s p m
      | TCP_ST_FIN_WAIT_2 \<Rightarrow> Handle_TCP_ST_FIN_WAIT_2 cfg s p m
      | TCP_ST_CLOSING \<Rightarrow> Handle_TCP_ST_CLOSING cfg s p m
      | TCP_ST_TIME_WAIT \<Rightarrow>
          Some (mod_strm s (act MOS_ACT_SEND_CONTROL)
            (if on_timewait_list (strm m s)
             then AddtoTimewaitList cfg s (p_cur_ts p) (RemoveFromTimewaitList s m) else m))
      | TCP_ST_CLOSED \<Rightarrow> Some m
      | TCP_ST_CLOSED_RSVD \<Rightarrow> Some m)"

definition recv_note :: "ref \<Rightarrow> pkt_ctx \<Rightarrow> mtcp_manager \<Rightarrow> mtcp_manager" where
  "recv_note s p m =
     (let m = mod_strm s (recv_window_update p) m;
          m = (if HAS_STREAM_TYPE (strm m s) MOS_SOCK_STREAM then UpdateTimeoutList s m else m)
      in if th_rst (p_tcph p) then mod_strm s (\<lambda>t. t\<lparr>have_reset := True\<rparr>) m else m)"

definition recv_state :: "mos_config \<Rightarrow> ref \<Rightarrow> pkt_ctx \<Rightarrow> mtcp_manager \<Rightarrow> mtcp_manager option" where
  "recv_state cfg s p m =
     (let (done, m) = (if th_rst (p_tcph p) \<and> state (strm m s) > TCP_ST_SYN_SENT
                       then ProcessRST cfg s p m else (False, m))
      in if done then Some m
      else do {
        m \<leftarrow> (if HAS_STREAM_TYPE (strm m s) MOS_SOCK_MONITOR_STREAM_ACTIVE \<and> th_fin (p_tcph p)
                 \<and> state (strm m s) \<in> {TCP_ST_CLOSE_WAIT, TCP_ST_LAST_ACK, TCP_ST_CLOSING, TCP_ST_TIME_WAIT}
              then rexmit_check s p fss m else Some m);
        dispatch_state cfg s p m
      })"

text \<open>The result of \<open>ValidateSequence\<close> is not used: an unacceptable segment is processed all the same.\<close>

definition UpdateRecvTCPContext :: "mos_config \<Rightarrow> ref \<Rightarrow> pkt_ctx \<Rightarrow> mtcp_manager \<Rightarrow> mtcp_manager option" where
  "UpdateRecvTCPContext cfg s p m = do {
     m \<leftarrow> (if state (strm m s) > TCP_ST_SYN_RCVD
           then map_option snd (ValidateSequence cfg s p m) else Some m);
     recv_state cfg s p (recv_note s p m)
   }"

section \<open>Frames\<close>

definition framed :: "mos_config \<Rightarrow> ref \<Rightarrow> mtcp_manager \<Rightarrow> mtcp_manager \<Rightarrow> bool" where
  "framed cfg s m m' \<longleftrightarrow> only s m m' \<and> (\<forall>L. s \<in> L \<longrightarrow> lists_ok cfg L m \<longrightarrow> lists_ok cfg L m')"

lemma framed_refl: "framed cfg s m m"
  by (simp add: framed_def)

lemma framed_trans: "framed cfg s m m1 \<Longrightarrow> framed cfg s m1 m2 \<Longrightarrow> framed cfg s m m2"
  using only_trans by (auto simp: framed_def)

lemma framed_quiet: "quiet cfg s m m' \<Longrightarrow> framed cfg s m m'"
  by (simp add: framed_def quiet_def)

lemma framed_data: "data_step cfg s m m' \<Longrightarrow> framed cfg s m m'"
  by (simp add: framed_def data_step_def)

lemma framed_mod:
  assumes "framed cfg s m m1" "\<And>t. list_view (f t) = list_view t"
  shows "framed cfg s m (mod_strm s f m1)"
  using assms by (simp add: framed_def lists_ok_mod_strm)

lemma framed_if: "framed cfg s m a \<Longrightarrow> framed cfg s m b \<Longrightarrow> framed cfg s m (if P then a else b)"
  by simp

lemma framed_listener: "framed cfg s m m1 \<Longrightarrow> framed cfg s m (m1\<lparr>listeners := x\<rparr>)"
  by (simp add: framed_def only_def)

lemmas framed_ops = quiet_ops[THEN framed_quiet, THEN framed_trans[rotated]]

lemmas framed_intros = framed_refl framed_mod framed_if framed_ops framed_listener

text \<open>The same for the state alone.\<close>

lemma state_ops [simp]:
  "state (strm (RemoveFromRTOList s m) s) = state (strm m s)"
  "state (strm (AddtoTimewaitList cfg s ts m) s) = state (strm m s)"
  "state (strm (RemoveFromTimewaitList s m) s) = state (strm m s)"
  "state (strm (AddtoTimeoutList s m) s) = state (strm m s)"
  "state (strm (UpdateTimeoutList s m) s) = state (strm m s)"
  "state (strm (UpdateRetransmissionTimer s ts m) s) = state (strm m s)"
  "state (strm (RaiseReadEvent s m) s) = state (strm m s)"
proof -
  note q = quietD(2)[OF quiet_ops(8)] quietD(2)[OF quiet_ops(9)] quietD(2)[OF quiet_ops(10)] quietD(2)[OF quiet_ops(11)]
    quietD(2)[OF quiet_ops(12)] quietD(2)[OF quiet_ops(13)] quietD(2)[OF quiet_ops(4)]
  have v: "conn_view t = conn_view t' \<Longrightarrow> state t = state t'" for t t' by (simp add: conn_view_def)
  show "state (strm (RemoveFromRTOList s m) s) = state (strm m s)"
    "state (strm (AddtoTimewaitList cfg s ts m) s) = state (strm m s)"
    "state (strm (RemoveFromTimewaitList s m) s) = state (strm m s)"
    "state (strm (AddtoTimeoutList s m) s) = state (strm m s)"
    "state (strm (UpdateTimeoutList s m) s) = state (strm m s)"
    "state (strm (UpdateRetransmissionTimer s ts m) s) = state (strm m s)"
    "state (strm (RaiseReadEvent s m) s) = state (strm m s)"
    by (rule v, rule q)+
qed

lemma state_close [simp]:
  "state (close_stream why t) = TCP_ST_CLOSED_RSVD" "state (enter_state st t) = st"
  by (simp_all add: close_stream_def enter_state_def)

lemma list_view_close [simp]:
  "list_view (close_stream why t) = list_view t" "list_view (enter_state st t) = list_view t"
  by (simp_all add: close_stream_def enter_state_def list_view_def)

section \<open>Frames of the handlers\<close>

lemma set_opt_views:
  "list_view (set_mss v t) = list_view t" "conn_view (set_mss v t) = conn_view t"
  "list_view (set_wscale w t) = list_view t" "conn_view (set_wscale w t) = conn_view t"
  "list_view (set_tstamp ts x t) = list_view t" "conn_view (set_tstamp ts x t) = conn_view t"
  "list_view (t\<lparr>sack_permit := b\<rparr>) = list_view t" "conn_view (t\<lparr>sack_permit := b\<rparr>) = conn_view t"
  by (simp_all add: set_mss_def set_wscale_def set_tstamp_def list_view_def conn_view_def)

lemma parse_opts_views:
  "parse_opts ts mem len i t = Some r \<Longrightarrow> list_view r = list_view t \<and> conn_view r = conn_view t"
  by (rule parse_opts.raw_induct[where P = "\<lambda>ts mem len i t r. list_view r = list_view t \<and> conn_view r = conn_view t",
        rotated], assumption)
     (auto simp: set_opt_views split: if_splits)

lemma ParseTCPOptions_views:
  "ParseTCPOptions ts mem len t = Some r \<Longrightarrow> list_view r = list_view t \<and> conn_view r = conn_view t"
  unfolding ParseTCPOptions_def by (rule parse_opts_views)

lemma framed_mod_at:
  assumes "framed cfg s m m1" "list_view (f (strm m1 s)) = list_view (strm m1 s)"
  shows "framed cfg s m (mod_strm s f m1)"
  using assms by (simp add: framed_def lists_ok_mod_strm)

lemma framed_mod_const:
  assumes "list_view t = list_view (strm m s)"
  shows "framed cfg s m (mod_strm s (\<lambda>_. t) m)"
  by (rule framed_mod_at[OF framed_refl]) (simp add: assms)

lemma HandleActiveOpen_frame:
  assumes "HandleActiveOpen s p m = Some m'"
  shows "framed cfg s m m'" and "state (strm m' s) = state (strm m s)"
proof -
  define t0 where "t0 = mod_rcv (\<lambda>r. r\<lparr>irs := p_seq p, snd_wl1 := p_seq p - 1, last_ack_seq := p_ack_seq p\<rparr>)
                (mod_snd (\<lambda>v. v\<lparr>peer_wnd := ucast (p_window p)\<rparr>)
                   ((strm m s)\<lparr>snd_nxt := p_ack_seq p, rcv_nxt := p_seq p + 1\<rparr>))"
  obtain t1 where t1: "ParseTCPOptions (p_cur_ts p) (opt_mem p) (opt_len p) t0 = Some t1"
    using assms by (auto simp: HandleActiveOpen_def Let_def t0_def bind_eq_Some_conv)
  define t2 where "t2 = mod_snd (\<lambda>v. v\<lparr>cwnd := (if cwnd v = 1 then ucast (mss v) * 2 else ucast (mss v)),
                                ssthresh := ucast (mss v) * 10\<rparr>) t1"
  have v: "list_view t2 = list_view (strm m s)" "state t2 = state (strm m s)"
    using ParseTCPOptions_views[OF t1] by (simp_all add: t0_def t2_def list_view_def conn_view_def)
  have m': "m' = (if HAS_STREAM_TYPE t2 MOS_SOCK_STREAM
      then UpdateRetransmissionTimer s (p_cur_ts p) (mod_strm s (\<lambda>_. t2) m) else mod_strm s (\<lambda>_. t2) m)"
    using assms t1 by (simp add: HandleActiveOpen_def Let_def t0_def[symmetric] t2_def[symmetric] cong: if_cong)
  show "framed cfg s m m'" unfolding m'
    by (intro framed_if framed_ops(13) framed_mod_const v)
  show "state (strm m' s) = state (strm m s)" unfolding m' using v(2) by simp
qed

text \<open>What each shared step does to the state, with its frame.\<close>

lemma recv_data_frame:
  assumes "recv_data cfg s p m = Some m'"
  shows "framed cfg s m m'" and "state (strm m' s) \<in> {state (strm m s), TCP_ST_CLOSED_RSVD}"
proof -
  have "framed cfg s m m' \<and> state (strm m' s) \<in> {state (strm m s), TCP_ST_CLOSED_RSVD}"
  proof (cases "p_payloadlen p > 0")
    case True
    then obtain ret m1 where p: "ProcessTCPPayload cfg s p m = Some (ret, m1)"
      and m': "m' = mod_strm s (act (if ret \<noteq> 0 then MOS_ACT_SEND_ACK_AGG else MOS_ACT_SEND_ACK_NOW)) m1"
      using assms by (auto simp: recv_data_def bind_eq_Some_conv)
    have d: "data_step cfg s m m1" using payload_frame[OF p] .
    have "framed cfg s m m'" unfolding m' by (rule framed_mod[OF framed_data[OF d]]) simp
    then show ?thesis using d by (auto simp: m' data_step_def)
  qed (use assms in \<open>simp add: recv_data_def framed_refl\<close>)
  then show "framed cfg s m m'" "state (strm m' s) \<in> {state (strm m s), TCP_ST_CLOSED_RSVD}" by auto
qed

lemma recv_ack_frame:
  assumes "recv_ack cfg s p m = Some m'"
  shows "framed cfg s m m'" and "state (strm m' s) = state (strm m s)"
  using assms quiet_ProcessACK[of cfg s p m m']
  by (auto simp: recv_ack_def quiet_def framed_def conn_view_def split: if_splits)

lemma rexmit_check_frame:
  assumes "rexmit_check s p f m = Some m'"
  shows "framed cfg s m m'" and "state (strm m' s) = state (strm m s)"
  using assms by (auto simp: rexmit_check_def framed_refl intro!: framed_mod split: option.splits)

lemma validate_frame:
  assumes "ValidateSequence cfg s p m = Some (b, m')"
  shows "framed cfg s m m'" and "state (strm m' s) = state (strm m s)"
proof -
  obtain c m1 where p: "validate_paws s p m = Some (c, m1)"
    and m': "(b, m') = (if c then validate_window cfg s p m1 else (False, m1))"
    using assms by (auto simp: ValidateSequence_def bind_eq_Some_conv)
  have f1: "framed cfg s m m1 \<and> state (strm m1 s) = state (strm m s)"
  proof (cases "\<not> th_rst (p_tcph p) \<and> saw_timestamp (strm m s)")
    case True
    then obtain r where r: "ParseTCPTimestamp (opt_mem p) (opt_len p) = Some r"
      using p by (auto simp: validate_paws_def bind_eq_Some_conv)
    show ?thesis
    proof (cases r)
      case None
      then show ?thesis using p r True by (simp add: validate_paws_def framed_refl)
    next
      case (Some x)
      then obtain a b where "r = Some (a, b)" by (cases x) simp
      then show ?thesis using p r True
        by (auto simp: validate_paws_def intro!: framed_mod framed_refl split: if_splits)
    qed
  qed (use p in \<open>simp add: validate_paws_def framed_refl split: if_splits\<close>)
  have w: "framed cfg s m1 (snd (validate_window cfg s p m1)) \<and>
      state (strm (snd (validate_window cfg s p m1)) s) = state (strm m1 s)"
    by (auto simp: validate_window_def Let_def intro!: framed_intros)
  have "m' = m1 \<or> m' = snd (validate_window cfg s p m1)" using m' by (metis prod.inject snd_conv)
  then show "framed cfg s m m'" "state (strm m' s) = state (strm m s)"
    using f1 w framed_trans by auto
qed

lemma ProcessRST_cases:
  "snd (ProcessRST cfg s p m) \<in> {m, mod_strm s (\<lambda>t. act MOS_ACT_DESTROY (close_stream TCP_RESET t)) m,
     mod_strm s (\<lambda>t. act MOS_ACT_DESTROY (close_stream TCP_ACTIVE_CLOSE t)) m,
     mod_strm s (close_stream TCP_RESET) m, RaiseCloseEvent s (mod_strm s (close_stream TCP_RESET) m)}"
  unfolding ProcessRST_def Let_def by simp

lemma ProcessRST_frame:
  "framed cfg s m (snd (ProcessRST cfg s p m))
   \<and> state (strm (snd (ProcessRST cfg s p m)) s) \<in> {state (strm m s), TCP_ST_CLOSED_RSVD}"
proof -
  have "framed cfg s m m' \<and> state (strm m' s) \<in> {state (strm m s), TCP_ST_CLOSED_RSVD}"
    if "m' \<in> {m, mod_strm s (\<lambda>t. act MOS_ACT_DESTROY (close_stream TCP_RESET t)) m,
     mod_strm s (\<lambda>t. act MOS_ACT_DESTROY (close_stream TCP_ACTIVE_CLOSE t)) m,
     mod_strm s (close_stream TCP_RESET) m, RaiseCloseEvent s (mod_strm s (close_stream TCP_RESET) m)}" for m'
    using that by (auto intro!: framed_intros)
  then show ?thesis using ProcessRST_cases by blast
qed

lemma Handle_LISTEN_frame:
  "framed cfg s m (Handle_TCP_ST_LISTEN s p m)"
  "state (strm (Handle_TCP_ST_LISTEN s p m) s) = (if th_syn (p_tcph p) then TCP_ST_SYN_RCVD else state (strm m s))"
  by (simp_all add: Handle_TCP_ST_LISTEN_def Let_def framed_refl)
     (auto intro!: framed_mod framed_refl simp: list_view_def)

lemma established_fin_frame:
  "framed cfg s m (established_fin cfg s p m)"
  "state (strm (established_fin cfg s p m) s) \<in>
     {state (strm m s)} \<union> (if th_fin (p_tcph p) then {TCP_ST_CLOSE_WAIT} else {})"
proof -
  have v: "list_view (let t = (if b then t\<lparr>rcv_nxt := x\<rparr> else t); t = enter_state st t
      in act a (t\<lparr>rcv_nxt := rcv_nxt t + 1\<rparr>)) = list_view t" for b x a st t
    by (simp add: Let_def list_view_def enter_state_def)
  show "framed cfg s m (established_fin cfg s p m)"
    unfolding established_fin_def by (intro framed_intros v list_view_act)
  show "state (strm (established_fin cfg s p m) s) \<in>
     {state (strm m s)} \<union> (if th_fin (p_tcph p) then {TCP_ST_CLOSE_WAIT} else {})"
    by (simp add: established_fin_def Let_def)
qed

lemma Handle_ESTABLISHED_frame:
  assumes "Handle_TCP_ST_ESTABLISHED cfg s p m = Some m'"
  shows "framed cfg s m m'"
    and "state (strm m' s) \<in> {state (strm m s)} \<union> (if th_syn (p_tcph p) then {} else
       {TCP_ST_CLOSED_RSVD} \<union> (if th_fin (p_tcph p) then {TCP_ST_CLOSE_WAIT} else {}))"
proof -
  have "framed cfg s m m' \<and> state (strm m' s) \<in> {state (strm m s)} \<union> (if th_syn (p_tcph p) then {} else
       {TCP_ST_CLOSED_RSVD} \<union> (if th_fin (p_tcph p) then {TCP_ST_CLOSE_WAIT} else {}))"
  proof (cases "th_syn (p_tcph p)")
    case True
    then obtain m1 where m1: "m1 = m \<or> rexmit_check s p iss m = Some m1"
      and m': "m' = mod_strm s (\<lambda>t. act MOS_ACT_SEND_CONTROL (t\<lparr>snd_nxt := p_ack_seq p\<rparr>)) m1"
      using assms by (auto simp: Handle_TCP_ST_ESTABLISHED_def bind_eq_Some_conv split: if_splits)
    have f: "framed cfg s m m1" "state (strm m1 s) = state (strm m s)"
      using m1 rexmit_check_frame[of s p iss m m1] framed_refl by auto
    show ?thesis unfolding m' using f by (auto intro!: framed_mod simp: list_view_def)
  next
    case False
    then obtain m1 m2 where m1: "recv_data cfg s p m = Some m1" and m2: "m2 = m1 \<or> recv_ack cfg s p m1 = Some m2"
      and m': "m' = established_fin cfg s p m2"
      using assms by (auto simp: Handle_TCP_ST_ESTABLISHED_def bind_eq_Some_conv split: if_splits)
    have f2: "framed cfg s m1 m2" "state (strm m2 s) = state (strm m1 s)"
      using m2 recv_ack_frame[of cfg s p m1 m2] framed_refl by auto
    have "framed cfg s m m'"
      unfolding m' using recv_data_frame(1)[OF m1] f2(1) established_fin_frame(1) framed_trans by blast
    then show ?thesis
      using recv_data_frame(2)[OF m1] f2(2) established_fin_frame(2)[of cfg s p m2] False
      unfolding m' by (auto split: if_splits)
  qed
  then show "framed cfg s m m'" "state (strm m' s) \<in> {state (strm m s)} \<union> (if th_syn (p_tcph p) then {} else
       {TCP_ST_CLOSED_RSVD} \<union> (if th_fin (p_tcph p) then {TCP_ST_CLOSE_WAIT} else {}))" by auto
qed

lemma syn_sent_established_frame:
  assumes "syn_sent_established cfg s p m = Some m'"
  shows "framed cfg s m m'"
    and "state (strm m' s) \<in> {TCP_ST_ESTABLISHED} \<union> (if be_resilient cfg \<and> \<not> th_syn (p_tcph p)
      then {TCP_ST_CLOSED_RSVD} \<union> (if th_fin (p_tcph p) then {TCP_ST_CLOSE_WAIT} else {}) else {})"
proof -
  define tail where "tail m1 = (let
     m = (if be_resilient cfg \<and> \<not> th_syn (p_tcph p) then mod_strm s (\<lambda>t. t\<lparr>rcv_nxt := p_seq p\<rparr>) m1 else m1);
     m = mod_strm s (mod_snd (\<lambda>v. v\<lparr>nrtx := 0\<rparr>)) m;
     str = HAS_STREAM_TYPE (strm m s) MOS_SOCK_STREAM;
     m = (if str then RemoveFromRTOList s m else m);
     m = mod_strm s (enter_state TCP_ST_ESTABLISHED) m;
     m = (if socket (strm m s) \<noteq> None
              then (if str then RaiseWriteEvent s m else m)
              else mod_strm s (\<lambda>t. act MOS_ACT_DESTROY (act MOS_ACT_SEND_RST
                     (t\<lparr>close_reason := TCP_ACTIVE_CLOSE\<rparr>))) m);
     m = mod_strm s (act MOS_ACT_SEND_CONTROL) m
     in (if tcp_timeout cfg > 0 \<and> str then AddtoTimeoutList s m else m))" for m1
  obtain m1 where m1: "HandleActiveOpen s p m = Some m1"
    and m': "(if be_resilient cfg \<and> \<not> th_syn (p_tcph p) then Handle_TCP_ST_ESTABLISHED cfg s p (tail m1)
       else Some (tail m1)) = Some m'"
    using assms unfolding syn_sent_established_def tail_def Let_def by (auto simp: bind_eq_Some_conv cong: if_cong)
  have t: "framed cfg s m1 (tail m1)"
    unfolding tail_def Let_def by (intro framed_intros) (simp_all add: list_view_snd)
  have st: "state (strm (tail m1) s) = TCP_ST_ESTABLISHED"
    unfolding tail_def Let_def by simp
  have f: "framed cfg s m (tail m1)" using HandleActiveOpen_frame(1)[OF m1] t framed_trans by blast
  show "framed cfg s m m'"
    using m' f Handle_ESTABLISHED_frame(1)[of cfg s p "tail m1" m'] framed_trans by (auto split: if_splits)
  show "state (strm m' s) \<in> {TCP_ST_ESTABLISHED} \<union> (if be_resilient cfg \<and> \<not> th_syn (p_tcph p)
      then {TCP_ST_CLOSED_RSVD} \<union> (if th_fin (p_tcph p) then {TCP_ST_CLOSE_WAIT} else {}) else {})"
    using m' st Handle_ESTABLISHED_frame(2)[of cfg s p "tail m1" m'] by (auto split: if_splits)
qed

lemma syn_sent_reset_frame:
  "framed cfg s m (syn_sent_reset s p m)"
  "state (strm (syn_sent_reset s p m) s) = (if th_ack (p_tcph p) then TCP_ST_CLOSED_RSVD else state (strm m s))"
  by (auto simp: syn_sent_reset_def Let_def intro!: framed_intros)

lemma accept_stream_frame:
  assumes "accept_stream s m = Some m'"
  shows "framed cfg s m m'" and "state (strm m' s) \<in> {state (strm m s), TCP_ST_CLOSED_RSVD}"
proof -
  obtain l where l: "listener m = Some l" using assms by (auto simp: accept_stream_def split: option.splits)
  obtain ret q where q: "map_option (\<lambda>q. StreamEnqueue q s) (lst_acceptq (listeners m ! l)) = Some (ret, q)"
    using assms l by (cases "lst_acceptq (listeners m ! l)") (auto simp: accept_stream_def prod_eq_iff)
  define m1 where "m1 = (let m = m\<lparr>listeners := (listeners m)[l := (listeners m ! l)\<lparr>lst_acceptq := Some q\<rparr>]\<rparr> in
      if ret < 0 then mod_strm s (\<lambda>t. act MOS_ACT_SEND_CONTROL (close_stream TCP_NOT_ACCEPTED t)) m else m)"
  have f: "framed cfg s m m1" unfolding m1_def Let_def by (intro framed_intros) simp
  have st: "state (strm m1 s) \<in> {state (strm m s), TCP_ST_CLOSED_RSVD}" by (simp add: m1_def Let_def)
  have "m' = m1 \<or> (\<exists>k. m' = snd (AddEpollEvent MOS_EVENT_QUEUE k MOS_EPOLLIN m1))"
    using assms l q by (auto simp: accept_stream_def m1_def Let_def split: option.splits if_splits)
  then show "framed cfg s m m'" "state (strm m' s) \<in> {state (strm m s), TCP_ST_CLOSED_RSVD}"
    using f st by (auto intro: framed_ops)
qed

lemma Handle_SYN_RCVD_frame:
  assumes "Handle_TCP_ST_SYN_RCVD cfg s p m = Some m'"
  shows "framed cfg s m m'"
    and "state (strm m' s) \<in> {state (strm m s)} \<union> (if th_ack (p_tcph p)
      then {TCP_ST_ESTABLISHED, TCP_ST_CLOSED_RSVD} \<union> (if th_fin (p_tcph p) then {TCP_ST_CLOSE_WAIT} else {}) else {})"
proof -
  have "framed cfg s m m' \<and> state (strm m' s) \<in> {state (strm m s)} \<union> (if th_ack (p_tcph p)
      then {TCP_ST_ESTABLISHED, TCP_ST_CLOSED_RSVD} \<union> (if th_fin (p_tcph p) then {TCP_ST_CLOSE_WAIT} else {}) else {})"
  proof (cases "th_ack (p_tcph p)")
    case False
    then obtain m1 where m1: "m1 = m \<or> rexmit_check s p iss m = Some m1"
      and m': "m' = mod_strm s (\<lambda>t. act MOS_ACT_SEND_CONTROL (t\<lparr>snd_nxt := iss (sndvar t)\<rparr>)) m1"
      using assms by (auto simp: Handle_TCP_ST_SYN_RCVD_def Let_def bind_eq_Some_conv split: if_splits)
    have f: "framed cfg s m m1" "state (strm m1 s) = state (strm m s)"
      using m1 rexmit_check_frame[of s p iss m m1] framed_refl by auto
    show ?thesis unfolding m' using f by (auto intro!: framed_mod)
  next
    case True
    define str where "str = HAS_STREAM_TYPE (strm m s) MOS_SOCK_STREAM"
    define m1 where "m1 = (let m = mod_strm s (\<lambda>t. mod_snd (\<lambda>v. v\<lparr>snd_una := snd_una v + 1,
                    cwnd := (if cwnd v = 1 then ucast (mss v) * 2 else ucast (mss v)), nrtx := 0\<rparr>)
                  (t\<lparr>snd_nxt := p_ack_seq p, rcv_nxt := irs (rcvvar t) + 1\<rparr>)) m;
        m = (if str then RemoveFromRTOList s m else m)
        in mod_strm s (enter_state TCP_ST_ESTABLISHED) m)"
    have f1: "framed cfg s m m1" unfolding m1_def Let_def by (intro framed_intros) (simp_all add: list_view_snd)
    have s1: "state (strm m1 s) = TCP_ST_ESTABLISHED" by (simp add: m1_def Let_def)
    obtain m2 m3 where m2: "m2 = m1 \<or> Handle_TCP_ST_ESTABLISHED cfg s p m1 = Some m2"
      and m3: "m3 = m2 \<or> accept_stream s m2 = Some m3"
      and m': "m' = (if tcp_timeout cfg > 0 \<and> str then AddtoTimeoutList s m3 else m3)"
      using assms True unfolding Handle_TCP_ST_SYN_RCVD_def Let_def str_def[symmetric] m1_def
      by (auto simp: bind_eq_Some_conv cong: if_cong split: if_splits)
    have f2: "framed cfg s m1 m2" "state (strm m2 s) \<in> {TCP_ST_ESTABLISHED, TCP_ST_CLOSED_RSVD} \<union>
        (if th_fin (p_tcph p) then {TCP_ST_CLOSE_WAIT} else {})"
      using m2 Handle_ESTABLISHED_frame[of cfg s p m1 m2] framed_refl s1 by (auto split: if_splits)
    have f3: "framed cfg s m2 m3" "state (strm m3 s) \<in> {state (strm m2 s), TCP_ST_CLOSED_RSVD}"
      using m3 accept_stream_frame[of s m2 m3] framed_refl by auto
    have "framed cfg s m m3" using f1 f2(1) f3(1) framed_trans by blast
    then have "framed cfg s m m'" unfolding m' by (intro framed_if framed_ops)
    then show ?thesis using f2(2) f3(2) True unfolding m' by auto
  qed
  then show "framed cfg s m m'"
    "state (strm m' s) \<in> {state (strm m s)} \<union> (if th_ack (p_tcph p)
      then {TCP_ST_ESTABLISHED, TCP_ST_CLOSED_RSVD} \<union> (if th_fin (p_tcph p) then {TCP_ST_CLOSE_WAIT} else {}) else {})"
    by auto
qed

lemma Handle_SYN_SENT_frame:
  assumes "Handle_TCP_ST_SYN_SENT cfg s p m = Some m'"
  shows "framed cfg s m m'"
    and "state (strm m' s) \<in> {state (strm m s)}
      \<union> (if th_rst (p_tcph p) then if th_ack (p_tcph p) then {TCP_ST_CLOSED_RSVD} else {}
         else if th_ack (p_tcph p) \<and> (be_resilient cfg \<or> th_syn (p_tcph p))
         then {TCP_ST_ESTABLISHED} \<union> (if be_resilient cfg \<and> \<not> th_syn (p_tcph p)
           then {TCP_ST_CLOSED_RSVD} \<union> (if th_fin (p_tcph p) then {TCP_ST_CLOSE_WAIT} else {}) else {})
         else if th_syn (p_tcph p) then {TCP_ST_SYN_RCVD} else {})"
proof -
  define m1 where "m1 = (if th_ack (p_tcph p) then mod_strm s (mod_snd (\<lambda>v. v\<lparr>snd_una := snd_una v + 1\<rparr>)) m else m)"
  have f1: "framed cfg s m m1" "state (strm m1 s) = state (strm m s)"
    by (auto simp: m1_def list_view_snd intro!: framed_intros)
  let ?bad = "th_ack (p_tcph p) \<and> (TCP_SEQ_LEQ (p_ack_seq p) (iss (sndvar (strm m s)))
            \<or> \<not> be_resilient cfg \<and> TCP_SEQ_GT (p_ack_seq p) (snd_nxt (strm m s)))"
  consider (bad) "m' = mod_strm s (act MOS_ACT_SEND_RST) m \<or> m' = m"
    | (rst) "th_rst (p_tcph p)" "m' = syn_sent_reset s p m1"
    | (est) "\<not> th_rst (p_tcph p)" "th_ack (p_tcph p) \<and> (be_resilient cfg \<or> th_syn (p_tcph p))"
        "syn_sent_established cfg s p m1 = Some m'"
    | (syn) "\<not> th_rst (p_tcph p)" "th_syn (p_tcph p)" "\<not> (th_ack (p_tcph p) \<and> (be_resilient cfg \<or> th_syn (p_tcph p)))"
        "m' = mod_strm s (\<lambda>t. act MOS_ACT_SEND_CONTROL (enter_state TCP_ST_SYN_RCVD (t\<lparr>snd_nxt := iss (sndvar t)\<rparr>))) m1"
    | (none) "m' = m1"
    using assms unfolding Handle_TCP_ST_SYN_SENT_def Let_def m1_def[symmetric]
    by (cases ?bad; cases "th_rst (p_tcph p)"; cases "th_ack (p_tcph p) \<and> (be_resilient cfg \<or> th_syn (p_tcph p))";
        cases "th_syn (p_tcph p)"; simp only: if_True if_False option.inject simp_thms; metis)
  then have "framed cfg s m m' \<and> state (strm m' s) \<in> {state (strm m s)}
      \<union> (if th_rst (p_tcph p) then if th_ack (p_tcph p) then {TCP_ST_CLOSED_RSVD} else {}
         else if th_ack (p_tcph p) \<and> (be_resilient cfg \<or> th_syn (p_tcph p))
         then {TCP_ST_ESTABLISHED} \<union> (if be_resilient cfg \<and> \<not> th_syn (p_tcph p)
           then {TCP_ST_CLOSED_RSVD} \<union> (if th_fin (p_tcph p) then {TCP_ST_CLOSE_WAIT} else {}) else {})
         else if th_syn (p_tcph p) then {TCP_ST_SYN_RCVD} else {})"
  proof cases
    case bad
    then show ?thesis by (auto intro!: framed_intros)
  next
    case rst
    then show ?thesis using f1 framed_trans[OF f1(1) syn_sent_reset_frame(1)] syn_sent_reset_frame(2) by auto
  next
    case est
    have "framed cfg s m m'" using framed_trans[OF f1(1) syn_sent_established_frame(1)[OF est(3)]] .
    moreover have "(if th_rst (p_tcph p) then if th_ack (p_tcph p) then {TCP_ST_CLOSED_RSVD} else {}
         else if th_ack (p_tcph p) \<and> (be_resilient cfg \<or> th_syn (p_tcph p))
         then {TCP_ST_ESTABLISHED} \<union> (if be_resilient cfg \<and> \<not> th_syn (p_tcph p)
           then {TCP_ST_CLOSED_RSVD} \<union> (if th_fin (p_tcph p) then {TCP_ST_CLOSE_WAIT} else {}) else {})
         else if th_syn (p_tcph p) then {TCP_ST_SYN_RCVD} else {})
      = {TCP_ST_ESTABLISHED} \<union> (if be_resilient cfg \<and> \<not> th_syn (p_tcph p)
           then {TCP_ST_CLOSED_RSVD} \<union> (if th_fin (p_tcph p) then {TCP_ST_CLOSE_WAIT} else {}) else {})"
      using est(1,2) by simp
    ultimately show ?thesis using syn_sent_established_frame(2)[OF est(3)] by blast
  next
    case syn
    then show ?thesis using f1 by (auto intro!: framed_mod)
  next
    case none
    then show ?thesis using f1 by auto
  qed
  then show "framed cfg s m m'" "state (strm m' s) \<in> {state (strm m s)}
      \<union> (if th_rst (p_tcph p) then if th_ack (p_tcph p) then {TCP_ST_CLOSED_RSVD} else {}
         else if th_ack (p_tcph p) \<and> (be_resilient cfg \<or> th_syn (p_tcph p))
         then {TCP_ST_ESTABLISHED} \<union> (if be_resilient cfg \<and> \<not> th_syn (p_tcph p)
           then {TCP_ST_CLOSED_RSVD} \<union> (if th_fin (p_tcph p) then {TCP_ST_CLOSE_WAIT} else {}) else {})
         else if th_syn (p_tcph p) then {TCP_ST_SYN_RCVD} else {})"
    by blast+
qed

lemma Handle_CLOSE_WAIT_frame:
  assumes "Handle_TCP_ST_CLOSE_WAIT cfg s p m = Some m'"
  shows "framed cfg s m m'" and "state (strm m' s) = state (strm m s)"
  using assms recv_ack_frame[of cfg s p m m']
  by (auto simp: Handle_TCP_ST_CLOSE_WAIT_def intro!: framed_intros split: if_splits)

lemma Handle_LAST_ACK_frame:
  assumes "Handle_TCP_ST_LAST_ACK cfg s p m = Some m'"
  shows "framed cfg s m m'"
    and "state (strm m' s) \<in> {state (strm m s)} \<union> (if th_ack (p_tcph p) then {TCP_ST_CLOSED_RSVD} else {})"
proof -
  define fin where "fin m1 = (let m = mod_strm s (mod_snd (\<lambda>v. v\<lparr>snd_una := snd_una v + 1\<rparr>)) m1;
                 m = (if HAS_STREAM_TYPE (strm m s) MOS_SOCK_STREAM
                      then UpdateRetransmissionTimer s (p_cur_ts p) m else m)
             in mod_strm s (\<lambda>t. act MOS_ACT_DESTROY (close_stream TCP_PASSIVE_CLOSE t)) m)" for m1
  have ff: "framed cfg s m1 (fin m1)" "state (strm (fin m1) s) = TCP_ST_CLOSED_RSVD" for m1
    unfolding fin_def Let_def by (intro framed_intros; simp add: list_view_snd) simp
  consider "m' = m \<or> m' = mod_strm s (act MOS_ACT_SEND_CONTROL) m"
    | m1 where "th_ack (p_tcph p)" "recv_ack cfg s p m = Some m1"
        "m' = m1 \<or> m' = fin m1 \<or> m' = mod_strm s (act MOS_ACT_SEND_CONTROL) m1"
    using assms by (auto simp: Handle_TCP_ST_LAST_ACK_def fin_def bind_eq_Some_conv split: if_splits)
  then have "framed cfg s m m' \<and>
    state (strm m' s) \<in> {state (strm m s)} \<union> (if th_ack (p_tcph p) then {TCP_ST_CLOSED_RSVD} else {})"
  proof cases
    case 1
    then show ?thesis by (auto intro!: framed_intros)
  next
    case (2 m1)
    note r = recv_ack_frame[OF 2(2)]
    have "framed cfg s m1 m'" using 2(3) ff(1) by (auto intro!: framed_intros)
    then show ?thesis using r 2(1,3) ff(2) framed_trans[OF r(1)] by auto
  qed
  then show "framed cfg s m m'"
    "state (strm m' s) \<in> {state (strm m s)} \<union> (if th_ack (p_tcph p) then {TCP_ST_CLOSED_RSVD} else {})" by blast+
qed

lemma fin_wait_1_ack_frame:
  "framed cfg s m (fin_wait_1_ack cfg s p m)"
  "state (strm (fin_wait_1_ack cfg s p m) s) \<in> {state (strm m s), TCP_ST_FIN_WAIT_2}"
proof -
  have v: "list_view (mod_snd (\<lambda>v. v\<lparr>snd_una := x, nrtx := 0\<rparr>) (if b then t\<lparr>snd_nxt := y\<rparr> else t)) = list_view t"
    for x y b t by (simp add: list_view_snd)
  show "framed cfg s m (fin_wait_1_ack cfg s p m)"
    unfolding fin_wait_1_ack_def Let_def by (intro framed_intros v list_view_close)
  show "state (strm (fin_wait_1_ack cfg s p m) s) \<in> {state (strm m s), TCP_ST_FIN_WAIT_2}"
    by (simp add: fin_wait_1_ack_def Let_def)
qed

lemma fin_wait_1_fin_frame:
  "framed cfg s m (fin_wait_1_fin cfg s p m)"
  "state (strm (fin_wait_1_fin cfg s p m) s) \<in> {state (strm m s)} \<union>
     (if th_fin (p_tcph p) then (if state (strm m s) = TCP_ST_FIN_WAIT_1 then {TCP_ST_CLOSING} else {})
        \<union> (if state (strm m s) = TCP_ST_FIN_WAIT_2 then {TCP_ST_TIME_WAIT} else {}) else {})"
proof -
  show "framed cfg s m (fin_wait_1_fin cfg s p m)"
    unfolding fin_wait_1_fin_def Let_def by (intro framed_intros) simp_all
  show "state (strm (fin_wait_1_fin cfg s p m) s) \<in> {state (strm m s)} \<union>
     (if th_fin (p_tcph p) then (if state (strm m s) = TCP_ST_FIN_WAIT_1 then {TCP_ST_CLOSING} else {})
        \<union> (if state (strm m s) = TCP_ST_FIN_WAIT_2 then {TCP_ST_TIME_WAIT} else {}) else {})"
    by (simp add: fin_wait_1_fin_def Let_def)
qed

lemma Handle_FIN_WAIT_1_frame:
  assumes "Handle_TCP_ST_FIN_WAIT_1 cfg s p m = Some m'" and st: "state (strm m s) = TCP_ST_FIN_WAIT_1"
  shows "framed cfg s m m'"
    and "state (strm m' s) \<in> {TCP_ST_FIN_WAIT_1} \<union> (if th_ack (p_tcph p) then {TCP_ST_FIN_WAIT_2, TCP_ST_CLOSED_RSVD}
      \<union> (if th_fin (p_tcph p) then {TCP_ST_CLOSING, TCP_ST_TIME_WAIT} else {}) else {})"
proof -
  consider "m' = m \<or> m' = mod_strm s (act MOS_ACT_SEND_CONTROL) m"
    | m1 m2 where "th_ack (p_tcph p)" "recv_ack cfg s p m = Some m1"
        "recv_data cfg s p (fin_wait_1_ack cfg s p m1) = Some m2" "m' = fin_wait_1_fin cfg s p m2"
    using assms by (auto simp: Handle_TCP_ST_FIN_WAIT_1_def bind_eq_Some_conv split: if_splits)
  then have "framed cfg s m m' \<and> state (strm m' s) \<in> {TCP_ST_FIN_WAIT_1} \<union>
     (if th_ack (p_tcph p) then {TCP_ST_FIN_WAIT_2, TCP_ST_CLOSED_RSVD}
      \<union> (if th_fin (p_tcph p) then {TCP_ST_CLOSING, TCP_ST_TIME_WAIT} else {}) else {})"
  proof cases
    case 1
    then show ?thesis using st by (auto intro!: framed_intros)
  next
    case (2 m1 m2)
    note a = recv_ack_frame[OF 2(2)] and d = recv_data_frame[OF 2(3)]
    have "framed cfg s m m'"
      unfolding 2(4) by (rule framed_trans[OF a(1)], rule framed_trans[OF fin_wait_1_ack_frame(1)],
          rule framed_trans[OF d(1)], rule fin_wait_1_fin_frame(1))
    moreover have "state (strm m2 s) \<in> {TCP_ST_FIN_WAIT_1, TCP_ST_FIN_WAIT_2, TCP_ST_CLOSED_RSVD}"
      using a(2) d(2) fin_wait_1_ack_frame(2)[of cfg s p m1] st by auto
    ultimately show ?thesis using fin_wait_1_fin_frame(2)[of cfg s p m2] 2(1) unfolding 2(4) by (auto split: if_splits)
  qed
  then show "framed cfg s m m'" "state (strm m' s) \<in> {TCP_ST_FIN_WAIT_1} \<union>
     (if th_ack (p_tcph p) then {TCP_ST_FIN_WAIT_2, TCP_ST_CLOSED_RSVD}
      \<union> (if th_fin (p_tcph p) then {TCP_ST_CLOSING, TCP_ST_TIME_WAIT} else {}) else {})" by blast+
qed

lemma fin_wait_2_fin_frame:
  "framed cfg s m (fin_wait_2_fin cfg s p m)"
  "state (strm (fin_wait_2_fin cfg s p m) s) \<in> {state (strm m s)} \<union>
     (if th_fin (p_tcph p) then {TCP_ST_TIME_WAIT} else {})"
proof -
  show "framed cfg s m (fin_wait_2_fin cfg s p m)"
    unfolding fin_wait_2_fin_def by (intro framed_intros) simp_all
  show "state (strm (fin_wait_2_fin cfg s p m) s) \<in> {state (strm m s)} \<union>
     (if th_fin (p_tcph p) then {TCP_ST_TIME_WAIT} else {})"
    by (simp add: fin_wait_2_fin_def)
qed

lemma Handle_FIN_WAIT_2_frame:
  assumes "Handle_TCP_ST_FIN_WAIT_2 cfg s p m = Some m'"
  shows "framed cfg s m m'"
    and "state (strm m' s) \<in> {state (strm m s)} \<union> (if th_ack (p_tcph p) then {TCP_ST_CLOSED_RSVD}
      \<union> (if th_fin (p_tcph p) then {TCP_ST_TIME_WAIT} else {}) else {})"
proof -
  consider "m' = m" | m1 m2 where "th_ack (p_tcph p)" "recv_ack cfg s p m = Some m1"
        "recv_data cfg s p m1 = Some m2" "m' = fin_wait_2_fin cfg s p m2"
    using assms by (auto simp: Handle_TCP_ST_FIN_WAIT_2_def bind_eq_Some_conv split: if_splits)
  then have "framed cfg s m m' \<and> state (strm m' s) \<in> {state (strm m s)} \<union>
     (if th_ack (p_tcph p) then {TCP_ST_CLOSED_RSVD}
      \<union> (if th_fin (p_tcph p) then {TCP_ST_TIME_WAIT} else {}) else {})"
  proof cases
    case (2 m1 m2)
    note a = recv_ack_frame[OF 2(2)] and d = recv_data_frame[OF 2(3)]
    have "framed cfg s m m'"
      unfolding 2(4) by (rule framed_trans[OF a(1)], rule framed_trans[OF d(1)], rule fin_wait_2_fin_frame(1))
    then show ?thesis using fin_wait_2_fin_frame(2)[of cfg s p m2] 2(1) a(2) d(2) unfolding 2(4) by (auto split: if_splits)
  qed (simp add: framed_refl)
  then show "framed cfg s m m'" "state (strm m' s) \<in> {state (strm m s)} \<union>
     (if th_ack (p_tcph p) then {TCP_ST_CLOSED_RSVD}
      \<union> (if th_fin (p_tcph p) then {TCP_ST_TIME_WAIT} else {}) else {})" by blast+
qed

lemma Handle_CLOSING_frame:
  assumes "Handle_TCP_ST_CLOSING cfg s p m = Some m'"
  shows "framed cfg s m m'"
    and "state (strm m' s) \<in> {state (strm m s)} \<union> (if th_ack (p_tcph p) then {TCP_ST_TIME_WAIT} else {})"
proof -
  define fin where "fin m1 = (let m = mod_strm s (mod_snd (\<lambda>v. v\<lparr>snd_una := p_ack_seq p\<rparr>)) m1;
                    m = (if HAS_STREAM_TYPE (strm m s) MOS_SOCK_STREAM
                         then UpdateRetransmissionTimer s (p_cur_ts p) m else m)
                in AddtoTimewaitList cfg s (p_cur_ts p) (mod_strm s (enter_state TCP_ST_TIME_WAIT) m))" for m1
  have ff: "framed cfg s m1 (fin m1)" "state (strm (fin m1) s) = TCP_ST_TIME_WAIT" for m1
    unfolding fin_def Let_def by (intro framed_intros; simp add: list_view_snd) simp
  consider "m' = m" | m1 where "th_ack (p_tcph p)" "recv_ack cfg s p m = Some m1" "m' = m1 \<or> m' = fin m1"
    using assms by (auto simp: Handle_TCP_ST_CLOSING_def fin_def bind_eq_Some_conv split: if_splits)
  then have "framed cfg s m m' \<and>
    state (strm m' s) \<in> {state (strm m s)} \<union> (if th_ack (p_tcph p) then {TCP_ST_TIME_WAIT} else {})"
  proof cases
    case (2 m1)
    note r = recv_ack_frame[OF 2(2)]
    then show ?thesis using 2(1,3) ff framed_trans[OF r(1)] by auto
  qed (simp add: framed_refl)
  then show "framed cfg s m m'"
    "state (strm m' s) \<in> {state (strm m s)} \<union> (if th_ack (p_tcph p) then {TCP_ST_TIME_WAIT} else {})" by blast+
qed

end
