(* ===== verification/Tcp_Machine.thy ===== *)
theory Tcp_Machine
  imports Tcp_In
begin

text \<open>
  What the receive half does to a connection's state: the edges of the state machine, the
  frame of \<open>UpdateRecvTCPContext\<close>, and the packets that open, close and reset.
\<close>

section \<open>The edges of the state machine\<close>

text \<open>
  Which packet may move a connection from which state to which.  \<open>res\<close> is the build flag
  \<open>BE_RESILIENT_TO_PACKET_DROP\<close>, \<open>h\<close> the packet's header.
\<close>

inductive tcp_edge :: "bool \<Rightarrow> tcphdr \<Rightarrow> tcp_state \<Rightarrow> tcp_state \<Rightarrow> bool" for res h where
  stay: "tcp_edge res h st st"
| reset: "th_rst h \<Longrightarrow> TCP_ST_SYN_SENT \<le> st \<Longrightarrow> tcp_edge res h st TCP_ST_CLOSED_RSVD"
| passive_open: "th_syn h \<Longrightarrow> tcp_edge res h TCP_ST_LISTEN TCP_ST_SYN_RCVD"
| simultaneous_open: "th_syn h \<Longrightarrow> \<not> th_ack h \<Longrightarrow> tcp_edge res h TCP_ST_SYN_SENT TCP_ST_SYN_RCVD"
| opened: "th_ack h \<Longrightarrow> \<not> th_rst h \<Longrightarrow> th_syn h \<or> res \<Longrightarrow> tcp_edge res h TCP_ST_SYN_SENT TCP_ST_ESTABLISHED"
| late_open: "th_ack h \<Longrightarrow> \<not> th_rst h \<Longrightarrow> \<not> th_syn h \<Longrightarrow> res \<Longrightarrow> st = TCP_ST_CLOSED_RSVD \<or> th_fin h \<and> st = TCP_ST_CLOSE_WAIT \<Longrightarrow>
    tcp_edge res h TCP_ST_SYN_SENT st"
| accepted: "th_ack h \<Longrightarrow> tcp_edge res h TCP_ST_SYN_RCVD TCP_ST_ESTABLISHED"
| not_accepted: "th_ack h \<Longrightarrow> tcp_edge res h TCP_ST_SYN_RCVD TCP_ST_CLOSED_RSVD"
| accepted_fin: "th_ack h \<Longrightarrow> th_fin h \<Longrightarrow> tcp_edge res h TCP_ST_SYN_RCVD TCP_ST_CLOSE_WAIT"
| passive_close: "th_fin h \<Longrightarrow> \<not> th_syn h \<Longrightarrow> tcp_edge res h TCP_ST_ESTABLISHED TCP_ST_CLOSE_WAIT"
| no_memory: "\<not> th_syn h \<Longrightarrow> tcp_edge res h TCP_ST_ESTABLISHED TCP_ST_CLOSED_RSVD"
| no_memory_closing: "th_ack h \<Longrightarrow> st \<in> {TCP_ST_FIN_WAIT_1, TCP_ST_FIN_WAIT_2} \<Longrightarrow> tcp_edge res h st TCP_ST_CLOSED_RSVD"
| fin_acked: "th_ack h \<Longrightarrow> tcp_edge res h TCP_ST_FIN_WAIT_1 TCP_ST_FIN_WAIT_2"
| simultaneous_close: "th_ack h \<Longrightarrow> th_fin h \<Longrightarrow> tcp_edge res h TCP_ST_FIN_WAIT_1 TCP_ST_CLOSING"
| fin_fin: "th_ack h \<Longrightarrow> th_fin h \<Longrightarrow> st \<in> {TCP_ST_FIN_WAIT_1, TCP_ST_FIN_WAIT_2} \<Longrightarrow> tcp_edge res h st TCP_ST_TIME_WAIT"
| closing_acked: "th_ack h \<Longrightarrow> tcp_edge res h TCP_ST_CLOSING TCP_ST_TIME_WAIT"
| last_acked: "th_ack h \<Longrightarrow> tcp_edge res h TCP_ST_LAST_ACK TCP_ST_CLOSED_RSVD"

code_pred tcp_edge .

text \<open>The targets the handlers' frames name are edges.\<close>

lemma edge_from_rcvd:
  assumes "st \<in> {TCP_ST_SYN_RCVD} \<union> (if th_ack h
      then {TCP_ST_ESTABLISHED, TCP_ST_CLOSED_RSVD} \<union> (if th_fin h then {TCP_ST_CLOSE_WAIT} else {}) else {})"
  shows "tcp_edge res h TCP_ST_SYN_RCVD st"
  using assms accepted not_accepted accepted_fin stay by (auto split: if_splits)

lemma dispatch_frame:
  assumes "dispatch_state cfg s p m = Some m'"
  shows "framed cfg s m m'"
    and "tcp_edge (be_resilient cfg) (p_tcph p) (state (strm m s)) (state (strm m' s))"
proof -
  let ?h = "p_tcph p" and ?res = "be_resilient cfg" and ?a = "state (strm m s)" and ?b = "state (strm m' s)"
  have "framed cfg s m m' \<and> tcp_edge ?res ?h ?a ?b"
  proof (cases ?a)
    case TCP_ST_LISTEN
    then have "m' = Handle_TCP_ST_LISTEN s p m" using assms by (simp add: dispatch_state_def)
    then show ?thesis using TCP_ST_LISTEN Handle_LISTEN_frame by (auto intro: tcp_edge.intros)
  next
    case TCP_ST_SYN_SENT
    then have r: "Handle_TCP_ST_SYN_SENT cfg s p m = Some m'" using assms by (simp add: dispatch_state_def)
    have "TCP_ST_SYN_SENT \<le> TCP_ST_SYN_SENT" by simp
    then show ?thesis using Handle_SYN_SENT_frame[OF r] TCP_ST_SYN_SENT
      by (auto intro: tcp_edge.intros split: if_splits)
  next
    case TCP_ST_SYN_RCVD
    show ?thesis
    proof (cases "th_syn ?h \<and> p_seq p = irs (rcvvar (strm m s))")
      case True
      then have "m' = Handle_TCP_ST_LISTEN s p m" using assms TCP_ST_SYN_RCVD by (simp add: dispatch_state_def)
      then show ?thesis using TCP_ST_SYN_RCVD Handle_LISTEN_frame by (auto intro: tcp_edge.intros)
    next
      case False
      then obtain m1 where m1: "Handle_TCP_ST_SYN_RCVD cfg s p m = Some m1"
        and m': "m' = m1 \<or> state (strm m1 s) = TCP_ST_ESTABLISHED \<and> Handle_TCP_ST_ESTABLISHED cfg s p m1 = Some m'"
        using assms TCP_ST_SYN_RCVD by (auto simp: dispatch_state_def bind_eq_Some_conv split: if_splits)
      note f = Handle_SYN_RCVD_frame[OF m1]
      show ?thesis
      proof (cases "m' = m1")
        case True
        then show ?thesis using f edge_from_rcvd TCP_ST_SYN_RCVD by auto
      next
        case False
        then have e: "state (strm m1 s) = TCP_ST_ESTABLISHED" "Handle_TCP_ST_ESTABLISHED cfg s p m1 = Some m'"
          using m' by auto
        have "th_ack ?h" using e(1) f(2) TCP_ST_SYN_RCVD by (cases "th_ack ?h") auto
        then have "?b \<in> {TCP_ST_SYN_RCVD} \<union> (if th_ack ?h
            then {TCP_ST_ESTABLISHED, TCP_ST_CLOSED_RSVD} \<union> (if th_fin ?h then {TCP_ST_CLOSE_WAIT} else {}) else {})"
          using Handle_ESTABLISHED_frame(2)[OF e(2)] e(1) by (cases "th_syn ?h") auto
        then show ?thesis
          using edge_from_rcvd TCP_ST_SYN_RCVD framed_trans[OF f(1) Handle_ESTABLISHED_frame(1)[OF e(2)]] by simp
      qed
    qed
  next
    case TCP_ST_ESTABLISHED
    then have "Handle_TCP_ST_ESTABLISHED cfg s p m = Some m'" using assms by (simp add: dispatch_state_def)
    from Handle_ESTABLISHED_frame[OF this] show ?thesis using TCP_ST_ESTABLISHED
      by (auto intro: tcp_edge.intros split: if_splits)
  next
    case TCP_ST_CLOSE_WAIT
    then have "Handle_TCP_ST_CLOSE_WAIT cfg s p m = Some m'" using assms by (simp add: dispatch_state_def)
    from Handle_CLOSE_WAIT_frame[OF this] show ?thesis by (auto intro: tcp_edge.intros)
  next
    case TCP_ST_LAST_ACK
    then have "Handle_TCP_ST_LAST_ACK cfg s p m = Some m'" using assms by (simp add: dispatch_state_def)
    from Handle_LAST_ACK_frame[OF this] show ?thesis using TCP_ST_LAST_ACK
      by (auto intro: tcp_edge.intros split: if_splits)
  next
    case TCP_ST_FIN_WAIT_1
    then have "Handle_TCP_ST_FIN_WAIT_1 cfg s p m = Some m'" using assms by (simp add: dispatch_state_def)
    from Handle_FIN_WAIT_1_frame[OF this TCP_ST_FIN_WAIT_1] show ?thesis using TCP_ST_FIN_WAIT_1
      by (auto intro: tcp_edge.intros split: if_splits)
  next
    case TCP_ST_FIN_WAIT_2
    then have "Handle_TCP_ST_FIN_WAIT_2 cfg s p m = Some m'" using assms by (simp add: dispatch_state_def)
    from Handle_FIN_WAIT_2_frame[OF this] show ?thesis using TCP_ST_FIN_WAIT_2
      by (auto intro: tcp_edge.intros split: if_splits)
  next
    case TCP_ST_CLOSING
    then have "Handle_TCP_ST_CLOSING cfg s p m = Some m'" using assms by (simp add: dispatch_state_def)
    from Handle_CLOSING_frame[OF this] show ?thesis using TCP_ST_CLOSING
      by (auto intro: tcp_edge.intros split: if_splits)
  next
    case TCP_ST_TIME_WAIT
    then show ?thesis using assms
      by (auto simp: dispatch_state_def intro!: framed_intros intro: tcp_edge.intros split: if_splits)
  qed (use assms in \<open>auto simp: dispatch_state_def framed_refl intro: tcp_edge.intros\<close>)
  then show "framed cfg s m m'" "tcp_edge ?res ?h ?a ?b" by blast+
qed

lemma ProcessRST_not_done: "\<not> fst (ProcessRST cfg s p m) \<Longrightarrow> snd (ProcessRST cfg s p m) = m"
  by (auto simp: ProcessRST_def Let_def split: if_splits)

lemma recv_note_frame:
  "framed cfg s m (recv_note s p m)" "state (strm (recv_note s p m) s) = state (strm m s)"
proof -
  have rw: "list_view (recv_window_update p t) = list_view t" "state (recv_window_update p t) = state t" for t
    by (simp_all add: recv_window_update_def list_view_snd)
  show "framed cfg s m (recv_note s p m)"
    unfolding recv_note_def Let_def by (intro framed_intros rw; simp)
  show "state (strm (recv_note s p m) s) = state (strm m s)"
    unfolding recv_note_def Let_def by (simp add: rw)
qed

lemma recv_state_frame:
  assumes "recv_state cfg s p m = Some m'"
  shows "framed cfg s m m' \<and> tcp_edge (be_resilient cfg) (p_tcph p) (state (strm m s)) (state (strm m' s))"
proof (cases "th_rst (p_tcph p) \<and> state (strm m s) > TCP_ST_SYN_SENT \<and> fst (ProcessRST cfg s p m)")
  case True
  then have m': "m' = snd (ProcessRST cfg s p m)"
    using assms by (simp add: recv_state_def split_beta)
  have "TCP_ST_SYN_SENT \<le> state (strm m s)" using True by (simp add: less_imp_le)
  then show ?thesis
    using ProcessRST_frame[of cfg s m p] True reset stay unfolding m' by auto
next
  case False
  have n: "(if th_rst (p_tcph p) \<and> state (strm m s) > TCP_ST_SYN_SENT then ProcessRST cfg s p m else (False, m)) = (False, m)"
    using False ProcessRST_not_done[of cfg s p m] by (auto simp: prod_eq_iff)
  obtain m1 where m1: "m1 = m \<or> rexmit_check s p fss m = Some m1" and d: "dispatch_state cfg s p m1 = Some m'"
    using assms unfolding recv_state_def n Let_def prod.case if_False
    by (auto simp: bind_eq_Some_conv split: if_splits)
  have f: "framed cfg s m m1" "state (strm m1 s) = state (strm m s)"
    using m1 rexmit_check_frame[of s p fss m m1] framed_refl by auto
  show ?thesis using dispatch_frame[OF d] f framed_trans by auto
qed

lemma UpdateRecv_frame:
  assumes "UpdateRecvTCPContext cfg s p m = Some m'"
  shows "framed cfg s m m'"
    and "tcp_edge (be_resilient cfg) (p_tcph p) (state (strm m s)) (state (strm m' s))"
proof -
  obtain m1 where m1: "m1 = m \<or> (\<exists>b. ValidateSequence cfg s p m = Some (b, m1))"
    and r: "recv_state cfg s p (recv_note s p m1) = Some m'"
    using assms unfolding UpdateRecvTCPContext_def by (auto simp: bind_eq_Some_conv split: if_splits)
  have "framed cfg s m m1" "state (strm m1 s) = state (strm m s)"
    using m1 validate_frame[of cfg s p m _ m1] framed_refl by auto
  then show "framed cfg s m m'"
    "tcp_edge (be_resilient cfg) (p_tcph p) (state (strm m s)) (state (strm m' s))"
    using recv_state_frame[OF r] recv_note_frame(1)[of cfg s m1 p] recv_note_frame(2)[of s p m1] framed_trans by metis+
qed

section \<open>Any sequence of packets\<close>

fun recv_run :: "mos_config \<Rightarrow> ref \<Rightarrow> pkt_ctx list \<Rightarrow> mtcp_manager \<Rightarrow> mtcp_manager option" where
  "recv_run cfg s [] m = Some m"
| "recv_run cfg s (p # ps) m = UpdateRecvTCPContext cfg s p m \<bind> recv_run cfg s ps"

lemma edge_forward: "tcp_edge res h a b \<Longrightarrow> a \<le> b"
proof (cases rule: tcp_edge.cases, assumption)
  assume "b = TCP_ST_CLOSED_RSVD"
  then show ?thesis by (cases a) (simp_all add: tcp_state_order)
qed (auto simp: tcp_state_order)

lemma edge_unopened:
  "tcp_edge res h a b \<Longrightarrow> \<not> th_ack h \<Longrightarrow> \<not> th_rst h \<Longrightarrow> a \<le> TCP_ST_SYN_RCVD \<Longrightarrow> b \<le> TCP_ST_SYN_RCVD"
  by (induction rule: tcp_edge.induct) (auto simp: tcp_state_order)

lemma recv_run_frame:
  assumes "recv_run cfg s ps m = Some m'"
  shows "framed cfg s m m'" and "state (strm m s) \<le> state (strm m' s)"
    and "state (strm m s) \<le> TCP_ST_SYN_RCVD \<Longrightarrow> \<forall>p \<in> set ps. \<not> th_ack (p_tcph p) \<and> \<not> th_rst (p_tcph p) \<Longrightarrow>
      state (strm m' s) \<le> TCP_ST_SYN_RCVD"
proof -
  have "framed cfg s m m' \<and> state (strm m s) \<le> state (strm m' s) \<and>
    (state (strm m s) \<le> TCP_ST_SYN_RCVD \<longrightarrow> (\<forall>p \<in> set ps. \<not> th_ack (p_tcph p) \<and> \<not> th_rst (p_tcph p)) \<longrightarrow>
      state (strm m' s) \<le> TCP_ST_SYN_RCVD)"
    using assms
  proof (induction ps arbitrary: m)
    case (Cons p ps)
    then obtain m1 where u: "UpdateRecvTCPContext cfg s p m = Some m1" and r: "recv_run cfg s ps m1 = Some m'"
      by (auto simp: bind_eq_Some_conv)
    note f = UpdateRecv_frame[OF u]
    have "framed cfg s m m'" using framed_trans[OF f(1)] Cons.IH[OF r] by blast
    moreover have "state (strm m s) \<le> state (strm m' s)"
      using edge_forward[OF f(2)] Cons.IH[OF r] order.trans by blast
    ultimately show ?case using edge_unopened[OF f(2)] Cons.IH[OF r] by simp
  qed (simp add: framed_refl)
  then show "framed cfg s m m'" "state (strm m s) \<le> state (strm m' s)"
    "state (strm m s) \<le> TCP_ST_SYN_RCVD \<Longrightarrow> \<forall>p \<in> set ps. \<not> th_ack (p_tcph p) \<and> \<not> th_rst (p_tcph p) \<Longrightarrow>
      state (strm m' s) \<le> TCP_ST_SYN_RCVD" by blast+
qed

section \<open>Properties\<close>

text \<open>A listening stream and the SYN that opens it.\<close>

definition listen_demo :: mtcp_manager where
  "listen_demo = mod_strm 0 (\<lambda>_. zero_stream\<lparr>state := TCP_ST_LISTEN, on_rto_idx := - 1\<rparr>) zero_mtcp"

definition syn_pkt :: pkt_ctx where
  "syn_pkt = (ack_demo_pkt 5)\<lparr>p_tcph := (p_tcph (ack_demo_pkt 5))\<lparr>th_syn := True, th_ack := False\<rparr>\<rparr>"

lemma listen_demo_step: "\<exists>m'. UpdateRecvTCPContext ack_cfg 0 syn_pkt listen_demo = Some m'"
proof -
  have "state (strm listen_demo 0) = TCP_ST_LISTEN" by (simp add: listen_demo_def)
  then show ?thesis
    by (simp add: UpdateRecvTCPContext_def recv_state_def dispatch_state_def recv_note_frame(2) tcp_state_order syn_pkt_def
        ack_demo_pkt_def)
qed

text \<open>
  C2.  The receive half implements the TCP state machine: a packet moves the connection along
  an edge of \<open>tcp_edge\<close>, and along no other.  A connection is established only by a packet
  with ACK, a FIN counts only together with what its state asks for, and every other change is
  a reset or an abort.
\<close>

theorem recv_transitions:
  assumes "UpdateRecvTCPContext cfg s p m = Some m'"
  shows "tcp_edge (be_resilient cfg) (p_tcph p) (state (strm m s)) (state (strm m' s))"
  using UpdateRecv_frame(2)[OF assms] .

theorem recv_transitions_witness:
  "\<exists>m'. UpdateRecvTCPContext ack_cfg 0 syn_pkt listen_demo = Some m'
     \<and> tcp_edge False (p_tcph syn_pkt) TCP_ST_LISTEN (state (strm m' 0))"
proof -
  obtain m' where m': "UpdateRecvTCPContext ack_cfg 0 syn_pkt listen_demo = Some m'" using listen_demo_step by blast
  from recv_transitions[OF m'] m' show ?thesis by (auto simp: ack_cfg_def listen_demo_def)
qed

text \<open>
  C3.  Whatever packets arrive for a stream, in any order: no other stream is touched, the send,
  acknowledgement, control and timer lists of the manager stay in agreement with the flags of
  all streams, the connection's state only moves forward, and without a single ACK or
  RST it never leaves the handshake.
\<close>

theorem recv_run_safe:
  assumes "recv_run cfg s ps m = Some m'" and "s \<in> L" "lists_ok cfg L m"
  shows "only s m m' \<and> lists_ok cfg L m' \<and> state (strm m s) \<le> state (strm m' s) \<and>
    (state (strm m s) \<le> TCP_ST_SYN_RCVD \<and> list_all (\<lambda>p. \<not> th_ack (p_tcph p) \<and> \<not> th_rst (p_tcph p)) ps \<longrightarrow>
      state (strm m' s) \<le> TCP_ST_SYN_RCVD)"
  using recv_run_frame[OF assms(1)] assms(2,3) by (simp add: framed_def list_all_iff)

text \<open>Streams on no list, and a manager with empty lists.\<close>

lemma lists_ok_empty:
  assumes "list_view t = list_view (zero_stream\<lparr>on_rto_idx := - 1\<rparr>)"
  shows "lists_ok cfg {s} (mod_strm s (\<lambda>_. t) zero_mtcp)"
  using assms
  by (simp add: lists_ok_def each_ok_def total_ok_def tracked_def placed_on_def fam_defs place_defs lists_defs
      timer_excl_def list_view_def zero_stream_def zero_snd_def zero_mtcp_def zero_sender_def cong: conj_cong)

lemma listen_demo_lists: "lists_ok ack_cfg {0} listen_demo"
  unfolding listen_demo_def by (rule lists_ok_empty) (simp add: list_view_def)

theorem recv_run_safe_witness:
  "\<exists>m'. recv_run ack_cfg 0 [syn_pkt] listen_demo = Some m' \<and> lists_ok ack_cfg {0} m'
     \<and> state (strm m' 0) \<le> TCP_ST_SYN_RCVD"
proof -
  obtain m' where m': "UpdateRecvTCPContext ack_cfg 0 syn_pkt listen_demo = Some m'" using listen_demo_step by blast
  then have r: "recv_run ack_cfg 0 [syn_pkt] listen_demo = Some m'" by simp
  have "state (strm listen_demo 0) \<le> TCP_ST_SYN_RCVD" by (simp add: listen_demo_def tcp_state_order)
  moreover have "list_all (\<lambda>p. \<not> th_ack (p_tcph p) \<and> \<not> th_rst (p_tcph p)) [syn_pkt]"
    by (simp add: syn_pkt_def ack_demo_pkt_def)
  ultimately show ?thesis using recv_run_safe[OF r _ listen_demo_lists] r by blast
qed

text \<open>A RST far outside the window.\<close>

definition rst_pkt :: pkt_ctx where
  "rst_pkt = (ack_demo_pkt 5)\<lparr>p_seq := 3000000000, p_tcph := (p_tcph (ack_demo_pkt 5))\<lparr>th_rst := True\<rparr>\<rparr>"

definition closing_flags :: "tcp_stream \<Rightarrow> _" where
  "closing_flags t = (on_closeq (sndvar t), on_closeq_int (sndvar t), on_resetq (sndvar t), on_resetq_int (sndvar t))"

lemma validate_rst:
  assumes "th_rst (p_tcph p)"
  shows "\<exists>b. ValidateSequence cfg s p m = Some (b, m)"
  using assms by (auto simp add: ValidateSequence_def validate_paws_def validate_window_def Let_def)

lemma recv_note_fields:
  "state (strm (recv_note s p m) s) = state (strm m s)"
  "closing_flags (strm (recv_note s p m) s) = closing_flags (strm m s)"
  "th_rst (p_tcph p) \<Longrightarrow> have_reset (strm (recv_note s p m) s)"
proof -
  have t: "timed s m' (UpdateTimeoutList s m')" for m' by (rule timed_moved[OF moved_UpdateTimeoutList])
  show "state (strm (recv_note s p m) s) = state (strm m s)" by (rule recv_note_frame)
  show "closing_flags (strm (recv_note s p m) s) = closing_flags (strm m s)"
    by (simp add: recv_note_def Let_def recv_window_update_def closing_flags_def timed_fields[OF t])
  show "th_rst (p_tcph p) \<Longrightarrow> have_reset (strm (recv_note s p m) s)"
    by (simp add: recv_note_def Let_def)
qed

text \<open>
  C5.  A reset is not checked against the window.  A RST segment with any sequence number, any
  acknowledgement number and any payload closes an established connection (or one in
  CLOSE_WAIT), unless it is already on its way to being closed by the application: the verdict of
  \<open>ValidateSequence\<close> is computed and dropped.
\<close>

theorem recv_blind_reset:
  assumes "state (strm m s) \<in> {TCP_ST_ESTABLISHED, TCP_ST_CLOSE_WAIT}" and "th_rst (p_tcph p)"
    and "\<not> (on_closeq (sndvar (strm m s)) \<or> on_closeq_int (sndvar (strm m s))
      \<or> on_resetq (sndvar (strm m s)) \<or> on_resetq_int (sndvar (strm m s)))"
  shows "\<exists>m'. UpdateRecvTCPContext cfg s p m = Some m' \<and> state (strm m' s) = TCP_ST_CLOSED_RSVD
    \<and> close_reason (strm m' s) = TCP_RESET \<and> have_reset (strm m' s)"
proof -
  obtain b where v: "ValidateSequence cfg s p m = Some (b, m)" using validate_rst[OF assms(2)] by blast
  have "state (strm m s) > TCP_ST_SYN_RCVD" using assms(1) by (auto simp: tcp_state_order)
  then have u: "UpdateRecvTCPContext cfg s p m = recv_state cfg s p (recv_note s p m)"
    using v by (simp add: UpdateRecvTCPContext_def)
  define m2 where "m2 = recv_note s p m"
  have m2: "state (strm m2 s) = state (strm m s)" "closing_flags (strm m2 s) = closing_flags (strm m s)"
    "have_reset (strm m2 s)"
    using recv_note_fields(1,2)[of s p m] recv_note_fields(3)[OF assms(2)] by (simp_all add: m2_def)
  define m3 where "m3 = mod_strm s (close_stream TCP_RESET) m2"
  have r: "ProcessRST cfg s p m2 = (True, if HAS_STREAM_TYPE (strm m2 s) MOS_SOCK_STREAM then RaiseCloseEvent s m3 else m3)"
    using m2(1,2) assms by (auto simp: ProcessRST_def m3_def closing_flags_def tcp_state_order)
  have "TCP_ST_SYN_SENT < state (strm m2 s)" using m2(1) assms(1) by (auto simp: tcp_state_order)
  then have e: "UpdateRecvTCPContext cfg s p m = Some (if HAS_STREAM_TYPE (strm m2 s) MOS_SOCK_STREAM then RaiseCloseEvent s m3 else m3)"
    using u r assms(2) by (simp add: recv_state_def m2_def[symmetric])
  have "conn_view (strm (RaiseCloseEvent s m3) s) = conn_view (strm m3 s)" by (rule quietD(2)[OF quiet_ops(2)])
  then show ?thesis using e m2(3) by (simp add: m3_def conn_view_def close_stream_def)
qed

theorem recv_blind_reset_witness:
  "\<exists>m'. UpdateRecvTCPContext ack_cfg 0 rst_pkt (ack_demo False) = Some m' \<and> state (strm m' 0) = TCP_ST_CLOSED_RSVD"
proof -
  have "state (strm (ack_demo False) 0) = TCP_ST_ESTABLISHED" "th_rst (p_tcph rst_pkt)"
    "\<not> (on_closeq (sndvar (strm (ack_demo False) 0)) \<or> on_closeq_int (sndvar (strm (ack_demo False) 0))
      \<or> on_resetq (sndvar (strm (ack_demo False) 0)) \<or> on_resetq_int (sndvar (strm (ack_demo False) 0)))"
    by (simp_all add: ack_demo_def rst_pkt_def zero_stream_def zero_snd_def)
  then show ?thesis using recv_blind_reset[of "ack_demo False" 0 rst_pkt ack_cfg] by auto
qed

text \<open>
  A data segment of an established connection: no SYN or RST, a payload that fits (or none), a timestamp
  option that parses when timestamps are in use, and, for the acknowledgement it carries,
  the conditions under which \<open>ProcessACK\<close> returns, with \<open>R\<close> the largest round-trip sample.
\<close>

definition validated :: "mos_config \<Rightarrow> ref \<Rightarrow> pkt_ctx \<Rightarrow> mtcp_manager \<Rightarrow> mtcp_manager" where
  "validated cfg s p m = (case ValidateSequence cfg s p m of None \<Rightarrow> m | Some (b, m) \<Rightarrow> m)"

definition ack_safe :: "int \<Rightarrow> pkt_ctx \<Rightarrow> tcp_stream \<Rightarrow> bool" where
  "ack_safe R p t \<longleftrightarrow> (let v = sndvar t in sndbuf v = None \<or>
      (eff_mss v \<noteq> 0 \<and> mss v \<noteq> 0 \<and> cwnd v \<noteq> 0 \<and> rtt_inv R (rcvvar t)
       \<and> uint (p_cur_ts p - ts_lastack_rcvd (rcvvar t)) \<le> R \<and> 1 \<le> R \<and> 8 * R < 2 ^ 32))"

definition est_segment :: "mos_config \<Rightarrow> ref \<Rightarrow> pkt_ctx \<Rightarrow> mtcp_manager \<Rightarrow> tcprb \<Rightarrow> int \<Rightarrow> bool" where
  "est_segment cfg s p m rb R \<longleftrightarrow>
     state (strm m s) = TCP_ST_ESTABLISHED \<and> \<not> be_resilient cfg
     \<and> \<not> th_syn (p_tcph p) \<and> \<not> th_rst (p_tcph p)
     \<and> (saw_timestamp (strm m s) \<longrightarrow> ParseTCPTimestamp (opt_mem p) (opt_len p) \<noteq> None)
     \<and> rcv_ok cfg s m rb \<and> (if p_payload p = [] then buffer_mgmt (strm m s) \<noteq> 0 else payload_fits (strm m s) rb p)
     \<and> ack_safe R p (strm (validated cfg s p m) s)"

text \<open>What the segment does: data, acknowledgement and FIN together.\<close>

definition est_received :: "mos_config \<Rightarrow> ref \<Rightarrow> pkt_ctx \<Rightarrow> mtcp_manager \<Rightarrow> tcprb \<Rightarrow> mtcp_manager \<Rightarrow> tcprb \<Rightarrow> bool" where
  "est_received cfg s p m rb m' rb' \<longleftrightarrow>
     (let t = strm m s; t' = strm m' s; nxt = irs (rcvvar t) + 1 + word_of_int (next_off rb') in
        only s m m' \<and> rcvbuf (rcvvar t') = Some rb' \<and> rb_ok (chunk_bytes cfg) (rb', bufseg_pool m')
        \<and> (if p_payload p = [] then rb' = rb
            else written (p_payload p) (seq2loff rb (p_seq p) (irs (rcvvar t) + 1)) (payload_pile t rb) rb')
        \<and> next_off rb \<le> next_off rb' \<and> rb_content rb' (next_off rb') = None
        \<and> (if th_fin (p_tcph p) \<and> p_seq p + ucast (p_payloadlen p) = nxt
            then state t' = TCP_ST_CLOSE_WAIT \<and> rcv_nxt t' = nxt + 1
            else state t' = TCP_ST_ESTABLISHED \<and> rcv_nxt t' = nxt))"

lemma validate_established:
  assumes "state (strm m s) = TCP_ST_ESTABLISHED"
    and "saw_timestamp (strm m s) \<longrightarrow> ParseTCPTimestamp (opt_mem p) (opt_len p) \<noteq> None"
  shows "\<exists>b. ValidateSequence cfg s p m = Some (b, validated cfg s p m) \<and> quiet cfg s m (validated cfg s p m)"
proof -
  have q: "quiet cfg s m (mod_strm s (mod_rcv f) m)"
    if "\<And>r. rcvbuf (f r) = rcvbuf r \<and> irs (f r) = irs r \<and> rcv_wnd (f r) = rcv_wnd r" for f m
    by (rule quiet_mod_strm) (simp_all add: that conn_view_rcv)
  have "\<exists>b m1. validate_paws s p m = Some (b, m1) \<and> quiet cfg s m m1"
  proof (cases "\<not> th_rst (p_tcph p) \<and> saw_timestamp (strm m s)")
    case True
    then obtain y where y: "ParseTCPTimestamp (opt_mem p) (opt_len p) = Some y" using assms(2) by auto
    show ?thesis
    proof (cases y)
      case (Some x)
      show ?thesis
        unfolding validate_paws_def y Some if_P[OF True] bind.bind_lunit option.case
        by (cases x) (auto intro!: q quiet_act)
    qed (use True y in \<open>auto simp add: validate_paws_def\<close>)
  qed (auto simp add: validate_paws_def)
  then obtain b m1 where p: "validate_paws s p m = Some (b, m1)" and q1: "quiet cfg s m m1" by blast
  have st: "state (strm m1 s) = TCP_ST_ESTABLISHED" using quietD(2)[OF q1] assms(1) by (simp add: conn_view_def)
  have "quiet cfg s m1 (snd (validate_window cfg s p m1))"
    using st by (simp add: validate_window_def Let_def quiet_act)
  then have "quiet cfg s m (snd (if b then validate_window cfg s p m1 else (False, m1)))"
    using q1 quiet_trans[OF q1] by simp
  then show ?thesis using p by (cases b; cases "validate_window cfg s p m1") (auto simp add: validated_def ValidateSequence_def)
qed

lemma quiet_recv_note:
  assumes "\<not> th_rst (p_tcph p)"
  shows "quiet cfg s m (recv_note s p m)" and "ack_safe R p (strm (recv_note s p m) s) = ack_safe R p (strm m s)"
proof -
  define m1 where "m1 = mod_strm s (recv_window_update p) m"
  have q1: "quiet cfg s m m1" unfolding m1_def
    by (rule quiet_mod_strm) (simp_all add: recv_window_update_def list_view_def conn_view_def)
  have t: "timed s m1 (UpdateTimeoutList s m1)" by (rule timed_moved[OF moved_UpdateTimeoutList])
  have e: "recv_note s p m = (if HAS_STREAM_TYPE (strm m1 s) MOS_SOCK_STREAM then UpdateTimeoutList s m1 else m1)"
    using assms by (simp add: recv_note_def m1_def Let_def)
  show "quiet cfg s m (recv_note s p m)" unfolding e using q1 quiet_trans[OF q1 quiet_ops(12)] by simp
  have "ack_safe R p (strm (recv_note s p m) s) = ack_safe R p (strm m1 s)"
    unfolding e by (simp add: ack_safe_def rtt_inv_def Let_def timed_fields[OF t])
  also have "\<dots> = ack_safe R p (strm m s)"
    by (simp add: m1_def recv_window_update_def ack_safe_def Let_def)
  finally show "ack_safe R p (strm (recv_note s p m) s) = ack_safe R p (strm m s)" .
qed

text \<open>Consistency of the receive side carries over quiet steps, and the acknowledgement's conditions over data.\<close>

lemma rcv_ok_quiet:
  assumes "quiet cfg s m m'" "\<not> be_resilient cfg"
  shows "rcv_ok cfg s m' rb = rcv_ok cfg s m rb" "payload_fits (strm m' s) rb p = payload_fits (strm m s) rb p"
    "payload_pile (strm m' s) rb = payload_pile (strm m s) rb" "irs (rcvvar (strm m' s)) = irs (rcvvar (strm m s))"
    "state (strm m' s) = state (strm m s)"
  using quietD(2,4,5)[OF assms(1)] assms(2)
  by (simp_all add: rcv_ok_def payload_fits_def payload_pile_def conn_view_def HAS_STREAM_TYPE_def)

lemma ack_safe_data:
  assumes "data_step cfg s m m'"
  shows "ack_safe R p (strm m' s) = ack_safe R p (strm m s)"
proof -
  have m: "sndvar (strm m' s) = sndvar (strm m s)"
    and r: "(rcvvar (strm m' s))\<lparr>rcvbuf := None, rcv_wnd := 0\<rparr> = (rcvvar (strm m s))\<lparr>rcvbuf := None, rcv_wnd := 0\<rparr>"
    using assms by (simp_all add: data_step_def data_view_def)
  have "rtt_inv R r = rtt_inv R (r\<lparr>rcvbuf := None, rcv_wnd := 0\<rparr>)"
    "ts_lastack_rcvd r = ts_lastack_rcvd (r\<lparr>rcvbuf := None, rcv_wnd := 0\<rparr>)" for r
    by (simp_all add: rtt_inv_def)
  then have "rtt_inv R (rcvvar (strm m' s)) = rtt_inv R (rcvvar (strm m s))"
    "ts_lastack_rcvd (rcvvar (strm m' s)) = ts_lastack_rcvd (rcvvar (strm m s))"
    using r by metis+
  then show ?thesis using m by (simp add: ack_safe_def)
qed

lemma irs_data: "data_step cfg s m m' \<Longrightarrow> irs (rcvvar (strm m' s)) = irs (rcvvar (strm m s))"
  by (rule irs_masked) (simp add: data_step_def data_view_def)

lemma recv_ack_safe:
  assumes "ack_safe R p (strm m s)"
  shows "\<exists>m'. recv_ack cfg s p m = Some m' \<and> quiet cfg s m m'"
proof (cases "sndbuf (sndvar (strm m s))")
  case (Some b)
  then obtain m' where "ProcessACK cfg s p m = Some m'"
    using assms ack_returns[of m s b R p cfg] by (auto simp: ack_safe_def Let_def)
  then show ?thesis using Some quiet_ProcessACK by (auto simp: recv_ack_def)
qed (simp add: recv_ack_def)

lemma established_fin_fields:
  fixes p :: pkt_ctx and s :: ref
  assumes "\<not> be_resilient cfg" "buffer_mgmt (strm m s) \<noteq> 0"
  defines "m' \<equiv> established_fin cfg s p m"
  shows "only s m m'" "rcvbuf (rcvvar (strm m' s)) = rcvbuf (rcvvar (strm m s))" "bufseg_pool m' = bufseg_pool m"
    "state (strm m' s) = (if th_fin (p_tcph p) \<and> p_seq p + ucast (p_payloadlen p) = rcv_nxt (strm m s)
       then TCP_ST_CLOSE_WAIT else state (strm m s))"
    "rcv_nxt (strm m' s) = (if th_fin (p_tcph p) \<and> p_seq p + ucast (p_payloadlen p) = rcv_nxt (strm m s)
       then rcv_nxt (strm m s) + 1 else rcv_nxt (strm m s))"
proof -
  define m1 where "m1 = mod_strm s (\<lambda>t. act MOS_ACT_SEND_CONTROL ((enter_state TCP_ST_CLOSE_WAIT t)\<lparr>rcv_nxt := rcv_nxt t + 1\<rparr>)) m"
  have f: "only s m1 (RaiseReadEvent s m1)" "conn_view (strm (RaiseReadEvent s m1) s) = conn_view (strm m1 s)"
    "rcv_nxt (strm (RaiseReadEvent s m1) s) = rcv_nxt (strm m1 s)"
    using quietD[OF quiet_ops(4)] assms(1) by blast+
  have e: "m' = (if th_fin (p_tcph p) then
      if p_seq p + ucast (p_payloadlen p) = rcv_nxt (strm m s) then RaiseReadEvent s m1
      else mod_strm s (act MOS_ACT_SEND_ACK_NOW) m else m)"
    using assms(1,2) by (simp add: m'_def established_fin_def fin_in_order_def m1_def enter_state_def Let_def cong: if_cong)
  have m1: "only s m m1" "rcvbuf (rcvvar (strm m1 s)) = rcvbuf (rcvvar (strm m s))" "bufseg_pool m1 = bufseg_pool m"
    "state (strm m1 s) = TCP_ST_CLOSE_WAIT" "rcv_nxt (strm m1 s) = rcv_nxt (strm m s) + 1"
    by (simp_all add: m1_def only_def enter_state_def)
  show "only s m m'" unfolding e using only_trans[OF m1(1) f(1)] by (simp add: only_def)
  show "rcvbuf (rcvvar (strm m' s)) = rcvbuf (rcvvar (strm m s))" "bufseg_pool m' = bufseg_pool m"
    "state (strm m' s) = (if th_fin (p_tcph p) \<and> p_seq p + ucast (p_payloadlen p) = rcv_nxt (strm m s)
       then TCP_ST_CLOSE_WAIT else state (strm m s))"
    "rcv_nxt (strm m' s) = (if th_fin (p_tcph p) \<and> p_seq p + ucast (p_payloadlen p) = rcv_nxt (strm m s)
       then rcv_nxt (strm m s) + 1 else rcv_nxt (strm m s))"
    using m1 f unfolding e by (simp_all add: conn_view_def)
qed

text \<open>The data step of such a segment.\<close>

lemma recv_data_step:
  assumes ok: "rcv_ok cfg s m rb" and fits: "p_payload p \<noteq> [] \<Longrightarrow> payload_fits (strm m s) rb p"
  shows "\<exists>m' rb'. recv_data cfg s p m = Some m' \<and> rcv_ok cfg s m' rb' \<and> data_step cfg s m m'
    \<and> state (strm m' s) = state (strm m s)
    \<and> (if p_payload p = [] then rb' = rb
       else written (p_payload p) (seq2loff rb (p_seq p) (irs (rcvvar (strm m s)) + 1)) (payload_pile (strm m s) rb) rb')
    \<and> next_off rb \<le> next_off rb' \<and> rb_content rb' (next_off rb') = None"
proof (cases "p_payload p = []")
  case True
  have i: "rb_ok (chunk_bytes cfg) (rb, bufseg_pool m)" using ok by (simp add: rcv_ok_def)
  have "rb_content rb (next_off rb) = None"
    using rb_content_iff[OF i, of "next_off rb"] next_off_spec(3)[of rb] i unfolding rb_ok_def fst_conv by blast
  then show ?thesis using True ok by (auto simp: recv_data_def p_payloadlen_def data_step_def only_def)
next
  case False
  have len: "length (p_payload p) < 65536" using fits[OF False] by (simp add: payload_fits_def)
  then have "unat (p_payloadlen p) = length (p_payload p)"
    by (simp add: p_payloadlen_def unat_of_nat take_bit_nat_eq_self)
  then have pos: "0 < p_payloadlen p" using False by (metis length_0_conv unat_0 word_neq_0_conv)
  obtain ret m2 rb' where p: "ProcessTCPPayload cfg s p m = Some (ret, m2)" "rcv_ok cfg s m2 rb'"
    "written (p_payload p) (seq2loff rb (p_seq p) (irs (rcvvar (strm m s)) + 1)) (payload_pile (strm m s) rb) rb'"
    "rb_content rb' (next_off rb') = None" "next_off rb \<le> next_off rb'"
    using payload_step[OF ok fits[OF False]] by (auto simp: payload_received_def Let_def)
  define m3 where "m3 = mod_strm s (act (if ret \<noteq> 0 then MOS_ACT_SEND_ACK_AGG else MOS_ACT_SEND_ACK_NOW)) m2"
  have rd: "recv_data cfg s p m = Some m3" using p(1) pos by (simp add: recv_data_def m3_def)
  have d: "data_step cfg s m m2" using payload_frame[OF p(1)] .
  have "data_step cfg s m2 m3"
    by (simp add: m3_def data_step_def only_def data_view_def lists_ok_mod_strm)
  then have "data_step cfg s m m3" by (rule data_step_trans[OF d])
  moreover have "rcv_ok cfg s m3 rb'" using p(2) by (simp add: m3_def rcv_ok_def)
  moreover have "state (strm m3 s) = state (strm m s)"
    using payload_state[OF p(1)] ok by (simp add: rcv_ok_def m3_def)
  ultimately show ?thesis using rd False p(3-5) by auto
qed

lemma established_segment:
  assumes "est_segment cfg s p m rb R"
  shows "\<exists>m' rb'. UpdateRecvTCPContext cfg s p m = Some m' \<and> est_received cfg s p m rb m' rb'"
proof -
  let ?h = "p_tcph p" and ?t = "strm m s"
  have a: "state ?t = TCP_ST_ESTABLISHED" "\<not> be_resilient cfg" "\<not> th_syn ?h" "\<not> th_rst ?h"
    "saw_timestamp ?t \<longrightarrow> ParseTCPTimestamp (opt_mem p) (opt_len p) \<noteq> None" "rcv_ok cfg s m rb"
    "p_payload p \<noteq> [] \<Longrightarrow> payload_fits ?t rb p" "buffer_mgmt ?t \<noteq> 0" "ack_safe R p (strm (validated cfg s p m) s)"
    using assms by (auto simp: est_segment_def payload_fits_def split: if_splits)
  obtain b where v: "ValidateSequence cfg s p m = Some (b, validated cfg s p m)"
    and qv: "quiet cfg s m (validated cfg s p m)"
    using validate_established[OF a(1,5)] by blast
  define m1 where "m1 = recv_note s p (validated cfg s p m)"
  have q1: "quiet cfg s m m1" and s1: "ack_safe R p (strm m1 s)"
    using quiet_trans[OF qv quiet_recv_note(1)[OF a(4)]] quiet_recv_note(2)[OF a(4)] a(9) by (simp_all add: m1_def)
  note k = rcv_ok_quiet[OF q1 a(2)]
  have u: "UpdateRecvTCPContext cfg s p m = Handle_TCP_ST_ESTABLISHED cfg s p m1"
    using v a(1,4) k(5) by (simp add: UpdateRecvTCPContext_def recv_state_def dispatch_state_def m1_def[symmetric] tcp_state_order)
  have ok1: "rcv_ok cfg s m1 rb" using a(6) k(1) by blast
  have "p_payload p \<noteq> [] \<Longrightarrow> payload_fits (strm m1 s) rb p" using a(7) k(2) by blast
  from recv_data_step[OF ok1 this, unfolded k(3-5)] obtain m3 rb' where
    rd: "recv_data cfg s p m1 = Some m3" "rcv_ok cfg s m3 rb'" "data_step cfg s m1 m3" "state (strm m3 s) = state ?t"
    and w: "if p_payload p = [] then rb' = rb
       else written (p_payload p) (seq2loff rb (p_seq p) (irs (rcvvar ?t) + 1)) (payload_pile ?t rb) rb'"
      "next_off rb \<le> next_off rb'" "rb_content rb' (next_off rb') = None" by blast
  have "ack_safe R p (strm m3 s)" using ack_safe_data[OF rd(3)] s1 by simp
  from recv_ack_safe[OF this, of cfg] obtain m4 where m4: "(if th_ack ?h then recv_ack cfg s p m3 else Some m3) = Some m4"
    and q4: "quiet cfg s m3 m4" by (cases "th_ack ?h") auto
  define m' where "m' = established_fin cfg s p m4"
  have up: "UpdateRecvTCPContext cfg s p m = Some m'"
    using u rd(1) m4 a(3) by (simp add: Handle_TCP_ST_ESTABLISHED_def m'_def)
  have ok4: "rcv_ok cfg s m4 rb'" "state (strm m4 s) = TCP_ST_ESTABLISHED" "irs (rcvvar (strm m4 s)) = irs (rcvvar ?t)"
    using rcv_ok_quiet[OF q4 a(2)] rd(2,4) a(1) k(4) irs_data[OF rd(3)] by simp_all
  have bm: "buffer_mgmt (strm m4 s) \<noteq> 0"
  proof -
    have "buffer_mgmt (strm m4 s) = buffer_mgmt (strm m3 s)" "buffer_mgmt (strm m1 s) = buffer_mgmt ?t"
      using quietD(2)[OF q4] quietD(2)[OF q1] by (simp_all add: conn_view_def)
    moreover have "buffer_mgmt (strm m3 s) = buffer_mgmt (strm m1 s)"
      using rd(3) by (simp add: data_step_def data_view_def)
    ultimately show ?thesis using a(8) by simp
  qed
  have "only s m1 m3" using rd(3) unfolding data_step_def by blast
  then have o: "only s m m4" using only_trans[OF only_trans[OF quietD(1)[OF q1]] quietD(1)[OF q4]] by blast
  note fin = established_fin_fields[OF a(2) bm, of p, folded m'_def]
  have "est_received cfg s p m rb m' rb'"
    using fin ok4 w only_trans[OF o fin(1)] by (simp add: est_received_def Let_def rcv_ok_def)
  then show ?thesis using up by blast
qed


definition fin_pkt :: pkt_ctx where
  "fin_pkt = (ack_demo_pkt 5)\<lparr>p_seq := 101, p_payload := [1, 2, 3], p_tcph := (p_tcph (ack_demo_pkt 5))\<lparr>th_fin := True\<rparr>\<rparr>"


section \<open>The active open\<close>

text \<open>What an acceptable SYN/ACK is for a client: it acknowledges the SYN and nothing not yet sent.\<close>

definition opts_return :: "pkt_ctx \<Rightarrow> bool" where
  "opts_return p \<longleftrightarrow> (\<forall>k. int k < opt_len p \<longrightarrow> handled_kind (opt_mem p k) \<or> opt_mem p (k + 1) \<noteq> 0)"

definition syn_ack_for :: "mos_config \<Rightarrow> tcp_stream \<Rightarrow> pkt_ctx \<Rightarrow> bool" where
  "syn_ack_for cfg t p \<longleftrightarrow> state t = TCP_ST_SYN_SENT \<and> socket t \<noteq> None \<and> HAS_STREAM_TYPE t MOS_SOCK_STREAM
     \<and> th_syn (p_tcph p) \<and> th_ack (p_tcph p) \<and> \<not> th_rst (p_tcph p) \<and> opts_return p
     \<and> TCP_SEQ_GT (p_ack_seq p) (iss (sndvar t)) \<and> TCP_SEQ_LEQ (p_ack_seq p) (snd_nxt t)"

definition opt_view :: "tcp_stream \<Rightarrow> _" where
  "opt_view t = (rcv_nxt t, snd_nxt t, snd_una (sndvar t), peer_wnd (sndvar t), (socket t, stream_type t), irs (rcvvar t))"

lemma parse_opts_opt_view: "parse_opts ts mem len i t = Some r \<Longrightarrow> opt_view r = opt_view t"
  by (rule parse_opts.raw_induct[where P = "\<lambda>ts mem len i t r. opt_view r = opt_view t", rotated], assumption)
     (auto simp: opt_view_def set_mss_def set_wscale_def set_tstamp_def split: if_splits)

lemma on_rto_idx_removed: "on_rto_idx (strm (RemoveFromRTOList s m) s) < 0"
  by (simp add: RemoveFromRTOList_def Let_def)

lemma opt_view_timed: "timed s m m' \<Longrightarrow> opt_view (strm m' s) = opt_view (strm m s)"
  by (simp add: opt_view_def timed_fields)

lemma active_open_fields:
  assumes "opts_return p" "HAS_STREAM_TYPE (strm m s) MOS_SOCK_STREAM"
  shows "\<exists>m'. HandleActiveOpen s p m = Some m' \<and> opt_view (strm m' s) =
     (p_seq p + 1, p_ack_seq p, snd_una (sndvar (strm m s)), ucast (p_window p),
      (socket (strm m s), stream_type (strm m s)), p_seq p)"
proof -
  define t0 where "t0 = mod_rcv (\<lambda>r. r\<lparr>irs := p_seq p, snd_wl1 := p_seq p - 1, last_ack_seq := p_ack_seq p\<rparr>)
                (mod_snd (\<lambda>v. v\<lparr>peer_wnd := ucast (p_window p)\<rparr>)
                   ((strm m s)\<lparr>snd_nxt := p_ack_seq p, rcv_nxt := p_seq p + 1\<rparr>))"
  obtain t1 where t1: "ParseTCPOptions (p_cur_ts p) (opt_mem p) (opt_len p) t0 = Some t1"
    using parse_opts_total[of "opt_len p" "opt_mem p" "p_cur_ts p" 0 t0] assms(1)
    unfolding opts_return_def ParseTCPOptions_def by blast
  define t2 where "t2 = mod_snd (\<lambda>v. v\<lparr>cwnd := (if cwnd v = 1 then ucast (mss v) * 2 else ucast (mss v)),
                                ssthresh := ucast (mss v) * 10\<rparr>) t1"
  have "opt_view t1 = opt_view t0" using t1 parse_opts_opt_view by (simp add: ParseTCPOptions_def)
  then have v: "opt_view t2 = (p_seq p + 1, p_ack_seq p, snd_una (sndvar (strm m s)), ucast (p_window p),
      (socket (strm m s), stream_type (strm m s)), p_seq p)"
    by (simp add: opt_view_def t0_def t2_def)
  then have "HAS_STREAM_TYPE t2 MOS_SOCK_STREAM" using assms(2) by (simp add: opt_view_def HAS_STREAM_TYPE_def)
  then have "HandleActiveOpen s p m = Some (UpdateRetransmissionTimer s (p_cur_ts p) (mod_strm s (\<lambda>_. t2) m))"
    using t1 by (simp add: HandleActiveOpen_def Let_def t0_def[symmetric] t2_def[symmetric] cong: if_cong)
  moreover have "opt_view (strm (UpdateRetransmissionTimer s (p_cur_ts p) (mod_strm s (\<lambda>_. t2) m)) s) = opt_view t2"
    using opt_view_timed[OF timed_UpdateRetransmissionTimer] by simp
  ultimately show ?thesis using v by simp
qed

lemma RaiseWriteEvent_strm [simp]: "strm (RaiseWriteEvent s m) s = strm m s"
  by (rule strm_part) simp


definition syn_sent_demo :: mtcp_manager where
  "syn_sent_demo = mod_strm 0 (\<lambda>_. zero_stream\<lparr>state := TCP_ST_SYN_SENT, socket := Some 3, snd_nxt := 103,
     stream_type := STREAM_TYPE MOS_SOCK_STREAM, sndvar := zero_snd\<lparr>iss := 102\<rparr>\<rparr>) zero_mtcp"

definition syn_ack_pkt :: pkt_ctx where
  "syn_ack_pkt = (ack_demo_pkt 5)\<lparr>p_tcph := (p_tcph (ack_demo_pkt 5))\<lparr>th_syn := True\<rparr>\<rparr>"


end
