(* ===== verification/Flow_Table.thy ===== *)
theory Flow_Table
  imports Kv_Store Tcp_State
begin

text \<open>
  The flow table (\<open>fhash.c\<close>): the hash of a flow's addresses and ports, and the table of
  \<open>NUM_BINS\<close> buckets that finds the stream of a packet.  A bucket is a \<open>TAILQ\<close> of streams
  linked through the streams themselves, so the operations work on the manager: the table
  and the heap of streams at once.  The array variant of the table (\<open>STATIC_TABLE\<close>) is
  compiled out.  The laws of the table are those of the locale \<open>lookup_table\<close>.
\<close>

section \<open>The hash\<close>

definition get16bits :: "u8 list \<Rightarrow> nat \<Rightarrow> u32" where
  "get16bits data i = push_bit 8 (ucast (data ! (i + 1))) + ucast (data ! i)"

text \<open>The main loop of \<open>SuperFastHash\<close>: four bytes a round.\<close>

fun sfh_blocks :: "nat \<Rightarrow> u8 list \<Rightarrow> u32 \<Rightarrow> u8 list \<times> u32" where
  "sfh_blocks 0 data h = (data, h)"
| "sfh_blocks (Suc n) data h =
     (let h = h + get16bits data 0;
          tmp = (push_bit 11 (get16bits data 2)) XOR h;
          h = (push_bit 16 h) XOR tmp;
          data = drop 4 data
      in sfh_blocks n data (h + drop_bit 11 h))"

text \<open>The last one to three bytes: a single byte is a signed \<open>char\<close>.\<close>

definition sfh_tail :: "nat \<Rightarrow> u8 list \<Rightarrow> u32 \<Rightarrow> u32" where
  "sfh_tail rem data h =
     (if rem = 3 then
        (let h = h + get16bits data 0;
             h = h XOR push_bit 16 h;
             h = h XOR push_bit 18 (scast (data ! 2))
         in h + drop_bit 11 h)
      else if rem = 2 then
        (let h = h + get16bits data 0;
             h = h XOR push_bit 11 h
         in h + drop_bit 17 h)
      else if rem = 1 then
        (let h = h + scast (data ! 0);
             h = h XOR push_bit 10 h
         in h + drop_bit 1 h)
      else h)"

definition sfh_avalanche :: "u32 \<Rightarrow> u32" where
  "sfh_avalanche h =
     (let h = h XOR push_bit 3 h;
          h = h + drop_bit 5 h;
          h = h XOR push_bit 4 h;
          h = h + drop_bit 17 h;
          h = h XOR push_bit 25 h
      in h + drop_bit 6 h)"

definition SuperFastHash :: "u8 list option \<Rightarrow> int \<Rightarrow> u32" where
  "SuperFastHash data len =
     (if len \<le> 0 \<or> data = None then 0
      else
        (let rem = nat len mod 4;
             (rest, h) = sfh_blocks (nat len div 4) (the data) (of_int len)
         in sfh_avalanche (sfh_tail rem rest h)))"

definition NUM_BINS :: u32 where "NUM_BINS = 131072"

text \<open>The 12 bytes from \<open>saddr\<close> on: \<open>saddr\<close>, \<open>daddr\<close>, \<open>sport\<close>, \<open>dport\<close>, low byte first.\<close>

definition le_bytes :: "nat \<Rightarrow> 'a::len word \<Rightarrow> u8 list" where
  "le_bytes n w = map (\<lambda>i. ucast (drop_bit (8 * i) w)) [0..<n]"

definition flow_bytes :: "tcp_stream \<Rightarrow> u8 list" where
  "flow_bytes t = le_bytes 4 (saddr t) @ le_bytes 4 (daddr t) @ le_bytes 2 (sport t) @ le_bytes 2 (dport t)"

definition HashFlow :: "tcp_stream \<Rightarrow> u32" where
  "HashFlow t = SuperFastHash (Some (flow_bytes t)) 12 AND (NUM_BINS - 1)"

definition EQUAL_FLOW :: "tcp_stream \<Rightarrow> tcp_stream \<Rightarrow> bool" where
  "EQUAL_FLOW a b \<longleftrightarrow> saddr a = saddr b \<and> sport a = sport b \<and> daddr a = daddr b \<and> dport a = dport b"

section \<open>The table\<close>

definition CreateHashtable :: "bool \<Rightarrow> hashtable option" where
  "CreateHashtable calloc_ok =
     (if calloc_ok then Some \<lparr>ht_count = 0, ht_table = (\<lambda>_. [])\<rparr> else None)"

text \<open>
  A false assertion gives \<open>None\<close>.  The first one, \<open>ht_count \<le> 65535\<close>, cannot fail:
  \<open>ht_count\<close> has 8 bits.
\<close>

definition HTInsert :: "ref \<Rightarrow> u32 option \<Rightarrow> mtcp_manager \<Rightarrow> (int \<times> mtcp_manager) option" where
  "HTInsert s hash m =
     (let ht = tcp_flow_table m;
          idx = (case hash of Some h \<Rightarrow> sint h | None \<Rightarrow> sint (HashFlow (strm m s)))
      in if \<not> (unat (ht_count ht) \<le> 65535) \<or> \<not> (0 \<le> idx \<and> idx < uint NUM_BINS) then None
         else
           (let i = nat idx;
                ht' = ht\<lparr>ht_table := (ht_table ht)(i := ht_table ht i @ [s]), ht_count := ht_count ht + 1\<rparr>
            in Some (0, mod_strm s (mod_rcv (he_mybucket_update (\<lambda>_. Some i))) (m\<lparr>tcp_flow_table := ht'\<rparr>))))"

definition HTRemove :: "ref \<Rightarrow> mtcp_manager \<Rightarrow> (ref \<times> mtcp_manager) option" where
  "HTRemove s m =
     (let ht = tcp_flow_table m
      in case he_mybucket (rcvvar (strm m s)) of
           None \<Rightarrow> None
         | Some i \<Rightarrow>
             Some (s, m\<lparr>tcp_flow_table := ht\<lparr>ht_table := (ht_table ht)(i := remove1 s (ht_table ht i)),
                                           ht_count := ht_count ht - 1\<rparr>\<rparr>))"

text \<open>The search also gives back the bucket, which the caller keeps for the insertion.\<close>

definition HTSearch :: "tcp_stream \<Rightarrow> mtcp_manager \<Rightarrow> u32 \<times> ref option" where
  "HTSearch item m =
     (let idx = HashFlow item
      in (idx, find (\<lambda>w. EQUAL_FLOW (strm m w) item) (ht_table (tcp_flow_table m) (unat idx))))"

section \<open>Invariant\<close>

type_synonym flow = "u32 \<times> u16 \<times> u32 \<times> u16"

definition flow_key :: "tcp_stream \<Rightarrow> flow" where
  "flow_key t = (saddr t, sport t, daddr t, dport t)"

lemma EQUAL_FLOW_key: "EQUAL_FLOW a b \<longleftrightarrow> flow_key a = flow_key b"
  by (auto simp: EQUAL_FLOW_def flow_key_def)

lemma HashFlow_key: "flow_key a = flow_key b \<Longrightarrow> HashFlow a = HashFlow b"
  by (simp add: flow_key_def HashFlow_def flow_bytes_def)

lemma flow_key_mod [simp]:
  "flow_key (mod_rcv f t) = flow_key t" "flow_key (mod_snd g t) = flow_key t"
  by (simp_all add: flow_key_def)

lemma HashFlow_mod_rcv [simp]: "HashFlow (mod_rcv f t) = HashFlow t"
  by (rule HashFlow_key) simp

lemma HashFlow_bound: "unat (HashFlow t) < 131072"
proof -
  let ?h = "SuperFastHash (Some (flow_bytes t)) 12"
  have "HashFlow t = take_bit 17 ?h"
    by (simp add: HashFlow_def NUM_BINS_def take_bit_eq_mask mask_eq_exp_minus_1)
  then have "unat (HashFlow t) = take_bit 17 (unat ?h)" by (simp add: unsigned_take_bit_eq)
  also have "\<dots> < 2 ^ 17" by (rule take_bit_nat_less_exp)
  finally show ?thesis by simp
qed

lemma HashFlow_bound_uint: "uint (HashFlow t) < 131072"
proof -
  have "uint (HashFlow t) = int (unat (HashFlow t))" by simp
  also have "\<dots> < 131072" using HashFlow_bound[of t] by linarith
  finally show ?thesis .
qed

lemma HashFlow_index: "sint (HashFlow t) = int (unat (HashFlow t))"
proof -
  have "sint (HashFlow t) = signed_take_bit 31 (uint (HashFlow t))" by (simp add: sint_uint)
  also have "\<dots> = uint (HashFlow t)"
  proof (rule signed_take_bit_int_eq_self)
    show "uint (HashFlow t) < 2 ^ 31" using HashFlow_bound_uint[of t] by simp
    show "- (2 ^ 31) \<le> uint (HashFlow t)" by (rule order.trans[OF _ uint_ge_0]) simp
  qed
  finally show ?thesis by simp
qed

text \<open>
  Every stream of a bucket hashes to it and points back to it, no two streams of the table
  have the same flow, and the counter is the number of streams, modulo 256.
\<close>

definition bucket :: "mtcp_manager \<Rightarrow> nat \<Rightarrow> ref list" where
  "bucket m = ht_table (tcp_flow_table m)"

definition table_streams :: "mtcp_manager \<Rightarrow> ref set" where
  "table_streams m = {s. \<exists>i. s \<in> set (bucket m i)}"

definition table_ok :: "(ref \<Rightarrow> flow) \<Rightarrow> mtcp_manager \<Rightarrow> bool" where
  "table_ok key m \<longleftrightarrow>
     (\<forall>s. flow_key (strm m s) = key s)
     \<and> (\<forall>i s. s \<in> set (bucket m i) \<longrightarrow> i < 131072 \<and> unat (HashFlow (strm m s)) = i
            \<and> he_mybucket (rcvvar (strm m s)) = Some i)
     \<and> (\<forall>i. distinct (map key (bucket m i)))
     \<and> ht_count (tcp_flow_table m) = of_nat (card (table_streams m))"

definition flow_probe :: "flow \<Rightarrow> tcp_stream" where
  "flow_probe k = (case k of (sa, sp, da, dp) \<Rightarrow>
     zero_stream\<lparr>saddr := sa, sport := sp, daddr := da, dport := dp\<rparr>)"

definition flow_lookup :: "mtcp_manager \<Rightarrow> flow \<Rightarrow> ref option" where
  "flow_lookup m k = snd (HTSearch (flow_probe k) m)"

lemma flow_probe [simp]: "flow_key (flow_probe k) = k"
  by (cases k) (simp add: flow_probe_def flow_key_def)

lemma HTSearch_lookup: "HTSearch t m = (HashFlow t, flow_lookup m (flow_key t))"
  using HashFlow_key[of "flow_probe (flow_key t)" t]
  by (simp add: HTSearch_def flow_lookup_def EQUAL_FLOW_key Let_def)

lemma table_okD:
  assumes "table_ok key m"
  shows "flow_key (strm m s) = key s"
    and "s \<in> set (bucket m i) \<Longrightarrow> i < 131072"
    and "s \<in> set (bucket m i) \<Longrightarrow> i = unat (HashFlow (flow_probe (key s)))"
    and "s \<in> set (bucket m i) \<Longrightarrow> he_mybucket (rcvvar (strm m s)) = Some i"
    and "distinct (map key (bucket m i))"
proof -
  show k: "flow_key (strm m s) = key s" for s using assms by (simp add: table_ok_def)
  show "s \<in> set (bucket m i) \<Longrightarrow> i = unat (HashFlow (flow_probe (key s)))"
    using assms k HashFlow_key[of "flow_probe (key s)" "strm m s"] by (auto simp: table_ok_def)
qed (use assms in \<open>auto simp: table_ok_def\<close>)

text \<open>What the search finds is what is on the table.\<close>

lemma flow_lookup_iff:
  assumes ok: "table_ok key m"
  shows "flow_lookup m k = Some s \<longleftrightarrow> s \<in> table_streams m \<and> key s = k"
proof -
  let ?i = "unat (HashFlow (flow_probe k))"
  have eq: "flow_lookup m k = find (\<lambda>w. key w = k) (bucket m ?i)"
    using ok by (simp add: flow_lookup_def HTSearch_def EQUAL_FLOW_key bucket_def table_ok_def Let_def)
  have inj: "inj_on key (set (bucket m ?i))" using table_okD(5)[OF ok, of ?i] by (simp add: distinct_map)
  show ?thesis
  proof
    assume "flow_lookup m k = Some s"
    then show "s \<in> table_streams m \<and> key s = k"
      unfolding eq table_streams_def using find_SomeD by fast
  next
    assume r: "s \<in> table_streams m \<and> key s = k"
    then have mem: "s \<in> set (bucket m ?i)" using table_okD(3)[OF ok] by (auto simp: table_streams_def)
    then obtain w where w: "flow_lookup m k = Some w"
      using r unfolding eq by (cases "find (\<lambda>w. key w = k) (bucket m ?i)") (auto simp: find_Some_iff_mem)
    then have "w \<in> set (bucket m ?i)" "key w = key s" using r unfolding eq by (auto dest: find_SomeD)
    then show "flow_lookup m k = Some s" using inj mem w by (auto dest: inj_onD)
  qed
qed

lemma flow_lookup_eqI:
  assumes "table_ok key m" "\<And>k s. f k = Some s \<longleftrightarrow> s \<in> table_streams m \<and> key s = k"
  shows "flow_lookup m = f"
proof
  fix k
  show "flow_lookup m k = f k"
  proof -
    have "\<forall>s. flow_lookup m k = Some s \<longleftrightarrow> f k = Some s" using flow_lookup_iff[OF assms(1)] assms(2) by simp
    then show ?thesis by (metis not_None_eq)
  qed
qed

lemma table_streams_finite:
  assumes "table_ok key m"
  shows "finite (table_streams m)"
proof -
  have "table_streams m \<subseteq> (\<Union>i<131072. set (bucket m i))"
    using table_okD(2)[OF assms] by (force simp: table_streams_def)
  then show ?thesis by (rule finite_subset) simp
qed


section \<open>The operations keep the table\<close>

lemma HTInsert_None: "HTInsert s None m = HTInsert s (Some (HashFlow (strm m s))) m"
  by (simp add: HTInsert_def)

lemma HTInsert_ok:
  assumes ok: "table_ok key m" and new: "flow_lookup m (key s) = None"
  shows "\<exists>m'. HTInsert s (Some (HashFlow (strm m s))) m = Some (0, m') \<and> table_ok key m'
           \<and> flow_lookup m' = (flow_lookup m)(key s \<mapsto> s)"
proof -
  let ?i = "unat (HashFlow (strm m s))"
  let ?ht = "tcp_flow_table m"
  define m' where "m' = mod_strm s (mod_rcv (he_mybucket_update (\<lambda>_. Some ?i)))
     (m\<lparr>tcp_flow_table := ?ht\<lparr>ht_table := (ht_table ?ht)(?i := ht_table ?ht ?i @ [s]),
                            ht_count := ht_count ?ht + 1\<rparr>\<rparr>)"
  have "unat (ht_count ?ht) < 2 ^ 8" by (rule unsigned_less[THEN order.strict_trans2]) simp
  then have "unat (ht_count ?ht) \<le> 65535" by simp
  then have run: "HTInsert s (Some (HashFlow (strm m s))) m = Some (0, m')"
    using HashFlow_bound_uint[of "strm m s"]
    by (simp add: HTInsert_def HashFlow_index m'_def NUM_BINS_def Let_def)
  have bk: "bucket m' j = (if j = ?i then bucket m j @ [s] else bucket m j)" for j
    by (simp add: m'_def bucket_def)
  have st: "strm m' w = (if w = s then mod_rcv (he_mybucket_update (\<lambda>_. Some ?i)) (strm m s) else strm m w)" for w
    by (simp add: m'_def strm_mod)
  have fk: "flow_key (strm m' w) = flow_key (strm m w)" for w by (simp add: st flow_key_def)
  have hf: "HashFlow (strm m' w) = HashFlow (strm m w)" for w by (rule HashFlow_key) (rule fk)
  have k: "flow_key (strm m w) = key w" for w by (rule table_okD(1)[OF ok])
  have nos: "w \<notin> table_streams m" if "key w = key s" for w
    using flow_lookup_iff[OF ok, of "key s" w] new that by simp
  have sb: "set (bucket m' j) = (if j = ?i then insert s (set (bucket m j)) else set (bucket m j))" for j
    by (simp add: bk)
  have ts: "table_streams m' = insert s (table_streams m)"
  proof (rule set_eqI)
    fix w
    show "w \<in> table_streams m' \<longleftrightarrow> w \<in> insert s (table_streams m)"
      unfolding table_streams_def mem_Collect_eq insert_iff sb by (metis insert_iff)
  qed
  have dist: "distinct (map key (bucket m' j))" for j
    using table_okD(5)[OF ok, of j] nos by (auto simp: bk table_streams_def)
  have point: "j < 131072 \<and> unat (HashFlow (strm m' w)) = j \<and> he_mybucket (rcvvar (strm m' w)) = Some j"
    if "w \<in> set (bucket m' j)" for j w
    using that ok HashFlow_bound[of "strm m s"] nos[of s] unfolding hf bk st
    by (auto simp: table_ok_def table_streams_def split: if_splits)
  have cnt: "ht_count (tcp_flow_table m') = of_nat (card (table_streams m'))"
  proof -
    have "ht_count (tcp_flow_table m') = ht_count ?ht + 1" by (simp add: m'_def)
    also have "\<dots> = of_nat (card (insert s (table_streams m)))"
      using ok table_streams_finite[OF ok] nos[of s] by (simp add: table_ok_def)
    finally show ?thesis unfolding ts .
  qed
  have ok': "table_ok key m'" using fk k dist point cnt by (simp add: table_ok_def)
  have "flow_lookup m' = (flow_lookup m)(key s \<mapsto> s)"
    using flow_lookup_iff[OF ok] nos by (intro flow_lookup_eqI[OF ok']) (auto simp: ts)
  then show ?thesis using run ok' by auto
qed

lemma HTRemove_ok:
  assumes ok: "table_ok key m" and on: "flow_lookup m (key s) = Some s"
  shows "\<exists>m'. HTRemove s m = Some (s, m') \<and> table_ok key m' \<and> flow_lookup m' = (flow_lookup m)(key s := None)
           \<and> streams m' = streams m"
proof -
  have mem: "s \<in> table_streams m" using flow_lookup_iff[OF ok] on by blast
  then obtain i where i: "s \<in> set (bucket m i)" by (auto simp: table_streams_def)
  then have bk_s: "he_mybucket (rcvvar (strm m s)) = Some i" by (rule table_okD(4)[OF ok])
  let ?ht = "tcp_flow_table m"
  define m' where "m' = m\<lparr>tcp_flow_table := ?ht\<lparr>ht_table := (ht_table ?ht)(i := remove1 s (ht_table ?ht i)),
                                           ht_count := ht_count ?ht - 1\<rparr>\<rparr>"
  have run: "HTRemove s m = Some (s, m')" by (simp add: HTRemove_def bk_s m'_def Let_def)
  have st: "strm m' = strm m" by (simp add: m'_def fun_eq_iff)
  have bk: "bucket m' j = (if j = i then remove1 s (bucket m j) else bucket m j)" for j
    by (simp add: m'_def bucket_def)
  have d: "distinct (bucket m j)" for j using table_okD(5)[OF ok, of j] by (simp add: distinct_map)
  have only: "s \<in> set (bucket m j) \<Longrightarrow> j = i" for j using table_okD(4)[OF ok] bk_s by fastforce
  have sb: "set (bucket m' j) = set (bucket m j) - {s}" for j
    using only[of j] d[of j] by (auto simp: bk)
  then have ts: "table_streams m' = table_streams m - {s}" by (auto simp: table_streams_def)
  have dist: "distinct (map key (bucket m' j))" for j
    using table_okD(5)[OF ok, of j] d[of j]
    by (auto simp: bk distinct_map intro: inj_on_subset[OF _ set_remove1_subset])
  have cnt: "ht_count (tcp_flow_table m') = of_nat (card (table_streams m'))"
  proof -
    have "card (table_streams m) = Suc (card (table_streams m'))"
      using table_streams_finite[OF ok] mem unfolding ts by (metis card_Suc_Diff1)
    then have "ht_count ?ht = of_nat (card (table_streams m')) + 1" using ok by (simp add: table_ok_def)
    moreover have "ht_count (tcp_flow_table m') = ht_count ?ht - 1" by (simp add: m'_def)
    ultimately show ?thesis by simp
  qed
  have ok': "table_ok key m'" using ok dist cnt unfolding table_ok_def st sb by blast
  have uniq: "w = s" if "w \<in> table_streams m" "key w = key s" for w
  proof -
    have "flow_lookup m (key s) = Some w" using flow_lookup_iff[OF ok, of "key s" w] that by blast
    with on show ?thesis by simp
  qed
  have "flow_lookup m' = (flow_lookup m)(key s := None)"
  proof (rule flow_lookup_eqI[OF ok'])
    fix k w
    show "((flow_lookup m)(key s := None)) k = Some w \<longleftrightarrow> w \<in> table_streams m' \<and> key w = k"
      using flow_lookup_iff[OF ok, of k w] uniq[of w] by (cases "k = key s") (auto simp: ts)
  qed
  then show ?thesis using run ok' by (auto simp: m'_def)
qed

text \<open>Insertion and removal by flow, as the clients of the table use it.\<close>

definition flow_ins :: "mtcp_manager \<Rightarrow> flow \<Rightarrow> ref \<Rightarrow> int \<times> mtcp_manager" where
  "flow_ins m k s = (case HTInsert s None m of Some r \<Rightarrow> r | None \<Rightarrow> (-1, m))"

definition flow_del :: "mtcp_manager \<Rightarrow> flow \<Rightarrow> ref option \<times> mtcp_manager" where
  "flow_del m k = (case flow_lookup m k of None \<Rightarrow> (None, m)
     | Some s \<Rightarrow> (case HTRemove s m of Some (s', m') \<Rightarrow> (Some s', m') | None \<Rightarrow> (None, m)))"

interpretation flow: lookup_table "table_ok key" flow_lookup "\<lambda>_. True" "\<lambda>k s. key s = k" flow_ins flow_del
  for key
proof (unfold_locales, goal_cases)
  case (1 m k s)
  then show ?case using HTInsert_ok[of key m s] by (auto simp: flow_ins_def HTInsert_None)
next
  case (2 m k s)
  then have "key s = k" using flow_lookup_iff by blast
  then show ?case using HTRemove_ok[of key m s] 2 by (auto simp: flow_del_def)
qed


section \<open>Runs of the table\<close>

text \<open>
  Insertions, with the bucket of an earlier search or without, removals and searches, as
  the code calls them; the results are those of the searches.  \<open>None\<close> is a failed
  assertion.  In the specification the table is a map from flows to streams, and \<open>None\<close> is
  a call the code never makes: inserting a flow that is there, removing a stream that is not.
\<close>

datatype flow_op = FInsert ref bool | FRemove ref | FSearch tcp_stream

fun flow_run :: "flow_op list \<Rightarrow> mtcp_manager \<Rightarrow> (ref option list \<times> mtcp_manager) option" where
  "flow_run [] m = Some ([], m)"
| "flow_run (FInsert s searched # ops) m =
     (case HTInsert s (if searched then Some (fst (HTSearch (strm m s) m)) else None) m of
        None \<Rightarrow> None | Some (c, m') \<Rightarrow> flow_run ops m')"
| "flow_run (FRemove s # ops) m =
     (case HTRemove s m of None \<Rightarrow> None | Some (r, m') \<Rightarrow> flow_run ops m')"
| "flow_run (FSearch t # ops) m =
     map_option (\<lambda>(rs, m'). (snd (HTSearch t m) # rs, m')) (flow_run ops m)"

fun flow_spec :: "(ref \<Rightarrow> flow) \<Rightarrow> flow_op list \<Rightarrow> (flow \<Rightarrow> ref option)
    \<Rightarrow> (ref option list \<times> (flow \<Rightarrow> ref option)) option" where
  "flow_spec key [] d = Some ([], d)"
| "flow_spec key (FInsert s searched # ops) d =
     (if d (key s) = None then flow_spec key ops (d(key s \<mapsto> s)) else None)"
| "flow_spec key (FRemove s # ops) d =
     (if d (key s) = Some s then flow_spec key ops (d(key s := None)) else None)"
| "flow_spec key (FSearch t # ops) d =
     map_option (\<lambda>(rs, d'). (d (flow_key t) # rs, d')) (flow_spec key ops d)"

lemma flow_run_spec:
  assumes "table_ok key m" "flow_spec key ops (flow_lookup m) = Some (rs, d)"
  shows "\<exists>m'. flow_run ops m = Some (rs, m') \<and> table_ok key m' \<and> flow_lookup m' = d"
  using assms
proof (induction ops arbitrary: m rs)
  case (Cons a ops)
  show ?case
  proof (cases a)
    case (FInsert s b)
    with Cons.prems have new: "flow_lookup m (key s) = None"
      and rest: "flow_spec key ops ((flow_lookup m)(key s \<mapsto> s)) = Some (rs, d)"
      by (auto split: if_splits)
    from HTInsert_ok[OF Cons.prems(1) new] obtain m' where
      m': "HTInsert s (Some (HashFlow (strm m s))) m = Some (0, m')" "table_ok key m'"
      "flow_lookup m' = (flow_lookup m)(key s \<mapsto> s)" by blast
    from rest have "flow_spec key ops (flow_lookup m') = Some (rs, d)" unfolding m'(3) .
    from Cons.IH[OF m'(2) this] show ?thesis by (simp add: FInsert HTInsert_None HTSearch_lookup m'(1))
  next
    case (FRemove s)
    with Cons.prems have on: "flow_lookup m (key s) = Some s"
      and rest: "flow_spec key ops ((flow_lookup m)(key s := None)) = Some (rs, d)"
      by (auto split: if_splits)
    from HTRemove_ok[OF Cons.prems(1) on] obtain m' where
      m': "HTRemove s m = Some (s, m')" "table_ok key m'" "flow_lookup m' = (flow_lookup m)(key s := None)" by blast
    from rest have "flow_spec key ops (flow_lookup m') = Some (rs, d)" unfolding m'(3) .
    from Cons.IH[OF m'(2) this] show ?thesis by (simp add: FRemove m'(1))
  next
    case (FSearch t)
    with Cons.prems obtain rs' where "flow_spec key ops (flow_lookup m) = Some (rs', d)"
      and "rs = flow_lookup m (flow_key t) # rs'" by auto
    with Cons.IH[OF Cons.prems(1)] show ?thesis by (fastforce simp: FSearch HTSearch_lookup)
  qed
qed simp

lemma table_ok_created:
  assumes "CreateHashtable True = Some (tcp_flow_table m)"
  shows "table_ok (\<lambda>s. flow_key (strm m s)) m" and "flow_lookup m = Map.empty"
  using assms[symmetric]
  by (auto simp: CreateHashtable_def table_ok_def bucket_def table_streams_def flow_lookup_def HTSearch_def)

text \<open>
  C23.  The flow table is a map from flows to streams.  On a freshly created table, any
  sequence of insertions (with the bucket of a search or without), removals and searches in
  which no flow is inserted twice and only a stream on the table is removed runs without a
  failed assertion; every search returns the stream of the searched addresses and ports, or
  null; and the table's counter is the number of streams on it modulo 256.
\<close>

theorem flow_table_refines:
  assumes "CreateHashtable True = Some (tcp_flow_table m)"
    and "flow_spec (\<lambda>s. flow_key (strm m s)) ops Map.empty = Some (rs, d)"
  shows "\<exists>m'. flow_run ops m = Some (rs, m') \<and> (\<forall>t. HTSearch t m' = (HashFlow t, d (flow_key t)))
           \<and> ht_count (tcp_flow_table m') = of_nat (card (table_streams m'))"
  using flow_run_spec[OF table_ok_created(1)[OF assms(1)], of ops rs d] table_ok_created(2)[OF assms(1)] assms(2)
  by (auto simp: HTSearch_lookup table_ok_def)

definition flow_demo :: mtcp_manager where
  "flow_demo = zero_mtcp\<lparr>streams := (\<lambda>s. zero_stream\<lparr>saddr := 0xC0A80001, sport := of_nat s\<rparr>)\<rparr>"

lemma flow_demo_keys: "flow_key (strm flow_demo s) = (0xC0A80001, of_nat s, 0, 0)"
  by (simp add: flow_demo_def flow_key_def strm_def zero_stream_def)

theorem flow_table_refines_witness:
  "\<exists>m'. flow_run [FInsert 1 True, FInsert 2 False, FSearch (strm flow_demo 2), FRemove 2,
             FSearch (strm flow_demo 2), FSearch (strm flow_demo 1)] flow_demo
           = Some ([Some 2, None, Some 1], m')"
  using flow_table_refines[of flow_demo "[FInsert 1 True, FInsert 2 False, FSearch (strm flow_demo 2),
      FRemove 2, FSearch (strm flow_demo 2), FSearch (strm flow_demo 1)]" "[Some 2, None, Some 1]"
      "Map.empty((0xC0A80001, 1, 0, 0) \<mapsto> 1)"]
  by (auto simp: flow_demo_keys) (auto simp: flow_demo_def zero_mtcp_def CreateHashtable_def)

text \<open>
  Whatever the addresses and ports, the hash of a flow is an index of the table, and
  depends on nothing but the four of them: the packets of one direction of a connection
  always meet in one bucket.
\<close>

theorem HashFlow_in_table:
  "unat (HashFlow t) < unat NUM_BINS
   \<and> HashFlow (t\<lparr>saddr := saddr u, sport := sport u, daddr := daddr u, dport := dport u\<rparr>) = HashFlow u"
  using HashFlow_bound[of t] by (simp add: NUM_BINS_def HashFlow_def flow_bytes_def)

end
