(* ===== verification/Sockets.thy ===== *)
theory Sockets
  imports Conn_Lists Event_Queue
begin

text \<open>
  The socket maps (\<open>socket.c\<close>): sockets are handed out from two free lists, one for
  endpoint sockets and one for monitor sockets, and go back to the end of them.  A monitor
  socket holds references to the event trees of its listener; a tree whose count reaches
  zero is gone.  The BPF programs of a listener and its user context are not part of the
  model.
\<close>

section \<open>References to event trees\<close>

text \<open>A socket has three trees, for the events without hook and the two hooks; each may be missing.\<close>

definition stree_inc_ref :: "nat option \<Rightarrow> mtcp_manager \<Rightarrow> mtcp_manager" where
  "stree_inc_ref tr m =
     (case tr of None \<Rightarrow> m | Some t \<Rightarrow> m\<lparr>stree_refs := (stree_refs m)(t := stree_refs m t + 1)\<rparr>)"

definition stree_dec_ref :: "nat option \<Rightarrow> mtcp_manager \<Rightarrow> mtcp_manager" where
  "stree_dec_ref tr m =
     (case tr of None \<Rightarrow> m | Some t \<Rightarrow> m\<lparr>stree_refs := (stree_refs m)(t := stree_refs m t - 1)\<rparr>)"

definition mod_msock :: "ref \<Rightarrow> (socket_map \<Rightarrow> socket_map) \<Rightarrow> mtcp_manager \<Rightarrow> mtcp_manager" where
  "mod_msock k f m = m\<lparr>msmap := (msmap m)(k := f (msmap m k))\<rparr>"

definition mod_mon :: "(mon_stream \<Rightarrow> mon_stream) \<Rightarrow> socket_map \<Rightarrow> socket_map" where
  "mod_mon f sk = sk\<lparr>sk_mon := f (sk_mon sk)\<rparr>"

section \<open>Allocation and release\<close>

definition FreeMonListener :: "ref \<Rightarrow> mtcp_manager \<Rightarrow> mtcp_manager" where
  "FreeMonListener k m =
     (let m = fold stree_dec_ref (ml_strees (mlisteners m k)) m
      in m\<lparr>mlisteners := (mlisteners m)(k := zero_listener)\<rparr>)"

definition FreeMonStream :: "ref \<Rightarrow> mtcp_manager \<Rightarrow> mtcp_manager" where
  "FreeMonStream k m =
     (let m = fold stree_dec_ref (ms_strees (sk_mon (msmap m k))) m
      in mod_msock k (mod_mon (\<lambda>d. d\<lparr>ms_strees := [None, None, None], ms_stream := None,
           ms_peek_offset := (ms_peek_offset d)(MOS_SIDE_CLI := 0, MOS_SIDE_SVR := 0)\<rparr>)) m)"

text \<open>The kinds of socket that live in the monitor map.\<close>

fun monitor_type :: "socket_type \<Rightarrow> bool" where
  "monitor_type MOS_SOCK_MONITOR_STREAM = True"
| "monitor_type MOS_SOCK_MONITOR_STREAM_ACTIVE = True"
| "monitor_type MOS_SOCK_MONITOR_RAW = True"
| "monitor_type _ = False"

definition socket_taken :: "socket_type \<Rightarrow> socket_map \<Rightarrow> socket_map" where
  "socket_taken ty sk = sk\<lparr>socktype := ty, sk_opts := 0, epoll := 0, events := 0\<rparr>"

text \<open>A socket with events still queued goes to the end of its list and the call fails.\<close>

definition AllocateSocket :: "socket_type \<Rightarrow> mtcp_manager \<Rightarrow> ref option \<times> mtcp_manager" where
  "AllocateSocket ty m =
     (if monitor_type ty then
        (let m = (if ty = MOS_SOCK_MONITOR_STREAM then m\<lparr>num_msp := num_msp m + 1\<rparr> else m)
         in case free_msmap m of
              [] \<Rightarrow> (None, m)
            | k # rest \<Rightarrow>
                if events (msmap m k) \<noteq> 0 then (None, m\<lparr>free_msmap := rest @ [k]\<rparr>)
                else (Some k, mod_msock k (socket_taken ty) (m\<lparr>free_msmap := rest\<rparr>)))
      else
        (let m = m\<lparr>num_esp := num_esp m + 1\<rparr>
         in case free_smap m of
              [] \<Rightarrow> (None, m)
            | k # rest \<Rightarrow>
                if events (smap m k) \<noteq> 0 then (None, m\<lparr>free_smap := rest @ [k]\<rparr>)
                else (Some k, mod_sock k (\<lambda>sk. socket_taken ty (sk\<lparr>sk_obj := NullObj,
                        sk_saddr := \<lparr>sin_addr = 0, sin_port = 0\<rparr>, ep_data := 0\<rparr>)) (m\<lparr>free_smap := rest\<rparr>))))"

definition socket_released :: "socket_map \<Rightarrow> socket_map" where
  "socket_released sk = sk\<lparr>socktype := MOS_SOCK_UNUSED, epoll := MOS_EPOLLNONE, events := 0\<rparr>"

definition FreeSocket :: "ref \<Rightarrow> socket_type \<Rightarrow> mtcp_manager \<Rightarrow> mtcp_manager" where
  "FreeSocket k ty m =
     (if ty = MOS_SOCK_UNUSED then m
      else if ty = MOS_SOCK_MONITOR_STREAM_ACTIVE then
        (let m = FreeMonStream k m
         in mod_msock k socket_released (m\<lparr>free_msmap := free_msmap m @ [k]\<rparr>))
      else if monitor_type ty then
        (let m = (if ty = MOS_SOCK_MONITOR_STREAM then m\<lparr>num_msp := num_msp m - 1\<rparr> else m);
             m = FreeMonListener k m
         in mod_msock k socket_released (m\<lparr>free_msmap := free_msmap m @ [k]\<rparr>))
      else
        (let m = m\<lparr>num_esp := num_esp m - 1, free_smap := free_smap m @ [k]\<rparr>
         in mod_sock k (\<lambda>sk. socket_released (sk\<lparr>sk_obj := NullObj\<rparr>)) m))"

definition GetSocket :: "mos_config \<Rightarrow> int \<Rightarrow> ref option" where
  "GetSocket cfg sockid =
     (if sockid < 0 \<or> sockid \<ge> max_concurrency cfg then None else Some (nat sockid))"

section \<open>The monitor sockets of a stream\<close>

text \<open>\<open>SOCKQ_INSERT_TAIL\<close> and \<open>SOCKQ_REMOVE\<close> on the \<open>msocks\<close> of a stream.\<close>

definition SOCKQ_INSERT_TAIL :: "ref \<Rightarrow> ref \<Rightarrow> mtcp_manager \<Rightarrow> mtcp_manager" where
  "SOCKQ_INSERT_TAIL s k m =
     (case MPAllocateChunk (sockent_pool m) of
        (None, mp) \<Rightarrow> m\<lparr>sockent_pool := mp\<rparr>
      | (Some c, mp) \<Rightarrow> mod_strm s (\<lambda>t. t\<lparr>msocks := msocks t @ [(k, c)]\<rparr>) (m\<lparr>sockent_pool := mp\<rparr>))"

definition SOCKQ_REMOVE :: "ref \<Rightarrow> ref \<Rightarrow> mtcp_manager \<Rightarrow> mtcp_manager" where
  "SOCKQ_REMOVE s k m =
     (case find (\<lambda>e. fst e = k) (msocks (strm m s)) of
        None \<Rightarrow> m
      | Some e \<Rightarrow> mod_strm s (\<lambda>t. t\<lparr>msocks := remove1 e (msocks t)\<rparr>)
                    (m\<lparr>sockent_pool := MPFreeChunk (sockent_pool m) (snd e)\<rparr>))"

text \<open>One active monitor socket for every stream listener whose filter was hit.\<close>

definition mon_attach :: "ref \<Rightarrow> ref \<Rightarrow> mon_listener \<Rightarrow> mon_stream \<Rightarrow> mon_stream" where
  "mon_attach s l ml d =
     d\<lparr>ms_stream := Some s, ms_listener := l, ms_client_buf_mgmt := ml_client_buf_mgmt ml,
       ms_server_buf_mgmt := ml_server_buf_mgmt ml, ms_client_mon := ml_client_mon ml,
       ms_server_mon := ml_server_mon ml, ms_strees := ml_strees ml\<rparr>"

fun add_monitor_sockets :: "ref \<Rightarrow> ref list \<Rightarrow> mtcp_manager \<Rightarrow> int \<times> mtcp_manager" where
  "add_monitor_sockets s [] m = (0, m)"
| "add_monitor_sockets s (l # ls) m =
     (if socktype (msmap m (ml_socket (mlisteners m l))) \<noteq> MOS_SOCK_MONITOR_STREAM then add_monitor_sockets s ls m
      else if \<not> ml_syn_hit (mlisteners m l) then add_monitor_sockets s ls m
      else case AllocateSocket MOS_SOCK_MONITOR_STREAM_ACTIVE m of
             (None, m) \<Rightarrow> (-1, m)
           | (Some k, m) \<Rightarrow>
               let m = mod_msock k (mod_mon (mon_attach s l (mlisteners m l))) m;
                   m = fold stree_inc_ref (ml_strees (mlisteners m l)) m
               in add_monitor_sockets s ls (SOCKQ_INSERT_TAIL s k m))"

definition AddMonitorStreamSockets :: "ref \<Rightarrow> mtcp_manager \<Rightarrow> int \<times> mtcp_manager" where
  "AddMonitorStreamSockets s m = add_monitor_sockets s (monitors m) m"

definition DestroyMonitorStreamSocket :: "ref option \<Rightarrow> mtcp_manager \<Rightarrow> int \<times> mtcp_manager" where
  "DestroyMonitorStreamSocket msock m =
     (case msock of
        None \<Rightarrow> (0, m)
      | Some k \<Rightarrow>
          let ty = socktype (msmap m k)
          in if ty = MOS_SOCK_MONITOR_STREAM_ACTIVE then (0, FreeSocket k ty m)
             else if ty = MOS_SOCK_MONITOR_RAW then (0, m)
             else (-1, m))"

end
