(* ===== verification/Stream_Life.thy ===== *)
theory Stream_Life
  imports Flow_Table Sockets Stream_Frame
begin

text \<open>
  The life of a stream (\<open>tcp_stream.c\<close>, and the route lookup of \<open>ip_out.c\<close>): its chunks,
  its entry in the flow table, its monitor sockets, the pairing of the two directions of a
  monitored connection, and everything that destroying it takes back.  A result \<open>None\<close> is a
  failed assertion.  \<open>pthread_mutex_init\<close> is taken to succeed.
\<close>

section \<open>Initial sequence numbers and routes\<close>

definition posix_seq_rand :: "mtcp_manager \<Rightarrow> u32 \<times> mtcp_manager" where
  "posix_seq_rand m =
     (let nxt = rand_next m * 1103515245 + 12345
      in ((ucast (nxt div 65536) :: u32) mod 32768, m\<lparr>rand_next := nxt\<rparr>))"

fun route_scan :: "u32 \<Rightarrow> route_entry list \<Rightarrow> int \<times> int \<Rightarrow> int \<times> int" where
  "route_scan dip [] np = np"
| "route_scan dip (e # es) (nif, prefix) =
     route_scan dip es
       (if dip AND re_mask e = re_masked_ip e \<and> re_prefix e > prefix
        then (re_nif e, re_prefix e) else (nif, prefix))"

definition GetOutputInterface :: "mos_config \<Rightarrow> u32 \<Rightarrow> int option" where
  "GetOutputInterface cfg dip =
     (let nif = fst (route_scan dip (route_table cfg) (-1, -1))
      in if nif < 0 then None else Some nif)"

section \<open>Creation\<close>

text \<open>
  The three chunks of a stream, cleared.  What an earlier allocation took goes back when a
  later one fails.
\<close>

definition alloc_stream :: "mtcp_manager \<Rightarrow> ref option \<times> mtcp_manager" where
  "alloc_stream m =
     (case MPAllocateChunk (flow_pool m) of
        (None, fp) \<Rightarrow> (None, m\<lparr>flow_pool := fp\<rparr>)
      | (Some s, fp) \<Rightarrow>
          (case MPAllocateChunk (rv_pool m) of
             (None, rp) \<Rightarrow> (None, m\<lparr>flow_pool := MPFreeChunk fp s, rv_pool := rp\<rparr>)
           | (Some r, rp) \<Rightarrow>
               (case MPAllocateChunk (sv_pool m) of
                  (None, sp) \<Rightarrow>
                    (None, m\<lparr>flow_pool := MPFreeChunk fp s, rv_pool := MPFreeChunk rp r, sv_pool := sp\<rparr>)
                | (Some v, sp) \<Rightarrow>
                    (Some s, mod_strm s (\<lambda>_. zero_stream\<lparr>rcvvar_chunk := r, sndvar_chunk := v\<rparr>)
                      (m\<lparr>flow_pool := fp, rv_pool := rp, sv_pool := sp\<rparr>)))))"

definition name_stream :: "u32 \<Rightarrow> u16 \<Rightarrow> u32 \<Rightarrow> u16 \<Rightarrow> ref \<Rightarrow> mtcp_manager \<Rightarrow> mtcp_manager" where
  "name_stream sa sp da dp s m =
     mod_strm s (\<lambda>t. t\<lparr>stream_id := g_id m, saddr := sa, sport := sp, daddr := da, dport := dp\<rparr>)
       (m\<lparr>g_id := g_id m + 1\<rparr>)"

definition set_vars :: "tcp_stream \<Rightarrow> tcp_stream" where
  "set_vars t = mod_snd (\<lambda>v. v\<lparr>mss := TCP_DEFAULT_MSS, wscale_mine := TCP_DEFAULT_WSCALE, wscale_peer := 0\<rparr>) t"

definition set_endpoint :: "int \<Rightarrow> u32 \<Rightarrow> u32 \<Rightarrow> tcp_stream \<Rightarrow> tcp_stream" where
  "set_endpoint nif isn wmem t =
     (mod_snd (\<lambda>v. v\<lparr>ip_id := 0, nif_out := nif, iss := isn, snd_una := isn, snd_wnd := wmem,
        rto := TCP_INITIAL_RTO\<rparr>) t)\<lparr>snd_nxt := isn\<rparr>"

definition set_receiver :: "tcp_stream \<Rightarrow> tcp_stream" where
  "set_receiver t =
     (mod_rcv (\<lambda>r. r\<lparr>irs := 0, rcv_wnd := TCP_INITIAL_WINDOW, snd_wl1 := 0 - 1\<rparr>) t)
       \<lparr>rcv_nxt := 0, buffer_mgmt := of_nat BUFMGMT_FULL, status_mgmt := True\<rparr>"

text \<open>
  The second half: attach the socket, and the endpoint's send state where the stream has
  one.  The initial sequence number is below 32768, so \<open>% TCP_MAX_SEQ\<close> does not change it.
\<close>

definition init_stream :: "mos_config \<Rightarrow> ref option \<Rightarrow> u32 \<Rightarrow> ref \<Rightarrow> mtcp_manager \<Rightarrow> mtcp_manager option" where
  "init_stream cfg sock ty s m =
     (let m = (case sock of None \<Rightarrow> m
               | Some k \<Rightarrow> mod_sock k (\<lambda>sk. sk\<lparr>sk_obj := StreamObj s\<rparr>) (mod_strm s (\<lambda>t. t\<lparr>socket := Some k\<rparr>) m));
          m = mod_strm s (\<lambda>t. set_vars (t\<lparr>stream_type := ty, state := TCP_ST_LISTEN, on_rto_idx := -1\<rparr>)) m
      in if HAS_STREAM_TYPE (strm m s) MOS_SOCK_STREAM then
           (case GetOutputInterface cfg (daddr (strm m s)) of
              None \<Rightarrow> None
            | Some nif \<Rightarrow>
                let (isn, m) = posix_seq_rand m
                in Some (mod_strm s (\<lambda>t. set_receiver (set_endpoint nif isn (wmem_size cfg) t)) m))
         else Some (mod_strm s set_receiver m))"

definition CreateTCPStream ::
  "mos_config \<Rightarrow> ref option \<Rightarrow> u32 \<Rightarrow> u32 \<Rightarrow> u16 \<Rightarrow> u32 \<Rightarrow> u16 \<Rightarrow> u32 option \<Rightarrow> mtcp_manager
     \<Rightarrow> (ref option \<times> mtcp_manager) option" where
  "CreateTCPStream cfg sock ty sa sp da dp hash m =
     (case alloc_stream m of
        (None, m) \<Rightarrow> Some (None, m)
      | (Some s, m) \<Rightarrow>
          (case HTInsert s hash (name_stream sa sp da dp s m) of
             None \<Rightarrow> None
           | Some (ret, m) \<Rightarrow>
               if ret < 0 then Some (None, m\<lparr>flow_pool := MPFreeChunk (flow_pool m) s\<rparr>)
               else
                 (let m = mod_strm s (\<lambda>t. t\<lparr>on_hash_table := True, msocks := []\<rparr>) (m\<lparr>flow_cnt := flow_cnt m + 1\<rparr>);
                      m = (if num_msp m > 0 \<and> ty AND STREAM_TYPE MOS_SOCK_MONITOR_STREAM_ACTIVE \<noteq> 0
                           then snd (AddMonitorStreamSockets s m) else m)
                  in map_option (\<lambda>m. (Some s, m)) (init_stream cfg sock ty s m))))"

section \<open>The two directions of a monitored connection\<close>

text \<open>The buffer management of a stream is the most any of its monitors asks for.\<close>

fun mon_buffers :: "(socket_map \<Rightarrow> nat) \<Rightarrow> (socket_map \<Rightarrow> bool) \<Rightarrow> ref \<Rightarrow> ref list \<Rightarrow> mtcp_manager \<Rightarrow> mtcp_manager" where
  "mon_buffers bm mon s [] m = m"
| "mon_buffers bm mon s (w # ws) m =
     mon_buffers bm mon s ws (mod_strm s (\<lambda>t.
       (let t = (if bm (msmap m w) > unat (buffer_mgmt t) then t\<lparr>buffer_mgmt := of_nat (bm (msmap m w))\<rparr> else t)
        in if mon (msmap m w) then t\<lparr>status_mgmt := True\<rparr> else t)) m)"

definition monitors_only :: "(socket_map \<Rightarrow> nat) \<Rightarrow> (mtcp_manager \<Rightarrow> socket_map \<Rightarrow> bool) \<Rightarrow> ref \<Rightarrow> mtcp_manager \<Rightarrow> mtcp_manager" where
  "monitors_only bm mon s m =
     (if IS_STREAM_TYPE (strm m s) MOS_SOCK_MONITOR_STREAM_ACTIVE then
        (let m = mod_strm s (\<lambda>t. t\<lparr>buffer_mgmt := of_nat BUFMGMT_OFF\<rparr>) m
         in mon_buffers bm (mon m) s (map fst (msocks (strm m s))) m)
      else m)"

definition CreateClientTCPStream ::
  "mos_config \<Rightarrow> ref option \<Rightarrow> u32 \<Rightarrow> u32 \<Rightarrow> u16 \<Rightarrow> u32 \<Rightarrow> u16 \<Rightarrow> u32 option \<Rightarrow> mtcp_manager
     \<Rightarrow> (ref option \<times> mtcp_manager) option" where
  "CreateClientTCPStream cfg sock ty sa sp da dp hash m =
     (case CreateTCPStream cfg sock ty da dp sa sp hash m of
        None \<Rightarrow> None
      | Some (None, m) \<Rightarrow> Some (None, m)
      | Some (Some cs, m) \<Rightarrow>
          let m = mod_strm cs (\<lambda>t. t\<lparr>side := MOS_SIDE_CLI, pair_stream := None\<rparr>) m
          in Some (Some cs, monitors_only (\<lambda>w. unat (ms_client_buf_mgmt (sk_mon w)))
                (\<lambda>m w. ml_client_mon (mlisteners m (ms_listener (sk_mon w)))) cs m))"

definition AttachServerTCPStream ::
  "mos_config \<Rightarrow> ref \<Rightarrow> u32 \<Rightarrow> u16 \<Rightarrow> u32 \<Rightarrow> u16 \<Rightarrow> mtcp_manager \<Rightarrow> (ref option \<times> mtcp_manager) option" where
  "AttachServerTCPStream cfg cs sa sp da dp m =
     (case CreateTCPStream cfg None (of_nat (sock_num MOS_SOCK_UNUSED)) sa sp da dp None m of
        None \<Rightarrow> None
      | Some (None, m) \<Rightarrow> Some (None, m)
      | Some (Some ss, m) \<Rightarrow>
          let m = mod_strm ss (\<lambda>t. t\<lparr>side := MOS_SIDE_SVR\<rparr>) m;
              m = mod_strm cs (\<lambda>t. t\<lparr>pair_stream := Some ss\<rparr>) m;
              m = mod_strm ss (\<lambda>t. t\<lparr>pair_stream := Some cs, socket := socket (strm m cs)\<rparr>) m;
              m = fold (SOCKQ_INSERT_TAIL ss) (map fst (msocks (strm m cs))) m;
              m = mod_strm ss (\<lambda>t. t\<lparr>stream_type := STREAM_TYPE MOS_SOCK_MONITOR_STREAM_ACTIVE\<rparr>) m
          in Some (Some ss, monitors_only (\<lambda>w. unat (ms_server_buf_mgmt (sk_mon w)))
                (\<lambda>m w. ml_server_mon (mlisteners m (ms_listener (sk_mon w)))) ss m))"

section \<open>Destruction\<close>

definition conn_end_callbacks :: "ref \<Rightarrow> mtcp_manager \<Rightarrow> mtcp_manager" where
  "conn_end_callbacks s m =
     (let ev = MOS_ON_CONN_END OR MOS_ON_TCP_STATE_CHANGE OR cb_events (strm m s);
          sd = side (strm m s)
      in fold (\<lambda>k m. HandleCallback MOS_HK_SND k sd ev (HandleCallback MOS_HK_RCV k sd ev m))
           (map fst (msocks (strm m s))) m)"

text \<open>What only an endpoint has: the sender's lists, the retransmission timer, the send buffer.\<close>

definition endpoint_teardown :: "mos_config \<Rightarrow> ref \<Rightarrow> mtcp_manager \<Rightarrow> mtcp_manager option" where
  "endpoint_teardown cfg s m =
     (if HAS_STREAM_TYPE (strm m s) MOS_SOCK_STREAM then
        (let m = RemoveFromACKList cfg s (RemoveFromSendList cfg s (RemoveFromControlList cfg s m));
             m = (if on_rto_idx (strm m s) \<ge> 0 then RemoveFromRTOList s m else m)
         in if \<not> on_hash_table (strm m s) then None
            else Some (case sndbuf (sndvar (strm m s)) of
                None \<Rightarrow> m
              | Some b \<Rightarrow> mod_strm s (mod_snd (\<lambda>v. v\<lparr>sndbuf := None\<rparr>))
                            (m\<lparr>rbm_snd := SBFree (rbm_snd m) (Some b)\<rparr>)))
      else Some m)"

definition timers_teardown :: "mos_config \<Rightarrow> ref \<Rightarrow> mtcp_manager \<Rightarrow> mtcp_manager" where
  "timers_teardown cfg s m =
     (let m = (if on_timewait_list (strm m s) then RemoveFromTimewaitList s m else m)
      in if tcp_timeout cfg > 0 then RemoveFromTimeoutList s m else m)"

definition rcvbuf_teardown :: "ref \<Rightarrow> mtcp_manager \<Rightarrow> mtcp_manager" where
  "rcvbuf_teardown s m =
     (case rcvbuf (rcvvar (strm m s)) of
        None \<Rightarrow> m
      | Some rb \<Rightarrow> mod_strm s (mod_rcv (\<lambda>r. r\<lparr>rcvbuf := None\<rparr>))
                     (m\<lparr>bufseg_pool := snd (tcprb_del rb (bufseg_pool m))\<rparr>))"

text \<open>The monitor sockets are shared with the other direction; the last one closes them.\<close>

fun drop_monitors :: "ref \<Rightarrow> ref list \<Rightarrow> mtcp_manager \<Rightarrow> mtcp_manager" where
  "drop_monitors s [] m = m"
| "drop_monitors s (w # ws) m =
     (let m = SOCKQ_REMOVE s w m
      in drop_monitors s ws
           (if pair_stream (strm m s) = None then snd (DestroyMonitorStreamSocket (Some w) m) else m))"

definition unpair :: "ref \<Rightarrow> mtcp_manager \<Rightarrow> mtcp_manager" where
  "unpair s m = (case pair_stream (strm m s) of
      None \<Rightarrow> m
    | Some p \<Rightarrow> mod_strm p (\<lambda>t. t\<lparr>pair_stream := None\<rparr>) m)"

definition free_stream :: "ref \<Rightarrow> mtcp_manager \<Rightarrow> mtcp_manager" where
  "free_stream s m =
     m\<lparr>rv_pool := MPFreeChunk (rv_pool m) (rcvvar_chunk (strm m s)),
       sv_pool := MPFreeChunk (sv_pool m) (sndvar_chunk (strm m s)),
       flow_pool := MPFreeChunk (flow_pool m) s\<rparr>"

definition release_address :: "mos_config \<Rightarrow> sockaddr_in \<Rightarrow> mtcp_manager \<Rightarrow> mtcp_manager option" where
  "release_address cfg addr m =
     (case own_ap m of
        Some a \<Rightarrow> map_option (\<lambda>r. m\<lparr>own_ap := Some (snd r)\<rparr>) (FreeAddress a addr)
      | None \<Rightarrow>
          (case GetOutputInterface cfg (sin_addr addr) of
             None \<Rightarrow> None
           | Some nif \<Rightarrow>
               map_option (\<lambda>r. m\<lparr>nif_ap := (nif_ap m)(nat nif := snd r)\<rparr>) (FreeAddress (nif_ap m (nat nif)) addr)))"

definition DestroySingleTCPStream :: "mos_config \<Rightarrow> ref \<Rightarrow> mtcp_manager \<Rightarrow> mtcp_manager option" where
  "DestroySingleTCPStream cfg s m =
     (let m = conn_end_callbacks s (mod_strm s (\<lambda>t. t\<lparr>state := TCP_ST_CLOSED_RSVD\<rparr>) m);
          t = strm m s;
          bound_addr = (if HAS_STREAM_TYPE t MOS_SOCK_STREAM \<and> is_bound_addr t
                        then Some \<lparr>sin_addr = saddr t, sin_port = sport t\<rparr> else None)
      in case endpoint_teardown cfg s m of
           None \<Rightarrow> None
         | Some m \<Rightarrow>
             (case HTRemove s (rcvbuf_teardown s (timers_teardown cfg s m)) of
                None \<Rightarrow> None
              | Some (_, m) \<Rightarrow>
                  (let m = mod_strm s (\<lambda>t. t\<lparr>on_hash_table := False\<rparr>) (m\<lparr>flow_cnt := flow_cnt m - 1\<rparr>);
                       m = free_stream s (unpair s (drop_monitors s (map fst (msocks (strm m s))) m))
                   in case bound_addr of
                        None \<Rightarrow> Some m
                      | Some addr \<Rightarrow> release_address cfg addr m)))"

definition DestroyTCPStream :: "mos_config \<Rightarrow> ref \<Rightarrow> mtcp_manager \<Rightarrow> mtcp_manager option" where
  "DestroyTCPStream cfg s m =
     (let pr = pair_stream (strm m s)
      in case DestroySingleTCPStream cfg s m of
           None \<Rightarrow> None
         | Some m \<Rightarrow> (case pr of None \<Rightarrow> Some m | Some p \<Rightarrow> DestroySingleTCPStream cfg p m))"

section \<open>The route lookup\<close>

lemma route_scan_best:
  assumes "route_scan dip es (nif, prefix) = (nif', prefix')"
  shows "prefix \<le> prefix'
    \<and> (\<forall>e \<in> set es. dip AND re_mask e = re_masked_ip e \<longrightarrow> re_prefix e \<le> prefix')
    \<and> ((nif', prefix') = (nif, prefix) \<or>
       (\<exists>e \<in> set es. dip AND re_mask e = re_masked_ip e \<and> re_prefix e = prefix' \<and> re_nif e = nif'))"
  using assms
proof (induction es arbitrary: nif prefix)
  case (Cons e es)
  show ?case
  proof (cases "dip AND re_mask e = re_masked_ip e \<and> re_prefix e > prefix")
    case True
    then have "route_scan dip es (re_nif e, re_prefix e) = (nif', prefix')" using Cons.prems by simp
    from Cons.IH[OF this] show ?thesis using True by auto
  next
    case False
    then have "route_scan dip es (nif, prefix) = (nif', prefix')" using Cons.prems by auto
    from Cons.IH[OF this] show ?thesis using False by auto
  qed
qed simp

text \<open>
  Routing is by the longest prefix.  With prefixes that are not negative and
  interfaces that exist, the route lookup fails exactly when no entry of the table matches
  the destination, and otherwise returns the interface of a matching entry whose prefix no
  matching entry exceeds.
\<close>

theorem GetOutputInterface_longest:
  assumes "\<forall>e \<in> set (route_table cfg). re_prefix e \<ge> 0 \<and> re_nif e \<ge> 0"
  shows "case GetOutputInterface cfg dip of
      None \<Rightarrow> \<not> (\<exists>e \<in> set (route_table cfg). dip AND re_mask e = re_masked_ip e)
    | Some nif \<Rightarrow> \<exists>e \<in> set (route_table cfg). re_nif e = nif \<and> dip AND re_mask e = re_masked_ip e
        \<and> (\<forall>e' \<in> set (route_table cfg). dip AND re_mask e' = re_masked_ip e' \<longrightarrow> re_prefix e' \<le> re_prefix e)"
proof -
  obtain nif prefix where r: "route_scan dip (route_table cfg) (-1, -1) = (nif, prefix)"
    by (metis surj_pair)
  note b = route_scan_best[OF r]
  show ?thesis
  proof (cases "(nif, prefix) = (-1, -1)")
    case True
    then have "\<not> (\<exists>e \<in> set (route_table cfg). dip AND re_mask e = re_masked_ip e)"
      using b assms by fastforce
    then show ?thesis using True r by (simp add: GetOutputInterface_def)
  next
    case False
    then obtain e where "e \<in> set (route_table cfg)" "dip AND re_mask e = re_masked_ip e"
      "re_prefix e = prefix" "re_nif e = nif" using b by blast
    moreover from this have "nif \<ge> 0" using assms by auto
    ultimately show ?thesis using b r by (auto simp: GetOutputInterface_def)
  qed
qed

definition route_demo :: mos_config where
  "route_demo = epoll_cfg\<lparr>route_table :=
     [\<lparr>re_mask = 0, re_masked_ip = 0, re_prefix = 0, re_nif = 1\<rparr>,
      \<lparr>re_mask = 0x00FFFFFF, re_masked_ip = 0x0001A8C0, re_prefix = 24, re_nif = 0\<rparr>]\<rparr>"

theorem GetOutputInterface_longest_witness:
  "GetOutputInterface route_demo 0x0501A8C0 = Some 0"
  using GetOutputInterface_longest[of route_demo "0x0501A8C0"]
  by (auto simp: route_demo_def GetOutputInterface_def)

end
