(* ===== verification/Stream_Inv.thy ===== *)
theory Stream_Inv
  imports Stream_Life
begin

text \<open>
  What creating and destroying streams keeps of the manager.  \<open>life_inv cfg L m\<close> says that
  \<open>L\<close> is the set of live streams: they and no others are in the flow table, they hold
  exactly the chunks that are not free, each has chunks of its own for its variables, the
  lists agree with the flags, and the pairing is symmetric.
\<close>

section \<open>Exact pools\<close>

definition exact_pool :: "mem_pool \<Rightarrow> nat set \<Rightarrow> bool" where
  "exact_pool mp U \<longleftrightarrow> 0 \<le> mp_total_chunks mp \<and> U \<subseteq> {0..<nat (mp_total_chunks mp)}
     \<and> mp_ok mp ({0..<nat (mp_total_chunks mp)} - U)"

lemma exact_pool_alloc:
  assumes e: "exact_pool mp U" and a: "MPAllocateChunk mp = (Some p, mp')"
  shows "p \<notin> U" "exact_pool mp' (insert p U)"
proof -
  let ?F = "{0..<nat (mp_total_chunks mp)} - U"
  have ok: "mp_ok mp ?F" using e by (simp add: exact_pool_def)
  have "?F \<noteq> {}" using ok MPAllocateChunk_empty[of mp] a by fastforce
  from MPAllocateChunk_step[OF ok this] have p: "p \<in> ?F" "mp_ok mp' (?F - {p})"
    "mp_total_chunks mp' = mp_total_chunks mp" by (simp_all add: a)
  then show "p \<notin> U" "exact_pool mp' (insert p U)"
    using e unfolding exact_pool_def p(3) Diff_insert[symmetric] by auto
qed

lemma exact_pool_none: "MPAllocateChunk mp = (None, mp') \<Longrightarrow> mp' = mp"
  by (auto simp: MPAllocateChunk_def Let_def split: if_splits)

lemma exact_pool_free:
  assumes "exact_pool mp U" "p \<in> U"
  shows "exact_pool (MPFreeChunk mp p) (U - {p})"
proof -
  have "mp_ok (MPFreeChunk mp p) (insert p ({0..<nat (mp_total_chunks mp)} - U))"
    using assms unfolding exact_pool_def by (intro MPFreeChunk_step) auto
  moreover have "insert p ({0..<nat (mp_total_chunks mp)} - U) = {0..<nat (mp_total_chunks mp)} - (U - {p})"
    using assms by (auto simp: exact_pool_def)
  ultimately show ?thesis using assms by (auto simp: exact_pool_def MPFreeChunk_def)
qed

lemma exact_pool_undo:
  assumes "exact_pool mp U" "MPAllocateChunk mp = (Some p, mp')"
  shows "exact_pool (MPFreeChunk mp' p) U"
  using exact_pool_free[OF exact_pool_alloc(2)[OF assms], of p] exact_pool_alloc(1)[OF assms] by simp

section \<open>The parts of the invariant\<close>

definition lists_rest :: "mtcp_manager \<Rightarrow> _" where
  "lists_rest m = ((senders m, rto_store m), (timewait_list m, timeout_list m),
     (rto_list_cnt m, timewait_list_cnt m, timeout_list_cnt m))"

lemma tracked_cong:
  assumes "\<And>s. s \<in> L \<Longrightarrow> pl s = pl' s"
  shows "tracked L ls pl = tracked L ls pl'"
proof -
  have "{s \<in> L. pl s = Some k} = {s \<in> L. pl' s = Some k}" for k using assms by auto
  then show ?thesis by (simp add: tracked_def)
qed

lemma placed_on_cong: "(\<And>s. s \<in> L \<Longrightarrow> pl s = pl' s) \<Longrightarrow> placed_on pl L = placed_on pl' L"
  by (auto simp: placed_on_def)

text \<open>The lists only depend on the live streams.\<close>

lemma lists_ok_view:
  assumes r: "lists_rest m' = lists_rest m"
    and v: "\<And>s. s \<in> L \<Longrightarrow> list_view (strm m' s) = list_view (strm m s)"
  shows "lists_ok cfg L m' = lists_ok cfg L m"
proof -
  have g: "s \<in> L \<Longrightarrow> GetSender cfg (strm m' s) = GetSender cfg (strm m s)" for s
    by (rule GetSender_cong) (use v[of s] in \<open>simp add: list_view_def\<close>)
  have p: "s \<in> L \<Longrightarrow> control_of cfg m' s = control_of cfg m s" "s \<in> L \<Longrightarrow> send_of cfg m' s = send_of cfg m s"
    "s \<in> L \<Longrightarrow> ack_of cfg m' s = ack_of cfg m s" "s \<in> L \<Longrightarrow> rto_of m' s = rto_of m s"
    "s \<in> L \<Longrightarrow> timewait_of m' s = timewait_of m s" "s \<in> L \<Longrightarrow> timeout_of m' s = timeout_of m s" for s
    using v[of s] g[of s] by (simp_all add: place_defs list_view_def)
  have l: "control_lists m' = control_lists m" "send_lists m' = send_lists m" "ack_lists m' = ack_lists m"
    "rto_lists m' = rto_lists m" "timewait_lists m' = timewait_lists m" "timeout_lists m' = timeout_lists m"
    "control_cnts m' = control_cnts m" "send_cnts m' = send_cnts m" "ack_cnts m' = ack_cnts m"
    "rto_list_cnt m' = rto_list_cnt m" "timewait_list_cnt m' = timewait_list_cnt m"
    "timeout_list_cnt m' = timeout_list_cnt m"
    using r by (simp_all add: lists_rest_def lists_defs fun_eq_iff)
  have "timer_excl L m' = timer_excl L m" using p unfolding timer_excl_def by simp
  moreover have "each_ok L (ctl_fam cfg m') = each_ok L (ctl_fam cfg m)"
    "each_ok L (snd_fam cfg m') = each_ok L (snd_fam cfg m)" "each_ok L (ack_fam cfg m') = each_ok L (ack_fam cfg m)"
    unfolding each_ok_def fam_defs prod.case l
    using tracked_cong[of L "control_of cfg m'" "control_of cfg m"] tracked_cong[of L "send_of cfg m'" "send_of cfg m"]
      tracked_cong[of L "ack_of cfg m'" "ack_of cfg m"] p(1-3) by blast+
  moreover have "total_ok L (rto_fam m') = total_ok L (rto_fam m)" "total_ok L (tw_fam m') = total_ok L (tw_fam m)"
    "total_ok L (to_fam m') = total_ok L (to_fam m)"
    unfolding total_ok_def fam_defs prod.case l
    using tracked_cong[of L "rto_of m'" "rto_of m"] tracked_cong[of L "timewait_of m'" "timewait_of m"]
      tracked_cong[of L "timeout_of m'" "timeout_of m"] placed_on_cong[of L "rto_of m'" "rto_of m"]
      placed_on_cong[of L "timewait_of m'" "timewait_of m"] placed_on_cong[of L "timeout_of m'" "timeout_of m"] p(4-6)
    by simp_all
  ultimately show ?thesis unfolding lists_ok_def by simp
qed

text \<open>A stream on no list can be added to the live ones, and taken away from them.\<close>

definition off_all :: "tcp_stream \<Rightarrow> bool" where
  "off_all t \<longleftrightarrow> \<not> on_control_list (sndvar t) \<and> \<not> on_send_list (sndvar t) \<and> \<not> on_ack_list (sndvar t)
     \<and> on_rto_idx t < 0 \<and> \<not> on_timewait_list t \<and> \<not> on_timeout_list t"

lemma off_all_places:
  assumes "off_all (strm m s)"
  shows "control_of cfg m s = None" "send_of cfg m s = None" "ack_of cfg m s = None"
    "rto_of m s = None" "timewait_of m s = None" "timeout_of m s = None"
  using assms by (simp_all add: off_all_def place_defs)

lemma tracked_off:
  assumes "pl s = None"
  shows "tracked (insert s L) ls pl = tracked L ls pl" "tracked (L - {s}) ls pl = tracked L ls pl"
    "placed_on pl (insert s L) = placed_on pl L" "placed_on pl (L - {s}) = placed_on pl L"
proof -
  have e: "{x \<in> insert s L. pl x = Some k} = {x \<in> L. pl x = Some k}"
    "{x \<in> L - {s}. pl x = Some k} = {x \<in> L. pl x = Some k}" for k using assms by auto
  show "tracked (insert s L) ls pl = tracked L ls pl" "tracked (L - {s}) ls pl = tracked L ls pl"
    unfolding tracked_def e by simp_all
  show "placed_on pl (insert s L) = placed_on pl L" "placed_on pl (L - {s}) = placed_on pl L"
    using assms by (auto simp: placed_on_def)
qed

lemma lists_ok_off:
  assumes "off_all (strm m s)"
  shows "lists_ok cfg (insert s L) m = lists_ok cfg L m" "lists_ok cfg (L - {s}) m = lists_ok cfg L m"
proof -
  note o = off_all_places[OF assms]
  show "lists_ok cfg (insert s L) m = lists_ok cfg L m" "lists_ok cfg (L - {s}) m = lists_ok cfg L m"
    unfolding lists_ok_def each_ok_def total_ok_def fam_defs prod.case
      tracked_off[of "control_of cfg m", OF o(1)] tracked_off[of "send_of cfg m", OF o(2)]
      tracked_off[of "ack_of cfg m", OF o(3)] tracked_off[of "rto_of m", OF o(4)]
      tracked_off[of "timewait_of m", OF o(5)] tracked_off[of "timeout_of m", OF o(6)]
    using o(4) by (auto simp: timer_excl_def)
qed


definition pools_ok :: "ref set \<Rightarrow> mtcp_manager \<Rightarrow> bool" where
  "pools_ok U m \<longleftrightarrow> exact_pool (flow_pool m) U
     \<and> inj_on (\<lambda>s. rcvvar_chunk (strm m s)) U \<and> exact_pool (rv_pool m) ((\<lambda>s. rcvvar_chunk (strm m s)) ` U)
     \<and> inj_on (\<lambda>s. sndvar_chunk (strm m s)) U \<and> exact_pool (sv_pool m) ((\<lambda>s. sndvar_chunk (strm m s)) ` U)"

lemma pools_ok_cong:
  assumes "flow_pool m' = flow_pool m" "rv_pool m' = rv_pool m" "sv_pool m' = sv_pool m"
    and v: "\<And>s. s \<in> U \<Longrightarrow> rcvvar_chunk (strm m' s) = rcvvar_chunk (strm m s)
      \<and> sndvar_chunk (strm m' s) = sndvar_chunk (strm m s)"
  shows "pools_ok U m' = pools_ok U m"
proof -
  have i: "(\<lambda>s. rcvvar_chunk (strm m' s)) ` U = (\<lambda>s. rcvvar_chunk (strm m s)) ` U"
    "(\<lambda>s. sndvar_chunk (strm m' s)) ` U = (\<lambda>s. sndvar_chunk (strm m s)) ` U"
    using v by (auto intro!: image_cong)
  have j: "inj_on (\<lambda>s. rcvvar_chunk (strm m' s)) U = inj_on (\<lambda>s. rcvvar_chunk (strm m s)) U"
    "inj_on (\<lambda>s. sndvar_chunk (strm m' s)) U = inj_on (\<lambda>s. sndvar_chunk (strm m s)) U"
    using v by (auto intro!: inj_on_cong)
  show ?thesis unfolding pools_ok_def i j assms(1-3) ..
qed

definition table_live :: "ref set \<Rightarrow> mtcp_manager \<Rightarrow> bool" where
  "table_live L m \<longleftrightarrow> table_ok (\<lambda>s. flow_key (strm m s)) m \<and> table_streams m = L
     \<and> flow_cnt m = of_nat (card L) \<and> (\<forall>s \<in> L. on_hash_table (strm m s))"

definition reg_view :: "tcp_stream \<Rightarrow> _" where
  "reg_view t = ((flow_key t, he_mybucket (rcvvar t), on_hash_table t), (rcvvar_chunk t, sndvar_chunk t, pair_stream t),
     (on_control_list (sndvar t), on_send_list (sndvar t), on_ack_list (sndvar t)),
     (on_timewait_list t, on_timeout_list t))"

lemma table_ok_outside:
  assumes ok: "table_ok (\<lambda>s. flow_key (strm m s)) m" and t: "tcp_flow_table m' = tcp_flow_table m"
    and v: "\<And>s. s \<in> table_streams m \<Longrightarrow> flow_key (strm m' s) = flow_key (strm m s)
      \<and> he_mybucket (rcvvar (strm m' s)) = he_mybucket (rcvvar (strm m s))"
  shows "table_ok (\<lambda>s. flow_key (strm m' s)) m'" "table_streams m' = table_streams m"
    "flow_lookup m' = flow_lookup m"
proof -
  have b: "bucket m' = bucket m" by (simp add: bucket_def t)
  show s: "table_streams m' = table_streams m" by (simp add: table_streams_def b)
  have on: "w \<in> set (bucket m i) \<Longrightarrow> w \<in> table_streams m" for w i by (auto simp: table_streams_def)
  have d: "map (\<lambda>s. flow_key (strm m' s)) (bucket m i) = map (\<lambda>s. flow_key (strm m s)) (bucket m i)" for i
    using v on by (auto intro!: map_cong)
  have "HashFlow (strm m' w) = HashFlow (strm m w)" if "w \<in> table_streams m" for w
    using v[OF that] by (intro HashFlow_key) simp
  then show ok': "table_ok (\<lambda>s. flow_key (strm m' s)) m'"
    using ok v on unfolding table_ok_def b s t d by metis
  show "flow_lookup m' = flow_lookup m"
    by (rule flow_lookup_eqI[OF ok']) (use flow_lookup_iff[OF ok] v s in auto)
qed

lemma flow_lookup_cong:
  assumes "tcp_flow_table m' = tcp_flow_table m" "\<And>w. flow_key (strm m' w) = flow_key (strm m w)"
  shows "flow_lookup m' = flow_lookup m"
  using assms by (simp add: flow_lookup_def HTSearch_def EQUAL_FLOW_key fun_eq_iff)

definition paired :: "ref set \<Rightarrow> mtcp_manager \<Rightarrow> bool" where
  "paired L m \<longleftrightarrow> (\<forall>s \<in> L. \<forall>p. pair_stream (strm m s) = Some p \<longrightarrow>
     p \<in> L \<and> p \<noteq> s \<and> pair_stream (strm m p) = Some s)"

text \<open>
  A stream that is not an endpoint is on no list of a sender and has no retransmission
  timer, and without an inactivity timeout no stream is on the inactivity list.
\<close>

definition sender_off :: "tcp_stream \<Rightarrow> bool" where
  "sender_off t \<longleftrightarrow> \<not> on_control_list (sndvar t) \<and> \<not> on_send_list (sndvar t) \<and> \<not> on_ack_list (sndvar t)
     \<and> on_rto_idx t < 0"

definition listed_ok :: "mos_config \<Rightarrow> tcp_stream \<Rightarrow> bool" where
  "listed_ok cfg t \<longleftrightarrow> (HAS_STREAM_TYPE t MOS_SOCK_STREAM \<or> sender_off t)
     \<and> (tcp_timeout cfg > 0 \<or> \<not> on_timeout_list t)"

definition life_inv :: "mos_config \<Rightarrow> ref set \<Rightarrow> mtcp_manager \<Rightarrow> bool" where
  "life_inv cfg L m \<longleftrightarrow> lists_ok cfg L m \<and> pools_ok L m \<and> table_live L m \<and> paired L m
     \<and> (\<forall>s \<in> L. listed_ok cfg (strm m s))"

text \<open>What the set-up of a stream after its insertion into the table leaves as it is.\<close>

definition life_rest :: "mtcp_manager \<Rightarrow> _" where
  "life_rest m = ((lists_rest m, tcp_flow_table m, flow_cnt m), (flow_pool m, rv_pool m, sv_pool m),
     own_ap m, nif_ap m)"

definition kept :: "ref \<Rightarrow> mtcp_manager \<Rightarrow> mtcp_manager \<Rightarrow> bool" where
  "kept s m m' \<longleftrightarrow> only s m m' \<and> life_rest m' = life_rest m \<and> reg_view (strm m' s) = reg_view (strm m s)"

lemma kept_refl [simp]: "kept s m m"
  by (simp add: kept_def)

lemma kept_trans [trans]: "kept s m m1 \<Longrightarrow> kept s m1 m2 \<Longrightarrow> kept s m m2"
  by (simp add: kept_def only_def)

lemma kept_mod_strm: "reg_view (f (strm m s)) = reg_view (strm m s) \<Longrightarrow> kept s m (mod_strm s f m)"
  by (simp add: kept_def life_rest_def lists_rest_def)

lemma kept_rest: "streams m' = streams m \<Longrightarrow> life_rest m' = life_rest m \<Longrightarrow> kept s m m'"
  by (simp add: kept_def only_def strm_def)

lemma stree_fold [simp]:
  "streams (fold stree_inc_ref ts m) = streams m" "streams (fold stree_dec_ref ts m) = streams m"
  "life_rest (fold stree_inc_ref ts m) = life_rest m" "life_rest (fold stree_dec_ref ts m) = life_rest m"
  "msmap (fold stree_dec_ref ts m) = msmap m"
  by (induction ts arbitrary: m) (simp_all add: stree_inc_ref_def stree_dec_ref_def life_rest_def lists_rest_def split: option.splits)

lemma mod_msock_frame [simp]:
  "streams (mod_msock k f m) = streams m" "life_rest (mod_msock k f m) = life_rest m"
  "streams (mod_sock k f m) = streams m" "life_rest (mod_sock k f m) = life_rest m"
  by (simp_all add: mod_msock_def mod_sock_def life_rest_def lists_rest_def)

lemma life_rest_upd [simp]:
  "life_rest (m\<lparr>mlisteners := ml\<rparr>) = life_rest m"
  "life_rest (m\<lparr>free_msmap := l\<rparr>) = life_rest m"
  "life_rest (m\<lparr>free_smap := l\<rparr>) = life_rest m"
  "life_rest (m\<lparr>num_msp := n\<rparr>) = life_rest m"
  "life_rest (m\<lparr>num_esp := n\<rparr>) = life_rest m"
  "life_rest (m\<lparr>sockent_pool := mp\<rparr>) = life_rest m"
  "life_rest (m\<lparr>bufseg_pool := mp\<rparr>) = life_rest m"
  "life_rest (m\<lparr>rbm_snd := sb\<rparr>) = life_rest m"
  "life_rest (m\<lparr>g_id := n\<rparr>) = life_rest m"
  "life_rest (m\<lparr>rand_next := r\<rparr>) = life_rest m"
  "life_rest (HandleCallback h k sd ev m) = life_rest m"
  "life_rest (mod_strm s f m) = life_rest m"
  by (simp_all add: life_rest_def lists_rest_def HandleCallback_def)

lemma AllocateSocket_frame:
  "streams (snd (AllocateSocket ty m)) = streams m" "life_rest (snd (AllocateSocket ty m)) = life_rest m"
  by (auto simp: AllocateSocket_def Let_def split: list.split)

lemma FreeSocket_frame:
  "streams (FreeSocket k ty m) = streams m" "life_rest (FreeSocket k ty m) = life_rest m"
proof -
  have "streams (FreeMonStream k m) = streams m" "life_rest (FreeMonStream k m) = life_rest m"
    "streams (FreeMonListener k m) = streams m" "life_rest (FreeMonListener k m) = life_rest m" for m
    by (simp_all add: FreeMonStream_def FreeMonListener_def Let_def)
  then show "streams (FreeSocket k ty m) = streams m" "life_rest (FreeSocket k ty m) = life_rest m"
    by (auto simp: FreeSocket_def Let_def)
qed

lemma SOCKQ_kept: "kept s m (SOCKQ_INSERT_TAIL s k m)" "kept s m (SOCKQ_REMOVE s k m)"
  by (auto simp: SOCKQ_INSERT_TAIL_def SOCKQ_REMOVE_def kept_def only_def reg_view_def flow_key_def
      split: prod.split option.split)

lemma add_monitor_sockets_kept: "kept s m (snd (add_monitor_sockets s ls m))"
proof (induction s ls m rule: add_monitor_sockets.induct)
  case (2 s l ls m)
  show ?case
  proof (cases "AllocateSocket MOS_SOCK_MONITOR_STREAM_ACTIVE m")
    case (Pair r m1)
    have k1: "kept s m m1" using AllocateSocket_frame[of MOS_SOCK_MONITOR_STREAM_ACTIVE m] Pair
      by (auto intro: kept_rest)
    show ?thesis
    proof (cases r)
      case None
      then show ?thesis using 2(1,2) k1 Pair by simp
    next
      case (Some k)
      let ?m2 = "fold stree_inc_ref (ml_strees (mlisteners m1 l)) (mod_msock k (mod_mon (mon_attach s l (mlisteners m1 l))) m1)"
      have "kept s m1 ?m2" by (rule kept_rest) simp_all
      also have "kept s ?m2 (SOCKQ_INSERT_TAIL s k ?m2)" by (rule SOCKQ_kept)
      finally have k3: "kept s m (SOCKQ_INSERT_TAIL s k ?m2)" using k1 kept_trans by blast
      have ml: "mlisteners (mod_msock k f m1) = mlisteners m1" for f by (simp add: mod_msock_def)
      show ?thesis
        using 2 Pair Some k3 kept_trans by (simp add: ml Let_def)
    qed
  qed
qed simp


section \<open>Creating a stream\<close>

lemma alloc_stream_frame:
  assumes "alloc_stream m = (r, m')"
  shows "case r of None \<Rightarrow> streams m' = streams m
           | Some s \<Rightarrow> only s m m' \<and>
               (\<exists>a b. strm m' s = zero_stream\<lparr>rcvvar_chunk := a, sndvar_chunk := b\<rparr>)"
    and "\<exists>fp rp sp. life_rest m' = life_rest (m\<lparr>flow_pool := fp, rv_pool := rp, sv_pool := sp\<rparr>)"
    and "tcp_flow_table m' = tcp_flow_table m" "flow_cnt m' = flow_cnt m" "lists_rest m' = lists_rest m"
    and "monitors m' = monitors m" "g_id m' = g_id m" "rand_next m' = rand_next m"
  using assms
  by (auto simp: alloc_stream_def only_def strm_def mod_strm_def life_rest_def lists_rest_def
      split: prod.splits option.splits) (intro exI, rule refl)

lemma alloc_stream_pools:
  assumes p: "pools_ok U m" and a: "alloc_stream m = (r, m')"
  shows "case r of None \<Rightarrow> pools_ok U m' | Some s \<Rightarrow> s \<notin> U \<and> pools_ok (insert s U) m'"
proof -
  have ex: "exact_pool (flow_pool m) U" "exact_pool (rv_pool m) ((\<lambda>s. rcvvar_chunk (strm m s)) ` U)"
    "exact_pool (sv_pool m) ((\<lambda>s. sndvar_chunk (strm m s)) ` U)" using p by (simp_all add: pools_ok_def)
  obtain fr fp where f: "MPAllocateChunk (flow_pool m) = (fr, fp)" by fastforce
  obtain rr rp where rv: "MPAllocateChunk (rv_pool m) = (rr, rp)" by fastforce
  obtain sr sp where sv: "MPAllocateChunk (sv_pool m) = (sr, sp)" by fastforce
  show ?thesis
  proof (cases fr)
    case None
    then have "m' = m\<lparr>flow_pool := fp\<rparr>" "r = None" "fp = flow_pool m"
      using a f exact_pool_none by (auto simp: alloc_stream_def)
    then show ?thesis using p by simp
  next
    case (Some s)
    note fs = Some
    note sA = exact_pool_alloc[OF ex(1) f[unfolded fs]] exact_pool_undo[OF ex(1) f[unfolded fs]]
    show ?thesis
    proof (cases rr)
      case None
      then have "m' = m\<lparr>flow_pool := MPFreeChunk fp s, rv_pool := rp\<rparr>" "r = None" "rp = rv_pool m"
        using a f fs rv exact_pool_none by (auto simp: alloc_stream_def)
      then show ?thesis using p sA(3) by (simp add: pools_ok_def)
    next
      case (Some rc)
      note rs = Some
      note rA = exact_pool_alloc[OF ex(2) rv[unfolded rs]] exact_pool_undo[OF ex(2) rv[unfolded rs]]
      show ?thesis
      proof (cases sr)
        case None
        then have "m' = m\<lparr>flow_pool := MPFreeChunk fp s, rv_pool := MPFreeChunk rp rc, sv_pool := sp\<rparr>"
          "r = None" "sp = sv_pool m" using a f fs rv rs sv exact_pool_none by (auto simp: alloc_stream_def)
        then show ?thesis using p sA(3) rA(3) by (simp add: pools_ok_def)
      next
        case (Some vc)
        note vA = exact_pool_alloc[OF ex(3) sv[unfolded Some]]
        have m': "m' = mod_strm s (\<lambda>_. zero_stream\<lparr>rcvvar_chunk := rc, sndvar_chunk := vc\<rparr>)
            (m\<lparr>flow_pool := fp, rv_pool := rp, sv_pool := sp\<rparr>)" and r: "r = Some s"
          using a f fs rv rs sv Some by (auto simp: alloc_stream_def)
        have ch: "rcvvar_chunk (strm m' x) = (if x = s then rc else rcvvar_chunk (strm m x))"
          "sndvar_chunk (strm m' x) = (if x = s then vc else sndvar_chunk (strm m x))" for x
          by (simp_all add: m' strm_mod)
        have im: "(\<lambda>x. rcvvar_chunk (strm m' x)) ` insert s U = insert rc ((\<lambda>x. rcvvar_chunk (strm m x)) ` U)"
          "(\<lambda>x. sndvar_chunk (strm m' x)) ` insert s U = insert vc ((\<lambda>x. sndvar_chunk (strm m x)) ` U)"
          unfolding ch using sA(1) by auto
        have inj: "inj_on (\<lambda>x. rcvvar_chunk (strm m' x)) (insert s U)" "inj_on (\<lambda>x. sndvar_chunk (strm m' x)) (insert s U)"
          using p rA(1) vA(1) sA(1) unfolding pools_ok_def ch
          by (auto simp: inj_on_def split: if_splits)
        have "flow_pool m' = fp" "rv_pool m' = rp" "sv_pool m' = sp" by (simp_all add: m')
        then have "pools_ok (insert s U) m'" using inj sA(2) rA(2) vA(2) unfolding pools_ok_def im by simp
        then show ?thesis using sA(1) r by simp
      qed
    qed
  qed
qed

lemma init_stream_kept:
  assumes "init_stream cfg sock ty s m = Some m'"
  shows "kept s m m'"
    and "on_rto_idx (strm m' s) = -1" "stream_type (strm m' s) = ty" "state (strm m' s) = TCP_ST_LISTEN"
    and "rcv_wnd (rcvvar (strm m' s)) = TCP_INITIAL_WINDOW" "status_mgmt (strm m' s)"
    and "mss (sndvar (strm m' s)) = TCP_DEFAULT_MSS"
    and "HAS_STREAM_TYPE (strm m' s) MOS_SOCK_STREAM \<Longrightarrow> snd_nxt (strm m' s) = iss (sndvar (strm m' s))
       \<and> snd_una (sndvar (strm m' s)) = iss (sndvar (strm m' s))
       \<and> GetOutputInterface cfg (daddr (strm m s)) = Some (nif_out (sndvar (strm m' s)))"
    and "socket (strm m' s) = (if sock = None then socket (strm m s) else sock)"
    and "msocks (strm m' s) = msocks (strm m s)"
  using assms
  by (auto simp: init_stream_def posix_seq_rand_def Let_def kept_def only_def reg_view_def flow_key_def
      set_receiver_def set_endpoint_def set_vars_def HAS_STREAM_TYPE_def strm_mod mod_snd_def mod_rcv_def
      mod_sock_def life_rest_def lists_rest_def
      split: option.splits if_splits)


lemma table_live_insert:
  assumes t: "table_live L m0" and f: "tcp_flow_table m = tcp_flow_table m0" "flow_cnt m = flow_cnt m0" "only s m0 m"
    and s: "s \<notin> L" "finite L" and new: "flow_lookup m0 (flow_key (strm m s)) = None"
    and h: "h = None \<or> h = Some (HashFlow (strm m s))"
  obtains m' where "HTInsert s h m = Some (0, m')"
    and "table_live (insert s L) (mod_strm s (\<lambda>t. t\<lparr>on_hash_table := True, msocks := []\<rparr>) (m'\<lparr>flow_cnt := flow_cnt m' + 1\<rparr>))"
    and "flow_lookup m' = (flow_lookup m0)(flow_key (strm m s) \<mapsto> s)"
    and "\<exists>i ht. m' = mod_strm s (mod_rcv (he_mybucket_update (\<lambda>_. Some i))) (m\<lparr>tcp_flow_table := ht\<rparr>)"
proof -
  let ?key = "\<lambda>m s. flow_key (strm m s)"
  have ts: "table_streams m0 = L" using t by (simp add: table_live_def)
  have other: "w \<in> table_streams m0 \<Longrightarrow> strm m w = strm m0 w" for w
    using f(3) s(1) ts unfolding only_def by metis
  have o: "table_ok (?key m) m" "table_streams m = table_streams m0" "flow_lookup m = flow_lookup m0"
    by (rule table_ok_outside[of m0 m]; use t f other in \<open>simp add: table_live_def\<close>)+
  from HTInsert_ok[OF o(1), of s] new obtain m' where
    ins: "HTInsert s (Some (HashFlow (strm m s))) m = Some (0, m')" "table_ok (?key m) m'"
      "flow_lookup m' = (flow_lookup m)(?key m s \<mapsto> s)" unfolding o(3) by auto
  have hh: "HTInsert s h m = Some (0, m')" using h ins(1) HTInsert_None by auto
  have mf: "\<exists>i ht. m' = mod_strm s (mod_rcv (he_mybucket_update (\<lambda>_. Some i))) (m\<lparr>tcp_flow_table := ht\<rparr>)"
    using ins(1) by (auto simp: HTInsert_def Let_def split: if_splits)
  then have st: "strm m' w = (if w = s then strm m' s else strm m w)"
    and cnt: "flow_cnt m' = flow_cnt m" for w by (auto simp: strm_mod)
  define m2 where "m2 = mod_strm s (\<lambda>t. t\<lparr>on_hash_table := True, msocks := []\<rparr>) (m'\<lparr>flow_cnt := flow_cnt m' + 1\<rparr>)"
  have fk: "?key m' = ?key m" using ins(2) by (simp add: table_ok_def fun_eq_iff)
  have o2: "table_ok (?key m2) m2" "table_streams m2 = table_streams m'" "flow_lookup m2 = flow_lookup m'"
    by (rule table_ok_outside[of m' m2]; use ins(2) fk in \<open>simp add: m2_def strm_mod flow_key_def\<close>)+
  have "table_streams m' = insert s L"
  proof (rule set_eqI)
    fix w
    have "w \<in> table_streams m' \<longleftrightarrow> flow_lookup m' (?key m w) = Some w"
      using flow_lookup_iff[OF ins(2), of "?key m w" w] by simp
    also have "\<dots> \<longleftrightarrow> w = s \<or> flow_lookup m (?key m w) = Some w"
      using new unfolding ins(3) o(3) by auto
    also have "\<dots> \<longleftrightarrow> w \<in> insert s L" using flow_lookup_iff[OF o(1), of "?key m w" w] o(2) ts by simp
    finally show "w \<in> table_streams m' \<longleftrightarrow> w \<in> insert s L" .
  qed
  moreover have "on_hash_table (strm m2 w)" if "w \<in> insert s L" for w
    using that t other ts st[of w] by (auto simp: m2_def strm_mod table_live_def)
  ultimately have "table_live (insert s L) m2"
    using o2 t s f(2) cnt by (simp add: table_live_def m2_def)
  then show ?thesis using that[OF hh] ins(3) mf unfolding m2_def o(3) by blast
qed


lemma init_stream_returns:
  assumes "ty AND STREAM_TYPE MOS_SOCK_STREAM \<noteq> 0 \<longrightarrow> GetOutputInterface cfg (daddr (strm m s)) \<noteq> None"
  shows "init_stream cfg sock ty s m \<noteq> None"
  using assms by (auto simp: init_stream_def HAS_STREAM_TYPE_def set_vars_def strm_mod posix_seq_rand_def Let_def
      mod_sock_def strm_def mod_strm_def split: option.splits)

definition created_stream :: "mos_config \<Rightarrow> u32 \<Rightarrow> flow \<Rightarrow> tcp_stream \<Rightarrow> bool" where
  "created_stream cfg ty k t \<longleftrightarrow> flow_key t = k \<and> stream_type t = ty \<and> state t = TCP_ST_LISTEN
     \<and> pair_stream t = None \<and> rcv_wnd (rcvvar t) = TCP_INITIAL_WINDOW \<and> status_mgmt t \<and> off_all t
     \<and> (HAS_STREAM_TYPE t MOS_SOCK_STREAM \<longrightarrow> snd_nxt t = iss (sndvar t) \<and> snd_una (sndvar t) = iss (sndvar t)
          \<and> GetOutputInterface cfg (daddr t) = Some (nif_out (sndvar t)))"

lemma CreateTCPStream_life:
  assumes inv: "life_inv cfg L m" and new: "flow_lookup m (sa, sp, da, dp) = None"
    and h: "hash = None \<or> hash = Some (HashFlow (flow_probe (sa, sp, da, dp)))"
    and route: "ty AND STREAM_TYPE MOS_SOCK_STREAM \<noteq> 0 \<longrightarrow> GetOutputInterface cfg da \<noteq> None"
  obtains (none) m' where "CreateTCPStream cfg sock ty sa sp da dp hash m = Some (None, m')" "life_inv cfg L m'"
      "streams m' = streams m" "flow_lookup m' = flow_lookup m"
    | (made) s m' where "CreateTCPStream cfg sock ty sa sp da dp hash m = Some (Some s, m')" "s \<notin> L"
      "life_inv cfg (insert s L) m'" "only s m m'" "created_stream cfg ty (sa, sp, da, dp) (strm m' s)"
      "flow_lookup m' = (flow_lookup m)((sa, sp, da, dp) \<mapsto> s)"
proof -
  let ?k = "(sa, sp, da, dp)"
  obtain r m1 where a: "alloc_stream m = (r, m1)" by fastforce
  note af = alloc_stream_frame[OF a]
  have lo: "lists_ok cfg L m" and po: "pools_ok L m" and tl: "table_live L m" and pa: "paired L m"
    and li: "\<forall>s \<in> L. listed_ok cfg (strm m s)" using inv by (simp_all add: life_inv_def)
  have fin: "finite L" using lo by (simp add: lists_ok_def)
  note ap = alloc_stream_pools[OF po a]
  show thesis
  proof (cases r)
    case None
    have st: "streams m1 = streams m" using af(1) None by simp
    then have sm: "strm m1 = strm m" by (simp add: strm_def fun_eq_iff)
    have lo1: "lists_ok cfg L m1" using lo lists_ok_view[of m1 m L cfg] af(5) sm by simp
    have to: "table_ok (\<lambda>s. flow_key (strm m1 s)) m1" "table_streams m1 = table_streams m"
      "flow_lookup m1 = flow_lookup m"
      by (rule table_ok_outside[of m m1]; use tl af(3) sm in \<open>simp add: table_live_def\<close>)+
    have "\<forall>w \<in> L. on_hash_table (strm m1 w)" using tl sm by (simp add: table_live_def)
    then have "table_live L m1" unfolding table_live_def to(2) af(4) using to(1) tl
      by (simp only: table_live_def simp_thms)
    moreover have "paired L m1" using pa unfolding paired_def sm .
    ultimately have "life_inv cfg L m1" using lo1 ap None li sm by (simp add: life_inv_def)
    then show thesis using none[of m1] a None st to(3) by (simp add: CreateTCPStream_def)
  next
    case (Some s)
    have sL: "s \<notin> L" and pi: "pools_ok (insert s L) m1" using ap Some by auto
    have on1: "only s m m1" using af(1) Some by simp
    let ?m2 = "name_stream sa sp da dp s m1"
    have k2: "flow_key (strm ?m2 s) = ?k" by (simp add: name_stream_def flow_key_def)
    have on2: "only s m ?m2" using on1 by (simp add: name_stream_def only_def)
    have hh: "hash = None \<or> hash = Some (HashFlow (strm ?m2 s))"
      using h HashFlow_key[of "flow_probe ?k" "strm ?m2 s"] k2 by auto
    obtain m3 where ins: "HTInsert s hash ?m2 = Some (0, m3)"
      "table_live (insert s L) (mod_strm s (\<lambda>t. t\<lparr>on_hash_table := True, msocks := []\<rparr>) (m3\<lparr>flow_cnt := flow_cnt m3 + 1\<rparr>))"
      "flow_lookup m3 = (flow_lookup m)(?k \<mapsto> s)"
      "\<exists>i ht. m3 = mod_strm s (mod_rcv (he_mybucket_update (\<lambda>_. Some i))) (?m2\<lparr>tcp_flow_table := ht\<rparr>)"
      by (rule table_live_insert[OF tl, of ?m2 s hash])
        (use af(3,4) on2 sL fin new hh k2 in \<open>simp_all add: name_stream_def\<close>)
    define m4 where "m4 = mod_strm s (\<lambda>t. t\<lparr>on_hash_table := True, msocks := []\<rparr>) (m3\<lparr>flow_cnt := flow_cnt m3 + 1\<rparr>)"
    define m5 where "m5 = (if num_msp m4 > 0 \<and> ty AND STREAM_TYPE MOS_SOCK_MONITOR_STREAM_ACTIVE \<noteq> 0
        then snd (AddMonitorStreamSockets s m4) else m4)"
    have k45: "kept s m4 m5" using add_monitor_sockets_kept by (simp add: m5_def AddMonitorStreamSockets_def)
    have st4: "reg_view (strm m4 s) = ((?k, he_mybucket (rcvvar (strm m3 s)), True),
        (rcvvar_chunk (strm m1 s), sndvar_chunk (strm m1 s), None), (False, False, False), (False, False))"
      using ins(4) af(1) Some
      by (auto simp: m4_def name_stream_def reg_view_def flow_key_def zero_stream_def zero_snd_def)
    have on4: "only s m m4" using ins(4) on2 by (auto simp: m4_def only_def strm_mod)
    have "daddr (strm m5 s) = da" using k45 st4 by (simp add: kept_def reg_view_def flow_key_def)
    then obtain m6 where i: "init_stream cfg sock ty s m5 = Some m6"
      using init_stream_returns[of ty cfg m5 s sock] route by auto
    note ik = init_stream_kept[OF i]
    have k46: "kept s m4 m6" using k45 ik(1) kept_trans by blast
    have nm: "num_msp m4 = num_msp m3" by (simp add: m4_def)
    have run: "CreateTCPStream cfg sock ty sa sp da dp hash m = Some (Some s, m6)"
      using i nm by (auto simp: CreateTCPStream_def Let_def a Some ins(1) m4_def[symmetric] m5_def split: if_splits)
    have on6: "only s m m6" using on4 k46 by (simp add: kept_def only_def)
    have st6: "reg_view (strm m6 s) = reg_view (strm m4 s)" using k46 by (simp add: kept_def)
    have L6: "strm m6 w = strm m w" if "w \<in> L" for w using on6 that sL unfolding only_def by metis
    have r6: "life_rest m6 = life_rest m4" using k46 by (simp add: kept_def)
    have t46: "tcp_flow_table m6 = tcp_flow_table m4" "flow_cnt m6 = flow_cnt m4" "lists_rest m6 = lists_rest m4"
      "flow_pool m6 = flow_pool m4" "rv_pool m6 = rv_pool m4" "sv_pool m6 = sv_pool m4"
      using r6 by (simp_all add: life_rest_def)
    have lr: "lists_rest m4 = lists_rest m" "flow_pool m4 = flow_pool m1" "rv_pool m4 = rv_pool m1" "sv_pool m4 = sv_pool m1"
      using ins(4) af(5) by (auto simp: m4_def name_stream_def lists_rest_def)
    have off: "off_all (strm m6 s)" using st6 st4 ik(2) by (simp add: off_all_def reg_view_def)
    have cr: "created_stream cfg ty ?k (strm m6 s)"
      using st6 st4 ik off k45 unfolding created_stream_def
      by (auto simp: reg_view_def flow_key_def kept_def)
    have "lists_ok cfg L m6 = lists_ok cfg L m" by (rule lists_ok_view) (use L6 t46(3) lr(1) in auto)
    then have "lists_ok cfg (insert s L) m6" using lo lists_ok_off(1)[OF off] by simp
    moreover have "pools_ok (insert s L) m6 = pools_ok (insert s L) m1"
    proof (rule pools_ok_cong)
      fix w assume "w \<in> insert s L"
      then show "rcvvar_chunk (strm m6 w) = rcvvar_chunk (strm m1 w) \<and> sndvar_chunk (strm m6 w) = sndvar_chunk (strm m1 w)"
        using st6 st4 L6 on1 sL by (cases "w = s") (auto simp: reg_view_def only_def)
    qed (use t46 lr in simp_all)
    moreover have sv4: "flow_key (strm m6 w) = flow_key (strm m4 w) \<and> on_hash_table (strm m6 w) = on_hash_table (strm m4 w)
        \<and> he_mybucket (rcvvar (strm m6 w)) = he_mybucket (rcvvar (strm m4 w))" for w
      using k46 by (cases "w = s") (simp_all add: kept_def only_def reg_view_def)
    have t4: "table_live (insert s L) m4" using ins(2) by (simp add: m4_def)
    then have to: "table_ok (\<lambda>s. flow_key (strm m6 s)) m6" "table_streams m6 = table_streams m4"
      "flow_lookup m6 = flow_lookup m4"
      by (rule_tac table_ok_outside[of m4 m6]; use t46(1) sv4 in \<open>simp add: table_live_def\<close>)+
    have tl6: "table_live (insert s L) m6" using t4 to t46(2) sv4 by (simp add: table_live_def)
    moreover have "paired (insert s L) m6"
      using pa L6 cr sL unfolding paired_def created_stream_def by (metis insert_iff option.distinct(1))
    moreover have "\<forall>w \<in> insert s L. listed_ok cfg (strm m6 w)"
      using li L6 off by (auto simp: listed_ok_def off_all_def sender_off_def)
    ultimately have "life_inv cfg (insert s L) m6" using pi unfolding life_inv_def by simp
    moreover have "flow_lookup m4 = flow_lookup m3"
      by (rule flow_lookup_cong) (simp_all add: m4_def strm_mod flow_key_def)
    ultimately show thesis using made[of s m6] run sL on6 cr to(3) ins(3) by simp
  qed
qed

end
