(* ===== verification/Stream_End.thy ===== *)
theory Stream_End
  imports Stream_Inv
begin

text \<open>
  Destroying streams: every list, the flow table and the pools get back exactly what the
  stream held, the other streams are untouched but for the pointer of the pair, and a
  stream that was created can be destroyed again without a trace.
\<close>

section \<open>Destroying one stream\<close>

definition tab_rest :: "mtcp_manager \<Rightarrow> _" where
  "tab_rest m = ((tcp_flow_table m, flow_cnt m), (flow_pool m, rv_pool m, sv_pool m))"

definition reg_part :: "tcp_stream \<Rightarrow> _" where
  "reg_part t = ((flow_key t, he_mybucket (rcvvar t), on_hash_table t), (rcvvar_chunk t, sndvar_chunk t, pair_stream t),
     stream_type t, is_bound_addr t)"

definition ap_part :: "mtcp_manager \<Rightarrow> _" where
  "ap_part m = (own_ap m, nif_ap m)"

definition torn :: "ref \<Rightarrow> mtcp_manager \<Rightarrow> mtcp_manager \<Rightarrow> bool" where
  "torn s m m' \<longleftrightarrow> only s m m' \<and> tab_rest m' = tab_rest m \<and> reg_part (strm m' s) = reg_part (strm m s)
     \<and> ap_part m' = ap_part m"

lemma torn_refl [simp]: "torn s m m"
  by (simp add: torn_def)

lemma torn_trans [trans]: "torn s m m1 \<Longrightarrow> torn s m1 m2 \<Longrightarrow> torn s m m2"
  by (simp add: torn_def only_def)

lemma torn_list_ops:
  "torn s m (RemoveFromControlList cfg s m)" "torn s m (RemoveFromSendList cfg s m)"
  "torn s m (RemoveFromACKList cfg s m)" "torn s m (RemoveFromRTOList s m)"
  "torn s m (RemoveFromTimewaitList s m)" "torn s m (RemoveFromTimeoutList s m)"
  by (simp_all add: torn_def only_def tab_rest_def ap_part_def reg_part_def flow_key_def RemoveFromControlList_def
      RemoveFromSendList_def RemoveFromACKList_def RemoveFromRTOList_def RemoveFromTimewaitList_def
      RemoveFromTimeoutList_def mod_sender_def mod_rto_list_def Let_def split: option.split)

text \<open>Each removal clears its flag and leaves the others.\<close>

definition flags_of :: "tcp_stream \<Rightarrow> _" where
  "flags_of t = ((on_control_list (sndvar t), on_send_list (sndvar t), on_ack_list (sndvar t)),
     on_rto_idx t < 0, on_timewait_list t, on_timeout_list t)"

lemma flags_list_ops:
  "flags_of (strm (RemoveFromControlList cfg s m) s) =
     (case flags_of (strm m s) of ((c, d, a), r) \<Rightarrow> ((False, d, a), r))"
  "flags_of (strm (RemoveFromSendList cfg s m) s) =
     (case flags_of (strm m s) of ((c, d, a), r) \<Rightarrow> ((c, False, a), r))"
  "flags_of (strm (RemoveFromACKList cfg s m) s) =
     (case flags_of (strm m s) of ((c, d, a), r) \<Rightarrow> ((c, d, False), r))"
  "flags_of (strm (RemoveFromRTOList s m) s) =
     (case flags_of (strm m s) of (p, r, w, o') \<Rightarrow> (p, True, w, o'))"
  "flags_of (strm (RemoveFromTimewaitList s m) s) =
     (case flags_of (strm m s) of (p, r, w, o') \<Rightarrow> (p, r, False, o'))"
  "flags_of (strm (RemoveFromTimeoutList s m) s) =
     (case flags_of (strm m s) of (p, r, w, o') \<Rightarrow> (p, r, w, False))"
  by (simp_all add: flags_of_def RemoveFromControlList_def
      RemoveFromSendList_def RemoveFromACKList_def RemoveFromRTOList_def RemoveFromTimewaitList_def
      RemoveFromTimeoutList_def mod_sender_def mod_rto_list_def Let_def split: option.split)

lemma on_rto_flags: "on_rto_idx t \<ge> 0 \<longleftrightarrow> \<not> fst (snd (flags_of t))"
  by (auto simp: flags_of_def)

lemma off_all_flags: "off_all t \<longleftrightarrow> flags_of t = ((False, False, False), True, False, False)"
  by (auto simp: off_all_def flags_of_def)

lemma lists_ok_sndbuf:
  "lists_ok cfg L (mod_strm s (mod_snd (sndbuf_update (\<lambda>_. b))) (m\<lparr>rbm_snd := r\<rparr>)) = lists_ok cfg L m"
proof -
  have "lists_ok cfg L (m\<lparr>rbm_snd := r\<rparr>) = lists_ok cfg L m"
    by (rule lists_ok_part) (simp add: lists_part_def)
  then show ?thesis by (subst lists_ok_mod_strm) (simp_all add: list_view_def)
qed

lemma endpoint_teardown_step:
  assumes e: "endpoint_teardown cfg s m = Some m'" and lo: "lists_ok cfg L m" "s \<in> L" and li: "listed_ok cfg (strm m s)"
  shows "torn s m m'" "lists_ok cfg L m'"
    "flags_of (strm m' s) = ((False, False, False), True, snd (snd (flags_of (strm m s))))"
proof -
  let ?m1 = "RemoveFromACKList cfg s (RemoveFromSendList cfg s (RemoveFromControlList cfg s m))"
  let ?m2 = "if on_rto_idx (strm ?m1 s) \<ge> 0 then RemoveFromRTOList s ?m1 else ?m1"
  have "torn s m ?m1"
    by (rule torn_trans[OF torn_trans[OF torn_list_ops(1) torn_list_ops(2)] torn_list_ops(3)])
  then have t2: "torn s m ?m2" using torn_list_ops(4) torn_trans by auto
  have "lists_ok cfg L ?m1" using lo by (intro lists_ok_sender_ops)
  then have l2: "lists_ok cfg L ?m2" using lo(2) by (auto intro: lists_ok_timer_ops)
  have f1: "flags_of (strm ?m1 s) = ((False, False, False), snd (flags_of (strm m s)))"
    by (simp add: flags_list_ops split: prod.split)
  have f2: "flags_of (strm ?m2 s) = ((False, False, False), True, snd (snd (flags_of (strm m s))))"
    using f1 by (simp add: flags_list_ops on_rto_flags split: prod.split)
  show "torn s m m'" "lists_ok cfg L m'"
    "flags_of (strm m' s) = ((False, False, False), True, snd (snd (flags_of (strm m s))))"
  proof (goal_cases)
    case 1 show ?case
      using e t2 unfolding endpoint_teardown_def Let_def
      by (auto simp: torn_def only_def tab_rest_def ap_part_def reg_part_def flow_key_def split: if_splits option.splits)
  next
    case 2
    show ?case
      using e l2 lo(1) unfolding endpoint_teardown_def Let_def
      by (auto simp: lists_ok_sndbuf split: if_splits option.splits)
  next
    case 3
    have "flags_of (strm m s) = ((False, False, False), True, snd (snd (flags_of (strm m s))))"
      if "\<not> HAS_STREAM_TYPE (strm m s) MOS_SOCK_STREAM"
      using li that by (simp add: listed_ok_def sender_off_def flags_of_def)
    moreover have "flags_of (mod_snd (sndbuf_update (\<lambda>_. None)) t) = flags_of t" for t by (simp add: flags_of_def)
    ultimately show ?case
      using e f2 unfolding endpoint_teardown_def Let_def by (auto split: if_splits option.splits)
  qed
qed


lemma timers_teardown_step:
  assumes lo: "lists_ok cfg L m" "s \<in> L" and to: "tcp_timeout cfg > 0 \<or> \<not> on_timeout_list (strm m s)"
    and fl: "fst (flags_of (strm m s)) = (False, False, False)" "fst (snd (flags_of (strm m s)))"
  shows "torn s m (timers_teardown cfg s m)" "lists_ok cfg L (timers_teardown cfg s m)"
    "off_all (strm (timers_teardown cfg s m) s)"
proof -
  let ?m1 = "if on_timewait_list (strm m s) then RemoveFromTimewaitList s m else m"
  have t1: "torn s m ?m1" using torn_list_ops(5) by simp
  have l1: "lists_ok cfg L ?m1" using lo by (auto intro: lists_ok_timer_ops)
  have f1: "flags_of (strm ?m1 s) = ((False, False, False), True, False, on_timeout_list (strm m s))"
    using fl by (simp add: flags_list_ops split: prod.split) (simp add: flags_of_def)
  show "torn s m (timers_teardown cfg s m)"
    using t1 torn_trans[OF t1 torn_list_ops(6)] by (auto simp: timers_teardown_def Let_def)
  show "lists_ok cfg L (timers_teardown cfg s m)"
    using l1 lists_ok_timer_ops(6)[OF l1 lo(2)] by (auto simp: timers_teardown_def Let_def)
  show "off_all (strm (timers_teardown cfg s m) s)"
    using to f1 unfolding off_all_flags timers_teardown_def Let_def by (auto simp: flags_list_ops)
qed

lemma conn_end_frame:
  "streams (conn_end_callbacks s m) = streams m" "life_rest (conn_end_callbacks s m) = life_rest m"
proof -
  let ?f = "\<lambda>k m. HandleCallback MOS_HK_SND k sd ev (HandleCallback MOS_HK_RCV k sd ev m)"
  have f: "streams (fold (\<lambda>k m. HandleCallback MOS_HK_SND k sd ev (HandleCallback MOS_HK_RCV k sd ev m)) ks m) = streams m
      \<and> life_rest (fold (\<lambda>k m. HandleCallback MOS_HK_SND k sd ev (HandleCallback MOS_HK_RCV k sd ev m)) ks m) = life_rest m"
    for sd ev ks m by (induction ks arbitrary: m) (simp_all add: HandleCallback_def life_rest_def lists_rest_def)
  show "streams (conn_end_callbacks s m) = streams m" "life_rest (conn_end_callbacks s m) = life_rest m"
    unfolding conn_end_callbacks_def Let_def using f by blast+
qed

lemma rcvbuf_teardown_frame:
  "torn s m (rcvbuf_teardown s m)" "lists_ok cfg L (rcvbuf_teardown s m) = lists_ok cfg L m"
  "flags_of (strm (rcvbuf_teardown s m) s) = flags_of (strm m s)"
  by (auto simp: rcvbuf_teardown_def torn_def only_def tab_rest_def ap_part_def reg_part_def flow_key_def flags_of_def
      lists_ok_mod_strm list_view_def split: option.split)

lemma drop_monitors_kept: "kept s m (drop_monitors s ws m)"
proof (induction s ws m rule: drop_monitors.induct)
  case (2 s w ws m)
  let ?m1 = "SOCKQ_REMOVE s w m"
  let ?m2 = "if pair_stream (strm ?m1 s) = None then snd (DestroyMonitorStreamSocket (Some w) ?m1) else ?m1"
  have "kept s ?m1 ?m2"
    by (auto simp: DestroyMonitorStreamSocket_def Let_def FreeSocket_frame intro!: kept_rest)
  with SOCKQ_kept(2) have "kept s m ?m2" by (rule kept_trans)
  moreover have "kept s ?m2 (drop_monitors s ws ?m2)" using 2 by (simp add: Let_def)
  ultimately have "kept s m (drop_monitors s ws ?m2)" by (rule kept_trans)
  then show ?case by (simp add: Let_def)
qed simp


lemma free_stream_pools:
  assumes p: "pools_ok L m" and s: "s \<in> L"
  shows "pools_ok (L - {s}) (free_stream s m)"
proof -
  let ?r = "\<lambda>s. rcvvar_chunk (strm m s)" and ?v = "\<lambda>s. sndvar_chunk (strm m s)"
  have i: "inj_on ?r L" "inj_on ?v L" using p by (simp_all add: pools_ok_def)
  have st: "strm (free_stream s m) = strm m" by (simp add: free_stream_def fun_eq_iff)
  have im: "?r ` (L - {s}) = ?r ` L - {?r s}" "?v ` (L - {s}) = ?v ` L - {?v s}"
    using inj_on_image_set_diff[OF i(1), of L "{s}"] inj_on_image_set_diff[OF i(2), of L "{s}"] s by simp_all
  have "exact_pool (MPFreeChunk (flow_pool m) s) (L - {s})"
    "exact_pool (MPFreeChunk (rv_pool m) (?r s)) (?r ` L - {?r s})"
    "exact_pool (MPFreeChunk (sv_pool m) (?v s)) (?v ` L - {?v s})"
    using p s unfolding pools_ok_def by (auto intro!: exact_pool_free)
  moreover have "flow_pool (free_stream s m) = MPFreeChunk (flow_pool m) s"
    "rv_pool (free_stream s m) = MPFreeChunk (rv_pool m) (?r s)"
    "sv_pool (free_stream s m) = MPFreeChunk (sv_pool m) (?v s)" by (simp_all add: free_stream_def)
  moreover have "inj_on ?r (L - {s})" "inj_on ?v (L - {s})" using i by (auto intro: inj_on_subset)
  ultimately show ?thesis unfolding pools_ok_def st im by simp
qed

lemma release_address_frame:
  assumes "release_address cfg a m = Some m'"
  shows "streams m' = streams m" "lists_rest m' = lists_rest m" "tab_rest m' = tab_rest m"
  using assms by (auto simp: release_address_def lists_rest_def tab_rest_def split: option.splits)

lemma table_live_remove:
  assumes t: "table_live L m" and s: "s \<in> L" "finite L"
  obtains m' where "HTRemove s m = Some (s, m')" "streams m' = streams m" "lists_rest m' = lists_rest m"
    "flow_pool m' = flow_pool m" "rv_pool m' = rv_pool m" "sv_pool m' = sv_pool m" "flow_cnt m' = flow_cnt m"
    "flow_lookup m' = (flow_lookup m)(flow_key (strm m s) := None)"
    "table_live (L - {s}) (m'\<lparr>flow_cnt := flow_cnt m' - 1\<rparr>)"
proof -
  have ok: "table_ok (\<lambda>s. flow_key (strm m s)) m" and ts: "table_streams m = L" using t by (simp_all add: table_live_def)
  have "flow_lookup m (flow_key (strm m s)) = Some s" using flow_lookup_iff[OF ok] ts s by simp
  from HTRemove_ok[OF ok, of s] this obtain m' where m': "HTRemove s m = Some (s, m')"
    "table_ok (\<lambda>s. flow_key (strm m s)) m'" "flow_lookup m' = (flow_lookup m)(flow_key (strm m s) := None)"
    "streams m' = streams m" by auto
  have f: "lists_rest m' = lists_rest m" "flow_pool m' = flow_pool m" "rv_pool m' = rv_pool m" "sv_pool m' = sv_pool m"
    "flow_cnt m' = flow_cnt m"
    using m'(1) by (auto simp: HTRemove_def lists_rest_def Let_def split: option.splits)
  have st: "strm m' = strm m" using m'(4) by (simp add: strm_def fun_eq_iff)
  have ts': "table_streams m' = L - {s}"
  proof (rule set_eqI)
    fix w
    have "w \<in> table_streams m' \<longleftrightarrow> flow_lookup m' (flow_key (strm m w)) = Some w"
      using flow_lookup_iff[OF m'(2), of "flow_key (strm m w)" w] by simp
    also have "\<dots> \<longleftrightarrow> w \<in> L - {s}"
    proof -
      have "w \<in> L \<Longrightarrow> flow_key (strm m w) = flow_key (strm m s) \<Longrightarrow> w = s"
        using flow_lookup_iff[OF ok] ts s(1) by (metis option.inject)
      then show ?thesis using flow_lookup_iff[OF ok, of "flow_key (strm m w)" w] ts unfolding m'(3) by auto
    qed
    finally show "w \<in> table_streams m' \<longleftrightarrow> w \<in> L - {s}" .
  qed
  let ?m = "m'\<lparr>flow_cnt := flow_cnt m' - 1\<rparr>"
  have "table_ok (\<lambda>s. flow_key (strm ?m s)) ?m" "table_streams ?m = L - {s}"
    using m'(2) ts' st by (simp_all add: table_ok_def table_streams_def bucket_def)
  moreover have "flow_cnt ?m = of_nat (card (L - {s}))"
  proof -
    have c: "card L = Suc (card (L - {s}))" using s by (metis card_Suc_Diff1)
    have "flow_cnt m = of_nat (card L)" using t by (simp add: table_live_def)
    then show ?thesis unfolding c by (simp add: f(5))
  qed
  moreover have "\<forall>w \<in> L - {s}. on_hash_table (strm ?m w)" using t st by (simp add: table_live_def)
  ultimately have "table_live (L - {s}) ?m" by (simp add: table_live_def)
  then show ?thesis using that m' f by blast
qed


text \<open>Registration only depends on the table, the pools and the registered part of the live streams.\<close>

lemma live_transfer:
  assumes t: "tab_rest m' = tab_rest m"
    and v: "\<And>w. w \<in> L \<Longrightarrow> reg_part ((strm m' w)\<lparr>pair_stream := None\<rparr>) = reg_part ((strm m w)\<lparr>pair_stream := None\<rparr>)"
  shows "table_live L m \<Longrightarrow> table_live L m' \<and> flow_lookup m' = flow_lookup m"
    and "pools_ok L m \<Longrightarrow> pools_ok L m'"
proof -
  have v': "w \<in> L \<Longrightarrow> flow_key (strm m' w) = flow_key (strm m w) \<and> on_hash_table (strm m' w) = on_hash_table (strm m w)
      \<and> he_mybucket (rcvvar (strm m' w)) = he_mybucket (rcvvar (strm m w))
      \<and> rcvvar_chunk (strm m' w) = rcvvar_chunk (strm m w) \<and> sndvar_chunk (strm m' w) = sndvar_chunk (strm m w)" for w
    using v[of w] by (simp add: reg_part_def flow_key_def)
  show "table_live L m' \<and> flow_lookup m' = flow_lookup m" if l: "table_live L m"
  proof -
    have ts: "table_streams m = L" using l by (simp add: table_live_def)
    have o: "table_ok (\<lambda>s. flow_key (strm m' s)) m'" "table_streams m' = table_streams m" "flow_lookup m' = flow_lookup m"
      by (rule table_ok_outside[of m m']; use l t v' ts in \<open>simp add: table_live_def tab_rest_def\<close>)+
    have c: "flow_cnt m' = flow_cnt m" using t by (simp add: tab_rest_def)
    have "\<forall>w \<in> L. on_hash_table (strm m' w)" using l v' by (simp add: table_live_def)
    then have "table_live L m'" using l o(1) unfolding table_live_def o(2) c by blast
    then show ?thesis using o(3) by blast
  qed
  show "pools_ok L m'" if "pools_ok L m"
    using that pools_ok_cong[of m' m L] t v' by (simp add: tab_rest_def)
qed

lemma torn_transfer:
  assumes "torn s m m'"
  shows "table_live L m \<Longrightarrow> table_live L m' \<and> flow_lookup m' = flow_lookup m" "pools_ok L m \<Longrightarrow> pools_ok L m'"
    "reg_part (strm m' w) = reg_part (strm m w)"
proof -
  show r: "reg_part (strm m' w) = reg_part (strm m w)" for w
    using assms by (cases "w = s") (simp_all add: torn_def only_def)
  have "reg_part ((strm m' w)\<lparr>pair_stream := None\<rparr>) = reg_part ((strm m w)\<lparr>pair_stream := None\<rparr>)" for w
    using r[of w] by (simp add: reg_part_def flow_key_def)
  moreover have "tab_rest m' = tab_rest m" using assms by (simp add: torn_def)
  ultimately show "table_live L m \<Longrightarrow> table_live L m' \<and> flow_lookup m' = flow_lookup m" "pools_ok L m \<Longrightarrow> pools_ok L m'"
    using live_transfer[of m' m L] by blast+
qed

lemma release_ap: "ap_part m' = ap_part m \<Longrightarrow> release_address cfg a m' = None \<longleftrightarrow> release_address cfg a m = None"
  by (auto simp: release_address_def ap_part_def split: option.splits)

lemma kept_torn: "kept s m m' \<Longrightarrow> stream_type (strm m' s) = stream_type (strm m s) \<Longrightarrow>
   is_bound_addr (strm m' s) = is_bound_addr (strm m s) \<Longrightarrow> torn s m m'"
  by (simp add: kept_def torn_def life_rest_def tab_rest_def ap_part_def reg_view_def reg_part_def)

text \<open>The part up to the flow table: the stream ends on no list and keeps its registration.\<close>

definition teardown :: "mos_config \<Rightarrow> ref \<Rightarrow> mtcp_manager \<Rightarrow> mtcp_manager option" where
  "teardown cfg s m = map_option (\<lambda>m. rcvbuf_teardown s (timers_teardown cfg s m)) (endpoint_teardown cfg s m)"

lemma teardown_step:
  assumes lo: "lists_ok cfg L m" "s \<in> L" and li: "listed_ok cfg (strm m s)" and oh: "on_hash_table (strm m s)"
  obtains m' where "teardown cfg s m = Some m'" "torn s m m'" "lists_ok cfg L m'" "off_all (strm m' s)"
proof -
  have "endpoint_teardown cfg s m \<noteq> None"
  proof -
    let ?m1 = "RemoveFromACKList cfg s (RemoveFromSendList cfg s (RemoveFromControlList cfg s m))"
    have t1: "torn s m ?m1"
      by (rule torn_trans[OF torn_trans[OF torn_list_ops(1) torn_list_ops(2)] torn_list_ops(3)])
    then have "torn s m (if on_rto_idx (strm ?m1 s) \<ge> 0 then RemoveFromRTOList s ?m1 else ?m1)"
      using torn_trans[OF t1 torn_list_ops(4)] by simp
    then show ?thesis using oh
      by (auto simp: endpoint_teardown_def Let_def torn_def reg_part_def)
  qed
  then obtain m1 where e: "endpoint_teardown cfg s m = Some m1" by blast
  note st = endpoint_teardown_step[OF e lo li]
  have to: "tcp_timeout cfg > 0 \<or> \<not> on_timeout_list (strm m1 s)"
    using li st(3) by (auto simp: listed_ok_def flags_of_def)
  have fl: "fst (flags_of (strm m1 s)) = (False, False, False)" "fst (snd (flags_of (strm m1 s)))"
    using st(3) by simp_all
  note tt = timers_teardown_step[OF st(2) lo(2) to fl]
  let ?m3 = "rcvbuf_teardown s (timers_teardown cfg s m1)"
  have "torn s m ?m3" by (rule torn_trans[OF torn_trans[OF st(1) tt(1)] rcvbuf_teardown_frame(1)])
  moreover have "lists_ok cfg L ?m3" using tt(2) by (simp add: rcvbuf_teardown_frame)
  moreover have "off_all (strm ?m3 s)" using tt(3) by (simp add: off_all_flags rcvbuf_teardown_frame)
  ultimately show ?thesis using that[of ?m3] e by (simp add: teardown_def)
qed

text \<open>The part from the flow table on.\<close>

definition unregister :: "ref \<Rightarrow> mtcp_manager \<Rightarrow> mtcp_manager option" where
  "unregister s m = map_option (\<lambda>(_, m).
     (let m = mod_strm s (\<lambda>t. t\<lparr>on_hash_table := False\<rparr>) (m\<lparr>flow_cnt := flow_cnt m - 1\<rparr>)
      in free_stream s (unpair s (drop_monitors s (map fst (msocks (strm m s))) m)))) (HTRemove s m)"

lemma DestroySingle_parts:
  "DestroySingleTCPStream cfg s m =
     (let m = conn_end_callbacks s (mod_strm s (\<lambda>t. t\<lparr>state := TCP_ST_CLOSED_RSVD\<rparr>) m);
          t = strm m s;
          bound_addr = (if HAS_STREAM_TYPE t MOS_SOCK_STREAM \<and> is_bound_addr t
                        then Some \<lparr>sin_addr = saddr t, sin_port = sport t\<rparr> else None)
      in Option.bind (Option.bind (teardown cfg s m) (unregister s))
           (\<lambda>m. case bound_addr of None \<Rightarrow> Some m | Some addr \<Rightarrow> release_address cfg addr m))"
  by (simp add: DestroySingleTCPStream_def teardown_def unregister_def Let_def split: option.split prod.split)

definition unpaired :: "ref \<Rightarrow> tcp_stream \<Rightarrow> tcp_stream" where
  "unpaired s t = (if pair_stream t = Some s then t\<lparr>pair_stream := None\<rparr> else t)"

lemma unregister_step:
  assumes tl: "table_live L m" and po: "pools_ok L m" and pa: "paired L m" and s: "s \<in> L" "finite L"
  obtains m' where "unregister s m = Some m'" "lists_rest m' = lists_rest m" "ap_part m' = ap_part m"
    "table_live (L - {s}) m'" "pools_ok (L - {s}) m'" "paired (L - {s}) m'"
    "flow_lookup m' = (flow_lookup m)(flow_key (strm m s) := None)"
    "\<And>w. w \<in> L - {s} \<Longrightarrow> strm m' w = unpaired s (strm m w)"
proof -
  obtain m1 where h: "HTRemove s m = Some (s, m1)" "streams m1 = streams m" "lists_rest m1 = lists_rest m"
    "flow_pool m1 = flow_pool m" "rv_pool m1 = rv_pool m" "sv_pool m1 = sv_pool m" "flow_cnt m1 = flow_cnt m"
    "flow_lookup m1 = (flow_lookup m)(flow_key (strm m s) := None)"
    "table_live (L - {s}) (m1\<lparr>flow_cnt := flow_cnt m1 - 1\<rparr>)" using table_live_remove[OF tl s] by blast
  have ap1: "ap_part m1 = ap_part m" using h(1) by (auto simp: HTRemove_def ap_part_def Let_def split: option.splits)
  have st1: "strm m1 = strm m" using h(2) by (simp add: strm_def fun_eq_iff)
  define c where "c = m1\<lparr>flow_cnt := flow_cnt m1 - 1\<rparr>"
  define m2 where "m2 = mod_strm s (\<lambda>t. t\<lparr>on_hash_table := False\<rparr>) c"
  define m3 where "m3 = drop_monitors s (map fst (msocks (strm m2 s))) m2"
  define m4 where "m4 = unpair s m3"
  define m5 where "m5 = free_stream s m4"
  have stc: "strm c = strm m" using st1 by (simp add: c_def fun_eq_iff)
  have st2: "strm m2 w = (if w = s then (strm m s)\<lparr>on_hash_table := False\<rparr> else strm m w)" for w
    by (simp add: m2_def strm_mod stc)
  have k: "kept s m2 m3" unfolding m3_def by (rule drop_monitors_kept)
  have r3: "life_rest m3 = life_rest m2" and p3: "reg_view (strm m3 s) = reg_view (strm m2 s)"
    and o3: "w \<noteq> s \<Longrightarrow> strm m3 w = strm m w" for w using k st2 by (simp_all add: kept_def only_def)
  have ps: "pair_stream (strm m3 s) = pair_stream (strm m s)" using p3 st2 by (simp add: reg_view_def)
  have run: "unregister s m = Some m5"
    by (simp add: unregister_def h(1) Let_def m5_def m4_def m3_def m2_def c_def)
  have "life_rest (unpair s m') = life_rest m'" for m' by (simp add: unpair_def split: option.split)
  then have "life_rest m4 = life_rest c" using r3 by (simp add: m4_def m2_def)
  then have "lists_rest m4 = lists_rest c" "ap_part m4 = ap_part c" and r4t: "tab_rest m4 = tab_rest c"
    unfolding life_rest_def tab_rest_def ap_part_def by blast+
  then have r4: "lists_rest m4 = lists_rest m" "ap_part m4 = ap_part m" "tab_rest m4 = tab_rest c"
    using h(3) ap1 by (simp_all add: lists_rest_def ap_part_def c_def)
  have st4: "strm m4 w = unpaired s (strm m w)" if w: "w \<in> L - {s}" for w
  proof (cases "pair_stream (strm m s) = Some w")
    case True
    then have "pair_stream (strm m w) = Some s" using pa s(1) unfolding paired_def by blast
    then show ?thesis using True w by (simp add: m4_def unpair_def ps strm_mod o3 unpaired_def)
  next
    case False
    then have "pair_stream (strm m w) \<noteq> Some s" using pa w unfolding paired_def by blast
    then show ?thesis using False w o3 by (auto simp: m4_def unpair_def ps strm_mod unpaired_def split: option.split)
  qed
  have rp: "reg_part ((strm m4 w)\<lparr>pair_stream := None\<rparr>) = reg_part ((strm c w)\<lparr>pair_stream := None\<rparr>)"
    if "w \<in> L - {s}" for w using st4[OF that] stc by (simp add: unpaired_def reg_part_def flow_key_def)
  have t4: "table_live (L - {s}) m4 \<and> flow_lookup m4 = flow_lookup c"
    using live_transfer(1)[OF r4(3) rp] h(9) unfolding c_def[symmetric] by blast
  have ch: "rcvvar_chunk (strm m4 w) = rcvvar_chunk (strm m w) \<and> sndvar_chunk (strm m4 w) = sndvar_chunk (strm m w)"
    if "w \<in> L" for w
  proof (cases "w = s")
    case True
    have "strm m4 s = strm m3 s \<or> strm m4 s = (strm m3 s)\<lparr>pair_stream := None\<rparr>"
      by (auto simp: m4_def unpair_def strm_mod split: option.split)
    then show ?thesis using True p3 st2 by (auto simp: reg_view_def)
  next
    case False then show ?thesis using st4[of w] that by (simp add: unpaired_def)
  qed
  have p4: "pools_ok L m4 = pools_ok L m"
    by (rule pools_ok_cong) (use r4(3) h(4-6) ch in \<open>simp_all add: tab_rest_def c_def\<close>)
  have st5: "strm m5 = strm m4" by (simp add: m5_def free_stream_def fun_eq_iff)
  have po5: "pools_ok (L - {s}) m5" using free_stream_pools[of L m4 s] p4 po s by (simp add: m5_def)
  have tf5: "tcp_flow_table m5 = tcp_flow_table m4" "flow_cnt m5 = flow_cnt m4"
    by (simp_all add: m5_def free_stream_def)
  have t5: "table_live (L - {s}) m5"
    using t4 tf5 unfolding table_live_def table_ok_def table_streams_def bucket_def st5 by simp
  have fl5: "flow_lookup m5 = flow_lookup m4" by (rule flow_lookup_cong) (simp_all add: tf5(1) st5)
  have flc: "flow_lookup c = flow_lookup m1" by (rule flow_lookup_cong) (simp_all add: c_def)
  have lr5: "lists_rest m5 = lists_rest m" "ap_part m5 = ap_part m"
    using r4(1,2) by (simp_all add: m5_def free_stream_def lists_rest_def ap_part_def)
  have pa5: "paired (L - {s}) m5" unfolding paired_def st5
  proof (intro ballI allI impI)
    fix w p assume w: "w \<in> L - {s}" and p: "pair_stream (strm m4 w) = Some p"
    have e: "pair_stream (strm m w) = Some p" "p \<noteq> s"
      using p st4[OF w] by (auto simp: unpaired_def split: if_splits)
    then have "p \<in> L" "p \<noteq> w" "pair_stream (strm m p) = Some w" using pa w unfolding paired_def by blast+
    then show "p \<in> L - {s} \<and> p \<noteq> w \<and> pair_stream (strm m4 p) = Some w"
      using e(2) st4[of p] w by (auto simp: unpaired_def)
  qed
  show ?thesis using that[OF run lr5 t5 po5 pa5] t4 fl5 flc h(8) st4 st5 by simp
qed


definition address_held :: "mos_config \<Rightarrow> ref \<Rightarrow> mtcp_manager \<Rightarrow> bool" where
  "address_held cfg s m \<longleftrightarrow> (HAS_STREAM_TYPE (strm m s) MOS_SOCK_STREAM \<and> is_bound_addr (strm m s) \<longrightarrow>
     release_address cfg \<lparr>sin_addr = saddr (strm m s), sin_port = sport (strm m s)\<rparr> m \<noteq> None)"

lemma DestroySingle_life:
  assumes inv: "life_inv cfg L m" and s: "s \<in> L" and addr: "address_held cfg s m"
  obtains m' where "DestroySingleTCPStream cfg s m = Some m'" "life_inv cfg (L - {s}) m'"
    "flow_lookup m' = (flow_lookup m)(flow_key (strm m s) := None)"
    "\<And>w. w \<in> L - {s} \<Longrightarrow> strm m' w = unpaired s (strm m w)"
proof -
  have lo: "lists_ok cfg L m" and po: "pools_ok L m" and tl: "table_live L m" and pa: "paired L m"
    and li: "\<forall>w \<in> L. listed_ok cfg (strm m w)" using inv by (simp_all add: life_inv_def)
  have fin: "finite L" using lo by (simp add: lists_ok_def)
  define m1 where "m1 = conn_end_callbacks s (mod_strm s (\<lambda>t. t\<lparr>state := TCP_ST_CLOSED_RSVD\<rparr>) m)"
  have st1: "strm m1 w = (if w = s then (strm m s)\<lparr>state := TCP_ST_CLOSED_RSVD\<rparr> else strm m w)" for w
    using conn_end_frame(1)[of s "mod_strm s (\<lambda>t. t\<lparr>state := TCP_ST_CLOSED_RSVD\<rparr>) m"]
    by (simp add: m1_def strm_def mod_strm_def)
  have lr1: "life_rest m1 = life_rest m" by (simp add: m1_def conn_end_frame)
  then have lrest1: "lists_rest m1 = lists_rest m" and tr1: "tab_rest m1 = tab_rest m" and ap1: "ap_part m1 = ap_part m"
    unfolding life_rest_def tab_rest_def ap_part_def by blast+
  have k1: "torn s m m1"
    using tr1 ap1 by (simp add: torn_def only_def st1 reg_part_def flow_key_def)
  have lo1: "lists_ok cfg L m1"
    using lo lists_ok_view[of m1 m L cfg] lrest1 by (simp add: st1 list_view_def)
  have li1: "listed_ok cfg (strm m1 s)" and oh1: "on_hash_table (strm m1 s)"
    using li s tl by (simp_all add: st1 listed_ok_def HAS_STREAM_TYPE_def sender_off_def table_live_def)
  obtain m2 where t2: "teardown cfg s m1 = Some m2" "torn s m1 m2" "lists_ok cfg L m2" "off_all (strm m2 s)"
    by (rule teardown_step[OF lo1 s li1 oh1])
  have k2: "torn s m m2" by (rule torn_trans[OF k1 t2(2)])
  have o2: "strm m2 w = strm m w" if "w \<noteq> s" for w using k2 that by (simp add: torn_def only_def)
  have tl2: "table_live L m2" "flow_lookup m2 = flow_lookup m" and po2: "pools_ok L m2"
    using torn_transfer[OF k2] tl po by blast+
  have pr2: "pair_stream (strm m2 w) = pair_stream (strm m w)" "flow_key (strm m2 w) = flow_key (strm m w)" for w
    using torn_transfer(3)[OF k2, of w] by (simp_all add: reg_part_def)
  have pa2: "paired L m2" using pa unfolding paired_def pr2 .
  obtain m3 where u: "unregister s m2 = Some m3" "lists_rest m3 = lists_rest m2" "ap_part m3 = ap_part m2"
    "table_live (L - {s}) m3" "pools_ok (L - {s}) m3" "paired (L - {s}) m3"
    "flow_lookup m3 = (flow_lookup m2)(flow_key (strm m2 s) := None)"
    "\<And>w. w \<in> L - {s} \<Longrightarrow> strm m3 w = unpaired s (strm m2 w)"
    using unregister_step[OF tl2(1) po2 pa2 s fin] by blast
  have v3: "strm m3 w = unpaired s (strm m w)" if "w \<in> L - {s}" for w using u(8)[OF that] o2 that by simp
  have lo3: "lists_ok cfg (L - {s}) m3"
  proof -
    have "lists_ok cfg (L - {s}) m2" using t2(3) lists_ok_off(2)[OF t2(4)] by simp
    moreover have "lists_ok cfg (L - {s}) m3 = lists_ok cfg (L - {s}) m2"
      by (rule lists_ok_view[OF u(2)]) (use u(8) in \<open>simp add: unpaired_def list_view_def\<close>)
    ultimately show ?thesis by simp
  qed
  have li3: "\<forall>w \<in> L - {s}. listed_ok cfg (strm m3 w)"
    using li v3 by (simp add: listed_ok_def unpaired_def HAS_STREAM_TYPE_def sender_off_def)
  have inv3: "life_inv cfg (L - {s}) m3" using lo3 u(4-6) li3 by (simp add: life_inv_def)
  let ?b = "if HAS_STREAM_TYPE (strm m1 s) MOS_SOCK_STREAM \<and> is_bound_addr (strm m1 s)
            then Some \<lparr>sin_addr = saddr (strm m1 s), sin_port = sport (strm m1 s)\<rparr> else None"
  have d: "DestroySingleTCPStream cfg s m =
     (case ?b of None \<Rightarrow> Some m3 | Some a \<Rightarrow> release_address cfg a m3)"
    unfolding DestroySingle_parts Let_def m1_def[symmetric] by (simp add: t2(1) u(1))
  have fl: "flow_lookup m3 = (flow_lookup m)(flow_key (strm m s) := None)" using u(7) tl2(2) pr2(2) by simp
  show ?thesis
  proof (cases ?b)
    case None
    then show ?thesis using that[of m3] d inv3 fl v3 by simp
  next
    case (Some a)
    have "ap_part m3 = ap_part m" using u(3) k2 by (simp add: torn_def)
    moreover have "release_address cfg a m \<noteq> None"
      using addr Some by (auto simp: address_held_def st1 HAS_STREAM_TYPE_def split: if_splits)
    ultimately have "release_address cfg a m3 \<noteq> None" using release_ap[of m3 m cfg a] by simp
    then obtain m4 where r: "release_address cfg a m3 = Some m4" by blast
    note rf = release_address_frame[OF r]
    have st4: "strm m4 = strm m3" using rf(1) by (simp add: strm_def fun_eq_iff)
    have "table_live (L - {s}) m4 \<and> flow_lookup m4 = flow_lookup m3"
      by (rule live_transfer(1)[OF rf(3)]) (simp_all add: st4 u(4))
    moreover have "pools_ok (L - {s}) m4" by (rule live_transfer(2)[OF rf(3)]) (simp_all add: st4 u(5))
    moreover have "lists_ok cfg (L - {s}) m4" using lo3 lists_ok_view[OF rf(2), of "L - {s}" cfg] st4 by simp
    moreover have "paired (L - {s}) m4" using u(6) unfolding paired_def st4 .
    ultimately have "life_inv cfg (L - {s}) m4" "flow_lookup m4 = flow_lookup m3"
      using li3 by (simp_all add: life_inv_def st4)
    then show ?thesis using that[of m4] d Some r fl v3 st4 by simp
  qed
qed


section \<open>The properties\<close>

definition created :: "mos_config \<Rightarrow> ref set \<Rightarrow> u32 \<Rightarrow> flow \<Rightarrow> mtcp_manager \<Rightarrow> ref option \<Rightarrow> mtcp_manager \<Rightarrow> bool" where
  "created cfg L ty k m r m' \<longleftrightarrow> (case r of
      None \<Rightarrow> life_inv cfg L m' \<and> streams m' = streams m \<and> (\<forall>t. HTSearch t m' = HTSearch t m)
    | Some s \<Rightarrow> s \<notin> L \<and> life_inv cfg (insert s L) m' \<and> only s m m' \<and> created_stream cfg ty k (strm m' s)
        \<and> (\<forall>t. HTSearch t m' = (if flow_key t = k then (HashFlow t, Some s) else HTSearch t m)))"

text \<open>
  C24.  Creating a stream for addresses and ports that no live stream has: the call returns
  whatever pool is exhausted.  Either nothing changes and no chunk is lost, or a stream in
  state LISTEN is set up on chunks nobody held: on no list, its sequence numbers at the
  initial one, found from now on by every search for its addresses and ports; searches for
  other flows and all other streams are as before.
\<close>

theorem stream_created:
  assumes "life_inv cfg L m" and "snd (HTSearch t m) = None" and "flow_key t = (sa, sp, da, dp)"
    and "hash = None \<or> hash = Some (fst (HTSearch t m))"
    and "ty AND STREAM_TYPE MOS_SOCK_STREAM \<noteq> 0 \<longrightarrow> GetOutputInterface cfg da \<noteq> None"
  shows "\<exists>r m'. CreateTCPStream cfg sock ty sa sp da dp hash m = Some (r, m')
           \<and> created cfg L ty (sa, sp, da, dp) m r m'"
proof -
  have new: "flow_lookup m (sa, sp, da, dp) = None" using assms(2,3) by (simp add: HTSearch_lookup)
  have h: "hash = None \<or> hash = Some (HashFlow (flow_probe (sa, sp, da, dp)))"
    using assms(3,4) HashFlow_key[of t "flow_probe (sa, sp, da, dp)"] by (simp add: HTSearch_lookup)
  from assms(1) new h assms(5) show ?thesis
    by (rule CreateTCPStream_life[where sock = sock]) (auto simp: created_def HTSearch_lookup)
qed

definition gone :: "ref \<Rightarrow> mtcp_manager \<Rightarrow> ref set" where
  "gone s m = insert s (set_option (pair_stream (strm m s)))"

definition destroyed :: "mos_config \<Rightarrow> ref set \<Rightarrow> ref set \<Rightarrow> mtcp_manager \<Rightarrow> mtcp_manager \<Rightarrow> bool" where
  "destroyed cfg L G m m' \<longleftrightarrow> life_inv cfg (L - G) m' \<and> (\<forall>w \<in> L - G. strm m' w = strm m w)
     \<and> (\<forall>t. snd (HTSearch t m') = (case snd (HTSearch t m) of None \<Rightarrow> None | Some w \<Rightarrow> if w \<in> G then None else Some w))"

lemma flow_lookup_live:
  assumes "life_inv cfg L m"
  shows "flow_lookup m k = Some w \<longleftrightarrow> w \<in> L \<and> flow_key (strm m w) = k"
  using assms flow_lookup_iff[of "\<lambda>s. flow_key (strm m s)" m k w] by (simp add: life_inv_def table_live_def)

lemma DestroyTCPStream_life:
  assumes inv: "life_inv cfg L m" and s: "s \<in> L" and addr: "address_held cfg s m"
    and pr: "\<forall>p \<in> set_option (pair_stream (strm m s)). \<not> is_bound_addr (strm m p)"
  obtains m' where "DestroyTCPStream cfg s m = Some m'" "destroyed cfg L (gone s m) m m'"
proof -
  have pa: "paired L m" using inv by (simp add: life_inv_def)
  obtain m1 where d1: "DestroySingleTCPStream cfg s m = Some m1" "life_inv cfg (L - {s}) m1"
    "flow_lookup m1 = (flow_lookup m)(flow_key (strm m s) := None)"
    "\<And>w. w \<in> L - {s} \<Longrightarrow> strm m1 w = unpaired s (strm m w)"
    using DestroySingle_life[OF inv s addr] by blast
  show ?thesis
  proof (cases "pair_stream (strm m s)")
    case None
    have "strm m1 w = strm m w" if w: "w \<in> L - {s}" for w
    proof -
      have "pair_stream (strm m w) \<noteq> Some s" using pa w None unfolding paired_def by fastforce
      then show ?thesis using d1(4)[OF w] by (simp add: unpaired_def)
    qed
    moreover have "(case flow_lookup m k of None \<Rightarrow> None | Some w \<Rightarrow> if w \<in> {s} then None else Some w)
        = flow_lookup m1 k" for k
      using flow_lookup_live[OF inv, of k] s unfolding d1(3) by (cases "flow_lookup m k") auto
    ultimately have "destroyed cfg L (gone s m) m m1"
      using d1(2) None by (simp add: destroyed_def gone_def HTSearch_lookup)
    then show ?thesis using that[of m1] d1(1) None by (simp add: DestroyTCPStream_def)
  next
    case (Some p)
    have p: "p \<in> L" "p \<noteq> s" "pair_stream (strm m p) = Some s" using pa s Some unfolding paired_def by blast+
    have p1: "strm m1 p = (strm m p)\<lparr>pair_stream := None\<rparr>" using d1(4)[of p] p by (simp add: unpaired_def)
    have "address_held cfg p m1" using pr Some p1 by (simp add: address_held_def)
    then obtain m2 where d2: "DestroySingleTCPStream cfg p m1 = Some m2" "life_inv cfg (L - {s} - {p}) m2"
      "flow_lookup m2 = (flow_lookup m1)(flow_key (strm m1 p) := None)"
      "\<And>w. w \<in> L - {s} - {p} \<Longrightarrow> strm m2 w = unpaired p (strm m1 w)"
      using DestroySingle_life[OF d1(2), of p] p by blast
    have same: "strm m2 w = strm m w" if w: "w \<in> L - {s, p}" for w
    proof -
      have "pair_stream (strm m w) \<noteq> Some s" "pair_stream (strm m w) \<noteq> Some p"
        using pa w Some p unfolding paired_def by fastforce+
      then show ?thesis using d1(4)[of w] d2(4)[of w] w by (simp add: unpaired_def)
    qed
    have fp: "flow_key (strm m1 p) = flow_key (strm m p)" by (simp add: p1 flow_key_def)
    have "(case flow_lookup m k of None \<Rightarrow> None | Some w \<Rightarrow> if w \<in> {s, p} then None else Some w)
        = flow_lookup m2 k" for k
      using flow_lookup_live[OF inv, of k] s p unfolding d2(3) d1(3) fp by (cases "flow_lookup m k") auto
    moreover have "L - {s} - {p} = L - {s, p}" by blast
    ultimately have "destroyed cfg L (gone s m) m m2"
      using d2(2) Some same by (simp add: destroyed_def gone_def HTSearch_lookup)
    then show ?thesis using that[of m2] d1(1) d2(1) Some by (simp add: DestroyTCPStream_def)
  qed
qed

text \<open>
  C25.  Destroying a live stream takes the stream and the other direction of its connection
  out, and nothing else.  The call returns; afterwards neither is on any list, in the flow
  table or in the pools' books, every chunk they held is free again, and all other streams
  and what searches find of them are unchanged.
\<close>

theorem stream_destroyed:
  assumes "life_inv cfg L m" "s \<in> L" "address_held cfg s m"
    and "\<forall>p \<in> set_option (pair_stream (strm m s)). \<not> is_bound_addr (strm m p)"
  shows "\<exists>m'. DestroyTCPStream cfg s m = Some m' \<and> destroyed cfg L (gone s m) m m'"
  using DestroyTCPStream_life[OF assms] by blast

section \<open>A manager to try it on\<close>

definition life_pool :: mem_pool where
  "life_pool = the (MPCreate True (\<lambda>_. \<lparr>mc_free_chunks = 0, mc_next = None\<rparr>) 16 32 0)"

definition life_demo :: mtcp_manager where
  "life_demo = zero_mtcp\<lparr>flow_pool := life_pool, rv_pool := life_pool, sv_pool := life_pool, rand_next := 1\<rparr>"

lemma life_pool_exact: "exact_pool life_pool {}"
proof -
  let ?mp = "MPCreate True (\<lambda>_. \<lparr>mc_free_chunks = 0, mc_next = None\<rparr>) 16 32 0"
  have s: "?mp = Some life_pool" by (simp add: life_pool_def MPCreate_def Let_def)
  have "0 \<le> mp_total_chunks life_pool" by (simp add: life_pool_def MPCreate_def Let_def)
  then show ?thesis using MPCreate_ok[OF s] by (simp add: exact_pool_def)
qed

lemma life_demo_inv: "life_inv cfg {} life_demo"
proof -
  have "table_live {} life_demo"
    by (simp add: table_live_def table_ok_def table_streams_def bucket_def life_demo_def zero_mtcp_def)
  moreover have "lists_ok cfg {} life_demo"
    by (simp add: lists_ok_def each_ok_def total_ok_def tracked_def placed_on_def fam_defs lists_defs
      timer_excl_def life_demo_def zero_mtcp_def zero_sender_def)
  moreover have "pools_ok {} life_demo" using life_pool_exact by (simp add: pools_ok_def life_demo_def)
  ultimately show ?thesis by (simp add: life_inv_def paired_def)
qed

theorem stream_created_witness:
  "\<exists>r m'. CreateTCPStream route_demo None (STREAM_TYPE MOS_SOCK_STREAM) 0x0101A8C0 80 0x0201A8C0 4000 None life_demo
       = Some (r, m') \<and> created route_demo {} (STREAM_TYPE MOS_SOCK_STREAM) (0x0101A8C0, 80, 0x0201A8C0, 4000) life_demo r m'"
  by (rule stream_created[OF life_demo_inv, where t = "flow_probe (0x0101A8C0, 80, 0x0201A8C0, 4000)"])
    (simp_all add: HTSearch_def life_demo_def zero_mtcp_def GetOutputInterface_def route_demo_def)

lemma life_demo_created:
  obtains s m where "CreateTCPStream route_demo None (STREAM_TYPE MOS_SOCK_MONITOR_STREAM_ACTIVE) 1 2 3 4 None life_demo
      = Some (Some s, m)" "life_inv route_demo {s} m" "stream_type (strm m s) = STREAM_TYPE MOS_SOCK_MONITOR_STREAM_ACTIVE"
    "pair_stream (strm m s) = None"
proof -
  let ?C = "CreateTCPStream route_demo None (STREAM_TYPE MOS_SOCK_MONITOR_STREAM_ACTIVE) 1 2 3 4 None life_demo"
  have al: "fst (alloc_stream life_demo) \<noteq> None"
    by (simp add: alloc_stream_def life_demo_def life_pool_def MPCreate_def MPAllocateChunk_def Let_def)
  have no: "?C \<noteq> Some (None, m')" for m'
    using al by (auto simp: CreateTCPStream_def HTInsert_def Let_def split: prod.splits option.splits if_splits)
  have n: "flow_lookup life_demo (1, 2, 3, 4) = None"
    by (simp add: flow_lookup_def HTSearch_def life_demo_def zero_mtcp_def)
  have ty: "STREAM_TYPE MOS_SOCK_MONITOR_STREAM_ACTIVE AND STREAM_TYPE MOS_SOCK_STREAM \<noteq> 0 \<longrightarrow>
      GetOutputInterface route_demo 3 \<noteq> None" by (simp add: STREAM_TYPE_def)
  have h: "None = (None :: u32 option) \<or> None = Some (HashFlow (flow_probe (1, 2, 3, 4)))" by simp
  from life_demo_inv[of route_demo] n h ty show thesis
  proof (cases rule: CreateTCPStream_life[where sock = None])
    case (none m') then show ?thesis using no by blast
  next
    case (made s m') then show ?thesis using that[of s m'] by (simp add: created_stream_def)
  qed
qed

theorem stream_destroyed_witness:
  "\<exists>s m m'. CreateTCPStream route_demo None (STREAM_TYPE MOS_SOCK_MONITOR_STREAM_ACTIVE) 1 2 3 4 None life_demo
       = Some (Some s, m) \<and> DestroyTCPStream route_demo s m = Some m' \<and> life_inv route_demo {} m'"
proof -
  obtain s m where c: "CreateTCPStream route_demo None (STREAM_TYPE MOS_SOCK_MONITOR_STREAM_ACTIVE) 1 2 3 4 None life_demo
      = Some (Some s, m)" "life_inv route_demo {s} m" "stream_type (strm m s) = STREAM_TYPE MOS_SOCK_MONITOR_STREAM_ACTIVE"
    "pair_stream (strm m s) = None" by (rule life_demo_created)
  have "address_held route_demo s m"
    by (simp add: address_held_def HAS_STREAM_TYPE_def c(3) STREAM_TYPE_def)
  then obtain m' where "DestroyTCPStream route_demo s m = Some m'" "destroyed route_demo {s} (gone s m) m m'"
    using stream_destroyed[OF c(2), of s] c(4) by auto
  then show ?thesis using c(1,4) by (auto simp: destroyed_def gone_def)
qed

end
