(* ===== verification/Tcp_Monitor.thy ===== *)
theory Tcp_Monitor
  imports Tcp_Machine Stream_End
begin

text \<open>
  Monitoring (\<open>tcp.c\<close>, \<open>tcp_out.c\<close>, \<open>tcp_rb.c\<close>): every packet of a monitored connection
  first moves the sending side's state (\<open>UpdatePassiveSendTCPContext\<close>), then the receiving
  side's, with the callbacks of the monitor sockets after each.  \<open>PostSendTCPAction\<close> is
  empty in the source, \<open>UpdatePassiveRecvTCPContext\<close> only calls \<open>UpdateRecvTCPContext\<close>.
\<close>

section \<open>Retransmitted payload\<close>

definition DOESOVERLAP :: "int \<Rightarrow> int \<Rightarrow> int \<Rightarrow> int \<Rightarrow> bool" where
  "DOESOVERLAP a1 a2 b1 b2 \<longleftrightarrow> a1 \<noteq> b2 \<and> a2 \<noteq> b1 \<and> (a1 > b2) \<noteq> (a2 > b1)"

definition run_hooks :: "u32 \<Rightarrow> ref list \<Rightarrow> 2 word \<Rightarrow> u64 \<Rightarrow> mtcp_manager \<Rightarrow> mtcp_manager" where
  "run_hooks hook walks sd ev m = fold (\<lambda>w m. HandleCallback hook w sd ev m) walks m"

definition tcp_rb_overlapchk :: "ref \<Rightarrow> pkt_ctx \<Rightarrow> mtcp_manager \<Rightarrow> mtcp_manager" where
  "tcp_rb_overlapchk s p m =
     (let t = strm m s
      in case rcvbuf (rcvvar t) of
           None \<Rightarrow> m
         | Some rb \<Rightarrow>
             (let off = seq2loff rb (p_seq p) (irs (rcvvar t) + 1)
              in if p_payloadlen p > 0 \<and>
                    find (\<lambda>f. DOESOVERLAP (f_head f) (f_tail f) off (off + int (unat (p_payloadlen p)))) (rb_frags rb) \<noteq> None
                 then run_hooks MOS_HK_RCV (callback_order t) (side t) MOS_ON_REXMIT m
                 else m))"

definition PreRecvTCPEventPrediction :: "ref \<Rightarrow> pkt_ctx \<Rightarrow> mtcp_manager \<Rightarrow> mtcp_manager" where
  "PreRecvTCPEventPrediction s p m = tcp_rb_overlapchk s p m"

section \<open>The sending side, passively\<close>

definition UpdatePassiveSendTCPContext_SynSent :: "pkt_ctx \<Rightarrow> tcp_stream \<Rightarrow> tcp_stream" where
  "UpdatePassiveSendTCPContext_SynSent p t =
     (let t = (if state t < TCP_ST_SYN_SENT
               then raise_cb MOS_ON_CONN_START (raise_cb MOS_ON_TCP_STATE_CHANGE t) else t)
      in (mod_snd (\<lambda>v. v\<lparr>cwnd := 1, ssthresh := ucast (mss v) * 10, ip_id := htons (p_ip_id p), iss := p_seq p\<rparr>) t)
           \<lparr>snd_nxt := p_seq p + 1, state := TCP_ST_SYN_SENT, last_active_ts := p_cur_ts p\<rparr>)"

text \<open>The code at the label \<open>__Handle_TCP_ST_ESTABLISHED\<close>.\<close>

definition catch_up_ack :: "mos_config \<Rightarrow> pkt_ctx \<Rightarrow> tcp_stream \<Rightarrow> tcp_stream" where
  "catch_up_ack cfg p t =
     (if be_resilient cfg \<and> th_ack (p_tcph p) \<and> TCP_SEQ_GT (ntohl (th_ack_seq (p_tcph p))) (rcv_nxt t)
      then t\<lparr>rcv_nxt := ntohl (th_ack_seq (p_tcph p))\<rparr> else t)"

definition passive_fin :: "pkt_ctx \<Rightarrow> tcp_stream \<Rightarrow> tcp_stream" where
  "passive_fin p t =
     (mod_snd (\<lambda>v. v\<lparr>fss := p_seq p + ucast (p_payloadlen p), is_fin_sent := True\<rparr>) t)\<lparr>snd_nxt := snd_nxt t + 1\<rparr>"

definition passive_established :: "mos_config \<Rightarrow> pkt_ctx \<Rightarrow> tcp_stream \<Rightarrow> tcp_stream" where
  "passive_established cfg p t =
     (let t = catch_up_ack cfg p t
      in if th_fin (p_tcph p) then passive_fin p (enter_state TCP_ST_FIN_WAIT_1 t) else t)"

definition passive_caught_up :: "mos_config \<Rightarrow> pkt_ctx \<Rightarrow> tcp_stream \<Rightarrow> tcp_stream" where
  "passive_caught_up cfg p t =
     passive_established cfg p ((enter_state TCP_ST_ESTABLISHED t)\<lparr>snd_nxt := p_seq p, rcv_nxt := p_ack_seq p\<rparr>)"

definition passive_close_wait :: "mos_config \<Rightarrow> pkt_ctx \<Rightarrow> tcp_stream \<Rightarrow> tcp_stream" where
  "passive_close_wait cfg p t =
     (let t = catch_up_ack cfg p t
      in if th_fin (p_tcph p) then
           (let t = passive_fin p t
            in enter_state (if th_ack (p_tcph p) \<and> ntohl (th_ack_seq (p_tcph p)) = rcv_nxt t
                            then TCP_ST_LAST_ACK else TCP_ST_CLOSING) t)
         else t)"

text \<open>The switch on the state; \<open>None\<close> is its default, which asserts.\<close>

fun passive_switch :: "mos_config \<Rightarrow> pkt_ctx \<Rightarrow> tcp_state \<Rightarrow> tcp_stream \<Rightarrow> tcp_stream option" where
  "passive_switch cfg p TCP_ST_SYN_SENT t =
     Some (if be_resilient cfg \<and> th_ack (p_tcph p) \<and> TCP_SEQ_GT (p_seq p) (iss (sndvar t))
           then passive_caught_up cfg p t else t)"
| "passive_switch cfg p TCP_ST_SYN_RCVD t =
     Some (if \<not> th_ack (p_tcph p) then t
           else if th_syn (p_tcph p)
           then (mod_snd (\<lambda>v. v\<lparr>iss := p_seq p\<rparr>) t)\<lparr>snd_nxt := p_seq p + 1\<rparr>
           else if be_resilient cfg then passive_caught_up cfg p t else t)"
| "passive_switch cfg p TCP_ST_ESTABLISHED t = Some (passive_established cfg p t)"
| "passive_switch cfg p TCP_ST_CLOSE_WAIT t = Some (passive_close_wait cfg p t)"
| "passive_switch cfg p TCP_ST_LAST_ACK t = Some t"
| "passive_switch cfg p TCP_ST_FIN_WAIT_1 t = Some t"
| "passive_switch cfg p TCP_ST_FIN_WAIT_2 t = Some t"
| "passive_switch cfg p TCP_ST_CLOSING t = Some t"
| "passive_switch cfg p TCP_ST_TIME_WAIT t = Some t"
| "passive_switch cfg p TCP_ST_CLOSED t = Some t"
| "passive_switch cfg p TCP_ST_CLOSED_RSVD t = Some t"
| "passive_switch cfg p TCP_ST_LISTEN t = None"

definition passive_note :: "pkt_ctx \<Rightarrow> tcp_stream \<Rightarrow> tcp_stream" where
  "passive_note p t =
     (let t = (if th_ack (p_tcph p)
               then (mod_snd (\<lambda>v. v\<lparr>ts_lastack_sent := p_cur_ts p\<rparr>) t)\<lparr>last_active_ts := p_cur_ts p\<rparr> else t)
      in t\<lparr>snd_nxt := p_seq p + ucast (p_payloadlen p)\<rparr>)"

definition UpdatePassiveSendTCPContext :: "mos_config \<Rightarrow> ref \<Rightarrow> pkt_ctx \<Rightarrow> mtcp_manager \<Rightarrow> mtcp_manager option" where
  "UpdatePassiveSendTCPContext cfg s p m =
     (if th_syn (p_tcph p) \<and> \<not> th_ack (p_tcph p) \<and> state (strm m s) \<le> TCP_ST_SYN_SENT
      then Some (AddtoTimeoutList s (mod_strm s (UpdatePassiveSendTCPContext_SynSent p) m))
      else
        (let m = mod_strm s (passive_note p) m
         in if th_rst (p_tcph p)
            then Some (mod_strm s (\<lambda>t. enter_state TCP_ST_CLOSED_RSVD (t\<lparr>have_reset := True\<rparr>)) m)
            else map_option (\<lambda>t. mod_strm s (\<lambda>_. t) m) (passive_switch cfg p (state (strm m s)) (strm m s))))"

section \<open>Both sides of a packet\<close>

definition send_order :: "tcp_stream \<Rightarrow> ref list" where
  "send_order t = (if side t = MOS_SIDE_CLI then map fst (msocks t) else rev (map fst (msocks t)))"

definition monitor_sender :: "mos_config \<Rightarrow> ref \<Rightarrow> pkt_ctx \<Rightarrow> bool \<Rightarrow> mtcp_manager \<Rightarrow> mtcp_manager option" where
  "monitor_sender cfg s p is_rx m =
     (if status_mgmt (strm m s) then do {
        let m = mod_strm s (\<lambda>t. t\<lparr>cb_events := MOS_ON_PKT_IN\<rparr>) m;
        m \<leftarrow> (if is_rx then UpdatePassiveSendTCPContext cfg s p m else Some m);
        let m = mod_strm s (\<lambda>t. t\<lparr>allow_pkt_modification := True\<rparr>) m;
        let t = strm m s;
        let m = run_hooks MOS_HK_SND (send_order t) (side t) (cb_events t) m;
        Some (mod_strm s (\<lambda>t. t\<lparr>allow_pkt_modification := False\<rparr>) m)
      } else Some m)"

text \<open>The first packet of a connection brings the receiving side into being.\<close>

definition attach_receiver :: "mos_config \<Rightarrow> ref \<Rightarrow> pkt_ctx \<Rightarrow> mtcp_manager \<Rightarrow> (ref option \<times> mtcp_manager) option" where
  "attach_receiver cfg s p m =
     (if side (strm m s) \<noteq> MOS_SIDE_CLI then None
      else case AttachServerTCPStream cfg s (p_saddr p) (th_source (p_tcph p)) (p_daddr p) (th_dest (p_tcph p)) m of
             None \<Rightarrow> None
           | Some (None, m) \<Rightarrow> map_option (\<lambda>m. (None, m)) (DestroyTCPStream cfg s m)
           | Some (Some r, m) \<Rightarrow>
               (let t = mod_snd (\<lambda>v. v\<lparr>peer_wnd := ucast (p_window p), cwnd := 1\<rparr>)
                          (mod_rcv (\<lambda>v. v\<lparr>irs := p_seq p\<rparr>) ((strm m r)\<lparr>rcv_nxt := p_seq p + 1\<rparr>))
                in map_option (\<lambda>t. (Some r, mod_strm r (\<lambda>_. t) m))
                     (ParseTCPOptions (p_cur_ts p) (opt_mem p) (opt_len p) t)))"

definition monitor_receiver :: "mos_config \<Rightarrow> ref \<Rightarrow> pkt_ctx \<Rightarrow> mtcp_manager \<Rightarrow> mtcp_manager option" where
  "monitor_receiver cfg r p m =
     (if status_mgmt (strm m r) then do {
        let m = mod_strm r (\<lambda>t. t\<lparr>cb_events := MOS_ON_PKT_IN\<rparr>) m;
        let m = PreRecvTCPEventPrediction r p m;
        m \<leftarrow> UpdateRecvTCPContext cfg r p m;
        let t = strm m r;
        Some (run_hooks MOS_HK_RCV (callback_order t) (side t) (cb_events t) m)
      } else Some m)"

definition UpdateMonitor :: "mos_config \<Rightarrow> ref \<Rightarrow> ref option \<Rightarrow> pkt_ctx \<Rightarrow> bool \<Rightarrow> mtcp_manager \<Rightarrow> mtcp_manager option" where
  "UpdateMonitor cfg s rcv p is_rx m = do {
     m \<leftarrow> monitor_sender cfg s p is_rx m;
     (rcv, m) \<leftarrow> (case rcv of Some r \<Rightarrow> Some (Some r, m) | None \<Rightarrow> attach_receiver cfg s p m);
     case rcv of
       None \<Rightarrow> Some m
     | Some r \<Rightarrow> do {
         m \<leftarrow> monitor_receiver cfg r p m;
         Some (mod_strm s (\<lambda>t. t\<lparr>cb_events := 0\<rparr>) (mod_strm r (\<lambda>t. t\<lparr>cb_events := 0\<rparr>) m))
       }
   }"

section \<open>What counts as a retransmission\<close>

lemma DOESOVERLAP_iff:
  assumes "a1 < a2" "b1 < b2"
  shows "DOESOVERLAP a1 a2 b1 b2 \<longleftrightarrow> {a1..<a2} \<inter> {b1..<b2} \<noteq> {}"
proof -
  have "{a1..<a2} \<inter> {b1..<b2} \<noteq> {} \<longleftrightarrow> max a1 b1 < min a2 b2"
    by (simp only: Int_atLeastLessThan atLeastLessThan_empty_iff) auto
  then show ?thesis using assms by (auto simp: DOESOVERLAP_def)
qed

lemma run_hooks_trace:
  "run_hooks h ws sd ev m = m\<lparr>cb_trace := cb_trace m @ map (\<lambda>w. (h, w, unat sd, ev)) ws\<rparr>"
  unfolding run_hooks_def by (induction ws arbitrary: m) (simp_all add: HandleCallback_def)

text \<open>
  C26.  A monitored segment is reported as a retransmission exactly when it carries a byte
  that is already in the receive buffer: the comparison of endpoints in the source is the
  intersection of the segment's byte range with the received ranges.  The report is one
  callback to every monitor of the stream, and nothing else changes.
\<close>

theorem rexmit_reported_iff:
  assumes "rcvbuf (rcvvar (strm m s)) = Some rb"
    and "\<forall>f \<in> set (rb_frags rb). f_head f < f_tail f"
    and off: "off = seq2loff rb (p_seq p) (irs (rcvvar (strm m s)) + 1)"
  shows "tcp_rb_overlapchk s p m =
     m\<lparr>cb_trace := cb_trace m @
        (if cov (rb_frags rb) \<inter> {off..<off + int (unat (p_payloadlen p))} = {} then []
         else map (\<lambda>w. (MOS_HK_RCV, w, unat (side (strm m s)), MOS_ON_REXMIT)) (callback_order (strm m s)))\<rparr>"
proof -
  let ?n = "int (unat (p_payloadlen p))"
  have z: "p_payloadlen p > 0 \<longleftrightarrow> ?n > 0" by (simp only: word_less_nat_alt of_nat_0_less_iff unsigned_0)
  let ?F = "find (\<lambda>f. DOESOVERLAP (f_head f) (f_tail f) off (off + ?n)) (rb_frags rb) \<noteq> None"
  have ov: "find (\<lambda>f. DOESOVERLAP (f_head f) (f_tail f) off (off + ?n)) (rb_frags rb) \<noteq> None
      \<longleftrightarrow> cov (rb_frags rb) \<inter> {off..<off + ?n} \<noteq> {}" if "?n > 0"
  proof -
    have d: "DOESOVERLAP (f_head f) (f_tail f) off (off + ?n) \<longleftrightarrow> {f_head f..<f_tail f} \<inter> {off..<off + ?n} \<noteq> {}"
      if "f \<in> set (rb_frags rb)" for f
      using assms(2) that \<open>?n > 0\<close> by (intro DOESOVERLAP_iff) auto
    have "cov (rb_frags rb) \<inter> {off..<off + ?n} \<noteq> {}
        \<longleftrightarrow> (\<exists>f \<in> set (rb_frags rb). {f_head f..<f_tail f} \<inter> {off..<off + ?n} \<noteq> {})"
      unfolding cov_def by blast
    also have "\<dots> \<longleftrightarrow> (\<exists>f \<in> set (rb_frags rb). DOESOVERLAP (f_head f) (f_tail f) off (off + ?n))"
      using d by (intro bex_cong) simp_all
    finally show ?thesis unfolding find_Some_iff_mem by blast
  qed
  have "tcp_rb_overlapchk s p m = (if ?n > 0 \<and> ?F
      then run_hooks MOS_HK_RCV (callback_order (strm m s)) (side (strm m s)) MOS_ON_REXMIT m else m)"
    unfolding tcp_rb_overlapchk_def Let_def assms(1) option.case off z ..
  moreover have "(?n > 0 \<and> ?F) \<longleftrightarrow> cov (rb_frags rb) \<inter> {off..<off + ?n} \<noteq> {}"
  proof (cases "?n > 0")
    case True then show ?thesis using ov by blast
  next
    case False
    then have "{off..<off + ?n} = {}" by simp
    then show ?thesis using False by blast
  qed
  ultimately have "tcp_rb_overlapchk s p m = (if cov (rb_frags rb) \<inter> {off..<off + ?n} \<noteq> {}
      then run_hooks MOS_HK_RCV (callback_order (strm m s)) (side (strm m s)) MOS_ON_REXMIT m else m)"
    by (simp only:)
  then show ?thesis unfolding run_hooks_trace by (cases "cov (rb_frags rb) \<inter> {off..<off + ?n} = {}") simp_all
qed

definition rexmit_demo :: mtcp_manager where
  "rexmit_demo = mod_strm 0 (\<lambda>t. (mod_rcv (\<lambda>r. r\<lparr>rcvbuf := Some ((fst rb_demo)
     \<lparr>rb_frags := [\<lparr>f_empty = False, f_head = 0, f_tail = 10\<rparr>]\<rparr>)\<rparr>) t)\<lparr>msocks := [(7, 0)]\<rparr>) zero_mtcp"

theorem rexmit_reported_iff_witness:
  "tcp_rb_overlapchk 0 ((ack_demo_pkt 5)\<lparr>p_seq := 6, p_payload := [1, 2]\<rparr>) rexmit_demo
     = rexmit_demo\<lparr>cb_trace := [(MOS_HK_RCV, 7, 0, MOS_ON_REXMIT)]\<rparr>"
proof -
  let ?p = "(ack_demo_pkt 5)\<lparr>p_seq := 6, p_payload := [1, 2]\<rparr>"
  let ?rb = "(fst rb_demo)\<lparr>rb_frags := [\<lparr>f_empty = False, f_head = 0, f_tail = 10\<rparr>]\<rparr>"
  have rb: "rcvbuf (rcvvar (strm rexmit_demo 0)) = Some ?rb" and i: "irs (rcvvar (strm rexmit_demo 0)) = 0"
    and c: "callback_order (strm rexmit_demo 0) = [7]" "side (strm rexmit_demo 0) = 0" "cb_trace rexmit_demo = []"
    by (simp_all add: rexmit_demo_def callback_order_def strm_def zero_mtcp_def zero_stream_def zero_rcv_def mod_strm_def mod_rcv_def)
  have o: "seq2loff ?rb (p_seq ?p) (irs (rcvvar (strm rexmit_demo 0)) + 1) = 5"
    by (simp add: i seq2loff_def rb_demo_def ack_demo_pkt_def seq2loff_loop.simps)
  have "p_payloadlen ?p = 2" by (simp add: p_payloadlen_def)
  then show ?thesis
    using rexmit_reported_iff[OF rb _ o[symmetric]] by (simp add: c cov_def)
qed

end
