(* ===== verification/Tcp_Send.thy ===== *)
theory Tcp_Send
  imports Tcp_Monitor
begin

text \<open>
  Sending (\<open>tcp_out.c\<close>, with \<open>IPOutput\<close> of \<open>ip_out.c\<close>): building one segment, flushing
  the send buffer within the windows, the control packet of every state, and the three
  loops that serve a sender's lists.  The write buffer of the network card is asked for with
  \<open>tx_ok\<close>; what was handed to it is appended to \<open>wire\<close>.  \<open>None\<close> stands for a failed
  assertion or for a read outside the send buffer's chunk.
\<close>

section \<open>The IP layer\<close>

definition get_wptr :: "mos_config \<Rightarrow> mtcp_manager \<Rightarrow> bool \<times> mtcp_manager" where
  "get_wptr cfg m = (tx_ok cfg (tx_no m), m\<lparr>tx_no := tx_no m + 1\<rparr>)"

definition out_if :: "mos_config \<Rightarrow> tcp_stream \<Rightarrow> tcp_stream" where
  "out_if cfg t =
     (if nif_out (sndvar t) \<ge> 0 then t
      else mod_snd (\<lambda>v. v\<lparr>nif_out := (case GetOutputInterface cfg (daddr t) of None \<Rightarrow> -1 | Some nif \<Rightarrow> nif)\<rparr>) t)"

text \<open>The identification of the IP packet, in network order, when there is a buffer for it.\<close>

definition IPOutput :: "mos_config \<Rightarrow> ref \<Rightarrow> mtcp_manager \<Rightarrow> u16 option \<times> mtcp_manager" where
  "IPOutput cfg s m =
     (let m = mod_strm s (out_if cfg) m in
      if nif_out (sndvar (strm m s)) < 0 then (None, m)
      else (case get_wptr cfg m of
              (False, m) \<Rightarrow> (None, m)
            | (True, m) \<Rightarrow> (Some (htons (ip_id (sndvar (strm m s)))),
                            mod_strm s (mod_snd (\<lambda>v. v\<lparr>ip_id := ip_id v + 1\<rparr>)) m)))"

definition IPOutputStandalone :: "mos_config \<Rightarrow> u32 \<Rightarrow> mtcp_manager \<Rightarrow> bool \<times> mtcp_manager" where
  "IPOutputStandalone cfg da m =
     (case GetOutputInterface cfg da of None \<Rightarrow> (False, m) | Some _ \<Rightarrow> get_wptr cfg m)"

section \<open>One segment\<close>

definition has :: "u8 \<Rightarrow> u8 \<Rightarrow> bool" where
  "has flags f \<longleftrightarrow> flags AND f \<noteq> 0"

definition TCP_MAX_WINDOW :: u32 where "TCP_MAX_WINDOW = 65535"

definition MOS_SIDE_BOTH :: "2 word" where "MOS_SIDE_BOTH = 2"

definition put_wire :: "segment \<Rightarrow> mtcp_manager \<Rightarrow> mtcp_manager" where
  "put_wire sg m = m\<lparr>wire := wire m @ [sg]\<rparr>"

definition raw_callbacks :: "mos_config \<Rightarrow> segment \<Rightarrow> mtcp_manager \<Rightarrow> mtcp_manager" where
  "raw_callbacks cfg sg m =
     fold (\<lambda>l m. let k = ml_socket (mlisteners m l) in
        if socktype (msmap m k) = MOS_SOCK_MONITOR_RAW \<and> raw_filter cfg l sg
        then HandleCallback MOS_NULL k MOS_SIDE_BOTH MOS_ON_PKT_IN m else m) (monitors m) m"

text \<open>\<open>payloadlen\<close> counts a SYN or a FIN as a byte at the end.\<close>

definition sent_len :: "segment \<Rightarrow> u16" where
  "sent_len sg = of_nat (length (sg_data sg)) + (if sg_syn sg \<or> sg_fin sg then 1 else 0)"

definition SendTCPPacketStandalone ::
  "mos_config \<Rightarrow> u32 \<Rightarrow> u16 \<Rightarrow> u32 \<Rightarrow> u16 \<Rightarrow> u32 \<Rightarrow> u32 \<Rightarrow> u16 \<Rightarrow> u8 \<Rightarrow> u8 list \<Rightarrow> u32 \<Rightarrow> u32
     \<Rightarrow> mtcp_manager \<Rightarrow> (int \<times> mtcp_manager) option" where
  "SendTCPPacketStandalone cfg sa sp da dp seq ack win flags payload cur_ts echo_ts m =
     (let optlen = unat (CalculateOptionLength flags) in
      if length payload > unat TCP_DEFAULT_MSS + optlen then None
      else (case IPOutputStandalone cfg da m of
        (False, m) \<Rightarrow> Some (-1, m)
      | (True, m) \<Rightarrow>
          let sg = \<lparr>sg_saddr = sa, sg_daddr = da, sg_source = sp, sg_dest = dp, sg_seq = seq,
                    sg_ack_seq = (if has flags TCP_FLAG_ACK then ack else 0),
                    sg_syn = has flags TCP_FLAG_SYN, sg_fin = has flags TCP_FLAG_FIN,
                    sg_rst = has flags TCP_FLAG_RST, sg_psh = has flags TCP_FLAG_PSH,
                    sg_ack = has flags TCP_FLAG_ACK, sg_window = win,
                    sg_opts = [TCP_OPT_NOP, TCP_OPT_NOP, TCP_OPT_TIMESTAMP, TCP_OPT_TIMESTAMP_LEN]
                      @ st32 (htonl cur_ts) @ st32 (htonl echo_ts) @ replicate (optlen - 12) 0,
                    sg_data = payload\<rparr>
          in Some (uint (sent_len sg), raw_callbacks cfg sg (put_wire sg m))))"

text \<open>What a segment of a stream says.  A request for a window advertisement repeats the last byte's number.\<close>

definition send_fin :: "u8 \<Rightarrow> bool" where
  "send_fin flags \<longleftrightarrow> \<not> has flags TCP_FLAG_WACK \<and> has flags TCP_FLAG_FIN"

definition send_seq :: "u8 \<Rightarrow> tcp_stream \<Rightarrow> u32" where
  "send_seq flags t =
     (if has flags TCP_FLAG_WACK then snd_nxt t - 1
      else if has flags TCP_FLAG_FIN then fss (sndvar t)
      else snd_nxt t)"

definition send_window :: "u8 \<Rightarrow> tcp_stream \<Rightarrow> u32" where
  "send_window flags t =
     drop_bit (if has flags TCP_FLAG_SYN then 0 else unat (wscale_mine (sndvar t))) (rcv_wnd (rcvvar t))"

definition stream_segment :: "u32 \<Rightarrow> u8 \<Rightarrow> u8 list \<Rightarrow> tcp_stream \<Rightarrow> segment" where
  "stream_segment cur_ts flags payload t =
     \<lparr>sg_saddr = saddr t, sg_daddr = daddr t, sg_source = sport t, sg_dest = dport t,
      sg_seq = send_seq flags t,
      sg_ack_seq = (if has flags TCP_FLAG_ACK then rcv_nxt t else 0),
      sg_syn = has flags TCP_FLAG_SYN, sg_fin = send_fin flags,
      sg_rst = has flags TCP_FLAG_RST, sg_psh = has flags TCP_FLAG_PSH,
      sg_ack = has flags TCP_FLAG_ACK,
      sg_window = ucast (min (send_window flags t) TCP_MAX_WINDOW),
      sg_opts = GenerateTCPOptions t cur_ts flags,
      sg_data = payload\<rparr>"

text \<open>\<open>FillPacketContextTCPInfo\<close> on the outgoing packet.\<close>

definition FillPacketContextTCPInfo :: "u32 \<Rightarrow> u16 \<Rightarrow> segment \<Rightarrow> pkt_ctx" where
  "FillPacketContextTCPInfo cur_ts ipid sg =
     \<lparr>p_cur_ts = cur_ts, p_seq = sg_seq sg, p_ack_seq = sg_ack_seq sg, p_window = sg_window sg,
      p_payload = sg_data sg, p_saddr = sg_saddr sg, p_daddr = sg_daddr sg, p_ip_id = ipid,
      p_tcph = \<lparr>th_source = sg_source sg, th_dest = sg_dest sg, th_ack_seq = htonl (sg_ack_seq sg),
                th_syn = sg_syn sg, th_fin = sg_fin sg, th_rst = sg_rst sg, th_psh = sg_psh sg,
                th_ack = sg_ack sg, th_opts = sg_opts sg\<rparr>\<rparr>"

definition sent_ack :: "u32 \<Rightarrow> ref \<Rightarrow> mtcp_manager \<Rightarrow> mtcp_manager" where
  "sent_ack cur_ts s m =
     UpdateTimeoutList s (mod_strm s (\<lambda>t. (mod_snd (\<lambda>v. v\<lparr>ts_lastack_sent := cur_ts\<rparr>) t)\<lparr>last_active_ts := cur_ts\<rparr>) m)"

definition sent_note :: "u8 \<Rightarrow> segment \<Rightarrow> tcp_stream \<Rightarrow> tcp_stream" where
  "sent_note flags sg t =
     (let w = send_window flags t;
          t = (if send_fin flags then mod_snd (\<lambda>v. v\<lparr>is_fin_sent := True\<rparr>) t else t);
          t = (if w = 0 then t\<lparr>need_wnd_adv := True\<rparr> else t)
      in t\<lparr>snd_nxt := snd_nxt t + of_nat (length (sg_data sg)) + (if sg_syn sg \<or> sg_fin sg then 1 else 0)\<rparr>)"

definition sent_timer :: "u32 \<Rightarrow> u16 \<Rightarrow> ref \<Rightarrow> mtcp_manager \<Rightarrow> mtcp_manager" where
  "sent_timer cur_ts n s m =
     (if n > 0 then AddtoRTOList s (mod_strm s (mod_snd (\<lambda>v. v\<lparr>ts_rto := cur_ts + rto v\<rparr>)) m) else m)"

definition monitor_sent :: "mos_config \<Rightarrow> ref \<Rightarrow> u32 \<Rightarrow> u16 \<Rightarrow> segment \<Rightarrow> mtcp_manager \<Rightarrow> mtcp_manager option" where
  "monitor_sent cfg s cur_ts ipid sg m =
     (if num_msp m \<noteq> 0 then
        (case pair_stream (strm m s) of
           None \<Rightarrow> Some m
         | Some r \<Rightarrow> UpdateMonitor cfg s (Some r) (FillPacketContextTCPInfo cur_ts ipid sg) False m)
      else Some m)"

definition SendTCPPacket ::
  "mos_config \<Rightarrow> ref \<Rightarrow> u32 \<Rightarrow> u8 \<Rightarrow> u8 list \<Rightarrow> mtcp_manager \<Rightarrow> (int \<times> mtcp_manager) option" where
  "SendTCPPacket cfg s cur_ts flags payload m =
     (if length payload > unat (mss (sndvar (strm m s))) + unat (CalculateOptionLength flags) then Some (-1, m)
      else (case IPOutput cfg s m of
        (None, m) \<Rightarrow> Some (-2, m)
      | (Some ipid, m) \<Rightarrow>
          let sg = stream_segment cur_ts flags payload (strm m s);
              m = (if has flags TCP_FLAG_ACK then sent_ack cur_ts s m else m);
              m = sent_timer cur_ts (sent_len sg) s (mod_strm s (sent_note flags sg) m);
              m = raw_callbacks cfg sg (put_wire sg m)
          in map_option (\<lambda>m. (uint (sent_len sg), m)) (monitor_sent cfg s cur_ts ipid sg m)))"

section \<open>Flushing the send buffer\<close>

definition TS_TO_MSEC :: "u32 \<Rightarrow> u32" where "TS_TO_MSEC t = t * 1000 div 1000"

text \<open>
  One round: how many bytes the next segment carries (0: stop), from what is buffered, the
  room in a segment and what is left of the window.  The lengths are 16 bits wide.
\<close>

definition flush_len :: "u32 \<Rightarrow> u32 \<Rightarrow> u32 \<Rightarrow> u16" where
  "flush_len maxlen win buffered =
     (let len = (if buffered > maxlen then ucast maxlen else ucast buffered :: u16)
      in if ucast len > win then ucast win else len)"

definition flush_full :: "mos_config \<Rightarrow> ref \<Rightarrow> u32 \<Rightarrow> u32 \<Rightarrow> mtcp_manager \<Rightarrow> mtcp_manager" where
  "flush_full cfg s cur_ts need m =
     (let v = sndvar (strm m s) in
      if need > peer_wnd v \<and> TS_TO_MSEC (cur_ts - ts_lastack_sent v) > 500
      then EnqueueACK cfg s ACK_OPT_WACK m else m)"

lemma flush_len_le: "flush_len maxlen win buffered \<noteq> 0 \<Longrightarrow>
    0 < unat (flush_len maxlen win buffered) \<and> unat (flush_len maxlen win buffered) \<le> unat win"
proof -
  have "unat (ucast win :: u16) \<le> unat win" for win :: u32
    by (simp add: unsigned_ucast_eq take_bit_eq_mod)
  then show "flush_len maxlen win buffered \<noteq> 0 \<Longrightarrow>
    0 < unat (flush_len maxlen win buffered) \<and> unat (flush_len maxlen win buffered) \<le> unat win"
    by (auto simp: flush_len_def Let_def word_less_nat_alt unat_gt_0 unsigned_ucast_eq take_bit_eq_mod split: if_splits)
qed

text \<open>\<open>wack_sent\<close> is only set when the loop is left, so the test of it always succeeds.\<close>

function flush_loop :: "mos_config \<Rightarrow> ref \<Rightarrow> u32 \<Rightarrow> u32 \<Rightarrow> u32 \<Rightarrow> int \<Rightarrow> mtcp_manager \<Rightarrow> (int \<times> mtcp_manager) option" where
  "flush_loop cfg s cur_ts maxlen win packets m =
     (case sndbuf (sndvar (strm m s)) of
        None \<Rightarrow> None
      | Some b \<Rightarrow>
          let seq = snd_nxt (strm m s); una = snd_una (sndvar (strm m s));
              off = seq - sb_head_seq b;
              buffered = sb_head_seq b + sb_len b - seq;
              len = flush_len maxlen win buffered;
              start = sb_head b + unat off
          in if TCP_SEQ_LT seq (sb_head_seq b) then None
             else if buffered = 0 \<or> len = 0 then Some (packets, m)
             else if seq - una + ucast len > win
             then Some (-3, flush_full cfg s cur_ts (seq - una + ucast len) m)
             else if start + unat len > length (sb_data b) then None
             else (case SendTCPPacket cfg s cur_ts TCP_FLAG_ACK (take (unat len) (drop start (sb_data b))) m of
                     None \<Rightarrow> None
                   | Some (ret, m) \<Rightarrow>
                       let sndlen = sint (word_of_int ret :: u16)
                       in if sndlen < 0 then Some (sndlen, m)
                          else flush_loop cfg s cur_ts maxlen (win - ucast len) (packets + 1) m))"
  by pat_completeness auto
termination
proof (relation "measure (\<lambda>(cfg, s, cur_ts, maxlen, win, packets, m). unat win)", goal_cases)
  case (2 cfg s cur_ts maxlen win packets m b seq una off buffered len)
  then have "len \<noteq> 0" "len = flush_len maxlen win buffered" by simp_all
  then have l: "0 < unat len" "unat len \<le> unat win" using flush_len_le by auto
  have "unat len < 2 ^ 16" using unsigned_less[of len, where ?'a = nat] by simp
  then have "unat (ucast len :: u32) = unat len"
    by (simp add: unsigned_ucast_eq take_bit_eq_mod)
  then have "unat (win - ucast len) = unat win - unat len"
    using l(2) by (simp add: unat_sub word_le_nat_alt)
  then show ?case using l by simp
qed simp

declare flush_loop.simps [simp del]

definition FlushTCPSendingBuffer :: "mos_config \<Rightarrow> ref \<Rightarrow> u32 \<Rightarrow> mtcp_manager \<Rightarrow> (int \<times> mtcp_manager) option" where
  "FlushTCPSendingBuffer cfg s cur_ts m =
     (let v = sndvar (strm m s);
          maxlen = word_of_int (uint (mss v) - uint (CalculateOptionLength TCP_FLAG_ACK)) :: u32
      in case sndbuf v of
           None \<Rightarrow> None
         | Some b \<Rightarrow>
             if sb_len b = 0 then Some (0, m)
             else flush_loop cfg s cur_ts maxlen (min (cwnd v) (peer_wnd v)) 0 m)"

section \<open>The control packet of a state\<close>

text \<open>
  The flags a state sends, \<open>None\<close> where it sends no control packet.  The case of
  \<open>TCP_ST_CLOSING\<close> has no \<open>break\<close>: it computes its flags and falls through to the
  reset.
\<close>

datatype control = Flags u8 | Unsent_first u8 | Reset_and_destroy

fun control_of_state :: "tcp_state \<Rightarrow> control option" where
  "control_of_state TCP_ST_SYN_SENT = Some (Flags TCP_FLAG_SYN)"
| "control_of_state TCP_ST_SYN_RCVD = Some (Flags (TCP_FLAG_SYN OR TCP_FLAG_ACK))"
| "control_of_state TCP_ST_ESTABLISHED = Some (Flags TCP_FLAG_ACK)"
| "control_of_state TCP_ST_CLOSE_WAIT = Some (Flags TCP_FLAG_ACK)"
| "control_of_state TCP_ST_FIN_WAIT_2 = Some (Flags TCP_FLAG_ACK)"
| "control_of_state TCP_ST_TIME_WAIT = Some (Flags TCP_FLAG_ACK)"
| "control_of_state TCP_ST_LAST_ACK = Some (Unsent_first (TCP_FLAG_FIN OR TCP_FLAG_ACK))"
| "control_of_state TCP_ST_FIN_WAIT_1 = Some (Unsent_first (TCP_FLAG_FIN OR TCP_FLAG_ACK))"
| "control_of_state TCP_ST_CLOSING = Some Reset_and_destroy"
| "control_of_state TCP_ST_CLOSED_RSVD = Some Reset_and_destroy"
| "control_of_state TCP_ST_CLOSED = None"
| "control_of_state TCP_ST_LISTEN = None"

definition send_pending :: "tcp_stream \<Rightarrow> bool" where
  "send_pending t \<longleftrightarrow> on_send_list (sndvar t) \<or> on_ack_list (sndvar t)"

definition send_reset :: "mos_config \<Rightarrow> ref \<Rightarrow> u32 \<Rightarrow> mtcp_manager \<Rightarrow> (int \<times> mtcp_manager) option" where
  "send_reset cfg s cur_ts m =
     (case SendTCPPacket cfg s cur_ts TCP_FLAG_RST [] m of
        None \<Rightarrow> None
      | Some (ret, m) \<Rightarrow>
          if ret \<ge> 0 then map_option (\<lambda>m. (ret, m)) (DestroyTCPStream cfg s m) else Some (ret, m))"

definition SendControlPacket :: "mos_config \<Rightarrow> ref \<Rightarrow> u32 \<Rightarrow> mtcp_manager \<Rightarrow> (int \<times> mtcp_manager) option" where
  "SendControlPacket cfg s cur_ts m =
     (let t = strm m s;
          m = (if state t = TCP_ST_SYN_RCVD then mod_strm s (\<lambda>t. t\<lparr>snd_nxt := iss (sndvar t)\<rparr>) m else m)
      in case control_of_state (state t) of
           None \<Rightarrow> None
         | Some (Flags f) \<Rightarrow> SendTCPPacket cfg s cur_ts f [] m
         | Some (Unsent_first f) \<Rightarrow>
             if send_pending t then Some (-1, m) else SendTCPPacket cfg s cur_ts f [] m
         | Some Reset_and_destroy \<Rightarrow>
             if send_pending t then Some (-1, m) else send_reset cfg s cur_ts m)"

text \<open>
  The source reads the flag of the stream after the packet was sent, also when sending it
  has destroyed the stream; the chunk then still holds the flag the destruction left.
\<close>

definition AddtoControlList :: "mos_config \<Rightarrow> ref \<Rightarrow> u32 \<Rightarrow> mtcp_manager \<Rightarrow> mtcp_manager option" where
  "AddtoControlList cfg s cur_ts m =
     (case GetSender cfg (strm m s) of
        None \<Rightarrow> None
      | Some k \<Rightarrow>
          (case SendControlPacket cfg s cur_ts m of
             None \<Rightarrow> None
           | Some (ret, m) \<Rightarrow>
               if ret < 0 then
                 (if \<not> on_control_list (sndvar (strm m s)) \<and> GetSender cfg (strm m s) = None then None
                  else Some (enter_control cfg s m))
               else if on_control_list (sndvar (strm m s)) then
                 Some (mod_sender (Some k)
                   (\<lambda>d. d\<lparr>control_list := remove1 s (control_list d), control_list_cnt := control_list_cnt d - 1\<rparr>)
                   (mod_strm s (mod_snd (\<lambda>v. v\<lparr>on_control_list := False\<rparr>)) m))
               else Some m))"

section \<open>Serving the lists of a sender\<close>

text \<open>
  The three loops share their shape: the successor of a stream is read before it is served,
  at most \<open>thresh\<close> streams are served, and none after the one that was last when the loop
  began.  The result counts one more than were served when the threshold ends the loop.
\<close>

fun tailq_next :: "ref \<Rightarrow> ref list \<Rightarrow> ref option" where
  "tailq_next s (x # y # r) = (if x = s then Some y else tailq_next s (y # r))"
| "tailq_next s _ = None"

fun tailq_first :: "ref list \<Rightarrow> ref option" where
  "tailq_first [] = None" | "tailq_first (x # _) = Some x"

definition tailq_last :: "ref list \<Rightarrow> ref option" where
  "tailq_last q = (if q = [] then None else Some (last q))"

text \<open>Serving one stream says whether to go on.\<close>

type_synonym serve = "ref \<Rightarrow> mtcp_manager \<Rightarrow> (bool \<times> mtcp_manager) option"

fun serve_list :: "serve \<Rightarrow> (mtcp_manager \<Rightarrow> ref list) \<Rightarrow> ref option \<Rightarrow> ref option \<Rightarrow> nat \<Rightarrow> int
    \<Rightarrow> mtcp_manager \<Rightarrow> (int \<times> mtcp_manager) option" where
  "serve_list sv q lst None n cnt m = Some (cnt, m)"
| "serve_list sv q lst (Some s) 0 cnt m = Some (cnt + 1, m)"
| "serve_list sv q lst (Some s) (Suc n) cnt m =
     (let next = tailq_next s (q m) in
      case sv s m of
        None \<Rightarrow> None
      | Some (go_on, m) \<Rightarrow>
          if go_on \<and> Some s \<noteq> lst then serve_list sv q lst next n (cnt + 1) m
          else Some (cnt + 1, m))"

definition write_list :: "serve \<Rightarrow> (mtcp_manager \<Rightarrow> ref list) \<Rightarrow> int \<Rightarrow> mtcp_manager \<Rightarrow> (int \<times> mtcp_manager) option" where
  "write_list sv q thresh m = serve_list sv q (tailq_last (q m)) (tailq_first (q m)) (nat thresh) 0 m"

definition upd_sender :: "nat \<Rightarrow> (mtcp_sender \<Rightarrow> mtcp_sender) \<Rightarrow> mtcp_manager \<Rightarrow> mtcp_manager" where
  "upd_sender k f m = m\<lparr>senders := (senders m)(k := f (senders m k))\<rparr>"

subsection \<open>Control packets\<close>

definition serve_control :: "mos_config \<Rightarrow> nat \<Rightarrow> u32 \<Rightarrow> serve" where
  "serve_control cfg k cur_ts s m =
     (let m = upd_sender k (\<lambda>d. d\<lparr>control_list := remove1 s (control_list d),
                control_list_cnt := control_list_cnt d - 1\<rparr>) m in
      if on_control_list (sndvar (strm m s)) then
        (case SendControlPacket cfg s cur_ts (mod_strm s (mod_snd (\<lambda>v. v\<lparr>on_control_list := False\<rparr>)) m) of
           None \<Rightarrow> None
         | Some (ret, m) \<Rightarrow>
             if ret < 0 then
               Some (False, upd_sender k (\<lambda>d. d\<lparr>control_list := s # control_list d,
                        control_list_cnt := control_list_cnt d + 1\<rparr>)
                      (mod_strm s (mod_snd (\<lambda>v. v\<lparr>on_control_list := True\<rparr>)) m))
             else Some (True, m))
      else Some (True, m))"

definition WriteTCPControlList :: "mos_config \<Rightarrow> nat \<Rightarrow> u32 \<Rightarrow> int \<Rightarrow> mtcp_manager \<Rightarrow> (int \<times> mtcp_manager) option" where
  "WriteTCPControlList cfg k cur_ts thresh m =
     write_list (serve_control cfg k cur_ts) (\<lambda>m. control_list (senders m k))
       (min thresh (control_list_cnt (senders m k))) m"

subsection \<open>Data\<close>

definition send_data :: "mos_config \<Rightarrow> u32 \<Rightarrow> ref \<Rightarrow> mtcp_manager \<Rightarrow> (int \<times> mtcp_manager) option" where
  "send_data cfg cur_ts s m =
     (let t = strm m s in
      if state t = TCP_ST_ESTABLISHED then
        (if on_control_list (sndvar t) then Some (-1, m) else FlushTCPSendingBuffer cfg s cur_ts m)
      else if state t \<in> {TCP_ST_CLOSE_WAIT, TCP_ST_FIN_WAIT_1, TCP_ST_LAST_ACK}
      then FlushTCPSendingBuffer cfg s cur_ts m
      else Some (0, m))"

text \<open>The acknowledgements that went out with the data need no packet of their own.\<close>

definition piggyback :: "int \<Rightarrow> tcp_send_vars \<Rightarrow> tcp_send_vars" where
  "piggyback ret v =
     (if ack_cnt v > 0 then
        (if uint (ack_cnt v) > ret then v\<lparr>ack_cnt := ack_cnt v - word_of_int ret\<rparr> else v\<lparr>ack_cnt := 0\<rparr>)
      else v)"

definition control_waiting :: "mos_config \<Rightarrow> (tcp_send_vars \<Rightarrow> bool) \<Rightarrow> u32 \<Rightarrow> ref \<Rightarrow> mtcp_manager \<Rightarrow> mtcp_manager option" where
  "control_waiting cfg busy cur_ts s m =
     (if control_list_waiting (strm m s) \<and> \<not> busy (sndvar (strm m s))
      then AddtoControlList cfg s cur_ts (mod_strm s (\<lambda>t. t\<lparr>control_list_waiting := False\<rparr>) m)
      else Some m)"

definition serve_data :: "mos_config \<Rightarrow> nat \<Rightarrow> u32 \<Rightarrow> serve" where
  "serve_data cfg k cur_ts s m =
     (let m = upd_sender k (\<lambda>d. d\<lparr>send_list := remove1 s (send_list d)\<rparr>) m in
      if on_send_list (sndvar (strm m s)) then
        (case send_data cfg cur_ts s m of
           None \<Rightarrow> None
         | Some (ret, m) \<Rightarrow>
             if ret < 0 then Some (False, upd_sender k (\<lambda>d. d\<lparr>send_list := send_list d @ [s]\<rparr>) m)
             else
               (let m = mod_strm s (mod_snd (\<lambda>v. v\<lparr>on_send_list := False\<rparr>)) m;
                    m = upd_sender k (\<lambda>d. d\<lparr>send_list_cnt := send_list_cnt d - 1\<rparr>) m;
                    m = mod_strm s (mod_snd (piggyback ret)) m
                in map_option (\<lambda>m. (True, m)) (control_waiting cfg on_ack_list cur_ts s m)))
      else Some (True, m))"

definition WriteTCPDataList :: "mos_config \<Rightarrow> nat \<Rightarrow> u32 \<Rightarrow> int \<Rightarrow> mtcp_manager \<Rightarrow> (int \<times> mtcp_manager) option" where
  "WriteTCPDataList cfg k cur_ts thresh m =
     write_list (serve_data cfg k cur_ts) (\<lambda>m. send_list (senders m k)) thresh m"

subsection \<open>Acknowledgements\<close>

definition ack_states :: "tcp_state set" where
  "ack_states = {TCP_ST_ESTABLISHED, TCP_ST_CLOSE_WAIT, TCP_ST_FIN_WAIT_1, TCP_ST_FIN_WAIT_2, TCP_ST_TIME_WAIT}"

definition to_ack :: "tcp_stream \<Rightarrow> bool" where
  "to_ack t \<longleftrightarrow> state t \<in> ack_states \<and>
     (case rcvbuf (rcvvar t) of
        None \<Rightarrow> False
      | Some rb \<Rightarrow> TCP_SEQ_LEQ (rcv_nxt t) (irs (rcvvar t) + 1 + word_of_int (rb_pile rb) + word_of_int (tcprb_cflen rb)))"

partial_function (option) send_acks :: "mos_config \<Rightarrow> u32 \<Rightarrow> ref \<Rightarrow> mtcp_manager \<Rightarrow> mtcp_manager option" where
  "send_acks cfg cur_ts s m =
     (if ack_cnt (sndvar (strm m s)) > 0 then
        (case SendTCPPacket cfg s cur_ts TCP_FLAG_ACK [] m of
           None \<Rightarrow> None
         | Some (ret, m) \<Rightarrow>
             if ret < 0 then Some m
             else send_acks cfg cur_ts s (mod_strm s (mod_snd (\<lambda>v. v\<lparr>ack_cnt := ack_cnt v - 1\<rparr>)) m))
      else Some m)"

definition send_wack :: "mos_config \<Rightarrow> u32 \<Rightarrow> ref \<Rightarrow> mtcp_manager \<Rightarrow> mtcp_manager option" where
  "send_wack cfg cur_ts s m =
     (if is_wack (sndvar (strm m s)) then
        (case SendTCPPacket cfg s cur_ts (TCP_FLAG_ACK OR TCP_FLAG_WACK) []
                (mod_strm s (mod_snd (\<lambda>v. v\<lparr>is_wack := False\<rparr>)) m) of
           None \<Rightarrow> None
         | Some (ret, m) \<Rightarrow> Some (if ret < 0 then mod_strm s (mod_snd (\<lambda>v. v\<lparr>is_wack := True\<rparr>)) m else m))
      else Some m)"

definition leave_acks :: "nat \<Rightarrow> ref \<Rightarrow> mtcp_manager \<Rightarrow> mtcp_manager" where
  "leave_acks k s m =
     upd_sender k (\<lambda>d. d\<lparr>ack_list := remove1 s (ack_list d), ack_list_cnt := ack_list_cnt d - 1\<rparr>) m"

definition serve_ack :: "mos_config \<Rightarrow> nat \<Rightarrow> u32 \<Rightarrow> serve" where
  "serve_ack cfg k cur_ts s m =
     (if on_ack_list (sndvar (strm m s)) then do {
        m \<leftarrow> (if to_ack (strm m s) then do {
                m \<leftarrow> send_acks cfg cur_ts s m;
                m \<leftarrow> send_wack cfg cur_ts s m;
                Some (if \<not> (ack_cnt (sndvar (strm m s)) \<noteq> 0 \<or> is_wack (sndvar (strm m s)))
                      then leave_acks k s (mod_strm s (mod_snd (\<lambda>v. v\<lparr>on_ack_list := False\<rparr>)) m)
                      else m)
              }
              else Some (leave_acks k s (mod_strm s (mod_snd (\<lambda>v. v\<lparr>on_ack_list := False, ack_cnt := 0, is_wack := False\<rparr>)) m)));
        m \<leftarrow> control_waiting cfg on_send_list cur_ts s m;
        Some (True, m)
      }
      else Some (True, leave_acks k s m))"

definition WriteTCPACKList :: "mos_config \<Rightarrow> nat \<Rightarrow> u32 \<Rightarrow> int \<Rightarrow> mtcp_manager \<Rightarrow> (int \<times> mtcp_manager) option" where
  "WriteTCPACKList cfg k cur_ts thresh m =
     write_list (serve_ack cfg k cur_ts) (\<lambda>m. ack_list (senders m k)) thresh m"

subsection \<open>All senders\<close>

definition write_sender :: "mos_config \<Rightarrow> u32 \<Rightarrow> nat \<Rightarrow> mtcp_manager \<Rightarrow> mtcp_manager option" where
  "write_sender cfg cur_ts k m = do {
     let thresh = max_concurrency cfg;
     m \<leftarrow> (if control_list_cnt (senders m k) \<noteq> 0 then map_option snd (WriteTCPControlList cfg k cur_ts thresh m) else Some m);
     m \<leftarrow> (if ack_list_cnt (senders m k) \<noteq> 0 then map_option snd (WriteTCPACKList cfg k cur_ts thresh m) else Some m);
     (if send_list_cnt (senders m k) \<noteq> 0 then map_option snd (WriteTCPDataList cfg k cur_ts thresh m) else Some m)
   }"

fun write_senders :: "mos_config \<Rightarrow> u32 \<Rightarrow> nat list \<Rightarrow> mtcp_manager \<Rightarrow> mtcp_manager option" where
  "write_senders cfg cur_ts [] m = Some m"
| "write_senders cfg cur_ts (k # ks) m = do {
     m \<leftarrow> write_sender cfg cur_ts k m;
     write_senders cfg cur_ts ks m
   }"

definition WritePacketsToChunks :: "mos_config \<Rightarrow> u32 \<Rightarrow> mtcp_manager \<Rightarrow> mtcp_manager option" where
  "WritePacketsToChunks cfg cur_ts m = write_senders cfg cur_ts [0..<Suc (length (netdev_ips cfg))] m"

section \<open>After a received packet\<close>

definition action_reset :: "mos_config \<Rightarrow> ref \<Rightarrow> pkt_ctx \<Rightarrow> mtcp_manager \<Rightarrow> mtcp_manager option" where
  "action_reset cfg s p m =
     (let early = state (strm m s) \<le> TCP_ST_SYN_SENT
      in map_option snd (SendTCPPacketStandalone cfg (p_daddr p) (th_dest (p_tcph p)) (p_saddr p) (th_source (p_tcph p))
           (if early then 0 else p_ack_seq p) (if early then p_seq p + 1 else 0) 0
           (TCP_FLAG_RST OR TCP_FLAG_ACK) [] (p_cur_ts p) 0 m))"

definition do_action :: "mos_config \<Rightarrow> ref \<Rightarrow> pkt_ctx \<Rightarrow> u32 \<Rightarrow> mtcp_manager \<Rightarrow> mtcp_manager option" where
  "do_action cfg s p a m =
     (if actions (strm m s) AND a = 0 then Some m
      else if a = MOS_ACT_SEND_DATA then
        (if GetSender cfg (strm m s) = None \<or> sndbuf (sndvar (strm m s)) = None then None
         else Some (AddtoSendList cfg s m))
      else if a = MOS_ACT_SEND_ACK_NOW then
        (if GetSender cfg (strm m s) = None then None else Some (EnqueueACK cfg s ACK_OPT_NOW m))
      else if a = MOS_ACT_SEND_ACK_AGG then
        (if GetSender cfg (strm m s) = None then None else Some (EnqueueACK cfg s ACK_OPT_AGGREGATE m))
      else if a = MOS_ACT_SEND_CONTROL then AddtoControlList cfg s (p_cur_ts p) m
      else if a = MOS_ACT_SEND_RST then action_reset cfg s p m
      else if a = MOS_ACT_DESTROY then DestroyTCPStream cfg s m
      else Some m)"

text \<open>The bits from \<open>1\<close> up to \<open>MOS_ACT_CNT\<close>, in order; the flags are read again for each.\<close>

definition action_bits :: "u32 list" where
  "action_bits = [0x01, 0x02, 0x04, 0x08, 0x10, 0x20, 0x40, 0x80]"

fun do_actions :: "mos_config \<Rightarrow> ref \<Rightarrow> pkt_ctx \<Rightarrow> u32 list \<Rightarrow> mtcp_manager \<Rightarrow> mtcp_manager option" where
  "do_actions cfg s p [] m = Some m"
| "do_actions cfg s p (a # as) m = do {
     m \<leftarrow> do_action cfg s p a m;
     do_actions cfg s p as m
   }"

definition DoActionEndTCPPacket :: "mos_config \<Rightarrow> ref \<Rightarrow> pkt_ctx \<Rightarrow> mtcp_manager \<Rightarrow> mtcp_manager option" where
  "DoActionEndTCPPacket cfg s p m =
     map_option (mod_strm s (\<lambda>t. t\<lparr>actions := 0\<rparr>)) (do_actions cfg s p action_bits m)"

end
