(* ===== verification/Tcp_Flush.thy ===== *)
theory Tcp_Flush
  imports Tcp_Send
begin

text \<open>
  What one sent segment changes, and what flushing the send buffer puts on the wire: the
  buffered bytes in order, inside the windows.  The lemmas are for a manager without stream
  monitors; with one, every segment also goes through \<open>UpdateMonitor\<close>.
\<close>

section \<open>The frame of sending\<close>

definition sendless :: "tcp_stream \<Rightarrow> tcp_stream" where
  "sendless t = core (mod_snd (\<lambda>v. v\<lparr>nif_out := 0, ip_id := 0, is_fin_sent := False, ts_lastack_sent := 0\<rparr>)
     (t\<lparr>snd_nxt := 0, need_wnd_adv := False, last_active_ts := 0\<rparr>))"

definition send_rest :: "mtcp_manager \<Rightarrow> mtcp_manager" where
  "send_rest m = m\<lparr>streams := (\<lambda>_. zero_stream), rto_store := rto_store zero_mtcp, rto_list_cnt := 0,
     timeout_list := [], timeout_list_cnt := 0, tx_no := 0, wire := [], cb_trace := []\<rparr>"

definition sending :: "ref \<Rightarrow> mtcp_manager \<Rightarrow> mtcp_manager \<Rightarrow> bool" where
  "sending s m m' \<longleftrightarrow> only s m m' \<and> sendless (strm m' s) = sendless (strm m s) \<and> send_rest m' = send_rest m"

lemma sending_refl [simp]: "sending s m m"
  by (simp add: sending_def)

lemma sending_trans: "sending s m m1 \<Longrightarrow> sending s m1 m2 \<Longrightarrow> sending s m m2"
  using only_trans by (auto simp: sending_def)

lemma send_rest_upd [simp]:
  "send_rest (mod_strm s f m) = send_rest m"
  "send_rest (m\<lparr>tx_no := n\<rparr>) = send_rest m"
  "send_rest (m\<lparr>cb_trace := tr\<rparr>) = send_rest m"
  "send_rest (put_wire sg m) = send_rest m"
  "send_rest (UpdateTimeoutList s m) = send_rest m"
  "send_rest (AddtoRTOList s m) = send_rest m"
  by (simp_all add: send_rest_def mod_strm_def put_wire_def UpdateTimeoutList_def AddtoRTOList_def Let_def mod_rto_list_def)

lemma sendless_fields:
  assumes "sendless t' = sendless t"
  shows "sndbuf (sndvar t') = sndbuf (sndvar t)" and "snd_una (sndvar t') = snd_una (sndvar t)"
    and "cwnd (sndvar t') = cwnd (sndvar t)" and "peer_wnd (sndvar t') = peer_wnd (sndvar t)"
    and "mss (sndvar t') = mss (sndvar t)" and "state t' = state t" and "rcv_nxt t' = rcv_nxt t"
    and "rcvvar t' = (rcvvar t)\<lparr>ts_tw_expire := ts_tw_expire (rcvvar t')\<rparr>"
    and "saddr t' = saddr t" and "daddr t' = daddr t" and "sport t' = sport t" and "dport t' = dport t"
    and "iss (sndvar t') = iss (sndvar t)" and "fss (sndvar t') = fss (sndvar t)"
    and "wscale_mine (sndvar t') = wscale_mine (sndvar t)" and "pair_stream t' = pair_stream t"
    and "stream_type t' = stream_type t" and "ack_cnt (sndvar t') = ack_cnt (sndvar t)"
    and "socket t' = socket t" and "actions t' = actions t" and "rto (sndvar t') = rto (sndvar t)"
proof -
  have r: "(rcvvar t')\<lparr>ts_tw_expire := 0\<rparr> = (rcvvar t)\<lparr>ts_tw_expire := 0\<rparr>"
    using arg_cong[OF assms, of rcvvar] by (simp add: sendless_def core_def off_lists_def)
  have "rcvvar t' = ((rcvvar t')\<lparr>ts_tw_expire := 0\<rparr>)\<lparr>ts_tw_expire := ts_tw_expire (rcvvar t')\<rparr>" by simp
  also have "\<dots> = (rcvvar t)\<lparr>ts_tw_expire := ts_tw_expire (rcvvar t')\<rparr>" unfolding r by simp
  finally show "rcvvar t' = (rcvvar t)\<lparr>ts_tw_expire := ts_tw_expire (rcvvar t')\<rparr>" .
qed (insert core_fields[OF assms[unfolded sendless_def]], simp_all)

lemma sendless_upd [simp]:
  "sendless (mod_snd (\<lambda>v. v\<lparr>nif_out := n\<rparr>) t) = sendless t"
  "sendless (mod_snd (\<lambda>v. v\<lparr>ip_id := ip_id v + 1\<rparr>) t) = sendless t"
  "sendless (mod_snd (\<lambda>v. v\<lparr>is_fin_sent := b\<rparr>) t) = sendless t"
  "sendless (mod_snd (\<lambda>v. v\<lparr>ts_lastack_sent := x\<rparr>) t) = sendless t"
  "sendless (mod_snd (\<lambda>v. v\<lparr>ts_rto := x + rto v\<rparr>) t) = sendless t"
  "sendless (t\<lparr>snd_nxt := x\<rparr>) = sendless t"
  "sendless (t\<lparr>need_wnd_adv := b\<rparr>) = sendless t"
  "sendless (t\<lparr>last_active_ts := x\<rparr>) = sendless t"
  "sendless (t\<lparr>on_rto_idx := i\<rparr>) = sendless t"
  "sendless (t\<lparr>on_timeout_list := b\<rparr>) = sendless t"
  by (simp_all add: sendless_def core_def off_lists_def mod_rcv_def mod_snd_def)

lemma sending_mod_strm: "sendless (f (strm m s)) = sendless (strm m s) \<Longrightarrow> sending s m (mod_strm s f m)"
  by (simp add: sending_def)

lemma sendless_sent_note [simp]: "sendless (sent_note flags sg t) = sendless t"
  by (simp add: sent_note_def Let_def)

lemma sending_AddtoRTOList: "sending s m (AddtoRTOList s m)"
  by (simp add: sending_def only_def) (simp add: AddtoRTOList_def Let_def)

lemma sending_UpdateTimeoutList: "sending s m (UpdateTimeoutList s m)"
  by (simp add: sending_def only_def) (simp add: UpdateTimeoutList_def)

lemma raw_callbacks_trace: "\<exists>tr. raw_callbacks cfg sg m = m\<lparr>cb_trace := tr\<rparr>"
proof -
  define f where "f l m = (let k = ml_socket (mlisteners m l) in
        if socktype (msmap m k) = MOS_SOCK_MONITOR_RAW \<and> raw_filter cfg l sg
        then HandleCallback MOS_NULL k MOS_SIDE_BOTH MOS_ON_PKT_IN m else m)" for l m
  have one: "\<exists>tr. f l m = m\<lparr>cb_trace := tr\<rparr>" for l m
  proof (cases "socktype (msmap m (ml_socket (mlisteners m l))) = MOS_SOCK_MONITOR_RAW \<and> raw_filter cfg l sg")
    case True
    then show ?thesis by (auto simp: f_def HandleCallback_def)
  next
    case False
    then have "f l m = m\<lparr>cb_trace := cb_trace m\<rparr>" by (auto simp: f_def)
    then show ?thesis by blast
  qed
  have "\<exists>tr. fold f ws m = m\<lparr>cb_trace := tr\<rparr>" for ws
  proof (induction ws arbitrary: m)
    case Nil
    show ?case by (auto intro: exI[of _ "cb_trace m"])
  next
    case (Cons w ws)
    obtain tr where tr: "f w m = m\<lparr>cb_trace := tr\<rparr>" using one by blast
    obtain tr' where "fold f ws (f w m) = (f w m)\<lparr>cb_trace := tr'\<rparr>" using Cons.IH by blast
    then show ?case by (auto simp: tr)
  qed
  moreover have "raw_callbacks cfg sg m = fold f (monitors m) m"
    unfolding raw_callbacks_def f_def ..
  ultimately show ?thesis by metis
qed

lemma raw_callbacks_frame [simp]:
  "strm (raw_callbacks cfg sg m) s' = strm m s'" "wire (raw_callbacks cfg sg m) = wire m"
  "num_msp (raw_callbacks cfg sg m) = num_msp m" "send_rest (raw_callbacks cfg sg m) = send_rest m"
  "lists_part (raw_callbacks cfg sg m) = lists_part m" "tx_no (raw_callbacks cfg sg m) = tx_no m"
  using raw_callbacks_trace[of cfg sg m] by (auto simp: lists_part_def)

section \<open>One segment\<close>

lemma send_rest_fields:
  assumes "send_rest m' = send_rest m"
  shows "num_msp m' = num_msp m" and "senders m' = senders m" and "bufseg_pool m' = bufseg_pool m"
    and "tcp_flow_table m' = tcp_flow_table m" and "timewait_list m' = timewait_list m"
    and "listener m' = listener m" and "smap m' = smap m" and "monitors m' = monitors m"
  using arg_cong[OF assms, of num_msp] arg_cong[OF assms, of senders] arg_cong[OF assms, of bufseg_pool]
    arg_cong[OF assms, of tcp_flow_table] arg_cong[OF assms, of timewait_list] arg_cong[OF assms, of listener]
    arg_cong[OF assms, of smap] arg_cong[OF assms, of monitors] by (simp_all add: send_rest_def)

lemmas sendingD = sending_def[THEN iffD1, THEN conjunct1]
  sending_def[THEN iffD1, THEN conjunct2, THEN conjunct1]
  sending_def[THEN iffD1, THEN conjunct2, THEN conjunct2]

lemma wire_upd [simp]:
  "wire (UpdateTimeoutList s m) = wire m" "wire (AddtoRTOList s m) = wire m"
  "wire (put_wire sg m) = wire m @ [sg]" "strm (put_wire sg m) s = strm m s"
  by (simp_all add: UpdateTimeoutList_def AddtoRTOList_def Let_def mod_rto_list_def put_wire_def strm_def)

lemma sending_out_if: "sending s m (mod_strm s (out_if cfg) m)"
  by (rule sending_mod_strm) (simp add: out_if_def split: option.split)

lemma IPOutput_frame:
  assumes "IPOutput cfg s m = (r, m')"
  shows "sending s m m'" and "wire m' = wire m" and "snd_nxt (strm m' s) = snd_nxt (strm m s)"
    and "stream_segment ts flags pl (strm m' s) = stream_segment ts flags pl (strm m s)"
proof -
  define m1 where "m1 = mod_strm s (out_if cfg) m"
  have m1: "sending s m m1" "wire m1 = wire m" by (simp_all add: m1_def sending_out_if)
  have c: "m' = m1 \<or> m' = m1\<lparr>tx_no := tx_no m1 + 1\<rparr>
      \<or> m' = mod_strm s (mod_snd (\<lambda>v. v\<lparr>ip_id := ip_id v + 1\<rparr>)) (m1\<lparr>tx_no := tx_no m1 + 1\<rparr>)"
    using assms unfolding IPOutput_def m1_def[symmetric] get_wptr_def Let_def
    by (auto split: if_splits bool.splits prod.splits)
  have t: "snd_nxt (out_if cfg t) = snd_nxt t" "stream_segment ts flags pl (out_if cfg t) = stream_segment ts flags pl t" for t
    by (simp_all add: out_if_def stream_segment_def send_seq_def send_window_def GenerateTCPOptions_def GenerateTCPTimestamp_def)
  have i: "snd_nxt (mod_snd (\<lambda>v. v\<lparr>ip_id := ip_id v + 1\<rparr>) t) = snd_nxt t"
    "stream_segment ts flags pl (mod_snd (\<lambda>v. v\<lparr>ip_id := ip_id v + 1\<rparr>) t) = stream_segment ts flags pl t" for t
    by (simp_all add: stream_segment_def send_seq_def send_window_def GenerateTCPOptions_def GenerateTCPTimestamp_def)
  have s1: "strm m1 s = out_if cfg (strm m s)" by (simp add: m1_def)
  show "wire m' = wire m" using c m1(2) by auto
  have "sending s m1 m'" using c by (auto simp: sending_def only_def)
  then show "sending s m m'" using m1(1) sending_trans by blast
  show "snd_nxt (strm m' s) = snd_nxt (strm m s)" "stream_segment ts flags pl (strm m' s) = stream_segment ts flags pl (strm m s)"
    using c by (auto simp: s1 t i)
qed

text \<open>Without stream monitors a packet is refused, finds no write buffer, or goes out.\<close>

definition sent :: "u32 \<Rightarrow> u8 \<Rightarrow> u8 list \<Rightarrow> ref \<Rightarrow> mtcp_manager \<Rightarrow> mtcp_manager \<Rightarrow> bool" where
  "sent ts flags pl s m m' \<longleftrightarrow> sending s m m'
     \<and> wire m' = wire m @ [stream_segment ts flags pl (strm m s)]
     \<and> snd_nxt (strm m' s) = snd_nxt (strm m s) + of_nat (length pl)
         + (if has flags TCP_FLAG_SYN \<or> send_fin flags then 1 else 0)"

lemma SendTCPPacket_plain:
  assumes np: "num_msp m = 0"
  obtains (refused) ret m' where "SendTCPPacket cfg s ts flags pl m = Some (ret, m')" "ret \<in> {-1, -2}"
      "sending s m m'" "wire m' = wire m" "snd_nxt (strm m' s) = snd_nxt (strm m s)"
  | (out) m' where "SendTCPPacket cfg s ts flags pl m = Some (uint (sent_len (stream_segment ts flags pl (strm m s))), m')"
      "sent ts flags pl s m m'" "length pl \<le> unat (mss (sndvar (strm m s))) + unat (CalculateOptionLength flags)"
proof (cases "length pl > unat (mss (sndvar (strm m s))) + unat (CalculateOptionLength flags)")
  case True
  then have "SendTCPPacket cfg s ts flags pl m = Some (-1, m)" by (simp add: SendTCPPacket_def)
  then show ?thesis by (rule refused) simp_all
next
  case False
  obtain r m1 where io: "IPOutput cfg s m = (r, m1)" by (metis surj_pair)
  note fr = IPOutput_frame[OF io]
  show ?thesis
  proof (cases r)
    case None
    then have "SendTCPPacket cfg s ts flags pl m = Some (-2, m1)" using False io by (simp add: SendTCPPacket_def)
    then show ?thesis by (rule refused) (use fr in simp_all)
  next
    case (Some ipid)
    define sg where "sg = stream_segment ts flags pl (strm m s)"
    define m2 where "m2 = (if has flags TCP_FLAG_ACK then sent_ack ts s m1 else m1)"
    define m3 where "m3 = mod_strm s (sent_note flags sg) m2"
    define m4 where "m4 = sent_timer ts (sent_len sg) s m3"
    define m5 where "m5 = raw_callbacks cfg sg (put_wire sg m4)"
    have m2: "sending s m1 m2" "wire m2 = wire m1" "snd_nxt (strm m2 s) = snd_nxt (strm m1 s)"
    proof -
      define x where "x = mod_strm s (\<lambda>t. (mod_snd (\<lambda>v. v\<lparr>ts_lastack_sent := ts\<rparr>) t)\<lparr>last_active_ts := ts\<rparr>) m1"
      have "sending s m1 x" unfolding x_def by (rule sending_mod_strm) simp
      moreover have "strm (UpdateTimeoutList s x) s = strm x s" by (simp add: UpdateTimeoutList_def)
      moreover have "sent_ack ts s m1 = UpdateTimeoutList s x" unfolding sent_ack_def x_def ..
      ultimately show "sending s m1 m2" "wire m2 = wire m1" "snd_nxt (strm m2 s) = snd_nxt (strm m1 s)"
        unfolding m2_def using sending_trans[OF _ sending_UpdateTimeoutList[of s x]] by (simp_all add: x_def)
    qed
    have m3: "sending s m2 m3" "wire m3 = wire m2" unfolding m3_def by (rule sending_mod_strm) simp_all
    have nx: "snd_nxt (strm m3 s) = snd_nxt (strm m s) + of_nat (length pl)
         + (if has flags TCP_FLAG_SYN \<or> send_fin flags then 1 else 0)"
      using m2(3) fr(3) by (simp add: m3_def sent_note_def Let_def sg_def stream_segment_def)
    have m4: "sending s m3 m4" "wire m4 = wire m3" "snd_nxt (strm m4 s) = snd_nxt (strm m3 s)"
    proof -
      define x where "x = mod_strm s (mod_snd (\<lambda>v. v\<lparr>ts_rto := ts + rto v\<rparr>)) m3"
      have "sending s m3 x" unfolding x_def by (rule sending_mod_strm) simp
      moreover have "snd_nxt (strm (AddtoRTOList s x) s) = snd_nxt (strm x s)"
        using timed_fields(24)[OF timed_moved[OF moved_AddtoRTOList]] .
      ultimately show "sending s m3 m4" "wire m4 = wire m3" "snd_nxt (strm m4 s) = snd_nxt (strm m3 s)"
        unfolding m4_def sent_timer_def x_def[symmetric]
        using sending_trans[OF _ sending_AddtoRTOList[of s x]] by (simp_all add: x_def)
    qed
    have m5: "sending s m4 m5" "wire m5 = wire m4 @ [sg]" "snd_nxt (strm m5 s) = snd_nxt (strm m4 s)"
      by (simp_all add: m5_def sending_def only_def)
    have se: "sending s m m5" using fr(1) m2(1) m3(1) m4(1) m5(1) sending_trans by blast
    then have "num_msp m5 = 0" using np send_rest_fields(1)[OF sendingD(3)] by simp
    then have "SendTCPPacket cfg s ts flags pl m = Some (uint (sent_len sg), m5)"
      using False io Some fr(4)[of ts flags pl]
      unfolding SendTCPPacket_def m5_def m4_def m3_def m2_def by (simp add: Let_def sg_def monitor_sent_def)
    moreover have "sent ts flags pl s m m5"
      unfolding sent_def using se fr(2) m2(2) m3(2) m4(2,3) m5(2,3) nx sg_def by simp
    ultimately show ?thesis using False unfolding sg_def by (intro out) simp_all
  qed
qed

section \<open>Flushing\<close>

definition bytes_of :: "segment list \<Rightarrow> u8 list" where
  "bytes_of segs = concat (map sg_data segs)"

lemma bytes_of_simps [simp]: "bytes_of [] = []" "bytes_of (sg # segs) = sg_data sg @ bytes_of segs"
  "bytes_of (segs @ segs') = bytes_of segs @ bytes_of segs'"
  by (simp_all add: bytes_of_def)

fun consecutive :: "u32 \<Rightarrow> segment list \<Rightarrow> bool" where
  "consecutive seq [] = True"
| "consecutive seq (sg # segs) = (sg_seq sg = seq \<and> consecutive (seq + of_nat (length (sg_data sg))) segs)"

text \<open>The source takes each segment off the window and also counts it as in flight.\<close>

fun within :: "nat \<Rightarrow> nat \<Rightarrow> segment list \<Rightarrow> bool" where
  "within flight win [] = True"
| "within flight win (sg # segs) =
     (flight + length (sg_data sg) \<le> win \<and> within (flight + length (sg_data sg)) (win - length (sg_data sg)) segs)"

definition data_segment :: "tcp_stream \<Rightarrow> segment \<Rightarrow> bool" where
  "data_segment t sg \<longleftrightarrow> sg_ack sg \<and> \<not> sg_syn sg \<and> \<not> sg_fin sg \<and> \<not> sg_rst sg \<and> sg_ack_seq sg = rcv_nxt t
     \<and> (sg_saddr sg, sg_source sg, sg_daddr sg, sg_dest sg) = (saddr t, sport t, daddr t, dport t)
     \<and> 0 < length (sg_data sg) \<and> length (sg_data sg) \<le> unat (mss (sndvar t)) - 12"

definition flush_out :: "tcp_send_buffer \<Rightarrow> u32 \<Rightarrow> ref \<Rightarrow> mtcp_manager \<Rightarrow> mtcp_manager \<Rightarrow> segment list \<Rightarrow> bool" where
  "flush_out b win s m m' segs \<longleftrightarrow> wire m' = wire m @ segs
     \<and> consecutive (snd_nxt (strm m s)) segs
     \<and> (\<exists>rest. drop (unat (snd_nxt (strm m s) - sb_head_seq b)) (sb_bytes b) = bytes_of segs @ rest)
     \<and> (\<forall>sg \<in> set segs. data_segment (strm m s) sg)
     \<and> within (unat (snd_nxt (strm m s) - snd_una (sndvar (strm m s)))) (unat win) segs
     \<and> snd_nxt (strm m' s) = snd_nxt (strm m s) + of_nat (length (bytes_of segs))
     \<and> only s m m' \<and> sndbuf (sndvar (strm m' s)) = sndbuf (sndvar (strm m s))"

lemma flush_out_none: "only s m m' \<Longrightarrow> wire m' = wire m \<Longrightarrow> snd_nxt (strm m' s) = snd_nxt (strm m s) \<Longrightarrow>
    sndbuf (sndvar (strm m' s)) = sndbuf (sndvar (strm m s)) \<Longrightarrow> flush_out b win s m m' []"
  by (simp add: flush_out_def)

lemma flush_full_frame:
  "only s m (flush_full cfg s ts need m)" "wire (flush_full cfg s ts need m) = wire m"
  "snd_nxt (strm (flush_full cfg s ts need m) s) = snd_nxt (strm m s)"
  "sndbuf (sndvar (strm (flush_full cfg s ts need m) s)) = sndbuf (sndvar (strm m s))"
  by (simp_all add: flush_full_def Let_def EnqueueACK_def AddtoACKList_def only_def strm_mod mod_sender_def split: option.split)

lemma unat_ucast16: "unat (ucast (x :: u16) :: u32) = unat x"
proof -
  have "unat x < 2 ^ 16" using unsigned_less[of x, where ?'a = nat] by simp
  then show ?thesis by (simp add: unsigned_ucast_eq take_bit_eq_mod)
qed

text \<open>The length of one segment, when the room in a segment fits 16 bits.\<close>

lemma flush_len_min:
  assumes "unat maxlen < 2 ^ 16"
  shows "unat (flush_len maxlen win buffered) = min (min (unat maxlen) (unat buffered)) (unat win)"
proof -
  have u: "unat (ucast x :: u16) = unat x" if "unat x < 2 ^ 16" for x :: u32
    using that by (simp add: unsigned_ucast_eq take_bit_eq_mod)
  define len where "len = (if buffered > maxlen then ucast maxlen else ucast buffered :: u16)"
  have l: "unat len = min (unat maxlen) (unat buffered)"
    using assms by (auto simp: len_def word_less_nat_alt u min_def)
  have f: "flush_len maxlen win buffered = (if ucast len > win then ucast win else len)"
    by (simp add: flush_len_def Let_def len_def)
  show ?thesis
  proof (cases "ucast len > win")
    case True
    then have "unat win < unat len" by (simp add: word_less_nat_alt unat_ucast16)
    moreover have "unat len < 2 ^ 16" using unsigned_less[of len, where ?'a = nat] by simp
    ultimately have "unat (ucast win :: u16) = unat win" "unat win < unat len" by (simp_all add: u)
    then show ?thesis unfolding f using True l by simp
  next
    case False
    then have "unat len \<le> unat win" by (simp add: word_less_nat_alt unat_ucast16)
    then show ?thesis unfolding f using False l by simp
  qed
qed

text \<open>What the loop needs of the stream: the next byte to send is in the buffer.\<close>

definition flushable :: "tcp_send_buffer \<Rightarrow> tcp_stream \<Rightarrow> bool" where
  "flushable b t \<longleftrightarrow> sndbuf (sndvar t) = Some b \<and> sb_inv b \<and> 12 \<le> unat (mss (sndvar t))
     \<and> unat (snd_nxt t - sb_head_seq b) \<le> unat (sb_len b)
     \<and> unat (snd_nxt t - snd_una (sndvar t)) + (unat (sb_len b) - unat (snd_nxt t - sb_head_seq b)) < 2 ^ 32"

lemma flushable_buffered:
  assumes "flushable b t"
  shows "\<not> TCP_SEQ_LT (snd_nxt t) (sb_head_seq b)"
    and "unat (sb_head_seq b + sb_len b - snd_nxt t) = unat (sb_len b) - unat (snd_nxt t - sb_head_seq b)"
    and "sb_head b + unat (sb_len b) \<le> length (sb_data b)"
proof -
  define off where "off = snd_nxt t - sb_head_seq b"
  have off: "unat off \<le> unat (sb_len b)" and inv: "sb_inv b" using assms by (auto simp: flushable_def off_def)
  have "unat (sb_len b) < 2 ^ 31" using inv by (auto simp: sb_inv_def)
  then have "unat off < 2 ^ 31" using off by simp
  then have "int (unat off) < int (2 ^ 31)" by (simp only: of_nat_less_iff)
  then have "uint off < 2 ^ 31" by simp
  have "0 \<le> uint off" by simp
  moreover have "sint off = signed_take_bit 31 (uint off)" by (simp add: sint_uint)
  moreover have "signed_take_bit 31 (uint off) = uint off"
    by (rule signed_take_bit_int_eq_self) (use \<open>uint off < 2 ^ 31\<close> \<open>0 \<le> uint off\<close> in linarith)+
  ultimately have "sint off = uint off" by simp
  then show "\<not> TCP_SEQ_LT (snd_nxt t) (sb_head_seq b)" by (simp add: TCP_SEQ_LT_def off_def)
  have "sb_head_seq b + sb_len b - snd_nxt t = sb_len b - off" by (simp add: off_def)
  moreover have "unat (sb_len b - off) = unat (sb_len b) - unat off" using off by (simp add: unat_sub word_le_nat_alt)
  ultimately show "unat (sb_head_seq b + sb_len b - snd_nxt t) = unat (sb_len b) - unat (snd_nxt t - sb_head_seq b)"
    unfolding off_def by (simp only:)
  show "sb_head b + unat (sb_len b) \<le> length (sb_data b)" using inv by (auto simp: sb_inv_def)
qed

lemma unat_add_less: "unat a + n < 2 ^ 32 \<Longrightarrow> unat (a + of_nat n :: u32) = unat a + n"
  by (simp add: unat_word_ariths unat_of_nat mod_add_right_eq)

lemma flushable_step:
  assumes f: "flushable b t" and n: "n \<le> unat (sb_len b) - unat (snd_nxt t - sb_head_seq b)"
    and t': "sendless t' = sendless t" and nx: "snd_nxt t' = snd_nxt t + of_nat n"
  shows "flushable b t'" and "unat (snd_nxt t' - sb_head_seq b) = unat (snd_nxt t - sb_head_seq b) + n"
    and "unat (snd_nxt t' - snd_una (sndvar t')) = unat (snd_nxt t - snd_una (sndvar t)) + n"
proof -
  note sf = sendless_fields[OF t']
  have off: "unat (snd_nxt t - sb_head_seq b) \<le> unat (sb_len b)"
    and w: "unat (snd_nxt t - snd_una (sndvar t)) + (unat (sb_len b) - unat (snd_nxt t - sb_head_seq b)) < 2 ^ 32"
    using f by (auto simp: flushable_def)
  have "unat (sb_len b) < 2 ^ 32" using unsigned_less[of "sb_len b", where ?'a = nat] by simp
  then have "unat ((snd_nxt t - sb_head_seq b) + of_nat n) = unat (snd_nxt t - sb_head_seq b) + n"
    using off n by (intro unat_add_less) simp
  moreover have "(snd_nxt t - sb_head_seq b) + of_nat n = snd_nxt t' - sb_head_seq b" by (simp add: nx)
  ultimately show a: "unat (snd_nxt t' - sb_head_seq b) = unat (snd_nxt t - sb_head_seq b) + n" by simp
  have "unat ((snd_nxt t - snd_una (sndvar t)) + of_nat n) = unat (snd_nxt t - snd_una (sndvar t)) + n"
    using w n by (intro unat_add_less) simp
  moreover have "(snd_nxt t - snd_una (sndvar t)) + of_nat n = snd_nxt t' - snd_una (sndvar t')" by (simp add: nx sf(2))
  ultimately show c: "unat (snd_nxt t' - snd_una (sndvar t')) = unat (snd_nxt t - snd_una (sndvar t)) + n" by simp
  have "unat (snd_nxt t - snd_una (sndvar t)) + n + (unat (sb_len b) - (unat (snd_nxt t - sb_head_seq b) + n)) < 2 ^ 32"
    "unat (snd_nxt t - sb_head_seq b) + n \<le> unat (sb_len b)" using w n off by linarith+
  then show "flushable b t'" using f unfolding flushable_def a c by (simp add: sf)
qed

lemma flush_out_cons:
  assumes m1: "sent ts TCP_FLAG_ACK pl s m m1" and rest: "flush_out b (win - of_nat (length pl)) s m1 m' segs"
    and f: "flushable b (strm m s)" and pl: "pl = take (length pl) (drop (unat (snd_nxt (strm m s) - sb_head_seq b)) (sb_bytes b))"
    and l: "0 < length pl" "length pl \<le> unat (mss (sndvar (strm m s))) - 12"
      "length pl \<le> unat (sb_len b) - unat (snd_nxt (strm m s) - sb_head_seq b)"
      "unat (snd_nxt (strm m s) - snd_una (sndvar (strm m s))) + length pl \<le> unat win"
  shows "flush_out b win s m m' (stream_segment ts TCP_FLAG_ACK pl (strm m s) # segs)"
proof -
  let ?t = "strm m s" and ?t1 = "strm m1 s"
  define off where "off = unat (snd_nxt ?t - sb_head_seq b)"
  have fl: "\<not> (has TCP_FLAG_ACK TCP_FLAG_SYN \<or> send_fin TCP_FLAG_ACK)" "\<not> has TCP_FLAG_ACK TCP_FLAG_WACK"
    "\<not> has TCP_FLAG_ACK TCP_FLAG_FIN" "has TCP_FLAG_ACK TCP_FLAG_ACK" "\<not> has TCP_FLAG_ACK TCP_FLAG_RST"
    by (simp_all add: has_def send_fin_def tcp_flag_defs)
  have se: "sending s m m1" and w1: "wire m1 = wire m @ [stream_segment ts TCP_FLAG_ACK pl ?t]"
    and nx: "snd_nxt ?t1 = snd_nxt ?t + of_nat (length pl)"
    using m1 fl by (simp_all add: sent_def)
  note st = flushable_step[OF f l(3) sendingD(2)[OF se] nx] and sf = sendless_fields[OF sendingD(2)[OF se]]
  have seg: "sg_seq (stream_segment ts TCP_FLAG_ACK pl ?t) = snd_nxt ?t" "sg_data (stream_segment ts TCP_FLAG_ACK pl ?t) = pl"
    "data_segment ?t (stream_segment ts TCP_FLAG_ACK pl ?t)"
    using l fl by (simp_all add: stream_segment_def send_seq_def data_segment_def send_fin_def)
  have ds: "data_segment ?t1 sg \<longleftrightarrow> data_segment ?t sg" for sg by (simp add: data_segment_def sf)
  have "length pl \<le> unat win" using l(4) by simp
  moreover have "unat win < 2 ^ 32" using unsigned_less[of win, where ?'a = nat] by simp
  ultimately have wn: "unat (win - of_nat (length pl)) = unat win - length pl"
    by (simp add: unat_sub word_le_nat_alt unat_of_nat)
  obtain rest' where r: "drop (off + length pl) (sb_bytes b) = bytes_of segs @ rest'"
    using rest st(2) by (auto simp: flush_out_def off_def)
  have "drop off (sb_bytes b) = take (length pl) (drop off (sb_bytes b)) @ drop (length pl) (drop off (sb_bytes b))"
    by (rule append_take_drop_id[symmetric])
  also have "\<dots> = pl @ (bytes_of segs @ rest')" using pl r by (simp add: off_def add.commute)
  finally have dr: "\<exists>rest. drop off (sb_bytes b) = bytes_of (stream_segment ts TCP_FLAG_ACK pl ?t # segs) @ rest" by (simp add: seg)
  have wi: "within (unat (snd_nxt ?t - snd_una (sndvar ?t)) + length pl) (unat win - length pl) segs"
    using rest unfolding flush_out_def st(3) wn by blast
  show ?thesis
    using rest dr wi sendingD(1)[OF se] only_trans[OF sendingD(1)[OF se]] l(4)
    by (simp add: flush_out_def seg w1 nx ds st(3) wn sf(1) off_def add.assoc)
qed

lemma flush_loop_out:
  assumes "num_msp m = 0" and "flushable b (strm m s)" and mx: "unat maxlen = unat (mss (sndvar (strm m s))) - 12"
  shows "\<exists>ret m' segs. flush_loop cfg s ts maxlen win packets m = Some (ret, m') \<and> flush_out b win s m m' segs
    \<and> (ret < 0 \<or> ret = packets + int (length segs))"
  using assms
proof (induction "unat win" arbitrary: win packets m rule: less_induct)
  case less
  let ?t = "strm m s"
  define seq where "seq = snd_nxt ?t"
  define off where "off = unat (seq - sb_head_seq b)"
  define buffered where "buffered = sb_head_seq b + sb_len b - seq"
  define len where "len = flush_len maxlen win buffered"
  define need where "need = seq - snd_una (sndvar ?t) + ucast len"
  define pl where "pl = take (unat len) (drop (sb_head b + off) (sb_data b))"
  note f = less.prems(2)
  note fb = flushable_buffered[OF f, folded seq_def]
  have fd: "sndbuf (sndvar ?t) = Some b" "off \<le> unat (sb_len b)" "12 \<le> unat (mss (sndvar ?t))"
    "unat (seq - snd_una (sndvar ?t)) + (unat (sb_len b) - off) < 2 ^ 32"
    using f unfolding flushable_def off_def seq_def by blast+
  have "unat maxlen < 2 ^ 16" using less.prems(3) unsigned_less[of "mss (sndvar ?t)", where ?'a = nat] by simp
  then have L: "unat len = min (min (unat maxlen) (unat buffered)) (unat win)"
    unfolding len_def by (rule flush_len_min)
  have bu: "unat buffered = unat (sb_len b) - off" by (simp add: buffered_def off_def fb(2))
  have step: "flush_loop cfg s ts maxlen win packets m =
     (if buffered = 0 \<or> len = 0 then Some (packets, m)
      else if need > win then Some (-3, flush_full cfg s ts need m)
      else if sb_head b + off + unat len > length (sb_data b) then None
      else (case SendTCPPacket cfg s ts TCP_FLAG_ACK pl m of
              None \<Rightarrow> None
            | Some (ret, m) \<Rightarrow>
                if sint (word_of_int ret :: u16) < 0 then Some (sint (word_of_int ret :: u16), m)
                else flush_loop cfg s ts maxlen (win - ucast len) (packets + 1) m))"
    by (subst flush_loop.simps)
      (simp only: fd(1) option.case Let_def need_def pl_def len_def buffered_def off_def seq_def
        fb(1)[unfolded seq_def] if_False)
  consider (stop) "buffered = 0 \<or> len = 0" | (full) "\<not> (buffered = 0 \<or> len = 0)" "need > win"
    | (go) "\<not> (buffered = 0 \<or> len = 0)" "\<not> need > win" by blast
  then show ?case
  proof cases
    case stop
    then have "flush_loop cfg s ts maxlen win packets m = Some (packets, m)" unfolding step by simp
    moreover have "flush_out b win s m m []" by (simp add: flush_out_none)
    ultimately show ?thesis by force
  next
    case full
    then have "flush_loop cfg s ts maxlen win packets m = Some (-3, flush_full cfg s ts need m)" unfolding step by simp
    moreover have "flush_out b win s m (flush_full cfg s ts need m) []"
      by (rule flush_out_none) (rule flush_full_frame)+
    ultimately show ?thesis by force
  next
    case go
    have Lb: "0 < unat len" "unat len \<le> unat (sb_len b) - off" "unat len \<le> unat (mss (sndvar ?t)) - 12"
    proof -
      have "len \<noteq> 0" using go(1) by blast
      then show "0 < unat len" by (simp add: unat_gt_0)
      show "unat len \<le> unat (sb_len b) - off" "unat len \<le> unat (mss (sndvar ?t)) - 12"
        unfolding L bu less.prems(3) by linarith+
    qed
    have "unat need = unat (seq - snd_una (sndvar ?t)) + unat len"
      using unat_add_less[of "seq - snd_una (sndvar ?t)" "unat len"] fd(4) Lb(2) by (simp add: need_def)
    then have inwin: "unat (seq - snd_una (sndvar ?t)) + unat len \<le> unat win"
      using go(2) by (simp add: word_less_nat_alt)
    have mem: "\<not> sb_head b + off + unat len > length (sb_data b)" using fb(3) Lb(2) fd(2) by linarith
    then have lpl: "length pl = unat len" by (simp add: pl_def)
    have "drop off (sb_bytes b) = take (unat (sb_len b) - off) (drop (sb_head b + off) (sb_data b))"
      by (simp add: sb_bytes_def drop_take add.commute)
    then have "take (unat len) (drop off (sb_bytes b)) = pl"
      using Lb(2) by (simp add: pl_def min_def)
    then have plb: "pl = take (length pl) (drop off (sb_bytes b))" unfolding lpl by (rule sym)
    have st: "flush_loop cfg s ts maxlen win packets m =
      (case SendTCPPacket cfg s ts TCP_FLAG_ACK pl m of
              None \<Rightarrow> None
            | Some (ret, m) \<Rightarrow>
                if sint (word_of_int ret :: u16) < 0 then Some (sint (word_of_int ret :: u16), m)
                else flush_loop cfg s ts maxlen (win - ucast len) (packets + 1) m)"
      unfolding step using go mem by simp
    show ?thesis
    proof (rule SendTCPPacket_plain[OF less.prems(1), of cfg s ts TCP_FLAG_ACK pl])
      fix ret m'
      assume r: "SendTCPPacket cfg s ts TCP_FLAG_ACK pl m = Some (ret, m')" "ret \<in> {-1, -2}" and
        m': "sending s m m'" "wire m' = wire m" "snd_nxt (strm m' s) = snd_nxt ?t"
      have "sint (word_of_int ret :: u16) = ret" using r(2) by auto
      then have "flush_loop cfg s ts maxlen win packets m = Some (ret, m')" using st r by auto
      moreover have "flush_out b win s m m' []"
        using m' sendingD(1)[OF m'(1)] sendless_fields(1)[OF sendingD(2)[OF m'(1)]] by (simp add: flush_out_none)
      ultimately show ?thesis using r(2) by force
    next
      fix m1
      let ?ret = "uint (sent_len (stream_segment ts TCP_FLAG_ACK pl ?t))"
      assume r: "SendTCPPacket cfg s ts TCP_FLAG_ACK pl m = Some (?ret, m1)" and m1: "sent ts TCP_FLAG_ACK pl s m m1"
      have se: "sending s m m1" and nx: "snd_nxt (strm m1 s) = snd_nxt ?t + of_nat (length pl)"
        using m1 by (simp_all add: sent_def has_def send_fin_def tcp_flag_defs)
      note sf = sendless_fields[OF sendingD(2)[OF se]]
      have wl: "win - ucast len = win - of_nat (length pl)" by (simp add: lpl)
      have out: "flush_out b win s m m' (stream_segment ts TCP_FLAG_ACK pl ?t # segs)"
        if "flush_out b (win - ucast len) s m1 m' segs" for m' segs
        using flush_out_cons[OF m1 that[unfolded wl] f] plb Lb inwin lpl by (simp add: off_def seq_def)
      show ?thesis
      proof (cases "sint (word_of_int ?ret :: u16) < 0")
        case True
        then have "flush_loop cfg s ts maxlen win packets m = Some (sint (word_of_int ?ret :: u16), m1)" using st r by simp
        moreover have "flush_out b (win - ucast len) s m1 m1 []" by (simp add: flush_out_none)
        ultimately show ?thesis using out True by blast
      next
        case False
        have fl1: "flushable b (strm m1 s)"
          using flushable_step(1)[OF f _ sendingD(2)[OF se] nx] Lb(2) lpl by (simp add: off_def seq_def)
        have "unat (win - ucast len) < unat win"
          using Lb(1) inwin by (simp add: unat_sub word_le_nat_alt unat_ucast16)
        moreover have "num_msp m1 = 0" using less.prems(1) send_rest_fields(1)[OF sendingD(3)[OF se]] by simp
        ultimately obtain ret m' segs where rec: "flush_loop cfg s ts maxlen (win - ucast len) (packets + 1) m1 = Some (ret, m')"
          "flush_out b (win - ucast len) s m1 m' segs" "ret < 0 \<or> ret = packets + 1 + int (length segs)"
          using less.hyps[of "win - ucast len" m1 "packets + 1"] fl1 less.prems(3) sf(5) by auto
        have "flush_loop cfg s ts maxlen win packets m = Some (ret, m')" using st r False rec(1) by simp
        then show ?thesis using out[OF rec(2)] rec(3) by force
      qed
    qed
  qed
qed

lemma within_split:
  "within flight win (pre @ sg # post) \<Longrightarrow> flight + 2 * length (bytes_of pre) + length (sg_data sg) \<le> win"
  by (induction pre arbitrary: flight win) fastforce+

lemma flush_maxlen:
  fixes x :: u16
  assumes "12 \<le> unat x"
  shows "unat (word_of_int (uint x - uint (CalculateOptionLength TCP_FLAG_ACK)) :: u32) = unat x - 12"
proof -
  have o: "uint (CalculateOptionLength TCP_FLAG_ACK) = 12"
    by (simp add: CalculateOptionLength_def tcp_flag_defs TCP_OPT_TIMESTAMP_LEN_def)
  have "uint x = int (unat x)" by simp
  then have "uint x - 12 = int (unat x - 12)" using assms by linarith
  moreover have "unat x < 2 ^ 16" using unsigned_less[of x, where ?'a = nat] by simp
  ultimately show ?thesis unfolding o by (simp add: unat_of_nat)
qed

text \<open>
  C27.  Flushing the send buffer returns, and what it puts on the wire are the buffered
  bytes from \<open>snd_nxt\<close> on, in order, with consecutive sequence numbers, in pure data
  segments of at most \<open>mss\<close> minus 12 bytes; \<open>snd_nxt\<close> moves by what was sent and the
  buffer stays.  No segment passes the smaller of the congestion and the peer's window.  In
  fact each byte sent is charged twice, once as in flight and once against the window, so
  a flush fills only about half of an empty window.
\<close>

theorem flush_window_safe:
  assumes np: "num_msp m = 0" and t: "t = strm m s" and b: "sndbuf (sndvar t) = Some b" and inv: "sb_inv b"
    and mss: "12 \<le> unat (mss (sndvar t))"
    and nxt: "unat (snd_nxt t - sb_head_seq b) \<le> unat (sb_len b)"
    and una: "unat (snd_nxt t - snd_una (sndvar t)) + unat (sb_len b) < 2 ^ 32"
  shows "\<exists>ret m' segs. FlushTCPSendingBuffer cfg s ts m = Some (ret, m') \<and> wire m' = wire m @ segs
    \<and> (ret < 0 \<or> ret = int (length segs))
    \<and> consecutive (snd_nxt t) segs
    \<and> (\<exists>rest. drop (unat (snd_nxt t - sb_head_seq b)) (sb_bytes b) = bytes_of segs @ rest)
    \<and> (\<forall>pre sg post. segs = pre @ sg # post \<longrightarrow> data_segment t sg
         \<and> unat (snd_nxt t - snd_una (sndvar t)) + 2 * length (bytes_of pre) + length (sg_data sg)
             \<le> min (unat (cwnd (sndvar t))) (unat (peer_wnd (sndvar t))))
    \<and> snd_nxt (strm m' s) = snd_nxt t + of_nat (length (bytes_of segs))
    \<and> sndbuf (sndvar (strm m' s)) = Some b \<and> only s m m'"
proof -
  let ?win = "min (cwnd (sndvar t)) (peer_wnd (sndvar t))"
  let ?maxlen = "word_of_int (uint (mss (sndvar t)) - uint (CalculateOptionLength TCP_FLAG_ACK)) :: u32"
  have w: "unat ?win = min (unat (cwnd (sndvar t))) (unat (peer_wnd (sndvar t)))"
    by (simp add: min_def word_le_nat_alt)
  have "flushable b (strm m s)" using assms by (simp add: flushable_def)
  then obtain ret m' segs where l: "flush_loop cfg s ts ?maxlen ?win 0 m = Some (ret, m')"
    "flush_out b ?win s m m' segs" "ret < 0 \<or> ret = int (length segs)"
    using flush_loop_out[OF np, of b s ?maxlen cfg ts ?win 0] flush_maxlen[OF mss] t by auto
  have e: "FlushTCPSendingBuffer cfg s ts m = (if sb_len b = 0 then Some (0, m) else Some (ret, m'))"
    unfolding FlushTCPSendingBuffer_def t[symmetric] Let_def b option.case l(1) ..
  define ret' m2 segs' where "ret' = (if sb_len b = 0 then 0 else ret)" and "m2 = (if sb_len b = 0 then m else m')"
    and "segs' = (if sb_len b = 0 then [] else segs)"
  have f: "FlushTCPSendingBuffer cfg s ts m = Some (ret', m2)" "ret' < 0 \<or> ret' = int (length segs')"
    using l(3) by (simp_all add: e ret'_def m2_def segs'_def)
  have o: "flush_out b ?win s m m2 segs'"
    using l(2) by (simp add: m2_def segs'_def flush_out_none)
  then have c: "data_segment t sg" "unat (snd_nxt t - snd_una (sndvar t)) + 2 * length (bytes_of pre) + length (sg_data sg)
             \<le> min (unat (cwnd (sndvar t))) (unat (peer_wnd (sndvar t)))" if "segs' = pre @ sg # post" for pre sg post
    using that within_split unfolding flush_out_def t[symmetric] w[symmetric] by auto
  show ?thesis
    using f o c unfolding flush_out_def t[symmetric] b by (intro exI[of _ ret'] exI[of _ m2] exI[of _ segs']) blast
qed

definition flush_demo_buf :: tcp_send_buffer where
  "flush_demo_buf = \<lparr>sb_chunk = 0, sb_data = [10, 20, 30, 40], sb_head = 0, sb_head_off = 0, sb_tail_off = 3,
     sb_len = 3, sb_cum_len = 3, sb_size = 4, sb_head_seq = 100, sb_init_seq = 100\<rparr>"

definition flush_demo :: mtcp_manager where
  "flush_demo = mod_strm 0 (\<lambda>t. (mod_snd (\<lambda>v. v\<lparr>sndbuf := Some flush_demo_buf, mss := 1460, snd_una := 100,
     cwnd := 10, peer_wnd := 10\<rparr>) t)\<lparr>snd_nxt := 101\<rparr>) zero_mtcp"

theorem flush_window_safe_witness:
  "\<exists>ret m' segs. FlushTCPSendingBuffer ack_cfg 0 5 flush_demo = Some (ret, m') \<and> wire m' = segs
    \<and> consecutive 101 segs \<and> (\<exists>rest. [20, 30] = bytes_of segs @ rest)"
proof -
  have t: "sndbuf (sndvar (strm flush_demo 0)) = Some flush_demo_buf" "mss (sndvar (strm flush_demo 0)) = 1460"
    "snd_nxt (strm flush_demo 0) = 101" "snd_una (sndvar (strm flush_demo 0)) = 100" "num_msp flush_demo = 0" "wire flush_demo = []"
    by (simp_all add: flush_demo_def zero_mtcp_def)
  have b: "sb_inv flush_demo_buf" "sb_head_seq flush_demo_buf = 100" "sb_len flush_demo_buf = 3" "sb_bytes flush_demo_buf = [10, 20, 30]"
    by (simp_all add: flush_demo_buf_def sb_inv_def sb_bytes_def)
  show ?thesis
    using flush_window_safe[OF t(5) refl t(1) b(1), where cfg = ack_cfg and ts = 5]
    unfolding t b by simp blast
qed

end
