(* ===== verification/Send_Life.thy ===== *)
theory Send_Life
  imports Tcp_Flush
begin

text \<open>
  Sending keeps the books of the streams: lists and flags, pools, the flow table and the
  pairs stay in agreement.  The output interface must be known before; \<open>IPOutput\<close> would
  otherwise move the stream to another sender behind the back of its lists.
\<close>

definition wired :: "mos_config \<Rightarrow> tcp_stream \<Rightarrow> bool" where
  "wired cfg t \<longleftrightarrow> 0 \<le> nif_out (sndvar t) \<and> nif_out (sndvar t) < int (length (netdev_ips cfg))"

lemma lists_ok_sent_note [simp]:
  "lists_ok cfg L (mod_strm s (sent_note flags sg) m) = lists_ok cfg L m"
  by (rule lists_ok_mod_strm) (simp add: sent_note_def Let_def list_view_snd)

lemma list_part_upd [simp]:
  "lists_part (m\<lparr>tx_no := n\<rparr>) = lists_part m" "lists_part (put_wire sg m) = lists_part m"
  by (simp_all add: lists_part_def put_wire_def)

lemma IPOutput_wired:
  assumes w: "wired cfg (strm m s)" and io: "IPOutput cfg s m = (r, m')"
  shows "lists_ok cfg L m' = lists_ok cfg L m" and "wired cfg (strm m' s)"
    and "on_timeout_list (strm m' s) = on_timeout_list (strm m s)" and "nrtx (sndvar (strm m' s)) = nrtx (sndvar (strm m s))"
proof -
  have "out_if cfg (strm m s) = strm m s" using w by (simp add: out_if_def wired_def)
  then have o: "mod_strm s (out_if cfg) m = m" by (simp add: mod_strm_def strm_def)
  have c: "m' = m\<lparr>tx_no := tx_no m + 1\<rparr> \<or> m' = mod_strm s (mod_snd (\<lambda>v. v\<lparr>ip_id := ip_id v + 1\<rparr>)) (m\<lparr>tx_no := tx_no m + 1\<rparr>)"
    using io w unfolding IPOutput_def o get_wptr_def Let_def wired_def
    by (auto split: if_splits bool.splits prod.splits)
  have "lists_ok cfg L (m\<lparr>tx_no := tx_no m + 1\<rparr>) = lists_ok cfg L m" by (rule lists_ok_part) simp
  then show "lists_ok cfg L m' = lists_ok cfg L m" using c by (auto simp: lists_ok_mod_strm list_view_snd)
  show "wired cfg (strm m' s)" "on_timeout_list (strm m' s) = on_timeout_list (strm m s)"
    "nrtx (sndvar (strm m' s)) = nrtx (sndvar (strm m s))"
    using c w by (auto simp: wired_def)
qed

lemma SendTCPPacket_lists:
  assumes np: "num_msp m = 0" and w: "wired cfg (strm m s)"
    and r: "SendTCPPacket cfg s ts flags pl m = Some (ret, m')"
  shows "lists_ok cfg L m \<Longrightarrow> s \<in> L \<Longrightarrow> lists_ok cfg L m'" and "wired cfg (strm m' s)"
    and "on_timeout_list (strm m' s) = on_timeout_list (strm m s)" and "nrtx (sndvar (strm m' s)) = nrtx (sndvar (strm m s))"
proof -
  have "(lists_ok cfg L m \<longrightarrow> s \<in> L \<longrightarrow> lists_ok cfg L m') \<and> wired cfg (strm m' s) \<and> on_timeout_list (strm m' s) = on_timeout_list (strm m s)
      \<and> nrtx (sndvar (strm m' s)) = nrtx (sndvar (strm m s))"
  proof (cases "length pl > unat (mss (sndvar (strm m s))) + unat (CalculateOptionLength flags)")
    case True
    then show ?thesis using r w by (simp add: SendTCPPacket_def)
  next
    case False
    obtain q m1 where io: "IPOutput cfg s m = (q, m1)" by (metis surj_pair)
    note i = IPOutput_wired[OF w io]
    show ?thesis
    proof (cases q)
      case None
      then have "m' = m1" using r False io by (simp add: SendTCPPacket_def)
      then show ?thesis using i by simp
    next
      case (Some ipid)
      define sg where "sg = stream_segment ts flags pl (strm m1 s)"
      define ma where "ma = mod_strm s (\<lambda>t. (mod_snd (\<lambda>v. v\<lparr>ts_lastack_sent := ts\<rparr>) t)\<lparr>last_active_ts := ts\<rparr>) m1"
      define m2 where "m2 = (if has flags TCP_FLAG_ACK then UpdateTimeoutList s ma else m1)"
      define m3 where "m3 = mod_strm s (sent_note flags sg) m2"
      define mt where "mt = mod_strm s (mod_snd (\<lambda>v. v\<lparr>ts_rto := ts + rto v\<rparr>)) m3"
      define m4 where "m4 = (if sent_len sg > 0 then AddtoRTOList s mt else m3)"
      define m5 where "m5 = raw_callbacks cfg sg (put_wire sg m4)"
      have np1: "num_msp m1 = 0" using np send_rest_fields(1)[OF sendingD(3)[OF IPOutput_frame(1)[OF io]]] by simp
      have np5: "num_msp m5 = 0"
        by (simp add: m5_def m4_def mt_def m3_def m2_def ma_def put_wire_def UpdateTimeoutList_def AddtoRTOList_def Let_def mod_rto_list_def np1)
      have ms: "monitor_sent cfg s ts ipid sg m5 = Some m5" using np5 by (simp add: monitor_sent_def)
      have "SendTCPPacket cfg s ts flags pl m = map_option (\<lambda>m. (uint (sent_len sg), m)) (monitor_sent cfg s ts ipid sg m5)"
        unfolding SendTCPPacket_def using False io Some
        by (simp add: Let_def sent_ack_def sent_timer_def sg_def m5_def m4_def mt_def m3_def m2_def ma_def)
      then have m': "m' = m5" using r unfolding ms by simp
      have "lists_ok cfg L m5" if ok: "lists_ok cfg L m" and s: "s \<in> L"
      proof -
        have a: "lists_ok cfg L ma" unfolding ma_def using ok i(1)
          by (subst lists_ok_mod_strm) (simp_all add: list_view_snd)
        have "lists_ok cfg L m2" unfolding m2_def using a ok i(1) s by auto
        then have b: "lists_ok cfg L m3" unfolding m3_def by simp
        then have "lists_ok cfg L mt" unfolding mt_def by (simp add: lists_ok_mod_strm list_view_snd)
        then have "lists_ok cfg L m4" unfolding m4_def using b s by auto
        moreover have "lists_ok cfg L m5 = lists_ok cfg L m4" unfolding m5_def by (rule lists_ok_part) simp
        ultimately show ?thesis by simp
      qed
      moreover have "on_timeout_list (strm m5 s) = on_timeout_list (strm m1 s) \<and> nif_out (sndvar (strm m5 s)) = nif_out (sndvar (strm m1 s))
          \<and> nrtx (sndvar (strm m5 s)) = nrtx (sndvar (strm m1 s))"
        by (simp add: m5_def m4_def mt_def m3_def m2_def ma_def sent_note_def Let_def UpdateTimeoutList_def AddtoRTOList_def)
      ultimately show ?thesis using i m' by (simp add: wired_def)
    qed
  qed
  then show "lists_ok cfg L m \<Longrightarrow> s \<in> L \<Longrightarrow> lists_ok cfg L m'" "wired cfg (strm m' s)" "on_timeout_list (strm m' s) = on_timeout_list (strm m s)"
    "nrtx (sndvar (strm m' s)) = nrtx (sndvar (strm m s))" by blast+
qed

section \<open>The invariant of the streams\<close>

lemma send_rest_pools:
  assumes "send_rest m' = send_rest m"
  shows "flow_pool m' = flow_pool m" "rv_pool m' = rv_pool m" "sv_pool m' = sv_pool m" "flow_cnt m' = flow_cnt m"
    "own_ap m' = own_ap m" "nif_ap m' = nif_ap m" "msmap m' = msmap m" "rbm_snd m' = rbm_snd m"
  using arg_cong[OF assms, of flow_pool] arg_cong[OF assms, of rv_pool] arg_cong[OF assms, of sv_pool]
    arg_cong[OF assms, of flow_cnt] arg_cong[OF assms, of own_ap] arg_cong[OF assms, of nif_ap]
    arg_cong[OF assms, of msmap] arg_cong[OF assms, of rbm_snd] by (simp_all add: send_rest_def)

lemma sendless_reg:
  assumes "sendless t' = sendless t"
  shows "flow_key t' = flow_key t" "he_mybucket (rcvvar t') = he_mybucket (rcvvar t)" "on_hash_table t' = on_hash_table t"
    "rcvvar_chunk t' = rcvvar_chunk t" "sndvar_chunk t' = sndvar_chunk t" "is_bound_addr t' = is_bound_addr t"
proof -
  note f = core_fields[OF assms[unfolded sendless_def]]
  show "flow_key t' = flow_key t" using sendless_fields[OF assms] by (simp add: flow_key_def)
  show "he_mybucket (rcvvar t') = he_mybucket (rcvvar t)" "on_hash_table t' = on_hash_table t"
    "rcvvar_chunk t' = rcvvar_chunk t" "sndvar_chunk t' = sndvar_chunk t" "is_bound_addr t' = is_bound_addr t"
    using f by simp_all
qed

lemma sending_same:
  assumes "sending s m m'"
  shows "sendless (strm m' w) = sendless (strm m w)"
  using assms by (cases "w = s") (auto simp: sending_def only_def)

lemma life_inv_cong:
  assumes inv: "life_inv cfg L m" and ok: "lists_ok cfg L m'"
    and pl: "flow_pool m' = flow_pool m" "rv_pool m' = rv_pool m" "sv_pool m' = sv_pool m"
    and tb: "tcp_flow_table m' = tcp_flow_table m" "flow_cnt m' = flow_cnt m"
    and rg: "\<And>w. flow_key (strm m' w) = flow_key (strm m w)" "\<And>w. he_mybucket (rcvvar (strm m' w)) = he_mybucket (rcvvar (strm m w))"
      "\<And>w. on_hash_table (strm m' w) = on_hash_table (strm m w)" "\<And>w. rcvvar_chunk (strm m' w) = rcvvar_chunk (strm m w)"
      "\<And>w. sndvar_chunk (strm m' w) = sndvar_chunk (strm m w)" "\<And>w. pair_stream (strm m' w) = pair_stream (strm m w)"
    and li: "\<And>w. w \<in> L \<Longrightarrow> listed_ok cfg (strm m' w)"
  shows "life_inv cfg L m'"
proof -
  have i: "pools_ok L m" "table_live L m" "paired L m" using inv by (auto simp: life_inv_def)
  have "pools_ok L m'" using i(1) pools_ok_cong[OF pl, of L] rg(4,5) by blast
  moreover have "table_live L m'"
  proof -
    have t: "table_ok (\<lambda>s. flow_key (strm m s)) m" "table_streams m = L" "flow_cnt m = of_nat (card L)"
      "\<forall>s \<in> L. on_hash_table (strm m s)" using i(2) by (auto simp: table_live_def)
    have o: "table_ok (\<lambda>s. flow_key (strm m' s)) m'" "table_streams m' = table_streams m"
      using table_ok_outside(1,2)[OF t(1) tb(1)] rg(1,2) by blast+
    show ?thesis unfolding table_live_def o(2) tb(2) rg(3) using o(1) t(2-4) by blast
  qed
  moreover have "paired L m'" using i(3) unfolding paired_def rg(6) .
  ultimately show ?thesis using ok li by (simp add: life_inv_def)
qed

lemma life_inv_sending:
  assumes inv: "life_inv cfg L m" and se: "sending s m m'" and ok: "lists_ok cfg L m'"
    and ty: "HAS_STREAM_TYPE (strm m s) MOS_SOCK_STREAM"
    and to: "on_timeout_list (strm m' s) = on_timeout_list (strm m s)"
  shows "life_inv cfg L m'"
proof -
  note sm = sending_same[OF se] and rest = sendingD(3)[OF se]
  have li: "listed_ok cfg (strm m' w)" if w: "w \<in> L" for w
  proof -
    have l: "listed_ok cfg (strm m w)" using inv w by (simp add: life_inv_def)
    show ?thesis
    proof (cases "w = s")
      case True
      have "HAS_STREAM_TYPE (strm m' s) MOS_SOCK_STREAM"
        using ty sendless_fields(17)[OF sm] by (simp add: HAS_STREAM_TYPE_def)
      then show ?thesis using l to True unfolding listed_ok_def by auto
    next
      case False
      then have "strm m' w = strm m w" using sendingD(1)[OF se] by (simp add: only_def)
      then show ?thesis using l by simp
    qed
  qed
  show ?thesis
    by (rule life_inv_cong[OF inv ok send_rest_pools(1-3)[OF rest] send_rest_fields(4)[OF rest] send_rest_pools(4)[OF rest]
          sendless_reg(1-5)[OF sm] sendless_fields(16)[OF sm] li])
qed

lemma life_inv_mod_strm:
  assumes inv: "life_inv cfg L m" and v: "list_view (f (strm m s)) = list_view (strm m s)"
    "reg_view (f (strm m s)) = reg_view (strm m s)" "stream_type (f (strm m s)) = stream_type (strm m s)"
  shows "life_inv cfg L (mod_strm s f m)"
proof -
  have ok: "lists_ok cfg L (mod_strm s f m)" using inv lists_ok_mod_strm[of f m s, OF v(1)] by (simp add: life_inv_def)
  have li: "listed_ok cfg (strm (mod_strm s f m) w)" if "w \<in> L" for w
  proof -
    have "listed_ok cfg (strm m w)" using inv that by (simp add: life_inv_def)
    then show ?thesis using v by (auto simp: strm_mod listed_ok_def sender_off_def HAS_STREAM_TYPE_def list_view_def)
  qed
  show ?thesis
    by (rule life_inv_cong[OF inv ok _ _ _ _ _ _ _ _ _ _ _ li]) (use v(2) in \<open>auto simp: strm_mod reg_view_def\<close>)
qed

lemma SendTCPPacket_life:
  assumes np: "num_msp m = 0" and w: "wired cfg (strm m s)" and inv: "life_inv cfg L m" and s: "s \<in> L"
    and ty: "HAS_STREAM_TYPE (strm m s) MOS_SOCK_STREAM"
    and r: "SendTCPPacket cfg s ts flags pl m = Some (ret, m')"
  shows "life_inv cfg L m'" and "sending s m m'" and "wired cfg (strm m' s)"
proof -
  have ok: "lists_ok cfg L m" using inv by (simp add: life_inv_def)
  note l = SendTCPPacket_lists(1)[OF np w r ok s] SendTCPPacket_lists(2,3)[OF np w r]
  show se: "sending s m m'"
    by (rule SendTCPPacket_plain[OF np, of cfg s ts flags pl]) (use r in \<open>auto simp: sent_def\<close>)
  show "life_inv cfg L m'" by (rule life_inv_sending[OF inv se l(1) ty l(3)])
  show "wired cfg (strm m' s)" by (rule l(2))
qed

section \<open>Simultaneous close\<close>

lemma address_held_sending:
  assumes "sending s m m'" "address_held cfg s m"
  shows "address_held cfg s m'"
proof -
  note sm = sending_same[OF assms(1), of s] and r = send_rest_pools[OF sendingD(3)[OF assms(1)]]
  have "release_address cfg a m' = None \<longleftrightarrow> release_address cfg a m = None" for a
    by (simp add: release_address_def r split: option.split)
  then show ?thesis using assms(2) sendless_fields[OF sm] sendless_reg(6)[OF sm]
    by (simp add: address_held_def HAS_STREAM_TYPE_def)
qed

lemma SendTCPPacket_goes:
  assumes "num_msp m = 0" "wired cfg (strm m s)" "tx_ok cfg (tx_no m)"
    and "length pl \<le> unat (mss (sndvar (strm m s))) + unat (CalculateOptionLength flags)"
  obtains m' where "SendTCPPacket cfg s ts flags pl m = Some (uint (sent_len (stream_segment ts flags pl (strm m s))), m')"
    "sent ts flags pl s m m'"
proof -
  have "0 \<le> nif_out (sndvar (strm m s))" using assms(2) by (simp add: wired_def)
  then have o: "mod_strm s (out_if cfg) m = m" by (simp add: out_if_def mod_strm_def strm_def)
  have io: "IPOutput cfg s m = (Some ipid, m1) \<Longrightarrow> SendTCPPacket cfg s ts flags pl m \<noteq> Some (ret, m2)" if "ret < 0" for ipid m1 ret m2
    using that assms(4) by (auto simp: SendTCPPacket_def Let_def)
  have ip: "\<exists>ipid m1. IPOutput cfg s m = (Some ipid, m1)"
    using assms(3) \<open>0 \<le> nif_out (sndvar (strm m s))\<close> unfolding IPOutput_def o by (simp add: get_wptr_def Let_def)
  show ?thesis
    by (rule SendTCPPacket_plain[OF assms(1), of cfg s ts flags pl]) (use that io ip in \<open>fastforce\<close>)+
qed

text \<open>
  C28.  A simultaneous close ends in a reset.  In state CLOSING, with nothing queued before
  it and a write buffer at hand, \<open>SendControlPacket\<close> sends neither the acknowledgement of
  the peer's FIN nor a FIN: what goes out is a bare RST, and the stream is destroyed.  The
  case has no \<open>break\<close> and falls through to that of \<open>TCP_ST_CLOSED_RSVD\<close>.
\<close>

theorem closing_sends_reset:
  assumes inv: "life_inv cfg L m" and s: "s \<in> L" and st: "state (strm m s) = TCP_ST_CLOSING"
    and ty: "HAS_STREAM_TYPE (strm m s) MOS_SOCK_STREAM" and w: "wired cfg (strm m s)"
    and np: "num_msp m = 0" and tx: "tx_ok cfg (tx_no m)" and pend: "\<not> send_pending (strm m s)"
    and addr: "address_held cfg s m" and pr: "pair_stream (strm m s) = None"
  shows "\<exists>m1 m' sg. SendControlPacket cfg s ts m = Some (0, m') \<and> wire m1 = wire m @ [sg]
    \<and> sg_rst sg \<and> \<not> sg_ack sg \<and> \<not> sg_fin sg \<and> sg_seq sg = snd_nxt (strm m s) \<and> sg_data sg = []
    \<and> DestroyTCPStream cfg s m1 = Some m' \<and> destroyed cfg L {s} m1 m'"
proof -
  let ?sg = "stream_segment ts TCP_FLAG_RST [] (strm m s)"
  have fl: "\<not> has TCP_FLAG_RST TCP_FLAG_ACK" "\<not> has TCP_FLAG_RST TCP_FLAG_FIN" "\<not> has TCP_FLAG_RST TCP_FLAG_SYN"
    "\<not> has TCP_FLAG_RST TCP_FLAG_WACK" "has TCP_FLAG_RST TCP_FLAG_RST"
    by (simp_all add: has_def tcp_flag_defs)
  have sg: "sg_rst ?sg" "\<not> sg_ack ?sg" "\<not> sg_fin ?sg" "\<not> sg_syn ?sg" "sg_seq ?sg = snd_nxt (strm m s)" "sg_data ?sg = []"
    using fl by (simp_all add: stream_segment_def send_fin_def send_seq_def)
  have n: "uint (sent_len ?sg) = 0" using sg by (simp add: sent_len_def)
  obtain m1 where m1: "SendTCPPacket cfg s ts TCP_FLAG_RST [] m = Some (0, m1)" "sent ts TCP_FLAG_RST [] s m m1"
    by (rule SendTCPPacket_goes[OF np w tx, of "[]" TCP_FLAG_RST ts]) (simp_all add: n)
  have se: "sending s m m1" and wi: "wire m1 = wire m @ [?sg]" using m1(2) by (simp_all add: sent_def)
  have pr1: "pair_stream (strm m1 s) = None" using sendless_fields(16)[OF sendingD(2)[OF se]] pr by simp
  have inv1: "life_inv cfg L m1" by (rule SendTCPPacket_life(1)[OF np w inv s ty m1(1)])
  obtain m' where d: "DestroyTCPStream cfg s m1 = Some m'" "destroyed cfg L (gone s m1) m1 m'"
    by (rule DestroyTCPStream_life[OF inv1 s address_held_sending[OF se addr]]) (simp_all add: pr1)
  have "SendControlPacket cfg s ts m = Some (0, m')"
    using pend by (simp add: SendControlPacket_def st send_reset_def m1(1) d(1))
  moreover have "gone s m1 = {s}" using pr1 by (simp add: gone_def)
  ultimately show ?thesis using wi sg d by (intro exI[of _ m1] exI[of _ m'] exI[of _ ?sg]) simp
qed

definition closing_cfg :: mos_config where
  "closing_cfg = route_demo\<lparr>netdev_ips := [1, 2]\<rparr>"

theorem closing_sends_reset_witness:
  "\<exists>m s m'. life_inv closing_cfg {s} m \<and> state (strm m s) = TCP_ST_CLOSING
    \<and> SendControlPacket closing_cfg s 7 m = Some (0, m') \<and> life_inv closing_cfg {} m'"
proof -
  let ?ty = "STREAM_TYPE MOS_SOCK_STREAM"
  let ?C = "CreateTCPStream closing_cfg None ?ty 0x0101A8C0 80 0x0201A8C0 4000 None life_demo"
  let ?f = "\<lambda>t. t\<lparr>state := TCP_ST_CLOSING, is_bound_addr := False\<rparr>"
  have al: "fst (alloc_stream life_demo) \<noteq> None"
    by (simp add: alloc_stream_def life_demo_def life_pool_def MPCreate_def MPAllocateChunk_def Let_def)
  have no: "?C \<noteq> Some (None, m')" for m'
    using al by (auto simp: CreateTCPStream_def HTInsert_def Let_def split: prod.splits option.splits if_splits)
  have n: "flow_lookup life_demo (0x0101A8C0, 80, 0x0201A8C0, 4000) = None"
    by (simp add: flow_lookup_def HTSearch_def life_demo_def zero_mtcp_def)
  have gi: "GetOutputInterface closing_cfg 0x0201A8C0 = Some 0"
    by (simp add: GetOutputInterface_def closing_cfg_def route_demo_def)
  have ty: "?ty AND ?ty \<noteq> 0 \<longrightarrow> GetOutputInterface closing_cfg 0x0201A8C0 \<noteq> None" by (simp add: gi)
  have h: "None = (None :: u32 option) \<or> None = Some (HashFlow (flow_probe (0x0101A8C0, 80, 0x0201A8C0, 4000)))" by simp
  obtain s m where c: "life_inv closing_cfg {s} m" "created_stream closing_cfg ?ty (0x0101A8C0, 80, 0x0201A8C0, 4000) (strm m s)"
    by (rule CreateTCPStream_life[OF life_demo_inv n h ty, where sock = None]) (use no in auto)
  define m2 where "m2 = (mod_strm s ?f m)\<lparr>num_msp := 0\<rparr>"
  have m1: "life_inv closing_cfg {s} (mod_strm s ?f m)"
    by (rule life_inv_mod_strm[OF c(1)]) (simp_all add: reg_view_def flow_key_def)
  have s2: "strm m2 w = strm (mod_strm s ?f m) w" for w by (simp add: m2_def)
  have lp: "lists_part m2 = lists_part (mod_strm s ?f m)" by (simp add: m2_def lists_part_def)
  have lo: "lists_ok closing_cfg {s} m2" unfolding lists_ok_part[OF lp] using m1 by (simp add: life_inv_def)
  have inv: "life_inv closing_cfg {s} m2"
    by (rule life_inv_cong[OF m1 lo]) (use m1 in \<open>simp_all add: s2 life_inv_def\<close>, simp_all add: m2_def)
  have t: "HAS_STREAM_TYPE (strm m2 s) MOS_SOCK_STREAM" "wired closing_cfg (strm m2 s)" "\<not> send_pending (strm m2 s)"
    "pair_stream (strm m2 s) = None" "state (strm m2 s) = TCP_ST_CLOSING" "address_held closing_cfg s m2"
    using c(2) gi by (auto simp: s2 created_stream_def HAS_STREAM_TYPE_def STREAM_TYPE_def wired_def closing_cfg_def
        off_all_def send_pending_def address_held_def flow_key_def)
  have "num_msp m2 = 0" by (simp add: m2_def)
  moreover have "tx_ok closing_cfg (tx_no m2)" by (simp add: closing_cfg_def route_demo_def epoll_cfg_def)
  ultimately obtain m3 m' where "SendControlPacket closing_cfg s 7 m2 = Some (0, m')" "destroyed closing_cfg {s} {s} m3 m'"
    using closing_sends_reset[OF inv _ t(5) t(1,2) _ _ t(3) t(6) t(4), where ts = 7] by blast
  then show ?thesis using inv t(5) by (auto simp: destroyed_def)
qed

end
