(* ===== verification/Tcp_Timer.thy ===== *)
theory Tcp_Timer
  imports Tcp_Send
begin

text \<open>
  The timers (\<open>timer.c\<close>): what happens when a retransmission timer runs out, the wheel
  that finds the streams whose timer did, and the expiry of the time-wait and inactivity
  lists.  \<open>None\<close> stands for a failed assertion; the outer loop of \<open>CheckRtmTimeout\<close> has no
  bound of its own, so \<open>None\<close> is also its not returning.
\<close>

section \<open>A retransmission timeout\<close>

definition close_with :: "tcp_close_reason \<Rightarrow> tcp_stream \<Rightarrow> tcp_stream" where
  "close_with r t = (enter_state TCP_ST_CLOSED_RSVD t)\<lparr>close_reason := r\<rparr>"

definition error_or_destroy :: "mos_config \<Rightarrow> ref \<Rightarrow> mtcp_manager \<Rightarrow> mtcp_manager option" where
  "error_or_destroy cfg s m =
     (if socket (strm m s) \<noteq> None then Some (snd (RaiseErrorEvent s m)) else DestroyTCPStream cfg s m)"

definition rto_give_up :: "mos_config \<Rightarrow> ref \<Rightarrow> mtcp_manager \<Rightarrow> mtcp_manager option" where
  "rto_give_up cfg s m =
     (if state (strm m s) < TCP_ST_ESTABLISHED
      then DestroyTCPStream cfg s (mod_strm s (close_with TCP_CONN_FAIL) m)
      else error_or_destroy cfg s (mod_strm s (close_with TCP_CONN_LOST) m))"

definition rto_count :: "tcp_send_vars \<Rightarrow> tcp_send_vars" where
  "rto_count v =
     (let v = v\<lparr>nrtx := nrtx v + 1\<rparr> in if nrtx v > max_nrtx v then v\<lparr>max_nrtx := nrtx v\<rparr> else v)"

definition rto_backoff :: "tcp_stream \<Rightarrow> tcp_stream" where
  "rto_backoff t =
     (if state t \<ge> TCP_ST_ESTABLISHED then
        (let backoff = min (nrtx (sndvar t)) TCP_MAX_BACKOFF;
             r = push_bit (unat backoff) (drop_bit 3 (srtt (rcvvar t)) + rttvar (rcvvar t))
         in if r = 0 then t else mod_snd (\<lambda>v. v\<lparr>rto := r\<rparr>) t)
      else if state t \<ge> TCP_ST_SYN_SENT then
        (if nrtx (sndvar t) < TCP_MAX_BACKOFF then mod_snd (\<lambda>v. v\<lparr>rto := push_bit 1 (rto v)\<rparr>) t else t)
      else t)"

definition rto_cwnd :: "tcp_send_vars \<Rightarrow> tcp_send_vars" where
  "rto_cwnd v =
     (let st = min (cwnd v) (peer_wnd v) div 2;
          st = (if st < 2 * ucast (mss v) then ucast (mss v) * 2 else st)
      in v\<lparr>ssthresh := st, cwnd := ucast (mss v)\<rparr>)"

definition rto_states :: "tcp_state set" where
  "rto_states = {TCP_ST_SYN_SENT, TCP_ST_SYN_RCVD, TCP_ST_ESTABLISHED, TCP_ST_CLOSE_WAIT, TCP_ST_LAST_ACK,
     TCP_ST_FIN_WAIT_1, TCP_ST_CLOSING, TCP_ST_FIN_WAIT_2}"

definition add_send :: "mos_config \<Rightarrow> ref \<Rightarrow> mtcp_manager \<Rightarrow> mtcp_manager option" where
  "add_send cfg s m =
     (if GetSender cfg (strm m s) = None \<or> sndbuf (sndvar (strm m s)) = None then None
      else Some (AddtoSendList cfg s m))"

definition retransmit :: "mos_config \<Rightarrow> u32 \<Rightarrow> ref \<Rightarrow> mtcp_manager \<Rightarrow> mtcp_manager option" where
  "retransmit cfg cur_ts s m =
     (let m = mod_strm s (\<lambda>t. t\<lparr>snd_nxt := snd_una (sndvar t)\<rparr>) m;
          t = strm m s
      in if state t \<in> {TCP_ST_ESTABLISHED, TCP_ST_CLOSE_WAIT} then add_send cfg s m
         else if state t \<in> {TCP_ST_FIN_WAIT_1, TCP_ST_CLOSING, TCP_ST_LAST_ACK}
              \<and> TCP_SEQ_LT (snd_nxt t) (fss (sndvar t))
         then add_send cfg s (mod_strm s (\<lambda>t. t\<lparr>control_list_waiting := True\<rparr>) (RemoveFromControlList cfg s m))
         else AddtoControlList cfg s cur_ts m)"

definition HandleRTO :: "mos_config \<Rightarrow> u32 \<Rightarrow> ref \<Rightarrow> mtcp_manager \<Rightarrow> mtcp_manager option" where
  "HandleRTO cfg cur_ts s m =
     (if rto (sndvar (strm m s)) = 0 then None
      else if \<not> nrtx (sndvar (strm m s)) < TCP_MAX_RTX then rto_give_up cfg s m
      else
        (let m = mod_strm s (\<lambda>t. mod_snd rto_cwnd (rto_backoff (mod_snd rto_count t))) m;
             m = (if on_rto_idx (strm m s) \<ge> 0 then RemoveFromRTOList s m else m);
             t = strm m s
         in if state t = TCP_ST_SYN_SENT \<and> nrtx (sndvar t) > TCP_MAX_SYN_RETRY
            then error_or_destroy cfg s (mod_strm s (close_with TCP_CONN_FAIL) m)
            else if state t \<notin> rto_states then None
            else retransmit cfg cur_ts s m))"

section \<open>The wheel\<close>

definition rearrange_one :: "ref \<Rightarrow> mtcp_manager \<Rightarrow> mtcp_manager" where
  "rearrange_one w m =
     (let hs = rto_store m;
          diff = sint (rto_now_ts hs - ts_rto (sndvar (strm m w)));
          offset = unat ((word_of_int diff + rto_now_idx hs) AND (of_nat RTO_HASH - 1))
      in if diff < int RTO_HASH
         then mod_rto_list offset (\<lambda>l. l @ [w])
                (mod_strm w (\<lambda>t. t\<lparr>on_rto_idx := int offset\<rparr>) (mod_rto_list RTO_HASH (remove1 w) m))
         else m)"

definition RearrangeRTOStore :: "mtcp_manager \<Rightarrow> mtcp_manager" where
  "RearrangeRTOStore m = fold rearrange_one (rto_list (rto_store m) RTO_HASH) m"

text \<open>
  One slot of the wheel.  \<open>n\<close> is how many streams may still be looked at, \<open>thresh - cnt\<close>;
  the result is \<open>None\<close> in place of it when the threshold is passed.
\<close>

fun rtm_slot :: "mos_config \<Rightarrow> u32 \<Rightarrow> nat \<Rightarrow> nat \<Rightarrow> ref option \<Rightarrow> mtcp_manager \<Rightarrow> (nat option \<times> mtcp_manager) option" where
  "rtm_slot cfg cur_ts i n None m = Some (Some n, m)"
| "rtm_slot cfg cur_ts i 0 (Some w) m = Some (None, m)"
| "rtm_slot cfg cur_ts i (Suc n) (Some w) m =
     (let next = tailq_next w (rto_list (rto_store m) i) in
      if on_rto_idx (strm m w) \<ge> 0 then
        (let m = mod_rto_list i (remove1 w) m;
             m = mod_strm w (\<lambda>t. t\<lparr>on_rto_idx := -1\<rparr>) (m\<lparr>rto_list_cnt := rto_list_cnt m - 1\<rparr>)
         in case HandleRTO cfg cur_ts w m of
              None \<Rightarrow> None
            | Some m \<Rightarrow> rtm_slot cfg cur_ts i n next m)
      else rtm_slot cfg cur_ts i n next m)"

definition wheel_step :: "mtcp_manager \<Rightarrow> mtcp_manager" where
  "wheel_step m =
     (let m = m\<lparr>rto_store := (rto_store m)\<lparr>rto_now_idx := (rto_now_idx (rto_store m) + 1) AND (of_nat RTO_HASH - 1),
                  rto_now_ts := rto_now_ts (rto_store m) + 1\<rparr>\<rparr>
      in if rto_now_idx (rto_store m) AND (1024 - 1) = 0 then RearrangeRTOStore m else m)"

partial_function (option) rtm_loop :: "mos_config \<Rightarrow> u32 \<Rightarrow> nat \<Rightarrow> mtcp_manager \<Rightarrow> mtcp_manager option" where
  "rtm_loop cfg cur_ts n m =
     (let i = unat (rto_now_idx (rto_store m)) in
      if sint (cur_ts - rto_now_ts (rto_store m)) < 0 then Some m
      else (case rtm_slot cfg cur_ts i n (tailq_first (rto_list (rto_store m) i)) m of
              None \<Rightarrow> None
            | Some (None, m) \<Rightarrow> Some m
            | Some (Some n, m) \<Rightarrow> rtm_loop cfg cur_ts n (wheel_step m)))"

definition CheckRtmTimeout :: "mos_config \<Rightarrow> u32 \<Rightarrow> int \<Rightarrow> mtcp_manager \<Rightarrow> mtcp_manager option" where
  "CheckRtmTimeout cfg cur_ts thresh m =
     (if rto_list_cnt m = 0 then Some m else rtm_loop cfg cur_ts (nat thresh) m)"

section \<open>Time-wait and inactivity\<close>

definition pair_open :: "mtcp_manager \<Rightarrow> ref \<Rightarrow> bool" where
  "pair_open m w \<longleftrightarrow> (case pair_stream (strm m w) of
      None \<Rightarrow> False
    | Some p \<Rightarrow> state (strm m p) \<noteq> TCP_ST_CLOSED_RSVD \<and> state (strm m p) \<noteq> TCP_ST_TIME_WAIT)"

fun timewait_loop :: "mos_config \<Rightarrow> u32 \<Rightarrow> nat \<Rightarrow> ref option \<Rightarrow> mtcp_manager \<Rightarrow> mtcp_manager option" where
  "timewait_loop cfg cur_ts n None m = Some m"
| "timewait_loop cfg cur_ts 0 (Some w) m = Some m"
| "timewait_loop cfg cur_ts (Suc n) (Some w) m =
     (let next = tailq_next w (timewait_list m); t = strm m w in
      if \<not> on_timewait_list t \<or> pair_open m w then timewait_loop cfg cur_ts n next m
      else if \<not> sint (cur_ts - ts_tw_expire (rcvvar t)) \<ge> 0 then Some m
      else if on_control_list (sndvar t) then timewait_loop cfg cur_ts n next m
      else
        (let m = mod_strm w (\<lambda>t. t\<lparr>on_timewait_list := False\<rparr>)
                   (m\<lparr>timewait_list := remove1 w (timewait_list m), timewait_list_cnt := timewait_list_cnt m - 1\<rparr>)
         in case DestroyTCPStream cfg w (mod_strm w (close_with TCP_ACTIVE_CLOSE) m) of
              None \<Rightarrow> None
            | Some m \<Rightarrow> timewait_loop cfg cur_ts n next m))"

definition CheckTimewaitExpire :: "mos_config \<Rightarrow> u32 \<Rightarrow> int \<Rightarrow> mtcp_manager \<Rightarrow> mtcp_manager option" where
  "CheckTimewaitExpire cfg cur_ts thresh m =
     timewait_loop cfg cur_ts (nat thresh) (tailq_first (timewait_list m)) m"

definition connection_timed_out :: "mos_config \<Rightarrow> ref \<Rightarrow> mtcp_manager \<Rightarrow> mtcp_manager option" where
  "connection_timed_out cfg w m =
     (let m = mod_strm w (\<lambda>t. t\<lparr>on_timeout_list := False\<rparr>)
                (m\<lparr>timeout_list := remove1 w (timeout_list m), timeout_list_cnt := timeout_list_cnt m - 1\<rparr>);
          m = mod_strm w (close_with TCP_TIMEDOUT) m
      in if socket (strm m w) \<noteq> None \<and> HAS_STREAM_TYPE (strm m w) MOS_SOCK_STREAM
         then Some (snd (RaiseErrorEvent w m)) else DestroyTCPStream cfg w m)"

fun timeout_loop :: "mos_config \<Rightarrow> u32 \<Rightarrow> nat \<Rightarrow> ref option \<Rightarrow> mtcp_manager \<Rightarrow> mtcp_manager option" where
  "timeout_loop cfg cur_ts n None m = Some m"
| "timeout_loop cfg cur_ts 0 (Some w) m = Some m"
| "timeout_loop cfg cur_ts (Suc n) (Some w) m =
     (let next = tailq_next w (timeout_list m) in
      if sint (cur_ts - last_active_ts (strm m w)) \<ge> tcp_timeout cfg then
        (case connection_timed_out cfg w m of
           None \<Rightarrow> None
         | Some m \<Rightarrow> timeout_loop cfg cur_ts n next m)
      else Some m)"

definition CheckConnectionTimeout :: "mos_config \<Rightarrow> u32 \<Rightarrow> int \<Rightarrow> mtcp_manager \<Rightarrow> mtcp_manager option" where
  "CheckConnectionTimeout cfg cur_ts thresh m =
     timeout_loop cfg cur_ts (nat thresh) (tailq_first (timeout_list m)) m"

end
