(* ===== verification/Timer_Facts.thy ===== *)
theory Timer_Facts
  imports Tcp_Timer Send_Life
begin

text \<open>
  What the timers guarantee: when the wheel finds a stream, and how a connection attempt
  that nobody answers ends.
\<close>

section \<open>When the wheel finds a stream\<close>

lemma unat_and_2047: "unat (x AND 2047 :: u32) = unat x mod 2048"
proof -
  have "x AND 2047 = take_bit 11 x" by (simp add: take_bit_eq_mask mask_eq_decr_exp)
  moreover have "unat (take_bit 11 x) = take_bit 11 (unat x)" by (rule unsigned_take_bit_eq)
  ultimately show ?thesis by (simp only:) (simp add: take_bit_eq_mod)
qed

lemma unat_add_mod: "unat (x + y :: u32) mod 2048 = (unat x + unat y) mod 2048"
proof -
  have "(2048 :: nat) dvd 2 ^ 32" by simp
  then show ?thesis by (simp add: unat_word_ariths mod_mod_cancel)
qed

lemma add_mod_cancel: "((a :: nat) + j) mod 2048 = (a + d) mod 2048 \<longleftrightarrow> j mod 2048 = d mod 2048"
proof -
  have "(x + j) mod 2048 = (x + d) mod 2048" if "j mod 2048 = d mod 2048" for x j d :: nat
    using that by (metis mod_add_right_eq)
  moreover have "j mod 2048 = d mod 2048" if e: "(a + j) mod 2048 = (a + d) mod 2048"
  proof -
    have "(2048 * a - a + (a + j)) mod 2048 = (2048 * a - a + (a + d)) mod 2048"
      using e by (metis mod_add_right_eq)
    moreover have "2048 * a - a + (a + j) = 2048 * a + j" "2048 * a - a + (a + d) = 2048 * a + d" by simp_all
    ultimately show ?thesis by simp
  qed
  ultimately show ?thesis by blast
qed

lemma RTO_mask: "of_nat RTO_HASH - 1 = (2047 :: u32)"
  by (simp add: RTO_HASH_def)

lemma wheel_steps:
  assumes "unat (rto_now_idx (rto_store m)) < 2048" and "rto_list (rto_store m) RTO_HASH = []"
  shows "unat (rto_now_idx (rto_store ((wheel_step ^^ j) m))) = (unat (rto_now_idx (rto_store m)) + j) mod 2048
    \<and> rto_now_ts (rto_store ((wheel_step ^^ j) m)) = rto_now_ts (rto_store m) + of_nat j
    \<and> rto_list (rto_store ((wheel_step ^^ j) m)) = rto_list (rto_store m)
    \<and> streams ((wheel_step ^^ j) m) = streams m"
proof (induction j)
  case 0
  then show ?case using assms by simp
next
  case (Suc j)
  define mj where "mj = (wheel_step ^^ j) m"
  have e: "rto_list (rto_store mj) RTO_HASH = []" using Suc assms(2) by (simp add: mj_def)
  then have w: "wheel_step mj = mj\<lparr>rto_store := (rto_store mj)\<lparr>rto_now_idx := (rto_now_idx (rto_store mj) + 1) AND 2047,
      rto_now_ts := rto_now_ts (rto_store mj) + 1\<rparr>\<rparr>"
    unfolding wheel_step_def RTO_mask by (simp add: Let_def RearrangeRTOStore_def)
  have "(wheel_step ^^ Suc j) m = wheel_step mj" by (simp add: mj_def)
  moreover have "unat ((rto_now_idx (rto_store mj) + 1) AND 2047) = (unat (rto_now_idx (rto_store m)) + Suc j) mod 2048"
    unfolding unat_and_2047 unat_add_mod using Suc by (simp add: mj_def mod_Suc_eq)
  ultimately show ?case using Suc unfolding mj_def[symmetric] by (simp add: w)
qed

lemma AddtoRTOList_slot:
  assumes "rto_list_cnt m \<noteq> 0" "on_rto_idx (strm m s) < 0" "\<not> on_timewait_list (strm m s)"
  shows "on_rto_idx (strm (AddtoRTOList s m) s)
      = int ((unat (rto_now_idx (rto_store m)) + unat (ts_rto (sndvar (strm m s)) - rto_now_ts (rto_store m))) mod 2048)"
    and "rto_now_idx (rto_store (AddtoRTOList s m)) = rto_now_idx (rto_store m)"
    and "rto_now_ts (rto_store (AddtoRTOList s m)) = rto_now_ts (rto_store m)"
    and "rto_list (rto_store (AddtoRTOList s m)) RTO_HASH = rto_list (rto_store m) RTO_HASH"
proof -
  let ?ts = "ts_rto (sndvar (strm m s))" and ?hs = "rto_store m"
  let ?off = "unat (rto_offset ?ts ?hs)"
  have o: "?off = (unat (rto_now_idx ?hs) + unat (?ts - rto_now_ts ?hs)) mod 2048"
    unfolding rto_offset_def Let_def RTO_mask unat_and_2047 unat_add_mod by (simp add: add.commute)
  then have l: "?off \<noteq> RTO_HASH" by (simp add: RTO_HASH_def)
  show "on_rto_idx (strm (AddtoRTOList s m) s) = int ((unat (rto_now_idx ?hs) + unat (?ts - rto_now_ts ?hs)) mod 2048)"
    unfolding o[symmetric] using assms by (simp add: AddtoRTOList_def Let_def mod_rto_list_def)
  show "rto_now_idx (rto_store (AddtoRTOList s m)) = rto_now_idx (rto_store m)"
    "rto_now_ts (rto_store (AddtoRTOList s m)) = rto_now_ts (rto_store m)"
    "rto_list (rto_store (AddtoRTOList s m)) RTO_HASH = rto_list (rto_store m) RTO_HASH"
    using assms l by (simp_all add: AddtoRTOList_def Let_def mod_rto_list_def)
qed


definition wheel_demo :: mtcp_manager where
  "wheel_demo = mod_strm 0 (\<lambda>t. (mod_snd (\<lambda>v. v\<lparr>ts_rto := 5000\<rparr>) t)\<lparr>on_rto_idx := -1\<rparr>) (zero_mtcp
     \<lparr>rto_list_cnt := 1, rto_store := \<lparr>rto_now_idx = 7, rto_now_ts = 2000, rto_list = (\<lambda>_. [])\<rparr>\<rparr>)"


section \<open>A connection attempt that nobody answers\<close>

definition connecting :: "mos_config \<Rightarrow> ref \<Rightarrow> u8 \<Rightarrow> u32 \<Rightarrow> mtcp_manager \<Rightarrow> bool" where
  "connecting cfg s n r m \<longleftrightarrow> state (strm m s) = TCP_ST_SYN_SENT \<and> nrtx (sndvar (strm m s)) = n
     \<and> rto (sndvar (strm m s)) = r \<and> num_msp m = 0 \<and> wired cfg (strm m s) \<and> socket (strm m s) \<noteq> None"

lemma off_lists_fields:
  assumes "off_lists t' = off_lists t"
  shows "state t' = state t" "nrtx (sndvar t') = nrtx (sndvar t)" "rto (sndvar t') = rto (sndvar t)"
    "nif_out (sndvar t') = nif_out (sndvar t)" "socket t' = socket t"
  using arg_cong[OF assms, of state] arg_cong[OF assms, of "\<lambda>t. nrtx (sndvar t)"] arg_cong[OF assms, of "\<lambda>t. rto (sndvar t)"]
    arg_cong[OF assms, of "\<lambda>t. nif_out (sndvar t)"] arg_cong[OF assms, of socket]
  by (simp_all add: off_lists_def mod_snd_def)

lemma connecting_moved:
  assumes "connecting cfg s n r m" "off_lists (strm m' s) = off_lists (strm m s)" "num_msp m' = num_msp m"
  shows "connecting cfg s n r m'"
  using assms(1,3) off_lists_fields[OF assms(2)] by (simp add: connecting_def wired_def)

lemma list_ops_msp [simp]:
  "num_msp (enter_control cfg s m) = num_msp m" "num_msp (RemoveFromRTOList s m) = num_msp m"
  "num_msp (mod_sender k f m) = num_msp m"
  by (simp_all add: enter_control_def RemoveFromRTOList_def mod_sender_def Let_def mod_rto_list_def split: option.split)

lemma AddtoControlList_connecting:
  assumes c: "connecting cfg s n r m"
  obtains m' where "AddtoControlList cfg s ts m = Some m'" "connecting cfg s n r m'"
proof -
  have st: "state (strm m s) = TCP_ST_SYN_SENT" and np: "num_msp m = 0" and w: "wired cfg (strm m s)"
    using c by (simp_all add: connecting_def)
  have g: "GetSender cfg t \<noteq> None" if "wired cfg t" for t using that by (simp add: GetSender_def wired_def)
  then obtain k where k: "GetSender cfg (strm m s) = Some k" using w by blast
  have sc: "SendControlPacket cfg s ts m = SendTCPPacket cfg s ts TCP_FLAG_SYN [] m"
    by (simp add: SendControlPacket_def st)
  obtain ret m1 where r: "SendTCPPacket cfg s ts TCP_FLAG_SYN [] m = Some (ret, m1)" and se: "sending s m m1"
    by (rule SendTCPPacket_plain[OF np, of cfg s ts TCP_FLAG_SYN "[]"]) (auto simp: sent_def)
  note l = SendTCPPacket_lists(2,4)[OF np w r] and sf = sendless_fields[OF sendingD(2)[OF se]]
  have c1: "connecting cfg s n r m1"
    using c l sf(6,19,21) send_rest_fields(1)[OF sendingD(3)[OF se]] by (simp add: connecting_def)
  show thesis
  proof (cases "ret < 0")
    case True
    have "AddtoControlList cfg s ts m = Some (enter_control cfg s m1)"
      using g[OF l(1)] True by (simp add: AddtoControlList_def k sc r)
    moreover have "connecting cfg s n r (enter_control cfg s m1)"
      using moved_enter_control[of s m1 cfg] by (intro connecting_moved[OF c1]) (simp_all add: moved_def)
    ultimately show thesis by (rule that)
  next
    case False
    let ?m2 = "mod_sender (Some k) (\<lambda>d. d\<lparr>control_list := remove1 s (control_list d), control_list_cnt := control_list_cnt d - 1\<rparr>)
                   (mod_strm s (mod_snd (\<lambda>v. v\<lparr>on_control_list := False\<rparr>)) m1)"
    have "AddtoControlList cfg s ts m = Some (if on_control_list (sndvar (strm m1 s)) then ?m2 else m1)"
      using False by (simp add: AddtoControlList_def k sc r)
    moreover have "connecting cfg s n r ?m2"
      by (rule connecting_moved[OF c1]) simp_all
    ultimately show thesis using c1 that by (cases "on_control_list (sndvar (strm m1 s))") simp_all
  qed
qed

text \<open>What one timeout does to the counters.\<close>

lemma HandleRTO_connecting:
  assumes c: "connecting cfg s n r m" and r: "r \<noteq> 0" and n: "n < 16"
  obtains (retry) m' where "HandleRTO cfg ts s m = Some m'" "n < 7"
      "connecting cfg s (n + 1) (if n + 1 < 7 then push_bit 1 r else r) m'"
  | (fail) m' where "HandleRTO cfg ts s m = Some m'" "\<not> n < 7" "state (strm m' s) = TCP_ST_CLOSED_RSVD"
      "close_reason (strm m' s) = TCP_CONN_FAIL"
proof -
  let ?r = "if n + 1 < 7 then push_bit 1 r else r"
  let ?f = "\<lambda>t. mod_snd rto_cwnd (rto_backoff (mod_snd rto_count t))"
  have i: "state (strm m s) = TCP_ST_SYN_SENT" "nrtx (sndvar (strm m s)) = n" "rto (sndvar (strm m s)) = r"
    using c by (simp_all add: connecting_def)
  define m1 where "m1 = mod_strm s ?f m"
  define m2 where "m2 = (if on_rto_idx (strm m1 s) \<ge> 0 then RemoveFromRTOList s m1 else m1)"
  have rc: "rto_count v = v\<lparr>nrtx := nrtx v + 1, max_nrtx := max_nrtx (rto_count v)\<rparr>" for v
    by (simp add: rto_count_def Let_def)
  have rw: "rto_cwnd v = v\<lparr>ssthresh := ssthresh (rto_cwnd v), cwnd := cwnd (rto_cwnd v)\<rparr>" for v
    by (simp add: rto_cwnd_def Let_def)
  have cf: "nrtx (rto_count v) = nrtx v + 1" "rto (rto_count v) = rto v" "nif_out (rto_count v) = nif_out v" for v
    by (subst rc, simp)+
  have wf: "nrtx (rto_cwnd v) = nrtx v" "rto (rto_cwnd v) = rto v" "nif_out (rto_cwnd v) = nif_out v" for v
    by (subst rw, simp)+
  have c1: "connecting cfg s (n + 1) ?r m1"
    using c by (auto simp: m1_def connecting_def wired_def rto_backoff_def cf wf tcp_state_order TCP_MAX_BACKOFF_def)
  have c2: "connecting cfg s (n + 1) ?r m2"
    unfolding m2_def using c1 connecting_moved[OF c1] moved_RemoveFromRTOList[of s m1] by (auto simp: moved_def)
  then have i2: "state (strm m2 s) = TCP_ST_SYN_SENT" "nrtx (sndvar (strm m2 s)) = n + 1" "socket (strm m2 s) \<noteq> None"
    by (simp_all add: connecting_def)
  have gt: "n + 1 > 7 \<longleftrightarrow> \<not> n < 7"
  proof -
    have "unat (n + 1) = unat n + 1" using n by (simp add: word_less_nat_alt unat_word_ariths)
    then show ?thesis by (simp add: word_less_nat_alt) linarith
  qed
  have h: "HandleRTO cfg ts s m =
      (if n < 7 then retransmit cfg ts s m2 else error_or_destroy cfg s (mod_strm s (close_with TCP_CONN_FAIL) m2))"
    unfolding HandleRTO_def m1_def[symmetric] Let_def m2_def[symmetric]
    using i i2 r n gt by (simp add: TCP_MAX_RTX_def TCP_MAX_SYN_RETRY_def rto_states_def)
  show thesis
  proof (cases "n < 7")
    case True
    define m3 where "m3 = mod_strm s (\<lambda>t. t\<lparr>snd_nxt := snd_una (sndvar t)\<rparr>) m2"
    have c3: "connecting cfg s (n + 1) ?r m3" using c2 by (simp add: m3_def connecting_def wired_def)
    then have "retransmit cfg ts s m2 = AddtoControlList cfg s ts m3"
      unfolding retransmit_def m3_def[symmetric] by (simp add: connecting_def Let_def)
    then show thesis using AddtoControlList_connecting[OF c3, of ts] True h retry by metis
  next
    case False
    have "HandleRTO cfg ts s m = Some (snd (RaiseErrorEvent s (mod_strm s (close_with TCP_CONN_FAIL) m2)))"
      using False h i2(3) by (simp add: error_or_destroy_def close_with_def enter_state_def)
    then show thesis using False fail by (simp add: close_with_def enter_state_def)
  qed
qed

text \<open>Timeouts in a row, with nothing received in between.\<close>

fun timeouts :: "mos_config \<Rightarrow> ref \<Rightarrow> u32 list \<Rightarrow> mtcp_manager \<Rightarrow> mtcp_manager option" where
  "timeouts cfg s [] m = Some m"
| "timeouts cfg s (ts # tss) m = Option.bind (HandleRTO cfg ts s m) (timeouts cfg s tss)"

lemma timeouts_snoc: "timeouts cfg s (tss @ [ts]) m = Option.bind (timeouts cfg s tss m) (HandleRTO cfg ts s)"
  by (induction tss arbitrary: m) (auto split: bind_splits)

lemma unat_of_small: "n < 2 ^ 32 \<Longrightarrow> unat (of_nat n :: u32) = n"
  by (simp add: unat_of_nat)

lemma pow_min_6: "r * 2 ^ min n 6 \<le> r * (2 :: nat) ^ 6"
  using power_increasing[of "min n 6" 6 "2 :: nat"] by (intro mult_left_mono) simp_all

lemma timeouts_connecting:
  assumes c: "connecting cfg s 0 r m" and r: "0 < unat r" "unat r * 2 ^ 6 < 2 ^ 32" and n: "length tss \<le> 7"
  shows "\<exists>m'. timeouts cfg s tss m = Some m'
    \<and> connecting cfg s (of_nat (length tss)) (of_nat (unat r * 2 ^ min (length tss) 6)) m'"
  using n
proof (induction tss rule: rev_induct)
  case Nil
  then show ?case using c by simp
next
  case (snoc ts tss)
  let ?n = "length tss" and ?rn = "of_nat (unat r * 2 ^ min (length tss) 6) :: u32"
  have n: "?n < 7" using snoc.prems by simp
  obtain m1 where m1: "timeouts cfg s tss m = Some m1" "connecting cfg s (of_nat ?n) ?rn m1"
    using snoc.IH n by auto
  have "unat r * 2 ^ min ?n 6 \<le> unat r * 2 ^ 6" by (rule pow_min_6)
  then have "unat r * 2 ^ min ?n 6 < 2 ^ 32" using r(2) by (rule le_less_trans)
  then have "unat ?rn = unat r * 2 ^ min ?n 6" by (rule unat_of_small)
  then have nz: "?rn \<noteq> 0" using r(1) by (metis mult_eq_0_iff less_numeral_extra(3) power_not_zero unsigned_0 zero_neq_numeral)
  have u: "unat (of_nat ?n :: u8) = ?n" "unat (of_nat ?n + 1 :: u8) = ?n + 1" using n by (simp_all add: unat_of_nat unat_word_ariths)
  have l: "(of_nat ?n :: u8) < 16" "(of_nat ?n :: u8) < 7" "(of_nat ?n + 1 :: u8) < 7 \<longleftrightarrow> ?n < 6"
    using n u by (simp_all add: word_less_nat_alt)
  have dbl: "(if (of_nat ?n + 1 :: u8) < 7 then push_bit 1 ?rn else ?rn) = of_nat (unat r * 2 ^ min (Suc ?n) 6)"
  proof (cases "?n < 6")
    case True
    then show ?thesis unfolding l(3) by (simp add: min_def push_bit_eq_mult mult_ac)
  next
    case False
    then have "?n = 6" using n by simp
    then show ?thesis unfolding l(3) by simp
  qed
  obtain m' where "HandleRTO cfg ts s m1 = Some m'"
    "connecting cfg s (of_nat ?n + 1) (of_nat (unat r * 2 ^ min (Suc ?n) 6)) m'"
    by (rule HandleRTO_connecting[OF m1(2) nz l(1), of ts]) (use l dbl in auto)
  then show ?case using m1(1) by (simp add: timeouts_snoc add.commute)
qed


definition syn_demo :: mtcp_manager where
  "syn_demo = mod_strm 0 (\<lambda>t. (mod_snd (\<lambda>v. v\<lparr>rto := 500\<rparr>) t)\<lparr>state := TCP_ST_SYN_SENT, socket := Some 3\<rparr>) zero_mtcp"


end
