(* ===== verification/Tcp_Input.thy ===== *)
theory Tcp_Input
  imports Tcp_Send
begin

text \<open>
  Receiving (\<open>ip_in.c\<close>, \<open>tcp.c\<close>): from the bytes of an IP packet to the stream it belongs
  to.  The header is read from the bytes as the C structures lay them out on a
  little-endian machine; a packet without stream may create one, and otherwise goes to the
  orphan callbacks.  \<open>None\<close> stands for a failed assertion, for a null pointer dereferenced
  and for an option parser that does not return.  Handing the packet on to another
  interface (\<open>ForwardIPPacket\<close>) leaves the state modelled here alone.
\<close>

section \<open>The bytes of a packet\<close>

text \<open>\<open>ipk_payload\<close> is what follows the IP header, \<open>ip_len\<close> minus its length bytes.\<close>

record ip_packet =
  ipk_ts :: u32
  ipk_ihl :: nat
  ipk_id :: u16
  ipk_protocol :: u8
  ipk_saddr :: u32
  ipk_daddr :: u32
  ipk_csum :: u16
  ipk_payload :: "u8 list"

definition ld16 :: "(nat \<Rightarrow> u8) \<Rightarrow> nat \<Rightarrow> u16" where
  "ld16 mem i = ucast (mem i) OR push_bit 8 (ucast (mem (i + 1)))"

definition doff :: "ip_packet \<Rightarrow> nat" where
  "doff k = unat (drop_bit 4 (mem_of (ipk_payload k) 12))"

definition hdr_flag :: "ip_packet \<Rightarrow> u8 \<Rightarrow> bool" where
  "hdr_flag k f \<longleftrightarrow> mem_of (ipk_payload k) 13 AND f \<noteq> 0"

definition FillInPacketContext :: "ip_packet \<Rightarrow> pkt_ctx" where
  "FillInPacketContext k =
     (let mem = mem_of (ipk_payload k)
      in \<lparr>p_cur_ts = ipk_ts k, p_seq = ntohl (ld32 mem 4), p_ack_seq = ntohl (ld32 mem 8),
          p_window = ntohs (ld16 mem 14), p_payload = drop (4 * doff k) (ipk_payload k),
          p_saddr = ipk_saddr k, p_daddr = ipk_daddr k, p_ip_id = ipk_id k,
          p_tcph = \<lparr>th_source = ld16 mem 0, th_dest = ld16 mem 2, th_ack_seq = ld32 mem 8,
            th_syn = hdr_flag k TCP_FLAG_SYN, th_fin = hdr_flag k TCP_FLAG_FIN, th_rst = hdr_flag k TCP_FLAG_RST,
            th_psh = hdr_flag k TCP_FLAG_PSH, th_ack = hdr_flag k TCP_FLAG_ACK,
            th_opts = take (4 * doff k - 20) (drop 20 (ipk_payload k))\<rparr>\<rparr>)"

section \<open>Finding and creating the stream\<close>

text \<open>Every stream monitor whose filter lets the SYN pass is marked; the marks are never cleared.\<close>

definition is_stream_monitor :: "mtcp_manager \<Rightarrow> ref \<Rightarrow> bool" where
  "is_stream_monitor m l \<longleftrightarrow> socktype (msmap m (ml_socket (mlisteners m l))) = MOS_SOCK_MONITOR_STREAM"

definition mark_syn_hit :: "ref \<Rightarrow> mtcp_manager \<Rightarrow> mtcp_manager" where
  "mark_syn_hit l m = m\<lparr>mlisteners := (mlisteners m)(l := (mlisteners m l)\<lparr>ml_syn_hit := True\<rparr>)\<rparr>"

definition syn_hits :: "mos_config \<Rightarrow> pkt_ctx \<Rightarrow> mtcp_manager \<Rightarrow> ref list" where
  "syn_hits cfg p m = filter (\<lambda>l. is_stream_monitor m l \<and> syn_filter cfg l p) (monitors m)"

definition listens_on :: "mos_config \<Rightarrow> mtcp_manager \<Rightarrow> u32 \<Rightarrow> u16 \<Rightarrow> bool" where
  "listens_on cfg m ip port \<longleftrightarrow>
     (case listener m of
        None \<Rightarrow> False
      | Some ln \<Rightarrow>
          (case lst_socket (listeners m ! ln) of
             None \<Rightarrow> False
           | Some k \<Rightarrow>
               let addr = sk_saddr (smap m k)
               in sin_port addr = port \<and>
                  (if sin_addr addr \<noteq> 0 then ip = sin_addr addr else ip \<in> set (netdev_ips cfg))))"

definition DetectStreamType :: "mos_config \<Rightarrow> pkt_ctx \<Rightarrow> u32 \<Rightarrow> u16 \<Rightarrow> mtcp_manager \<Rightarrow> u32 \<times> mtcp_manager" where
  "DetectStreamType cfg p ip port m =
     (let hits = (if num_msp m > 0 then syn_hits cfg p m else []);
          m = fold mark_syn_hit hits m
      in ((if hits \<noteq> [] then STREAM_TYPE MOS_SOCK_MONITOR_STREAM_ACTIVE else 0)
            OR (if listens_on cfg m ip port then STREAM_TYPE MOS_SOCK_STREAM else 0), m))"

definition CreateServerStream :: "mos_config \<Rightarrow> u32 \<Rightarrow> pkt_ctx \<Rightarrow> mtcp_manager \<Rightarrow> (ref option \<times> mtcp_manager) option" where
  "CreateServerStream cfg ty p m =
     (case CreateTCPStream cfg None ty (p_daddr p) (th_dest (p_tcph p)) (p_saddr p) (th_source (p_tcph p)) None m of
        None \<Rightarrow> None
      | Some (None, m) \<Rightarrow> Some (None, m)
      | Some (Some s, m) \<Rightarrow>
          let t = (mod_snd (\<lambda>v. v\<lparr>peer_wnd := ucast (p_window p), cwnd := 1\<rparr>)
                     (mod_rcv (\<lambda>r. r\<lparr>irs := p_seq p\<rparr>) (strm m s)))\<lparr>rcv_nxt := p_seq p\<rparr>
          in map_option (\<lambda>t. (Some s, mod_strm s (\<lambda>_. t) m))
               (ParseTCPOptions (p_cur_ts p) (opt_mem p) (opt_len p) t))"

definition FindStream :: "pkt_ctx \<Rightarrow> mtcp_manager \<Rightarrow> u32 \<times> ref option" where
  "FindStream p m = HTSearch (flow_probe (p_daddr p, th_dest (p_tcph p), p_saddr p, th_source (p_tcph p))) m"

definition CreateStream :: "mos_config \<Rightarrow> u32 \<Rightarrow> pkt_ctx \<Rightarrow> mtcp_manager \<Rightarrow> (ref option \<times> mtcp_manager) option" where
  "CreateStream cfg hash p m =
     (if th_syn (p_tcph p) \<and> \<not> th_ack (p_tcph p) then
        (let (ty, m) = DetectStreamType cfg p (p_daddr p) (th_dest (p_tcph p)) m
         in if ty = 0 then Some (None, m)
            else if ty = STREAM_TYPE MOS_SOCK_STREAM then CreateServerStream cfg ty p m
            else if ty AND STREAM_TYPE MOS_SOCK_MONITOR_STREAM_ACTIVE \<noteq> 0 then
              CreateClientTCPStream cfg None ty (p_saddr p) (th_source (p_tcph p)) (p_daddr p) (th_dest (p_tcph p)) (Some hash) m
            else Some (None, m))
      else Some (None, m))"

section \<open>Handling the packet\<close>

definition HandleSockStream :: "mos_config \<Rightarrow> ref \<Rightarrow> pkt_ctx \<Rightarrow> mtcp_manager \<Rightarrow> mtcp_manager option" where
  "HandleSockStream cfg s p m = do {
     m \<leftarrow> UpdateRecvTCPContext cfg s p m;
     DoActionEndTCPPacket cfg s p m
   }"

definition monitor_done :: "mos_config \<Rightarrow> tcp_stream \<Rightarrow> bool" where
  "monitor_done cfg t \<longleftrightarrow> (state t = TCP_ST_TIME_WAIT \<and> tcp_tw_interval cfg = 0)
     \<or> state t = TCP_ST_CLOSED_RSVD \<or> \<not> status_mgmt t"

text \<open>
  After the monitors have seen the packet, the source goes on with the sending side's pair
  without looking whether there is one.
\<close>

definition HandleMonitorStream :: "mos_config \<Rightarrow> ref \<Rightarrow> ref option \<Rightarrow> pkt_ctx \<Rightarrow> mtcp_manager \<Rightarrow> mtcp_manager option" where
  "HandleMonitorStream cfg s rcv p m = do {
     m \<leftarrow> UpdateMonitor cfg s rcv p True m;
     r \<leftarrow> pair_stream (strm m s);
     (if HAS_STREAM_TYPE (strm m r) MOS_SOCK_STREAM then DoActionEndTCPPacket cfg r p m
      else if stream_type (strm m r) = stream_type (strm m s)
              \<and> IS_STREAM_TYPE (strm m r) MOS_SOCK_MONITOR_STREAM_ACTIVE
              \<and> monitor_done cfg (strm m r) \<and> monitor_done cfg (strm m s)
      then DestroyTCPStream cfg r m
      else Some m)
   }"

definition raw_in_callbacks :: "mtcp_manager \<Rightarrow> mtcp_manager" where
  "raw_in_callbacks m =
     fold (\<lambda>l m. let k = ml_socket (mlisteners m l) in
        if socktype (msmap m k) = MOS_SOCK_MONITOR_RAW
        then HandleCallback MOS_NULL k MOS_SIDE_BOTH MOS_ON_PKT_IN m else m) (monitors m) m"

definition orphan_callbacks :: "mos_config \<Rightarrow> pkt_ctx \<Rightarrow> u64 \<Rightarrow> mtcp_manager \<Rightarrow> mtcp_manager" where
  "orphan_callbacks cfg p ev m =
     fold (\<lambda>l m. if orphan_filter cfg l p
        then HandleCallback MOS_NULL (ml_socket (mlisteners m l)) MOS_SIDE_BOTH ev m else m) (monitors m) m"

text \<open>A segment that belongs to no connection is answered with a reset, unless it is one.\<close>

definition orphan_packet :: "mos_config \<Rightarrow> pkt_ctx \<Rightarrow> mtcp_manager \<Rightarrow> mtcp_manager option" where
  "orphan_packet cfg p m =
     (let m = orphan_callbacks cfg p MOS_ON_ORPHAN m
      in if listener m \<noteq> None \<and> \<not> th_rst (p_tcph p)
         then map_option snd (SendTCPPacketStandalone cfg (p_daddr p) (th_dest (p_tcph p)) (p_saddr p) (th_source (p_tcph p))
                0 (p_seq p + ucast (p_payloadlen p) + 1) 0 (TCP_FLAG_RST OR TCP_FLAG_ACK) [] (p_cur_ts p) 0 m)
         else Some m)"

definition stream_packet :: "mos_config \<Rightarrow> ref \<Rightarrow> pkt_ctx \<Rightarrow> mtcp_manager \<Rightarrow> mtcp_manager option" where
  "stream_packet cfg s p m =
     (let m = mod_strm s (\<lambda>t. t\<lparr>cb_events := MOS_ON_PKT_IN\<rparr>) m
      in if IS_STREAM_TYPE (strm m s) MOS_SOCK_STREAM then HandleSockStream cfg s p m
         else if HAS_STREAM_TYPE (strm m s) MOS_SOCK_MONITOR_STREAM_ACTIVE
         then HandleMonitorStream cfg s (pair_stream (strm m s)) p m
         else None)"

definition ProcessInTCPPacket :: "mos_config \<Rightarrow> ip_packet \<Rightarrow> mtcp_manager \<Rightarrow> (int \<times> mtcp_manager) option" where
  "ProcessInTCPPacket cfg k m =
     (let p = FillInPacketContext k;
          m = raw_in_callbacks m
      in if length (ipk_payload k) < 4 * doff k then Some (-1, m)
         else if TCPCalcChecksum (ipk_payload k) (ipk_saddr k) (ipk_daddr k) \<noteq> 0 then Some (-1, m)
         else (case FindStream p m of
             (_, Some s) \<Rightarrow> map_option (\<lambda>m. (1, m)) (stream_packet cfg s p m)
           | (hash, None) \<Rightarrow>
               if listener m = None \<and> num_msp m = 0 then Some (1, m)
               else (case CreateStream cfg hash p m of
                   None \<Rightarrow> None
                 | Some (Some s, m) \<Rightarrow> map_option (\<lambda>m. (1, m)) (stream_packet cfg s p m)
                 | Some (None, m) \<Rightarrow> map_option (\<lambda>m. (1, m)) (orphan_packet cfg p m))))"

end
