(* ===== verification/Monitor_Facts.thy ===== *)
theory Monitor_Facts
  imports Tcp_Input Send_Life
begin

text \<open>
  A SYN that a monitor wants to see when the pools have room for one direction of the
  connection only.
\<close>

section \<open>The pair of a destroyed stream\<close>

lemma reg_part_pair: "reg_part t' = reg_part t \<Longrightarrow> pair_stream t' = pair_stream t"
  by (simp add: reg_part_def)

lemma unregister_pair:
  assumes u: "unregister s m = Some m'" and p: "pair_stream (strm m s) = None"
  shows "pair_stream (strm m' s) = None"
proof -
  obtain k mh where h: "HTRemove s m = Some (k, mh)" "streams mh = streams m"
    using u by (auto simp: unregister_def HTRemove_def Let_def split: option.splits)
  define m2 where "m2 = mod_strm s (\<lambda>t. t\<lparr>on_hash_table := False\<rparr>) (mh\<lparr>flow_cnt := flow_cnt mh - 1\<rparr>)"
  define m3 where "m3 = drop_monitors s (map fst (msocks (strm m2 s))) m2"
  have m': "m' = free_stream s (unpair s m3)" using u h(1) by (simp add: unregister_def m2_def m3_def Let_def)
  have "kept s m2 m3" unfolding m3_def by (rule drop_monitors_kept)
  then have "pair_stream (strm m3 s) = pair_stream (strm m2 s)" by (simp add: kept_def reg_view_def)
  moreover have "strm mh s = strm m s" using h(2) by (simp add: strm_def)
  ultimately have "pair_stream (strm m3 s) = None" using p by (simp add: m2_def)
  then show ?thesis by (simp add: m' unpair_def free_stream_def)
qed

lemma DestroySingle_pair:
  assumes inv: "life_inv cfg L m" and s: "s \<in> L" and d: "DestroySingleTCPStream cfg s m = Some m'"
    and p: "pair_stream (strm m s) = None"
  shows "pair_stream (strm m' s) = None"
proof -
  have lo: "lists_ok cfg L m" and tl: "table_live L m" and li: "\<forall>w \<in> L. listed_ok cfg (strm m w)"
    using inv by (simp_all add: life_inv_def)
  define m1 where "m1 = conn_end_callbacks s (mod_strm s (\<lambda>t. t\<lparr>state := TCP_ST_CLOSED_RSVD\<rparr>) m)"
  have st1: "strm m1 w = (if w = s then (strm m s)\<lparr>state := TCP_ST_CLOSED_RSVD\<rparr> else strm m w)" for w
    using conn_end_frame(1)[of s "mod_strm s (\<lambda>t. t\<lparr>state := TCP_ST_CLOSED_RSVD\<rparr>) m"]
    by (simp add: m1_def strm_def mod_strm_def)
  have "lists_rest m1 = lists_rest m"
    using conn_end_frame(2)[of s "mod_strm s (\<lambda>t. t\<lparr>state := TCP_ST_CLOSED_RSVD\<rparr>) m"]
    by (simp add: m1_def life_rest_def lists_rest_def)
  then have lo1: "lists_ok cfg L m1"
    using lo lists_ok_view[of m1 m L cfg] by (simp add: st1 list_view_def)
  have li1: "listed_ok cfg (strm m1 s)" and oh1: "on_hash_table (strm m1 s)"
    using li s tl by (simp_all add: st1 listed_ok_def HAS_STREAM_TYPE_def sender_off_def table_live_def)
  obtain m2 where t2: "teardown cfg s m1 = Some m2" "torn s m1 m2"
    by (rule teardown_step[OF lo1 s li1 oh1])
  have p2: "pair_stream (strm m2 s) = None"
    using t2(2) p st1[of s] reg_part_pair[of "strm m2 s" "strm m1 s"] by (simp add: torn_def)
  let ?b = "if HAS_STREAM_TYPE (strm m1 s) MOS_SOCK_STREAM \<and> is_bound_addr (strm m1 s)
            then Some \<lparr>sin_addr = saddr (strm m1 s), sin_port = sport (strm m1 s)\<rparr> else None"
  obtain m3 where m3: "unregister s m2 = Some m3" "(case ?b of None \<Rightarrow> Some m3 | Some addr \<Rightarrow> release_address cfg addr m3) = Some m'"
    using d t2(1) unfolding DestroySingle_parts m1_def[symmetric] Let_def by (cases "unregister s m2") simp_all
  have "streams m' = streams m3"
    using m3(2) by (auto simp: release_address_def split: if_splits option.splits)
  then show ?thesis using unregister_pair[OF m3(1) p2] by (simp add: strm_def)
qed

section \<open>A monitored SYN without room for its second direction\<close>

lemma run_hooks_frame [simp]:
  "strm (run_hooks h ws sd ev m) s = strm m s"
  by (simp add: run_hooks_trace)

text \<open>Only fields of \<open>s\<close> that no list depends on, the trace and the inactivity list change.\<close>

lemma monitor_sender_syn:
  assumes inv: "life_inv cfg L m" and s: "s \<in> L" and syn: "th_syn (p_tcph p)" "\<not> th_ack (p_tcph p)"
    and st: "state (strm m s) \<le> TCP_ST_SYN_SENT" and to: "tcp_timeout cfg > 0"
  obtains m' where "monitor_sender cfg s p True m = Some m'" "life_inv cfg L m'" "flow_pool m' = flow_pool m"
    "pair_stream (strm m' s) = pair_stream (strm m s)" "side (strm m' s) = side (strm m s)"
    "stream_type (strm m' s) = stream_type (strm m s)" "flow_lookup m' = flow_lookup m"
proof (cases "status_mgmt (strm m s)")
  case False
  then have "monitor_sender cfg s p True m = Some m" by (simp add: monitor_sender_def)
  then show ?thesis by (rule that) (use inv in simp_all)
next
  case True
  define m1 where "m1 = mod_strm s (\<lambda>t. t\<lparr>cb_events := MOS_ON_PKT_IN\<rparr>) m"
  define m2 where "m2 = mod_strm s (UpdatePassiveSendTCPContext_SynSent p) m1"
  define m3 where "m3 = AddtoTimeoutList s m2"
  define m4 where "m4 = mod_strm s (\<lambda>t. t\<lparr>allow_pkt_modification := True\<rparr>) m3"
  define m5 where "m5 = run_hooks MOS_HK_SND (send_order (strm m4 s)) (side (strm m4 s)) (cb_events (strm m4 s)) m4"
  define m6 where "m6 = mod_strm s (\<lambda>t. t\<lparr>allow_pkt_modification := False\<rparr>) m5"
  have "UpdatePassiveSendTCPContext cfg s p m1 = Some m3"
    using syn st by (simp add: UpdatePassiveSendTCPContext_def m1_def m2_def m3_def)
  then have ms: "monitor_sender cfg s p True m = Some m6"
    using True unfolding monitor_sender_def m1_def[symmetric] Let_def by (simp add: m4_def m5_def m6_def)
  have "life_inv cfg L m1" unfolding m1_def by (rule life_inv_mod_strm[OF inv]) (simp_all add: reg_view_def flow_key_def)
  then have i2: "life_inv cfg L m2" unfolding m2_def
    by (rule life_inv_mod_strm)
      (simp_all add: UpdatePassiveSendTCPContext_SynSent_def Let_def reg_view_def flow_key_def list_view_snd raise_cb_def)
  have v3: "strm m3 w = (if w = s then (strm m2 s)\<lparr>on_timeout_list := True\<rparr> else strm m2 w)" for w
    by (simp add: m3_def AddtoTimeoutList_def strm_mod)
  have l3: "lists_ok cfg L m3" unfolding m3_def using i2 s by (auto simp: life_inv_def)
  have i3: "life_inv cfg L m3"
    by (rule life_inv_cong[OF i2 l3])
      (use i2 to in \<open>auto simp: v3 life_inv_def listed_ok_def flow_key_def sender_off_def HAS_STREAM_TYPE_def\<close>,
       simp_all add: m3_def AddtoTimeoutList_def)
  have i4: "life_inv cfg L m4" unfolding m4_def by (rule life_inv_mod_strm[OF i3]) (simp_all add: reg_view_def flow_key_def)
  have lp: "lists_part m5 = lists_part m4" by (simp add: m5_def run_hooks_trace lists_part_def)
  have "lists_ok cfg L m5" unfolding lists_ok_part[OF lp] using i4 by (simp add: life_inv_def)
  then have i5: "life_inv cfg L m5"
    by (rule life_inv_cong[OF i4]) (use i4 in \<open>simp_all add: m5_def life_inv_def\<close>, simp_all add: run_hooks_trace)
  have i6: "life_inv cfg L m6" unfolding m6_def by (rule life_inv_mod_strm[OF i5]) (simp_all add: reg_view_def flow_key_def)
  show ?thesis
  proof (rule that[OF ms i6])
    have f: "flow_key (strm m6 w) = flow_key (strm m w) \<and> pair_stream (strm m6 w) = pair_stream (strm m w)
        \<and> side (strm m6 w) = side (strm m w) \<and> stream_type (strm m6 w) = stream_type (strm m w)" for w
      by (simp add: m6_def m5_def m4_def v3 m2_def m1_def strm_mod flow_key_def UpdatePassiveSendTCPContext_SynSent_def Let_def)
    show "flow_pool m6 = flow_pool m"
      by (simp add: m6_def m5_def run_hooks_trace m4_def m3_def AddtoTimeoutList_def m2_def m1_def)
    have "tcp_flow_table m6 = tcp_flow_table m"
      by (simp add: m6_def m5_def run_hooks_trace m4_def m3_def AddtoTimeoutList_def m2_def m1_def)
    then show "flow_lookup m6 = flow_lookup m" using f by (intro flow_lookup_cong) simp_all
  qed (simp_all add: m6_def m5_def m4_def v3 m2_def m1_def UpdatePassiveSendTCPContext_SynSent_def Let_def)
qed

text \<open>
  C31. A monitored client that opens a connection when the stream pool is exhausted: the
  receiving side cannot be created, \<open>UpdateMonitor\<close> destroys the client's stream, and
  \<open>HandleMonitorStream\<close> goes on with the pair of the stream it has just freed, which is null.
  The packet that should have been dropped (and, had a monitor been able to ask for it,
  forwarded) is not handled: the dereference of the null pair is what the code runs into.
\<close>

theorem monitor_syn_crash:
  assumes inv: "life_inv cfg L m" and s: "s \<in> L" and ty: "\<not> HAS_STREAM_TYPE (strm m s) MOS_SOCK_STREAM"
    and cli: "side (strm m s) = MOS_SIDE_CLI" and st: "state (strm m s) \<le> TCP_ST_SYN_SENT"
    and pr: "pair_stream (strm m s) = None" and syn: "th_syn (p_tcph p)" "\<not> th_ack (p_tcph p)"
    and to: "tcp_timeout cfg > 0" and full: "fst (MPAllocateChunk (flow_pool m)) = None"
  shows "(\<exists>m'. UpdateMonitor cfg s None p True m = Some m' \<and> life_inv cfg (L - {s}) m' \<and> pair_stream (strm m' s) = None)
    \<and> HandleMonitorStream cfg s None p m = None"
proof -
  obtain m1 where m1: "monitor_sender cfg s p True m = Some m1" "life_inv cfg L m1" "flow_pool m1 = flow_pool m"
    "pair_stream (strm m1 s) = pair_stream (strm m s)" "side (strm m1 s) = side (strm m s)"
    "stream_type (strm m1 s) = stream_type (strm m s)"
    using monitor_sender_syn[OF inv s syn st to] by metis
  have "MPAllocateChunk (flow_pool m1) = (None, flow_pool m1)"
    using full m1(3) exact_pool_none[of "flow_pool m" "snd (MPAllocateChunk (flow_pool m))"] by (simp add: prod_eq_iff)
  moreover have "m1\<lparr>flow_pool := flow_pool m1\<rparr> = m1" by (cases m1) simp
  ultimately have "alloc_stream m1 = (None, m1)" by (simp add: alloc_stream_def)
  then have "AttachServerTCPStream cfg s a b c d m1 = Some (None, m1)" for a b c d
    by (simp add: AttachServerTCPStream_def CreateTCPStream_def)
  then have at: "attach_receiver cfg s p m1 = map_option (\<lambda>m. (None, m)) (DestroyTCPStream cfg s m1)"
    using cli m1(5) by (simp add: attach_receiver_def)
  have p1: "pair_stream (strm m1 s) = None" using pr m1(4) by simp
  have "address_held cfg s m1" using ty m1(6) by (simp add: address_held_def HAS_STREAM_TYPE_def)
  then obtain m' where d: "DestroySingleTCPStream cfg s m1 = Some m'" "life_inv cfg (L - {s}) m'"
    using DestroySingle_life[OF m1(2) s] by metis
  have p': "pair_stream (strm m' s) = None" by (rule DestroySingle_pair[OF m1(2) s d(1) p1])
  have "DestroyTCPStream cfg s m1 = Some m'" using d(1) p1 by (simp add: DestroyTCPStream_def)
  then have "UpdateMonitor cfg s None p True m = Some m'" using at m1(1) by (simp add: UpdateMonitor_def)
  then show ?thesis using d(2) p' by (simp add: HandleMonitorStream_def)
qed

text \<open>A pool with room for one stream, which the client's direction takes.\<close>

definition narrow_demo :: mtcp_manager where
  "narrow_demo = life_demo\<lparr>flow_pool := the (MPCreate True (\<lambda>_. \<lparr>mc_free_chunks = 0, mc_next = None\<rparr>) 16 16 0)\<rparr>"

lemma narrow_demo_inv: "life_inv cfg {} narrow_demo"
proof -
  let ?mp = "MPCreate True (\<lambda>_. \<lparr>mc_free_chunks = 0, mc_next = None\<rparr>) 16 16 0"
  have s: "?mp = Some (the ?mp)" by (simp add: MPCreate_def Let_def)
  have "0 \<le> mp_total_chunks (the ?mp)" by (simp add: MPCreate_def Let_def)
  then have "exact_pool (flow_pool narrow_demo) {}" using MPCreate_ok[OF s] by (simp add: exact_pool_def narrow_demo_def)
  moreover have "rv_pool narrow_demo = rv_pool life_demo" "sv_pool narrow_demo = sv_pool life_demo"
    by (simp_all add: narrow_demo_def)
  ultimately have po: "pools_ok {} narrow_demo"
    using life_demo_inv[of cfg] by (simp add: pools_ok_def life_inv_def)
  have tl: "table_live {} narrow_demo"
    by (simp add: narrow_demo_def table_live_def table_ok_def table_streams_def bucket_def life_demo_def zero_mtcp_def)
  have lp: "lists_part narrow_demo = lists_part life_demo" by (simp add: narrow_demo_def lists_part_def)
  have "lists_ok cfg {} narrow_demo"
    unfolding lists_ok_part[OF lp] using life_demo_inv[of cfg] by (simp add: life_inv_def)
  then show ?thesis using po tl by (simp add: life_inv_def paired_def)
qed

theorem monitor_syn_crash_witness:
  "\<exists>m s m'. life_inv ack_cfg {s} m \<and> UpdateMonitor ack_cfg s None syn_pkt True m = Some m'
    \<and> HandleMonitorStream ack_cfg s None syn_pkt m = None"
proof -
  let ?ty = "STREAM_TYPE MOS_SOCK_MONITOR_STREAM_ACTIVE"
  let ?C = "CreateTCPStream ack_cfg None ?ty 1 2 3 4 None narrow_demo"
  have al: "fst (alloc_stream narrow_demo) \<noteq> None"
    by (simp add: alloc_stream_def narrow_demo_def life_demo_def life_pool_def MPCreate_def MPAllocateChunk_def Let_def)
  have no: "?C \<noteq> Some (None, m')" for m'
    using al by (auto simp: CreateTCPStream_def HTInsert_def Let_def split: prod.splits option.splits if_splits)
  have full: "fst (MPAllocateChunk (flow_pool m)) = None" if "?C = Some (Some s, m)" for s m
    using that by (auto simp: CreateTCPStream_def HTInsert_def Let_def alloc_stream_def narrow_demo_def life_demo_def
        life_pool_def zero_mtcp_def MPCreate_def MPAllocateChunk_def name_stream_def init_stream_def
        HAS_STREAM_TYPE_def STREAM_TYPE_def set_vars_def strm_mod split: prod.splits option.splits if_splits)
  have n: "flow_lookup narrow_demo (1, 2, 3, 4) = None"
    by (simp add: flow_lookup_def HTSearch_def narrow_demo_def life_demo_def zero_mtcp_def)
  have ty: "?ty AND STREAM_TYPE MOS_SOCK_STREAM \<noteq> 0 \<longrightarrow> GetOutputInterface ack_cfg 3 \<noteq> None"
    by (simp add: STREAM_TYPE_def)
  have h: "None = (None :: u32 option) \<or> None = Some (HashFlow (flow_probe (1, 2, 3, 4)))" by simp
  obtain s m where c: "life_inv ack_cfg {s} m" "created_stream ack_cfg ?ty (1, 2, 3, 4) (strm m s)" "?C = Some (Some s, m)"
    by (rule CreateTCPStream_life[OF narrow_demo_inv n h ty, where sock = None]) (use no in auto)
  define m2 where "m2 = mod_strm s (\<lambda>t. t\<lparr>side := MOS_SIDE_CLI\<rparr>) m"
  have inv: "life_inv ack_cfg {s} m2" unfolding m2_def
    by (rule life_inv_mod_strm[OF c(1)]) (simp_all add: reg_view_def flow_key_def)
  have t: "\<not> HAS_STREAM_TYPE (strm m2 s) MOS_SOCK_STREAM" "side (strm m2 s) = MOS_SIDE_CLI"
    "state (strm m2 s) \<le> TCP_ST_SYN_SENT" "pair_stream (strm m2 s) = None" "flow_pool m2 = flow_pool m"
    using c(2) by (simp_all add: m2_def created_stream_def HAS_STREAM_TYPE_def STREAM_TYPE_def tcp_state_order)
  have p: "th_syn (p_tcph syn_pkt)" "\<not> th_ack (p_tcph syn_pkt)" "tcp_timeout ack_cfg > 0"
    by (simp_all add: syn_pkt_def ack_demo_pkt_def ack_cfg_def)
  show ?thesis
    using monitor_syn_crash[OF inv _ t(1-4) p] full[OF c(3)] t(5) inv by auto
qed

end
