(* ===== verification/Pipes.thy ===== *)
theory Pipes
  imports Sockets
begin

text \<open>
  Pipes between application threads (\<open>pipe.c\<close>): a circular byte buffer with two sockets
  on it, either of which may read and write.  The calls are those of a core whose manager
  \<open>GetMTCPManager\<close> finds.  The result of a call is a sum: \<open>Inl\<close> is the return value \<open>-1\<close>
  with the error code it leaves in \<open>errno\<close>.
\<close>

section \<open>Socket options\<close>

definition MTCP_NONBLOCK :: u32 where "MTCP_NONBLOCK = 0x01"
definition MTCP_ADDR_BIND :: u32 where "MTCP_ADDR_BIND = 0x02"

text \<open>The enumerator \<open>0x1 << 31\<close> is a negative \<open>int\<close>, sign-extended where it meets 64 bits.\<close>

definition MOS_EPOLLET :: u64 where "MOS_EPOLLET = 0xFFFFFFFF80000000"

definition nonblocking :: "socket_map \<Rightarrow> bool" where
  "nonblocking sk \<longleftrightarrow> sk_opts sk AND MTCP_NONBLOCK \<noteq> 0"

definition level_triggered :: "u64 \<Rightarrow> socket_map \<Rightarrow> bool" where
  "level_triggered ev sk \<longleftrightarrow> epoll sk AND ev \<noteq> 0 \<and> epoll sk AND MOS_EPOLLET = 0"

section \<open>The buffer\<close>

definition PIPE_BUF_SIZE :: int where "PIPE_BUF_SIZE = 10240"

definition sk_pipe :: "socket_map \<Rightarrow> nat option" where
  "sk_pipe sk = (case sk_obj sk of PipeObj p \<Rightarrow> Some p | _ \<Rightarrow> None)"

definition mod_pipe :: "nat \<Rightarrow> (pipe \<Rightarrow> pipe) \<Rightarrow> mtcp_manager \<Rightarrow> mtcp_manager" where
  "mod_pipe p f m = m\<lparr>pipes := (pipes m)[p := f (pipes m ! p)]\<rparr>"

definition copy_out :: "int \<Rightarrow> pipe \<Rightarrow> u8 list \<times> pipe" where
  "copy_out n pp =
     (if pp_buf_off pp + n < pp_buf_size pp then
        (take (nat n) (drop (nat (pp_buf_off pp)) (pp_buf pp)),
         pp\<lparr>pp_buf_off := pp_buf_off pp + n, pp_buf_len := pp_buf_len pp - n\<rparr>)
      else
        (let temp_read = pp_buf_size pp - pp_buf_off pp
         in (take (nat temp_read) (drop (nat (pp_buf_off pp)) (pp_buf pp)) @ take (nat (n - temp_read)) (pp_buf pp),
             pp\<lparr>pp_buf_off := n - temp_read, pp_buf_len := pp_buf_len pp - n\<rparr>)))"

text \<open>\<open>memcpy\<close> into the buffer at an offset.\<close>

definition poke :: "nat \<Rightarrow> 'a list \<Rightarrow> 'a list \<Rightarrow> 'a list" where
  "poke i xs buf = take i buf @ xs @ drop (i + length xs) buf"

definition copy_in :: "u8 list \<Rightarrow> pipe \<Rightarrow> pipe" where
  "copy_in xs pp =
     (let n = int (length xs) in
      if pp_buf_tail pp + n < pp_buf_size pp then
        pp\<lparr>pp_buf := poke (nat (pp_buf_tail pp)) xs (pp_buf pp), pp_buf_tail := pp_buf_tail pp + n,
           pp_buf_len := pp_buf_len pp + n\<rparr>
      else
        (let temp_write = nat (pp_buf_size pp - pp_buf_tail pp)
         in pp\<lparr>pp_buf := poke 0 (drop temp_write xs) (poke (nat (pp_buf_tail pp)) (take temp_write xs) (pp_buf pp)),
               pp_buf_tail := n - int temp_write, pp_buf_len := pp_buf_len pp + n\<rparr>))"

section \<open>The calls\<close>

text \<open>
  \<open>alloc_pp\<close> and \<open>alloc_buf\<close> are the outcomes of the allocations, \<open>garbage\<close> what the fresh
  buffer holds; the result are the two socket numbers.
\<close>

definition mtcp_pipe :: "bool \<Rightarrow> bool \<Rightarrow> u8 list \<Rightarrow> mtcp_manager \<Rightarrow> (errno + ref \<times> ref) \<times> mtcp_manager" where
  "mtcp_pipe alloc_pp alloc_buf garbage m =
     (case AllocateSocket MOS_SOCK_PIPE m of
        (None, m) \<Rightarrow> (Inl ENFILE, m)
      | (Some k0, m) \<Rightarrow>
          (case AllocateSocket MOS_SOCK_PIPE m of
             (None, m) \<Rightarrow> (Inl ENFILE, FreeSocket k0 MOS_SOCK_PIPE m)
           | (Some k1, m) \<Rightarrow>
               if \<not> alloc_pp \<or> \<not> alloc_buf then
                 (Inl NO_ERRNO, FreeSocket k1 MOS_SOCK_PIPE (FreeSocket k0 MOS_SOCK_PIPE m))
               else
                 (let p = length (pipes m);
                      pp = \<lparr>pp_state = PIPE_ACTIVE, pp_socket0 = Some k0, pp_socket1 = Some k1, pp_buf = garbage,
                            pp_buf_off = 0, pp_buf_tail = 0, pp_buf_len = 0, pp_buf_size = PIPE_BUF_SIZE\<rparr>
                  in (Inr (k0, k1),
                      mod_sock k1 (\<lambda>sk. sk\<lparr>sk_obj := PipeObj p\<rparr>) (mod_sock k0 (\<lambda>sk. sk\<lparr>sk_obj := PipeObj p\<rparr>)
                        (m\<lparr>pipes := pipes m @ [pp]\<rparr>))))))"

definition RaiseEventToPair :: "ref \<Rightarrow> u64 \<Rightarrow> mtcp_manager \<Rightarrow> mtcp_manager option" where
  "RaiseEventToPair k event m =
     (case sk_pipe (smap m k) of
        None \<Rightarrow> None
      | Some p \<Rightarrow>
          (let pp = pipes m ! p
           in case (if pp_socket0 pp = Some k then pp_socket1 pp else pp_socket0 pp) of
                None \<Rightarrow> None
              | Some k' \<Rightarrow>
                  Some (if nonblocking (smap m k')
                        then (if epoll (smap m k') \<noteq> 0 then snd (AddEpollEvent USR_EVENT_QUEUE k' event m) else m)
                        else m)))"

text \<open>The part of \<open>PipeRead\<close> under the lock, which a waiting reader evaluates again.\<close>

definition pipe_read_locked :: "ref \<Rightarrow> nat \<Rightarrow> int \<Rightarrow> mtcp_manager \<Rightarrow> ((errno + u8 list) \<times> mtcp_manager) option" where
  "pipe_read_locked k p len m =
     (let sk = smap m k; pp = pipes m ! p; to_read = min len (pp_buf_len pp) in
      if \<not> nonblocking sk \<and> pp_buf_len pp = 0 then Some (Inl WAITS, m)
      else if to_read \<le> 0 \<and> pp_state pp = PIPE_ACTIVE then Some (Inl EAGAIN, m)
      else if to_read \<le> 0 \<and> pp_state pp = PIPE_CLOSE_WAIT then Some (Inr [], m)
      else
        (let to_notify = (pp_buf_len pp = pp_buf_size pp);
             (bytes, pp') = copy_out to_read pp;
             m = mod_pipe p (\<lambda>_. pp') m
         in map_option (\<lambda>m.
              (Inr bytes,
               if pp_buf_len (pipes m ! p) > 0 then
                 (if level_triggered MOS_EPOLLIN (smap m k)
                  then snd (AddEpollEvent USR_SHADOW_EVENT_QUEUE k MOS_EPOLLIN m) else m)
               else if pp_state (pipes m ! p) = PIPE_CLOSE_WAIT \<and> pp_buf_len (pipes m ! p) = 0
               then snd (AddEpollEvent USR_SHADOW_EVENT_QUEUE k MOS_EPOLLIN m)
               else m))
              (if to_notify then RaiseEventToPair k MOS_EPOLLOUT m else Some m)))"

definition PipeRead :: "mos_config \<Rightarrow> int \<Rightarrow> int \<Rightarrow> mtcp_manager \<Rightarrow> ((errno + u8 list) \<times> mtcp_manager) option" where
  "PipeRead cfg pipeid len m =
     (case GetSocket cfg pipeid of
        None \<Rightarrow> Some (Inl EBADF, m)
      | Some k \<Rightarrow>
          if socktype (smap m k) \<noteq> MOS_SOCK_PIPE then Some (Inl EBADF, m)
          else (case sk_pipe (smap m k) of
             None \<Rightarrow> Some (Inl EBADF, m)
           | Some p \<Rightarrow>
               (let pp = pipes m ! p in
                if pp_state pp = PIPE_CLOSED then Some (Inl EINVAL, m)
                else if pp_state pp = PIPE_CLOSE_WAIT \<and> pp_buf_len pp = 0 then Some (Inr [], m)
                else if len \<le> 0 then
                  (if nonblocking (smap m k) then Some (Inl EAGAIN, m) else Some (Inr [], m))
                else pipe_read_locked k p len m)))"

definition pipe_write_locked :: "ref \<Rightarrow> nat \<Rightarrow> u8 list \<Rightarrow> mtcp_manager \<Rightarrow> ((errno + int) \<times> mtcp_manager) option" where
  "pipe_write_locked k p buf m =
     (let sk = smap m k; pp = pipes m ! p; to_write = min (int (length buf)) (pp_buf_size pp - pp_buf_len pp) in
      if \<not> nonblocking sk \<and> pp_buf_len pp = pp_buf_size pp then Some (Inl WAITS, m)
      else if to_write \<le> 0 then Some (Inl EAGAIN, m)
      else
        (let to_notify = (pp_buf_len pp = 0);
             m = mod_pipe p (copy_in (take (nat to_write) buf)) m
         in map_option (\<lambda>m.
              (Inr to_write,
               if pp_buf_len (pipes m ! p) < pp_buf_size (pipes m ! p) \<and> level_triggered MOS_EPOLLOUT (smap m k)
               then snd (AddEpollEvent USR_SHADOW_EVENT_QUEUE k MOS_EPOLLOUT m) else m))
              (if to_notify then RaiseEventToPair k MOS_EPOLLIN m else Some m)))"

definition PipeWrite :: "mos_config \<Rightarrow> int \<Rightarrow> u8 list \<Rightarrow> mtcp_manager \<Rightarrow> ((errno + int) \<times> mtcp_manager) option" where
  "PipeWrite cfg pipeid buf m =
     (case GetSocket cfg pipeid of
        None \<Rightarrow> Some (Inl EBADF, m)
      | Some k \<Rightarrow>
          if socktype (smap m k) \<noteq> MOS_SOCK_PIPE then Some (Inl EBADF, m)
          else (case sk_pipe (smap m k) of
             None \<Rightarrow> Some (Inl EBADF, m)
           | Some p \<Rightarrow>
               (let pp = pipes m ! p in
                if pp_state pp = PIPE_CLOSED then Some (Inl EINVAL, m)
                else if pp_state pp = PIPE_CLOSE_WAIT then Some (Inl EPIPE, m)
                else if buf = [] then
                  (if nonblocking (smap m k) then Some (Inl EAGAIN, m) else Some (Inr 0, m))
                else pipe_write_locked k p buf m)))"

definition RaisePendingPipeEvents :: "ref \<Rightarrow> mtcp_manager \<Rightarrow> int \<times> mtcp_manager" where
  "RaisePendingPipeEvents k m =
     (case sk_pipe (smap m k) of
        None \<Rightarrow> (-1, m)
      | Some p \<Rightarrow>
          (let pp = pipes m ! p in
           if pp_state pp = PIPE_CLOSED then (-1, m)
           else
             (let m = (if epoll (smap m k) AND MOS_EPOLLIN \<noteq> 0 \<and> (pp_buf_len pp > 0 \<or> pp_state pp = PIPE_CLOSE_WAIT)
                       then snd (AddEpollEvent USR_SHADOW_EVENT_QUEUE k MOS_EPOLLIN m) else m);
                  m = (if epoll (smap m k) AND MOS_EPOLLOUT \<noteq> 0 \<and> pp_buf_len pp < pp_buf_size pp
                       then snd (AddEpollEvent USR_SHADOW_EVENT_QUEUE k MOS_EPOLLOUT m) else m)
              in (0, m))))"

text \<open>
  The second close frees the pipe; it clears the pointer of both sockets, whatever they are
  used for by then.
\<close>

definition clear_obj :: "ref option \<Rightarrow> mtcp_manager \<Rightarrow> mtcp_manager" where
  "clear_obj k m = (case k of None \<Rightarrow> m | Some k \<Rightarrow> mod_sock k (\<lambda>sk. sk\<lparr>sk_obj := NullObj\<rparr>) m)"

definition PipeClose :: "mos_config \<Rightarrow> int \<Rightarrow> mtcp_manager \<Rightarrow> ((errno + int) \<times> mtcp_manager) option" where
  "PipeClose cfg pipeid m =
     (case GetSocket cfg pipeid of
        None \<Rightarrow> Some (Inl EBADF, m)
      | Some k \<Rightarrow>
          if socktype (smap m k) \<noteq> MOS_SOCK_PIPE then Some (Inl EINVAL, m)
          else (case sk_pipe (smap m k) of
             None \<Rightarrow> Some (Inr 0, m)
           | Some p \<Rightarrow>
               (let pp = pipes m ! p in
                if pp_state pp = PIPE_CLOSED then Some (Inr 0, m)
                else if pp_state pp = PIPE_ACTIVE then
                  map_option (\<lambda>m. (Inr 0, m))
                    (RaiseEventToPair k MOS_EPOLLIN (mod_pipe p (\<lambda>pp. pp\<lparr>pp_state := PIPE_CLOSE_WAIT\<rparr>) m))
                else Some (Inr 0, clear_obj (pp_socket1 pp) (clear_obj (pp_socket0 pp) m)))))"

end
