(* ===== verification/Pipe_Facts.thy ===== *)
theory Pipe_Facts
  imports Pipes "HOL-Library.Monad_Syntax"
begin

text \<open>
  A pipe is a bounded FIFO of bytes, whichever of its sockets reads and writes; and what
  closing its two ends does.
\<close>

section \<open>The buffer is a FIFO\<close>

definition pipe_ok :: "pipe \<Rightarrow> bool" where
  "pipe_ok pp \<longleftrightarrow> 0 < pp_buf_size pp \<and> int (length (pp_buf pp)) = pp_buf_size pp
     \<and> 0 \<le> pp_buf_off pp \<and> pp_buf_off pp < pp_buf_size pp \<and> 0 \<le> pp_buf_len pp \<and> pp_buf_len pp \<le> pp_buf_size pp
     \<and> pp_buf_tail pp = (pp_buf_off pp + pp_buf_len pp) mod pp_buf_size pp"

definition pipe_bytes :: "pipe \<Rightarrow> u8 list" where
  "pipe_bytes pp = take (nat (pp_buf_len pp)) (rotate (nat (pp_buf_off pp)) (pp_buf pp))"

lemma length_pipe_bytes: "pipe_ok pp \<Longrightarrow> int (length (pipe_bytes pp)) = pp_buf_len pp"
  by (auto simp: pipe_ok_def pipe_bytes_def)

lemma length_poke [simp]: "i + length xs \<le> length buf \<Longrightarrow> length (poke i xs buf) = length buf"
  by (simp add: poke_def)

lemma nth_poke:
  assumes "i + length xs \<le> length buf" "j < length buf"
  shows "poke i xs buf ! j = (if i \<le> j \<and> j < i + length xs then xs ! (j - i) else buf ! j)"
  using assms by (auto simp: poke_def nth_append min_def)

lemma wrap_mod:
  fixes a N :: nat
  assumes "a < 2 * N"
  shows "a mod N = (if a < N then a else a - N)"
  using assms by (simp add: le_mod_geq)

lemma copy_out_fifo:
  assumes ok: "pipe_ok pp" and n: "0 \<le> n" "n \<le> pp_buf_len pp" and c: "copy_out n pp = (bs, pp')"
  shows "bs = take (nat n) (pipe_bytes pp)" and "pipe_bytes pp' = drop (nat n) (pipe_bytes pp)" and "pipe_ok pp'"
    and "pp_buf_len pp' = pp_buf_len pp - n" and "pp_buf_size pp' = pp_buf_size pp"
proof -
  define N k l b where "N = length (pp_buf pp)" and "k = nat (pp_buf_off pp)" and "l = nat (pp_buf_len pp)"
    and "b = pp_buf pp"
  have N: "pp_buf_size pp = int N" "pp_buf_off pp = int k" "pp_buf_len pp = int l" "k < N" "l \<le> N" "length b = N"
    using ok by (auto simp: pipe_ok_def N_def k_def l_def b_def)
  obtain i where i: "n = int i" using n(1) nonneg_int_cases by blast
  then have "i \<le> l" using n(2) N(3) by simp
  note i = i this
  have pb: "pipe_bytes pp = take l (rotate k b)" by (simp add: pipe_bytes_def k_def l_def b_def)
  have rot: "rotate k b = drop k b @ take k b" using N(4,6) by (simp add: rotate_drop_take)
  have w: "nat (int i - (int N - int k)) = i + k - N" "nat (int N - int k) = N - k"
    by (simp_all add: nat_minus_as_int algebra_simps)
  show "bs = take (nat n) (pipe_bytes pp)"
  proof (cases "k + i < N")
    case True
    then have "bs = take i (drop k b)"
      using c unfolding i(1) copy_out_def N(1,2) b_def[symmetric] by (simp flip: of_nat_add)
    moreover have "i - (N - k) = 0" using True by simp
    ultimately show ?thesis using i N(6) unfolding pb rot by (simp add: min_absorb1)
  next
    case False
    then have "bs = drop k b @ take (i + k - N) b"
      using c N(6) unfolding i(1) copy_out_def N(1,2) b_def[symmetric] Let_def by (simp add: w flip: of_nat_add)
    moreover have "take i (drop k b) = drop k b" "i - (N - k) = i + k - N"
      "min (i + k - N) (min (l + k - N) k) = i + k - N" using False N(4-6) i(2) by simp_all
    ultimately show ?thesis using i N(6) unfolding pb rot by (simp add: min_absorb1)
  qed
  define k' where "k' = (k + i) mod N"
  have k': "pp_buf_off pp' = int k'" "pp_buf pp' = b"
    using c i N wrap_mod[of "k + i" N] by (auto simp: copy_out_def Let_def b_def[symmetric] k'_def of_nat_diff split: if_splits)
  have l': "pp_buf_len pp' = int (l - i)" "pp_buf_size pp' = int N" "pp_buf_tail pp' = pp_buf_tail pp"
    using c i N by (auto simp: copy_out_def Let_def of_nat_diff split: if_splits)
  have "take (l - i) (rotate k' b) = drop i (take l (rotate k b))"
  proof (rule nth_equalityI)
    fix j assume "j < length (take (l - i) (rotate k' b))"
    then have j: "j < l - i" using N by simp
    have "(k' + j) mod N = (k + (i + j)) mod N" by (simp add: k'_def mod_simps add.assoc)
    then show "take (l - i) (rotate k' b) ! j = drop i (take l (rotate k b)) ! j"
      using j N by (simp add: nth_rotate)
  qed (use N in simp)
  then show "pipe_bytes pp' = drop (nat n) (pipe_bytes pp)" unfolding pb
    by (simp add: pipe_bytes_def k' l'(1) i(1) del: of_nat_diff)
  have "(int k + int l) mod int N = (int k' + int (l - i)) mod int N"
    using i(2) by (simp add: k'_def mod_simps of_nat_diff of_nat_mod)
  then show "pipe_ok pp'" using ok N k' l' by (simp add: pipe_ok_def k'_def)
  show "pp_buf_len pp' = pp_buf_len pp - n" "pp_buf_size pp' = pp_buf_size pp"
    using l' i N by (simp_all add: of_nat_diff)
qed

lemma copy_in_fifo:
  assumes ok: "pipe_ok pp" and n: "int (length xs) \<le> pp_buf_size pp - pp_buf_len pp"
  shows "pipe_bytes (copy_in xs pp) = pipe_bytes pp @ xs" and "pipe_ok (copy_in xs pp)"
    and "pp_buf_len (copy_in xs pp) = pp_buf_len pp + int (length xs)" and "pp_buf_size (copy_in xs pp) = pp_buf_size pp"
proof -
  define N k l b t where "N = length (pp_buf pp)" and "k = nat (pp_buf_off pp)" and "l = nat (pp_buf_len pp)"
    and "b = pp_buf pp" and "t = (k + l) mod N"
  define n where "n = length xs"
  have N: "pp_buf_size pp = int N" "pp_buf_off pp = int k" "pp_buf_len pp = int l" "k < N" "l \<le> N" "length b = N"
    using ok by (auto simp: pipe_ok_def N_def k_def l_def b_def)
  have tl: "pp_buf_tail pp = int t" using ok N by (simp add: pipe_ok_def t_def of_nat_mod)
  have ln: "l + n \<le> N" using assms(2) N by (simp add: n_def)
  have t: "t = (if k + l < N then k + l else k + l - N)" unfolding t_def using N by (intro wrap_mod) simp
  have tN: "t < N" using N(4,5) t by auto
  define b' where "b' = pp_buf (copy_in xs pp)"
  have tw: "nat (int N - int t) = N - t" by simp
  have b': "b' = (if t + n < N then poke t xs b else poke 0 (drop (N - t) xs) (poke t (take (N - t) xs) b))"
    using N by (simp add: b'_def copy_in_def Let_def tl n_def[symmetric] b_def[symmetric] tw)
  have lb': "length b' = N" using ln tN N by (auto simp: b' n_def[symmetric])
  have nb': "b' ! j = (if t \<le> j \<and> j < t + n then xs ! (j - t) else if j + N < t + n then xs ! (j + N - t) else b ! j)"
    if "j < N" for j
  proof (cases "t + n < N")
    case True
    then show ?thesis using that N by (simp add: b' nth_poke n_def)
  next
    case False
    have lt: "length (take (N - t) xs) = N - t" using False tN by (simp add: n_def)
    have inner: "poke t (take (N - t) xs) b ! j = (if t \<le> j then xs ! (j - t) else b ! j)"
      using nth_poke[of t "take (N - t) xs" b j, unfolded lt] that N tN by simp
    have "length (poke t (take (N - t) xs) b) = N" using length_poke[of t "take (N - t) xs" b] lt N tN by simp
    then have "b' ! j = (if j < n - (N - t) then xs ! (N - t + j) else poke t (take (N - t) xs) b ! j)"
      using nth_poke[of 0 "drop (N - t) xs" "poke t (take (N - t) xs) b" j] that False ln tN
      by (auto simp: b' n_def)
    then show ?thesis using inner that False ln tN by (auto simp: ac_simps intro!: arg_cong[of _ _ "(!) xs"])
  qed
  have rest: "pp_buf_off (copy_in xs pp) = int k" "pp_buf_len (copy_in xs pp) = int (l + n)"
    "pp_buf_size (copy_in xs pp) = int N"
    using N by (simp_all add: copy_in_def Let_def n_def)
  have "take (l + n) (rotate k b') = take l (rotate k b) @ xs"
  proof (rule nth_equalityI)
    show "length (take (l + n) (rotate k b')) = length (take l (rotate k b) @ xs)" using lb' N ln by (simp add: n_def)
    fix j assume "j < length (take (l + n) (rotate k b'))"
    then have j: "j < l + n" using lb' ln by simp
    have w: "(k + j) mod N = (if k + j < N then k + j else k + j - N)" using j ln N(4) by (intro wrap_mod) simp
    have "rotate k b' ! j = b' ! ((k + j) mod N)" using j ln lb' N(4) by (simp add: nth_rotate)
    also have "\<dots> = (if j < l then b ! ((k + j) mod N) else xs ! (j - l))"
      using nb'[of "(k + j) mod N"] w t j ln N(4,5) by (auto simp: not_less intro!: arg_cong[of _ _ "(!) xs"])
    also have "\<dots> = (take l (rotate k b) @ xs) ! j" using j ln N by (simp add: nth_append nth_rotate)
    finally show "take (l + n) (rotate k b') ! j = (take l (rotate k b) @ xs) ! j" using j by simp
  qed
  moreover have "pipe_bytes pp = take l (rotate k b)" by (simp add: pipe_bytes_def k_def l_def b_def)
  moreover have "pipe_bytes (copy_in xs pp) = take (l + n) (rotate k b')"
    unfolding pipe_bytes_def rest b'_def[symmetric] nat_int ..
  ultimately show "pipe_bytes (copy_in xs pp) = pipe_bytes pp @ xs" by simp
  have "pp_buf_tail (copy_in xs pp) = int ((k + l + n) mod N)"
  proof -
    have "(k + l + n) mod N = (t + n) mod N" by (simp add: t_def mod_simps)
    also have "\<dots> = (if t + n < N then t + n else t + n - N)" using tN ln by (intro wrap_mod) simp
    finally show ?thesis using N tN by (auto simp: copy_in_def Let_def tl n_def[symmetric] of_nat_diff)
  qed
  then show "pipe_ok (copy_in xs pp)"
    using ok N rest lb' ln by (simp add: pipe_ok_def b'_def[symmetric] of_nat_mod add.assoc)
  show "pp_buf_len (copy_in xs pp) = pp_buf_len pp + int (length xs)" "pp_buf_size (copy_in xs pp) = pp_buf_size pp"
    using rest N by (simp_all add: n_def)
qed

section \<open>The calls on a pipe\<close>

definition sock_view :: "socket_map \<Rightarrow> socket_type \<times> u32 \<times> sock_obj" where
  "sock_view sk = (socktype sk, sk_opts sk, sk_obj sk)"

definition pipe_live :: "ref \<Rightarrow> ref \<Rightarrow> nat \<Rightarrow> mtcp_manager \<Rightarrow> bool" where
  "pipe_live k0 k1 p m \<longleftrightarrow> p < length (pipes m) \<and> pp_state (pipes m ! p) = PIPE_ACTIVE
     \<and> pp_socket0 (pipes m ! p) = Some k0 \<and> pp_socket1 (pipes m ! p) = Some k1 \<and> pipe_ok (pipes m ! p)
     \<and> (\<forall>k \<in> {k0, k1}. socktype (smap m k) = MOS_SOCK_PIPE \<and> sk_obj (smap m k) = PipeObj p)"

definition same_socks :: "mtcp_manager \<Rightarrow> mtcp_manager \<Rightarrow> bool" where
  "same_socks m m' \<longleftrightarrow> (\<forall>k. sock_view (smap m' k) = sock_view (smap m k))"

lemma same_socks_trans [trans]: "same_socks m m1 \<Longrightarrow> same_socks m1 m2 \<Longrightarrow> same_socks m m2"
  by (simp add: same_socks_def)

lemma same_socksD:
  assumes "same_socks m m'"
  shows "socktype (smap m' k) = socktype (smap m k)" "sk_opts (smap m' k) = sk_opts (smap m k)"
    "sk_obj (smap m' k) = sk_obj (smap m k)" "nonblocking (smap m' k) = nonblocking (smap m k)"
    "sk_pipe (smap m' k) = sk_pipe (smap m k)"
  using assms by (simp_all add: same_socks_def sock_view_def nonblocking_def sk_pipe_def)

lemma AddEpollEvent_socks:
  "same_socks m (snd (AddEpollEvent q k ev m))" "pipes (snd (AddEpollEvent q k ev m)) = pipes m"
  by (auto simp: AddEpollEvent_def same_socks_def sock_view_def mod_sock_def Let_def split: option.splits prod.splits)

lemma RaiseEventToPair_live:
  assumes "pipe_live k0 k1 p m" "k \<in> {k0, k1}"
  obtains m' where "RaiseEventToPair k ev m = Some m'" "same_socks m m'" "pipes m' = pipes m"
proof -
  define k' where "k' = (if k = k0 then k1 else k0)"
  define m' where "m' = (if nonblocking (smap m k') \<and> epoll (smap m k') \<noteq> 0
      then snd (AddEpollEvent USR_EVENT_QUEUE k' ev m) else m)"
  have "sk_pipe (smap m k) = Some p" using assms by (auto simp: pipe_live_def sk_pipe_def)
  then have "RaiseEventToPair k ev m = Some m'"
    using assms by (auto simp: RaiseEventToPair_def Let_def pipe_live_def m'_def k'_def)
  moreover have "same_socks m m'" "pipes m' = pipes m"
    using AddEpollEvent_socks by (auto simp: m'_def same_socks_def)
  ultimately show ?thesis by (rule that)
qed

lemma notify_live:
  assumes "pipe_live k0 k1 p m" "k \<in> {k0, k1}"
  obtains m' where "(if c then RaiseEventToPair k ev m else Some m) = Some m'" "same_socks m m'" "pipes m' = pipes m"
proof (cases c)
  case True
  then show ?thesis using RaiseEventToPair_live[OF assms, of ev] that by metis
qed (use that[of m] in \<open>simp add: same_socks_def\<close>)

lemma pipe_live_cong:
  assumes "pipe_live k0 k1 p m" "same_socks m m'" "pipes m' = pipes m"
  shows "pipe_live k0 k1 p m'"
  using assms by (simp add: pipe_live_def same_socksD)

lemma mod_pipe_live:
  assumes "pipe_live k0 k1 p m" "f (pipes m ! p) = pp'" "pipe_ok pp'" "pp_state pp' = PIPE_ACTIVE"
    "pp_socket0 pp' = pp_socket0 (pipes m ! p)" "pp_socket1 pp' = pp_socket1 (pipes m ! p)"
  shows "pipe_live k0 k1 p (mod_pipe p f m)" "pipes (mod_pipe p f m) ! p = pp'" "same_socks m (mod_pipe p f m)"
  using assms by (auto simp: pipe_live_def mod_pipe_def same_socks_def)

text \<open>What the two ends do with a pipe, and what they are answered.\<close>

datatype pipe_op = PWrite int "u8 list" | PRead int int
datatype pipe_res = Written "errno + int" | Got "errno + u8 list"

fun op_id :: "pipe_op \<Rightarrow> int" where
  "op_id (PWrite k bs) = k"
| "op_id (PRead k len) = k"

fun pipe_run :: "mos_config \<Rightarrow> pipe_op list \<Rightarrow> mtcp_manager \<Rightarrow> (pipe_res list \<times> mtcp_manager) option" where
  "pipe_run cfg [] m = Some ([], m)"
| "pipe_run cfg (PWrite k bs # ops) m = do {
     (r, m) \<leftarrow> PipeWrite cfg k bs m;
     (rs, m) \<leftarrow> pipe_run cfg ops m;
     Some (Written r # rs, m)
   }"
| "pipe_run cfg (PRead k len # ops) m = do {
     (r, m) \<leftarrow> PipeRead cfg k len m;
     (rs, m) \<leftarrow> pipe_run cfg ops m;
     Some (Got r # rs, m)
   }"

text \<open>The specification: one list of bytes, at most \<open>PIPE_BUF_SIZE\<close> long.\<close>

fun pipe_spec :: "(int \<Rightarrow> bool) \<Rightarrow> pipe_op list \<Rightarrow> u8 list \<Rightarrow> pipe_res list" where
  "pipe_spec nb [] q = []"
| "pipe_spec nb (PWrite k bs # ops) q =
     (if bs = [] then Written (if nb k then Inl EAGAIN else Inr 0) # pipe_spec nb ops q
      else if int (length q) = PIPE_BUF_SIZE
      then Written (Inl (if nb k then EAGAIN else WAITS)) # pipe_spec nb ops q
      else (let n = min (length bs) (nat (PIPE_BUF_SIZE - int (length q)))
            in Written (Inr (int n)) # pipe_spec nb ops (q @ take n bs)))"
| "pipe_spec nb (PRead k len # ops) q =
     (if len \<le> 0 then Got (if nb k then Inl EAGAIN else Inr []) # pipe_spec nb ops q
      else if q = [] then Got (Inl (if nb k then EAGAIN else WAITS)) # pipe_spec nb ops q
      else Got (Inr (take (nat len) q)) # pipe_spec nb ops (drop (nat len) q))"

lemma PipeWrite_step:
  assumes l: "pipe_live k0 k1 p m" and k: "nat k \<in> {k0, k1}" "GetSocket cfg k = Some (nat k)"
    and sz: "pp_buf_size (pipes m ! p) = PIPE_BUF_SIZE" and q: "q = pipe_bytes (pipes m ! p)"
    and nb: "nb k = nonblocking (smap m (nat k))"
  obtains r m' q' where "PipeWrite cfg k bs m = Some (r, m')" "pipe_live k0 k1 p m'" "same_socks m m'"
    "pp_buf_size (pipes m' ! p) = PIPE_BUF_SIZE" "q' = pipe_bytes (pipes m' ! p)"
    "pipe_spec nb (PWrite k bs # ops) q = Written r # pipe_spec nb ops q'"
proof -
  let ?pp = "pipes m ! p" and ?s = "smap m (nat k)"
  have ok: "pipe_ok ?pp" using l by (simp add: pipe_live_def)
  have lq: "int (length q) = pp_buf_len ?pp" using length_pipe_bytes[OF ok] q by simp
  have s: "socktype ?s = MOS_SOCK_PIPE" "sk_pipe ?s = Some p" "pp_state ?pp = PIPE_ACTIVE"
    using l k(1) by (auto simp: pipe_live_def sk_pipe_def)
  have pw: "PipeWrite cfg k bs m = (if bs = [] then (if nonblocking ?s then Some (Inl EAGAIN, m) else Some (Inr 0, m))
      else pipe_write_locked (nat k) p bs m)" using k(2) s by (simp add: PipeWrite_def)
  consider (empty) "bs = []" | (full) "bs \<noteq> []" "pp_buf_len ?pp = PIPE_BUF_SIZE"
    | (room) "bs \<noteq> []" "pp_buf_len ?pp \<noteq> PIPE_BUF_SIZE" by blast
  then show ?thesis
  proof cases
    case empty
    show ?thesis
      by (rule that[of "if nonblocking ?s then Inl EAGAIN else Inr 0" m q])
        (use empty pw l sz q nb in \<open>auto simp: same_socks_def\<close>)
  next
    case full
    show ?thesis
      by (rule that[of "Inl (if nonblocking ?s then EAGAIN else WAITS)" m q])
        (use full pw l sz q lq nb in \<open>auto simp: same_socks_def pipe_write_locked_def Let_def\<close>)
  next
    case room
    define n where "n = min (length bs) (nat (PIPE_BUF_SIZE - int (length q)))"
    have ln: "0 < n" "int n = min (int (length bs)) (pp_buf_size ?pp - pp_buf_len ?pp)" "length (take n bs) = n"
      using room ok sz lq by (auto simp: n_def pipe_ok_def min_def)
    note c = copy_in_fifo[OF ok, of "take n bs"]
    have fit: "int (length (take n bs)) \<le> pp_buf_size ?pp - pp_buf_len ?pp" using ln by simp
    define m1 where "m1 = mod_pipe p (copy_in (take n bs)) m"
    have st: "pp_state (copy_in (take n bs) ?pp) = PIPE_ACTIVE"
      "pp_socket0 (copy_in (take n bs) ?pp) = pp_socket0 ?pp" "pp_socket1 (copy_in (take n bs) ?pp) = pp_socket1 ?pp"
      using s(3) by (simp_all add: copy_in_def Let_def)
    note m1 = mod_pipe_live[where f = "copy_in (take n bs)", OF l refl c(2)[OF fit] st, folded m1_def]
    have k': "nat k = k0 \<or> nat k = k1" using k(1) by simp
    obtain m2 where m2: "(if pp_buf_len ?pp = 0 then RaiseEventToPair (nat k) MOS_EPOLLIN m1 else Some m1) = Some m2"
      "same_socks m1 m2" "pipes m2 = pipes m1"
      by (rule notify_live[OF m1(1) k(1)])
    define m3 where "m3 = (if pp_buf_len (pipes m2 ! p) < pp_buf_size (pipes m2 ! p) \<and> level_triggered MOS_EPOLLOUT (smap m2 (nat k))
        then snd (AddEpollEvent USR_SHADOW_EVENT_QUEUE (nat k) MOS_EPOLLOUT m2) else m2)"
    have m3: "same_socks m2 m3" "pipes m3 = pipes m2"
      using AddEpollEvent_socks by (auto simp: m3_def same_socks_def)
    have "pipe_write_locked (nat k) p bs m = Some (Inr (int n), m3)"
      unfolding pipe_write_locked_def Let_def ln(2)[symmetric] nat_int m1_def[symmetric]
      using room ln(1) sz m2(1) by (simp add: m3_def)
    moreover have "pipe_live k0 k1 p m3" using pipe_live_cong m1(1) m2(2,3) m3 by metis
    moreover have "same_socks m m3" using m1(3) m2(2) m3(1) same_socks_trans by metis
    ultimately show ?thesis
      by (intro that[of "Inr (int n)" m3 "q @ take n bs"])
        (use pw room m1(2) m2(3) m3(2) c[OF fit] sz q lq in \<open>auto simp: n_def Let_def\<close>)
  qed
qed

lemma PipeRead_step:
  assumes l: "pipe_live k0 k1 p m" and k: "nat k \<in> {k0, k1}" "GetSocket cfg k = Some (nat k)"
    and sz: "pp_buf_size (pipes m ! p) = PIPE_BUF_SIZE" and q: "q = pipe_bytes (pipes m ! p)"
    and nb: "nb k = nonblocking (smap m (nat k))"
  obtains r m' q' where "PipeRead cfg k len m = Some (r, m')" "pipe_live k0 k1 p m'" "same_socks m m'"
    "pp_buf_size (pipes m' ! p) = PIPE_BUF_SIZE" "q' = pipe_bytes (pipes m' ! p)"
    "pipe_spec nb (PRead k len # ops) q = Got r # pipe_spec nb ops q'"
proof -
  let ?pp = "pipes m ! p" and ?s = "smap m (nat k)"
  have ok: "pipe_ok ?pp" using l by (simp add: pipe_live_def)
  have lq: "int (length q) = pp_buf_len ?pp" using length_pipe_bytes[OF ok] q by simp
  have s: "socktype ?s = MOS_SOCK_PIPE" "sk_pipe ?s = Some p" "pp_state ?pp = PIPE_ACTIVE"
    using l k(1) by (auto simp: pipe_live_def sk_pipe_def)
  have pr: "PipeRead cfg k len m = (if len \<le> 0 then (if nonblocking ?s then Some (Inl EAGAIN, m) else Some (Inr [], m))
      else pipe_read_locked (nat k) p len m)" using k(2) s by (simp add: PipeRead_def)
  consider (none) "len \<le> 0" | (empty) "0 < len" "q = []" | (some) "0 < len" "q \<noteq> []" by fastforce
  then show ?thesis
  proof cases
    case none
    show ?thesis
      by (rule that[of "if nonblocking ?s then Inl EAGAIN else Inr []" m q])
        (use none pr l sz q nb in \<open>auto simp: same_socks_def\<close>)
  next
    case empty
    show ?thesis
      by (rule that[of "Inl (if nonblocking ?s then EAGAIN else WAITS)" m q])
        (use empty pr l sz q lq nb s(3) in \<open>auto simp: same_socks_def pipe_read_locked_def Let_def\<close>)
  next
    case some
    define n where "n = min len (pp_buf_len ?pp)"
    have "0 < length q" using some by simp
    then have len: "0 < pp_buf_len ?pp" using lq by linarith
    then have n: "0 < n" "0 \<le> n" "n \<le> pp_buf_len ?pp" using some by (simp_all add: n_def)
    obtain bs pp' where c: "copy_out n ?pp = (bs, pp')" by fastforce
    note f = copy_out_fifo[OF ok n(2,3) c]
    define m1 where "m1 = mod_pipe p (\<lambda>_. pp') m"
    have st: "pp_state pp' = PIPE_ACTIVE" "pp_socket0 pp' = pp_socket0 ?pp" "pp_socket1 pp' = pp_socket1 ?pp"
      using s(3) c by (auto simp: copy_out_def Let_def split: if_splits)
    note m1 = mod_pipe_live[where f = "\<lambda>_. pp'", OF l refl f(3) st, folded m1_def]
    obtain m2 where m2: "(if pp_buf_len ?pp = pp_buf_size ?pp then RaiseEventToPair (nat k) MOS_EPOLLOUT m1 else Some m1) = Some m2"
      "same_socks m1 m2" "pipes m2 = pipes m1"
      by (rule notify_live[OF m1(1) k(1)])
    define m3 where "m3 = (if pp_buf_len (pipes m2 ! p) > 0 then
                 (if level_triggered MOS_EPOLLIN (smap m2 (nat k))
                  then snd (AddEpollEvent USR_SHADOW_EVENT_QUEUE (nat k) MOS_EPOLLIN m2) else m2)
               else if pp_state (pipes m2 ! p) = PIPE_CLOSE_WAIT \<and> pp_buf_len (pipes m2 ! p) = 0
               then snd (AddEpollEvent USR_SHADOW_EVENT_QUEUE (nat k) MOS_EPOLLIN m2)
               else m2)"
    have m3: "same_socks m2 m3" "pipes m3 = pipes m2"
      using AddEpollEvent_socks by (auto simp: m3_def same_socks_def)
    have "pipe_read_locked (nat k) p len m = Some (Inr bs, m3)"
      unfolding pipe_read_locked_def Let_def n_def[symmetric] c split m1_def[symmetric]
      using n(1) len m2(1) by (simp add: m3_def)
    moreover have "pipe_live k0 k1 p m3" using pipe_live_cong m1(1) m2(2,3) m3 by metis
    moreover have "same_socks m m3" using m1(3) m2(2) m3(1) same_socks_trans by metis
    moreover have "take (nat n) q = take (nat len) q" "drop (nat n) q = drop (nat len) q"
      using lq by (auto simp: n_def min_def)
    ultimately show ?thesis
      by (intro that[of "Inr bs" m3 "drop (nat len) q"])
        (use pr some m1(2) m2(3) m3(2) f(1,2,5) sz q in auto)
  qed
qed

lemma pipe_run_spec:
  assumes "pipe_live k0 k1 p m" "pp_buf_size (pipes m ! p) = PIPE_BUF_SIZE"
    and "\<And>op. op \<in> set ops \<Longrightarrow> nat (op_id op) \<in> {k0, k1} \<and> GetSocket cfg (op_id op) = Some (nat (op_id op))"
    and "nb = (\<lambda>k. nonblocking (smap m (nat k)))"
  shows "\<exists>m'. pipe_run cfg ops m = Some (pipe_spec nb ops (pipe_bytes (pipes m ! p)), m')"
  using assms
proof (induction ops arbitrary: m)
  case (Cons op ops)
  have k: "nat (op_id op) \<in> {k0, k1}" "GetSocket cfg (op_id op) = Some (nat (op_id op))" using Cons.prems(3) by simp_all
  have rest: "\<exists>m''. pipe_run cfg ops m' = Some (pipe_spec nb ops (pipe_bytes (pipes m' ! p)), m'')"
    if "pipe_live k0 k1 p m'" "same_socks m m'" "pp_buf_size (pipes m' ! p) = PIPE_BUF_SIZE" for m'
    by (rule Cons.IH[OF that(1,3)]) (use Cons.prems(3,4) same_socksD(4)[OF that(2)] in auto)
  show ?case
  proof (cases op)
    case (PWrite i bs)
    obtain r m' q' where w: "PipeWrite cfg i bs m = Some (r, m')" "pipe_live k0 k1 p m'" "same_socks m m'"
      "pp_buf_size (pipes m' ! p) = PIPE_BUF_SIZE" "q' = pipe_bytes (pipes m' ! p)"
      "pipe_spec nb (PWrite i bs # ops) (pipe_bytes (pipes m ! p)) = Written r # pipe_spec nb ops q'"
      by (rule PipeWrite_step[OF Cons.prems(1) _ _ Cons.prems(2) refl, of i cfg nb bs ops])
        (use k PWrite Cons.prems(4) in auto)
    show ?thesis unfolding PWrite w(6) using rest[OF w(2-4)] w(1,5) by auto
  next
    case (PRead i len)
    obtain r m' q' where w: "PipeRead cfg i len m = Some (r, m')" "pipe_live k0 k1 p m'" "same_socks m m'"
      "pp_buf_size (pipes m' ! p) = PIPE_BUF_SIZE" "q' = pipe_bytes (pipes m' ! p)"
      "pipe_spec nb (PRead i len # ops) (pipe_bytes (pipes m ! p)) = Got r # pipe_spec nb ops q'"
      by (rule PipeRead_step[OF Cons.prems(1) _ _ Cons.prems(2) refl, of i cfg nb len ops])
        (use k PRead Cons.prems(4) in auto)
    show ?thesis unfolding PRead w(6) using rest[OF w(2-4)] w(1,5) by auto
  qed
qed simp

lemma mtcp_pipe_live:
  assumes c: "mtcp_pipe True True garbage m = (Inr (k0, k1), m0)" and g: "int (length garbage) = PIPE_BUF_SIZE"
  shows "pipe_live k0 k1 (length (pipes m)) m0" "pipe_bytes (pipes m0 ! length (pipes m)) = []"
    "pp_buf_size (pipes m0 ! length (pipes m)) = PIPE_BUF_SIZE"
proof -
  obtain j0 m1 j1 m2 where a: "AllocateSocket MOS_SOCK_PIPE m = (Some j0, m1)" "AllocateSocket MOS_SOCK_PIPE m1 = (Some j1, m2)"
    using c by (auto simp: mtcp_pipe_def split: prod.splits option.splits)
  then have k: "j0 = k0" "j1 = k1" using c by (auto simp: mtcp_pipe_def Let_def)
  have t: "socktype (smap m1 k0) = MOS_SOCK_PIPE" "pipes m1 = pipes m"
    using a(1) k by (auto simp: AllocateSocket_def socket_taken_def mod_sock_def Let_def split: list.splits if_splits)
  have t2: "socktype (smap m2 k1) = MOS_SOCK_PIPE" "pipes m2 = pipes m" "socktype (smap m2 k0) = MOS_SOCK_PIPE"
    using a(2) k t by (auto simp: AllocateSocket_def socket_taken_def mod_sock_def Let_def split: list.splits if_splits)
  show "pipe_live k0 k1 (length (pipes m)) m0" "pipe_bytes (pipes m0 ! length (pipes m)) = []"
    "pp_buf_size (pipes m0 ! length (pipes m)) = PIPE_BUF_SIZE"
    using c a k t2 g by (auto simp: mtcp_pipe_def Let_def pipe_live_def pipe_ok_def pipe_bytes_def mod_sock_def PIPE_BUF_SIZE_def)
qed

text \<open>
  C32.  A pipe is a FIFO of bytes.  After \<open>mtcp_pipe\<close> has given out two sockets, whatever
  their options, any sequence of \<open>PipeWrite\<close> and \<open>PipeRead\<close> calls on the two in any order
  returns what one list of at most \<open>PIPE_BUF_SIZE\<close> bytes answers: a write appends as many
  bytes as fit and says how many, a read takes as many as asked for and present, and a call
  that finds no room or no byte waits, or fails with \<open>EAGAIN\<close> on a non-blocking socket.
\<close>

theorem pipe_fifo:
  assumes "mtcp_pipe True True garbage m = (Inr (k0, k1), m0)" "int (length garbage) = PIPE_BUF_SIZE"
    and m1: "m1 = mod_sock k0 (\<lambda>sk. sk\<lparr>sk_opts := o0\<rparr>) (mod_sock k1 (\<lambda>sk. sk\<lparr>sk_opts := o1\<rparr>) m0)"
    and "int k0 < max_concurrency cfg" "int k1 < max_concurrency cfg"
    and ids: "op_id ` set ops \<subseteq> {int k0, int k1}"
  shows "\<exists>m'. pipe_run cfg ops m1 = Some (pipe_spec (\<lambda>k. nonblocking (smap m1 (nat k))) ops [], m')"
proof -
  note p = mtcp_pipe_live[OF assms(1,2)]
  have l: "pipe_live k0 k1 (length (pipes m)) m1" "pipes m1 = pipes m0"
    using p(1) by (auto simp: m1 pipe_live_def mod_sock_def)
  have "nat (op_id op) \<in> {k0, k1} \<and> GetSocket cfg (op_id op) = Some (nat (op_id op))" if "op \<in> set ops" for op
  proof -
    have "op_id op = int k0 \<or> op_id op = int k1" using ids that by blast
    then show ?thesis using assms(4,5) by (auto simp: GetSocket_def)
  qed
  then show ?thesis using pipe_run_spec[OF l(1) _ _ refl, of ops cfg] p(2,3) l(2) by simp
qed

definition pipe_demo :: mtcp_manager where
  "pipe_demo = zero_mtcp\<lparr>free_smap := [3, 5]\<rparr>"

theorem pipe_fifo_witness:
  "\<exists>m0 m'. mtcp_pipe True True (replicate 10240 0) pipe_demo = (Inr (3, 5), m0)
    \<and> pipe_run (epoll_cfg\<lparr>max_concurrency := 8\<rparr>) [PWrite 3 [1, 2, 3], PRead 5 2, PRead 5 2, PRead 5 2]
        (mod_sock 3 (\<lambda>sk. sk\<lparr>sk_opts := 0\<rparr>) (mod_sock 5 (\<lambda>sk. sk\<lparr>sk_opts := MTCP_NONBLOCK\<rparr>) m0))
      = Some ([Written (Inr 3), Got (Inr [1, 2]), Got (Inr [3]), Got (Inl EAGAIN)], m')"
proof -
  obtain m0 where m0: "mtcp_pipe True True (replicate 10240 0) pipe_demo = (Inr (3, 5), m0)"
    by (simp add: mtcp_pipe_def AllocateSocket_def pipe_demo_def zero_mtcp_def zero_sock_def mod_sock_def Let_def)
  let ?m1 = "mod_sock 3 (\<lambda>sk. sk\<lparr>sk_opts := 0\<rparr>) (mod_sock 5 (\<lambda>sk. sk\<lparr>sk_opts := MTCP_NONBLOCK\<rparr>) m0)"
  let ?nb = "\<lambda>k. nonblocking (smap ?m1 (nat k))"
  let ?ops = "[PWrite 3 [1, 2, 3], PRead 5 2, PRead 5 2, PRead 5 2]"
  have nb: "?nb 5" "\<not> ?nb 3" by (simp_all add: mod_sock_def nonblocking_def MTCP_NONBLOCK_def)
  have "pipe_spec ?nb ?ops [] = [Written (Inr 3), Got (Inr [1, 2]), Got (Inr [3]), Got (Inl EAGAIN)]"
    using nb by (simp add: PIPE_BUF_SIZE_def)
  moreover have "\<exists>m'. pipe_run (epoll_cfg\<lparr>max_concurrency := 8\<rparr>) ?ops ?m1 = Some (pipe_spec ?nb ?ops [], m')"
    by (rule pipe_fifo[OF m0 _ refl]) (simp_all add: PIPE_BUF_SIZE_def)
  ultimately show ?thesis using m0 by metis
qed

section \<open>Closing\<close>

text \<open>
  The second close of a pipe clears the union of the socket that was its first end, also
  when that socket number has been given out again in the meantime.
\<close>

lemma second_close_clobbers:
  assumes id: "0 \<le> id1" "id1 < max_concurrency cfg" and p: "sk_obj (smap m (nat id1)) = PipeObj p"
    and ty: "socktype (smap m (nat id1)) = MOS_SOCK_PIPE" and st: "pp_state (pipes m ! p) = PIPE_CLOSE_WAIT"
    and s0: "pp_socket0 (pipes m ! p) = Some k0"
  shows "\<exists>m'. PipeClose cfg id1 m = Some (Inr 0, m') \<and> sk_obj (smap m' k0) = NullObj
    \<and> socktype (smap m' k0) = socktype (smap m k0) \<and> streams m' = streams m"
  using assms by (auto simp: PipeClose_def GetSocket_def sk_pipe_def Let_def clear_obj_def mod_sock_def split: option.splits)

text \<open>A reader that waits when the other end closes goes on waiting, since no byte can come.\<close>

lemma waiting_reader_stays:
  assumes "\<not> nonblocking (smap m k)" "pp_buf_len (pipes m ! p) = 0" "pp_state (pipes m ! p) = PIPE_CLOSE_WAIT"
  shows "pipe_read_locked k p len m = Some (Inl WAITS, m)"
  using assms by (simp add: pipe_read_locked_def Let_def)

end
