(* ===== verification/App_Calls.thy ===== *)
theory App_Calls
  imports Tcp_Timer Tcp_Input
begin

text \<open>
  What the mTCP thread does for the applications (\<open>core.c\<close>): the streams they put on the
  request queues, the timers they set (\<open>timer.c\<close>), the events it hands to monitors and to
  epoll, and one round of its main loop.  \<open>None\<close> stands for a failed assertion, a null
  pointer dereferenced, \<open>exit\<close>, or a loop that does not return.
\<close>

section \<open>The request queues\<close>

definition mod_appq :: "(app_queues \<Rightarrow> app_queues) \<Rightarrow> mtcp_manager \<Rightarrow> mtcp_manager" where
  "mod_appq f m = m\<lparr>appq := f (appq m)\<rparr>"

text \<open>\<open>while ((stream = StreamDequeue(q)))\<close>, for the queue read by \<open>get\<close> and written by \<open>upd\<close>.\<close>

partial_function (option) drain ::
  "(app_queues \<Rightarrow> ref ring) \<Rightarrow> ((ref ring \<Rightarrow> ref ring) \<Rightarrow> app_queues \<Rightarrow> app_queues)
    \<Rightarrow> (ref \<Rightarrow> mtcp_manager \<Rightarrow> mtcp_manager option) \<Rightarrow> mtcp_manager \<Rightarrow> mtcp_manager option" where
  "drain get upd f m =
     (case StreamDequeue (get (appq m)) of
        (None, q) \<Rightarrow> Some (mod_appq (upd (\<lambda>_. q)) m)
      | (Some s, q) \<Rightarrow>
          (case f s (mod_appq (upd (\<lambda>_. q)) m) of
             None \<Rightarrow> None
           | Some m \<Rightarrow> drain get upd f m))"

text \<open>The next call of the internal queues is bounded by their count when it starts.\<close>

fun pass_int ::
  "(app_queues \<Rightarrow> ref stream_queue_int)
    \<Rightarrow> ((ref stream_queue_int \<Rightarrow> ref stream_queue_int) \<Rightarrow> app_queues \<Rightarrow> app_queues)
    \<Rightarrow> (ref \<Rightarrow> mtcp_manager \<Rightarrow> mtcp_manager option) \<Rightarrow> nat \<Rightarrow> mtcp_manager \<Rightarrow> mtcp_manager option" where
  "pass_int get upd f 0 m = Some m"
| "pass_int get upd f (Suc n) m =
     (case StreamInternalDequeue (get (appq m)) of
        (None, q) \<Rightarrow> None
      | (Some s, q) \<Rightarrow>
          (case f s (mod_appq (upd (\<lambda>_. q)) m) of
             None \<Rightarrow> None
           | Some m \<Rightarrow> pass_int get upd f n m))"

definition connect_call :: "mos_config \<Rightarrow> u32 \<Rightarrow> ref \<Rightarrow> mtcp_manager \<Rightarrow> mtcp_manager option" where
  "connect_call cfg cur_ts s m =
     (if state (strm m s) \<noteq> TCP_ST_SYN_SENT then None
      else
        (let m = mod_strm s (raise_cb (MOS_ON_CONN_START OR MOS_ON_TCP_STATE_CHANGE)) m;
             m = (case pair_stream (strm m s) of
                    None \<Rightarrow> m
                  | Some p \<Rightarrow> mod_strm p (raise_cb MOS_ON_CONN_START) m)
         in AddtoControlList cfg s cur_ts m))"

definition send_call :: "mos_config \<Rightarrow> ref \<Rightarrow> mtcp_manager \<Rightarrow> mtcp_manager option" where
  "send_call cfg s m = add_send cfg s (mod_strm s (mod_snd (\<lambda>v. v\<lparr>on_sendq := False\<rparr>)) m)"

definition ack_call :: "mos_config \<Rightarrow> ref \<Rightarrow> mtcp_manager \<Rightarrow> mtcp_manager option" where
  "ack_call cfg s m =
     (let m = mod_strm s (mod_snd (\<lambda>v. v\<lparr>on_ackq := False\<rparr>)) m
      in if GetSender cfg (strm m s) = None then None else Some (EnqueueACK cfg s ACK_OPT_AGGREGATE m))"

text \<open>Where the close of a connection takes its state.\<close>

definition start_close :: "tcp_stream \<Rightarrow> tcp_stream" where
  "start_close t =
     (if state t = TCP_ST_ESTABLISHED then enter_state TCP_ST_FIN_WAIT_1 t
      else if state t = TCP_ST_CLOSE_WAIT then enter_state TCP_ST_LAST_ACK t
      else t)"

definition close_prepare :: "mos_config \<Rightarrow> ref \<Rightarrow> mtcp_manager \<Rightarrow> mtcp_manager" where
  "close_prepare cfg s m =
     (let m = mod_strm s (\<lambda>t. mod_snd (\<lambda>v. v\<lparr>on_closeq := False,
                 fss := (case sndbuf v of Some b \<Rightarrow> sb_head_seq b + sb_len b | None \<Rightarrow> snd_nxt t)\<rparr>) t) m
      in if tcp_timeout cfg > 0 then RemoveFromTimeoutList s m else m)"

definition reset_done :: "mos_config \<Rightarrow> ref \<Rightarrow> mtcp_manager \<Rightarrow> mtcp_manager option" where
  "reset_done cfg s m =
     (if state (strm m s) \<noteq> TCP_ST_CLOSED_RSVD
      then DestroyTCPStream cfg s (mod_strm s (close_with TCP_RESET) m)
      else Some m)"

definition close_call :: "mos_config \<Rightarrow> u32 \<Rightarrow> ref \<Rightarrow> mtcp_manager \<Rightarrow> mtcp_manager option" where
  "close_call cfg cur_ts s m =
     (let m = close_prepare cfg s m; t = strm m s in
      if have_reset t then reset_done cfg s m
      else if on_control_list (sndvar t) then
        Some (mod_appq (closeq_int_update (\<lambda>q. snd (StreamInternalEnqueue q s)))
               (mod_strm s (mod_snd (\<lambda>v. v\<lparr>on_closeq_int := True\<rparr>)) m))
      else if on_send_list (sndvar t) \<or> on_ack_list (sndvar t) then
        Some (mod_strm s (\<lambda>t. (start_close t)\<lparr>control_list_waiting := True\<rparr>) m)
      else if state t \<noteq> TCP_ST_CLOSED_RSVD then AddtoControlList cfg s cur_ts (mod_strm s start_close m)
      else Some m)"

definition close_int_call :: "mos_config \<Rightarrow> u32 \<Rightarrow> ref \<Rightarrow> mtcp_manager \<Rightarrow> mtcp_manager option" where
  "close_int_call cfg cur_ts s m =
     (if on_control_list (sndvar (strm m s)) then
        Some (mod_appq (closeq_int_update (\<lambda>q. snd (StreamInternalEnqueue q s))) m)
      else
        (let m = mod_strm s (mod_snd (\<lambda>v. v\<lparr>on_closeq_int := False\<rparr>)) m
         in if state (strm m s) \<noteq> TCP_ST_CLOSED_RSVD then AddtoControlList cfg s cur_ts (mod_strm s start_close m)
            else Some m))"

definition still_listed :: "tcp_stream \<Rightarrow> bool" where
  "still_listed t \<longleftrightarrow> on_control_list (sndvar t) \<or> on_send_list (sndvar t) \<or> on_ack_list (sndvar t)"

definition reset_now :: "mos_config \<Rightarrow> u32 \<Rightarrow> ref \<Rightarrow> mtcp_manager \<Rightarrow> mtcp_manager option" where
  "reset_now cfg cur_ts s m =
     (if state (strm m s) \<noteq> TCP_ST_CLOSED_RSVD
      then AddtoControlList cfg s cur_ts (mod_strm s (close_with TCP_ACTIVE_CLOSE) m)
      else Some m)"

definition reset_call :: "mos_config \<Rightarrow> u32 \<Rightarrow> ref \<Rightarrow> mtcp_manager \<Rightarrow> mtcp_manager option" where
  "reset_call cfg cur_ts s m =
     (let m = mod_strm s (mod_snd (\<lambda>v. v\<lparr>on_resetq := False\<rparr>)) m;
          m = (if tcp_timeout cfg > 0 then RemoveFromTimeoutList s m else m)
      in if have_reset (strm m s) then reset_done cfg s m
         else if still_listed (strm m s) then
           Some (mod_appq (resetq_int_update (\<lambda>q. snd (StreamInternalEnqueue q s)))
                  (mod_strm s (mod_snd (\<lambda>v. v\<lparr>on_resetq_int := True\<rparr>)) m))
         else reset_now cfg cur_ts s m)"

definition reset_int_call :: "mos_config \<Rightarrow> u32 \<Rightarrow> ref \<Rightarrow> mtcp_manager \<Rightarrow> mtcp_manager option" where
  "reset_int_call cfg cur_ts s m =
     (if still_listed (strm m s) then
        Some (mod_appq (resetq_int_update (\<lambda>q. snd (StreamInternalEnqueue q s))) m)
      else reset_now cfg cur_ts s (mod_strm s (mod_snd (\<lambda>v. v\<lparr>on_resetq_int := False\<rparr>)) m))"

definition HandleApplicationCalls :: "mos_config \<Rightarrow> u32 \<Rightarrow> mtcp_manager \<Rightarrow> mtcp_manager option" where
  "HandleApplicationCalls cfg cur_ts m = do {
     m \<leftarrow> drain connectq connectq_update (connect_call cfg cur_ts) m;
     m \<leftarrow> drain sendq sendq_update (send_call cfg) m;
     m \<leftarrow> drain ackq ackq_update (ack_call cfg) m;
     m \<leftarrow> drain closeq closeq_update (close_call cfg cur_ts) m;
     m \<leftarrow> pass_int closeq_int closeq_int_update (close_int_call cfg cur_ts) (nat (si_count (closeq_int (appq m)))) m;
     m \<leftarrow> drain resetq resetq_update (reset_call cfg cur_ts) m;
     m \<leftarrow> pass_int resetq_int resetq_int_update (reset_int_call cfg cur_ts) (nat (si_count (resetq_int (appq m)))) m;
     m \<leftarrow> drain destroyq destroyq_update (DestroyTCPStream cfg) m;
     Some (mod_appq (wakeup_flag_update (\<lambda>_. False)) m)
   }"

section \<open>The timers of the applications\<close>

text \<open>\<open>timercmp(a, b, <)\<close> and \<open>TIMEVAL_ADD\<close>; the latter carries only above a full second.\<close>

definition TIMEVAL_LT :: "int \<times> int \<Rightarrow> int \<times> int \<Rightarrow> bool" where
  "TIMEVAL_LT a b \<longleftrightarrow> (if fst a = fst b then snd a < snd b else fst a < fst b)"

definition TIMEVAL_ADD :: "int \<times> int \<Rightarrow> int \<times> int \<Rightarrow> int \<times> int" where
  "TIMEVAL_ADD a b =
     (let sec = fst a + fst b; usec = snd a + snd b
      in if usec > 1000000 then (sec + 1, usec - 1000000) else (sec, usec))"

text \<open>The walk from the tail of the list; the argument is the list reversed.\<close>

fun insert_from_tail :: "user_timer \<Rightarrow> user_timer list \<Rightarrow> user_timer list" where
  "insert_from_tail t [] = [t]"
| "insert_from_tail t (walk # ws) =
     (if TIMEVAL_LT (tm_exp walk) (tm_exp t) then t # walk # ws else walk # insert_from_tail t ws)"

definition RegTimer :: "user_timer \<Rightarrow> mtcp_manager \<Rightarrow> int \<times> mtcp_manager" where
  "RegTimer t m = (0, m\<lparr>timer_list := rev (insert_from_tail t (rev (timer_list m)))\<rparr>)"

definition NewTimer :: "bool \<Rightarrow> int \<times> int \<Rightarrow> int \<Rightarrow> int \<times> int \<Rightarrow> nat \<Rightarrow> user_timer option" where
  "NewTimer alloc_ok now i timeout cb =
     (if alloc_ok then Some \<lparr>tm_id = i, tm_exp = TIMEVAL_ADD now timeout, tm_cb = cb\<rparr> else None)"

definition DelTimer :: "user_timer \<Rightarrow> mtcp_manager \<Rightarrow> mtcp_manager" where
  "DelTimer t m = m\<lparr>timer_list := remove1 t (timer_list m)\<rparr>"

definition mtcp_settimer ::
  "bool \<Rightarrow> int \<times> int \<Rightarrow> int \<Rightarrow> (int \<times> int) option \<Rightarrow> nat option \<Rightarrow> mtcp_manager \<Rightarrow> int \<times> mtcp_manager" where
  "mtcp_settimer alloc_ok now i timeout cb m =
     (case (timeout, cb) of
        (Some tv, Some f) \<Rightarrow>
          (case NewTimer alloc_ok now i tv f of
             None \<Rightarrow> (-1, m)
           | Some t \<Rightarrow> (0, snd (RegTimer t m)))
      | _ \<Rightarrow> (-1, m))"

text \<open>
  The loop of the main round over the timers that are due.  \<open>fired\<close> collects the callbacks
  in the order they are called, each with the identifier of its timer; a callback may set
  a new timer, which is left to the model's caller.
\<close>

fun expire_timers :: "int \<times> int \<Rightarrow> user_timer list \<Rightarrow> mtcp_manager \<Rightarrow> (nat \<times> int) list \<times> mtcp_manager" where
  "expire_timers now [] m = ([], m)"
| "expire_timers now (walk # ws) m =
     (if TIMEVAL_LT now (tm_exp walk) then ([], m)
      else (let (fired, m) = expire_timers now ws (DelTimer walk m) in ((tm_cb walk, tm_id walk) # fired, m)))"

section \<open>Events for monitors\<close>

definition MOS_ON_CONN_NEW_DATA :: u64 where "MOS_ON_CONN_NEW_DATA = 0x10"

definition new_data_callbacks :: "ref \<Rightarrow> mtcp_manager \<Rightarrow> mtcp_manager" where
  "new_data_callbacks s m =
     fold (\<lambda>k. HandleCallback MOS_NULL k (side (strm m s)) MOS_ON_CONN_NEW_DATA) (callback_order (strm m s)) m"

definition mod_ml_eq :: "ref \<Rightarrow> (event_queue \<Rightarrow> event_queue) \<Rightarrow> mtcp_manager \<Rightarrow> mtcp_manager" where
  "mod_ml_eq l f m = m\<lparr>mlisteners := (mlisteners m)(l := (mlisteners m l)\<lparr>ml_eq := f (ml_eq (mlisteners m l))\<rparr>)\<rparr>"

text \<open>One entry of a monitor's queue; its data is the stream the event is about.\<close>

definition monitor_read_event :: "ref \<Rightarrow> mtcp_manager \<Rightarrow> mtcp_manager" where
  "monitor_read_event l m =
     (let q = ml_eq (mlisteners m l);
          s = unat (ev_data (eq_events q ! nat (eq_start q)));
          m = mod_ml_eq l (\<lambda>q. q\<lparr>eq_start := eq_start q + 1\<rparr>) m;
          m = (if actions (strm m s) AND MOS_ACT_READ_DATA \<noteq> 0
               then mod_strm s (\<lambda>t. t\<lparr>actions := 0\<rparr>)
                      (if rcvbuf (rcvvar (strm m s)) \<noteq> None then new_data_callbacks s m else m)
               else m)
      in mod_ml_eq l (\<lambda>q. (if eq_start q \<ge> eq_size q then q\<lparr>eq_start := 0\<rparr> else q)\<lparr>eq_num_events := eq_num_events q - 1\<rparr>) m)"

definition FlushMonitorReadEvents :: "mtcp_manager \<Rightarrow> mtcp_manager" where
  "FlushMonitorReadEvents m =
     fold (\<lambda>l m. if is_stream_monitor m l
        then (monitor_read_event l ^^ nat (eq_num_events (ml_eq (mlisteners m l)))) m else m) (monitors m) m"

text \<open>
  The pointer of the event's socket is read as a stream, whatever it is: for a listening
  socket, which is queued too, it is the listener.  The test of the events has \<open>|\<close> for \<open>&\<close>.
\<close>

fun buffered_read_events :: "epoll_event list \<Rightarrow> int \<Rightarrow> int \<Rightarrow> nat \<Rightarrow> mtcp_manager \<Rightarrow> mtcp_manager option" where
  "buffered_read_events evs sz offset 0 m = Some m"
| "buffered_read_events evs sz offset (Suc n) m =
     (let offset' = (if offset + 1 \<ge> sz then 0 else offset + 1) in
      case sk_obj (smap m (ev_sockid (evs ! nat offset))) of
        NullObj \<Rightarrow> buffered_read_events evs sz offset' n m
      | StreamObj s \<Rightarrow>
          if socket (strm m s) = None then None
          else buffered_read_events evs sz offset' n
                 (if rcvbuf (rcvvar (strm m s)) \<noteq> None then new_data_callbacks s m else m)
      | _ \<Rightarrow> None)"

definition FlushBufferedReadEvents :: "mtcp_manager \<Rightarrow> mtcp_manager option" where
  "FlushBufferedReadEvents m =
     (case ep m of
        None \<Rightarrow> Some m
      | Some e \<Rightarrow>
          let q = mtcp_queue e
          in buffered_read_events (eq_events q) (eq_size q) (eq_start q) (nat (eq_num_events q)) m)"

section \<open>A round of the main loop\<close>

text \<open>
  \<open>pkts\<close> are the TCP packets the interfaces deliver in this round, \<open>now\<close> the time of day and
  \<open>ts\<close> the same in ticks, \<open>ts_prev\<close> that of the round before, \<open>end_app\<close> whether an end
  application is registered.
\<close>

fun receive_all :: "mos_config \<Rightarrow> ip_packet list \<Rightarrow> mtcp_manager \<Rightarrow> mtcp_manager option" where
  "receive_all cfg [] m = Some m"
| "receive_all cfg (k # ks) m =
     (case ProcessInTCPPacket cfg k m of None \<Rightarrow> None | Some (ret, m) \<Rightarrow> receive_all cfg ks m)"

definition check_timeouts :: "mos_config \<Rightarrow> u32 \<Rightarrow> u32 \<Rightarrow> mtcp_manager \<Rightarrow> mtcp_manager option" where
  "check_timeouts cfg ts ts_prev m =
     (if flow_cnt m > 0 then do {
        m \<leftarrow> CheckRtmTimeout cfg ts (max_concurrency cfg) m;
        m \<leftarrow> CheckTimewaitExpire cfg ts (max_concurrency cfg) m;
        (if tcp_timeout cfg > 0 \<and> ts \<noteq> ts_prev then CheckConnectionTimeout cfg ts (max_concurrency cfg) m else Some m)
      } else Some m)"

definition flush_events :: "mtcp_manager \<Rightarrow> mtcp_manager option" where
  "flush_events m =
     (let m = (if num_msp m > 0 then FlushMonitorReadEvents m else m)
      in if ep m \<noteq> None then map_option FlushEpollEvents (FlushBufferedReadEvents m) else Some m)"

definition main_round ::
  "mos_config \<Rightarrow> bool \<Rightarrow> ip_packet list \<Rightarrow> int \<times> int \<Rightarrow> u32 \<Rightarrow> u32 \<Rightarrow> mtcp_manager \<Rightarrow> ((nat \<times> int) list \<times> mtcp_manager) option" where
  "main_round cfg end_app pkts now ts ts_prev m = do {
     m \<leftarrow> receive_all cfg pkts m;
     let (fired, m) = expire_timers now (timer_list m) m;
     m \<leftarrow> check_timeouts cfg ts ts_prev m;
     m \<leftarrow> flush_events m;
     m \<leftarrow> (if end_app \<and> flow_cnt m > 0 then HandleApplicationCalls cfg ts m else Some m);
     m \<leftarrow> WritePacketsToChunks cfg ts m;
     Some (fired, m)
   }"

end
