(* ===== verification/Sock_Api.thy ===== *)
theory Sock_Api
  imports App_Calls Pipes
begin

text \<open>
  The socket calls of the applications (\<open>api.c\<close>), for a core whose manager \<open>GetMTCPManager\<close>
  finds.  A result is a sum: \<open>Inl\<close> is the return value \<open>-1\<close> with the error code it leaves in
  \<open>errno\<close>, \<open>Inr\<close> what the call returns.  The whole call is \<open>None\<close> where the code dereferences
  a null pointer, reads the union of a socket as an object it is not, or fails an
  assertion.  The locks are not modelled: a call is one step.  Buffers
  are shorter than 2 GB, where the code converts their length to \<open>int\<close>.  \<open>pthread_mutex_init\<close> and
  \<open>pthread_cond_init\<close> are taken to succeed.
\<close>

section \<open>What the calls have in common\<close>

text \<open>The range check of the socket number and the test for an unused slot.\<close>

definition with_socket ::
  "mos_config \<Rightarrow> int \<Rightarrow> (ref \<Rightarrow> mtcp_manager \<Rightarrow> ((errno + 'a) \<times> mtcp_manager) option)
    \<Rightarrow> mtcp_manager \<Rightarrow> ((errno + 'a) \<times> mtcp_manager) option" where
  "with_socket cfg sockid f m =
     (case GetSocket cfg sockid of
        None \<Rightarrow> Some (Inl EBADF, m)
      | Some k \<Rightarrow> if socktype (smap m k) = MOS_SOCK_UNUSED then Some (Inl EBADF, m) else f k m)"

text \<open>The union of a socket read as a stream, a listener, an epoll instance: a null pointer is \<open>Some None\<close>.\<close>

definition as_stream :: "socket_map \<Rightarrow> ref option option" where
  "as_stream sk = (case sk_obj sk of NullObj \<Rightarrow> Some None | StreamObj s \<Rightarrow> Some (Some s) | _ \<Rightarrow> None)"

definition as_listener :: "socket_map \<Rightarrow> ref option option" where
  "as_listener sk = (case sk_obj sk of NullObj \<Rightarrow> Some None | ListenerObj l \<Rightarrow> Some (Some l) | _ \<Rightarrow> None)"

definition as_epoll :: "socket_map \<Rightarrow> bool option" where
  "as_epoll sk = (case sk_obj sk of NullObj \<Rightarrow> Some False | EpollObj \<Rightarrow> Some True | _ \<Rightarrow> None)"

definition wake :: "mtcp_manager \<Rightarrow> mtcp_manager" where
  "wake m = mod_appq (wakeup_flag_update (\<lambda>_. True)) m"

text \<open>An address as an application passes it: its family, and the rest.\<close>

record user_addr =
  ua_family :: u16
  ua_in :: sockaddr_in

definition AF_INET :: nat where "AF_INET = 2"
definition sizeof_sockaddr_in :: u32 where "sizeof_sockaddr_in = 16"

definition inet_addr :: "user_addr \<Rightarrow> u32 \<Rightarrow> bool" where
  "inet_addr a addrlen \<longleftrightarrow> ua_family a = of_nat AF_INET \<and> addrlen \<ge> sizeof_sockaddr_in"

section \<open>Creation\<close>

definition mtcp_monitor :: "mos_config \<Rightarrow> bool \<Rightarrow> bool \<Rightarrow> bool \<Rightarrow> ref \<Rightarrow> mtcp_manager \<Rightarrow> (errno + int) \<times> mtcp_manager" where
  "mtcp_monitor cfg alloc_ml alloc_eq alloc_events k m =
     (if GetSocket cfg (int k) = None then (Inl EBADF, m)
      else if socktype (msmap m k) = MOS_SOCK_UNUSED then (Inl EBADF, m)
      else if \<not> (socktype (msmap m k) = MOS_SOCK_MONITOR_STREAM \<or> socktype (msmap m k) = MOS_SOCK_MONITOR_RAW)
      then (Inl ENOTSOCK, m)
      else if \<not> alloc_ml then (Inl ENOMEM, m)
      else (case CreateEventQueue alloc_eq alloc_events (max_concurrency cfg) of
              None \<Rightarrow> (Inl ENOMEM, m)
            | Some q \<Rightarrow>
                (Inr 0, m\<lparr>monitors := monitors m @ [k],
                   mlisteners := (mlisteners m)(k := zero_listener\<lparr>ml_socket := k, ml_eq := q,
                     ml_client_buf_mgmt := of_nat BUFMGMT_FULL, ml_server_buf_mgmt := of_nat BUFMGMT_FULL,
                     ml_client_mon := True, ml_server_mon := True\<rparr>)\<rparr>)))"

text \<open>The type argument of \<open>socket\<close>.\<close>

definition SOCK_STREAM :: int where "SOCK_STREAM = 1"

definition socket_kind :: "int \<Rightarrow> socket_type option" where
  "socket_kind ty =
     (if ty = SOCK_STREAM then Some MOS_SOCK_STREAM
      else if ty = int (sock_num MOS_SOCK_MONITOR_STREAM) then Some MOS_SOCK_MONITOR_STREAM
      else if ty = int (sock_num MOS_SOCK_MONITOR_RAW) then Some MOS_SOCK_MONITOR_RAW
      else None)"

text \<open>The result of \<open>mtcp_monitor\<close> is not looked at; without a listener the next line crashes.\<close>

definition mtcp_socket ::
  "mos_config \<Rightarrow> bool \<Rightarrow> bool \<Rightarrow> bool \<Rightarrow> int \<Rightarrow> int \<Rightarrow> mtcp_manager \<Rightarrow> ((errno + ref) \<times> mtcp_manager) option" where
  "mtcp_socket cfg alloc_ml alloc_eq alloc_events domain ty m =
     (if domain \<noteq> int AF_INET then Some (Inl EAFNOSUPPORT, m)
      else case socket_kind ty of
             None \<Rightarrow> Some (Inl EINVAL, m)
           | Some kind \<Rightarrow>
               (case AllocateSocket kind m of
                  (None, m) \<Rightarrow> Some (Inl ENFILE, m)
                | (Some k, m) \<Rightarrow>
                    if kind = MOS_SOCK_STREAM then Some (Inr k, m)
                    else (case mtcp_monitor cfg alloc_ml alloc_eq alloc_events k m of
                            (Inl _, m) \<Rightarrow> None
                          | (Inr _, m) \<Rightarrow> Some (Inr k, m))))"

definition mtcp_bind ::
  "mos_config \<Rightarrow> int \<Rightarrow> user_addr option \<Rightarrow> u32 \<Rightarrow> mtcp_manager \<Rightarrow> ((errno + int) \<times> mtcp_manager) option" where
  "mtcp_bind cfg sockid addr addrlen =
     with_socket cfg sockid (\<lambda>k m. Some (
       if socktype (smap m k) \<noteq> MOS_SOCK_STREAM \<and> socktype (smap m k) \<noteq> MOS_SOCK_STREAM_LISTEN then (Inl ENOTSOCK, m)
       else case addr of
              None \<Rightarrow> (Inl EINVAL, m)
            | Some a \<Rightarrow>
                if sk_opts (smap m k) AND MTCP_ADDR_BIND \<noteq> 0 then (Inl EINVAL, m)
                else if \<not> inet_addr a addrlen then (Inl EINVAL, m)
                else if listener m \<noteq> None then (Inl EINVAL, m)
                else (Inr 0, mod_sock k (\<lambda>sk. sk\<lparr>sk_saddr := ua_in a, sk_opts := sk_opts sk OR MTCP_ADDR_BIND\<rparr>) m)))"

text \<open>The type of the socket changes before the backlog is looked at.\<close>

definition mtcp_listen ::
  "mos_config \<Rightarrow> bool \<Rightarrow> bool \<Rightarrow> bool \<Rightarrow> int \<Rightarrow> int \<Rightarrow> mtcp_manager \<Rightarrow> ((errno + int) \<times> mtcp_manager) option" where
  "mtcp_listen cfg alloc_lst alloc_sq alloc_q sockid backlog =
     with_socket cfg sockid (\<lambda>k m. Some (
       let m = (if socktype (smap m k) = MOS_SOCK_STREAM
                then mod_sock k (\<lambda>sk. sk\<lparr>socktype := MOS_SOCK_STREAM_LISTEN\<rparr>) m else m)
       in if socktype (smap m k) \<noteq> MOS_SOCK_STREAM_LISTEN then (Inl ENOTSOCK, m)
          else if backlog \<le> 0 \<or> backlog > max_concurrency cfg then (Inl EINVAL, m)
          else if \<not> alloc_lst then (Inl ENOMEM, m)
          else (case CreateStreamQueue alloc_sq alloc_q backlog of
                  None \<Rightarrow> (Inl ENOMEM, m)
                | Some q \<Rightarrow>
                    (let l = length (listeners m);
                         ln = \<lparr>lst_socket = Some k, lst_backlog = backlog, lst_acceptq = Some q\<rparr>
                     in (Inr 0, (mod_sock k (\<lambda>sk. sk\<lparr>sk_obj := ListenerObj l\<rparr>) m)
                           \<lparr>listeners := listeners m @ [ln], listener := Some l\<rparr>)))))"

section \<open>Accepting a connection\<close>

text \<open>The socket of an accepted stream is its own, or a new one.\<close>

definition accept_socket :: "ref \<Rightarrow> mtcp_manager \<Rightarrow> ref option \<times> mtcp_manager" where
  "accept_socket s m =
     (case socket (strm m s) of
        Some k \<Rightarrow> (Some k, m)
      | None \<Rightarrow>
          (case AllocateSocket MOS_SOCK_STREAM m of
             (None, m) \<Rightarrow> (None, m)
           | (Some k, m) \<Rightarrow>
               (let m = mod_strm s (\<lambda>t. t\<lparr>socket := Some k\<rparr>) (mod_sock k (\<lambda>sk. sk\<lparr>sk_obj := StreamObj s\<rparr>) m);
                    m = mod_sock k (\<lambda>sk. sk\<lparr>sk_saddr := \<lparr>sin_addr = daddr (strm m s), sin_port = dport (strm m s)\<rparr>\<rparr>) m
                in (Some k, case pair_stream (strm m s) of
                              None \<Rightarrow> m
                            | Some p \<Rightarrow> mod_strm p (\<lambda>t. t\<lparr>socket := Some k\<rparr>) m))))"

definition set_acceptq :: "ref \<Rightarrow> ref ring option \<Rightarrow> mtcp_manager \<Rightarrow> mtcp_manager" where
  "set_acceptq l q m = m\<lparr>listeners := (listeners m)[l := (listeners m ! l)\<lparr>lst_acceptq := q\<rparr>]\<rparr>"

definition mtcp_accept :: "mos_config \<Rightarrow> int \<Rightarrow> mtcp_manager \<Rightarrow> ((errno + ref \<times> sockaddr_in) \<times> mtcp_manager) option" where
  "mtcp_accept cfg sockid m =
     (case GetSocket cfg sockid of
        None \<Rightarrow> Some (Inl EBADF, m)
      | Some k \<Rightarrow>
          if socktype (smap m k) \<noteq> MOS_SOCK_STREAM_LISTEN then Some (Inl EINVAL, m)
          else (case as_listener (smap m k) of
             Some (Some l) \<Rightarrow>
               (case (lst_acceptq (listeners m ! l), lst_socket (listeners m ! l)) of
                  (Some q, Some lk) \<Rightarrow>
                    (case StreamDequeue q of
                       (None, q) \<Rightarrow> Some (Inl (if nonblocking (smap m lk) then EAGAIN else WAITS), m)
                     | (Some s, q) \<Rightarrow>
                         (case accept_socket s (set_acceptq l (Some q) m) of
                            (None, m) \<Rightarrow> Some (Inl ENFILE, m)
                          | (Some k', m) \<Rightarrow>
                              Some (Inr (k', \<lparr>sin_addr = daddr (strm m s), sin_port = dport (strm m s)\<rparr>),
                                if epoll (smap m lk) AND MOS_EPOLLET = 0 \<and> \<not> StreamQueueIsEmpty q
                                then snd (AddEpollEvent USR_SHADOW_EVENT_QUEUE lk MOS_EPOLLIN m) else m)))
                | _ \<Rightarrow> None)
           | _ \<Rightarrow> None))"

section \<open>Opening a connection\<close>

text \<open>\<open>et\<close> is the endianness flag of the receive-side scaling, \<open>nq\<close> the number of its queues.\<close>

definition mtcp_init_rss ::
  "mos_config \<Rightarrow> bool \<Rightarrow> bool \<Rightarrow> u32 \<Rightarrow> u32 \<Rightarrow> u32 \<Rightarrow> int \<Rightarrow> u32 \<Rightarrow> u32 \<Rightarrow> mtcp_manager \<Rightarrow> (errno + int) \<times> mtcp_manager" where
  "mtcp_init_rss cfg alloc_ok et cpu nq saddr_base n da dp m =
     (case (if saddr_base = 0 then map_option (\<lambda>nif. netdev_ips cfg ! nat nif) (GetOutputInterface cfg da)
            else Some saddr_base) of
        None \<Rightarrow> (Inl EINVAL, m)
      | Some base \<Rightarrow>
          if \<not> alloc_ok then (Inl ENOMEM, m)
          else (Inr 0, m\<lparr>own_ap := Some (CreateAddressPoolPerCore et cpu nq base n da (ucast dp))\<rparr>))"

text \<open>The pool of the core, or of the interface the destination is reached through.\<close>

definition fetch_address ::
  "mos_config \<Rightarrow> bool \<Rightarrow> u32 \<Rightarrow> u32 \<Rightarrow> sockaddr_in \<Rightarrow> sockaddr_in \<Rightarrow> mtcp_manager \<Rightarrow> errno + sockaddr_in \<times> mtcp_manager" where
  "fetch_address cfg et cpu nq da sa m =
     (case own_ap m of
        Some ap \<Rightarrow>
          (case FetchAddressPerCore ap sa of
             (ret, a, ap) \<Rightarrow> if ret < 0 then Inl EAGAIN else Inr (a, m\<lparr>own_ap := Some ap\<rparr>))
      | None \<Rightarrow>
          (case GetOutputInterface cfg (sin_addr da) of
             None \<Rightarrow> Inl EINVAL
           | Some nif \<Rightarrow>
               (case FetchAddress et (nif_ap m (nat nif)) cpu nq da sa of
                  (ret, a, ap) \<Rightarrow>
                    if ret < 0 then Inl EAGAIN else Inr (a, m\<lparr>nif_ap := (nif_ap m)(nat nif := ap)\<rparr>))))"

text \<open>
  The local address: the one the socket is bound to, or one from a pool; the boolean tells
  the two apart.  The addresses are given to the hash in network byte order here, in host
  byte order in \<open>addr_pool.c\<close>.
\<close>

definition bound_address :: "socket_map \<Rightarrow> bool" where
  "bound_address sk \<longleftrightarrow> sk_opts sk AND MTCP_ADDR_BIND \<noteq> 0 \<and> sin_port (sk_saddr sk) \<noteq> 0 \<and> sin_addr (sk_saddr sk) \<noteq> 0"

definition connect_address ::
  "mos_config \<Rightarrow> bool \<Rightarrow> u32 \<Rightarrow> u32 \<Rightarrow> ref \<Rightarrow> sockaddr_in \<Rightarrow> mtcp_manager \<Rightarrow> errno + bool \<times> mtcp_manager" where
  "connect_address cfg et cpu nq k da m =
     (let sa = sk_saddr (smap m k) in
      if bound_address (smap m k) then
        (if GetRSSCPUCore et (sin_addr sa) (sin_addr da) (sin_port sa) (sin_port da) nq \<noteq> cpu then Inl EINVAL
         else Inr (False, m))
      else case fetch_address cfg et cpu nq da sa m of
             Inl e \<Rightarrow> Inl e
           | Inr (a, m) \<Rightarrow>
               Inr (True, mod_sock k (\<lambda>sk. sk\<lparr>sk_saddr := a, sk_opts := sk_opts sk OR MTCP_ADDR_BIND\<rparr>) m))"

text \<open>
  The stream of the connection.  \<open>flt l sa sp da dp\<close> is the outcome of the filter of
  listener \<open>l\<close>, which is true where none is set.
\<close>

definition connect_hits ::
  "(ref \<Rightarrow> u32 \<Rightarrow> u16 \<Rightarrow> u32 \<Rightarrow> u16 \<Rightarrow> bool) \<Rightarrow> sockaddr_in \<Rightarrow> sockaddr_in \<Rightarrow> mtcp_manager \<Rightarrow> ref list" where
  "connect_hits flt sa da m =
     (if num_msp m > 0 then filter (\<lambda>l. flt l (sin_addr sa) (sin_port sa) (sin_addr da) (sin_port da)) (monitors m) else [])"

definition connect_stream ::
  "mos_config \<Rightarrow> (ref \<Rightarrow> u32 \<Rightarrow> u16 \<Rightarrow> u32 \<Rightarrow> u16 \<Rightarrow> bool) \<Rightarrow> ref \<Rightarrow> sockaddr_in \<Rightarrow> mtcp_manager
    \<Rightarrow> (ref option \<times> mtcp_manager) option" where
  "connect_stream cfg flt k da m =
     (let sa = sk_saddr (smap m k); hits = connect_hits flt sa da m; m = fold mark_syn_hit hits m
      in if hits \<noteq> [] then
           CreateClientTCPStream cfg (Some k) (STREAM_TYPE MOS_SOCK_STREAM OR STREAM_TYPE MOS_SOCK_MONITOR_STREAM_ACTIVE)
             (sin_addr sa) (sin_port sa) (sin_addr da) (sin_port da) None m
         else
           CreateTCPStream cfg (Some k) (STREAM_TYPE MOS_SOCK_STREAM)
             (sin_addr sa) (sin_port sa) (sin_addr da) (sin_port da) None m)"

text \<open>The buffers of the other direction: what the first monitor that wants any asks for.\<close>

definition pair_buffers :: "ref \<Rightarrow> ref \<Rightarrow> mtcp_manager \<Rightarrow> mtcp_manager" where
  "pair_buffers s p m =
     (let asked = map (\<lambda>w. ml_server_buf_mgmt (mlisteners m (ms_listener (sk_mon (msmap m (fst w)))))) (msocks (strm m s))
      in mod_strm p (\<lambda>t. t\<lparr>side := MOS_SIDE_SVR,
           buffer_mgmt := (case find (\<lambda>bm. bm > 0) asked of None \<Rightarrow> of_nat BUFMGMT_OFF | Some bm \<Rightarrow> bm)\<rparr>) m)"

definition connect_vars :: "bool \<Rightarrow> tcp_stream \<Rightarrow> tcp_stream" where
  "connect_vars dyn t =
     (mod_snd (\<lambda>v. v\<lparr>cwnd := 1, ssthresh := ucast (mss v) * 10\<rparr>) t)
       \<lparr>is_bound_addr := is_bound_addr t \<or> dyn, side := MOS_SIDE_CLI\<rparr>"

definition connect_start :: "bool \<Rightarrow> ref \<Rightarrow> mtcp_manager \<Rightarrow> mtcp_manager" where
  "connect_start dyn s m =
     (let m = mod_strm s (connect_vars dyn) m;
          m = (case pair_stream (strm m s) of None \<Rightarrow> m | Some p \<Rightarrow> pair_buffers s p m)
      in mod_strm s (enter_state TCP_ST_SYN_SENT) m)"

text \<open>What a blocking connect finds each time it looks at the stream.\<close>

definition connect_wait :: "tcp_stream \<Rightarrow> errno + int" where
  "connect_wait t =
     (if state t > TCP_ST_ESTABLISHED then Inl ENOSYS
      else if state t = TCP_ST_ESTABLISHED then Inr 0
      else Inl WAITS)"

definition to_destroyq :: "ref \<Rightarrow> mtcp_manager \<Rightarrow> mtcp_manager" where
  "to_destroyq s m = mod_appq (destroyq_update (\<lambda>q. snd (StreamEnqueue q s))) m"

definition connect_enqueue :: "ref \<Rightarrow> ref \<Rightarrow> mtcp_manager \<Rightarrow> (errno + int) \<times> mtcp_manager" where
  "connect_enqueue k s m =
     (let (ret, q) = StreamEnqueue (connectq (appq m)) s;
          m = wake (mod_appq (connectq_update (\<lambda>_. q)) m)
      in if ret < 0 then (Inl EAGAIN, to_destroyq s m)
         else if nonblocking (smap m k) then (Inl EINPROGRESS, m)
         else (connect_wait (strm m s), m))"

definition mtcp_connect ::
  "mos_config \<Rightarrow> bool \<Rightarrow> u32 \<Rightarrow> u32 \<Rightarrow> (ref \<Rightarrow> u32 \<Rightarrow> u16 \<Rightarrow> u32 \<Rightarrow> u16 \<Rightarrow> bool) \<Rightarrow> int \<Rightarrow> user_addr option \<Rightarrow> u32
    \<Rightarrow> mtcp_manager \<Rightarrow> ((errno + int) \<times> mtcp_manager) option" where
  "mtcp_connect cfg et cpu nq flt sockid addr addrlen =
     with_socket cfg sockid (\<lambda>k m.
       if socktype (smap m k) \<noteq> MOS_SOCK_STREAM then Some (Inl ENOTSOCK, m)
       else case addr of
              None \<Rightarrow> Some (Inl EFAULT, m)
            | Some a \<Rightarrow>
                if \<not> inet_addr a addrlen then Some (Inl EAFNOSUPPORT, m)
                else (case as_stream (smap m k) of
                        None \<Rightarrow> None
                      | Some (Some s) \<Rightarrow> Some (Inl (if state (strm m s) \<ge> TCP_ST_ESTABLISHED then EISCONN else EALREADY), m)
                      | Some None \<Rightarrow>
                          (case connect_address cfg et cpu nq k (ua_in a) m of
                             Inl e \<Rightarrow> Some (Inl e, m)
                           | Inr (dyn, m) \<Rightarrow>
                               (case connect_stream cfg flt k (ua_in a) m of
                                  None \<Rightarrow> None
                                | Some (None, m) \<Rightarrow> Some (Inl ENOMEM, m)
                                | Some (Some s, m) \<Rightarrow> Some (connect_enqueue k s (connect_start dyn s m))))))"

section \<open>Closing\<close>

text \<open>
  A stream that is neither open nor about to open or to end is left without a socket, and
  nothing else happens to it.
\<close>

definition CloseStreamSocket :: "ref \<Rightarrow> mtcp_manager \<Rightarrow> ((errno + int) \<times> mtcp_manager) option" where
  "CloseStreamSocket k m =
     (case as_stream (smap m k) of
        None \<Rightarrow> None
      | Some None \<Rightarrow> Some (Inl ENOTCONN, m)
      | Some (Some s) \<Rightarrow> Some (
          if closed (strm m s) then (Inr 0, m)
          else
            (let m = mod_strm s (\<lambda>t. t\<lparr>closed := True, socket := None\<rparr>) m; st = state (strm m s) in
             if st = TCP_ST_CLOSED_RSVD then (Inr 0, wake (to_destroyq s m))
             else if st = TCP_ST_SYN_SENT then (Inl NO_ERRNO, wake (to_destroyq s m))
             else if st \<noteq> TCP_ST_ESTABLISHED \<and> st \<noteq> TCP_ST_CLOSE_WAIT then (Inl EBADF, m)
             else
               (let m = mod_strm s (mod_snd (\<lambda>v. v\<lparr>on_closeq := True\<rparr>)) m;
                    (ret, q) = StreamEnqueue (closeq (appq m)) s;
                    m = wake (mod_appq (closeq_update (\<lambda>_. q)) m)
                in (if ret < 0 then Inl EAGAIN else Inr 0, m)))))"

text \<open>
  The listener is freed with its queue gone; what \<open>mtcp->listener\<close> points to afterwards is
  that memory, in which the last thing stored was the null pointer to the queue.
\<close>

definition CloseListeningSocket :: "ref \<Rightarrow> mtcp_manager \<Rightarrow> ((errno + int) \<times> mtcp_manager) option" where
  "CloseListeningSocket k m =
     (case as_listener (smap m k) of
        None \<Rightarrow> None
      | Some None \<Rightarrow> Some (Inl EINVAL, m)
      | Some (Some l) \<Rightarrow> Some (Inr 0, mod_sock k (\<lambda>sk. sk\<lparr>sk_obj := NullObj\<rparr>) (set_acceptq l None m)))"

definition CloseEpollSocket :: "ref \<Rightarrow> mtcp_manager \<Rightarrow> ((errno + int) \<times> mtcp_manager) option" where
  "CloseEpollSocket k m =
     (case as_epoll (smap m k) of
        None \<Rightarrow> None
      | Some False \<Rightarrow> Some (Inl EINVAL, m)
      | Some True \<Rightarrow> Some (Inr 0, mod_sock k (\<lambda>sk. sk\<lparr>sk_obj := NullObj\<rparr>) (m\<lparr>ep := None\<rparr>)))"

definition mtcp_close :: "mos_config \<Rightarrow> int \<Rightarrow> mtcp_manager \<Rightarrow> ((errno + int) \<times> mtcp_manager) option" where
  "mtcp_close cfg sockid =
     with_socket cfg sockid (\<lambda>k m.
       map_option (\<lambda>(ret, m). (ret, FreeSocket k (socktype (smap m k)) m))
         (case socktype (smap m k) of
            MOS_SOCK_STREAM \<Rightarrow> CloseStreamSocket k m
          | MOS_SOCK_STREAM_LISTEN \<Rightarrow> CloseListeningSocket k m
          | MOS_SOCK_EPOLL \<Rightarrow> CloseEpollSocket k m
          | MOS_SOCK_PIPE \<Rightarrow> PipeClose cfg sockid m
          | _ \<Rightarrow> Some (Inl EINVAL, m)))"

definition abort_stream :: "ref \<Rightarrow> mtcp_manager \<Rightarrow> (errno + int) \<times> mtcp_manager" where
  "abort_stream s m =
     (let st = state (strm m s) in
      if st = TCP_ST_CLOSED_RSVD then (Inl NO_ERRNO, m)
      else if st = TCP_ST_SYN_SENT \<or> st = TCP_ST_CLOSING \<or> st = TCP_ST_LAST_ACK \<or> st = TCP_ST_TIME_WAIT then
        (Inr 0, wake (to_destroyq s (mod_strm s (close_with TCP_ACTIVE_CLOSE) m)))
      else if on_resetq (sndvar (strm m s)) then (Inl ECONNRESET, m)
      else
        (let m = mod_strm s (mod_snd (\<lambda>v. v\<lparr>on_resetq := True\<rparr>)) m;
             (ret, q) = StreamEnqueue (resetq (appq m)) s;
             m = wake (mod_appq (resetq_update (\<lambda>_. q)) m)
         in (if ret < 0 then Inl EAGAIN else Inr 0, m)))"

definition mtcp_abort :: "mos_config \<Rightarrow> int \<Rightarrow> mtcp_manager \<Rightarrow> ((errno + int) \<times> mtcp_manager) option" where
  "mtcp_abort cfg sockid =
     with_socket cfg sockid (\<lambda>k m.
       if socktype (smap m k) \<noteq> MOS_SOCK_STREAM then Some (Inl ENOTSOCK, m)
       else case as_stream (smap m k) of
              None \<Rightarrow> None
            | Some None \<Rightarrow> Some (Inl ENOTCONN, m)
            | Some (Some s) \<Rightarrow>
                Some (abort_stream s (mod_strm s (\<lambda>t. t\<lparr>socket := None\<rparr>) (FreeSocket k (socktype (smap m k)) m))))"

section \<open>Reading\<close>

text \<open>
  \<open>buf\<close> is the buffer of the caller; the calls give back what it holds afterwards.  The
  peek of the ring buffer reads its segments, which may take chunks for it.
\<close>

definition ring_peek :: "mos_config \<Rightarrow> ref \<Rightarrow> u8 list \<Rightarrow> mtcp_manager \<Rightarrow> ((errno + int) \<times> u8 list \<times> mtcp_manager) option" where
  "ring_peek cfg s buf m =
     (case rcvbuf (rcvvar (strm m s)) of
        None \<Rightarrow> None
      | Some rb \<Rightarrow>
          (case tcprb_ppeek (chunk_bytes cfg) buf (int (length buf)) (rb_pile rb) (rb, bufseg_pool m) of
             None \<Rightarrow> None
           | Some (n, buf, rb, mp) \<Rightarrow>
               Some (if n \<le> 0 then Inl EAGAIN else Inr n, buf,
                 mod_strm s (mod_rcv (\<lambda>r. r\<lparr>rcvbuf := Some rb\<rparr>)) (m\<lparr>bufseg_pool := mp\<rparr>))))"

definition PeekForUser :: "mos_config \<Rightarrow> ref \<Rightarrow> u8 list \<Rightarrow> mtcp_manager \<Rightarrow> ((errno + int) \<times> u8 list \<times> mtcp_manager) option" where
  "PeekForUser cfg s buf m = ring_peek cfg s buf m"

text \<open>The bytes read leave the window; the peer is told when it waits for that.\<close>

definition advance_pile :: "int \<Rightarrow> tcp_recv_vars \<Rightarrow> tcp_recv_vars" where
  "advance_pile n r =
     (case rcvbuf r of
        None \<Rightarrow> r
      | Some rb \<Rightarrow>
          (let rb = snd (tcprb_setpile rb (rb_pile rb + n))
           in r\<lparr>rcvbuf := Some rb, rcv_wnd := word_of_int (rb_len rb - tcprb_cflen rb)\<rparr>))"

definition window_update :: "ref \<Rightarrow> mtcp_manager \<Rightarrow> mtcp_manager" where
  "window_update s m =
     (let t = strm m s in
      if need_wnd_adv t \<and> rcv_wnd (rcvvar t) > ucast (eff_mss (sndvar t)) \<and> \<not> on_ackq (sndvar t) then
        wake (mod_appq (ackq_update (\<lambda>q. snd (StreamEnqueue q s)))
          (mod_strm s (\<lambda>t. (mod_snd (\<lambda>v. v\<lparr>on_ackq := True\<rparr>) t)\<lparr>need_wnd_adv := False\<rparr>) m))
      else m)"

definition CopyToUser :: "mos_config \<Rightarrow> ref \<Rightarrow> u8 list \<Rightarrow> mtcp_manager \<Rightarrow> ((errno + int) \<times> u8 list \<times> mtcp_manager) option" where
  "CopyToUser cfg s buf m =
     (case ring_peek cfg s buf m of
        Some (Inr n, buf, m) \<Rightarrow> Some (Inr n, buf, window_update s (mod_strm s (mod_rcv (advance_pile n)) m))
      | r \<Rightarrow> r)"

text \<open>The streams that can be read: from \<open>ESTABLISHED\<close> to \<open>CLOSE_WAIT\<close>, with a buffer.\<close>

definition readable :: "tcp_stream \<Rightarrow> bool" where
  "readable t \<longleftrightarrow> rcvbuf (rcvvar t) \<noteq> None \<and> state t \<ge> TCP_ST_ESTABLISHED \<and> state t \<le> TCP_ST_CLOSE_WAIT"

definition merged_len :: "tcp_stream \<Rightarrow> int" where
  "merged_len t = (case rcvbuf (rcvvar t) of None \<Rightarrow> 0 | Some rb \<Rightarrow> tcprb_cflen rb)"

definition event_remaining :: "ref \<Rightarrow> ref \<Rightarrow> bool \<Rightarrow> mtcp_manager \<Rightarrow> bool" where
  "event_remaining k s got m \<longleftrightarrow>
     (level_triggered MOS_EPOLLIN (smap m k) \<and> merged_len (strm m s) > 0)
     \<or> (state (strm m s) = TCP_ST_CLOSE_WAIT \<and> merged_len (strm m s) = 0 \<and> got)"

definition recv_event :: "ref \<Rightarrow> ref \<Rightarrow> bool \<Rightarrow> mtcp_manager \<Rightarrow> mtcp_manager" where
  "recv_event k s got m =
     (if event_remaining k s got m \<and> epoll (smap m k) \<noteq> 0
      then snd (AddEpollEvent USR_SHADOW_EVENT_QUEUE k MOS_EPOLLIN m) else m)"

definition MSG_PEEK :: int where "MSG_PEEK = 2"

definition recv_stream ::
  "mos_config \<Rightarrow> ref \<Rightarrow> ref \<Rightarrow> u8 list \<Rightarrow> int \<Rightarrow> mtcp_manager \<Rightarrow> ((errno + int) \<times> u8 list \<times> mtcp_manager) option" where
  "recv_stream cfg k s buf flags m =
     (if \<not> readable (strm m s) then Some (Inl ENOTCONN, buf, m)
      else if state (strm m s) = TCP_ST_CLOSE_WAIT \<and> merged_len (strm m s) = 0 then Some (Inr 0, buf, m)
      else if nonblocking (smap m k) \<and> merged_len (strm m s) = 0 then Some (Inl EAGAIN, buf, m)
      else if flags \<noteq> 0 \<and> flags \<noteq> MSG_PEEK then Some (Inl EINVAL, buf, m)
      else map_option (\<lambda>(ret, buf, m). (ret, buf, recv_event k s (case ret of Inl _ \<Rightarrow> False | Inr n \<Rightarrow> n > 0) m))
             (if flags = 0 then CopyToUser cfg s buf m else PeekForUser cfg s buf m))"

text \<open>What \<open>PipeRead\<close> returns, as the buffer it fills.\<close>

definition into_buf :: "u8 list \<Rightarrow> (errno + u8 list) \<times> mtcp_manager \<Rightarrow> (errno + int) \<times> u8 list \<times> mtcp_manager" where
  "into_buf buf r =
     (case r of
        (Inl e, m) \<Rightarrow> (Inl e, buf, m)
      | (Inr bytes, m) \<Rightarrow> (Inr (int (length bytes)), poke 0 bytes buf, m))"

definition mtcp_recv ::
  "mos_config \<Rightarrow> int \<Rightarrow> u8 list \<Rightarrow> int \<Rightarrow> mtcp_manager \<Rightarrow> ((errno + int) \<times> u8 list \<times> mtcp_manager) option" where
  "mtcp_recv cfg sockid buf flags m =
     (case GetSocket cfg sockid of
        None \<Rightarrow> Some (Inl EBADF, buf, m)
      | Some k \<Rightarrow>
          if socktype (smap m k) = MOS_SOCK_UNUSED then Some (Inl EBADF, buf, m)
          else if socktype (smap m k) = MOS_SOCK_PIPE
          then map_option (into_buf buf) (PipeRead cfg sockid (int (length buf)) m)
          else if socktype (smap m k) \<noteq> MOS_SOCK_STREAM then Some (Inl ENOTSOCK, buf, m)
          else (case as_stream (smap m k) of
                  None \<Rightarrow> None
                | Some None \<Rightarrow> Some (Inl ENOTCONN, buf, m)
                | Some (Some s) \<Rightarrow> recv_stream cfg k s buf flags m))"

definition mtcp_read :: "mos_config \<Rightarrow> int \<Rightarrow> u8 list \<Rightarrow> mtcp_manager \<Rightarrow> ((errno + int) \<times> u8 list \<times> mtcp_manager) option" where
  "mtcp_read cfg sockid buf m = mtcp_recv cfg sockid buf 0 m"

text \<open>The vectored read: the number of bytes read, the buffers, the state.\<close>

fun readv_loop :: "mos_config \<Rightarrow> ref \<Rightarrow> u8 list list \<Rightarrow> mtcp_manager \<Rightarrow> (int \<times> u8 list list \<times> mtcp_manager) option" where
  "readv_loop cfg s [] m = Some (0, [], m)"
| "readv_loop cfg s (buf # bufs) m =
     (if buf = [] then map_option (\<lambda>(n, bs, m). (n, buf # bs, m)) (readv_loop cfg s bufs m)
      else case CopyToUser cfg s buf m of
             None \<Rightarrow> None
           | Some (Inl _, buf, m) \<Rightarrow> Some (0, buf # bufs, m)
           | Some (Inr ret, buf, m) \<Rightarrow>
               if ret \<le> 0 then Some (0, buf # bufs, m)
               else if ret < int (length buf) then Some (ret, buf # bufs, m)
               else map_option (\<lambda>(n, bs, m). (ret + n, buf # bs, m)) (readv_loop cfg s bufs m))"

definition readv_event :: "ref \<Rightarrow> ref \<Rightarrow> int \<Rightarrow> mtcp_manager \<Rightarrow> mtcp_manager" where
  "readv_event k s n m =
     (if event_remaining k s (n > 0) m \<and> level_triggered MOS_EPOLLIN (smap m k)
      then snd (AddEpollEvent USR_SHADOW_EVENT_QUEUE k MOS_EPOLLIN m) else m)"

definition mtcp_readv ::
  "mos_config \<Rightarrow> int \<Rightarrow> u8 list list \<Rightarrow> mtcp_manager \<Rightarrow> ((errno + int) \<times> u8 list list \<times> mtcp_manager) option" where
  "mtcp_readv cfg sockid iov m =
     (case GetSocket cfg sockid of
        None \<Rightarrow> Some (Inl EBADF, iov, m)
      | Some k \<Rightarrow>
          if socktype (smap m k) = MOS_SOCK_UNUSED then Some (Inl EBADF, iov, m)
          else if socktype (smap m k) \<noteq> MOS_SOCK_STREAM then Some (Inl ENOTSOCK, iov, m)
          else (case as_stream (smap m k) of
                  None \<Rightarrow> None
                | Some None \<Rightarrow> Some (Inl ENOTCONN, iov, m)
                | Some (Some s) \<Rightarrow>
                    if \<not> readable (strm m s) then Some (Inl ENOTCONN, iov, m)
                    else if state (strm m s) = TCP_ST_CLOSE_WAIT \<and> merged_len (strm m s) = 0 then Some (Inr 0, iov, m)
                    else if nonblocking (smap m k) \<and> merged_len (strm m s) = 0 then Some (Inl EAGAIN, iov, m)
                    else map_option (\<lambda>(n, bufs, m). (Inr n, bufs, readv_event k s n m)) (readv_loop cfg s iov m)))"

section \<open>Writing\<close>

text \<open>
  \<open>fresh\<close> is what \<open>malloc\<close> gives \<open>SBInit\<close>.  The failed assertion on the length put is
  \<open>None\<close>; the test for \<open>ret <= 0\<close> behind it is never true.
\<close>

definition ensure_sndbuf :: "mos_config \<Rightarrow> tcp_send_buffer option \<Rightarrow> ref \<Rightarrow> mtcp_manager \<Rightarrow> tcp_send_buffer option \<times> mtcp_manager" where
  "ensure_sndbuf cfg fresh s m =
     (case sndbuf (sndvar (strm m s)) of
        Some b \<Rightarrow> (Some b, m)
      | None \<Rightarrow>
          (case SBInit fresh (chunk_bytes cfg) (rbm_snd m) (iss (sndvar (strm m s)) + 1) of
             (None, sbm) \<Rightarrow> (None, mod_strm s (\<lambda>t. t\<lparr>close_reason := TCP_NO_MEM\<rparr>) (m\<lparr>rbm_snd := sbm\<rparr>))
           | (Some b, sbm) \<Rightarrow> (Some b, mod_strm s (mod_snd (\<lambda>v. v\<lparr>sndbuf := Some b\<rparr>)) (m\<lparr>rbm_snd := sbm\<rparr>))))"

definition CopyFromUser ::
  "mos_config \<Rightarrow> tcp_send_buffer option \<Rightarrow> ref \<Rightarrow> u8 list \<Rightarrow> mtcp_manager \<Rightarrow> ((errno + int) \<times> mtcp_manager) option" where
  "CopyFromUser cfg fresh s buf m =
     (let sndlen = min (sint (snd_wnd (sndvar (strm m s)))) (int (length buf)) in
      if sndlen \<le> 0 then Some (Inl EAGAIN, m)
      else case ensure_sndbuf cfg fresh s m of
             (None, m) \<Rightarrow> Some (Inl ENOMEM, m)
           | (Some b, m) \<Rightarrow>
               (let (ret, b) = SBPut b buf (word_of_int sndlen) in
                if sint (ucast ret :: u32) \<noteq> sndlen then None
                else Some (Inr sndlen,
                       mod_strm s (mod_snd (\<lambda>v. v\<lparr>sndbuf := Some b, snd_wnd := sb_size b - sb_len b\<rparr>)) m)))"

definition writable :: "tcp_stream \<Rightarrow> bool" where
  "writable t \<longleftrightarrow> state t = TCP_ST_ESTABLISHED \<or> state t = TCP_ST_CLOSE_WAIT"

definition to_sendq :: "ref \<Rightarrow> mtcp_manager \<Rightarrow> mtcp_manager" where
  "to_sendq s m =
     (if on_sendq (sndvar (strm m s)) \<or> on_send_list (sndvar (strm m s)) then m
      else wake (mod_appq (sendq_update (\<lambda>q. snd (StreamEnqueue q s)))
             (mod_strm s (mod_snd (\<lambda>v. v\<lparr>on_sendq := True\<rparr>)) m)))"

definition write_event :: "ref \<Rightarrow> ref \<Rightarrow> mtcp_manager \<Rightarrow> mtcp_manager" where
  "write_event k s m =
     (if snd_wnd (sndvar (strm m s)) > 0 \<and> level_triggered MOS_EPOLLOUT (smap m k)
      then snd (AddEpollEvent USR_SHADOW_EVENT_QUEUE k MOS_EPOLLOUT m) else m)"

definition mtcp_write ::
  "mos_config \<Rightarrow> tcp_send_buffer option \<Rightarrow> int \<Rightarrow> u8 list \<Rightarrow> mtcp_manager \<Rightarrow> ((errno + int) \<times> mtcp_manager) option" where
  "mtcp_write cfg fresh sockid buf =
     with_socket cfg sockid (\<lambda>k m.
       if socktype (smap m k) = MOS_SOCK_PIPE then PipeWrite cfg sockid buf m
       else if socktype (smap m k) \<noteq> MOS_SOCK_STREAM then Some (Inl ENOTSOCK, m)
       else case as_stream (smap m k) of
              None \<Rightarrow> None
            | Some None \<Rightarrow> Some (Inl ENOTCONN, m)
            | Some (Some s) \<Rightarrow>
                if \<not> writable (strm m s) then Some (Inl ENOTCONN, m)
                else if buf = [] then Some (if nonblocking (smap m k) then (Inl EAGAIN, m) else (Inr 0, m))
                else map_option (\<lambda>(ret, m).
                       (ret, write_event k s (case ret of Inl _ \<Rightarrow> m | Inr _ \<Rightarrow> to_sendq s m)))
                     (CopyFromUser cfg fresh s buf m))"

text \<open>The vectored write; \<open>fresh\<close> is used by the first buffer that is not empty.\<close>

fun writev_loop ::
  "mos_config \<Rightarrow> tcp_send_buffer option \<Rightarrow> ref \<Rightarrow> u8 list list \<Rightarrow> mtcp_manager \<Rightarrow> (int \<times> mtcp_manager) option" where
  "writev_loop cfg fresh s [] m = Some (0, m)"
| "writev_loop cfg fresh s (buf # bufs) m =
     (if buf = [] then writev_loop cfg fresh s bufs m
      else case CopyFromUser cfg fresh s buf m of
             None \<Rightarrow> None
           | Some (Inl _, m) \<Rightarrow> Some (0, m)
           | Some (Inr ret, m) \<Rightarrow>
               if ret \<le> 0 \<or> ret < int (length buf) then Some (ret, m)
               else map_option (\<lambda>(n, m). (ret + n, m)) (writev_loop cfg fresh s bufs m))"

definition mtcp_writev ::
  "mos_config \<Rightarrow> tcp_send_buffer option \<Rightarrow> int \<Rightarrow> u8 list list \<Rightarrow> mtcp_manager \<Rightarrow> ((errno + int) \<times> mtcp_manager) option" where
  "mtcp_writev cfg fresh sockid iov =
     with_socket cfg sockid (\<lambda>k m.
       if socktype (smap m k) \<noteq> MOS_SOCK_STREAM then Some (Inl ENOTSOCK, m)
       else case as_stream (smap m k) of
              None \<Rightarrow> None
            | Some None \<Rightarrow> Some (Inl ENOTCONN, m)
            | Some (Some s) \<Rightarrow>
                if \<not> writable (strm m s) then Some (Inl ENOTCONN, m)
                else map_option (\<lambda>(n, m).
                       (if n = 0 \<and> nonblocking (smap m k) then Inl EAGAIN else Inr n,
                        write_event k s (if n > 0 then to_sendq s m else m)))
                     (writev_loop cfg fresh s iov m))"

section \<open>Names and options\<close>

definition end_socket :: "socket_map \<Rightarrow> bool" where
  "end_socket sk \<longleftrightarrow> socktype sk = MOS_SOCK_STREAM_LISTEN \<or> socktype sk = MOS_SOCK_STREAM"

definition mtcp_getsockname :: "mos_config \<Rightarrow> int \<Rightarrow> u32 \<Rightarrow> mtcp_manager \<Rightarrow> ((errno + sockaddr_in) \<times> mtcp_manager) option" where
  "mtcp_getsockname cfg sockid addrlen =
     with_socket cfg sockid (\<lambda>k m. Some (
       if addrlen = 0 then Inl EINVAL
       else if \<not> end_socket (smap m k) then Inl ENOTSOCK
       else Inr (sk_saddr (smap m k)), m))"

text \<open>
  The error of a socket: the value stored for the caller, or a failure.  \<open>err\<close> is the value
  of \<open>errno\<close> when the call starts; a connection attempt that is still going on is reported
  as a failure that stores that value and leaves \<open>errno\<close> alone.
\<close>

datatype so_error = So_error errno | No_error

definition GetSocketError :: "errno \<Rightarrow> tcp_stream \<Rightarrow> errno + so_error" where
  "GetSocketError err t =
     (if state t = TCP_ST_CLOSED_RSVD \<and> close_reason t \<in> {TCP_TIMEDOUT, TCP_CONN_FAIL, TCP_CONN_LOST}
      then Inr (So_error ETIMEDOUT)
      else if (state t = TCP_ST_CLOSE_WAIT \<or> state t = TCP_ST_CLOSED_RSVD) \<and> close_reason t = TCP_RESET
      then Inr (So_error ECONNRESET)
      else if state t = TCP_ST_SYN_SENT \<and> err = EINPROGRESS then Inl NO_ERRNO
      else if close_reason t = TCP_NOT_CLOSED then Inr No_error
      else Inl ENOSYS)"

definition SO_ERROR :: int where "SO_ERROR = 4"

definition getsockopt_socket :: "mos_config \<Rightarrow> errno \<Rightarrow> int \<Rightarrow> int \<Rightarrow> mtcp_manager \<Rightarrow> ((errno + so_error) \<times> mtcp_manager) option" where
  "getsockopt_socket cfg err sockid optname =
     with_socket cfg sockid (\<lambda>k m.
       if \<not> end_socket (smap m k) then Some (Inl ENOTSOCK, m)
       else if optname = SO_ERROR \<and> socktype (smap m k) = MOS_SOCK_STREAM then
         (case as_stream (smap m k) of
            None \<Rightarrow> None
          | Some None \<Rightarrow> Some (Inl EBADF, m)
          | Some (Some s) \<Rightarrow> Some (GetSocketError err (strm m s), m))
       else Some (Inl ENOSYS, m))"

definition mtcp_setsock_nonblock :: "mos_config \<Rightarrow> int \<Rightarrow> mtcp_manager \<Rightarrow> ((errno + int) \<times> mtcp_manager) option" where
  "mtcp_setsock_nonblock cfg sockid =
     with_socket cfg sockid (\<lambda>k m. Some (Inr 0, mod_sock k (\<lambda>sk. sk\<lparr>sk_opts := sk_opts sk OR MTCP_NONBLOCK\<rparr>) m))"

text \<open>
  \<open>arg\<close> is the integer the argument points to, \<open>None\<close> for a null pointer; the result is what
  it points to afterwards.  A listening socket passes the test of the type, and its listener
  is read as a stream.
\<close>

definition FIONREAD :: int where "FIONREAD = 0x541B"
definition FIONBIO :: int where "FIONBIO = 0x5421"

definition mtcp_ioctl :: "mos_config \<Rightarrow> int \<Rightarrow> int \<Rightarrow> int option \<Rightarrow> mtcp_manager \<Rightarrow> ((errno + int) \<times> mtcp_manager) option" where
  "mtcp_ioctl cfg sockid request arg m =
     (case GetSocket cfg sockid of
        None \<Rightarrow> Some (Inl EBADF, m)
      | Some k \<Rightarrow>
          if \<not> end_socket (smap m k) then Some (Inl EBADF, m)
          else (case arg of
             None \<Rightarrow> Some (Inl EFAULT, m)
           | Some v \<Rightarrow>
               if request = FIONREAD then
                 (case as_stream (smap m k) of
                    None \<Rightarrow> None
                  | Some None \<Rightarrow> Some (Inl EBADF, m)
                  | Some (Some s) \<Rightarrow> Some (Inr (merged_len (strm m s)), m))
               else if request = FIONBIO then
                 Some (Inr v, mod_sock k (\<lambda>sk. sk\<lparr>sk_opts :=
                   (if v \<noteq> 0 then sk_opts sk OR MTCP_NONBLOCK else sk_opts sk AND NOT MTCP_NONBLOCK)\<rparr>) m)
               else Some (Inl EINVAL, m)))"

definition mtcp_get_connection_cnt :: "mtcp_manager \<Rightarrow> u32" where
  "mtcp_get_connection_cnt m = (if num_msp m > 0 then flow_cnt m div 2 else flow_cnt m)"

section \<open>The epoll socket\<close>

text \<open>
  The calls of \<open>eventpoll.c\<close> that need sockets.  \<open>alloc_q i\<close> are the two allocations of queue
  \<open>i\<close>.  A queue that cannot be had frees the socket with type \<open>FALSE\<close>, which is
  \<open>MOS_SOCK_UNUSED\<close>.
\<close>

definition mtcp_epoll_create :: "bool \<Rightarrow> (nat \<Rightarrow> bool \<times> bool) \<Rightarrow> int \<Rightarrow> mtcp_manager \<Rightarrow> (errno + ref) \<times> mtcp_manager" where
  "mtcp_epoll_create alloc_ep alloc_q sz m =
     (if sz \<le> 0 then (Inl EINVAL, m)
      else case AllocateSocket MOS_SOCK_EPOLL m of
             (None, m) \<Rightarrow> (Inl ENFILE, m)
           | (Some k, m) \<Rightarrow>
               if \<not> alloc_ep then (Inl NO_ERRNO, FreeSocket k MOS_SOCK_EPOLL m)
               else (case (CreateEventQueue (fst (alloc_q 0)) (snd (alloc_q 0)) sz,
                           CreateEventQueue (fst (alloc_q 1)) (snd (alloc_q 1)) sz,
                           CreateEventQueue (fst (alloc_q 2)) (snd (alloc_q 2)) sz) of
                       (Some uq, Some sq, Some mq) \<Rightarrow>
                         (Inr k, mod_sock k (\<lambda>sk. sk\<lparr>sk_obj := EpollObj\<rparr>)
                           (m\<lparr>ep := Some \<lparr>usr_queue = uq, usr_shadow_queue = sq, mtcp_queue = mq, stat_issued = 0,
                              stat_registered = 0, stat_invalidated = 0, stat_handled = 0\<rparr>\<rparr>))
                     | _ \<Rightarrow> (Inl NO_ERRNO, FreeSocket k MOS_SOCK_UNUSED m)))"

text \<open>A wait that finds nothing and may still wait evaluates the same again when it is woken.\<close>

definition mtcp_epoll_wait ::
  "mos_config \<Rightarrow> int \<Rightarrow> int \<Rightarrow> int \<Rightarrow> mtcp_manager \<Rightarrow> ((errno + epoll_event list) \<times> mtcp_manager) option" where
  "mtcp_epoll_wait cfg epid maxevents timeout =
     with_socket cfg epid (\<lambda>k m.
       if socktype (smap m k) \<noteq> MOS_SOCK_EPOLL then Some (Inl EINVAL, m)
       else case as_epoll (smap m k) of
              None \<Rightarrow> None
            | Some False \<Rightarrow> Some (Inl EINVAL, m)
            | Some True \<Rightarrow>
                if maxevents \<le> 0 then Some (Inl EINVAL, m)
                else (case epoll_wait_fetch (nat maxevents) m of
                        (evs, m) \<Rightarrow> Some (if evs = [] \<and> timeout \<noteq> 0 then Inl WAITS else Inr evs, m)))"

end
