(* ===== verification/Pkt_Edit.thy ===== *)
theory Pkt_Edit
  imports Tcp_Options Event_Queue
begin

unbundle bit_operations_syntax

text \<open>
  Editing the last packet (\<open>mtcp_setlastpkt\<close> and \<open>mtcp_cb_dropcurpkt\<close> of \<open>mos_api.c\<close>): a
  monitor overwrites, cuts out or inserts bytes in one of the headers or the payload of the
  packet its callback is about.  The packet is the bytes of the buffer it was received in,
  from the Ethernet header on; the buffer goes on behind the packet.  \<open>None\<close> is a \<open>memmove\<close>
  or \<open>memcpy\<close> outside the buffer, or a buffer too short for the headers.
\<close>

section \<open>The packet\<close>

record pkt_info =
  pi_frame :: "u8 list"
  pi_eth_len :: u16
  pi_ip_len :: u16
  pi_payloadlen :: u16
  pi_seq :: u32
  pi_ack_seq :: u32
  pi_window :: u16
  pi_tcph :: "int option"
  pi_payload :: int
  pi_forward :: bool

definition ETH_HLEN :: int where "ETH_HLEN = 14"

definition byte_at :: "u8 list \<Rightarrow> int \<Rightarrow> u8" where "byte_at f i = f ! nat i"

definition net16 :: "u8 list \<Rightarrow> int \<Rightarrow> u16" where
  "net16 f i = push_bit 8 (ucast (byte_at f i)) OR ucast (byte_at f (i + 1))"

definition net32 :: "u8 list \<Rightarrow> int \<Rightarrow> u32" where
  "net32 f i = push_bit 16 (ucast (net16 f i)) OR ucast (net16 f (i + 2))"

text \<open>A 32-bit load of the little-endian host.\<close>

definition host32 :: "u8 list \<Rightarrow> int \<Rightarrow> u32" where "host32 f i = ntohl (net32 f i)"

definition iph_at :: int where "iph_at = ETH_HLEN"
definition ip_hlen :: "u8 list \<Rightarrow> int" where "ip_hlen f = uint (byte_at f iph_at AND 0x0F) * 4"
definition ip_proto :: "u8 list \<Rightarrow> u8" where "ip_proto f = byte_at f (iph_at + 9)"
definition ip_tot_len :: "u8 list \<Rightarrow> u16" where "ip_tot_len f = net16 f (iph_at + 2)"
definition tcph_at :: "u8 list \<Rightarrow> int" where "tcph_at f = iph_at + ip_hlen f"
definition tcp_hlen :: "u8 list \<Rightarrow> int" where "tcp_hlen f = uint (drop_bit 4 (byte_at f (tcph_at f + 12))) * 4"
definition payload_at :: "u8 list \<Rightarrow> int" where "payload_at f = tcph_at f + tcp_hlen f"

section \<open>Moving bytes\<close>

text \<open>The length is converted to \<open>size_t\<close>: a negative one is out of every buffer.\<close>

definition memmove :: "int \<Rightarrow> int \<Rightarrow> int \<Rightarrow> u8 list \<Rightarrow> u8 list option" where
  "memmove dst src n f =
     (if n < 0 \<or> dst < 0 \<or> src < 0 \<or> dst + n > int (length f) \<or> src + n > int (length f) then None
      else Some (blit (nat dst) (take (nat n) (drop (nat src) f)) f))"

definition memcpy_in :: "int \<Rightarrow> u8 list \<Rightarrow> u8 list \<Rightarrow> u8 list option" where
  "memcpy_in dst xs f = (if dst < 0 \<or> dst + int (length xs) > int (length f) then None else Some (blit (nat dst) xs f))"

text \<open>
  Cutting \<open>n\<close> bytes out of, and inserting bytes into, the part of \<open>len\<close> bytes at \<open>p\<close>.  The
  insertion moves what stands one byte behind the offset, not at it.
\<close>

definition chomp_bytes :: "int \<Rightarrow> int \<Rightarrow> int \<Rightarrow> int \<Rightarrow> u8 list \<Rightarrow> u8 list option" where
  "chomp_bytes p len off n f = memmove (p + off) (p + off + n) (len - off - n) f"

definition insert_bytes :: "int \<Rightarrow> int \<Rightarrow> int \<Rightarrow> u8 list \<Rightarrow> u8 list \<Rightarrow> u8 list option" where
  "insert_bytes p len off xs f =
     Option.bind (memmove (p + off + int (length xs)) (p + off + 1) (len - off) f) (memcpy_in (p + off) xs)"

section \<open>The options\<close>

definition MOS_ETH_HDR :: u32 where "MOS_ETH_HDR = 0x001"
definition MOS_IP_HDR :: u32 where "MOS_IP_HDR = 0x002"
definition MOS_TCP_HDR :: u32 where "MOS_TCP_HDR = 0x004"
definition MOS_TCP_PAYLOAD :: u32 where "MOS_TCP_PAYLOAD = 0x008"
definition MOS_UPDATE_IP_CHKSUM :: u32 where "MOS_UPDATE_IP_CHKSUM = 0x010"
definition MOS_UPDATE_TCP_CHKSUM :: u32 where "MOS_UPDATE_TCP_CHKSUM = 0x020"
definition MOS_DROP :: u32 where "MOS_DROP = 0x040"
definition MOS_OVERWRITE :: u32 where "MOS_OVERWRITE = 0x080"
definition MOS_CHOMP :: u32 where "MOS_CHOMP = 0x100"
definition MOS_INSERT :: u32 where "MOS_INSERT = 0x200"

definition opt_set :: "u32 \<Rightarrow> u32 \<Rightarrow> bool" where "opt_set opt b \<longleftrightarrow> opt AND b \<noteq> 0"

text \<open>\<open>__builtin_popcount\<close> of the four operations is one.\<close>

definition one_operation :: "u32 \<Rightarrow> bool" where
  "one_operation opt \<longleftrightarrow> length (filter (opt_set opt) [MOS_DROP, MOS_OVERWRITE, MOS_CHOMP, MOS_INSERT]) = 1"

section \<open>The parts of the packet\<close>

text \<open>A result is the error, or the packet after the change.\<close>

definition edited :: "(u8 list \<Rightarrow> pkt_info \<Rightarrow> pkt_info) \<Rightarrow> pkt_info \<Rightarrow> u8 list option \<Rightarrow> (errno + pkt_info) option" where
  "edited upd p r = map_option (\<lambda>f. Inr (upd f (p\<lparr>pi_frame := f\<rparr>))) r"

definition edit_eth :: "u32 \<Rightarrow> int \<Rightarrow> u8 list \<Rightarrow> pkt_info \<Rightarrow> (errno + pkt_info) option" where
  "edit_eth opt off data p =
     (if off + int (length data) > ETH_HLEN then Some (Inl EINVAL)
      else if opt_set opt MOS_CHOMP \<or> opt_set opt MOS_INSERT then Some (Inl EACCES)
      else edited (\<lambda>_ p. p) p (memcpy_in off data (pi_frame p)))"

text \<open>After the IP header has grown or shrunk the TCP header and the lengths are read again.\<close>

definition after_ip_edit :: "u8 list \<Rightarrow> pkt_info \<Rightarrow> pkt_info" where
  "after_ip_edit f p =
     (if ip_proto f = 6 then p\<lparr>pi_tcph := Some (tcph_at f), pi_payload := payload_at f\<rparr> else p\<lparr>pi_tcph := None\<rparr>)
       \<lparr>pi_ip_len := ip_tot_len f, pi_eth_len := ip_tot_len f + 14\<rparr>"

definition edit_ip :: "u32 \<Rightarrow> int \<Rightarrow> u8 list \<Rightarrow> pkt_info \<Rightarrow> (errno + pkt_info) option" where
  "edit_ip opt off data p =
     (let f = pi_frame p; n = int (length data) in
      if net16 f 12 \<noteq> 0x0800 then Some (Inl EACCES)
      else if opt_set opt MOS_OVERWRITE then
        (if off + n > ip_hlen f then Some (Inl EINVAL) else edited (\<lambda>_ p. p) p (memcpy_in (iph_at + off) data f))
      else if opt_set opt MOS_CHOMP then
        edited after_ip_edit p (chomp_bytes iph_at (uint (pi_ip_len p)) off n f)
      else edited after_ip_edit p (insert_bytes iph_at (uint (pi_ip_len p)) off data f))"

definition after_tcp_overwrite :: "u8 list \<Rightarrow> pkt_info \<Rightarrow> pkt_info" where
  "after_tcp_overwrite f p =
     p\<lparr>pi_seq := net32 f (tcph_at f + 4), pi_ack_seq := net32 f (tcph_at f + 8), pi_window := net16 f (tcph_at f + 14)\<rparr>"

definition after_tcp_edit :: "u8 list \<Rightarrow> pkt_info \<Rightarrow> pkt_info" where
  "after_tcp_edit f p = p\<lparr>pi_payload := payload_at f\<rparr>"

definition edit_tcp :: "u32 \<Rightarrow> int \<Rightarrow> u8 list \<Rightarrow> pkt_info \<Rightarrow> (errno + pkt_info) option" where
  "edit_tcp opt off data p =
     (let f = pi_frame p; n = int (length data); len = uint (pi_payloadlen p) + tcp_hlen f in
      if ip_proto f \<noteq> 6 then Some (Inl EINVAL)
      else if opt_set opt MOS_OVERWRITE then
        (if off + n > tcp_hlen f then Some (Inl EINVAL)
         else edited after_tcp_overwrite p (memcpy_in (tcph_at f + off) data f))
      else if opt_set opt MOS_CHOMP then edited after_tcp_edit p (chomp_bytes (tcph_at f) len off n f)
      else edited after_tcp_edit p (insert_bytes (tcph_at f) len off data f))"

definition after_payload_edit :: "int \<Rightarrow> u8 list \<Rightarrow> pkt_info \<Rightarrow> pkt_info" where
  "after_payload_edit hdrs f p = p\<lparr>pi_payloadlen := word_of_int (uint (pi_ip_len p) - hdrs)\<rparr>"

definition edit_payload :: "u32 \<Rightarrow> int \<Rightarrow> u8 list \<Rightarrow> pkt_info \<Rightarrow> (errno + pkt_info) option" where
  "edit_payload opt off data p =
     (let f = pi_frame p; n = int (length data); len = uint (pi_payloadlen p); hdrs = tcp_hlen f + ip_hlen f in
      if opt_set opt MOS_OVERWRITE then
        (if off + n > uint (ip_tot_len f) - ip_hlen f - tcp_hlen f then Some (Inl EINVAL)
         else edited (\<lambda>_ p. p) p (memcpy_in (payload_at f + off) data f))
      else if opt_set opt MOS_CHOMP then
        edited (after_payload_edit hdrs) p (chomp_bytes (payload_at f) len off n f)
      else edited (after_payload_edit hdrs) p (insert_bytes (payload_at f) len off data f))"

section \<open>The checksums\<close>

text \<open>\<open>ip_csum\<close> is \<open>ip_fast_csum\<close>, written in assembly.\<close>

definition store16 :: "int \<Rightarrow> u16 \<Rightarrow> u8 list \<Rightarrow> u8 list" where
  "store16 i w f = f[nat i := ucast w, nat (i + 1) := ucast (drop_bit 8 w)]"

definition update_ip_csum :: "(u8 list \<Rightarrow> u16) \<Rightarrow> u8 list \<Rightarrow> u8 list" where
  "update_ip_csum ip_csum f =
     (let f = store16 (iph_at + 10) 0 f
      in store16 (iph_at + 10) (ip_csum (take (nat (ip_hlen f)) (drop (nat iph_at) f))) f)"

definition update_tcp_csum :: "u8 list \<Rightarrow> u8 list" where
  "update_tcp_csum f =
     (let f = store16 (tcph_at f + 16) 0 f;
          seg = take (nat (uint (ip_tot_len f) - ip_hlen f)) (drop (nat (tcph_at f)) f)
      in store16 (tcph_at f + 16) (TCPCalcChecksum seg (host32 f (iph_at + 12)) (host32 f (iph_at + 16))) f)"

definition update_csums :: "(u8 list \<Rightarrow> u16) \<Rightarrow> u32 \<Rightarrow> pkt_info \<Rightarrow> pkt_info" where
  "update_csums ip_csum opt p =
     (let f = (if opt_set opt MOS_UPDATE_IP_CHKSUM then update_ip_csum ip_csum (pi_frame p) else pi_frame p);
          f = (if opt_set opt MOS_UPDATE_TCP_CHKSUM then update_tcp_csum f else f)
      in p\<lparr>pi_frame := f\<rparr>)"

section \<open>The call\<close>

definition headers_fit :: "pkt_info \<Rightarrow> bool" where
  "headers_fit p \<longleftrightarrow> length (pi_frame p) \<ge> 14 + 60 + 60"

definition edit_part :: "u32 \<Rightarrow> int \<Rightarrow> u8 list \<Rightarrow> pkt_info \<Rightarrow> (errno + pkt_info) option" where
  "edit_part opt off data p =
     (if opt_set opt MOS_ETH_HDR then edit_eth opt off data p
      else if opt_set opt MOS_IP_HDR then edit_ip opt off data p
      else if opt_set opt MOS_TCP_HDR then edit_tcp opt off data p
      else if opt_set opt MOS_TCP_PAYLOAD then edit_payload opt off data p
      else Some (Inl EINVAL))"

definition mtcp_setlastpkt ::
  "(u8 list \<Rightarrow> u16) \<Rightarrow> bool \<Rightarrow> int \<Rightarrow> u8 list \<Rightarrow> u32 \<Rightarrow> pkt_info option \<Rightarrow> (errno + pkt_info) option" where
  "mtcp_setlastpkt ip_csum in_mos off data opt pctx =
     (if \<not> in_mos then Some (Inl EPERM)
      else case pctx of
             None \<Rightarrow> Some (Inl ENODATA)
           | Some p \<Rightarrow>
               if off < 0 then Some (Inl EINVAL)
               else if \<not> one_operation opt then Some (Inl EAGAIN)
               else if opt_set opt MOS_DROP then Some (Inr (p\<lparr>pi_forward := False\<rparr>))
               else if \<not> headers_fit p then None
               else map_option (map_sum id (update_csums ip_csum opt)) (edit_part opt off data p))"

definition mtcp_cb_dropcurpkt :: "bool \<Rightarrow> pkt_info option \<Rightarrow> errno + pkt_info" where
  "mtcp_cb_dropcurpkt in_mos pctx =
     (if \<not> in_mos then Inl EPERM
      else case pctx of None \<Rightarrow> Inl ENODATA | Some p \<Rightarrow> Inr (p\<lparr>pi_forward := False\<rparr>))"

end
