(* ===== verification/Api_Facts.thy ===== *)
theory Api_Facts
  imports Sock_Api Pipe_Facts Pkt_Edit
begin

text \<open>
  What the calls of the applications do: the typing of the socket map, which every call that
  makes, names or closes a socket keeps; writing to a stream; editing a packet; and what
  closing a listener or a pipe leaves behind.
\<close>

unbundle bit_operations_syntax

section \<open>The typing of the socket map\<close>

text \<open>
  The object of a socket agrees with its type: the union is never read as something it is
  not.  A listener belongs to the socket that holds it and has its queue; a pipe knows both
  its ends.
\<close>

fun obj_ok :: "tcp_listener list \<Rightarrow> pipe list \<Rightarrow> ref \<Rightarrow> socket_type \<Rightarrow> sock_obj \<Rightarrow> bool" where
  "obj_ok ls ps k ty NullObj = True"
| "obj_ok ls ps k ty (StreamObj s) = (ty = MOS_SOCK_STREAM)"
| "obj_ok ls ps k ty (ListenerObj l) =
     (ty = MOS_SOCK_STREAM_LISTEN \<and> l < length ls \<and> lst_acceptq (ls ! l) \<noteq> None \<and> lst_socket (ls ! l) = Some k)"
| "obj_ok ls ps k ty EpollObj = (ty = MOS_SOCK_EPOLL)"
| "obj_ok ls ps k ty (PipeObj p) =
     (ty = MOS_SOCK_PIPE \<and> p < length ps \<and> pp_socket0 (ps ! p) \<noteq> None \<and> pp_socket1 (ps ! p) \<noteq> None)"

definition obj_typed :: "mtcp_manager \<Rightarrow> ref \<Rightarrow> bool" where
  "obj_typed m k = obj_ok (listeners m) (pipes m) k (socktype (smap m k)) (sk_obj (smap m k))"

definition socks_typed :: "mtcp_manager \<Rightarrow> bool" where
  "socks_typed m \<longleftrightarrow> distinct (free_smap m)
     \<and> (\<forall>k \<in> set (free_smap m). socktype (smap m k) = MOS_SOCK_UNUSED)
     \<and> (\<forall>k. obj_typed m k \<and> \<not> monitor_type (socktype (smap m k)))"

lemma socks_typedD:
  assumes "socks_typed m"
  shows "distinct (free_smap m)" "k \<in> set (free_smap m) \<Longrightarrow> socktype (smap m k) = MOS_SOCK_UNUSED" "obj_typed m k"
    "\<not> monitor_type (socktype (smap m k))"
  using assms by (auto simp: socks_typed_def)

definition sock_part :: "mtcp_manager \<Rightarrow> ref list \<times> tcp_listener list \<times> pipe list" where
  "sock_part m = (free_smap m, listeners m, pipes m)"

lemma sock_part_simps [simp]:
  "sock_part (mod_strm s f m) = sock_part m" "sock_part (mod_appq g m) = sock_part m" "sock_part (wake m) = sock_part m"
  "sock_part (mod_sock k h m) = sock_part m" "sock_part (snd (AddEpollEvent q k ev m)) = sock_part m"
  "sock_part (to_destroyq s m) = sock_part m"
  by (auto simp: sock_part_def mod_strm_def mod_appq_def wake_def mod_sock_def AddEpollEvent_def to_destroyq_def Let_def
      split: option.split prod.split)

lemma smap_simps [simp]:
  "smap (mod_strm s f m) = smap m" "smap (mod_appq g m) = smap m" "smap (wake m) = smap m" "smap (to_destroyq s m) = smap m"
  by (auto simp: mod_strm_def mod_appq_def wake_def to_destroyq_def)

lemma obj_typed_cong:
  "sk_obj (smap m' k) = sk_obj (smap m k) \<Longrightarrow> socktype (smap m' k) = socktype (smap m k) \<Longrightarrow>
   listeners m' = listeners m \<Longrightarrow> pipes m' = pipes m \<Longrightarrow> obj_typed m' k = obj_typed m k"
  by (simp add: obj_typed_def)

lemma mod_sock_simps [simp]:
  "smap (mod_sock k f m) j = (if j = k then f (smap m k) else smap m j)" "listeners (mod_sock k f m) = listeners m"
  "pipes (mod_sock k f m) = pipes m" "free_smap (mod_sock k f m) = free_smap m" "streams (mod_sock k f m) = streams m"
  by (simp_all add: mod_sock_def)

lemma typed_same:
  assumes "socks_typed m" "same_socks m m'" "sock_part m' = sock_part m"
  shows "socks_typed m'"
proof -
  have p: "free_smap m' = free_smap m" "listeners m' = listeners m" "pipes m' = pipes m" using assms(3) by (simp_all add: sock_part_def)
  show ?thesis
    using assms(1) same_socksD(1,3)[OF assms(2)] obj_typed_cong[OF _ _ p(2,3)] p(1) by (simp add: socks_typed_def)
qed

lemma same_socks_smap: "smap m' = smap m \<Longrightarrow> same_socks m m'"
  by (simp add: same_socks_def)

lemma typed_smap: "socks_typed m \<Longrightarrow> smap m' = smap m \<Longrightarrow> sock_part m' = sock_part m \<Longrightarrow> socks_typed m'"
  by (rule typed_same[OF _ same_socks_smap])

lemma typed_event: "socks_typed m \<Longrightarrow> socks_typed (snd (AddEpollEvent q k ev m))"
  by (rule typed_same[OF _ AddEpollEvent_socks(1)]) simp_all

text \<open>Storing in one slot.\<close>

lemma typed_mod_sock:
  assumes m: "socks_typed m" and f: "obj_typed (mod_sock k f m) k" "\<not> monitor_type (socktype (f (smap m k)))"
    "k \<in> set (free_smap m) \<Longrightarrow> socktype (f (smap m k)) = MOS_SOCK_UNUSED"
  shows "socks_typed (mod_sock k f m)"
  unfolding socks_typed_def
proof (intro conjI allI ballI)
  show "obj_typed (mod_sock k f m) j" for j
    using socks_typedD(3)[OF m, of j] f(1) by (cases "j = k") (simp_all add: obj_typed_def)
qed (use m f in \<open>auto simp: socks_typed_def\<close>)

lemma typed_keep:
  assumes "socks_typed m" "\<And>sk. socktype (f sk) = socktype sk \<and> sk_obj (f sk) = sk_obj sk"
  shows "socks_typed (mod_sock k f m)"
  by (rule typed_mod_sock[OF assms(1)]) (use assms(2) socks_typedD[OF assms(1)] in \<open>simp_all add: obj_typed_def\<close>)

lemma typed_null:
  assumes "socks_typed m"
  shows "socks_typed (mod_sock k (\<lambda>sk. sk\<lparr>sk_obj := NullObj\<rparr>) m)"
  by (rule typed_mod_sock[OF assms]) (use socks_typedD[OF assms] in \<open>auto simp: obj_typed_def\<close>)

lemma typed_AllocateSocket:
  assumes m: "socks_typed m" and ty: "\<not> monitor_type ty" and a: "AllocateSocket ty m = (r, m')"
  shows "socks_typed m' \<and> listeners m' = listeners m \<and> pipes m' = pipes m \<and> streams m' = streams m
    \<and> (\<forall>k. r = Some k \<longrightarrow> socktype (smap m' k) = ty \<and> sk_obj (smap m' k) = NullObj \<and> k \<notin> set (free_smap m'))"
proof (cases "free_smap m")
  case Nil
  then have "r = None" "m' = m\<lparr>num_esp := num_esp m + 1\<rparr>" using a ty by (simp_all add: AllocateSocket_def Let_def)
  then show ?thesis using typed_smap[OF m, of m'] by (simp add: sock_part_def)
next
  case (Cons k rest)
  define m1 where "m1 = m\<lparr>num_esp := num_esp m + 1\<rparr>"
  have m1: "free_smap m1 = k # rest" "smap m1 = smap m" "listeners m1 = listeners m" "pipes m1 = pipes m" "streams m1 = streams m"
    using Cons by (simp_all add: m1_def)
  have d: "k \<notin> set rest" "distinct rest" using socks_typedD(1)[OF m] Cons by auto
  show ?thesis
  proof (cases "events (smap m k) = 0")
    case False
    then have r: "r = None" "m' = m1\<lparr>free_smap := rest @ [k]\<rparr>" using a ty m1 by (simp_all add: AllocateSocket_def Let_def m1_def)
    have "socks_typed m'" using m d m1 Cons unfolding r(2) by (auto simp: socks_typed_def obj_typed_def)
    then show ?thesis using r m1 by simp
  next
    case True
    define f where "f sk = socket_taken ty (sk\<lparr>sk_obj := NullObj, sk_saddr := \<lparr>sin_addr = 0, sin_port = 0\<rparr>, ep_data := 0\<rparr>)" for sk
    have r: "r = Some k" "m' = mod_sock k f (m1\<lparr>free_smap := rest\<rparr>)"
      using a ty m1 True Cons unfolding f_def by (simp_all add: AllocateSocket_def Let_def m1_def)
    have "socks_typed (m1\<lparr>free_smap := rest\<rparr>)" using m d m1 Cons by (auto simp: socks_typed_def obj_typed_def)
    then have "socks_typed m'" unfolding r(2)
      by (rule typed_mod_sock) (use ty d in \<open>auto simp: obj_typed_def f_def socket_taken_def\<close>)
    then show ?thesis using r m1 d by (simp add: f_def socket_taken_def)
  qed
qed

lemma typed_FreeSocket:
  assumes m: "socks_typed m" and k: "socktype (smap m k) \<noteq> MOS_SOCK_UNUSED"
  shows "socks_typed (FreeSocket k (socktype (smap m k)) m)"
proof -
  have nm: "\<not> monitor_type (socktype (smap m k))" by (rule socks_typedD(4)[OF m])
  have free: "k \<notin> set (free_smap m)" using socks_typedD(2)[OF m] k by blast
  have e: "FreeSocket k (socktype (smap m k)) m =
      mod_sock k (\<lambda>sk. socket_released (sk\<lparr>sk_obj := NullObj\<rparr>)) (m\<lparr>num_esp := num_esp m - 1, free_smap := free_smap m @ [k]\<rparr>)"
    using k nm by (cases "socktype (smap m k)") (simp_all add: FreeSocket_def Let_def)
  show ?thesis unfolding e using m free
    by (auto simp: socks_typed_def obj_typed_def socket_released_def)
qed

section \<open>Calls\<close>

text \<open>A call that returns, in a state with typed sockets.\<close>

definition call_typed :: "('a \<times> mtcp_manager) option \<Rightarrow> bool" where
  "call_typed r \<longleftrightarrow> (case r of None \<Rightarrow> False | Some (_, m) \<Rightarrow> socks_typed m)"

lemma call_typed_Some [simp]: "call_typed (Some (r, m)) = socks_typed m" "call_typed None = False"
  by (simp_all add: call_typed_def)

lemma with_socket_typed:
  assumes "socks_typed m" "\<And>k. GetSocket cfg sockid = Some k \<Longrightarrow> socktype (smap m k) \<noteq> MOS_SOCK_UNUSED \<Longrightarrow> call_typed (f k m)"
  shows "call_typed (with_socket cfg sockid f m)"
  using assms by (auto simp: with_socket_def split: option.split)

lemma as_stream_typed:
  assumes "socks_typed m" "socktype (smap m k) = MOS_SOCK_STREAM"
  shows "\<exists>s. as_stream (smap m k) = Some s"
  using socks_typedD(3)[OF assms(1), of k] assms(2)
  by (cases "sk_obj (smap m k)") (auto simp: as_stream_def obj_typed_def)

lemma as_listener_typed:
  assumes "socks_typed m" "socktype (smap m k) = MOS_SOCK_STREAM_LISTEN"
  obtains (null) "sk_obj (smap m k) = NullObj" "as_listener (smap m k) = Some None"
  | (lst) l q where "sk_obj (smap m k) = ListenerObj l" "as_listener (smap m k) = Some (Some l)" "l < length (listeners m)"
      "lst_acceptq (listeners m ! l) = Some q" "lst_socket (listeners m ! l) = Some k"
  using socks_typedD(3)[OF assms(1), of k] assms(2) that
  by (cases "sk_obj (smap m k)") (auto simp: as_listener_def obj_typed_def)

lemma as_epoll_typed:
  assumes "socks_typed m" "socktype (smap m k) = MOS_SOCK_EPOLL"
  shows "\<exists>b. as_epoll (smap m k) = Some b"
  using socks_typedD(3)[OF assms(1), of k] assms(2)
  by (cases "sk_obj (smap m k)") (auto simp: as_epoll_def obj_typed_def)

lemma nth_updated: "j < length xs \<Longrightarrow> xs[i := x] ! j = (if i = j then x else xs ! j)"
  by auto

lemma typed_set_acceptq:
  assumes m: "socks_typed m"
  shows "socks_typed (set_acceptq l (Some q) m)"
proof -
  have "obj_ok ((listeners m)[l := (listeners m ! l)\<lparr>lst_acceptq := Some q\<rparr>]) (pipes m) k ty ob" if "obj_ok (listeners m) (pipes m) k ty ob" for k ty ob
    using that by (cases ob) (auto simp: nth_updated)
  then show ?thesis using m by (simp add: socks_typed_def obj_typed_def set_acceptq_def)
qed

text \<open>A listener whose socket has let go of it may lose its queue.\<close>

lemma typed_drop_listener:
  assumes m: "socks_typed m" and k: "sk_obj (smap m k) = ListenerObj l"
  shows "socks_typed (mod_sock k (\<lambda>sk. sk\<lparr>sk_obj := NullObj\<rparr>) (set_acceptq l None m))"
proof -
  have lk: "lst_socket (listeners m ! l) = Some k" using socks_typedD(3)[OF m, of k] k by (simp add: obj_typed_def)
  have "obj_ok ((listeners m)[l := (listeners m ! l)\<lparr>lst_acceptq := None\<rparr>]) (pipes m) j (socktype (smap m j)) (sk_obj (smap m j))"
    if "j \<noteq> k" for j
    using socks_typedD(3)[OF m, of j] that lk by (cases "sk_obj (smap m j)") (auto simp: obj_typed_def nth_updated)
  then show ?thesis using m by (simp add: socks_typed_def obj_typed_def set_acceptq_def)
qed

lemma socket_typed:
  assumes m: "socks_typed m"
  shows "call_typed (mtcp_socket cfg True True True domain SOCK_STREAM m)"
  using typed_AllocateSocket[OF m, of MOS_SOCK_STREAM] m
  by (auto simp: mtcp_socket_def socket_kind_def split: prod.split option.split)

lemma bind_typed: "socks_typed m \<Longrightarrow> call_typed (mtcp_bind cfg sockid addr addrlen m)"
  unfolding mtcp_bind_def
  by (rule with_socket_typed) (auto split: option.split intro!: typed_keep)

lemma nonblock_typed: "socks_typed m \<Longrightarrow> call_typed (mtcp_setsock_nonblock cfg sockid m)"
  unfolding mtcp_setsock_nonblock_def
  by (rule with_socket_typed) (auto intro!: typed_keep)

lemma typed_listener:
  assumes m: "socks_typed m" and k: "socktype (smap m k) = MOS_SOCK_STREAM_LISTEN"
  shows "socks_typed ((mod_sock k (\<lambda>sk. sk\<lparr>sk_obj := ListenerObj (length (listeners m))\<rparr>) m)
    \<lparr>listeners := listeners m @ [\<lparr>lst_socket = Some k, lst_backlog = b, lst_acceptq = Some q\<rparr>], listener := Some (length (listeners m))\<rparr>)"
proof -
  have "obj_ok (listeners m @ [x]) (pipes m) j ty ob" if "obj_ok (listeners m) (pipes m) j ty ob" for j ty ob x
    using that by (cases ob) (auto simp: nth_append)
  then show ?thesis using m k by (auto simp: socks_typed_def obj_typed_def)
qed

lemma listen_typed:
  assumes m: "socks_typed m" and no: "\<And>k s. GetSocket cfg sockid = Some k \<Longrightarrow> sk_obj (smap m k) \<noteq> StreamObj s"
  shows "call_typed (mtcp_listen cfg alloc_lst alloc_sq alloc_q sockid backlog m)"
  unfolding mtcp_listen_def
proof (rule with_socket_typed[OF m])
  fix k assume k: "GetSocket cfg sockid = Some k" "socktype (smap m k) \<noteq> MOS_SOCK_UNUSED"
  define m1 where "m1 = (if socktype (smap m k) = MOS_SOCK_STREAM then mod_sock k (\<lambda>sk. sk\<lparr>socktype := MOS_SOCK_STREAM_LISTEN\<rparr>) m else m)"
  have o: "socktype (smap m k) = MOS_SOCK_STREAM \<Longrightarrow> sk_obj (smap m k) = NullObj"
    using socks_typedD(3)[OF m, of k] no[OF k(1)] by (cases "sk_obj (smap m k)") (auto simp: obj_typed_def)
  have m1: "socks_typed m1"
    unfolding m1_def using m o k(2) socks_typedD(2)[OF m, of k] by (auto intro!: typed_mod_sock simp: obj_typed_def)
  show "call_typed (Some (
       let m = m1
       in if socktype (smap m k) \<noteq> MOS_SOCK_STREAM_LISTEN then (Inl ENOTSOCK, m)
          else if backlog \<le> 0 \<or> backlog > max_concurrency cfg then (Inl EINVAL, m)
          else if \<not> alloc_lst then (Inl ENOMEM, m)
          else (case CreateStreamQueue alloc_sq alloc_q backlog of
                  None \<Rightarrow> (Inl ENOMEM, m)
                | Some q \<Rightarrow>
                    (let l = length (listeners m);
                         ln = \<lparr>lst_socket = Some k, lst_backlog = backlog, lst_acceptq = Some q\<rparr>
                     in (Inr 0, (mod_sock k (\<lambda>sk. sk\<lparr>sk_obj := ListenerObj l\<rparr>) m)
                           \<lparr>listeners := listeners m @ [ln], listener := Some l\<rparr>)))))"
    using m1 typed_listener[OF m1, of k] by (simp add: Let_def split: option.split)
qed

lemma accept_typed:
  assumes m: "socks_typed m" and ok: "\<And>k. GetSocket cfg sockid = Some k \<Longrightarrow> socktype (smap m k) = MOS_SOCK_STREAM_LISTEN \<Longrightarrow> sk_obj (smap m k) \<noteq> NullObj"
  shows "call_typed (mtcp_accept cfg sockid m)"
proof (cases "\<exists>k. GetSocket cfg sockid = Some k \<and> socktype (smap m k) = MOS_SOCK_STREAM_LISTEN")
  case True
  then obtain k where k: "GetSocket cfg sockid = Some k" "socktype (smap m k) = MOS_SOCK_STREAM_LISTEN" by blast
  obtain l q where l: "as_listener (smap m k) = Some (Some l)" "lst_acceptq (listeners m ! l) = Some q" "lst_socket (listeners m ! l) = Some k"
    using as_listener_typed[OF m k(2)] ok[OF k] by metis
  obtain r q' where q: "StreamDequeue q = (r, q')" by fastforce
  show ?thesis
  proof (cases r)
    case None
    then show ?thesis using k l q m by (simp add: mtcp_accept_def)
  next
    case (Some s)
    define m1 where "m1 = set_acceptq l (Some q') m"
    have m1: "socks_typed m1" unfolding m1_def by (rule typed_set_acceptq[OF m])
    obtain r2 m2 where a: "accept_socket s m1 = (r2, m2)" by fastforce
    have m2: "socks_typed m2"
    proof (cases "socket (strm m1 s)")
      case None
      obtain ra ma where al: "AllocateSocket MOS_SOCK_STREAM m1 = (ra, ma)" by fastforce
      note ma = typed_AllocateSocket[OF m1 _ al, simplified]
      show ?thesis
      proof (cases ra)
        case None
        then show ?thesis using a \<open>socket (strm m1 s) = None\<close> al ma by (simp add: accept_socket_def)
      next
        case (Some ka)
        define mb where "mb = mod_strm s (\<lambda>t. t\<lparr>socket := Some ka\<rparr>) (mod_sock ka (\<lambda>sk. sk\<lparr>sk_obj := StreamObj s\<rparr>) ma)"
        define mc where "mc = mod_sock ka (\<lambda>sk. sk\<lparr>sk_saddr := \<lparr>sin_addr = daddr (strm mb s), sin_port = dport (strm mb s)\<rparr>\<rparr>) mb"
        have "socks_typed (mod_sock ka (\<lambda>sk. sk\<lparr>sk_obj := StreamObj s\<rparr>) ma)"
          by (rule typed_mod_sock) (use ma Some in \<open>auto simp: obj_typed_def\<close>)
        then have mb: "socks_typed mb" unfolding mb_def by (rule typed_smap) simp_all
        have mc: "socks_typed mc" unfolding mc_def by (rule typed_keep[OF mb]) simp
        have "m2 = (case pair_stream (strm mc s) of None \<Rightarrow> mc | Some p \<Rightarrow> mod_strm p (\<lambda>t. t\<lparr>socket := Some ka\<rparr>) mc)"
          using a None al Some by (auto simp: accept_socket_def Let_def mb_def mc_def split: option.splits)
        then show ?thesis using mc by (auto split: option.split intro: typed_smap[OF mc])
      qed
    qed (use a m1 in \<open>simp add: accept_socket_def\<close>)
    then show ?thesis using k l q Some a m1_def typed_event[OF m2]
      by (auto simp: mtcp_accept_def split: option.split)
  qed
qed (auto simp: mtcp_accept_def m split: option.split)

lemma GetSocket_eq: "GetSocket cfg i = Some k \<Longrightarrow> GetSocket cfg j = Some k \<Longrightarrow> i = j"
  by (auto simp: GetSocket_def split: if_splits)

lemma typed_mod_pipe:
  assumes m: "socks_typed m" and f: "\<And>pp. pp_socket0 (f pp) = pp_socket0 pp \<and> pp_socket1 (f pp) = pp_socket1 pp"
  shows "socks_typed (mod_pipe p f m)"
proof -
  have "obj_ok (listeners m) ((pipes m)[p := f (pipes m ! p)]) k ty ob" if "obj_ok (listeners m) (pipes m) k ty ob" for k ty ob
    using that f by (cases ob) (auto simp: nth_updated)
  then show ?thesis using m by (simp add: socks_typed_def obj_typed_def mod_pipe_def)
qed

lemma raise_pair_typed:
  assumes m: "socks_typed m" and k: "sk_obj (smap m k) = PipeObj p"
  obtains m' where "RaiseEventToPair k ev m = Some m'" "socks_typed m'" "same_socks m m'"
proof -
  have p: "pp_socket0 (pipes m ! p) \<noteq> None" "pp_socket1 (pipes m ! p) \<noteq> None"
    using socks_typedD(3)[OF m, of k] k by (simp_all add: obj_typed_def)
  define m' where "m' = the (RaiseEventToPair k ev m)"
  have "RaiseEventToPair k ev m = Some m' \<and> socks_typed m' \<and> same_socks m m'"
    using p k m typed_event[OF m] AddEpollEvent_socks same_socks_smap[of m m]
    by (auto simp: m'_def RaiseEventToPair_def sk_pipe_def Let_def)
  then show ?thesis using that by blast
qed

lemma typed_clear_obj: "socks_typed m \<Longrightarrow> socks_typed (clear_obj k m)"
  by (cases k) (auto simp: clear_obj_def intro: typed_null)

lemma clear_obj_type: "socktype (smap (clear_obj k m) j) = socktype (smap m j)"
  by (cases k) (auto simp: clear_obj_def)

text \<open>What closing does to the object leaves the types of the sockets alone.\<close>

definition closes :: "ref \<Rightarrow> mtcp_manager \<Rightarrow> ('a \<times> mtcp_manager) option \<Rightarrow> bool" where
  "closes k m r \<longleftrightarrow> (\<exists>x m'. r = Some (x, m') \<and> socks_typed m' \<and> socktype (smap m' k) = socktype (smap m k))"

lemma close_stream_typed:
  assumes m: "socks_typed m" and k: "socktype (smap m k) = MOS_SOCK_STREAM"
  shows "closes k m (CloseStreamSocket k m)"
proof -
  obtain o' where o: "as_stream (smap m k) = Some o'" using as_stream_typed[OF assms] by blast
  define m1 where "m1 = (case CloseStreamSocket k m of Some (_, m') \<Rightarrow> m' | None \<Rightarrow> m)"
  have "smap m1 = smap m \<and> sock_part m1 = sock_part m \<and> CloseStreamSocket k m \<noteq> None"
    using o by (auto simp: m1_def CloseStreamSocket_def Let_def split: option.split prod.split)
  then show ?thesis using typed_smap[OF m, of m1] by (auto simp: closes_def m1_def)
qed

lemma close_typed:
  assumes m: "socks_typed m"
  shows "call_typed (mtcp_close cfg sockid m)"
  unfolding mtcp_close_def
proof (rule with_socket_typed[OF m])
  fix k assume k: "GetSocket cfg sockid = Some k" "socktype (smap m k) \<noteq> MOS_SOCK_UNUSED"
  let ?r = "case socktype (smap m k) of
            MOS_SOCK_STREAM \<Rightarrow> CloseStreamSocket k m
          | MOS_SOCK_STREAM_LISTEN \<Rightarrow> CloseListeningSocket k m
          | MOS_SOCK_EPOLL \<Rightarrow> CloseEpollSocket k m
          | MOS_SOCK_PIPE \<Rightarrow> PipeClose cfg sockid m
          | _ \<Rightarrow> Some (Inl EINVAL, m)"
  have "closes k m ?r"
  proof (cases "socktype (smap m k)")
    case MOS_SOCK_STREAM
    then show ?thesis using close_stream_typed[OF m] by simp
  next
    case MOS_SOCK_STREAM_LISTEN
    have "closes k m (CloseListeningSocket k m)"
    proof (rule as_listener_typed[OF m MOS_SOCK_STREAM_LISTEN])
      fix l q assume l: "sk_obj (smap m k) = ListenerObj l" "as_listener (smap m k) = Some (Some l)"
      show ?thesis using typed_drop_listener[OF m l(1)] l(2)
        by (simp add: closes_def CloseListeningSocket_def) (simp add: set_acceptq_def)
    qed (use m in \<open>simp add: closes_def CloseListeningSocket_def\<close>)
    then show ?thesis using MOS_SOCK_STREAM_LISTEN by simp
  next
    case MOS_SOCK_EPOLL
    then obtain b where "as_epoll (smap m k) = Some b" using as_epoll_typed[OF m] by blast
    then have "closes k m (CloseEpollSocket k m)"
      using m typed_null[OF typed_smap[OF m, of "m\<lparr>ep := None\<rparr>"], of k]
      by (cases b) (simp_all add: closes_def CloseEpollSocket_def sock_part_def)
    then show ?thesis using MOS_SOCK_EPOLL by simp
  next
    case MOS_SOCK_PIPE
    have "closes k m (PipeClose cfg sockid m)"
    proof (cases "sk_obj (smap m k)")
      case (PipeObj p)
      define m1 where "m1 = mod_pipe p (\<lambda>pp. pp\<lparr>pp_state := PIPE_CLOSE_WAIT\<rparr>) m"
      have m1: "socks_typed m1" "smap m1 = smap m" unfolding m1_def by (rule typed_mod_pipe[OF m]) (simp_all add: mod_pipe_def)
      obtain m2 where m2: "RaiseEventToPair k MOS_EPOLLIN m1 = Some m2" "socks_typed m2" "same_socks m1 m2"
        by (rule raise_pair_typed[OF m1(1), of k p]) (use PipeObj m1(2) in auto)
      show ?thesis using PipeObj k MOS_SOCK_PIPE m m2 m1 same_socksD(1)[OF m2(3)]
          typed_clear_obj[OF typed_clear_obj[OF m]]
        by (auto simp: closes_def PipeClose_def sk_pipe_def Let_def m1_def[symmetric] clear_obj_type)
    qed (use m k MOS_SOCK_PIPE in \<open>auto simp: closes_def PipeClose_def sk_pipe_def\<close>)
    then show ?thesis using MOS_SOCK_PIPE by simp
  qed (use k m in \<open>auto simp: closes_def\<close>)
  then obtain x m' where r: "?r = Some (x, m')" "socks_typed m'" "socktype (smap m' k) = socktype (smap m k)"
    by (auto simp: closes_def)
  then show "call_typed (map_option (\<lambda>(ret, m). (ret, FreeSocket k (socktype (smap m k)) m)) ?r)"
    using typed_FreeSocket[OF r(2), of k] k(2) by simp
qed

lemma abort_part: "smap (snd (abort_stream s m)) = smap m" "sock_part (snd (abort_stream s m)) = sock_part m"
  by (auto simp: abort_stream_def Let_def split: prod.split)

lemma abort_typed:
  assumes m: "socks_typed m"
  shows "call_typed (mtcp_abort cfg sockid m)"
  unfolding mtcp_abort_def
proof (rule with_socket_typed[OF m])
  fix k assume k: "socktype (smap m k) \<noteq> MOS_SOCK_UNUSED"
  define m1 where "m1 = FreeSocket k (socktype (smap m k)) m"
  have m1: "socks_typed m1" unfolding m1_def by (rule typed_FreeSocket[OF m k])
  have "socks_typed (snd (abort_stream s (mod_strm s (\<lambda>t. t\<lparr>socket := None\<rparr>) m1)))" for s
    by (rule typed_smap[OF m1]) (simp_all add: abort_part)
  then have "call_typed (Some (abort_stream s (mod_strm s (\<lambda>t. t\<lparr>socket := None\<rparr>) m1)))" for s
    by (simp add: call_typed_def split: prod.split) (metis snd_conv)
  then show "call_typed
     (if socktype (smap m k) \<noteq> MOS_SOCK_STREAM then Some (Inl ENOTSOCK, m)
       else case as_stream (smap m k) of
              None \<Rightarrow> None
            | Some None \<Rightarrow> Some (Inl ENOTCONN, m)
            | Some (Some s) \<Rightarrow>
                Some (abort_stream s (mod_strm s (\<lambda>t. t\<lparr>socket := None\<rparr>) (FreeSocket k (socktype (smap m k)) m))))"
    unfolding m1_def[symmetric] using as_stream_typed[OF m, of k] m by (auto split: option.split)
qed

lemma ioctl_typed:
  assumes m: "socks_typed m"
    and ok: "\<And>k l. GetSocket cfg sockid = Some k \<Longrightarrow> request = FIONREAD \<Longrightarrow> sk_obj (smap m k) \<noteq> ListenerObj l"
  shows "call_typed (mtcp_ioctl cfg sockid request arg m)"
proof (cases "GetSocket cfg sockid")
  case None
  then show ?thesis using m by (simp add: mtcp_ioctl_def)
next
  case (Some k)
  have "\<exists>s. as_stream (smap m k) = Some s" if "request = FIONREAD" "end_socket (smap m k)"
    using socks_typedD(3)[OF m, of k] ok[OF Some that(1)] that(2)
    by (cases "sk_obj (smap m k)") (auto simp: as_stream_def obj_typed_def end_socket_def)
  then show ?thesis using Some m
    by (auto simp: mtcp_ioctl_def split: option.split intro: typed_keep)
qed

lemma typed_pipe:
  assumes m: "socks_typed m" and k: "socktype (smap m k0) = MOS_SOCK_PIPE" "socktype (smap m k1) = MOS_SOCK_PIPE"
    and pp: "pp_socket0 pp \<noteq> None" "pp_socket1 pp \<noteq> None"
  shows "socks_typed (mod_sock k1 (\<lambda>sk. sk\<lparr>sk_obj := PipeObj (length (pipes m))\<rparr>) (mod_sock k0 (\<lambda>sk. sk\<lparr>sk_obj := PipeObj (length (pipes m))\<rparr>)
                        (m\<lparr>pipes := pipes m @ [pp]\<rparr>)))"
proof -
  have "obj_ok (listeners m) (pipes m @ [x]) j ty ob" if "obj_ok (listeners m) (pipes m) j ty ob" for j ty ob x
    using that by (cases ob) (auto simp: nth_append)
  then show ?thesis using m k pp by (auto simp: socks_typed_def obj_typed_def)
qed

lemma pipe_typed:
  assumes m: "socks_typed m"
  shows "call_typed (Some (mtcp_pipe alloc_pp alloc_buf garbage m))"
proof -
  obtain r0 m0 where a0: "AllocateSocket MOS_SOCK_PIPE m = (r0, m0)" by fastforce
  note m0 = typed_AllocateSocket[OF m _ a0, simplified]
  show ?thesis
  proof (cases r0)
    case None
    then show ?thesis using a0 m0 by (simp add: mtcp_pipe_def)
  next
    case (Some k0)
    obtain r1 m1 where a1: "AllocateSocket MOS_SOCK_PIPE m0 = (r1, m1)" by fastforce
    have m0t: "socks_typed m0" using m0 by blast
    note m1 = typed_AllocateSocket[OF m0t _ a1, simplified]
    have t0: "socktype (smap m0 k0) = MOS_SOCK_PIPE" using m0 Some by blast
    have k0: "socktype (smap m1 k0) = MOS_SOCK_PIPE"
      using t0 a1 by (auto simp: AllocateSocket_def Let_def socket_taken_def split: list.splits if_splits)
    have f0: "socks_typed (FreeSocket k0 MOS_SOCK_PIPE m1)"
      using typed_FreeSocket[of m1 k0] m1 k0 by simp
    show ?thesis
    proof (cases r1)
      case None
      then show ?thesis using a0 Some a1 f0 by (simp add: mtcp_pipe_def)
    next
      case k1: (Some k1)
      then have t1: "socktype (smap m1 k1) = MOS_SOCK_PIPE" using m1 by blast
      have ne: "k0 \<noteq> k1"
      proof
        assume "k0 = k1"
        then have "k0 \<in> set (free_smap m0)"
          using a1 k1 by (auto simp: AllocateSocket_def Let_def split: list.splits if_splits)
        then show False using socks_typedD(2)[OF m0t, of k0] t0 by simp
      qed
      have "socktype (smap (FreeSocket k0 MOS_SOCK_PIPE m1) k1) = MOS_SOCK_PIPE"
        using t1 ne by (simp add: FreeSocket_def Let_def)
      then have f1: "socks_typed (FreeSocket k1 MOS_SOCK_PIPE (FreeSocket k0 MOS_SOCK_PIPE m1))"
        using typed_FreeSocket[OF f0, of k1] by simp
      show ?thesis using a0 Some a1 k1 f1 typed_pipe[OF _ k0 t1] m1
        by (simp add: mtcp_pipe_def Let_def)
    qed
  qed
qed

lemma epoll_create_typed:
  assumes m: "socks_typed m"
  shows "call_typed (Some (mtcp_epoll_create alloc_ep alloc_q sz m))"
proof -
  obtain r0 m0 where a0: "AllocateSocket MOS_SOCK_EPOLL m = (r0, m0)" by fastforce
  note m0 = typed_AllocateSocket[OF m _ a0, simplified]
  show ?thesis
  proof (cases r0)
    case None
    then show ?thesis using a0 m0 m by (simp add: mtcp_epoll_create_def)
  next
    case (Some k)
    have k: "socktype (smap m0 k) = MOS_SOCK_EPOLL" "socks_typed m0" "k \<notin> set (free_smap m0)" using m0 Some by auto
    have f: "socks_typed (FreeSocket k MOS_SOCK_EPOLL m0)" using typed_FreeSocket[OF k(2), of k] k(1) by simp
    have u: "FreeSocket k MOS_SOCK_UNUSED m0 = m0" by (simp add: FreeSocket_def)
    have e: "socks_typed (mod_sock k (\<lambda>sk. sk\<lparr>sk_obj := EpollObj\<rparr>) (m0\<lparr>ep := e\<rparr>))" for e
      by (rule typed_mod_sock[OF typed_smap[OF k(2)]]) (use k in \<open>simp_all add: sock_part_def obj_typed_def\<close>)
    show ?thesis using a0 Some f e k(2) m
      by (simp add: mtcp_epoll_create_def u split: option.split)
  qed
qed

text \<open>The calls that make, name, change and give back sockets.\<close>

datatype sock_call =
    Socket int
  | Bind int "user_addr option" u32
  | Listen bool bool bool int int
  | Accept int
  | Close int
  | Abort int
  | Pipe bool bool "u8 list"
  | Epoll_create bool "nat \<Rightarrow> bool \<times> bool" int
  | Nonblock int
  | Ioctl int int "int option"

definition sock_call_step :: "mos_config \<Rightarrow> sock_call \<Rightarrow> mtcp_manager \<Rightarrow> mtcp_manager option" where
  "sock_call_step cfg c m =
     (case c of
        Socket domain \<Rightarrow> map_option snd (mtcp_socket cfg True True True domain SOCK_STREAM m)
      | Bind i addr len \<Rightarrow> map_option snd (mtcp_bind cfg i addr len m)
      | Listen al asq aq i backlog \<Rightarrow> map_option snd (mtcp_listen cfg al asq aq i backlog m)
      | Accept i \<Rightarrow> map_option snd (mtcp_accept cfg i m)
      | Close i \<Rightarrow> map_option snd (mtcp_close cfg i m)
      | Abort i \<Rightarrow> map_option snd (mtcp_abort cfg i m)
      | Pipe ap ab garbage \<Rightarrow> Some (snd (mtcp_pipe ap ab garbage m))
      | Epoll_create ae aq sz \<Rightarrow> Some (snd (mtcp_epoll_create ae aq sz m))
      | Nonblock i \<Rightarrow> map_option snd (mtcp_setsock_nonblock cfg i m)
      | Ioctl i req arg \<Rightarrow> map_option snd (mtcp_ioctl cfg i req arg m))"

text \<open>
  The three uses the code does not guard against: listening on a connected socket, accepting
  on a listening socket without listener, asking a listener for its unread bytes.
\<close>

definition guarded :: "mos_config \<Rightarrow> sock_call \<Rightarrow> mtcp_manager \<Rightarrow> bool" where
  "guarded cfg c m \<longleftrightarrow>
     (case c of
        Listen al asq aq i backlog \<Rightarrow> (\<forall>k s. GetSocket cfg i = Some k \<longrightarrow> sk_obj (smap m k) \<noteq> StreamObj s)
      | Accept i \<Rightarrow> (\<forall>k. GetSocket cfg i = Some k \<longrightarrow> socktype (smap m k) = MOS_SOCK_STREAM_LISTEN \<longrightarrow> sk_obj (smap m k) \<noteq> NullObj)
      | Ioctl i req arg \<Rightarrow> (\<forall>k l. GetSocket cfg i = Some k \<longrightarrow> req = FIONREAD \<longrightarrow> sk_obj (smap m k) \<noteq> ListenerObj l)
      | _ \<Rightarrow> True)"

inductive sock_run :: "mos_config \<Rightarrow> mtcp_manager \<Rightarrow> mtcp_manager \<Rightarrow> bool" for cfg m0 where
  start: "sock_run cfg m0 m0"
| call: "sock_run cfg m0 m \<Longrightarrow> guarded cfg c m \<Longrightarrow> sock_call_step cfg c m = Some m' \<Longrightarrow> sock_run cfg m0 m'"

lemma call_typed_snd: "call_typed r \<Longrightarrow> \<exists>m'. map_option snd r = Some m' \<and> socks_typed m'"
  by (cases r) auto

lemma guarded_step:
  assumes m: "socks_typed m" and g: "guarded cfg c m"
  shows "\<exists>m'. sock_call_step cfg c m = Some m' \<and> socks_typed m'"
proof (cases c)
  case (Pipe ap ab garbage)
  then show ?thesis using call_typed_snd[OF pipe_typed[OF m]] by (simp add: sock_call_step_def)
next
  case (Epoll_create ae aq sz)
  then show ?thesis using call_typed_snd[OF epoll_create_typed[OF m]] by (simp add: sock_call_step_def)
next
  case (Listen al asq aq i backlog)
  have "call_typed (mtcp_listen cfg al asq aq i backlog m)"
    by (rule listen_typed[OF m]) (use g Listen in \<open>auto simp: guarded_def\<close>)
  from call_typed_snd[OF this] show ?thesis using Listen by (simp add: sock_call_step_def)
next
  case (Accept i)
  have "call_typed (mtcp_accept cfg i m)"
    by (rule accept_typed[OF m]) (use g Accept in \<open>auto simp: guarded_def\<close>)
  from call_typed_snd[OF this] show ?thesis using Accept by (simp add: sock_call_step_def)
next
  case (Ioctl i req arg)
  have "call_typed (mtcp_ioctl cfg i req arg m)"
    by (rule ioctl_typed[OF m]) (use g Ioctl in \<open>auto simp: guarded_def\<close>)
  from call_typed_snd[OF this] show ?thesis using Ioctl by (simp add: sock_call_step_def)
qed (use call_typed_snd[OF socket_typed[OF m]] call_typed_snd[OF bind_typed[OF m]] call_typed_snd[OF close_typed[OF m]]
      call_typed_snd[OF abort_typed[OF m]] call_typed_snd[OF nonblock_typed[OF m]] in \<open>simp_all add: sock_call_step_def\<close>)


definition slots :: mtcp_manager where
  "slots = zero_mtcp\<lparr>free_smap := [0, 1]\<rparr>"

lemma slots_typed: "socks_typed slots"
  by (simp add: socks_typed_def obj_typed_def slots_def zero_mtcp_def zero_sock_def)


section \<open>Writing to a stream\<close>

text \<open>The stream part of the events a write raises does not matter.\<close>

lemma strm_event [simp]: "streams (snd (AddEpollEvent q k ev m)) = streams m"
  by (simp add: AddEpollEvent_def Let_def split: option.split prod.split)

lemma strm_write_event [simp]: "streams (write_event k s m) = streams m"
  by (simp add: write_event_def)

lemma strm_wake [simp]: "streams (wake m) = streams m" "streams (mod_appq f m) = streams m"
  by (simp_all add: wake_def mod_appq_def)

lemma to_sendq_strm:
  "sndbuf (sndvar (streams (to_sendq s m) s)) = sndbuf (sndvar (streams m s))"
  "snd_wnd (sndvar (streams (to_sendq s m) s)) = snd_wnd (sndvar (streams m s))"
  "on_sendq (sndvar (streams (to_sendq s m) s)) \<or> on_send_list (sndvar (streams (to_sendq s m) s))"
  "state (streams (to_sendq s m) s) = state (streams m s)"
  "s' \<noteq> s \<Longrightarrow> streams (to_sendq s m) s' = streams m s'"
  by (auto simp: to_sendq_def mod_strm_def mod_snd_def strm_def)

definition write_ready :: "mos_config \<Rightarrow> int \<Rightarrow> ref \<Rightarrow> tcp_send_buffer \<Rightarrow> mtcp_manager \<Rightarrow> bool" where
  "write_ready cfg sockid s b m \<longleftrightarrow>
     (case GetSocket cfg sockid of None \<Rightarrow> False
      | Some k \<Rightarrow> socktype (smap m k) = MOS_SOCK_STREAM \<and> sk_obj (smap m k) = StreamObj s)
     \<and> writable (strm m s) \<and> sndbuf (sndvar (strm m s)) = Some b \<and> sb_inv b
     \<and> snd_wnd (sndvar (strm m s)) = sb_size b - sb_len b"

lemma room_unat: "sb_inv b \<Longrightarrow> unat (sb_size b - sb_len b) = unat (sb_size b) - unat (sb_len b)"
  by (rule unat_sub) (auto simp: sb_inv_def word_le_nat_alt)

lemma sint_small:
  fixes w :: u32
  assumes "unat w < 2 ^ 31"
  shows "sint w = int (unat w)"
proof -
  have u: "uint w = int (unat w)" by simp
  then have lt: "uint w < 2 ^ 31" using assms by (metis of_nat_less_iff of_nat_numeral of_nat_power)
  have "sint w = signed_take_bit 31 (uint w)" by (simp add: sint_uint)
  also have "\<dots> = uint w"
  proof (rule signed_take_bit_int_eq_self)
    show "- (2 ^ 31) \<le> uint w" by (rule order.trans[of _ 0]) simp_all
  qed (rule lt)
  finally show ?thesis unfolding u .
qed

lemma CopyFromUser_appends:
  assumes b: "sndbuf (sndvar (strm m s)) = Some b" "sb_inv b" "snd_wnd (sndvar (strm m s)) = sb_size b - sb_len b"
    and n: "n = min (length buf) (unat (sb_size b) - unat (sb_len b))" "0 < n"
  shows "\<exists>b'. CopyFromUser cfg fresh s buf m = Some (Inr (int n), mod_strm s (mod_snd (\<lambda>v. v\<lparr>sndbuf := Some b', snd_wnd := sb_size b' - sb_len b'\<rparr>)) m)
    \<and> sb_inv b' \<and> sb_bytes b' = sb_bytes b @ take n buf \<and> sb_head_seq b' = sb_head_seq b \<and> sb_size b' = sb_size b"
proof -
  define room where "room = unat (sb_size b) - unat (sb_len b)"
  have small: "room < 2 ^ 31" using b(2) by (auto simp: sb_inv_def room_def)
  have u: "unat (snd_wnd (sndvar (strm m s))) = room" using b(3) room_unat[OF b(2)] by (simp add: room_def)
  have sw: "sint (snd_wnd (sndvar (strm m s))) = int room" using sint_small[of "snd_wnd (sndvar (strm m s))"] u small by simp
  have mn: "min (sint (snd_wnd (sndvar (strm m s)))) (int (length buf)) = int n" using n(1) by (simp add: sw room_def min.commute)
  have n31: "n < 2 ^ 31" "n \<le> room" "n \<le> length buf" using n(1) small by (auto simp: room_def)
  have len: "unat (word_of_int (int n) :: u64) = n" using n31(1) by (simp add: unat_of_nat)
  obtain r b' where p: "SBPut b buf (word_of_int (int n)) = (r, b')" by fastforce
  have "n = min (unat (word_of_int (int n) :: u64)) (unat (sb_size b) - unat (sb_len b))" using len n31(2) by (simp add: room_def)
  from SBPut_step[OF b(2) _ this, of buf] have b': "unat r = n" "sb_inv b'" "sb_bytes b' = sb_bytes b @ take n buf"
    "sb_head_seq b' = sb_head_seq b" "sb_size b' = sb_size b"
    using n(2) n31(3) len p by (auto split: if_splits)
  have "unat (ucast r :: u32) = n" using b'(1) n31(1) by (simp add: unsigned_ucast_eq take_bit_nat_eq_self)
  then have "sint (ucast r :: u32) = int n" using sint_small[of "ucast r :: u32"] n31(1) by simp
  then show ?thesis using mn n(2) b' b(1) p by (intro exI[of _ b']) (simp add: CopyFromUser_def ensure_sndbuf_def)
qed


text \<open>An established stream with a fresh send buffer of eight bytes.\<close>

definition write_demo_buf :: tcp_send_buffer where
  "write_demo_buf = \<lparr>sb_chunk = 0, sb_data = replicate 8 0, sb_head = 0, sb_head_off = 0, sb_tail_off = 0, sb_len = 0,
     sb_cum_len = 0, sb_size = 8, sb_head_seq = 1, sb_init_seq = 1\<rparr>"

definition write_demo :: mtcp_manager where
  "write_demo = mod_strm 0 (\<lambda>t. (mod_snd (\<lambda>v. v\<lparr>sndbuf := Some write_demo_buf, snd_wnd := 8\<rparr>) t)\<lparr>state := TCP_ST_ESTABLISHED\<rparr>)
     (mod_sock 0 (\<lambda>sk. sk\<lparr>socktype := MOS_SOCK_STREAM, sk_obj := StreamObj 0\<rparr>) zero_mtcp)"


section \<open>Editing the payload of a packet\<close>

definition region :: "nat \<Rightarrow> nat \<Rightarrow> u8 list \<Rightarrow> u8 list" where
  "region a n f = take n (drop a f)"

lemma memmove_nat:
  "dst + n \<le> length f \<Longrightarrow> src + n \<le> length f \<Longrightarrow>
   memmove (int dst) (int src) (int n) f = Some (blit dst (region src n f) f)"
  by (auto simp: memmove_def region_def)

lemma length_region [simp]: "a + n \<le> length f \<Longrightarrow> length (region a n f) = n"
  by (simp add: region_def)

lemma nth_region: "i < n \<Longrightarrow> a + n \<le> length f \<Longrightarrow> region a n f ! i = f ! (a + i)"
  by (simp add: region_def)

lemma chomp_region:
  assumes "j + n \<le> len" "a + len \<le> length f"
  shows "\<exists>f'. chomp_bytes (int a) (int len) (int j) (int n) f = Some f' \<and> length f' = length f
    \<and> region a (len - n) f' = take j (region a len f) @ drop (j + n) (region a len f)"
proof -
  define f' where "f' = blit (a + j) (region (a + j + n) (len - j - n) f) f"
  have "memmove (int (a + j)) (int (a + j + n)) (int (len - j - n)) f = Some f'"
    unfolding f'_def by (rule memmove_nat) (use assms in auto)
  moreover have "int (len - j - n) = int len - int j - int n" using assms by simp
  ultimately have "chomp_bytes (int a) (int len) (int j) (int n) f = Some f'"
    unfolding chomp_bytes_def by (simp only: of_nat_add)
  moreover have "region a (len - n) f' = take j (region a len f) @ drop (j + n) (region a len f)"
    by (rule nth_equalityI) (use assms in \<open>auto simp: f'_def nth_region nth_blit nth_append\<close>)
  ultimately show ?thesis using assms by (auto simp: f'_def)
qed

lemma insert_region:
  assumes "j < len" "xs \<noteq> []" "a + len + length xs \<le> length f"
  shows "\<exists>f'. insert_bytes (int a) (int len) (int j) xs f = Some f' \<and> length f' = length f
    \<and> region a (len + length xs) f' = take j (region a len f) @ xs @ drop (Suc j) (region a len f) @ [f ! (a + len)]"
proof -
  define n where "n = length xs"
  have n: "0 < n" "a + len + n \<le> length f" using assms(2,3) by (simp_all add: n_def)
  define R where "R = region (a + j + 1) (len - j) f"
  define g where "g = blit (a + j + n) R f"
  define f' where "f' = blit (a + j) xs g"
  have lR: "length R = len - j" unfolding R_def by (rule length_region) (use n assms(1) in arith)
  have nR: "R ! i = f ! (a + j + 1 + i)" if "i < len - j" for i
    unfolding R_def by (rule nth_region[OF that]) (use n assms(1) in arith)
  have lg: "length g = length f" unfolding g_def by (rule length_blit) (use n assms(1) lR in arith)
  have lf: "length f' = length f" unfolding f'_def lg[symmetric] by (rule length_blit) (use n assms(1) lg n_def in arith)
  have "memmove (int (a + j + n)) (int (a + j + 1)) (int (len - j)) f = Some g"
    unfolding g_def R_def by (rule memmove_nat; use assms(1) n in arith)
  moreover have "int (len - j) = int len - int j" using assms(1) by simp
  ultimately have "memmove (int a + int j + int n) (int a + int j + 1) (int len - int j) f = Some g"
    by (simp only: of_nat_add of_nat_1)
  then have "insert_bytes (int a) (int len) (int j) xs f = Some f'"
    using n assms(1) lg unfolding insert_bytes_def n_def[symmetric] by (simp add: memcpy_in_def f'_def nat_add_distrib n_def[symmetric])
  moreover have "region a (len + n) f' = take j (region a len f) @ xs @ drop (Suc j) (region a len f) @ [f ! (a + len)]"
  proof (rule nth_equalityI)
    have lp: "length (region a len f) = len" by (rule length_region) (use n in arith)
    have lr: "length (region a (len + n) f') = len + n" by (rule length_region) (use n lf in arith)
    show "length (region a (len + n) f') = length (take j (region a len f) @ xs @ drop (Suc j) (region a len f) @ [f ! (a + len)])"
      unfolding lr using lp assms(1) n_def by simp
    fix i assume "i < length (region a (len + n) f')"
    then have i: "i < len + n" unfolding lr .
    have "region a (len + n) f' ! i = f' ! (a + i)" by (rule nth_region[OF i]) (use n lf in arith)
    also have "\<dots> = (if j \<le> i \<and> i < j + n then xs ! (i - j) else g ! (a + i))"
      unfolding f'_def using nth_blit[of "a + j" xs g "a + i"] lg n assms(1) i n_def by auto
    also have "g ! (a + i) = (if j + n \<le> i then f ! (a + i + 1 - n) else f ! (a + i))"
      unfolding g_def using nth_blit[of "a + j + n" R f "a + i"] lR nR[of "i - j - n"] n assms(1) i
      by (auto simp: Suc_diff_le)
    finally have l: "region a (len + n) f' ! i = (if j \<le> i \<and> i < j + n then xs ! (i - j) else if j + n \<le> i then f ! (a + i + 1 - n) else f ! (a + i))" .
    have p: "region a len f ! q = f ! (a + q)" if "q < len" for q by (rule nth_region[OF that]) (use n in arith)
    show "region a (len + n) f' ! i = (take j (region a len f) @ xs @ drop (Suc j) (region a len f) @ [f ! (a + len)]) ! i"
    proof (cases "i < j + n")
      case True
      then show ?thesis using lp p[of i] assms(1) n_def unfolding l by (auto simp: nth_append)
    next
      case False
      define q where "q = i - j - n"
      have q: "i = j + n + q" "q \<le> len - Suc j" using False i by (auto simp: q_def)
      have "(take j (region a len f) @ xs @ drop (Suc j) (region a len f) @ [f ! (a + len)]) ! i = (drop (Suc j) (region a len f) @ [f ! (a + len)]) ! q"
        using lp assms(1) n_def q(1) by (simp add: nth_append)
      also have "\<dots> = f ! (a + Suc j + q)"
        using lp assms(1) q(2) p[of "Suc j + q"] by (cases "q < len - Suc j") (simp_all add: nth_append add.assoc)
      finally show ?thesis unfolding l using q(1) by (simp add: ac_simps)
    qed
  qed
  ultimately show ?thesis using lf by (auto simp: n_def)
qed

definition payload_of :: "pkt_info \<Rightarrow> nat \<Rightarrow> u8 list" where
  "payload_of p n = region (nat (payload_at (pi_frame p))) n (pi_frame p)"

lemma payload_at_pos: "0 \<le> payload_at f"
  by (simp add: payload_at_def tcph_at_def iph_at_def ETH_HLEN_def ip_hlen_def tcp_hlen_def)

text \<open>
  C38. Cutting \<open>n\<close> bytes out of the payload of the last packet removes exactly those at the
  offset.  Inserting bytes there does not keep the payload: the byte at the offset is lost,
  and the one behind the payload comes in at the end.
\<close>
lemma payload_edits:
  fixes p :: pkt_info and data :: "u8 list" and j :: nat
  defines "len \<equiv> unat (pi_payloadlen p)" and "n \<equiv> length data"
  assumes "headers_fit p" "nat (payload_at (pi_frame p)) + len + n \<le> length (pi_frame p)" "j + n \<le> len" "0 < n"
  shows "(\<exists>p'. mtcp_setlastpkt csum True (int j) data (MOS_TCP_PAYLOAD OR MOS_CHOMP) (Some p) = Some (Inr p')
      \<and> region (nat (payload_at (pi_frame p))) (len - n) (pi_frame p') = take j (payload_of p len) @ drop (j + n) (payload_of p len))
    \<and> (\<exists>p'. mtcp_setlastpkt csum True (int j) data (MOS_TCP_PAYLOAD OR MOS_INSERT) (Some p) = Some (Inr p')
      \<and> region (nat (payload_at (pi_frame p))) (len + n) (pi_frame p') =
          take j (payload_of p len) @ data @ drop (Suc j) (payload_of p (Suc len)))"
proof -
  define f where "f = pi_frame p"
  define a where "a = nat (payload_at f)"
  have a: "payload_at f = int a" using payload_at_pos[of f] by (simp add: a_def)
  have l: "uint (pi_payloadlen p) = int len" by (simp add: len_def)
  have bits: "opt_set (MOS_TCP_PAYLOAD OR MOS_CHOMP) MOS_CHOMP" "opt_set (MOS_TCP_PAYLOAD OR MOS_CHOMP) MOS_TCP_PAYLOAD"
    "one_operation (MOS_TCP_PAYLOAD OR MOS_CHOMP)" "one_operation (MOS_TCP_PAYLOAD OR MOS_INSERT)"
    "opt_set (MOS_TCP_PAYLOAD OR MOS_INSERT) MOS_TCP_PAYLOAD"
    "\<And>b. b \<in> {MOS_DROP, MOS_ETH_HDR, MOS_IP_HDR, MOS_TCP_HDR, MOS_OVERWRITE, MOS_UPDATE_IP_CHKSUM, MOS_UPDATE_TCP_CHKSUM}
       \<Longrightarrow> \<not> opt_set (MOS_TCP_PAYLOAD OR MOS_CHOMP) b \<and> \<not> opt_set (MOS_TCP_PAYLOAD OR MOS_INSERT) b"
    "\<not> opt_set (MOS_TCP_PAYLOAD OR MOS_INSERT) MOS_CHOMP"
    by (auto simp: opt_set_def one_operation_def MOS_TCP_PAYLOAD_def MOS_CHOMP_def MOS_INSERT_def MOS_DROP_def MOS_ETH_HDR_def
        MOS_IP_HDR_def MOS_TCP_HDR_def MOS_OVERWRITE_def MOS_UPDATE_IP_CHKSUM_def MOS_UPDATE_TCP_CHKSUM_def)
  have fit: "a + len \<le> length f" "a + len + length data \<le> length f" using assms(4) by (simp_all add: a_def f_def n_def)
  obtain f1 where f1: "chomp_bytes (int a) (int len) (int j) (int n) f = Some f1"
    "region a (len - n) f1 = take j (region a len f) @ drop (j + n) (region a len f)"
    using chomp_region[OF assms(5) fit(1)] by blast
  have "j < len" using assms(5,6) by arith
  moreover have "data \<noteq> []" using assms(6) by (auto simp: n_def)
  ultimately obtain f2 where f2: "insert_bytes (int a) (int len) (int j) data f = Some f2"
    "region a (len + n) f2 = take j (region a len f) @ data @ drop (Suc j) (region a len f) @ [f ! (a + len)]"
    using insert_region[OF _ _ fit(2), of j] by (auto simp: n_def)
  have "region a (Suc len) f = region a len f @ [f ! (a + len)]"
  proof -
    have "len < length (drop a f)" using fit(2) assms(6) n_def unfolding length_drop by arith
    then show ?thesis unfolding region_def by (simp add: take_Suc_conv_app_nth)
  qed
  then have tail: "drop (Suc j) (region a len f) @ [f ! (a + len)] = drop (Suc j) (region a (Suc len) f)"
    using \<open>j < len\<close> fit(1) by simp
  define hdrs where "hdrs = tcp_hlen f + ip_hlen f"
  have upd: "update_csums csum (MOS_TCP_PAYLOAD OR MOS_CHOMP) q = q" "update_csums csum (MOS_TCP_PAYLOAD OR MOS_INSERT) q = q" for q
    using bits(6) by (simp_all add: update_csums_def)
  have "edit_payload (MOS_TCP_PAYLOAD OR MOS_CHOMP) (int j) data p = Some (Inr (after_payload_edit hdrs f1 (p\<lparr>pi_frame := f1\<rparr>)))"
    "edit_payload (MOS_TCP_PAYLOAD OR MOS_INSERT) (int j) data p = Some (Inr (after_payload_edit hdrs f2 (p\<lparr>pi_frame := f2\<rparr>)))"
    using bits f1(1) f2(1) a l by (simp_all add: edit_payload_def edited_def Let_def f_def[symmetric] hdrs_def n_def)
  then have "mtcp_setlastpkt csum True (int j) data (MOS_TCP_PAYLOAD OR MOS_CHOMP) (Some p) = Some (Inr (after_payload_edit hdrs f1 (p\<lparr>pi_frame := f1\<rparr>)))"
    "mtcp_setlastpkt csum True (int j) data (MOS_TCP_PAYLOAD OR MOS_INSERT) (Some p) = Some (Inr (after_payload_edit hdrs f2 (p\<lparr>pi_frame := f2\<rparr>)))"
    using bits assms(3) by (simp_all add: mtcp_setlastpkt_def edit_part_def upd)
  then show ?thesis
    using f1(2) f2(2) by (simp add: after_payload_edit_def payload_of_def f_def[symmetric] a_def[symmetric] tail)
qed

text \<open>A packet with headers of 20 bytes each and the payload 1, 2, 3, 4, in a buffer that goes on with a 5.\<close>

definition edit_demo :: pkt_info where
  "edit_demo = \<lparr>pi_frame = replicate 14 0 @ [0x45] @ replicate 31 0 @ [0x50] @ replicate 7 0 @ [1, 2, 3, 4, 5] @ replicate 81 0,
     pi_eth_len = 58, pi_ip_len = 44, pi_payloadlen = 4, pi_seq = 0, pi_ack_seq = 0, pi_window = 0, pi_tcph = Some 34,
     pi_payload = 54, pi_forward = True\<rparr>"

lemma payload_edits_witness:
  "(\<exists>p'. mtcp_setlastpkt (\<lambda>_. 0) True 1 [9] (MOS_TCP_PAYLOAD OR MOS_CHOMP) (Some edit_demo) = Some (Inr p')
      \<and> region 54 3 (pi_frame p') = [1, 3, 4])
   \<and> (\<exists>p'. mtcp_setlastpkt (\<lambda>_. 0) True 1 [9] (MOS_TCP_PAYLOAD OR MOS_INSERT) (Some edit_demo) = Some (Inr p')
      \<and> region 54 5 (pi_frame p') = [1, 9, 3, 4, 5])"
proof -
  have d: "payload_at (pi_frame edit_demo) = 54" "headers_fit edit_demo" "payload_of edit_demo 4 = [1, 2, 3, 4]"
    "payload_of edit_demo 5 = [1, 2, 3, 4, 5]" "unat (pi_payloadlen edit_demo) = 4" "length (pi_frame edit_demo) = 140"
    by code_simp+
  show ?thesis using payload_edits[of edit_demo "[9]" 1 "\<lambda>_. 0"] d by simp
qed

section \<open>What closing leaves behind\<close>

text \<open>
  C39. Closing the listening socket of a core leaves a listener behind that has no queue: the
  next connection that completes its handshake dereferences a null pointer.
\<close>
lemma listener_close_crashes:
  assumes "GetSocket cfg i = Some k" "socktype (smap m k) = MOS_SOCK_STREAM_LISTEN" "sk_obj (smap m k) = ListenerObj l"
    "l < length (listeners m)" "listener m = Some l"
  shows "\<exists>m'. mtcp_close cfg i m = Some (Inr 0, m') \<and> listener m' = Some l \<and> accept_stream s m' = None"
proof -
  define m1 where "m1 = mod_sock k (\<lambda>sk. sk\<lparr>sk_obj := NullObj\<rparr>) (set_acceptq l None m)"
  have m1: "listener m1 = Some l" "listeners m1 = (listeners m)[l := (listeners m ! l)\<lparr>lst_acceptq := None\<rparr>]"
    "socktype (smap m1 k) = MOS_SOCK_STREAM_LISTEN"
    using assms by (simp_all add: m1_def set_acceptq_def mod_sock_def)
  define m' where "m' = FreeSocket k MOS_SOCK_STREAM_LISTEN m1"
  have "mtcp_close cfg i m = Some (Inr 0, m')"
    using assms m1(3) by (simp add: mtcp_close_def with_socket_def CloseListeningSocket_def as_listener_def m1_def[symmetric] m'_def)
  moreover have "listener m' = Some l" "lst_acceptq (listeners m' ! l) = None"
    using m1 assms(4) by (simp_all add: m'_def FreeSocket_def Let_def mod_sock_def)
  ultimately show ?thesis by (simp add: accept_stream_def)
qed

definition listener_demo :: mtcp_manager where
  "listener_demo = (mod_sock 0 (\<lambda>sk. sk\<lparr>socktype := MOS_SOCK_STREAM_LISTEN, sk_obj := ListenerObj 0\<rparr>) zero_mtcp)
     \<lparr>listeners := [\<lparr>lst_socket = Some 0, lst_backlog = 1, lst_acceptq = CreateStreamQueue True True 1\<rparr>], listener := Some 0\<rparr>"

lemma listener_close_crashes_witness:
  "\<exists>m'. mtcp_close epoll_cfg 0 listener_demo = Some (Inr 0, m') \<and> listener m' = Some 0 \<and> accept_stream 3 m' = None"
  by (rule listener_close_crashes[where k = 0]) (simp_all add: listener_demo_def GetSocket_def epoll_cfg_def)

text \<open>
  C40. Closing the second end of a pipe takes the object of whatever socket the first end's
  slot has become: a connected stream loses its stream, and writing to it fails.
\<close>
lemma pipe_close_detaches:
  assumes "GetSocket cfg i = Some k" "socktype (smap m k) = MOS_SOCK_PIPE" "sk_obj (smap m k) = PipeObj p"
    "pp_state (pipes m ! p) = PIPE_CLOSE_WAIT" "pp_socket0 (pipes m ! p) = Some j" "pp_socket1 (pipes m ! p) = Some k" "j \<noteq> k"
    "GetSocket cfg i' = Some j" "socktype (smap m j) = MOS_SOCK_STREAM" "sk_obj (smap m j) = StreamObj s"
  shows "\<exists>m'. mtcp_close cfg i m = Some (Inr 0, m') \<and> sk_obj (smap m' j) = NullObj
    \<and> mtcp_write cfg fresh i' buf m' = Some (Inl ENOTCONN, m')"
proof -
  define m1 where "m1 = clear_obj (Some k) (clear_obj (Some j) m)"
  have m1: "sk_obj (smap m1 j) = NullObj" "socktype (smap m1 j) = MOS_SOCK_STREAM" "socktype (smap m1 k) = MOS_SOCK_PIPE"
    using assms(2,7,9) by (simp_all add: m1_def clear_obj_def)
  define m' where "m' = FreeSocket k MOS_SOCK_PIPE m1"
  have "PipeClose cfg i m = Some (Inr 0, m1)"
    using assms(1-6) by (simp add: PipeClose_def sk_pipe_def Let_def m1_def)
  then have "mtcp_close cfg i m = Some (Inr 0, m')"
    using assms(1,2) m1(3) by (simp add: mtcp_close_def with_socket_def m'_def)
  moreover have "sk_obj (smap m' j) = NullObj" "socktype (smap m' j) = MOS_SOCK_STREAM"
    using m1 assms(7) by (simp_all add: m'_def FreeSocket_def Let_def)
  ultimately show ?thesis
    using assms(8) by (simp add: mtcp_write_def with_socket_def as_stream_def)
qed

definition pipe_end_demo :: mtcp_manager where
  "pipe_end_demo = (mod_sock 0 (\<lambda>sk. sk\<lparr>socktype := MOS_SOCK_STREAM, sk_obj := StreamObj 0\<rparr>)
     (mod_sock 1 (\<lambda>sk. sk\<lparr>socktype := MOS_SOCK_PIPE, sk_obj := PipeObj 0\<rparr>) zero_mtcp))
     \<lparr>pipes := [\<lparr>pp_state = PIPE_CLOSE_WAIT, pp_socket0 = Some 0, pp_socket1 = Some 1, pp_buf = [], pp_buf_off = 0,
        pp_buf_tail = 0, pp_buf_len = 0, pp_buf_size = 0\<rparr>]\<rparr>"

lemma pipe_close_detaches_witness:
  "\<exists>m'. mtcp_close epoll_cfg 1 pipe_end_demo = Some (Inr 0, m') \<and> sk_obj (smap m' 0) = NullObj
    \<and> mtcp_write epoll_cfg None 0 [7] m' = Some (Inl ENOTCONN, m')"
  by (rule pipe_close_detaches[where k = 1 and p = 0 and j = 0 and s = 0]) (simp_all add: pipe_end_demo_def GetSocket_def epoll_cfg_def)

end
