(* ===== verification/Mon_Api.thy ===== *)
theory Mon_Api
  imports Sock_Api
begin

text \<open>
  The calls of the monitoring applications (\<open>mos_api.c\<close>, the monitor options of \<open>api.c\<close> and
  the functions of \<open>tcp_stream.c\<close> behind them).  Results are those of the socket calls; \<open>None\<close>
  also stands for \<open>exit\<close>.  \<open>in_mos\<close> tells whether the calling thread is the mOS thread.  Most of
  the calls do not check the socket number: one that is out of range is outside the array.
\<close>

section \<open>Flow rules\<close>

text \<open>\<open>isspace\<close> in the C locale; \<open>strstr\<close> and \<open>strncmp\<close> as list functions.\<close>

definition isspace :: "char \<Rightarrow> bool" where
  "isspace c \<longleftrightarrow> of_char c = (32 :: nat) \<or> (9 \<le> (of_char c :: nat) \<and> (of_char c :: nat) \<le> 13)"

fun strstr :: "string \<Rightarrow> string \<Rightarrow> bool" where
  "strstr [] needle = (needle = [])"
| "strstr (c # cs) needle = (take (length needle) (c # cs) = needle \<or> strstr cs needle)"

definition starts_with :: "string \<Rightarrow> string \<Rightarrow> bool" where
  "starts_with word kw \<longleftrightarrow> take (length kw) word = kw"

definition SKIP_SPACES :: "string \<Rightarrow> string" where "SKIP_SPACES = dropWhile isspace"
definition SKIP_CHAR :: "string \<Rightarrow> string" where "SKIP_CHAR = dropWhile (\<lambda>c. \<not> isspace c)"

definition flow_keywords :: "string list" where
  "flow_keywords = [''tcp'', ''src '', ''dst '', ''not '', ''and '', ''or '']"

definition param_keywords :: "string list" where
  "param_keywords = [''host '', ''net '', ''mask '', ''port '', ''portrange '']"

lemma skip_length: "length (SKIP_SPACES (SKIP_CHAR (c # cs))) < length (c # cs)"
proof (cases "isspace c")
  case True
  then show ?thesis using length_dropWhile_le[of isspace cs] by (simp add: SKIP_SPACES_def SKIP_CHAR_def le_imp_less_Suc)
next
  case False
  have "length (SKIP_SPACES (SKIP_CHAR cs)) \<le> length cs"
    unfolding SKIP_SPACES_def SKIP_CHAR_def by (meson length_dropWhile_le le_trans)
  then show ?thesis using False by (simp add: SKIP_SPACES_def SKIP_CHAR_def)
qed

function flow_words :: "bool \<Rightarrow> string \<Rightarrow> bool" where
  "flow_words skip_word [] = True"
| "flow_words skip_word (c # cs) =
     (let word = c # cs; rest = SKIP_SPACES (SKIP_CHAR word) in
      if skip_word then flow_words False rest
      else if list_ex (starts_with word) flow_keywords then flow_words False rest
      else if list_ex (starts_with word) param_keywords then flow_words True rest
      else False)"
  by pat_completeness auto
termination by (relation "measure (\<lambda>(_, w). length w)") (auto simp: skip_length simp del: list.size)

definition IsValidFlowRule :: "string \<Rightarrow> bool" where
  "IsValidFlowRule cf \<longleftrightarrow>
     \<not> strstr cf ''!tcp'' \<and> \<not> strstr cf ''not tcp'' \<and> flow_words False (SKIP_SPACES cf)"

text \<open>
  The filters of a monitor socket.  \<open>compile\<close> tells which expressions the BPF compiler
  accepts; the result lists the programs installed.
\<close>

datatype bpf_slot = Raw_pkt_fcode | Stream_syn_fcode | Stream_orphan_fcode

record monitor_filter =
  raw_pkt_filter :: "string option"
  stream_syn_filter :: "string option"
  stream_orphan_filter :: "string option"

definition stream_filter :: "(string \<Rightarrow> bool) \<Rightarrow> string option \<Rightarrow> bool" where
  "stream_filter compile f \<longleftrightarrow> (case f of None \<Rightarrow> True | Some e \<Rightarrow> IsValidFlowRule e \<and> compile e)"

definition installed :: "bpf_slot \<Rightarrow> string option \<Rightarrow> (bpf_slot \<times> string) list" where
  "installed slot f = (case f of None \<Rightarrow> [] | Some e \<Rightarrow> [(slot, e)])"

definition mtcp_bind_monitor_filter ::
  "mos_config \<Rightarrow> (string \<Rightarrow> bool) \<Rightarrow> int \<Rightarrow> monitor_filter option \<Rightarrow> mtcp_manager \<Rightarrow> (errno + int) \<times> (bpf_slot \<times> string) list" where
  "mtcp_bind_monitor_filter cfg compile sockid ft m =
     (case ft of
        None \<Rightarrow> (Inr 0, [])
      | Some f \<Rightarrow>
          (case GetSocket cfg sockid of
             None \<Rightarrow> (Inl EBADF, [])
           | Some k \<Rightarrow>
               if socktype (msmap m k) = MOS_SOCK_MONITOR_RAW then
                 (case raw_pkt_filter f of
                    None \<Rightarrow> (Inr 0, [])
                  | Some e \<Rightarrow> if compile e then (Inr 0, [(Raw_pkt_fcode, e)]) else (Inl EINVAL, []))
               else if socktype (msmap m k) = MOS_SOCK_MONITOR_STREAM then
                 (if \<not> stream_filter compile (stream_syn_filter f) then (Inl EINVAL, [])
                  else (let syn = installed Stream_syn_fcode (stream_syn_filter f) in
                    if \<not> stream_filter compile (stream_orphan_filter f) then (Inl EINVAL, syn)
                    else (Inr 0, syn @ installed Stream_orphan_fcode (stream_orphan_filter f))))
               else (Inl ENOPROTOOPT, [])))"

section \<open>The stream of a side\<close>

definition MOS_SIDE_BOTH :: "2 word" where "MOS_SIDE_BOTH = 2"

definition one_side :: "2 word \<Rightarrow> bool" where
  "one_side sd \<longleftrightarrow> sd = MOS_SIDE_CLI \<or> sd = MOS_SIDE_SVR"

text \<open>\<open>None\<close> where the monitor socket has no stream to ask for its side.\<close>

definition side_stream :: "2 word \<Rightarrow> ref \<Rightarrow> mtcp_manager \<Rightarrow> ref option option" where
  "side_stream sd k m =
     (case ms_stream (sk_mon (msmap m k)) of
        None \<Rightarrow> None
      | Some s \<Rightarrow> Some (if side (strm m s) = sd then Some s else pair_stream (strm m s)))"

section \<open>Reading a monitored stream\<close>

definition mod_peek_offset :: "2 word \<Rightarrow> int \<Rightarrow> ref \<Rightarrow> mtcp_manager \<Rightarrow> mtcp_manager" where
  "mod_peek_offset sd off k m =
     mod_msock k (mod_mon (\<lambda>d. d\<lparr>ms_peek_offset := (ms_peek_offset d)(sd := off)\<rparr>)) m"

text \<open>
  The bytes at the peek offset; a negative count is the number of bytes that were lost, with
  \<open>ENODATA\<close> in \<open>errno\<close>.  A failed peek at or behind the head of the buffer is an \<open>exit\<close>.
\<close>

definition peek_stream ::
  "mos_config \<Rightarrow> ref \<Rightarrow> ref \<Rightarrow> tcprb \<Rightarrow> u8 list \<Rightarrow> mtcp_manager \<Rightarrow> ((errno + int) \<times> u8 list \<times> mtcp_manager) option" where
  "peek_stream cfg k s rb buf m =
     (let sd = side (strm m s); off = ms_peek_offset (sk_mon (msmap m k)) sd in
      case tcprb_ppeek (chunk_bytes cfg) buf (int (length buf)) off (rb, bufseg_pool m) of
        None \<Rightarrow> None
      | Some (rc, buf, rb', mp) \<Rightarrow>
          if rc < 0 then
            (if off \<ge> rb_head rb then None
             else Some (Inr (- sint (word_of_int (rb_head rb - off) :: u32)), buf, mod_peek_offset sd (rb_head rb) k m))
          else Some (Inr rc, buf, mod_peek_offset sd (off + rc) k
                 (mod_strm s (mod_rcv (\<lambda>r. r\<lparr>rcvbuf := Some rb'\<rparr>)) (m\<lparr>bufseg_pool := mp\<rparr>))))"

definition mtcp_peek ::
  "mos_config \<Rightarrow> bool \<Rightarrow> int \<Rightarrow> 2 word \<Rightarrow> u8 list \<Rightarrow> mtcp_manager \<Rightarrow> ((errno + int) \<times> u8 list \<times> mtcp_manager) option" where
  "mtcp_peek cfg in_mos msock sd buf m =
     (if \<not> in_mos then Some (Inl EPERM, buf, m)
      else case GetSocket cfg msock of
             None \<Rightarrow> None
           | Some k \<Rightarrow>
               if socktype (msmap m k) \<noteq> MOS_SOCK_MONITOR_STREAM_ACTIVE then Some (Inl EBADF, buf, m)
               else if \<not> one_side sd then None
               else (case side_stream sd k m of
                       None \<Rightarrow> None
                     | Some None \<Rightarrow> Some (Inl EINVAL, buf, m)
                     | Some (Some s) \<Rightarrow>
                         if buffer_mgmt (strm m s) = 0 then Some (Inl EINVAL, buf, m)
                         else (case rcvbuf (rcvvar (strm m s)) of
                                 None \<Rightarrow> Some (Inr 0, buf, m)
                               | Some rb \<Rightarrow> peek_stream cfg k s rb buf m)))"

definition mtcp_ppeek ::
  "mos_config \<Rightarrow> bool \<Rightarrow> int \<Rightarrow> 2 word \<Rightarrow> u8 list \<Rightarrow> int \<Rightarrow> mtcp_manager \<Rightarrow> ((errno + int) \<times> u8 list \<times> mtcp_manager) option" where
  "mtcp_ppeek cfg in_mos msock sd buf off m =
     (if \<not> in_mos then Some (Inl EPERM, buf, m)
      else case GetSocket cfg msock of
             None \<Rightarrow> None
           | Some k \<Rightarrow>
               if socktype (msmap m k) \<noteq> MOS_SOCK_MONITOR_STREAM_ACTIVE then Some (Inl ESOCKTNOSUPPORT, buf, m)
               else if \<not> one_side sd then None
               else (case side_stream sd k m of
                       None \<Rightarrow> None
                     | Some None \<Rightarrow> Some (Inl EACCES, buf, m)
                     | Some (Some s) \<Rightarrow>
                         if buffer_mgmt (strm m s) = 0 then Some (Inl EACCES, buf, m)
                         else (case rcvbuf (rcvvar (strm m s)) of
                                 None \<Rightarrow> Some (Inl EPERM, buf, m)
                               | Some rb \<Rightarrow>
                                   (case tcprb_ppeek (chunk_bytes cfg) buf (int (length buf)) off (rb, bufseg_pool m) of
                                      None \<Rightarrow> None
                                    | Some (rc, buf, rb, mp) \<Rightarrow>
                                        Some (if rc = -1 then Inl NO_ERRNO else Inr rc, buf,
                                          mod_strm s (mod_rcv (\<lambda>r. r\<lparr>rcvbuf := Some rb\<rparr>)) (m\<lparr>bufseg_pool := mp\<rparr>))))))"

section \<open>Sending\<close>

text \<open>
  \<open>pkt\<close> is the packet and whether it has an IP and a TCP header.  What an active monitor
  socket sends has the flag \<open>ACK\<close> only, whatever the packet says; other sockets send nothing.
\<close>

definition mtcp_sendpkt ::
  "mos_config \<Rightarrow> bool \<Rightarrow> int \<Rightarrow> (bool \<times> pkt_ctx) option \<Rightarrow> mtcp_manager \<Rightarrow> ((errno + int) \<times> mtcp_manager) option" where
  "mtcp_sendpkt cfg in_mos sock pkt m =
     (case pkt of
        None \<Rightarrow> Some (Inl EACCES, m)
      | Some (has_tcp, p) \<Rightarrow>
          if \<not> in_mos then Some (Inl EPERM, m)
          else if \<not> has_tcp then Some (Inl ENODATA, m)
          else case GetSocket cfg sock of
                 None \<Rightarrow> None
               | Some k \<Rightarrow>
                   if socktype (msmap m k) \<noteq> MOS_SOCK_MONITOR_STREAM_ACTIVE then Some (Inr 0, m)
                   else (case ms_stream (sk_mon (msmap m k)) of
                           None \<Rightarrow> None
                         | Some s \<Rightarrow>
                             map_option (\<lambda>(_, m). (Inr 0, m))
                               (SendTCPPacketStandalone cfg (p_saddr p) (th_source (p_tcph p)) (p_daddr p) (th_dest (p_tcph p))
                                  (p_seq p) (p_ack_seq p) (p_window p) TCP_FLAG_ACK (p_payload p)
                                  (ts_recent (rcvvar (strm m s))) (ts_lastack_rcvd (rcvvar (strm m s))) m)))"

text \<open>\<open>cur_ts\<close> is the time of the manager's current round.\<close>

definition SendRSTPacketStandalone :: "mos_config \<Rightarrow> u32 \<Rightarrow> ref \<Rightarrow> mtcp_manager \<Rightarrow> mtcp_manager option" where
  "SendRSTPacketStandalone cfg cur_ts s m =
     (let t = strm m s
      in map_option snd (SendTCPPacketStandalone cfg (saddr t) (sport t) (daddr t) (dport t) (snd_nxt t) (rcv_nxt t) 0
           (TCP_FLAG_RST OR TCP_FLAG_ACK) [] cur_ts 0 m))"

definition mtcp_reset_conn :: "mos_config \<Rightarrow> u32 \<Rightarrow> int \<Rightarrow> mtcp_manager \<Rightarrow> ((errno + int) \<times> mtcp_manager) option" where
  "mtcp_reset_conn cfg cur_ts sock m =
     (case GetSocket cfg sock of
        None \<Rightarrow> None
      | Some k \<Rightarrow>
          if socktype (msmap m k) = MOS_SOCK_MONITOR_STREAM then Some (Inl EINVAL, m)
          else (case ms_stream (sk_mon (msmap m k)) of
                  None \<Rightarrow> None
                | Some s \<Rightarrow>
                    (case SendRSTPacketStandalone cfg cur_ts s m of
                       None \<Rightarrow> None
                     | Some m \<Rightarrow>
                         (case pair_stream (strm m s) of
                            None \<Rightarrow> None
                          | Some p \<Rightarrow> map_option (\<lambda>m. (Inr 0, m)) (SendRSTPacketStandalone cfg cur_ts p m)))))"

section \<open>Ending the monitoring\<close>

text \<open>
  The references go when both sides are off, and only where the second tree is there; a
  side that is neither client nor server, \<open>MOS_SIDE_BOTH\<close> included, turns nothing off.
\<close>

definition drop_strees :: "nat option list \<Rightarrow> mtcp_manager \<Rightarrow> mtcp_manager" where
  "drop_strees ts m = (if ts ! 1 = None then m else fold stree_dec_ref ts m)"

definition kept_strees :: "nat option list \<Rightarrow> nat option list" where
  "kept_strees ts = (if ts ! 1 = None then ts else [None, None, None])"

definition RemoveMonitorEvents :: "ref \<Rightarrow> 2 word \<Rightarrow> mtcp_manager \<Rightarrow> mtcp_manager" where
  "RemoveMonitorEvents k sd m =
     (if socktype (msmap m k) = MOS_SOCK_MONITOR_STREAM_ACTIVE then
        (let m = mod_msock k (mod_mon (\<lambda>d.
                   if sd = MOS_SIDE_SVR then d\<lparr>ms_server_mon := False\<rparr>
                   else if sd = MOS_SIDE_CLI then d\<lparr>ms_client_mon := False\<rparr> else d)) m;
             d = sk_mon (msmap m k)
         in if ms_server_mon d \<or> ms_client_mon d then m
            else mod_msock k (mod_mon (\<lambda>d. d\<lparr>ms_strees := kept_strees (ms_strees d)\<rparr>)) (drop_strees (ms_strees d) m))
      else if socktype (msmap m k) = MOS_SOCK_MONITOR_STREAM then
        (let l = mlisteners m k;
             l = (if sd = MOS_SIDE_SVR then l\<lparr>ml_server_mon := False\<rparr>
                  else if sd = MOS_SIDE_CLI then l\<lparr>ml_client_mon := False\<rparr> else l);
             m = m\<lparr>mlisteners := (mlisteners m)(k := l)\<rparr>
         in if ml_server_mon l \<or> ml_client_mon l then m
            else (drop_strees (ml_strees l) m)\<lparr>mlisteners :=
                   (mlisteners m)(k := l\<lparr>ml_strees := kept_strees (ml_strees l)\<rparr>)\<rparr>)
      else m)"

text \<open>A side nobody monitors any more is no longer followed.\<close>

definition stop_side :: "2 word \<Rightarrow> (mon_stream \<Rightarrow> bool) \<Rightarrow> ref \<Rightarrow> mtcp_manager \<Rightarrow> mtcp_manager option" where
  "stop_side sd mon k m =
     (case side_stream sd k m of
        Some (Some s) \<Rightarrow>
          Some (if list_ex (\<lambda>w. mon (sk_mon (msmap m (fst w)))) (msocks (strm m s)) then m
                else mod_strm s (\<lambda>t. t\<lparr>status_mgmt := False\<rparr>) m)
      | _ \<Rightarrow> None)"

definition mtcp_cb_stop :: "mos_config \<Rightarrow> int \<Rightarrow> 2 word \<Rightarrow> mtcp_manager \<Rightarrow> ((errno + int) \<times> mtcp_manager) option" where
  "mtcp_cb_stop cfg sock sd m =
     (case GetSocket cfg sock of
        None \<Rightarrow> None
      | Some k \<Rightarrow>
          (let m = RemoveMonitorEvents k sd m in
           if socktype (msmap m k) = MOS_SOCK_MONITOR_STREAM then Some (Inl EPERM, m)
           else map_option (\<lambda>m. (Inr 0, m))
                  (if sd = MOS_SIDE_CLI then stop_side sd ms_client_mon k m
                   else if sd = MOS_SIDE_SVR then stop_side sd ms_server_mon k m
                   else Some m)))"

section \<open>The names of the two ends\<close>

text \<open>The address of the end that sends to the stream of side \<open>sd\<close>.\<close>

definition end_address :: "2 word \<Rightarrow> tcp_stream \<Rightarrow> sockaddr_in" where
  "end_address sd t =
     (if side t = sd then \<lparr>sin_addr = daddr t, sin_port = dport t\<rparr> else \<lparr>sin_addr = saddr t, sin_port = sport t\<rparr>)"

definition sizeof_sockaddr :: u32 where "sizeof_sockaddr = 16"

definition mtcp_getpeername ::
  "mos_config \<Rightarrow> bool \<Rightarrow> int \<Rightarrow> u32 \<Rightarrow> 2 word \<Rightarrow> mtcp_manager \<Rightarrow> errno + sockaddr_in list" where
  "mtcp_getpeername cfg in_mos sockfd addrlen sd m =
     (case GetSocket cfg sockfd of
        None \<Rightarrow> Inl EBADF
      | Some k \<Rightarrow>
          if \<not> in_mos then Inl EPERM
          else (case ms_stream (sk_mon (msmap m k)) of
                  None \<Rightarrow> Inl ENOTCONN
                | Some s \<Rightarrow>
                    if one_side sd then
                      (if addrlen \<noteq> sizeof_sockaddr then Inl EINVAL else Inr [end_address sd (strm m s)])
                    else if sd = MOS_SIDE_BOTH then
                      (if addrlen \<noteq> 2 * sizeof_sockaddr then Inl EINVAL
                       else Inr [end_address MOS_SIDE_CLI (strm m s), end_address MOS_SIDE_SVR (strm m s)])
                    else Inl EINVAL))"

section \<open>Options of monitor sockets\<close>

text \<open>
  What \<open>mtcp_getsockopt\<close> stores for the caller.  \<open>len\<close> is the length the caller passes; a
  fragment takes 16 bytes, and the length, in bytes, is used as the number of entries.
  \<open>FragInfo\<close> lists the entries written, the zero entry behind the last fragment included, and
  has the number of fragments the caller is told.
\<close>

datatype mon_option =
    MOS_FRAGINFO_CLIBUF | MOS_FRAGINFO_SVRBUF | MOS_INFO_CLIBUF | MOS_INFO_SVRBUF | MOS_TCP_STATE_CLI | MOS_TCP_STATE_SVR
  | MOS_TIMESTAMP | MOS_CLIBUF | MOS_SVRBUF | MOS_SEQ_REMAP | MOS_STOP_MON | MOS_FRAG_CLIBUF | MOS_FRAG_SVRBUF
  | MOS_CLIOVERLAP | MOS_SVROVERLAP

record tcp_buf_info =
  tcpbi_init_seq :: u32
  tcpbi_last_byte_read :: u32
  tcpbi_next_byte_expected :: u32
  tcpbi_last_byte_received :: u32

datatype opt_value = FragInfo "(u64 \<times> u32) list" nat | BufInfo tcp_buf_info | TcpState tcp_state | Timestamp u32

definition sizeof_tcpfrag :: nat where "sizeof_tcpfrag = 40"
definition sizeof_tcp_buf_info :: nat where "sizeof_tcp_buf_info = 16"

definition GetFragInfo :: "ref \<Rightarrow> 2 word \<Rightarrow> nat \<Rightarrow> mtcp_manager \<Rightarrow> (errno + opt_value) option" where
  "GetFragInfo k sd len m =
     (if len = 0 \<or> len mod sizeof_tcpfrag \<noteq> 0 then Some (Inl NO_ERRNO)
      else case side_stream sd k m of
             None \<Rightarrow> None
           | Some None \<Rightarrow> Some (Inl NO_ERRNO)
           | Some (Some s) \<Rightarrow>
               (case rcvbuf (rcvvar (strm m s)) of
                  None \<Rightarrow> Some (Inl NO_ERRNO)
                | Some rb \<Rightarrow>
                    (let out = map (\<lambda>f. (word_of_int (f_head f), word_of_int (f_tail f - f_head f))) (take len (rb_frags rb))
                     in Some (Inr (FragInfo (if length out = len then out else out @ [(0, 0)]) (length out))))))"

definition GetBufInfo :: "ref \<Rightarrow> 2 word \<Rightarrow> nat \<Rightarrow> mtcp_manager \<Rightarrow> (errno + opt_value) option" where
  "GetBufInfo k sd len m =
     (if len \<noteq> sizeof_tcp_buf_info then Some (Inl EINVAL)
      else case side_stream sd k m of
             None \<Rightarrow> None
           | Some None \<Rightarrow> Some (Inl ENODATA)
           | Some (Some s) \<Rightarrow>
               (case rcvbuf (rcvvar (strm m s)) of
                  None \<Rightarrow> Some (Inl ENODATA)
                | Some rb \<Rightarrow>
                    Some (Inr (BufInfo
                      \<lparr>tcpbi_init_seq = irs (rcvvar (strm m s)) + 1, tcpbi_last_byte_read = word_of_int (rb_pile rb),
                       tcpbi_next_byte_expected = word_of_int (rb_pile rb + tcprb_cflen rb),
                       tcpbi_last_byte_received =
                         word_of_int (if rb_frags rb = [] then rb_head rb else f_tail (last (rb_frags rb)))\<rparr>))))"

definition GetTCPState :: "ref \<Rightarrow> 2 word \<Rightarrow> mtcp_manager \<Rightarrow> errno + opt_value" where
  "GetTCPState k sd m =
     (case side_stream sd k m of
        Some (Some s) \<Rightarrow>
          Inr (TcpState (if state (strm m s) = TCP_ST_CLOSED_RSVD then TCP_ST_CLOSED else state (strm m s)))
      | _ \<Rightarrow> Inl NO_ERRNO)"

definition TIME_TICK :: u32 where "TIME_TICK = 1000"
definition TS_TO_USEC :: "u32 \<Rightarrow> u32" where "TS_TO_USEC t = t * TIME_TICK"

definition GetLastTimestamp :: "ref \<Rightarrow> nat \<Rightarrow> mtcp_manager \<Rightarrow> (errno + opt_value) option" where
  "GetLastTimestamp k len m =
     (if len < 4 then Some (Inl NO_ERRNO)
      else case ms_stream (sk_mon (msmap m k)) of
             None \<Rightarrow> None
           | Some s \<Rightarrow>
               (case pair_stream (strm m s) of
                  None \<Rightarrow> None
                | Some p \<Rightarrow>
                    Some (Inr (Timestamp (TS_TO_USEC (if last_active_ts (strm m s) > last_active_ts (strm m p)
                      then last_active_ts (strm m s) else last_active_ts (strm m p)))))))"

definition getsockopt_monitor :: "mos_config \<Rightarrow> bool \<Rightarrow> int \<Rightarrow> mon_option \<Rightarrow> nat \<Rightarrow> mtcp_manager \<Rightarrow> (errno + opt_value) option" where
  "getsockopt_monitor cfg in_mos sockid optname len m =
     (case GetSocket cfg sockid of
        None \<Rightarrow> Some (Inl EBADF)
      | Some k \<Rightarrow>
          if \<not> in_mos then Some (Inl EPERM)
          else if socktype (msmap m k) \<noteq> MOS_SOCK_MONITOR_STREAM_ACTIVE then Some (Inl ENOTSOCK)
          else (case optname of
                  MOS_FRAGINFO_CLIBUF \<Rightarrow> GetFragInfo k MOS_SIDE_CLI len m
                | MOS_FRAGINFO_SVRBUF \<Rightarrow> GetFragInfo k MOS_SIDE_SVR len m
                | MOS_INFO_CLIBUF \<Rightarrow> GetBufInfo k MOS_SIDE_CLI len m
                | MOS_INFO_SVRBUF \<Rightarrow> GetBufInfo k MOS_SIDE_SVR len m
                | MOS_TCP_STATE_CLI \<Rightarrow> Some (GetTCPState k MOS_SIDE_CLI m)
                | MOS_TCP_STATE_SVR \<Rightarrow> Some (GetTCPState k MOS_SIDE_SVR m)
                | MOS_TIMESTAMP \<Rightarrow> GetLastTimestamp k len m
                | _ \<Rightarrow> None))"

text \<open>
  \<open>v\<close> is the integer the value points to.  The sockets are not checked for the overlap
  policies: a listener is read as a monitored stream.  With \<open>DISABLE_DYN_RESIZE\<close> a buffer can
  only be turned off.
\<close>

definition set_overlap :: "ref \<Rightarrow> 2 word \<Rightarrow> int \<Rightarrow> mtcp_manager \<Rightarrow> ((errno + int) \<times> mtcp_manager) option" where
  "set_overlap k sd v m =
     (if socktype (msmap m k) \<noteq> MOS_SOCK_MONITOR_STREAM_ACTIVE then None
      else case side_stream sd k m of
             Some (Some s) \<Rightarrow>
               (case rcvbuf (rcvvar (strm m s)) of
                  None \<Rightarrow> Some (Inl EFAULT, m)
                | Some rb \<Rightarrow>
                    (let (ret, rb) = tcprb_setpolicy rb (unat (word_of_int v :: u8)) in
                     Some (if ret < 0 then Inl EINVAL else Inr 0,
                       mod_strm s (mod_rcv (\<lambda>r. r\<lparr>rcvbuf := Some rb\<rparr>)) m)))
           | _ \<Rightarrow> None)"

definition buffer_off :: "bool \<Rightarrow> ref \<Rightarrow> mtcp_manager \<Rightarrow> mtcp_manager" where
  "buffer_off meta s m =
     (case rcvbuf (rcvvar (strm m s)) of
        None \<Rightarrow> m
      | Some rb \<Rightarrow>
          (let rb = (if meta then snd (tcprb_resize_meta rb) else rb);
               (_, rb, mp) = tcprb_resize rb (bufseg_pool m)
           in mod_strm s (mod_rcv (\<lambda>r. r\<lparr>rcvbuf := Some rb\<rparr>)) (m\<lparr>bufseg_pool := mp\<rparr>)))"

text \<open>\<open>assert(stream->side == side)\<close> holds of a pair; a stream without one is a null pointer here.\<close>

definition DisableBuf :: "ref \<Rightarrow> 2 word \<Rightarrow> mtcp_manager \<Rightarrow> ((errno + int) \<times> mtcp_manager) option" where
  "DisableBuf k sd m =
     (if socktype (msmap m k) = MOS_SOCK_MONITOR_STREAM then
        (if sd = MOS_SIDE_CLI then
           Some (Inr 0, m\<lparr>mlisteners := (mlisteners m)(k := (mlisteners m k)\<lparr>ml_client_buf_mgmt := 0\<rparr>)\<rparr>)
         else if sd = MOS_SIDE_SVR then
           Some (Inr 0, m\<lparr>mlisteners := (mlisteners m)(k := (mlisteners m k)\<lparr>ml_server_buf_mgmt := 0\<rparr>)\<rparr>)
         else None)
      else if socktype (msmap m k) = MOS_SOCK_MONITOR_STREAM_ACTIVE then
        (case side_stream sd k m of
           Some (Some s) \<Rightarrow>
             (if side (strm m s) \<noteq> sd then None
              else Some (Inr 0, mod_strm s (\<lambda>t. t\<lparr>buffer_mgmt := 0\<rparr>) m))
         | _ \<Rightarrow> None)
      else None)"

definition set_buffer :: "bool \<Rightarrow> ref \<Rightarrow> 2 word \<Rightarrow> int \<Rightarrow> mtcp_manager \<Rightarrow> ((errno + int) \<times> mtcp_manager) option" where
  "set_buffer meta k sd v m =
     (if v \<noteq> 0 then Some (Inl NO_ERRNO, m)
      else case (if socktype (msmap m k) = MOS_SOCK_MONITOR_STREAM_ACTIVE
                 then (case side_stream sd k m of Some (Some s) \<Rightarrow> Some (buffer_off meta s m) | _ \<Rightarrow> None)
                 else Some m) of
             None \<Rightarrow> None
           | Some m \<Rightarrow> if meta then DisableBuf k sd m else Some (Inr 0, m))"

definition setsockopt_monitor :: "mos_config \<Rightarrow> int \<Rightarrow> mon_option \<Rightarrow> int \<Rightarrow> mtcp_manager \<Rightarrow> ((errno + int) \<times> mtcp_manager) option" where
  "setsockopt_monitor cfg sockid optname v m =
     (case GetSocket cfg sockid of
        None \<Rightarrow> Some (Inl EBADF, m)
      | Some k \<Rightarrow>
          (case optname of
             MOS_CLIOVERLAP \<Rightarrow> set_overlap k MOS_SIDE_CLI v m
           | MOS_SVROVERLAP \<Rightarrow> set_overlap k MOS_SIDE_SVR v m
           | MOS_CLIBUF \<Rightarrow> set_buffer True k MOS_SIDE_CLI v m
           | MOS_SVRBUF \<Rightarrow> set_buffer True k MOS_SIDE_SVR v m
           | MOS_FRAG_CLIBUF \<Rightarrow> set_buffer False k MOS_SIDE_CLI v m
           | MOS_FRAG_SVRBUF \<Rightarrow> set_buffer False k MOS_SIDE_SVR v m
           | MOS_SEQ_REMAP \<Rightarrow> Some (Inl ENOSYS, m)
           | MOS_STOP_MON \<Rightarrow> mtcp_cb_stop cfg sockid (if 0 \<le> v \<and> v \<le> 2 then word_of_int v else 3) m
           | _ \<Rightarrow> None))"

text \<open>The other level only checks the socket: no option of an end socket can be set.\<close>

definition setsockopt_socket :: "mos_config \<Rightarrow> int \<Rightarrow> mtcp_manager \<Rightarrow> ((errno + int) \<times> mtcp_manager) option" where
  "setsockopt_socket cfg sockid =
     with_socket cfg sockid (\<lambda>k m. Some (Inl (if end_socket (smap m k) then ENOSYS else ENOTSOCK), m))"

end
