(* ===== verification/Event_Tree.thy ===== *)
theory Event_Tree
  imports Mon_Api
begin

text \<open>
  Events and their callbacks (\<open>scalable_event.c\<close>).  The events that exist form one forest:
  the built-in events below a root, and below them the events the applications define with
  a filter.  What a socket has registered for one hook is a tree of its own, a part of the
  forest with callbacks in it; trees are shared between sockets, counted, and found in a
  key-value store by an identifier that is the exclusive or of the hashes of the registered
  pairs.  Functions are named by numbers.  \<open>None\<close> is a failed assertion or a null pointer
  dereferenced.
\<close>

section \<open>The forest of events\<close>

type_synonym event = u64

definition NUM_BEV :: nat where "NUM_BEV = 12"
definition MOS_NULL_EVENT :: event where "MOS_NULL_EVENT = 0"

text \<open>
  A node of the forest is named by its event; the hash table maps an event to its node, if
  it was stored there.
\<close>

record dnode =
  dn_ft :: "nat option"
  dn_arg :: "u8 list option"
  dn_parent :: "event option"
  dn_kids :: "event list"

record dforest =
  df_nodes :: "event \<Rightarrow> dnode option"
  df_table :: "nat \<Rightarrow> (event \<times> event) list"
  g_evid :: event

definition MAX_BUCKET :: nat where "MAX_BUCKET = 2048"
definition HASHVAL :: "event \<Rightarrow> nat" where "HASHVAL ev = unat (ev AND of_nat (MAX_BUCKET - 1))"

definition dforest_store :: "event \<Rightarrow> event \<Rightarrow> dforest \<Rightarrow> dforest" where
  "dforest_store ev p g =
     g\<lparr>df_table := (df_table g)(HASHVAL ev := df_table g (HASHVAL ev) @ [(ev, p)])\<rparr>"

definition dforest_search :: "event \<Rightarrow> dforest \<Rightarrow> event option" where
  "dforest_search ev g = map_option snd (find (\<lambda>de. fst de = ev) (df_table g (HASHVAL ev)))"

definition add_node :: "event \<Rightarrow> dnode \<Rightarrow> dforest \<Rightarrow> dforest" where
  "add_node ev n g = g\<lparr>df_nodes := (df_nodes g)(ev \<mapsto> n)\<rparr>"

text \<open>\<open>TREE_INSERT_CHILD\<close> in the forest.\<close>

definition add_kid :: "event \<Rightarrow> event \<Rightarrow> dforest \<Rightarrow> dforest" where
  "add_kid p ev g =
     g\<lparr>df_nodes := (\<lambda>e. if e = p then map_option (\<lambda>n. n\<lparr>dn_kids := dn_kids n @ [ev]\<rparr>) (df_nodes g e) else df_nodes g e)\<rparr>"

definition init_bev :: "nat \<Rightarrow> dforest \<Rightarrow> dforest" where
  "init_bev i g =
     (let ev = push_bit i 1
      in dforest_store ev ev (add_kid 0 ev (add_node ev \<lparr>dn_ft = None, dn_arg = None, dn_parent = Some 0, dn_kids = []\<rparr> g)))"

definition GlobInitEvent :: dforest where
  "GlobInitEvent =
     (let g = \<lparr>df_nodes = (\<lambda>_. None), df_table = (\<lambda>_. []), g_evid = 0\<rparr>;
          g = add_node 0 \<lparr>dn_ft = None, dn_arg = None, dn_parent = None, dn_kids = []\<rparr> g;
          g = fold init_bev [0..<NUM_BEV] (dforest_store 0 0 g)
      in g\<lparr>g_evid := push_bit NUM_BEV 1\<rparr>)"

text \<open>An event without filter is hung below its parent but not stored in the table.\<close>

definition mtcp_alloc_event :: "bool \<Rightarrow> event \<Rightarrow> dforest \<Rightarrow> event \<times> dforest" where
  "mtcp_alloc_event alloc_ok ev g =
     (case dforest_search ev g of
        None \<Rightarrow> (MOS_NULL_EVENT, g)
      | Some p \<Rightarrow>
          if \<not> alloc_ok then (MOS_NULL_EVENT, g)
          else (let new = g_evid g
                in (new, add_kid p new (add_node new \<lparr>dn_ft = None, dn_arg = None, dn_parent = Some p, dn_kids = []\<rparr>
                       (g\<lparr>g_evid := new + 1\<rparr>)))))"

text \<open>The argument of a filter as it is passed: a length and a pointer to that many bytes.\<close>

record filter_arg =
  fa_len :: nat
  fa_arg :: "u8 list option"

definition no_arg :: "filter_arg option \<Rightarrow> bool" where
  "no_arg a \<longleftrightarrow> (case a of None \<Rightarrow> True | Some a \<Rightarrow> fa_arg a = None \<or> fa_len a = 0)"

text \<open>
  The test for an event that is there already; comparing with an argument that is not
  passed dereferences a null pointer.
\<close>

definition same_event :: "nat \<Rightarrow> filter_arg option \<Rightarrow> dnode \<Rightarrow> bool option" where
  "same_event ft a n =
     (if dn_ft n \<noteq> Some ft then Some False
      else if dn_arg n = None \<and> no_arg a then Some True
      else case a of
             None \<Rightarrow> None
           | Some a \<Rightarrow>
               (let stored = (case dn_arg n of None \<Rightarrow> [] | Some bs \<Rightarrow> bs)
                in Some (length stored = fa_len a \<and>
                     (case fa_arg a of None \<Rightarrow> stored = [] | Some bs \<Rightarrow> stored = take (fa_len a) bs))))"

fun find_event :: "nat \<Rightarrow> filter_arg option \<Rightarrow> dforest \<Rightarrow> event list \<Rightarrow> event option option" where
  "find_event ft a g [] = Some None"
| "find_event ft a g (w # ws) =
     (case df_nodes g w of
        None \<Rightarrow> None
      | Some n \<Rightarrow>
          (case same_event ft a n of
             None \<Rightarrow> None
           | Some True \<Rightarrow> Some (Some w)
           | Some False \<Rightarrow> find_event ft a g ws))"

text \<open>
  A node whose argument cannot be copied is freed, and its number given back, but it stays in
  the table.
\<close>

definition mtcp_define_event ::
  "bool \<Rightarrow> bool \<Rightarrow> event \<Rightarrow> nat option \<Rightarrow> filter_arg option \<Rightarrow> dforest \<Rightarrow> (event \<times> dforest) option" where
  "mtcp_define_event alloc_ok alloc_arg ev ft a g =
     (case ft of
        None \<Rightarrow> Some (MOS_NULL_EVENT, g)
      | Some f \<Rightarrow>
          if (case a of None \<Rightarrow> False | Some a \<Rightarrow> fa_len a > 0 \<and> fa_arg a = None) then Some (MOS_NULL_EVENT, g)
          else (case dforest_search ev g of
             None \<Rightarrow> Some (MOS_NULL_EVENT, g)
           | Some p \<Rightarrow>
               (case df_nodes g p of
                  None \<Rightarrow> None
                | Some pn \<Rightarrow>
                    (case find_event f a g (dn_kids pn) of
                       None \<Rightarrow> None
                     | Some (Some w) \<Rightarrow> Some (w, g)
                     | Some None \<Rightarrow>
                         if \<not> alloc_ok then Some (MOS_NULL_EVENT, g)
                         else
                           (let new = g_evid g; g = dforest_store new new (g\<lparr>g_evid := new + 1\<rparr>);
                                arg = (if no_arg a then None else map_option (take (fa_len (the a))) (fa_arg (the a)))
                            in if arg \<noteq> None \<and> \<not> alloc_arg then Some (MOS_NULL_EVENT, g\<lparr>g_evid := new\<rparr>)
                               else Some (new, add_kid p new
                                      (add_node new \<lparr>dn_ft = Some f, dn_arg = arg, dn_parent = Some p, dn_kids = []\<rparr> g)))))))"

section \<open>The trees of registered callbacks\<close>

text \<open>
  A node: event, filter, callback, argument, and its children in order.  The inverse links
  \<open>invk\<close> lead to the same children, since events without filter never get into a tree: they
  are not in the table of the forest.
\<close>

datatype etree =
  ENode (en_ev: event) (en_ft: "nat option") (en_cb: "nat option") (en_arg: "u8 list option") (en_kids: "etree list")

text \<open>\<open>tree_search\<close>: the first node with the event, children after their parent.\<close>

fun tree_search :: "event \<Rightarrow> etree \<Rightarrow> etree option"
  and forest_search :: "event \<Rightarrow> etree list \<Rightarrow> etree option" where
  "tree_search ev (ENode e f c a ks) = (if e = ev then Some (ENode e f c a ks) else forest_search ev ks)"
| "forest_search ev [] = None"
| "forest_search ev (t # ts) = (case tree_search ev t of Some x \<Rightarrow> Some x | None \<Rightarrow> forest_search ev ts)"

text \<open>
  A subtree: its count, identifier and root.  The pointers \<open>bevs\<close> to the built-in events
  are computed from the root: the last child whose event has bit \<open>i\<close> as its highest.
\<close>

record stree =
  st_ref_cnt :: int
  st_id :: u64
  st_root :: etree

record ev_state =
  ev_store :: "nat kvs"
  ev_trees :: "stree list"

definition bevs :: "etree \<Rightarrow> nat \<Rightarrow> etree option" where
  "bevs root i = find (\<lambda>b. drop_bit i (en_ev b) = 1) (rev (en_kids root))"

definition mod_tree :: "nat \<Rightarrow> (stree \<Rightarrow> stree) \<Rightarrow> ev_state \<Rightarrow> ev_state" where
  "mod_tree t f s = s\<lparr>ev_trees := (ev_trees s)[t := f (ev_trees s ! t)]\<rparr>"

text \<open>\<open>stree_dec_ref\<close>: a tree whose count reaches zero is taken out of the store and freed.\<close>

definition stree_release :: "nat \<Rightarrow> ev_state \<Rightarrow> ev_state" where
  "stree_release t s =
     (let s = mod_tree t (\<lambda>st. st\<lparr>st_ref_cnt := st_ref_cnt st - 1\<rparr>) s
      in if st_ref_cnt (ev_trees s ! t) = 0
         then s\<lparr>ev_store := snd (kvs_remove (ev_store s) (st_id (ev_trees s ! t)))\<rparr> else s)"

definition stree_retain :: "nat \<Rightarrow> ev_state \<Rightarrow> ev_state" where
  "stree_retain t s = mod_tree t (\<lambda>st. st\<lparr>st_ref_cnt := st_ref_cnt st + 1\<rparr>) s"

definition release_old :: "nat option \<Rightarrow> ev_state \<Rightarrow> ev_state" where
  "release_old p s = (case p of None \<Rightarrow> s | Some t \<Rightarrow> stree_release t s)"

text \<open>\<open>stree_create\<close>, with the reference count set and the tree put in the store; the result of the
  insertion is not looked at.  A child of the root that is not a built-in event would be stored beyond the end of \<open>bevs\<close>;
  the model leaves it out of the pointers.\<close>

definition stree_install :: "u64 \<Rightarrow> etree \<Rightarrow> ev_state \<Rightarrow> nat \<times> ev_state" where
  "stree_install i root s =
     (let t = length (ev_trees s)
      in (t, s\<lparr>ev_trees := ev_trees s @ [\<lparr>st_ref_cnt = 1, st_id = i, st_root = root\<rparr>],
               ev_store := snd (kvs_insert (ev_store s) i t)\<rparr>))"

section \<open>Registering a callback\<close>

text \<open>
  The spine of an event: a node with the callback, and above it, up to the root, the nodes of
  the event and its ancestors.  The event itself is there twice.
\<close>

partial_function (option) spine_up :: "dforest \<Rightarrow> event \<Rightarrow> etree \<Rightarrow> etree option" where
  "spine_up g w t =
     (case df_nodes g w of
        None \<Rightarrow> None
      | Some n \<Rightarrow>
          (case dn_parent n of
             None \<Rightarrow> Some (ENode w (dn_ft n) None (dn_arg n) [t])
           | Some p \<Rightarrow> spine_up g p (ENode w (dn_ft n) None (dn_arg n) [t])))"

definition create_spine :: "dforest \<Rightarrow> event \<Rightarrow> nat \<Rightarrow> etree option" where
  "create_spine g w cb =
     (case df_nodes g w of
        None \<Rightarrow> None
      | Some n \<Rightarrow> spine_up g w (ENode w (dn_ft n) (Some cb) (dn_arg n) []))"

text \<open>
  The nodes of a tree that nobody else uses are moved into the spine.  What stands before the
  match, or everything where none does, goes in front of the first child one by one, and so
  comes out reversed.
\<close>

fun graft :: "etree list \<Rightarrow> etree list \<Rightarrow> etree list option" where
  "graft [] ks = (if ks = [] then Some [] else None)"
| "graft (ENode e f c a ns # _) ks =
     (case dropWhile (\<lambda>w. en_ev w \<noteq> e) ks of
        [] \<Rightarrow> Some (rev ks @ [ENode e f c a ns])
      | x # after \<Rightarrow>
          if list_ex (\<lambda>w. en_ev w = e) after then None
          else map_option (\<lambda>cs. rev (takeWhile (\<lambda>w. en_ev w \<noteq> e) ks) @ ENode e f (en_cb x) a cs # after)
                 (graft ns (en_kids x)))"

text \<open>
  A tree that is shared is copied, parents before children, below the first node of the
  spine with the parent's event.  The nodes of the spine are met on the way: \<open>sp\<close> are the
  events of those not met yet, the first of them \<open>d\<close> steps down along the first children.
\<close>

fun insert_under :: "event \<Rightarrow> etree \<Rightarrow> etree \<Rightarrow> etree option"
  and insert_among :: "event \<Rightarrow> etree \<Rightarrow> etree list \<Rightarrow> etree list option" where
  "insert_under p t (ENode e f c a ks) =
     (if e = p then Some (ENode e f c a (ks @ [t])) else map_option (ENode e f c a) (insert_among p t ks))"
| "insert_among p t [] = None"
| "insert_among p t (k # ks) =
     (case insert_under p t k of
        Some k' \<Rightarrow> Some (k' # ks)
      | None \<Rightarrow> map_option ((#) k) (insert_among p t ks))"

fun set_first_cb :: "nat \<Rightarrow> nat option \<Rightarrow> etree \<Rightarrow> etree" where
  "set_first_cb 0 cb (ENode e f c a ks) = ENode e f cb a ks"
| "set_first_cb (Suc d) cb (ENode e f c a []) = ENode e f c a []"
| "set_first_cb (Suc d) cb (ENode e f c a (k # ks)) = ENode e f c a (set_first_cb d cb k # ks)"

type_synonym copy_state = "nat \<times> event list \<times> etree"

fun copy_node :: "event option \<Rightarrow> etree \<Rightarrow> copy_state \<Rightarrow> copy_state option"
  and copy_kids :: "event \<Rightarrow> etree list \<Rightarrow> copy_state \<Rightarrow> copy_state option" where
  "copy_node p (ENode e f c a ks) (d, sp, t) =
     (if sp \<noteq> [] \<and> hd sp = e then copy_kids e ks (Suc d, tl sp, set_first_cb d c t)
      else case p of
             None \<Rightarrow> None
           | Some pe \<Rightarrow>
               (case insert_under pe (ENode e f c a []) t of
                  None \<Rightarrow> None
                | Some t \<Rightarrow> copy_kids e ks (d, sp, t)))"
| "copy_kids p [] st = Some st"
| "copy_kids p (k # ks) st = (case copy_node (Some p) k st of None \<Rightarrow> None | Some st \<Rightarrow> copy_kids p ks st)"

fun chain_events :: "etree \<Rightarrow> event list" where
  "chain_events (ENode e f c a []) = [e]"
| "chain_events (ENode e f c a (k # ks)) = e # chain_events k"

definition copy_into :: "etree \<Rightarrow> etree \<Rightarrow> etree option" where
  "copy_into old spine = map_option (\<lambda>(_, _, t). t) (copy_node None old (0, chain_events spine, spine))"

definition graft_into :: "etree \<Rightarrow> etree \<Rightarrow> etree option" where
  "graft_into old spine =
     map_option (ENode (en_ev spine) (en_ft spine) (en_cb spine) (en_arg spine)) (graft (en_kids spine) (en_kids old))"

definition inherit :: "nat option \<Rightarrow> etree \<Rightarrow> ev_state \<Rightarrow> etree option" where
  "inherit p spine s =
     (case p of
        None \<Rightarrow> Some spine
      | Some t \<Rightarrow>
          (let st = ev_trees s ! t
           in if st_ref_cnt st = 1 then graft_into (st_root st) spine else copy_into (st_root st) spine))"

text \<open>\<open>hash\<close> is \<open>hash64\<close> of \<open>util.c\<close>'s \<open>XXH64\<close>.\<close>

definition NEWID :: "(event \<Rightarrow> nat \<Rightarrow> u64) \<Rightarrow> u64 \<Rightarrow> event \<Rightarrow> nat \<Rightarrow> u64" where
  "NEWID hash i ev cb = i XOR hash ev cb"

definition tree_id :: "nat option \<Rightarrow> ev_state \<Rightarrow> u64" where
  "tree_id p s = (case p of None \<Rightarrow> 0 | Some t \<Rightarrow> st_id (ev_trees s ! t))"

definition RegCb ::
  "(event \<Rightarrow> nat \<Rightarrow> u64) \<Rightarrow> dforest \<Rightarrow> bool \<Rightarrow> nat option \<Rightarrow> event \<Rightarrow> nat \<Rightarrow> ev_state \<Rightarrow> (int \<times> nat option \<times> ev_state) option" where
  "RegCb hash g alloc_ok p ev cb s =
     (let nid = NEWID hash (tree_id p s) ev cb in
      case kvs_search (ev_store s) nid of
        Some t \<Rightarrow> Some (0, Some t, stree_retain t (release_old p s))
      | None \<Rightarrow>
          (case Option.bind (dforest_search ev g) (\<lambda>w. create_spine g w cb) of
             None \<Rightarrow> None
           | Some spine \<Rightarrow>
               if \<not> alloc_ok then Some (-1, p, s)
               else (case inherit p spine s of
                       None \<Rightarrow> None
                     | Some root \<Rightarrow>
                         (let (t, s) = stree_install nid root s in Some (0, Some t, release_old p s)))))"

section \<open>Unregistering a callback\<close>

text \<open>Nodes by their positions: the place of each node among its parent's children, from the root down.\<close>

fun search_path :: "event \<Rightarrow> etree \<Rightarrow> nat list option"
  and search_paths :: "event \<Rightarrow> nat \<Rightarrow> etree list \<Rightarrow> nat list option" where
  "search_path ev (ENode e f c a ks) = (if e = ev then Some [] else search_paths ev 0 ks)"
| "search_paths ev i [] = None"
| "search_paths ev i (k # ks) =
     (case search_path ev k of Some p \<Rightarrow> Some (i # p) | None \<Rightarrow> search_paths ev (Suc i) ks)"

fun node_at :: "nat list \<Rightarrow> etree \<Rightarrow> etree" where
  "node_at [] t = t"
| "node_at (i # js) t = node_at js (en_kids t ! i)"

definition TREE_IS_ONLY_CHILD :: "etree \<Rightarrow> nat list \<Rightarrow> bool" where
  "TREE_IS_ONLY_CHILD root path \<longleftrightarrow> path = [] \<or> length (en_kids (node_at (butlast path) root)) = 1"

text \<open>From the parent of the target upwards past the nodes that carry nothing else; \<open>None\<close> is above the root.\<close>

function climb :: "etree \<Rightarrow> nat list \<Rightarrow> nat list option" where
  "climb root path =
     (if en_cb (node_at path root) = None \<and> TREE_IS_ONLY_CHILD root path then
        (if path = [] then None else climb root (butlast path))
      else Some path)"
  by pat_completeness auto
termination by (relation "measure (\<lambda>(_, p). length p)") auto

text \<open>The copy that leaves out what is below the node at \<open>cp\<close>.\<close>

fun copy_cut :: "nat list option \<Rightarrow> event option \<Rightarrow> etree \<Rightarrow> etree option \<Rightarrow> etree option"
  and copy_cut_kids :: "nat list option \<Rightarrow> nat \<Rightarrow> event \<Rightarrow> etree list \<Rightarrow> etree \<Rightarrow> etree option" where
  "copy_cut cp p (ENode e f c a ks) acc =
     (case (case (p, acc) of
              (None, _) \<Rightarrow> Some (ENode e f c a [])
            | (Some pe, Some t) \<Rightarrow> insert_under pe (ENode e f c a []) t
            | (Some pe, None) \<Rightarrow> None) of
        None \<Rightarrow> None
      | Some t \<Rightarrow> if cp = Some [] then Some t else copy_cut_kids cp 0 e ks t)"
| "copy_cut_kids cp i p [] t = Some t"
| "copy_cut_kids cp i p (k # ks) t =
     (case copy_cut (case cp of Some (j # js) \<Rightarrow> if i = j then Some js else None | _ \<Rightarrow> None) (Some p) k (Some t) of
        None \<Rightarrow> None
      | Some t \<Rightarrow> copy_cut_kids cp (Suc i) p ks t)"

text \<open>The path of the target is never empty: the root has no callback.\<close>

definition prune :: "event \<Rightarrow> etree \<Rightarrow> etree option" where
  "prune ev root =
     (case search_path ev root of
        None \<Rightarrow> None
      | Some [] \<Rightarrow> None
      | Some path \<Rightarrow> Option.bind (climb root (butlast path)) (\<lambda>cp. copy_cut (Some cp) None root None))"

definition UnregCb ::
  "(event \<Rightarrow> nat \<Rightarrow> u64) \<Rightarrow> bool \<Rightarrow> nat option \<Rightarrow> event \<Rightarrow> ev_state \<Rightarrow> (int \<times> nat option \<times> ev_state) option" where
  "UnregCb hash alloc_ok p ev s =
     (case p of
        None \<Rightarrow> Some (-1, p, s)
      | Some t0 \<Rightarrow>
          (case tree_search ev (st_root (ev_trees s ! t0)) of
             None \<Rightarrow> Some (-1, p, s)
           | Some target \<Rightarrow>
               (case en_cb target of
                  None \<Rightarrow> Some (-1, p, s)
                | Some cb \<Rightarrow>
                    (let nid = NEWID hash (tree_id p s) ev cb in
                     if nid = 0 then Some (0, None, release_old p s)
                     else case kvs_search (ev_store s) nid of
                            Some t \<Rightarrow> Some (0, Some t, stree_retain t (release_old p s))
                          | None \<Rightarrow>
                              if \<not> alloc_ok then Some (-1, p, s)
                              else (case prune ev (st_root (ev_trees s ! t0)) of
                                      None \<Rightarrow> None
                                    | Some root \<Rightarrow>
                                        (let (t, s) = stree_install nid root s in Some (0, Some t, release_old p s)))))))"

definition ModCb ::
  "(event \<Rightarrow> nat \<Rightarrow> u64) \<Rightarrow> dforest \<Rightarrow> bool \<Rightarrow> nat option \<Rightarrow> event \<Rightarrow> nat option \<Rightarrow> ev_state
    \<Rightarrow> (int \<times> nat option \<times> ev_state) option" where
  "ModCb hash g alloc_ok p ev cb s =
     (if p = None \<and> cb = None then None
      else if ev = 0 then Some (-1, p, s)
      else case cb of
             Some f \<Rightarrow> RegCb hash g alloc_ok p ev f s
           | None \<Rightarrow> UnregCb hash alloc_ok p ev s)"

section \<open>Calling the callbacks\<close>

text \<open>
  \<open>flt\<close> is the outcome of a filter for the event and its argument.  The built-in event
  itself is not filtered.  The result lists the calls in order.  No event can be raised
  from a callback, so the stack of raised events stays empty.
\<close>

fun walk_ev :: "(nat \<Rightarrow> event \<Rightarrow> u8 list option \<Rightarrow> bool) \<Rightarrow> bool \<Rightarrow> etree \<Rightarrow> (nat \<times> event \<times> u8 list option) list" where
  "walk_ev flt is_bev (ENode e f c a ks) =
     (if \<not> is_bev \<and> (case f of None \<Rightarrow> False | Some x \<Rightarrow> \<not> flt x e a) then []
      else (case c of None \<Rightarrow> [] | Some cb \<Rightarrow> [(cb, e, a)]) @ concat (map (walk_ev flt False) ks))"

definition HandleCb :: "(nat \<Rightarrow> event \<Rightarrow> u8 list option \<Rightarrow> bool) \<Rightarrow> etree \<Rightarrow> u64 \<Rightarrow> (nat \<times> event \<times> u8 list option) list" where
  "HandleCb flt root evs =
     concat (map (\<lambda>i. if push_bit i 1 AND evs = 0 then []
                      else case bevs root i of None \<Rightarrow> [] | Some b \<Rightarrow> walk_ev flt True b) [0..<NUM_BEV])"

text \<open>
  \<open>key\<close> is the hash of the event and the tree's identifier.  Only trees are ever put in the
  store; one found under that key would be taken for a node.
\<close>

definition RaiseEv :: "(event \<Rightarrow> u64 \<Rightarrow> u64) \<Rightarrow> nat \<Rightarrow> event \<Rightarrow> ev_state \<Rightarrow> int option" where
  "RaiseEv key cur ev s =
     (case kvs_search (ev_store s) (key ev (st_id (ev_trees s ! cur))) of None \<Rightarrow> Some (-1) | Some _ \<Rightarrow> None)"

section \<open>The call of the application\<close>

definition POWER_OF_TWO :: "event \<Rightarrow> bool" where "POWER_OF_TWO x \<longleftrightarrow> (x - 1) AND x = 0"

definition bev_limit :: event where "bev_limit = push_bit NUM_BEV 1"

text \<open>
  The event the hook is checked against: for an event with a filter the parent's number,
  whether that is a built-in event or not.  \<open>Inl\<close> is a return of \<open>-1\<close>.
\<close>

definition hook_event :: "dforest \<Rightarrow> event \<Rightarrow> (errno + event) option" where
  "hook_event g ev =
     (if ev < bev_limit then Some (Inr ev)
      else case dforest_search ev g of
             None \<Rightarrow> Some (Inl NO_ERRNO)
           | Some w \<Rightarrow>
               (case Option.bind (df_nodes g w) dn_parent of
                  None \<Rightarrow> None
                | Some p \<Rightarrow> Some (if p = MOS_NULL_EVENT then Inl NO_ERRNO else Inr p)))"

definition hook_valid :: "u32 \<Rightarrow> event \<Rightarrow> bool" where
  "hook_valid hook r \<longleftrightarrow>
     (if hook = MOS_NULL
      then r AND (MOS_ON_CONN_START OR MOS_ON_REXMIT OR MOS_ON_TCP_STATE_CHANGE OR MOS_ON_CONN_END) = 0
      else if hook = MOS_HK_RCV \<or> hook = MOS_HK_SND
      then r AND (MOS_ON_CONN_NEW_DATA OR MOS_ON_ORPHAN OR MOS_ON_ERROR) = 0
      else False)"

definition hook_slot :: "u32 \<Rightarrow> nat" where
  "hook_slot hook = (if hook = MOS_NULL then 0 else if hook = MOS_HK_RCV then 1 else 2)"

definition socket_strees :: "ref \<Rightarrow> mtcp_manager \<Rightarrow> nat option list option" where
  "socket_strees k m =
     (case socktype (msmap m k) of
        MOS_SOCK_MONITOR_STREAM_ACTIVE \<Rightarrow> Some (ms_strees (sk_mon (msmap m k)))
      | MOS_SOCK_MONITOR_STREAM \<Rightarrow> Some (ml_strees (mlisteners m k))
      | MOS_SOCK_MONITOR_RAW \<Rightarrow> Some (ml_strees (mlisteners m k))
      | _ \<Rightarrow> None)"

definition set_strees :: "ref \<Rightarrow> nat option list \<Rightarrow> mtcp_manager \<Rightarrow> mtcp_manager" where
  "set_strees k ts m =
     (if socktype (msmap m k) = MOS_SOCK_MONITOR_STREAM_ACTIVE then mod_msock k (mod_mon (\<lambda>d. d\<lparr>ms_strees := ts\<rparr>)) m
      else m\<lparr>mlisteners := (mlisteners m)(k := (mlisteners m k)\<lparr>ml_strees := ts\<rparr>)\<rparr>)"

definition mtcp_register_callback ::
  "mos_config \<Rightarrow> (event \<Rightarrow> nat \<Rightarrow> u64) \<Rightarrow> dforest \<Rightarrow> bool \<Rightarrow> int \<Rightarrow> event \<Rightarrow> u32 \<Rightarrow> nat option
    \<Rightarrow> mtcp_manager \<times> ev_state \<Rightarrow> ((errno + int) \<times> mtcp_manager \<times> ev_state) option" where
  "mtcp_register_callback cfg hash g alloc_ok sockid ev hook cb ms =
     (if ev = MOS_NULL_EVENT \<or> (ev < bev_limit \<and> \<not> POWER_OF_TWO ev) then Some (Inl NO_ERRNO, ms)
      else case hook_event g ev of
             None \<Rightarrow> None
           | Some (Inl e) \<Rightarrow> Some (Inl e, ms)
           | Some (Inr r) \<Rightarrow>
               if \<not> hook_valid hook r then Some (Inl EINVAL, ms)
               else case GetSocket cfg sockid of
                      None \<Rightarrow> None
                    | Some k \<Rightarrow>
                        (case socket_strees k (fst ms) of
                           None \<Rightarrow> Some (Inl EINVAL, ms)
                         | Some ts \<Rightarrow>
                             map_option (\<lambda>(ret, p, s).
                                 (if ret < 0 then Inl NO_ERRNO else Inr ret,
                                  set_strees k (ts[hook_slot hook := p]) (fst ms), s))
                               (ModCb hash g alloc_ok (ts ! hook_slot hook) ev cb (snd ms))))"

definition mtcp_unregister_callback ::
  "mos_config \<Rightarrow> (event \<Rightarrow> nat \<Rightarrow> u64) \<Rightarrow> dforest \<Rightarrow> bool \<Rightarrow> int \<Rightarrow> event \<Rightarrow> u32
    \<Rightarrow> mtcp_manager \<times> ev_state \<Rightarrow> ((errno + int) \<times> mtcp_manager \<times> ev_state) option" where
  "mtcp_unregister_callback cfg hash g alloc_ok sockid ev hook ms =
     mtcp_register_callback cfg hash g alloc_ok sockid ev hook None ms"

end
