(* ===== verification/Event_Facts.thy ===== *)
theory Event_Facts
  imports Event_Tree
begin

text \<open>
  What the trees of callbacks look like, and what registration and dispatch do with them.  A
  tree is a part of the forest; the callback of an event hangs below the event's own node in
  a node with the same event.  Seen as the set of its pairs of event and callback, a tree
  is what was registered.
\<close>

section \<open>The forest\<close>

definition par :: "dforest \<Rightarrow> event \<Rightarrow> event option" where
  "par g e = Option.bind (df_nodes g e) dn_parent"

definition ft_of :: "dforest \<Rightarrow> event \<Rightarrow> nat option" where
  "ft_of g e = (case df_nodes g e of None \<Rightarrow> None | Some n \<Rightarrow> dn_ft n)"

definition arg_of :: "dforest \<Rightarrow> event \<Rightarrow> u8 list option" where
  "arg_of g e = (case df_nodes g e of None \<Rightarrow> None | Some n \<Rightarrow> dn_arg n)"

text \<open>Events are numbered as they are made, so a parent has the smaller number; the table knows the nodes by their numbers.\<close>

definition forest_ok :: "dforest \<Rightarrow> bool" where
  "forest_ok g \<longleftrightarrow>
     (\<forall>e p. par g e = Some p \<longrightarrow> p < e \<and> df_nodes g p \<noteq> None) \<and>
     (\<forall>e. df_nodes g e \<noteq> None \<and> par g e = None \<longrightarrow> e = 0) \<and>
     (\<forall>e w. dforest_search e g = Some w \<longrightarrow> w = e \<and> df_nodes g e \<noteq> None)"

abbreviation below :: "dforest \<Rightarrow> event \<Rightarrow> event \<Rightarrow> bool" where
  "below g \<equiv> (\<lambda>a b. par g b = Some a)\<^sup>*\<^sup>*"

lemma par_less: "forest_ok g \<Longrightarrow> par g e = Some p \<Longrightarrow> p < e"
  by (simp add: forest_ok_def)

lemma below_le:
  assumes "forest_ok g" "below g a b"
  shows "a \<le> b"
  using assms(2) by (induction rule: rtranclp_induct) (auto dest: par_less[OF assms(1)])

lemma below_linear:
  assumes "below g a x" "below g b x"
  shows "below g a b \<or> below g b a"
  using assms
proof (induction rule: rtranclp_induct)
  case (step y z)
  from step.prems show ?case
  proof (cases rule: rtranclp.cases)
    case rtrancl_refl
    then show ?thesis using step.hyps by (auto intro: rtranclp.rtrancl_into_rtrancl)
  next
    case (rtrancl_into_rtrancl y')
    then show ?thesis using step by simp
  qed
qed blast

text \<open>Siblings have nothing below them in common.\<close>

lemma below_sibling:
  assumes f: "forest_ok g" and "par g a = Some p" "par g b = Some p" "below g a x" "below g b x"
  shows "a = b"
proof -
  have *: "a' = b'" if "par g a' = Some p" "par g b' = Some p" "below g a' b'" for a' b'
    using that(3)
  proof (cases rule: rtranclp.cases)
    case (rtrancl_into_rtrancl y)
    then have "below g a' p" using that(2) by simp
    then show ?thesis using below_le[OF f] par_less[OF f that(1)] by fastforce
  qed simp
  show ?thesis using below_linear[OF assms(4,5)] * assms(2,3) by metis
qed

section \<open>The shape of a tree\<close>

fun outs :: "etree \<Rightarrow> event set" where
  "outs (ENode e f c a ks) = (if c = None then {e} else {}) \<union> (\<Union>k \<in> set ks. outs k)"

fun regs :: "etree \<Rightarrow> (event \<times> nat) set" where
  "regs (ENode e f c a ks) = (case c of None \<Rightarrow> {} | Some x \<Rightarrow> {(e, x)}) \<union> (\<Union>k \<in> set ks. regs k)"

definition own_leaf :: "dforest \<Rightarrow> event \<Rightarrow> etree \<Rightarrow> bool" where
  "own_leaf g p k \<longleftrightarrow> (\<exists>c. k = ENode p (ft_of g p) (Some c) (arg_of g p) [])"

fun wf_tree :: "dforest \<Rightarrow> etree \<Rightarrow> bool" where
  "wf_tree g (ENode e f c a ks) \<longleftrightarrow>
     c = None \<and> f = ft_of g e \<and> a = arg_of g e \<and> df_nodes g e \<noteq> None \<and> distinct (map en_ev ks)
     \<and> (\<forall>k \<in> set ks. own_leaf g e k \<or> par g (en_ev k) = Some e \<and> wf_tree g k)"

definition wf_root :: "dforest \<Rightarrow> etree \<Rightarrow> bool" where
  "wf_root g t \<longleftrightarrow> wf_tree g t \<and> en_ev t = 0 \<and> 0 \<notin> fst ` regs t"

lemma own_leaf_simps [simp]:
  "own_leaf g p k \<Longrightarrow> en_ev k = p" "own_leaf g p k \<Longrightarrow> en_kids k = []" "own_leaf g p k \<Longrightarrow> outs k = {}"
  by (auto simp: own_leaf_def)

lemma own_leaf_regs: "own_leaf g p k \<Longrightarrow> \<exists>c. en_cb k = Some c \<and> regs k = {(p, c)}"
  by (auto simp: own_leaf_def)

lemma wf_tree_cb: "wf_tree g t \<Longrightarrow> en_cb t = None"
  by (cases t) simp

lemma wf_outs: "wf_tree g t \<Longrightarrow> x \<in> outs t \<Longrightarrow> below g (en_ev t) x"
proof (induction t)
  case (ENode e f c a ks)
  show ?case
  proof (cases "x = e")
    case False
    then obtain k where k: "k \<in> set ks" "x \<in> outs k" using ENode.prems by (auto split: if_splits)
    then have "par g (en_ev k) = Some e" "wf_tree g k" using ENode.prems by auto
    then show ?thesis using ENode.IH[OF k(1)] k(2) by (auto intro: converse_rtranclp_into_rtranclp)
  qed simp
qed

lemma wf_root_out: "wf_tree g t \<Longrightarrow> en_ev t \<in> outs t"
  by (cases t) simp

lemma wf_regs: "wf_tree g t \<Longrightarrow> (x, c) \<in> regs t \<Longrightarrow> x \<in> outs t"
proof (induction t)
  case (ENode e f c' a ks)
  then obtain k where k: "k \<in> set ks" "(x, c) \<in> regs k" by (auto split: option.splits)
  show ?case
  proof (cases "own_leaf g e k")
    case True
    then show ?thesis using own_leaf_regs[OF True] k(2) ENode.prems(1) by auto
  next
    case False
    then show ?thesis using ENode k by auto
  qed
qed

text \<open>The kids of a node have nothing in common, and the node's own event is in none of them.\<close>

lemma kid_not_parent:
  assumes "forest_ok g" "wf_tree g k" "par g (en_ev k) = Some e"
  shows "e \<notin> outs k"
  using wf_outs[OF assms(2)] below_le[OF assms(1)] par_less[OF assms(1,3)] by fastforce

lemma kids_disjoint:
  assumes "forest_ok g" "par g (en_ev k) = Some e" "par g (en_ev k') = Some e" "wf_tree g k" "wf_tree g k'"
    "x \<in> outs k" "x \<in> outs k'"
  shows "en_ev k = en_ev k'"
  using below_sibling[OF assms(1-3) wf_outs[OF assms(4,6)] wf_outs[OF assms(5,7)]] .

section \<open>The spine\<close>

fun wrap :: "dforest \<Rightarrow> event list \<Rightarrow> etree \<Rightarrow> etree" where
  "wrap g [] t = t"
| "wrap g (e # es) t = ENode e (ft_of g e) None (arg_of g e) [wrap g es t]"

lemma wrap_append: "wrap g (es @ [e]) t = wrap g es (ENode e (ft_of g e) None (arg_of g e) [t])"
  by (induction es) auto

text \<open>The way down from \<open>p\<close>, without \<open>p\<close>, to \<open>ev\<close>.\<close>

fun down :: "dforest \<Rightarrow> event \<Rightarrow> event list \<Rightarrow> event \<Rightarrow> bool" where
  "down g p [] ev \<longleftrightarrow> p = ev"
| "down g p (e # es) ev \<longleftrightarrow> par g e = Some p \<and> df_nodes g e \<noteq> None \<and> down g e es ev"

lemma down_append: "down g p es e \<Longrightarrow> par g ev = Some e \<Longrightarrow> df_nodes g ev \<noteq> None \<Longrightarrow> down g p (es @ [ev]) ev"
  by (induction es arbitrary: p) auto

lemma down_below: "down g p es ev \<Longrightarrow> x \<in> set (p # es) \<Longrightarrow> below g x ev \<and> below g p x"
proof (induction es arbitrary: p x)
  case (Cons e es)
  have e: "below g e ev" "below g p e" using Cons.IH[of e e] Cons.prems(1) by auto
  show ?case
  proof (cases "x = p")
    case True
    then show ?thesis using e by auto
  next
    case False
    then have "below g x ev \<and> below g e x" using Cons.IH[of e x] Cons.prems by auto
    then show ?thesis using e(2) by auto
  qed
qed simp

lemma spine_up_wrap:
  assumes f: "forest_ok g" and "df_nodes g w \<noteq> None"
  shows "\<exists>es. spine_up g w t = Some (wrap g (0 # es) t) \<and> down g 0 es w"
  using assms(2)
proof (induction w arbitrary: t rule: less_induct)
  case (less w)
  obtain n where n: "df_nodes g w = Some n" using less.prems by auto
  have fa: "ft_of g w = dn_ft n" "arg_of g w = dn_arg n" "par g w = dn_parent n"
    by (simp_all add: ft_of_def arg_of_def par_def n)
  show ?case
  proof (cases "dn_parent n")
    case None
    then have "w = 0" using f n fa(3) unfolding forest_ok_def by force
    then show ?thesis using n None fa by (intro exI[of _ "[]"]) (simp add: spine_up.simps)
  next
    case (Some p)
    then have p: "p < w" "df_nodes g p \<noteq> None" using f fa(3) by (auto simp: forest_ok_def)
    obtain es where es: "spine_up g p (ENode w (ft_of g w) None (arg_of g w) [t]) = Some (wrap g (0 # es) (ENode w (ft_of g w) None (arg_of g w) [t]))"
      "down g 0 es p" using less.IH[OF p] by blast
    have "spine_up g w t = Some (wrap g (0 # (es @ [w])) t)"
      using es(1) n Some fa wrap_append[of g "0 # es" w t] by (simp add: spine_up.simps[of g w])
    moreover have "down g 0 (es @ [w]) w" using down_append[OF es(2), of w] fa(3) Some n by simp
    ultimately show ?thesis by blast
  qed
qed

definition leaf :: "dforest \<Rightarrow> event \<Rightarrow> nat \<Rightarrow> etree" where
  "leaf g e cb = ENode e (ft_of g e) (Some cb) (arg_of g e) []"

lemma create_spine_wrap:
  assumes "forest_ok g" "df_nodes g w \<noteq> None"
  shows "\<exists>es. create_spine g w cb = Some (wrap g (0 # es) (leaf g w cb)) \<and> down g 0 es w"
  using spine_up_wrap[OF assms, of "leaf g w cb"] assms(2)
  by (auto simp: create_spine_def leaf_def ft_of_def arg_of_def)

lemma wrap_ev [simp]: "en_ev (wrap g es (leaf g ev cb)) = hd (es @ [ev])"
  by (cases es) (auto simp: leaf_def)

lemma wrap_regs [simp]: "regs (wrap g es (leaf g ev cb)) = {(ev, cb)}"
  by (induction es) (auto simp: leaf_def)

lemma wrap_outs [simp]: "outs (wrap g es (leaf g ev cb)) = set es"
  by (induction es) (auto simp: leaf_def)

lemma own_leaf_leaf [simp]: "own_leaf g e (leaf g e cb)"
  by (simp add: own_leaf_def leaf_def)

lemma wrap_wf: "down g p es ev \<Longrightarrow> df_nodes g p \<noteq> None \<Longrightarrow> wf_tree g (wrap g (p # es) (leaf g ev cb))"
  by (induction es arbitrary: p) auto

section \<open>Moving the nodes of a tree\<close>

definition kids_ok :: "dforest \<Rightarrow> event \<Rightarrow> etree list \<Rightarrow> bool" where
  "kids_ok g e ks \<longleftrightarrow> distinct (map en_ev ks)
     \<and> (\<forall>k \<in> set ks. own_leaf g e k \<or> par g (en_ev k) = Some e \<and> wf_tree g k)"

definition kouts :: "etree list \<Rightarrow> event set" where "kouts ks = (\<Union>k \<in> set ks. outs k)"

definition kregs :: "etree list \<Rightarrow> (event \<times> nat) set" where "kregs ks = (\<Union>k \<in> set ks. regs k)"

lemma wf_tree_kids:
  "wf_tree g (ENode e f c a ks) \<longleftrightarrow> c = None \<and> f = ft_of g e \<and> a = arg_of g e \<and> df_nodes g e \<noteq> None \<and> kids_ok g e ks"
  by (auto simp: kids_ok_def)

lemma kouts_simps [simp]: "kouts [] = {}" "kouts (k # ks) = outs k \<union> kouts ks" "kouts (ks @ ks') = kouts ks \<union> kouts ks'"
    "kouts (rev ks) = kouts ks"
  by (auto simp: kouts_def)

lemma kregs_simps [simp]: "kregs [] = {}" "kregs (k # ks) = regs k \<union> kregs ks" "kregs (ks @ ks') = kregs ks \<union> kregs ks'"
    "kregs (rev ks) = kregs ks"
  by (auto simp: kregs_def)

lemma outs_regs_kids:
  "outs (ENode e f None a ks) = insert e (kouts ks)" "regs (ENode e f None a ks) = kregs ks"
  by (auto simp: kouts_def kregs_def)

lemma kids_ok_cong: "kids_ok g e ks \<Longrightarrow> set ks' = set ks \<Longrightarrow> distinct (map en_ev ks') \<Longrightarrow> kids_ok g e ks'"
  by (simp add: kids_ok_def)

lemma kids_ok_extend:
  assumes "kids_ok g e ks" "own_leaf g e k \<or> par g (en_ev k) = Some e \<and> wf_tree g k" "en_ev k \<notin> en_ev ` set ks"
  shows "kids_ok g e (ks @ [k])" "kids_ok g e (rev ks @ [k])"
  using assms by (auto simp: kids_ok_def rev_map[symmetric])

lemma graft_ok:
  assumes f: "forest_ok g"
  shows "kids_ok g p ks \<Longrightarrow> down g p es w \<Longrightarrow> df_nodes g p \<noteq> None \<Longrightarrow> w \<notin> fst ` kregs ks \<Longrightarrow>
    \<exists>ks'. graft [wrap g es (leaf g w cb)] ks = Some ks' \<and> kids_ok g p ks'
       \<and> kregs ks' = insert (w, cb) (kregs ks)"
proof (induction es arbitrary: p ks)
  case Nil
  then have p: "p = w" by simp
  have none: "en_ev k \<noteq> w" if k: "k \<in> set ks" for k
  proof
    assume ev: "en_ev k = w"
    then have "own_leaf g w k" using Nil.prems(1) k p par_less[OF f] by (fastforce simp: kids_ok_def)
    then show False using own_leaf_regs Nil.prems(4) k by (force simp: kregs_def)
  qed
  have d: "dropWhile (\<lambda>k. en_ev k \<noteq> w) ks = []" using none by simp
  have "graft [leaf g w cb] ks = Some (rev ks @ [leaf g w cb])" by (simp add: leaf_def d)
  moreover have "kids_ok g w (rev ks @ [leaf g w cb])"
  proof (rule kids_ok_extend(2))
    show "kids_ok g w ks" using Nil.prems(1) p by simp
    show "own_leaf g w (leaf g w cb) \<or> par g (en_ev (leaf g w cb)) = Some w \<and> wf_tree g (leaf g w cb)" by simp
    show "en_ev (leaf g w cb) \<notin> en_ev ` set ks" using none by (auto simp: leaf_def)
  qed
  ultimately show ?case using p wrap_regs[of g "[]" w cb] by simp
next
  case (Cons e es)
  have pe: "par g e = Some p" "df_nodes g e \<noteq> None" "down g e es w" using Cons.prems(2) by auto
  define t where "t = wrap g (e # es) (leaf g w cb)"
  have t: "t = ENode e (ft_of g e) None (arg_of g e) [wrap g es (leaf g w cb)]" by (simp add: t_def)
  have twf: "wf_tree g t" "regs t = {(w, cb)}" "en_ev t = e"
    unfolding t_def using wrap_wf[OF pe(3,2)] wrap_regs[of g "e # es" w cb] by (simp_all del: wrap.simps)
  show ?case
  proof (cases "dropWhile (\<lambda>k. en_ev k \<noteq> e) ks")
    case Nil
    then have "en_ev t \<notin> en_ev ` set ks" using twf(3) by (auto simp: dropWhile_eq_Nil_conv)
    then have "kids_ok g p (rev ks @ [t])" using kids_ok_extend(2)[OF Cons.prems(1)] twf pe(1) by simp
    moreover have "graft [t] ks = Some (rev ks @ [t])" by (simp add: t Nil)
    ultimately show ?thesis using twf(2) by (simp add: t_def del: wrap.simps)
  next
    case (Cons x after)
    define before where "before = takeWhile (\<lambda>k. en_ev k \<noteq> e) ks"
    have ks: "ks = before @ x # after" unfolding before_def using Cons takeWhile_dropWhile_id by metis
    have x: "en_ev x = e" using Cons hd_dropWhile[of "\<lambda>k. en_ev k \<noteq> e" ks] by force
    have d: "distinct (map en_ev before @ e # map en_ev after)" using Cons.prems(1) ks x by (simp add: kids_ok_def)
    have xw: "wf_tree g x"
    proof -
      have "\<not> own_leaf g p x" using x par_less[OF f pe(1)] by auto
      then show ?thesis using Cons.prems(1) ks by (auto simp: kids_ok_def)
    qed
    obtain xs where xs: "x = ENode e (ft_of g e) None (arg_of g e) xs" using xw x by (cases x) auto
    have xk: "kids_ok g e xs" "w \<notin> fst ` kregs xs"
      using xw Cons.prems(4) unfolding xs wf_tree_kids ks by (simp_all add: kregs_def image_Un)
    obtain ys where ys: "graft [wrap g es (leaf g w cb)] xs = Some ys" "kids_ok g e ys" "kregs ys = insert (w, cb) (kregs xs)"
      using Cons.IH[OF xk(1) pe(3,2) xk(2)] by auto
    define y where "y = ENode e (ft_of g e) None (arg_of g e) ys"
    have "graft [t] ks = Some (rev before @ y # after)"
      unfolding t using Cons d ys(1) by (auto simp: before_def[symmetric] xs y_def list_ex_iff)
    moreover have "kids_ok g p (rev before @ y # after)"
      using Cons.prems(1) d pe ys(2) wf_tree_kids[of g e "ft_of g e" None "arg_of g e" ys]
      unfolding ks by (auto simp: kids_ok_def y_def rev_map[symmetric] simp del: wf_tree.simps)
    moreover have "kregs (rev before @ y # after) = insert (w, cb) (kregs ks)"
      using ys(3) by (auto simp: ks y_def xs outs_regs_kids simp del: regs.simps)
    ultimately show ?thesis by (simp add: t_def del: wrap.simps)
  qed
qed

lemma graft_into_ok:
  assumes "forest_ok g" "wf_tree g old" "en_ev old = 0" "w \<notin> fst ` regs old" "down g 0 es w"
  shows "\<exists>t. graft_into old (wrap g (0 # es) (leaf g w cb)) = Some t \<and> wf_tree g t \<and> en_ev t = 0
    \<and> regs t = insert (w, cb) (regs old)"
proof -
  obtain ks where old: "old = ENode 0 (ft_of g 0) None (arg_of g 0) ks" "kids_ok g 0 ks" "df_nodes g 0 \<noteq> None"
    using assms(2,3) wf_tree_kids by (cases old) auto
  have "w \<notin> fst ` kregs ks" using assms(4) by (simp add: old outs_regs_kids del: regs.simps)
  then obtain ks' where ks': "graft [wrap g es (leaf g w cb)] ks = Some ks'" "kids_ok g 0 ks'" "kregs ks' = insert (w, cb) (kregs ks)"
    using graft_ok[OF assms(1) old(2) assms(5) old(3), of cb] by blast
  have "graft_into old (wrap g (0 # es) (leaf g w cb)) = Some (ENode 0 (ft_of g 0) None (arg_of g 0) ks')"
    using ks'(1) by (simp add: graft_into_def old(1))
  moreover have "wf_tree g (ENode 0 (ft_of g 0) None (arg_of g 0) ks')"
    using ks'(2) old(3) unfolding wf_tree_kids by simp
  ultimately show ?thesis
    using ks'(3) old(1) outs_regs_kids(2)[of 0 _ _ ks'] outs_regs_kids(2)[of 0 _ _ ks]
    by (simp del: regs.simps wf_tree.simps)
qed

section \<open>Copying the nodes of a tree\<close>

fun leafy :: "etree \<Rightarrow> bool" where
  "leafy (ENode e f c a []) \<longleftrightarrow> c \<noteq> None"
| "leafy (ENode e f c a (k # ks)) \<longleftrightarrow> leafy k"

text \<open>What a copied part adds to a tree, the first branch of which stays as it is.\<close>

definition tree_grown :: "dforest \<Rightarrow> etree \<Rightarrow> etree \<Rightarrow> event set \<Rightarrow> (event \<times> nat) set \<Rightarrow> bool" where
  "tree_grown g t t' es rs \<longleftrightarrow> wf_tree g t' \<and> (leafy t \<longrightarrow> leafy t' \<and> chain_events t' = chain_events t) \<and> en_ev t' = en_ev t
     \<and> outs t' = outs t \<union> es \<and> regs t' = regs t \<union> rs"

lemma tree_grown_trans: "tree_grown g t u es rs \<Longrightarrow> tree_grown g u v es' rs' \<Longrightarrow> tree_grown g t v (es \<union> es') (rs \<union> rs')"
  by (auto simp: tree_grown_def)

lemma insert_under_none:
  "wf_tree g t \<Longrightarrow> p \<notin> outs t \<Longrightarrow> insert_under p n t = None"
  "kids_ok g e ks \<Longrightarrow> p \<noteq> e \<Longrightarrow> p \<notin> kouts ks \<Longrightarrow> insert_among p n ks = None"
proof (induction p n t and p n ks arbitrary: and e rule: insert_under_insert_among.induct)
  case (1 p n e f c a ks)
  then show ?case by (auto simp: wf_tree_kids outs_regs_kids simp del: wf_tree.simps outs.simps)
next
  case (3 p n k ks)
  have ks: "kids_ok g e ks" using 3(3) by (simp add: kids_ok_def)
  have "insert_under p n k = None"
  proof (cases "own_leaf g e k")
    case True
    then show ?thesis using 3(4) by (auto simp: own_leaf_def)
  next
    case False
    then show ?thesis using 3(1,3,5) by (simp add: kids_ok_def)
  qed
  then show ?case using 3 ks by simp
qed simp

lemma insert_among_at:
  "insert_under p n k = Some k' \<Longrightarrow> \<forall>b \<in> set bs. insert_under p n b = None \<Longrightarrow>
   insert_among p n (bs @ k # as) = Some (bs @ k' # as)"
  by (induction bs) auto

lemma kids_okD: "kids_ok g e ks \<Longrightarrow> k \<in> set ks \<Longrightarrow> own_leaf g e k \<or> par g (en_ev k) = Some e \<and> wf_tree g k"
  by (simp add: kids_ok_def)

lemma insert_at_node:
  assumes f: "forest_ok g" and t: "wf_tree g (ENode e f c a ks)"
    and n: "own_leaf g e n \<and> e \<notin> fst ` regs (ENode e f c a ks) \<or> par g (en_ev n) = Some e \<and> wf_tree g n \<and> en_ev n \<notin> outs (ENode e f c a ks)"
  shows "tree_grown g (ENode e f c a ks) (ENode e f c a (ks @ [n])) (outs n) (regs n)"
proof -
  have wf: "c = None" "kids_ok g e ks" using t unfolding wf_tree_kids by auto
  have n: "own_leaf g e n \<and> e \<notin> fst ` kregs ks \<or> par g (en_ev n) = Some e \<and> wf_tree g n \<and> en_ev n \<notin> insert e (kouts ks)"
    using n unfolding wf(1) outs_regs_kids .
  have new: "en_ev n \<noteq> en_ev k" if k: "k \<in> set ks" for k
  proof (cases "own_leaf g e k")
    case True
    then have "en_ev k = e" "e \<in> fst ` kregs ks" using own_leaf_regs[OF True] k by (force simp: kregs_def)+
    then show ?thesis using n by auto
  next
    case False
    then have kk: "par g (en_ev k) = Some e" "wf_tree g k" using kids_okD[OF wf(2) k] by auto
    then have "en_ev k \<noteq> e" using par_less[OF f] by blast
    moreover have "en_ev k \<in> kouts ks" using wf_root_out[OF kk(2)] k by (auto simp: kouts_def)
    ultimately show ?thesis using n by auto
  qed
  have "kids_ok g e (ks @ [n])" using kids_ok_extend(1)[OF wf(2), of n] n new by blast
  then have "wf_tree g (ENode e f c a (ks @ [n]))" using t unfolding wf_tree_kids by simp
  moreover have "leafy (ENode e f c a ks) \<longrightarrow> leafy (ENode e f c a (ks @ [n])) \<and> chain_events (ENode e f c a (ks @ [n])) = chain_events (ENode e f c a ks)"
    using wf(1) by (cases ks) simp_all
  ultimately show ?thesis unfolding tree_grown_def wf(1) outs_regs_kids by auto
qed

lemma tree_grown_kid:
  assumes "wf_tree g (ENode e f c a (bs @ k # as))" "par g (en_ev k) = Some e" "tree_grown g k k' es rs"
  shows "tree_grown g (ENode e f c a (bs @ k # as)) (ENode e f c a (bs @ k' # as)) es rs"
proof -
  have c: "c = None" "kids_ok g e (bs @ k # as)" using assms(1) unfolding wf_tree_kids by auto
  have k': "wf_tree g k'" "en_ev k' = en_ev k" using assms(3) by (auto simp: tree_grown_def)
  have "kids_ok g e (bs @ k' # as)" using c(2) k' assms(2) by (simp add: kids_ok_def)
  then have "wf_tree g (ENode e f c a (bs @ k' # as))" using assms(1) unfolding wf_tree_kids by simp
  moreover have "leafy (ENode e f c a (bs @ k # as)) \<longrightarrow> leafy (ENode e f c a (bs @ k' # as))
      \<and> chain_events (ENode e f c a (bs @ k' # as)) = chain_events (ENode e f c a (bs @ k # as))"
    using assms(3) by (cases bs) (simp_all add: tree_grown_def)
  ultimately show ?thesis using assms(3) unfolding tree_grown_def c(1) outs_regs_kids by auto
qed

lemma insert_under_ok:
  assumes f: "forest_ok g"
  shows "wf_tree g t \<Longrightarrow> p \<in> outs t \<Longrightarrow>
    own_leaf g p n \<and> p \<notin> fst ` regs t \<or> par g (en_ev n) = Some p \<and> wf_tree g n \<and> en_ev n \<notin> outs t \<Longrightarrow>
    \<exists>t'. insert_under p n t = Some t' \<and> tree_grown g t t' (outs n) (regs n)"
proof (induction t)
  case (ENode e f' c a ks)
  have wf: "c = None" "kids_ok g e ks" using ENode.prems(1) unfolding wf_tree_kids by auto
  show ?case
  proof (cases "e = p")
    case True
    then show ?thesis using insert_at_node[OF f ENode.prems(1), of n] ENode.prems(3) by simp
  next
    case False
    then have "p \<in> kouts ks" using ENode.prems(2) unfolding wf(1) outs_regs_kids by simp
    then obtain bs k as where ks: "ks = bs @ k # as" "p \<in> outs k" "\<forall>b \<in> set bs. p \<notin> outs b"
      using split_list_first_prop[of ks "\<lambda>k. p \<in> outs k"] by (auto simp: kouts_def)
    have k: "par g (en_ev k) = Some e" "wf_tree g k" "k \<in> set ks" using kids_okD[OF wf(2), of k] ks by auto
    have "outs k \<subseteq> outs (ENode e f' c a ks)" "regs k \<subseteq> regs (ENode e f' c a ks)" using k(3) by auto
    then obtain k' where k': "insert_under p n k = Some k'" "tree_grown g k k' (outs n) (regs n)"
      using ENode.IH[OF k(3,2) ks(2)] ENode.prems(3) by blast
    have "\<forall>b \<in> set bs. insert_under p n b = None"
    proof
      fix b assume b: "b \<in> set bs"
      then have "own_leaf g e b \<or> wf_tree g b" using kids_okD[OF wf(2), of b] ks(1) by auto
      then show "insert_under p n b = None" using insert_under_none(1)[of g b p n] ks(3) b False by (auto simp: own_leaf_def)
    qed
    then have "insert_under p n (ENode e f' c a ks) = Some (ENode e f' c a (bs @ k' # as))"
      using False insert_among_at[OF k'(1)] by (simp add: ks(1))
    then show ?thesis using tree_grown_kid[OF _ k(1) k'(2), of f' c a bs as] ENode.prems(1) ks(1) by blast
  qed
qed

text \<open>The nodes away from the spine.\<close>

definition apart :: "dforest \<Rightarrow> event \<Rightarrow> etree \<Rightarrow> etree \<Rightarrow> bool" where
  "apart g e k t \<longleftrightarrow> wf_tree g t \<and> e \<in> outs t \<and> outs t \<inter> outs k = {} \<and> (own_leaf g e k \<longrightarrow> e \<notin> fst ` regs t)"

lemma regs_fst: "wf_tree g t \<Longrightarrow> e \<notin> outs t \<Longrightarrow> e \<notin> fst ` regs t"
  using wf_regs by force

lemma kids_ok_Cons:
  "kids_ok g e (k # ks) \<longleftrightarrow> (own_leaf g e k \<or> par g (en_ev k) = Some e \<and> wf_tree g k) \<and> en_ev k \<notin> en_ev ` set ks \<and> kids_ok g e ks"
  by (auto simp: kids_ok_def)

lemma kids_ok_disjoint:
  assumes f: "forest_ok g" and ks: "kids_ok g e ks" "k \<in> set ks" "k' \<in> set ks" "en_ev k \<noteq> en_ev k'"
  shows "outs k \<inter> outs k' = {}"
proof (cases "own_leaf g e k \<or> own_leaf g e k'")
  case False
  have k: "par g (en_ev k) = Some e" "wf_tree g k" using kids_okD[OF ks(1,2)] False by simp_all
  have k': "par g (en_ev k') = Some e" "wf_tree g k'" using kids_okD[OF ks(1,3)] False by simp_all
  show ?thesis using kids_disjoint[OF f k(1) k'(1) k(2) k'(2)] ks(4) by (metis disjoint_iff)
qed auto

lemma kids_out_parent: "forest_ok g \<Longrightarrow> kids_ok g e ks \<Longrightarrow> e \<notin> kouts ks"
  using kids_okD[of g e ks] kid_not_parent[of g _ e] own_leaf_simps(3) unfolding kouts_def by blast

lemma kregs_fst:
  assumes "kids_ok g e ks"
  shows "fst ` kregs ks \<subseteq> (if \<exists>k \<in> set ks. own_leaf g e k then {e} else {}) \<union> kouts ks"
proof
  fix x assume "x \<in> fst ` kregs ks"
  then obtain k c where k: "k \<in> set ks" "(x, c) \<in> regs k" by (force simp: kregs_def)
  show "x \<in> (if \<exists>k \<in> set ks. own_leaf g e k then {e} else {}) \<union> kouts ks"
  proof (cases "own_leaf g e k")
    case True
    then show ?thesis using own_leaf_regs[OF True] k by auto
  next
    case False
    then show ?thesis using wf_regs[OF _ k(2), of g] kids_okD[OF assms k(1)] k(1) by (auto simp: kouts_def)
  qed
qed

lemma apart_after:
  assumes f: "forest_ok g" and ks: "kids_ok g e ks" "k \<in> set ks" "k' \<in> set ks" "en_ev k' \<noteq> en_ev k"
    and "apart g e k' t" "tree_grown g t t' (outs k) (regs k)"
  shows "apart g e k' t'"
proof -
  have dis: "outs k \<inter> outs k' = {}" by (rule kids_ok_disjoint[OF f ks(1-3)]) (use ks(4) in simp)
  have "e \<notin> fst ` regs k" if o: "own_leaf g e k'"
  proof -
    have "\<not> own_leaf g e k" using o ks(4) by auto
    then have k: "par g (en_ev k) = Some e" "wf_tree g k" using kids_okD[OF ks(1,2)] by auto
    show ?thesis by (rule regs_fst[OF k(2) kid_not_parent[OF f k(2,1)]])
  qed
  then show ?thesis using dis assms(6,7) unfolding apart_def tree_grown_def by (auto simp: image_Un)
qed

lemma copy_kids_apart:
  assumes f: "forest_ok g"
    and each: "\<And>k t. k \<in> set ks \<Longrightarrow> apart g e k t \<Longrightarrow> \<exists>t'. copy_node (Some e) k (d, sp, t) = Some (d, sp, t') \<and> tree_grown g t t' (outs k) (regs k)"
    and ok: "kids_ok g e ks" "\<forall>k \<in> set ks. apart g e k t" "wf_tree g t"
  shows "\<exists>t'. copy_kids e ks (d, sp, t) = Some (d, sp, t') \<and> tree_grown g t t' (kouts ks) (kregs ks)"
  using each ok
proof (induction ks arbitrary: t)
  case Nil
  then show ?case by (simp add: tree_grown_def)
next
  case (Cons k ks)
  obtain t1 where t1: "copy_node (Some e) k (d, sp, t) = Some (d, sp, t1)" "tree_grown g t t1 (outs k) (regs k)"
    using Cons.prems(1)[of k t] Cons.prems(3) by auto
  have "apart g e k' t1" if "k' \<in> set ks" for k'
  proof (rule apart_after[OF f Cons.prems(2) _ _ _ _ t1(2)])
    have "en_ev k' \<in> en_ev ` set ks" using that by simp
    then show "en_ev k' \<noteq> en_ev k" using Cons.prems(2) by (auto simp: kids_ok_Cons)
  qed (use that Cons.prems(3) in auto)
  moreover have "kids_ok g e ks" "wf_tree g t1" using Cons.prems(2) t1(2) by (auto simp: kids_ok_Cons tree_grown_def)
  ultimately obtain t2 where t2: "copy_kids e ks (d, sp, t1) = Some (d, sp, t2)" "tree_grown g t1 t2 (kouts ks) (kregs ks)"
    using Cons.IH[of t1] Cons.prems(1) by auto
  show ?case using t1 t2 tree_grown_trans[OF t1(2) t2(2)] by auto
qed

lemma apart_kids:
  assumes f: "forest_ok g" and k: "wf_tree g (ENode e f' c a ks)"
    and t: "wf_tree g t" "e \<in> outs t" "e \<notin> fst ` regs t" "outs t \<inter> kouts ks = {}" and k': "k' \<in> set ks"
  shows "apart g e k' t"
  using t k' by (auto simp: apart_def kouts_def)

lemma copy_node_apart:
  assumes f: "forest_ok g"
  shows "own_leaf g p k \<or> par g (en_ev k) = Some p \<and> wf_tree g k \<Longrightarrow> apart g p k t \<Longrightarrow>
    sp \<noteq> [] \<Longrightarrow> hd sp \<notin> outs k \<Longrightarrow> own_leaf g p k \<longrightarrow> hd sp \<noteq> p \<Longrightarrow>
    \<exists>t'. copy_node (Some p) k (d, sp, t) = Some (d, sp, t') \<and> tree_grown g t t' (outs k) (regs k)"
proof (induction k arbitrary: p t)
  case (ENode e f' c a ks)
  let ?n = "ENode e f' c a []"
  show ?case
  proof (cases "own_leaf g p (ENode e f' c a ks)")
    case True
    then have o: "own_leaf g p ?n" "ks = []" "e = p" by (auto simp: own_leaf_def)
    have "\<exists>t'. insert_under p ?n t = Some t' \<and> tree_grown g t t' (outs ?n) (regs ?n)"
      by (rule insert_under_ok[OF f]) (use ENode.prems(2) True o in \<open>auto simp: apart_def\<close>)
    then show ?thesis using ENode.prems(3,5) True o(2,3) by auto
  next
    case False
    then have w: "par g e = Some p" "wf_tree g (ENode e f' c a ks)" using ENode.prems(1) by auto
    have c: "c = None" "kids_ok g e ks" using w(2) unfolding wf_tree_kids by auto
    have nw: "wf_tree g ?n" using w(2) unfolding wf_tree_kids by (simp add: kids_ok_def)
    have "e \<notin> outs k" if "k \<in> set ks" for k
      using kids_okD[OF c(2) that] kid_not_parent[OF f] own_leaf_simps(3) by blast
    then have e: "e \<notin> outs t" "e \<noteq> hd sp" "e \<notin> kouts ks"
      using ENode.prems(2,4) unfolding c(1) apart_def outs_regs_kids by (auto simp: kouts_def)
    have "\<exists>t'. insert_under p ?n t = Some t' \<and> tree_grown g t t' (outs ?n) (regs ?n)"
      by (rule insert_under_ok[OF f]) (use ENode.prems(2) w nw e in \<open>auto simp: apart_def\<close>)
    then obtain t1 where t1: "insert_under p ?n t = Some t1" "tree_grown g t t1 {e} {}" using c(1) by auto
    have t1': "wf_tree g t1" "outs t1 = insert e (outs t)" "regs t1 = regs t" using t1(2) by (auto simp: tree_grown_def)
    have "outs t1 \<inter> kouts ks = {}"
      using ENode.prems(2) t1'(2) e(3) unfolding apart_def c(1) outs_regs_kids by auto
    moreover have "wf_tree g t" using ENode.prems(2) unfolding apart_def by blast
    then have "e \<notin> fst ` regs t1" using regs_fst[OF _ e(1)] t1'(3) by simp
    ultimately have kids: "\<forall>k' \<in> set ks. apart g e k' t1" using apart_kids[OF f w(2) t1'(1)] t1'(2) by simp
    have "\<exists>t'. copy_kids e ks (d, sp, t1) = Some (d, sp, t') \<and> tree_grown g t1 t' (kouts ks) (kregs ks)"
    proof (rule copy_kids_apart[OF f _ c(2) kids t1'(1)])
      fix k u assume k: "k \<in> set ks" "apart g e k u"
      show "\<exists>t'. copy_node (Some e) k (d, sp, u) = Some (d, sp, t') \<and> tree_grown g u t' (outs k) (regs k)"
        by (rule ENode.IH[OF k(1) kids_okD[OF c(2) k(1)] k(2) ENode.prems(3)])
          (use ENode.prems(4) e(2) k(1) in auto)
    qed
    then obtain t2 where t2: "copy_kids e ks (d, sp, t1) = Some (d, sp, t2)" "tree_grown g t1 t2 (kouts ks) (kregs ks)" by blast
    have "tree_grown g t t2 (outs (ENode e f' c a ks)) (regs (ENode e f' c a ks))"
      using tree_grown_trans[OF t1(2) t2(2)] unfolding c(1) outs_regs_kids by simp
    then show ?thesis using t1(1) t2(1) e(2) ENode.prems(3) by auto
  qed
qed

text \<open>The nodes on the spine, which the copy meets on its way.\<close>

lemma set_first_same: "wf_tree g t \<Longrightarrow> Suc d < length (chain_events t) \<Longrightarrow> set_first_cb d None t = t"
proof (induction t arbitrary: d rule: chain_events.induct)
  case (1 e f c a)
  then show ?case by (cases d) auto
next
  case (2 e f c a k ks)
  show ?case
  proof (cases d)
    case 0
    then show ?thesis using wf_tree_cb[OF 2(2)] by simp
  next
    case (Suc d')
    then have "\<not> own_leaf g e k" using 2(3) by (auto simp: own_leaf_def)
    then have "wf_tree g k" using 2(2) by auto
    then show ?thesis using 2(1)[of d'] 2(3) Suc by simp
  qed
qed

lemma copy_kids_append:
  "copy_kids p (ks @ ks') st = Option.bind (copy_kids p ks st) (copy_kids p ks')"
  by (induction ks arbitrary: st) (auto split: option.splits)

lemma kid_off_spine:
  assumes f: "forest_ok g" and k: "own_leaf g e k \<or> par g (en_ev k) = Some e \<and> wf_tree g k"
    and d: "par g e' = Some e" "down g e' es w" "en_ev k \<noteq> e'"
  shows "outs k \<inter> set (e # e' # es @ [w]) = {}"
proof (cases "own_leaf g e k")
  case False
  then have k': "par g (en_ev k) = Some e" "wf_tree g k" using k by auto
  have "x \<notin> outs k" if x: "x \<in> set (e' # es @ [w])" for x
  proof
    assume o: "x \<in> outs k"
    have "x \<in> set (e' # es) \<or> x = w" using x by auto
    then have "below g e' x" using down_below[OF d(2), of x] down_below[OF d(2), of e'] by auto
    then show False using below_sibling[OF f k'(1) d(1) wf_outs[OF k'(2) o]] d(3) by simp
  qed
  then show ?thesis using kid_not_parent[OF f k'(2,1)] by auto
qed simp

text \<open>A kid away from the spine is apart from whatever has only the spine in common with the old node.\<close>

lemma copy_off_kids:
  assumes f: "forest_ok g" and ks: "kids_ok g e ks" "w \<notin> fst ` kregs ks" and sp: "sp \<noteq> []" "hd sp \<notin> kouts ks"
    "hd sp = e \<longrightarrow> e = w"
    and t: "wf_tree g t" "e \<in> outs t" "outs t \<inter> kouts ks = {}" "\<forall>k \<in> set ks. own_leaf g e k \<longrightarrow> e \<notin> fst ` regs t"
  shows "\<exists>t'. copy_kids e ks (d, sp, t) = Some (d, sp, t') \<and> tree_grown g t t' (kouts ks) (kregs ks)"
proof (rule copy_kids_apart[OF f _ ks(1) _ t(1)])
  show "\<forall>k \<in> set ks. apart g e k t" using t by (auto simp: apart_def kouts_def)
  fix k u assume k: "k \<in> set ks" "apart g e k u"
  have "own_leaf g e k \<longrightarrow> hd sp \<noteq> e"
  proof
    assume "own_leaf g e k"
    then obtain c where "regs k = {(e, c)}" using own_leaf_regs by blast
    then have "e \<in> fst ` kregs ks" using k(1) by (force simp: kregs_def)
    then show "hd sp \<noteq> e" using ks(2) sp(3) by auto
  qed
  then show "\<exists>t'. copy_node (Some e) k (d, sp, u) = Some (d, sp, t') \<and> tree_grown g u t' (outs k) (regs k)"
    using copy_node_apart[OF f kids_okD[OF ks(1) k(1)] k(2) sp(1)] sp(2) k(1) by (simp add: kouts_def)
qed

lemma copy_on_spine:
  assumes f: "forest_ok g"
  shows "down g e es w \<Longrightarrow> en_ev x = e \<Longrightarrow> wf_tree g x \<Longrightarrow> w \<notin> fst ` regs x \<Longrightarrow>
    wf_tree g t \<Longrightarrow> leafy t \<Longrightarrow> chain_events t = met @ e # es @ [w] \<Longrightarrow> length met = d \<Longrightarrow>
    set (e # es) \<subseteq> outs t \<Longrightarrow> outs t \<inter> outs x \<subseteq> set (e # es) \<Longrightarrow> fst ` regs t \<inter> outs x \<subseteq> {w} \<Longrightarrow>
    \<exists>d' sp' t'. copy_node p x (d, e # es @ [w], t) = Some (d', sp', t') \<and> tree_grown g t t' (outs x) (regs x)
      \<and> sp' \<noteq> [] \<and> set sp' \<subseteq> set (es @ [w])"
proof (induction es arbitrary: e x t met d p)
  case Nil
  then have ew: "e = w" by simp
  obtain ks where x: "x = ENode e (ft_of g e) None (arg_of g e) ks" "kids_ok g e ks"
    using Nil.prems(2,3) by (cases x) (auto simp: wf_tree_kids simp del: wf_tree.simps)
  have xo: "outs x = insert e (kouts ks)" "regs x = kregs ks" unfolding x(1) outs_regs_kids by auto
  have kid: "\<not> own_leaf g e k" "e \<notin> outs k" if k: "k \<in> set ks" for k
  proof -
    show no: "\<not> own_leaf g e k"
      using own_leaf_regs[of g e k] Nil.prems(4) k ew unfolding xo by (force simp: kregs_def)
    show "e \<notin> outs k" using kids_okD[OF x(2) k] no kid_not_parent[OF f] by blast
  qed
  then have e: "e \<notin> kouts ks" by (simp add: kouts_def)
  have same: "set_first_cb d None t = t" using set_first_same[OF Nil.prems(5)] Nil.prems(7,8) by simp
  have "\<exists>t'. copy_kids e ks (Suc d, [w], t) = Some (Suc d, [w], t') \<and> tree_grown g t t' (kouts ks) (kregs ks)"
    by (rule copy_off_kids[OF f x(2), of w])
      (use Nil.prems(4,5,9,10) xo e ew kid in auto)
  then obtain t' where t': "copy_kids e ks (Suc d, [w], t) = Some (Suc d, [w], t')" "tree_grown g t t' (kouts ks) (kregs ks)" by blast
  have "tree_grown g t t' (outs x) (regs x)" using t'(2) Nil.prems(9) unfolding tree_grown_def xo by auto
  then show ?case using t'(1) same ew by (simp add: x(1))
next
  case (Cons e' es)
  have d: "par g e' = Some e" "down g e' es w" using Cons.prems(1) by auto
  obtain ks where x: "x = ENode e (ft_of g e) None (arg_of g e) ks" "kids_ok g e ks"
    using Cons.prems(2,3) by (cases x) (auto simp: wf_tree_kids simp del: wf_tree.simps)
  have xo: "outs x = insert e (kouts ks)" "regs x = kregs ks" unfolding x(1) outs_regs_kids by auto
  have same: "set_first_cb d None t = t" using set_first_same[OF Cons.prems(5)] Cons.prems(7,8) by simp
  let ?sp = "e' # es @ [w]"
  have start: "copy_node p x (d, e # ?sp, t) = copy_kids e ks (Suc d, ?sp, t)" using same by (simp add: x(1))
  have ew: "e < w" using down_below[OF d(2), of e'] below_le[OF f] par_less[OF f d(1)] by fastforce
  have off: "outs k \<inter> set (e # ?sp) = {}" "en_ev k \<noteq> e'" if "k \<in> set ks" "en_ev k \<noteq> e'" for k
    using kid_off_spine[OF f kids_okD[OF x(2) that(1)] d that(2)] that by simp_all
  have leaf_free: "e \<notin> fst ` regs t" using Cons.prems(11) ew unfolding xo by auto
  show ?case
  proof (cases "\<exists>k \<in> set ks. en_ev k = e'")
    case False
    then have o: "kouts ks \<inter> set (e # ?sp) = {}" using off by (fastforce simp: kouts_def)
    have "\<exists>t'. copy_kids e ks (Suc d, ?sp, t) = Some (Suc d, ?sp, t') \<and> tree_grown g t t' (kouts ks) (kregs ks)"
    proof (rule copy_off_kids[OF f x(2), of w])
      show "hd ?sp = e \<longrightarrow> e = w" using par_less[OF f d(1)] by auto
      show "hd ?sp \<notin> kouts ks" "outs t \<inter> kouts ks = {}" using o Cons.prems(10) unfolding xo by auto
    qed (use Cons.prems leaf_free xo in auto)
    then obtain t' where t': "copy_kids e ks (Suc d, ?sp, t) = Some (Suc d, ?sp, t')" "tree_grown g t t' (kouts ks) (kregs ks)" by blast
    have "tree_grown g t t' (outs x) (regs x)" using t'(2) Cons.prems(9) unfolding tree_grown_def xo by auto
    then show ?thesis using t'(1) start by auto
  next
    case True
    then obtain bs k as where ks: "ks = bs @ k # as" "en_ev k = e'" by (metis split_list)
    have e': "e < e'" using par_less[OF f d(1)] .
    have kk: "par g (en_ev k) = Some e" "wf_tree g k" using kids_okD[OF x(2), of k] ks e' by auto
    have sub: "kids_ok g e bs" "kids_ok g e as" and dist: "distinct (map en_ev (bs @ k # as))"
      using x(2) unfolding ks(1) by (auto simp: kids_ok_def)
    have other: "en_ev b \<noteq> e'" "b \<in> set ks" if "b \<in> set bs \<union> set as" for b
      using that dist ks by (auto simp: in_set_conv_decomp)
    have o: "(kouts bs \<union> kouts as) \<inter> set (e # ?sp) = {}" using off(1)[OF other(2,1)] by (fastforce simp: kouts_def)
    have kd: "kouts bs \<inter> outs k = {}" "kouts as \<inter> outs k = {}"
      using kids_ok_disjoint[OF f x(2), of _ k] other ks by (fastforce simp: kouts_def)+
    have bd: "kouts bs \<inter> kouts as = {}"
    proof -
      have "outs b \<inter> outs c = {}" if "b \<in> set bs" "c \<in> set as" for b c
        by (rule kids_ok_disjoint[OF f x(2)]) (use that dist ks(1) in auto)
      then show ?thesis by (force simp: kouts_def)
    qed
    have xk: "kouts ks = kouts bs \<union> outs k \<union> kouts as" "kregs ks = kregs bs \<union> regs k \<union> kregs as" by (auto simp: ks(1))
    have ek: "e \<notin> outs k" using kid_not_parent[OF f kk(2,1)] .
    have "\<exists>t'. copy_kids e bs (Suc d, ?sp, t) = Some (Suc d, ?sp, t') \<and> tree_grown g t t' (kouts bs) (kregs bs)"
    proof (rule copy_off_kids[OF f sub(1), of w])
      show "hd ?sp = e \<longrightarrow> e = w" using e' by auto
      show "hd ?sp \<notin> kouts bs" "outs t \<inter> kouts bs = {}" using o Cons.prems(10) unfolding xo xk by auto
    qed (use Cons.prems leaf_free xo xk in auto)
    then obtain t1 where t1: "copy_kids e bs (Suc d, ?sp, t) = Some (Suc d, ?sp, t1)" "tree_grown g t t1 (kouts bs) (kregs bs)" by blast
    have t1': "wf_tree g t1" "leafy t1" "chain_events t1 = (met @ [e]) @ ?sp" "outs t1 = outs t \<union> kouts bs" "regs t1 = regs t \<union> kregs bs"
      using t1(2) Cons.prems(6,7) by (auto simp: tree_grown_def)
    have bsk: "fst ` kregs bs \<inter> outs k = {}" using kregs_fst[OF sub(1)] kd(1) ek by (auto split: if_splits)
    have "\<exists>d' sp' t'. copy_node (Some e) k (Suc d, ?sp, t1) = Some (d', sp', t') \<and> tree_grown g t1 t' (outs k) (regs k)
        \<and> sp' \<noteq> [] \<and> set sp' \<subseteq> set (es @ [w])"
    proof (rule Cons.IH[OF d(2) ks(2) kk(2) _ t1'(1-3)])
      show "w \<notin> fst ` regs k" using Cons.prems(4) unfolding xo xk by auto
      show "set (e' # es) \<subseteq> outs t1" using Cons.prems(9) unfolding t1' by auto
      show "outs t1 \<inter> outs k \<subseteq> set (e' # es)" using Cons.prems(10) kd(1) ek unfolding t1' xo xk by auto
      show "fst ` regs t1 \<inter> outs k \<subseteq> {w}" using Cons.prems(11) bsk unfolding t1' xo xk by auto
    qed (use Cons.prems(8) in simp)
    then obtain d' sp' t2 where t2: "copy_node (Some e) k (Suc d, ?sp, t1) = Some (d', sp', t2)"
      "tree_grown g t1 t2 (outs k) (regs k)" "sp' \<noteq> []" "set sp' \<subseteq> set (es @ [w])" by blast
    have t2': "wf_tree g t2" "outs t2 = outs t \<union> kouts bs \<union> outs k" "regs t2 = regs t \<union> kregs bs \<union> regs k"
      using t2(2) t1' by (auto simp: tree_grown_def)
    have hd': "hd sp' \<in> set ?sp" "hd sp' \<noteq> e"
    proof -
      have "hd sp' \<in> set (es @ [w])" using t2(4) hd_in_set[OF t2(3)] by (rule subsetD)
      then show "hd sp' \<in> set ?sp" by auto
      have "below g e' (hd sp')" using \<open>hd sp' \<in> set (es @ [w])\<close> down_below[OF d(2), of "hd sp'"] down_below[OF d(2), of e'] by auto
      then show "hd sp' \<noteq> e" using below_le[OF f] e' by force
    qed
    have "\<exists>t'. copy_kids e as (d', sp', t2) = Some (d', sp', t') \<and> tree_grown g t2 t' (kouts as) (kregs as)"
    proof (rule copy_off_kids[OF f sub(2), of w])
      show "w \<notin> fst ` kregs as" using Cons.prems(4) unfolding xo xk by auto
      show "hd sp' \<notin> kouts as" "hd sp' = e \<longrightarrow> e = w" using hd' o by auto
      show "e \<in> outs t2" using Cons.prems(9) unfolding t2' by auto
      show "outs t2 \<inter> kouts as = {}" using Cons.prems(10) o kd bd unfolding t2' xo xk by auto
      have "e \<notin> fst ` kregs bs" if "a \<in> set as" "own_leaf g e a" for a
      proof -
        have "\<not> (\<exists>b \<in> set bs. own_leaf g e b)" using that dist by (force dest: own_leaf_simps(1))
        then show ?thesis using kregs_fst[OF sub(1)] kids_out_parent[OF f sub(1)] by auto
      qed
      then show "\<forall>a \<in> set as. own_leaf g e a \<longrightarrow> e \<notin> fst ` regs t2"
        using leaf_free regs_fst[OF kk(2) ek] unfolding t2' by (auto simp: image_Un)
    qed (use t2(3) t2'(1) in auto)
    then obtain t3 where t3: "copy_kids e as (d', sp', t2) = Some (d', sp', t3)" "tree_grown g t2 t3 (kouts as) (kregs as)" by blast
    have "tree_grown g t t3 (kouts ks) (kregs ks)"
      using tree_grown_trans[OF tree_grown_trans[OF t1(2) t2(2)] t3(2)] unfolding xk .
    then have "tree_grown g t t3 (outs x) (regs x)" using Cons.prems(9) unfolding tree_grown_def xo by auto
    moreover have "copy_node p x (d, e # ?sp, t) = Some (d', sp', t3)"
      unfolding start ks(1) copy_kids_append using t1(1) t2(1) t3(1) by simp
    ultimately show ?thesis using t2(3,4) by auto
  qed
qed

lemma wrap_chain [simp]: "chain_events (wrap g es (leaf g w cb)) = es @ [w]" "leafy (wrap g es (leaf g w cb))"
  by (induction es) (auto simp: leaf_def)

lemma copy_into_ok:
  assumes f: "forest_ok g" and "wf_tree g old" "en_ev old = 0" "w \<notin> fst ` regs old" "down g 0 es w" "df_nodes g 0 \<noteq> None"
  shows "\<exists>t. copy_into old (wrap g (0 # es) (leaf g w cb)) = Some t \<and> wf_tree g t \<and> en_ev t = 0
    \<and> regs t = insert (w, cb) (regs old)"
proof -
  define sp where "sp = wrap g (0 # es) (leaf g w cb)"
  have sp: "wf_tree g sp" "leafy sp" "chain_events sp = 0 # es @ [w]" "outs sp = set (0 # es)" "regs sp = {(w, cb)}" "en_ev sp = 0"
    unfolding sp_def using wrap_wf[OF assms(5,6)] wrap_chain[of g "0 # es" w cb] wrap_outs[of g "0 # es" w cb]
      wrap_regs[of g "0 # es" w cb] wrap_ev[of g "0 # es" w cb] by simp_all
  have "\<exists>d' sp' t'. copy_node None old (0, 0 # es @ [w], sp) = Some (d', sp', t') \<and> tree_grown g sp t' (outs old) (regs old)
      \<and> sp' \<noteq> [] \<and> set sp' \<subseteq> set (es @ [w])"
    by (rule copy_on_spine[OF f assms(5,3,2,4) sp(1,2), of "[]"]) (use sp in auto)
  then show ?thesis using sp unfolding copy_into_def sp_def[symmetric] by (fastforce simp: tree_grown_def)
qed

section \<open>Registration\<close>

definition tree_regs :: "nat option \<Rightarrow> ev_state \<Rightarrow> (event \<times> nat) set" where
  "tree_regs p s = (case p of None \<Rightarrow> {} | Some t \<Rightarrow> regs (st_root (ev_trees s ! t)))"

definition slot_ok :: "dforest \<Rightarrow> nat option \<Rightarrow> ev_state \<Rightarrow> bool" where
  "slot_ok g p s \<longleftrightarrow> (case p of None \<Rightarrow> True | Some t \<Rightarrow> t < length (ev_trees s) \<and> wf_root g (st_root (ev_trees s ! t)))"

lemma inherit_ok:
  assumes f: "forest_ok g" "df_nodes g 0 \<noteq> None" and "slot_ok g p s" "w \<notin> fst ` tree_regs p s" "w \<noteq> 0" "down g 0 es w"
  shows "\<exists>t. inherit p (wrap g (0 # es) (leaf g w cb)) s = Some t \<and> wf_root g t \<and> regs t = insert (w, cb) (tree_regs p s)"
proof (cases p)
  case None
  then show ?thesis
    using wrap_wf[OF assms(6) f(2)] wrap_regs[of g "0 # es" w cb] wrap_ev[of g "0 # es" w cb] assms(5)
    by (simp add: inherit_def wf_root_def tree_regs_def del: wrap.simps)
next
  case (Some t)
  define old where "old = st_root (ev_trees s ! t)"
  have old: "wf_tree g old" "en_ev old = 0" "0 \<notin> fst ` regs old" "w \<notin> fst ` regs old" "tree_regs p s = regs old"
    using assms(3,4) Some by (simp_all add: slot_ok_def wf_root_def tree_regs_def old_def)
  have "\<exists>t. inherit p (wrap g (0 # es) (leaf g w cb)) s = Some t \<and> wf_tree g t \<and> en_ev t = 0 \<and> regs t = insert (w, cb) (regs old)"
    using graft_into_ok[OF f(1) old(1,2,4) assms(6)] copy_into_ok[OF f(1) old(1,2,4) assms(6) f(2)] Some
    by (auto simp: inherit_def Let_def old_def simp del: wrap.simps)
  then show ?thesis using old(3,5) assms(5) by (force simp: wf_root_def)
qed

lemma root_same: "st_root (xs[i := (xs ! i)\<lparr>st_ref_cnt := c\<rparr>] ! t) = st_root (xs ! t)"
  by (cases "i < length xs"; cases "i = t") (simp_all add: not_less list_update_beyond)

lemma release_old_same [simp]:
  "length (ev_trees (release_old p s)) = length (ev_trees s)"
  "st_root (ev_trees (release_old p s) ! t) = st_root (ev_trees s ! t)"
  by (simp_all add: release_old_def stree_release_def mod_tree_def Let_def root_same split: option.split)


section \<open>The forest is kept\<close>

definition accepts :: "(nat \<Rightarrow> event \<Rightarrow> u8 list option \<Rightarrow> bool) \<Rightarrow> dforest \<Rightarrow> event \<Rightarrow> bool" where
  "accepts flt g x \<longleftrightarrow> (case ft_of g x of None \<Rightarrow> True | Some f \<Rightarrow> flt f x (arg_of g x))"

lemma find_snoc: "find P (xs @ [x]) = (case find P xs of None \<Rightarrow> if P x then Some x else None | Some y \<Rightarrow> Some y)"
  by (induction xs) auto

lemma search_store: "dforest_search e (dforest_store ev w g) =
    (case dforest_search e g of None \<Rightarrow> if e = ev then Some w else None | Some y \<Rightarrow> Some y)"
  by (auto simp: dforest_search_def dforest_store_def find_snoc split: option.split)

lemma par_add: "par (add_kid p ev (add_node ev n g)) e = (if e = ev then dn_parent n else par g e)"
  by (cases "df_nodes g e") (auto simp: par_def add_kid_def add_node_def)

lemma nodes_add: "df_nodes (add_kid p ev (add_node ev n g)) e = None \<longleftrightarrow> e \<noteq> ev \<and> df_nodes g e = None"
  by (auto simp: add_kid_def add_node_def)

lemma search_add: "dforest_search e (add_kid p ev (add_node ev n g)) = dforest_search e g"
  by (simp add: dforest_search_def add_kid_def add_node_def)

lemma par_store [simp]: "par (dforest_store ev w g) = par g" "df_nodes (dforest_store ev w g) = df_nodes g"
    "par (g\<lparr>g_evid := x\<rparr>) = par g" "dforest_search e (g\<lparr>g_evid := x\<rparr>) = dforest_search e g"
  by (auto simp: dforest_store_def par_def dforest_search_def)

lemma forest_ok_add:
  assumes "forest_ok g" "df_nodes g p \<noteq> None" "p < ev" "df_nodes g ev = None" "dn_parent n = Some p"
  shows "forest_ok (add_kid p ev (add_node ev n g))"
  unfolding forest_ok_def
proof (intro conjI)
  show "\<forall>e q. par (add_kid p ev (add_node ev n g)) e = Some q \<longrightarrow> q < e \<and> df_nodes (add_kid p ev (add_node ev n g)) q \<noteq> None"
    using assms by (auto simp: forest_ok_def par_add nodes_add)
  show "\<forall>e. df_nodes (add_kid p ev (add_node ev n g)) e \<noteq> None \<and> par (add_kid p ev (add_node ev n g)) e = None \<longrightarrow> e = 0"
    using assms(1,5) by (simp add: forest_ok_def par_add nodes_add)
  show "\<forall>e w. dforest_search e (add_kid p ev (add_node ev n g)) = Some w \<longrightarrow> w = e \<and> df_nodes (add_kid p ev (add_node ev n g)) e \<noteq> None"
    using assms(1) by (simp add: forest_ok_def search_add nodes_add)
qed

lemma forest_ok_store: "forest_ok g \<Longrightarrow> df_nodes g ev \<noteq> None \<Longrightarrow> forest_ok (dforest_store ev ev g)"
  by (auto simp: forest_ok_def search_store split: option.splits if_splits)

lemma forest_ok_evid [simp]: "forest_ok (g\<lparr>g_evid := x\<rparr>) = forest_ok g"
  by (simp add: forest_ok_def)

text \<open>The built-in events are below the root and have no filter; the other numbers are given out in order.\<close>

definition forest_inv :: "dforest \<Rightarrow> bool" where
  "forest_inv g \<longleftrightarrow> forest_ok g \<and> df_nodes g 0 \<noteq> None \<and> bev_limit \<le> g_evid g
     \<and> (\<forall>e. df_nodes g e \<noteq> None \<longrightarrow> e < g_evid g)
     \<and> (\<forall>e. par g e = Some 0 \<and> e < bev_limit \<longrightarrow> (\<exists>i < NUM_BEV. e = push_bit i 1))
     \<and> (\<forall>i < NUM_BEV. par g (push_bit i 1) = Some 0 \<and> ft_of g (push_bit i 1) = None)"

lemma unat_bit_power: "i < 64 \<Longrightarrow> unat (push_bit i 1 :: event) = 2 ^ i"
  unfolding unsigned_push_bit_eq by (simp add: take_bit_nat_eq_self)

lemma bev_less:
  assumes "i < NUM_BEV"
  shows "(push_bit i 1 :: event) < bev_limit"
proof -
  have i: "i < 12" using assms by (simp add: NUM_BEV_def)
  then have "(2::nat) ^ i < 2 ^ 12" by (rule power_strict_increasing) simp
  then show ?thesis using i unat_bit_power[of i] unat_bit_power[of 12]
    by (simp add: bev_limit_def word_less_nat_alt NUM_BEV_def)
qed

definition bev_node :: dnode where
  "bev_node = \<lparr>dn_ft = None, dn_arg = None, dn_parent = Some 0, dn_kids = []\<rparr>"

lemma init_fold:
  fixes n :: nat
  defines "base \<equiv> dforest_store 0 0 (add_node 0 \<lparr>dn_ft = None, dn_arg = None, dn_parent = None, dn_kids = []\<rparr>
             \<lparr>df_nodes = (\<lambda>_. None), df_table = (\<lambda>_. []), g_evid = 0\<rparr>)"
  shows "n \<le> NUM_BEV \<Longrightarrow> forest_ok (fold init_bev [0..<n] base)
    \<and> (\<forall>e. df_nodes (fold init_bev [0..<n] base) e \<noteq> None \<longleftrightarrow> e = 0 \<or> (\<exists>i < n. e = push_bit i 1))
    \<and> (\<forall>e. ft_of (fold init_bev [0..<n] base) e = None)
    \<and> (\<forall>i < n. df_nodes (fold init_bev [0..<n] base) (push_bit i 1) = Some bev_node
         \<and> dforest_search (push_bit i 1) (fold init_bev [0..<n] base) = Some (push_bit i 1))"
proof (induction n)
  case 0
  have "dforest_search e base = (if e = 0 then Some 0 else None)" for e
    unfolding base_def search_store by (simp add: dforest_search_def add_node_def)
  then show ?case
    by (auto simp: forest_ok_def ft_of_def par_def base_def dforest_store_def add_node_def)
next
  case (Suc n)
  define g where "g = fold init_bev [0..<n] base"
  have g: "forest_ok g" "\<And>e. df_nodes g e \<noteq> None \<longleftrightarrow> e = 0 \<or> (\<exists>i < n. e = push_bit i 1)" "\<And>e. ft_of g e = None"
    "\<And>i. i < n \<Longrightarrow> df_nodes g (push_bit i 1) = Some bev_node \<and> dforest_search (push_bit i 1) g = Some (push_bit i 1)"
    using Suc by (simp_all add: g_def)
  have pow: "(push_bit i 1 :: event) = push_bit j 1 \<longleftrightarrow> i = j" "(push_bit i 1 :: event) \<noteq> 0" if "i < 64" "j < 64" for i j
    using that unat_bit_power[of i] unat_bit_power[of j] by (metis power_inject_exp one_less_numeral_iff semiring_norm(76)) (use that unat_bit_power[of i] in force)
  have n: "n < 64" using Suc.prems by (simp add: NUM_BEV_def)
  have new: "df_nodes g (push_bit n 1) = None"
    using g(2)[of "push_bit n 1"] pow(1)[of n] pow(2)[of n n] n by (metis less_irrefl less_trans)
  have step: "fold init_bev [0..<Suc n] base = dforest_store (push_bit n 1) (push_bit n 1) (add_kid 0 (push_bit n 1) (add_node (push_bit n 1) bev_node g))"
    by (simp add: g_def init_bev_def bev_node_def Let_def)
  have a: "forest_ok (add_kid 0 (push_bit n 1) (add_node (push_bit n 1) bev_node g))"
    by (rule forest_ok_add[OF g(1)]) (use g(2) new pow(2)[of n n] n in \<open>auto simp: word_gt_0 bev_node_def\<close>)
  have "df_nodes (add_kid 0 (push_bit n 1) (add_node (push_bit n 1) bev_node g)) (push_bit n 1) \<noteq> None"
    by (simp add: nodes_add)
  then have "forest_ok (fold init_bev [0..<Suc n] base)" unfolding step by (rule forest_ok_store[OF a])
  moreover have "df_nodes (fold init_bev [0..<Suc n] base) e \<noteq> None \<longleftrightarrow> e = 0 \<or> (\<exists>i < Suc n. e = push_bit i 1)" for e
    unfolding step par_store nodes_add using g(2)[of e] by (auto simp: less_Suc_eq)
  moreover have "ft_of (fold init_bev [0..<Suc n] base) e = None" for e
    unfolding step ft_of_def par_store using g(3)[of e]
    by (auto simp: add_kid_def add_node_def ft_of_def bev_node_def split: option.splits if_splits)
  moreover have "df_nodes (fold init_bev [0..<Suc n] base) (push_bit i 1) = Some bev_node
      \<and> dforest_search (push_bit i 1) (fold init_bev [0..<Suc n] base) = Some (push_bit i 1)" if i: "i < Suc n" for i
  proof (cases "i = n")
    case True
    have "dforest_search (push_bit n 1) g = None"
      using g(1) new unfolding forest_ok_def by (metis not_None_eq)
    then show ?thesis unfolding step True search_store search_add par_store using pow(2)[of n n] n
      by (simp add: add_kid_def add_node_def del: push_bit_of_1)
  next
    case False
    then have "(push_bit i 1 :: event) \<noteq> push_bit n 1" "(push_bit i 1 :: event) \<noteq> 0" using pow(1)[of i n] pow(2)[of i i] i n by auto
    then show ?thesis unfolding step search_store search_add par_store using g(4)[of i] False i
      by (simp add: add_kid_def add_node_def del: push_bit_of_1)
  qed
  ultimately show ?case by blast
qed

lemma ft_of_add: "ft_of (add_kid p ev (add_node ev n g)) e = (if e = ev then dn_ft n else ft_of g e)"
  by (cases "df_nodes g e") (auto simp: ft_of_def add_kid_def add_node_def)

lemma ft_of_same [simp]: "ft_of (dforest_store ev w g) = ft_of g" "ft_of (g\<lparr>g_evid := x\<rparr>) = ft_of g"
  by (auto simp: ft_of_def dforest_store_def)

lemma GlobInitEvent_facts:
  "forest_ok GlobInitEvent" "g_evid GlobInitEvent = bev_limit"
  "df_nodes GlobInitEvent e \<noteq> None \<longleftrightarrow> e = 0 \<or> (\<exists>i < NUM_BEV. e = push_bit i 1)"
  "ft_of GlobInitEvent e = None"
  "i < NUM_BEV \<Longrightarrow> df_nodes GlobInitEvent (push_bit i 1) = Some bev_node"
  "i < NUM_BEV \<Longrightarrow> dforest_search (push_bit i 1) GlobInitEvent = Some (push_bit i 1)"
proof -
  define base where "base = dforest_store 0 0 (add_node 0 \<lparr>dn_ft = None, dn_arg = None, dn_parent = None, dn_kids = []\<rparr>
             \<lparr>df_nodes = (\<lambda>_. None), df_table = (\<lambda>_. []), g_evid = 0\<rparr>)"
  have G: "GlobInitEvent = (fold init_bev [0..<NUM_BEV] base)\<lparr>g_evid := bev_limit\<rparr>"
    by (simp add: GlobInitEvent_def base_def Let_def bev_limit_def)
  show "forest_ok GlobInitEvent" "g_evid GlobInitEvent = bev_limit"
    "df_nodes GlobInitEvent e \<noteq> None \<longleftrightarrow> e = 0 \<or> (\<exists>i < NUM_BEV. e = push_bit i 1)"
    "ft_of GlobInitEvent e = None"
    "i < NUM_BEV \<Longrightarrow> df_nodes GlobInitEvent (push_bit i 1) = Some bev_node"
    "i < NUM_BEV \<Longrightarrow> dforest_search (push_bit i 1) GlobInitEvent = Some (push_bit i 1)"
    unfolding G using init_fold[of NUM_BEV] by (simp_all add: base_def del: push_bit_of_1)
qed

lemma forest_inv_init: "forest_inv GlobInitEvent"
proof -
  note g = GlobInitEvent_facts
  have p: "\<exists>i < NUM_BEV. e = push_bit i 1" if "par GlobInitEvent e = Some 0" for e
  proof -
    have "df_nodes GlobInitEvent e \<noteq> None" "e \<noteq> 0" using that par_less[OF g(1) that] by (cases "df_nodes GlobInitEvent e"; auto simp: par_def)+
    then show ?thesis using g(3) by blast
  qed
  have b: "e < bev_limit" if "df_nodes GlobInitEvent e \<noteq> None" for e
    using that g(3)[of e] bev_less bev_less[of 0] by (auto simp: bev_limit_def NUM_BEV_def)
  have "par GlobInitEvent (push_bit i 1) = Some 0" if "i < NUM_BEV" for i
    using g(5)[OF that] by (simp add: par_def bev_node_def del: push_bit_of_1)
  moreover have "df_nodes GlobInitEvent 0 \<noteq> None" using g(3) by blast
  ultimately show ?thesis unfolding forest_inv_def using g(1,2,4) p b by (simp del: push_bit_of_1)
qed

lemma forest_inv_new:
  assumes "forest_inv g" "df_nodes g p \<noteq> None" "g_evid g + 1 \<noteq> 0" "dn_parent n = Some p"
  shows "forest_inv (add_kid p (g_evid g) (add_node (g_evid g) n (g\<lparr>g_evid := g_evid g + 1\<rparr>)))"
proof -
  let ?ev = "g_evid g" and ?g = "g\<lparr>g_evid := g_evid g + 1\<rparr>"
  have "unat (?ev + 1) = Suc (unat ?ev) mod 2 ^ 64" by (simp add: unat_word_ariths)
  moreover have "unat (?ev + 1) \<noteq> 0" using assms(3) by (simp only: unat_eq_zero) simp
  ultimately have "unat (?ev + 1) = Suc (unat ?ev)" using unsigned_less[of ?ev, where ?'a = nat] by (auto simp: mod_Suc split: if_splits)
  then have lt: "x < ?ev + 1 \<longleftrightarrow> x \<le> ?ev" for x by (auto simp: word_less_nat_alt word_le_nat_alt)
  have g: "forest_ok g" "df_nodes g 0 \<noteq> None" "bev_limit \<le> ?ev" "\<And>e. df_nodes g e \<noteq> None \<Longrightarrow> e < ?ev"
    "\<And>e. par g e = Some 0 \<Longrightarrow> e < bev_limit \<Longrightarrow> \<exists>i < NUM_BEV. e = push_bit i 1" "\<And>i. i < NUM_BEV \<Longrightarrow> ft_of g (push_bit i 1) = None"
    "\<And>i. i < NUM_BEV \<Longrightarrow> par g (push_bit i 1) = Some 0"
    using assms(1) by (auto simp: forest_inv_def)
  have "df_nodes g ?ev = None" using g(4)[of ?ev] by (cases "df_nodes g ?ev") auto
  then have "forest_ok (add_kid p ?ev (add_node ?ev n ?g))"
    by (intro forest_ok_add) (use g(1) g(4)[of p] assms(2,4) in auto)
  moreover have "ft_of (add_kid p ?ev (add_node ?ev n ?g)) (push_bit i 1) = None" if "i < NUM_BEV" for i
    unfolding ft_of_add using bev_less[OF that] g(3) g(6)[OF that] by auto
  moreover have "push_bit i 1 \<noteq> ?ev" "par g (push_bit i 1) = Some 0" if "i < NUM_BEV" for i
    using bev_less[OF that] g(3) g(7)[OF that] by auto
  moreover have "e < ?ev + 1" if "e = ?ev \<or> df_nodes g e \<noteq> None" for e using that g(4)[of e] unfolding lt by auto
  moreover have "\<exists>i < NUM_BEV. e = push_bit i 1" if "(if e = ?ev then Some p else par g e) = Some 0" "e < bev_limit" for e
    using that g(3) g(5)[of e] by (auto split: if_splits)
  moreover have "bev_limit < ?ev + 1" using g(3) unfolding lt .
  then have "bev_limit \<le> ?ev + 1" by simp
  ultimately show ?thesis
    using g(2) assms(4) unfolding forest_inv_def nodes_add par_add by (simp add: add_kid_def add_node_def)
qed

lemma forest_inv_store: "forest_inv g \<Longrightarrow> df_nodes g ev \<noteq> None \<Longrightarrow> forest_inv (dforest_store ev ev g)"
  using forest_ok_store[of g ev] by (simp add: forest_inv_def) (simp add: dforest_store_def)

lemma store_add: "add_kid p ev (add_node ev n (dforest_store ev ev g)) = dforest_store ev ev (add_kid p ev (add_node ev n g))"
  by (rule dforest.equality) (auto simp: add_kid_def add_node_def dforest_store_def)

lemma find_event_node: "find_event ft a g ws = Some (Some w) \<Longrightarrow> df_nodes g w \<noteq> None"
  by (induction ft a g ws rule: find_event.induct) (auto split: option.splits bool.splits)

lemma define_event_inv:
  assumes "forest_inv g" "g_evid g + 1 \<noteq> 0" "mtcp_define_event alloc_ok True ev ft a g = Some (r, g')"
  shows "forest_inv g' \<and> forest_inv (snd (mtcp_alloc_event alloc_ok ev g))
    \<and> (r \<noteq> MOS_NULL_EVENT \<longrightarrow> df_nodes g' r \<noteq> None)"
proof -
  have a: "forest_inv (snd (mtcp_alloc_event alloc_ok ev g))"
  proof (cases "dforest_search ev g")
    case (Some p)
    then have "df_nodes g p \<noteq> None" using assms(1) unfolding forest_inv_def forest_ok_def by metis
    then show ?thesis using Some assms(1) forest_inv_new[OF assms(1) _ assms(2)] by (simp add: mtcp_alloc_event_def Let_def)
  qed (use assms(1) in \<open>simp add: mtcp_alloc_event_def\<close>)
  have "forest_inv g' \<and> (r \<noteq> MOS_NULL_EVENT \<longrightarrow> df_nodes g' r \<noteq> None)"
  proof (cases "(r, g') = (MOS_NULL_EVENT, g)")
    case False
    then obtain f where f: "ft = Some f" "\<not> (case a of None \<Rightarrow> False | Some a \<Rightarrow> fa_len a > 0 \<and> fa_arg a = None)"
      using assms(3) by (cases ft) (auto simp: mtcp_define_event_def split: if_splits)
    then obtain p where p: "dforest_search ev g = Some p"
      using assms(3) False by (cases "dforest_search ev g") (auto simp: mtcp_define_event_def)
    then obtain pn where pn: "df_nodes g p = Some pn"
      using assms(3) f by (cases "df_nodes g p") (auto simp: mtcp_define_event_def)
    then obtain found where found: "find_event f a g (dn_kids pn) = Some found"
      using assms(3) f p by (cases "find_event f a g (dn_kids pn)") (auto simp: mtcp_define_event_def)
    note known = mtcp_define_event_def f p pn found
    show ?thesis
    proof (cases found)
      case (Some w)
      then have "(r, g') = (w, g)" using assms(3) by (simp add: known)
      then show ?thesis using find_event_node found Some assms(1) by simp
    next
      case None
      define arg where "arg = (if no_arg a then None else map_option (take (fa_len (the a))) (fa_arg (the a)))"
      define n where "n = \<lparr>dn_ft = Some f, dn_arg = arg, dn_parent = Some p, dn_kids = []\<rparr>"
      have ok: "alloc_ok" using assms(3) False None by (cases alloc_ok) (simp_all add: known)
      have "mtcp_define_event alloc_ok True ev ft a g =
          Some (g_evid g, add_kid p (g_evid g) (add_node (g_evid g) n (dforest_store (g_evid g) (g_evid g) (g\<lparr>g_evid := g_evid g + 1\<rparr>))))"
        using None ok by (simp add: known Let_def arg_def[symmetric] n_def[symmetric])
      then have "(r, g') = (g_evid g, add_kid p (g_evid g) (add_node (g_evid g) n (dforest_store (g_evid g) (g_evid g) (g\<lparr>g_evid := g_evid g + 1\<rparr>))))"
        using assms(3) by (simp only: option.inject)
      then have n: "dn_parent n = Some p" "r = g_evid g"
        "g' = dforest_store r r (add_kid p r (add_node r n (g\<lparr>g_evid := r + 1\<rparr>)))"
        by (simp_all add: store_add) (simp add: n_def)
      have "forest_inv (add_kid p r (add_node r n (g\<lparr>g_evid := r + 1\<rparr>)))"
        using forest_inv_new[OF assms(1) _ assms(2) n(1)] pn n(2) by simp
      then show ?thesis unfolding n(3) by (intro conjI impI forest_inv_store) (simp_all add: nodes_add)
    qed
  qed (use assms(1) in simp)
  then show ?thesis using a by blast
qed

text \<open>
  The forest of events stays a forest with the built-in events in their places: the
  numbers of the parents are smaller, what the table finds is a node, and the numbers go up.
  Events are added below any event the table knows; the copy of a filter's argument is
  assumed to succeed, and the numbers not to run out.
\<close>
lemma define_event_forest:
  assumes "forest_inv g" "g_evid g + 1 \<noteq> 0" "mtcp_define_event alloc_ok True ev ft a g = Some (r, g')"
  shows "forest_inv g' \<and> forest_inv (snd (mtcp_alloc_event alloc_ok ev g))
    \<and> (r \<noteq> MOS_NULL_EVENT \<longrightarrow> df_nodes g' r \<noteq> None)"
  by (rule define_event_inv[OF assms])

text \<open>A forest with one event, below the first built-in one.\<close>

definition demo_forest :: dforest where
  "demo_forest = snd (the (mtcp_define_event True True 1 (Some 7) None GlobInitEvent))"

lemma first_bev: "dforest_search 1 GlobInitEvent = Some 1" "df_nodes GlobInitEvent 1 = Some bev_node"
  using GlobInitEvent_facts(5,6)[of 0] by (simp_all add: NUM_BEV_def)

lemma demo_new: "mtcp_define_event True True 1 (Some 7) None GlobInitEvent = Some (4096, demo_forest)"
  by (simp add: demo_forest_def mtcp_define_event_def first_bev bev_node_def Let_def no_arg_def GlobInitEvent_facts(2) bev_limit_def NUM_BEV_def)

lemma demo_evid: "g_evid GlobInitEvent + 1 \<noteq> 0"
  by (simp add: GlobInitEvent_facts(2) bev_limit_def NUM_BEV_def)

lemma demo_inv: "forest_inv demo_forest"
  using define_event_inv[OF forest_inv_init demo_evid demo_new] by blast

lemma define_event_forest_witness:
  "forest_inv demo_forest \<and> df_nodes demo_forest 4096 \<noteq> None"
  using define_event_forest[OF forest_inv_init demo_evid demo_new] by (simp add: MOS_NULL_EVENT_def)

section \<open>Dispatch\<close>

lemma walk_kids_set: "set (concat (map h ks)) = (\<Union>k \<in> set ks. set (h k))"
  by auto

lemma below_antisym: "forest_ok g \<Longrightarrow> below g a b \<Longrightarrow> below g b a \<Longrightarrow> a = b"
  by (rule order.antisym; rule below_le)

lemma below_step:
  assumes "below g a x" "x \<noteq> a" "par g x = Some p"
  shows "below g a p"
  using assms(1)
proof (cases rule: rtranclp.cases)
  case (rtrancl_into_rtrancl y)
  then show ?thesis using assms(3) by simp
qed (use assms(2) in simp)

text \<open>Between a kid of \<open>e\<close> and \<open>y\<close> there is what is between \<open>e\<close> and \<open>y\<close>, without \<open>e\<close>.\<close>

lemma between_kid:
  assumes f: "forest_ok g" and k: "par g k = Some e" "below g k y"
  shows "below g e x \<and> below g x y \<longleftrightarrow> x = e \<or> below g k x \<and> below g x y"
proof
  have ek: "below g e k" using k(1) by auto
  assume x: "below g e x \<and> below g x y"
  have "below g k x \<or> below g x k" using below_linear[OF k(2)] x by blast
  then show "x = e \<or> below g k x \<and> below g x y"
  proof
    assume xk: "below g x k"
    have "below g x e" if "k \<noteq> x" by (rule below_step[OF xk that k(1)])
    then show ?thesis using x below_antisym[OF f] by auto
  qed (use x in simp)
next
  assume "x = e \<or> below g k x \<and> below g x y"
  moreover have "below g e k" using k(1) by auto
  ultimately show "below g e x \<and> below g x y" using k(2) by (auto intro: rtranclp_trans)
qed

lemma walk_ev_set:
  assumes f: "forest_ok g"
  shows "wf_tree g t \<Longrightarrow> set (walk_ev flt False t) =
    {(cb, y, arg_of g y) | cb y. (y, cb) \<in> regs t \<and> (\<forall>x. below g (en_ev t) x \<and> below g x y \<longrightarrow> accepts flt g x)}"
proof (induction t)
  case (ENode e f' c a ks)
  have t: "c = None" "f' = ft_of g e" "a = arg_of g e" "kids_ok g e ks" using ENode.prems unfolding wf_tree_kids by auto
  define P where "P y \<longleftrightarrow> (\<forall>x. below g e x \<and> below g x y \<longrightarrow> accepts flt g x)" for y
  define R where "R k = {(cb, y, arg_of g y) | cb y. (y, cb) \<in> regs k \<and> P y}" for k
  have out: "below g e y" if "(y, cb) \<in> regs (ENode e f' c a ks)" for y cb
    using wf_outs[OF ENode.prems wf_regs[OF ENode.prems that]] by simp
  show ?case
  proof (cases "accepts flt g e")
    case False
    then have "walk_ev flt False (ENode e f' c a ks) = []"
      by (auto simp: t(2,3) accepts_def split: option.splits)
    then show ?thesis using False out by (auto simp del: regs.simps walk_ev.simps)
  next
    case True
    have kid: "set (walk_ev flt False k) = R k" if k: "k \<in> set ks" for k
    proof (cases "own_leaf g e k")
      case own: True
      then obtain c0 where k0: "k = ENode e (ft_of g e) (Some c0) (arg_of g e) []" by (auto simp: own_leaf_def)
      have "accepts flt g x" if "below g e x" "below g x e" for x using below_antisym[OF f that] True by simp
      then have "P e" unfolding P_def by blast
      then have "R k = {(c0, e, arg_of g e)}" unfolding R_def k0 by auto
      moreover have "walk_ev flt False k = [(c0, e, arg_of g e)]"
        using True by (simp add: k0 accepts_def split: option.splits)
      ultimately show ?thesis by simp
    next
      case False
      then have kk: "par g (en_ev k) = Some e" "wf_tree g k" using kids_okD[OF t(4) k] by auto
      have "(\<forall>x. below g (en_ev k) x \<and> below g x y \<longrightarrow> accepts flt g x) \<longleftrightarrow> P y"
        if "(y, cb) \<in> regs k" for y cb
        unfolding P_def between_kid[OF f kk(1) wf_outs[OF kk(2) wf_regs[OF kk(2) that]]] using True by auto
      then show ?thesis unfolding ENode.IH[OF k kk(2)] R_def by blast
    qed
    have "walk_ev flt False (ENode e f' c a ks) = concat (map (walk_ev flt False) ks)"
      using True by (auto simp: t(1-3) accepts_def split: option.splits)
    then have "set (walk_ev flt False (ENode e f' c a ks)) = (\<Union>k \<in> set ks. R k)"
      using kid by (simp only: walk_kids_set) simp
    also have "\<dots> = {(cb, y, arg_of g y) | cb y. (y, cb) \<in> kregs ks \<and> P y}"
      by (auto simp: R_def kregs_def)
    finally show ?thesis unfolding t(1) outs_regs_kids P_def by simp
  qed
qed

lemma drop_bit_bev:
  assumes "forest_inv g" "par g e = Some 0" "i < NUM_BEV"
  shows "drop_bit i e = 1 \<longleftrightarrow> e = push_bit i 1"
proof
  assume d: "drop_bit i e = 1"
  have i: "i < 64" "i < 12" using assms(3) by (simp_all add: NUM_BEV_def)
  have q: "unat e div 2 ^ i = 1" using arg_cong[OF d, of unat] by (simp only: unat_drop_bit_eq) (simp add: drop_bit_eq_div)
  have "unat e = 2 ^ i + unat e mod 2 ^ i" using div_mult_mod_eq[of "unat e" "2 ^ i"] q by simp
  moreover have "unat e mod 2 ^ i < 2 ^ i" by simp
  ultimately have "unat e < 2 ^ i + 2 ^ i" by linarith
  then have "unat e < 2 ^ Suc i" by simp
  moreover have "(2::nat) ^ Suc i \<le> 2 ^ 12" using i by (intro power_increasing) auto
  ultimately have "e < bev_limit" using unat_bit_power[of 12] by (simp add: bev_limit_def word_less_nat_alt NUM_BEV_def)
  then obtain j where j: "j < NUM_BEV" "e = push_bit j 1" using assms(1,2) unfolding forest_inv_def by blast
  have "unat e = 2 ^ j" using j unat_bit_power[of j] by (simp add: NUM_BEV_def)
  then have "(2::nat) ^ j div 2 ^ i = 1" using q by simp
  have "i = j"
  proof (cases "i \<le> j")
    case True
    then have "(2::nat) ^ (j - i) = 1" using \<open>(2::nat) ^ j div 2 ^ i = 1\<close> by (simp add: power_diff)
    then show ?thesis using True by simp
  next
    case False
    then have "(2::nat) ^ j < 2 ^ i" by (intro power_strict_increasing) auto
    then show ?thesis using \<open>(2::nat) ^ j div 2 ^ i = 1\<close> by simp
  qed
  then show "e = push_bit i 1" using j by simp
next
  assume e: "e = push_bit i 1"
  have "i < 64" using assms(3) by (simp add: NUM_BEV_def)
  then have "unat (drop_bit i e) = unat (1 :: event)"
    unfolding e unat_drop_bit_eq unat_bit_power[OF \<open>i < 64\<close>] by (simp add: drop_bit_eq_div)
  then show "drop_bit i e = 1" by (rule unsigned_word_eqI)
qed

lemma wf_root_kids: "wf_root g t \<Longrightarrow> kids_ok g 0 (en_kids t)"
  by (cases t) (auto simp: wf_root_def wf_tree_kids simp del: wf_tree.simps)

lemma wf_root_kid:
  assumes "wf_root g t" "k \<in> set (en_kids t)"
  shows "par g (en_ev k) = Some 0" "wf_tree g k"
proof -
  have "regs k \<subseteq> regs t" using assms(2) by (cases t) auto
  then have "\<not> own_leaf g 0 k" using assms(1) own_leaf_regs[of g 0 k] by (force simp: wf_root_def)
  then show "par g (en_ev k) = Some 0" "wf_tree g k" using kids_okD[OF wf_root_kids[OF assms(1)] assms(2)] by auto
qed

lemma bevs_find:
  assumes "forest_inv g" "wf_root g t" "i < NUM_BEV"
  shows "bevs t i = Some b \<longleftrightarrow> b \<in> set (en_kids t) \<and> en_ev b = push_bit i 1"
proof -
  note kid = wf_root_kid[OF assms(2)]
  have is_bev: "drop_bit i (en_ev k) = 1 \<longleftrightarrow> en_ev k = push_bit i 1" if "k \<in> set (en_kids t)" for k
    by (rule drop_bit_bev[OF assms(1) kid(1)[OF that] assms(3)])
  have uniq: "k = k'" if "k \<in> set (en_kids t)" "k' \<in> set (en_kids t)" "en_ev k = en_ev k'" for k k'
    using wf_root_kids[OF assms(2)] that by (auto simp: kids_ok_def distinct_map inj_on_def)
  show ?thesis
  proof
    assume "bevs t i = Some b"
    then have "b \<in> set (en_kids t) \<and> drop_bit i (en_ev b) = 1"
      by (auto simp: bevs_def find_Some_iff) (metis nth_mem length_rev set_rev)
    then show "b \<in> set (en_kids t) \<and> en_ev b = push_bit i 1" using is_bev by auto
  next
    assume b: "b \<in> set (en_kids t) \<and> en_ev b = push_bit i 1"
    then have d: "drop_bit i (en_ev b) = 1" using is_bev by metis
    then obtain b' where b': "find (\<lambda>b. drop_bit i (en_ev b) = 1) (rev (en_kids t)) = Some b'"
      using b by (cases "find (\<lambda>b. drop_bit i (en_ev b) = 1) (rev (en_kids t))") (auto simp: find_None_iff)
    then have "b' \<in> set (en_kids t) \<and> drop_bit i (en_ev b') = 1" by (auto simp: find_Some_iff) (metis nth_mem length_rev set_rev)
    then have "b' = b" using is_bev[of b'] b uniq[of b' b] by auto
    then show "bevs t i = Some b" using b' by (simp add: bevs_def)
  qed
qed

lemma reg_bev:
  assumes "forest_inv g" "wf_root g t" "i < NUM_BEV"
  shows "(y, cb) \<in> regs t \<and> below g (push_bit i 1) y \<longleftrightarrow> (\<exists>b. bevs t i = Some b \<and> (y, cb) \<in> regs b)"
proof
  have f: "forest_ok g" and bp: "par g (push_bit i 1) = Some 0" using assms(1,3) by (auto simp: forest_inv_def)
  assume y: "(y, cb) \<in> regs t \<and> below g (push_bit i 1) y"
  then obtain k where k: "k \<in> set (en_kids t)" "(y, cb) \<in> regs k"
    using wf_tree_cb[of g t] assms(2) by (cases t) (auto simp: wf_root_def)
  note kk = wf_root_kid[OF assms(2) k(1)]
  have "en_ev k = push_bit i 1"
    using below_sibling[OF f kk(1) bp wf_outs[OF kk(2) wf_regs[OF kk(2) k(2)]]] y by blast
  then show "\<exists>b. bevs t i = Some b \<and> (y, cb) \<in> regs b" using bevs_find[OF assms, of k] k by blast
next
  assume "\<exists>b. bevs t i = Some b \<and> (y, cb) \<in> regs b"
  then obtain b where b: "b \<in> set (en_kids t)" "en_ev b = push_bit i 1" "(y, cb) \<in> regs b" using bevs_find[OF assms] by blast
  note kk = wf_root_kid[OF assms(2) b(1)]
  have "(y, cb) \<in> regs t" using b by (cases t) auto
  then show "(y, cb) \<in> regs t \<and> below g (push_bit i 1) y" using wf_outs[OF kk(2) wf_regs[OF kk(2) b(3)]] b(2) by simp
qed

lemma walk_bev: "en_ft t = None \<Longrightarrow> walk_ev flt True t = walk_ev flt False t"
  by (cases t) simp

text \<open>
  C35. For the built-in events set in \<open>evs\<close>, \<open>HandleCb\<close> calls exactly the callbacks registered
  for them or for events below them such that every filter accepts on the way down, the
  event's own included; each with its event and the event's argument.
\<close>
lemma HandleCb_calls:
  assumes "forest_inv g" "wf_root g t"
  shows "set (HandleCb flt t evs) =
    {(cb, y, arg_of g y) | cb y. (y, cb) \<in> regs t \<and>
       (\<exists>i < NUM_BEV. push_bit i 1 AND evs \<noteq> 0 \<and> below g (push_bit i 1) y
          \<and> (\<forall>x. below g (push_bit i 1) x \<and> below g x y \<longrightarrow> accepts flt g x))}"
proof -
  have f: "forest_ok g" using assms(1) by (simp add: forest_inv_def)
  define ok where "ok i y \<longleftrightarrow> (\<forall>x. below g (push_bit i 1) x \<and> below g x y \<longrightarrow> accepts flt g x)" for i y
  define calls where "calls i = (if push_bit i 1 AND evs = 0 then [] else case bevs t i of None \<Rightarrow> [] | Some b \<Rightarrow> walk_ev flt True b)" for i
  have walk: "set (walk_ev flt True b) = {(cb, y, arg_of g y) | cb y. (y, cb) \<in> regs b \<and> ok i y}"
    if i: "i < NUM_BEV" and b: "bevs t i = Some b" for i b
  proof -
    have b': "b \<in> set (en_kids t)" "en_ev b = push_bit i 1" using bevs_find[OF assms i] b by auto
    note w = wf_root_kid(2)[OF assms(2) b'(1)]
    have "ft_of g (push_bit i 1) = None" using assms(1) i by (simp add: forest_inv_def)
    then have ft: "en_ft b = None" using w b'(2) by (cases b) auto
    show ?thesis unfolding walk_bev[OF ft] walk_ev_set[OF f w] ok_def b'(2) ..
  qed
  have step: "set (calls i) = {(cb, y, arg_of g y) | cb y. (y, cb) \<in> regs t \<and> push_bit i 1 AND evs \<noteq> 0 \<and> below g (push_bit i 1) y \<and> ok i y}"
    if i: "i < NUM_BEV" for i
  proof -
    have "set (calls i) = {(cb, y, arg_of g y) | cb y. push_bit i 1 AND evs \<noteq> 0 \<and> (\<exists>b. bevs t i = Some b \<and> (y, cb) \<in> regs b) \<and> ok i y}"
      using walk[OF i] by (cases "bevs t i") (auto simp: calls_def)
    moreover have "(\<exists>b. bevs t i = Some b \<and> (y, cb) \<in> regs b) \<longleftrightarrow> (y, cb) \<in> regs t \<and> below g (push_bit i 1) y" for y cb
      using reg_bev[OF assms i] by (rule sym)
    ultimately show ?thesis by (simp only:) (simp add: conj_ac)
  qed
  have "HandleCb flt t evs = concat (map calls [0..<NUM_BEV])" unfolding HandleCb_def calls_def ..
  then have "set (HandleCb flt t evs) = (\<Union>i \<in> {0..<NUM_BEV}. set (calls i))" by (simp only: walk_kids_set) simp
  also have "\<dots> = (\<Union>i \<in> {0..<NUM_BEV}. {(cb, y, arg_of g y) | cb y. (y, cb) \<in> regs t \<and> push_bit i 1 AND evs \<noteq> 0 \<and> below g (push_bit i 1) y \<and> ok i y})"
    by (rule SUP_cong) (use step in auto)
  also have "\<dots> = {(cb, y, arg_of g y) | cb y. (y, cb) \<in> regs t \<and> (\<exists>i < NUM_BEV. push_bit i 1 AND evs \<noteq> 0 \<and> below g (push_bit i 1) y \<and> ok i y)}"
    by (simp only: atLeastLessThan_iff le0 simp_thms UN_iff set_eq_iff mem_Collect_eq Bex_def) blast
  finally show ?thesis unfolding ok_def .
qed

lemma demo_shape: "demo_forest = dforest_store 4096 4096 (add_kid 1 4096 (add_node 4096
    \<lparr>dn_ft = Some 7, dn_arg = None, dn_parent = Some 1, dn_kids = []\<rparr> (GlobInitEvent\<lparr>g_evid := 4097\<rparr>)))"
  by (simp add: demo_forest_def mtcp_define_event_def first_bev bev_node_def Let_def no_arg_def GlobInitEvent_facts(2)
      bev_limit_def NUM_BEV_def store_add)

lemma demo_par: "par demo_forest 1 = Some 0" "par demo_forest 4096 = Some 1" "arg_of demo_forest 4096 = None"
  using first_bev by (simp_all add: demo_shape par_add) (simp_all add: par_def bev_node_def arg_of_def add_kid_def add_node_def)

lemma demo_nodes: "df_nodes demo_forest 0 \<noteq> None" "df_nodes demo_forest 1 \<noteq> None" "df_nodes demo_forest 4096 \<noteq> None"
  using demo_inv demo_par by (auto simp: forest_inv_def par_def split: Option.bind_splits)

lemma demo_search: "dforest_search 1 demo_forest = Some 1"
  unfolding demo_shape search_store search_add by (simp add: first_bev)

definition demo_tree :: etree where
  "demo_tree = wrap demo_forest [0, 1, 4096] (leaf demo_forest 4096 3)"

lemma demo_root: "wf_root demo_forest demo_tree"
  unfolding demo_tree_def wf_root_def
  using wrap_wf[of demo_forest 0 "[1, 4096]" 4096 3] wrap_regs[of demo_forest "[0, 1, 4096]" 4096 3] demo_par demo_nodes
    wrap_ev[of demo_forest "[0, 1, 4096]" 4096 3] by (simp del: wrap.simps)

lemma HandleCb_calls_witness:
  "(3, 4096, None) \<in> set (HandleCb (\<lambda>_ _ _. True) demo_tree 1)"
proof -
  have "(4096, 3) \<in> regs demo_tree" by (simp add: demo_tree_def del: wrap.simps)
  moreover have "below demo_forest (push_bit 0 1) 4096" using demo_par by auto
  moreover have "push_bit 0 1 AND (1::u64) \<noteq> 0" "0 < NUM_BEV" by (simp_all add: NUM_BEV_def)
  moreover have "accepts (\<lambda>_ _ _. True) demo_forest x" for x by (simp add: accepts_def split: option.split)
  ultimately show ?thesis unfolding HandleCb_calls[OF demo_inv demo_root] using demo_par(3) by fastforce
qed

section \<open>Unregistering\<close>

lemma search_no_cb:
  "wf_tree g t \<Longrightarrow> tree_search ev t = Some x \<Longrightarrow> en_cb x = None"
  "kids_ok g e ks \<Longrightarrow> ev \<noteq> e \<Longrightarrow> forest_search ev ks = Some x \<Longrightarrow> en_cb x = None"
proof (induction ev t and ev ks arbitrary: and e rule: tree_search_forest_search.induct)
  case (1 ev e f c a ks)
  then show ?case by (auto simp: wf_tree_kids split: if_splits simp del: wf_tree.simps)
next
  case (3 ev t ts)
  have ts: "kids_ok g e ts" using 3(3) by (simp add: kids_ok_Cons)
  show ?case
  proof (cases "own_leaf g e t")
    case True
    then have "tree_search ev t = None" using 3(4) by (auto simp: own_leaf_def)
    then show ?thesis using 3(2)[OF _ ts 3(4)] 3(5) by simp
  next
    case False
    then have "wf_tree g t" using 3(3) by (simp add: kids_ok_Cons)
    then show ?thesis using 3(1) 3(2)[OF _ ts 3(4)] 3(5) by (auto split: option.splits)
  qed
qed simp

text \<open>
  C37. Unregistering always fails and changes nothing: in a tree that registrations have
  built, the search for an event stops at the event's own node, which has no callback; the
  callback is in a node below it with the same event.
\<close>
lemma UnregCb_fails:
  assumes "slot_ok g p s"
  shows "UnregCb hash alloc_ok p ev s = Some (-1, p, s)"
  using assms search_no_cb(1)[of g _ ev]
  by (auto simp: UnregCb_def slot_ok_def wf_root_def split: option.splits)

definition demo_trees :: ev_state where
  "demo_trees = \<lparr>ev_store = the (kvs_create True True True 2 2), ev_trees = [\<lparr>st_ref_cnt = 1, st_id = 9, st_root = demo_tree\<rparr>]\<rparr>"

lemma demo_slot: "slot_ok demo_forest (Some 0) demo_trees"
  using demo_root by (simp add: slot_ok_def demo_trees_def)

lemma UnregCb_fails_witness:
  "UnregCb (\<lambda>_ _. 5) True (Some 0) 4096 demo_trees = Some (-1, Some 0, demo_trees)"
  by (rule UnregCb_fails[OF demo_slot])


end
