(* ===== verification/Spec2Isabelle.thy ===== *)
theory Spec2Isabelle
  imports Stream_Queue_Spsc Mem_Pool Kv_Store Send_Buffer Recv_Buffer
    Rss_Hash Addr_Pool Tcp_State Conn_Lists Event_Queue Tcp_Options Tcp_Machine Stream_End Tcp_Monitor Tcp_Send Tcp_Flush
    Send_Life Tcp_Timer Timer_Facts Tcp_Input Monitor_Facts Pipe_Facts App_Calls Api_Facts
    Event_Facts
begin

text \<open>
  A verification library for the mOS networking stack: the user-level TCP stack of
  \<open>src/core/src\<close>, which serves end hosts and, for middleboxes, follows both directions of
  the connections it only watches.  Names of files below are relative to that directory.

  \<^bold>\<open>The program.\<close>  Every core runs one mTCP thread.  It takes packets from the interfaces
  (\<open>core.c\<close>, \<open>ip_in.c\<close>), finds or creates the stream of each (\<open>tcp.c\<close>, \<open>fhash.c\<close>,
  \<open>tcp_stream.c\<close>), runs the receive half of the TCP state machine on it (\<open>tcp_in.c\<close>), lets the
  timers expire (\<open>timer.c\<close>), carries out what the applications asked for, and serves the lists
  of streams that have something to send (\<open>tcp_out.c\<close>, \<open>ip_out.c\<close>).  The applications see
  sockets and events (\<open>socket.c\<close>, \<open>eventpoll.c\<close>) and talk to the thread through pointer
  queues.  A monitored connection has two streams, one for each direction, tied by
  \<open>pair_stream\<close>; the monitors' callbacks are called before and after each update.

  \<^bold>\<open>Data structures.\<close>  \<open>Mos_Prelude\<close>: words of C's widths, byte order, lists.
  \<open>Ring_Queues\<close>: the four pointer queues (\<open>tcp_sb_queue.c\<close>, \<open>tcp_rb_frag_queue.c\<close>,
  \<open>tcp_stream_queue.c\<close>) refine bounded FIFO lists.  \<open>Stream_Queue_Spsc\<close>: the stream queue
  between two threads, every load and store a step of its own.  \<open>Mem_Pool\<close>: the chunk
  allocator (\<open>memory_mgt.c\<close>), its free list kept inside the free chunks.  \<open>Kv_Store\<close>
  (\<open>key_value_store.c\<close>): a bounded finite map.  \<open>Flow_Table\<close> (\<open>fhash.c\<close>): a map from flows to
  streams.  \<open>Send_Buffer\<close> (\<open>tcp_send_buffer.c\<close>): a byte FIFO with a sequence number at its
  head.  \<open>Recv_Data\<close> and \<open>Recv_Buffer\<close> (\<open>tcp_rb.c\<close>): the bytes of the reassembly buffer, and
  its fragments, window and overlap policies.  \<open>Addr_Pool\<close> (\<open>addr_pool.c\<close>): local addresses
  for outgoing connections.  \<open>Rss_Hash\<close> (\<open>util.c\<close>): the Toeplitz hash that assigns a
  connection to a core.

  \<^bold>\<open>The TCP engine.\<close>  \<open>Tcp_State\<close> has the records of streams, sockets and the per-core
  manager, with C's field names; a pointer to an object of a map is its number, an embedded
  \<open>TAILQ\<close> the list of the numbers on it.  \<open>Conn_Lists\<close>: the control, send and ack lists of a
  sender, the retransmission wheel, the time-wait and the inactivity list, each with its
  counter and the flags in the streams.  \<open>Event_Queue\<close>: epoll queues and the functions that
  raise events.  \<open>Tcp_Options\<close>: options and checksum (\<open>tcp_util.c\<close>).  \<open>Tcp_Ack\<close>,
  \<open>Tcp_Payload\<close>, \<open>Tcp_In\<close>: acknowledgements, data and the state handlers of \<open>tcp_in.c\<close>, up to
  \<open>UpdateRecvTCPContext\<close>; \<open>Tcp_Machine\<close> shows which edges of the state machine they take.
  \<open>Sockets\<close> (\<open>socket.c\<close>), \<open>Stream_Life\<close> (creation and destruction of streams); \<open>Stream_Inv\<close>
  and \<open>Stream_End\<close> have the invariant \<open>life_inv\<close> of the live streams: lists and flags agree,
  the three pools hold exactly what is not in use, the flow table finds exactly the live
  streams, pairs point at each other.  \<open>Stream_Frame\<close>: what the functions the packet handlers
  call leave alone.  \<open>Tcp_Monitor\<close>: \<open>UpdateMonitor\<close> and what it calls.  \<open>Tcp_Send\<close>: building
  segments, flushing, the three lists of a sender; \<open>Tcp_Flush\<close> and \<open>Send_Life\<close> show what
  sending puts on the wire and what it keeps.  \<open>Tcp_Timer\<close> and \<open>Timer_Facts\<close>: timeouts.
  \<open>Tcp_Input\<close>: from the bytes of a packet to its stream; \<open>Monitor_Facts\<close>: a monitored
  connection that does not get its second stream.

  \<^bold>\<open>The applications.\<close>  \<open>Pipes\<close> (\<open>pipe.c\<close>) and \<open>Pipe_Facts\<close>: a pipe is a bounded byte FIFO.
  \<open>App_Calls\<close>: what the thread does for the applications in a round of its main loop
  (\<open>core.c\<close>): the queues of connections to open, to close, to reset and to destroy, the buffered
  events, the user timers.  \<open>Sock_Api\<close>: the socket calls (\<open>api.c\<close>) and the epoll calls that need
  sockets; a call is one step, and a blocking one that would wait returns \<open>WAITS\<close>.  \<open>Mon_Api\<close>: the
  calls of monitors (\<open>mos_api.c\<close> and the monitor part of \<open>api.c\<close>): peeking, fragments, options,
  buffer management.  \<open>Pkt_Edit\<close>: \<open>mtcp_setlastpkt\<close>, on the bytes of the frame.  \<open>Event_Tree\<close>
  (\<open>scalable_event.c\<close>): the forest of events, the shared trees of callbacks, registration and
  dispatch.  \<open>Api_Facts\<close> shows that the calls keep every socket's object one of its type, what
  a write and an edit do, and what closing a listener or a pipe breaks; \<open>Event_Facts\<close> that a
  tree of callbacks is the set of what was registered, whether its nodes are moved or copied,
  that dispatch calls exactly the callbacks whose filters accept, and that nothing can be
  unregistered.

  \<^bold>\<open>How a state is read.\<close>  One record per C structure, the manager passed from call to call.
  Integers that can wrap are words of the C type's width; counters that cannot reach the
  bounds of \<open>int\<close> are \<open>int\<close> or \<open>nat\<close>.  A result \<open>None\<close> is a place the code must not reach: a
  failed \<open>assert\<close> or \<open>exit\<close>, a null pointer that is dereferenced, a division by zero, an
  access outside an array, or a loop that does not return.  The assertions count as
  in a build with them: \<open>Makefile.in\<close> passes \<open>-DNDEBUG\<close>, under which execution goes on past
  them.  What the code does not decide is a parameter of the model in \<open>mos_config\<close>: the
  configuration, the routes and addresses, whether a write buffer or memory is available
  (\<open>tx_ok\<close>, \<open>malloc_ok\<close>), and the verdicts of the BPF filters.  A segment handed to the
  interface is appended to \<open>wire\<close>, a callback that is called to \<open>cb_trace\<close>; what a callback
  does in turn is the application's.  Locks are left out: the model runs the calls one after
  the other, except for the stream queue, whose two ends run without a common lock.

  \<^bold>\<open>Interfaces.\<close>  \<open>bounded_fifo\<close> (\<open>Ring_Queues\<close>) is the contract of a queue, and every run
  of it is that of a bounded list; it is interpreted on the four pointer queues and on the
  epoll queue.  \<open>lookup_table\<close> and \<open>bounded_table\<close> (\<open>Kv_Store\<close>) are the contract of a keyed
  table, interpreted on the key-value store and the flow table.  \<open>intrusive_list\<close> with its
  extensions \<open>each_counted\<close> and \<open>total_counted\<close> (\<open>Conn_Lists\<close>) say that flags in the streams,
  lists and counters agree; they are interpreted on the six lists a stream can be on.

  \<^bold>\<open>Bounds and fuel.\<close>  Loops over lists are structural.  \<open>flush_loop\<close> and the ring buffer's
  loops have termination proofs; \<open>parse_opts\<close>, \<open>parse_ts\<close> and the loop of \<open>CheckRtmTimeout\<close>
  are partial functions, whose \<open>None\<close> is not returning: when the parsers return is a
  theorem, and so is that they may not.  The loops bounded by \<open>thresh\<close> or by a counter take
  that number.

  \<^bold>\<open>Not modelled.\<close>  Packet I/O (\<open>dpdk_module.c\<close>, \<open>netmap_module.c\<close>, \<open>pcap_module.c\<close>,
  \<open>psio\<close>), the configuration parser, logging, thread start-up and statistics in \<open>core.c\<close>,
  \<open>config.c\<close>, \<open>debug.c\<close>, \<open>logger.c\<close>, \<open>cpu.c\<close>; ARP, ICMP and the Ethernet layer; the vendored BPF compiler and interpreter under \<open>bpf\<close>, which is a parameter;
  \<open>event_callback.c\<close>, which the build with \<open>NEWEV\<close> leaves out; the samples.  Code under
  preprocessor switches that the build leaves undefined (SACK, dynamic resizing of receive
  buffers, loss statistics, dumping) is left out.
\<close>

end
